(* ===== verification/Prelude.thy ===== *)
theory Prelude
  imports Main "HOL-Library.Word" "HOL-Library.Sublist"
begin

text \<open>
  Shared vocabulary of the TermBridge development: the machine types, the byte/text conversions
  and the slice operations of the Rust standard library that several components use
  (\<open>split\<close>, \<open>lines\<close>, \<open>trim\<close>, \<open>windows().position\<close>,
  \<open>copy_from_slice\<close>), with the lemmas about them that the components share.
  Terminal data is a list of \<open>8 word\<close>; a Rust \<open>String\<close> is its UTF-8 bytes, as
  a HOL \<open>string\<close>.
\<close>

section \<open>Types and collections of facts\<close>

type_synonym byte = "8 word"
type_synonym bytes = "8 word list"
type_synonym u16 = "16 word"
type_synonym u32 = "32 word"
type_synonym u64 = "64 word"

named_theorems wf_intros \<open>introduction rules of well-formedness invariants\<close>
named_theorems op_simps \<open>unfolding rules of straight-line operations\<close>

definition str_bytes :: "string \<Rightarrow> bytes" where
  "str_bytes s = map of_char s"

definition bytes_str :: "bytes \<Rightarrow> string" where
  "bytes_str bs = map (\<lambda>b. char_of (unat b)) bs"

lemma length_str_bytes [simp]: "length (str_bytes s) = length s"
  by (simp add: str_bytes_def)

lemma length_bytes_str [simp]: "length (bytes_str bs) = length bs"
  by (simp add: bytes_str_def)

lemma unat_of_char: "unat (of_char c :: byte) = of_char c"
proof -
  have "(of_char c :: byte) = of_nat (of_char c)"
    by (simp only: of_nat_of_char)
  moreover have "(of_char c :: nat) < 256"
    using of_char_mod_256 [of c, where ?'a = nat] by (metis mod_less_divisor zero_less_numeral)
  ultimately show ?thesis by (simp add: unat_of_nat)
qed

lemma bytes_str_of_str_bytes [simp]: "bytes_str (str_bytes s) = s"
  by (simp add: bytes_str_def str_bytes_def comp_def unat_of_char)

lemma str_bytes_of_bytes_str [simp]: "str_bytes (bytes_str bs) = bs"
proof -
  have "(of_char (char_of (unat b)) :: byte) = b" for b :: byte
  proof -
    have "(of_char (char_of (unat b)) :: byte) = of_nat (of_char (char_of (unat b)))" by (simp only: of_nat_of_char)
    also have "\<dots> = of_nat (unat b mod 256)" by (simp only: of_char_of)
    also have "\<dots> = b" using unsigned_less [of b, where ?'a = nat] by simp
    finally show ?thesis .
  qed
  then show ?thesis by (simp add: bytes_str_def str_bytes_def comp_def)
qed

section \<open>Slices\<close>

text \<open>\<open>buf[pos..pos + xs.len()].copy_from_slice(xs)\<close>.\<close>

definition overwrite :: "'a list \<Rightarrow> nat \<Rightarrow> 'a list \<Rightarrow> 'a list" where
  "overwrite buf pos xs = take pos buf @ xs @ drop (pos + length xs) buf"

lemma length_overwrite [simp]:
  "pos + length xs \<le> length buf \<Longrightarrow> length (overwrite buf pos xs) = length buf"
  by (simp add: overwrite_def)

text \<open>The last \<open>n\<close> elements of a list, and the elements from an absolute position on.\<close>

definition last_n :: "nat \<Rightarrow> 'a list \<Rightarrow> 'a list" where
  "last_n n xs = drop (length xs - n) xs"

lemma length_last_n [simp]: "length (last_n n xs) = min n (length xs)"
  by (simp add: last_n_def)

lemma last_n_all [simp]: "length xs \<le> n \<Longrightarrow> last_n n xs = xs"
  by (simp add: last_n_def)

lemma last_n_append:
  "length ys \<le> n \<Longrightarrow> n \<le> length xs \<Longrightarrow> last_n n (xs @ ys) = drop (length ys) (last_n n xs) @ ys"
  by (simp add: last_n_def add.commute)

lemma last_n_append_long: "n \<le> length ys \<Longrightarrow> last_n n (xs @ ys) = drop (length ys - n) ys"
  by (simp add: last_n_def)

lemma drop_last_n: "length xs - n \<le> k \<Longrightarrow> drop (k - (length xs - n)) (last_n n xs) = drop k xs"
  by (simp add: last_n_def)

lemma last_n_last_n: "last_n n (last_n k xs) = last_n (min n k) xs"
  by (cases "k \<le> length xs") (auto simp: last_n_def min_def)

lemma suffix_single: "suffix [c] xs \<longleftrightarrow> xs \<noteq> [] \<and> last xs = c"
  by (cases xs rule: rev_cases) (auto simp: suffix_def)

section \<open>Splitting and joining\<close>

text \<open>\<open>slice.split(|x| x == d)\<close> and \<open>str.split(d)\<close>: never empty, the
  empty input gives one empty piece.\<close>

fun split_on :: "'a \<Rightarrow> 'a list \<Rightarrow> 'a list list" where
  "split_on d [] = [[]]"
| "split_on d (x # xs) =
     (if x = d then [] # split_on d xs
      else (case split_on d xs of [] \<Rightarrow> [[x]] | y # ys \<Rightarrow> (x # y) # ys))"

fun join_on :: "'a list \<Rightarrow> 'a list list \<Rightarrow> 'a list" where
  "join_on sep [] = []"
| "join_on sep [x] = x"
| "join_on sep (x # y # zs) = x @ sep @ join_on sep (y # zs)"

lemma split_on_not_Nil [simp]: "split_on d xs \<noteq> []"
  by (induction xs) (auto split: list.splits)

lemma join_on_Cons: "xs \<noteq> [] \<Longrightarrow> join_on sep (x # xs) = x @ sep @ join_on sep xs"
  by (cases xs) auto

lemma join_split_on [simp]: "join_on [d] (split_on d xs) = xs"
proof (induction xs)
  case (Cons x xs)
  show ?case
  proof (cases "split_on d xs")
    case (Cons y ys)
    with Cons.IH show ?thesis by (cases ys) (auto simp: join_on_Cons)
  qed simp
qed simp

lemma split_on_append: "split_on d (xs @ d # ys) = split_on d xs @ split_on d ys"
  by (induction xs) (auto split: list.splits)

lemma split_on_single: "d \<notin> set xs \<Longrightarrow> split_on d xs = [xs]"
  by (induction xs) auto

lemma split_on_pieces: "p \<in> set (split_on d xs) \<Longrightarrow> d \<notin> set p"
  by (induction xs arbitrary: p) (fastforce split: if_splits list.splits)+

lemma split_on_join_on:
  "ps \<noteq> [] \<Longrightarrow> \<forall>p \<in> set ps. d \<notin> set p \<Longrightarrow> split_on d (join_on [d] ps) = ps"
proof (induction "[d]" ps rule: join_on.induct)
  case (2 x)
  then show ?case by (simp add: split_on_single)
next
  case (3 x y zs)
  then show ?case by (simp add: split_on_append split_on_single)
qed simp

lemma join_on_append:
  "xs \<noteq> [] \<Longrightarrow> ys \<noteq> [] \<Longrightarrow> join_on sep (xs @ ys) = join_on sep xs @ sep @ join_on sep ys"
  by (induction sep xs rule: join_on.induct) (auto simp: join_on_Cons)

lemma count_join_on:
  "\<forall>p \<in> set ps. d \<notin> set p \<Longrightarrow> count_list (join_on [d] ps) d = length ps - 1"
  by (induction "[d]" ps rule: join_on.induct) auto

lemma length_split_on: "length (split_on d xs) = Suc (count_list xs d)"
  by (induction xs) (auto split: list.splits)

lemma split_on_eq_empty: "split_on d xs = [[]] \<longleftrightarrow> xs = []"
  by (metis join_on.simps(2) join_split_on split_on.simps(1))

lemma last_split_on_empty: "last (split_on d xs) = [] \<longleftrightarrow> xs = [] \<or> last xs = d"
proof (induction xs)
  case (Cons x xs)
  then show ?case
    using split_on_eq_empty [of d xs] by (auto split: list.splits if_splits)
qed simp

text \<open>The pieces without the artefact of a final separator, as \<open>tail\<close>,
  \<open>extract_context\<close> and \<open>lines\<close> drop it.\<close>

definition drop_last_empty :: "'a list list \<Rightarrow> 'a list list" where
  "drop_last_empty ls = (if ls \<noteq> [] \<and> last ls = [] then butlast ls else ls)"

section \<open>Association lists\<close>

lemma map_of_filter_ne [simp]:
  "map_of (filter (\<lambda>p. fst p \<noteq> k) xs) j = (if j = k then None else map_of xs j)"
  by (induction xs) auto

lemma distinct_filter_fst: "distinct (map fst xs) \<Longrightarrow> distinct (map fst (filter P xs))"
  by (induction xs) auto

end
