(* ===== verification/Ring_Buffer.thy ===== *)
theory Ring_Buffer
  imports Prelude
begin

text \<open>
  The two ring buffers: \<open>OutputRingBuffer\<close> of the MCP server (src/domain/output.rs) and
  \<open>RingBuffer\<close> of the remote daemon (agentd/src/buffer.rs).  Both keep a physical
  circular array with a write position and a monotone counter of all bytes ever written, the
  counter being the absolute cursor of the protocol.  The state \<open>BufferInner\<close> is the same
  in both files, and so is the body of \<open>write\<close>; the read operations differ.

  The counter is a \<open>u64\<close> in the code and a natural number here: it wraps only after
  \<open>2 ^ 64\<close> bytes of terminal output.
\<close>

section \<open>State and construction\<close>

record ring =
  rb_buf :: bytes
  rb_size :: nat
  rb_head :: nat
  rb_written :: nat

definition DEFAULT_BUFFER_SIZE :: nat where "DEFAULT_BUFFER_SIZE = 1024 * 1024"
definition MIN_BUFFER_SIZE :: nat where "MIN_BUFFER_SIZE = 64 * 1024"
definition MAX_BUFFER_SIZE :: nat where "MAX_BUFFER_SIZE = 32 * 1024 * 1024"

definition new_raw :: "nat \<Rightarrow> ring" where
  "new_raw sz = \<lparr>rb_buf = replicate sz 0, rb_size = sz, rb_head = 0, rb_written = 0\<rparr>"

definition new :: "nat \<Rightarrow> ring" where
  "new sz = new_raw (max MIN_BUFFER_SIZE (min sz MAX_BUFFER_SIZE))"

section \<open>Writing\<close>

text \<open>
  The copy loop of \<open>write\<close>: copies up to the physical end, wraps the head, continues.  In the
  code an iteration that copies nothing would repeat forever; \<open>copy_in_progress\<close> shows
  that this cannot happen while the head is inside the array, which is what the second test
  stands for.
\<close>

function copy_in :: "nat \<Rightarrow> bytes \<Rightarrow> nat \<Rightarrow> bytes \<Rightarrow> bytes \<times> nat" where
  "copy_in sz buf head data =
     (if data = [] then (buf, head)
      else let space = sz - head; n = min (length data) space
           in if n = 0 then (buf, head)
              else copy_in sz (overwrite buf head (take n data)) ((head + n) mod sz) (drop n data))"
  by pat_completeness auto
termination
  by (relation "measure (\<lambda>(sz, buf, head, data). length data)") auto

declare copy_in.simps [simp del]

definition rb_write :: "ring \<Rightarrow> bytes \<Rightarrow> ring" where
  "rb_write g data =
     (if data = [] then g
      else let len = length data
           in if len \<ge> rb_size g
              then g\<lparr>rb_buf := drop (len - rb_size g) data, rb_head := 0,
                     rb_written := rb_written g + len\<rparr>
              else let (buf, head) = copy_in (rb_size g) (rb_buf g) (rb_head g) data
                   in g\<lparr>rb_buf := buf, rb_head := head, rb_written := rb_written g + len\<rparr>)"

section \<open>Reading\<close>

text \<open>The read loop of \<open>read_since_inner\<close> and \<open>read_range\<close>, the same in both files.\<close>

function copy_out :: "nat \<Rightarrow> bytes \<Rightarrow> nat \<Rightarrow> nat \<Rightarrow> bytes" where
  "copy_out sz buf phys to_read =
     (if to_read = 0 then []
      else let n = min (sz - phys) to_read
           in if n = 0 then []
              else take n (drop phys buf) @ copy_out sz buf ((phys + n) mod sz) (to_read - n))"
  by pat_completeness auto
termination
  by (relation "measure (\<lambda>(sz, buf, phys, to_read). to_read)") auto

declare copy_out.simps [simp del]

definition earliest :: "ring \<Rightarrow> nat" where
  "earliest g = rb_written g - rb_size g"

definition start_phys :: "ring \<Rightarrow> nat \<Rightarrow> nat" where
  "start_phys g start =
     (if rb_written g \<le> rb_size g then start
      else (rb_head g + (start - earliest g)) mod rb_size g)"

text \<open>\<open>read_since_inner(g, cursor, max_bytes)\<close>: the bytes and the cursor after them.\<close>

definition read_since_inner :: "ring \<Rightarrow> nat \<Rightarrow> nat option \<Rightarrow> bytes \<times> nat" where
  "read_since_inner g cursor max_bytes =
     (if cursor \<ge> rb_written g then ([], rb_written g)
      else let start = max cursor (earliest g);
               available = rb_written g - start;
               to_read = (case max_bytes of None \<Rightarrow> available | Some m \<Rightarrow> min available m)
           in if to_read = 0 then ([], start)
              else (copy_out (rb_size g) (rb_buf g) (start_phys g start) to_read, start + to_read))"

definition is_truncated :: "ring \<Rightarrow> nat \<Rightarrow> bool" where
  "is_truncated g cursor =
     (if rb_written g \<le> rb_size g then cursor > rb_written g
      else cursor < rb_written g - rb_size g \<or> cursor > rb_written g)"

definition read_since :: "ring \<Rightarrow> nat \<Rightarrow> bytes" where
  "read_since g cursor = fst (read_since_inner g cursor None)"

record read_since_result =
  rs_output :: bytes
  rs_new_cursor :: nat
  rs_has_more :: bool
  rs_is_truncated :: bool

definition read_since_max :: "ring \<Rightarrow> nat \<Rightarrow> nat \<Rightarrow> read_since_result" where
  "read_since_max g cursor max_bytes =
     (let (output, new_cursor) = read_since_inner g cursor (Some max_bytes);
          available = rb_written g - new_cursor
      in \<lparr>rs_output = output, rs_new_cursor = new_cursor, rs_has_more = (available > 0),
          rs_is_truncated = is_truncated g cursor\<rparr>)"

definition NL :: byte where "NL = 10"

text \<open>\<open>tail(n_lines)\<close>: the last lines of the whole retained content, joined by newlines.\<close>

definition tail :: "ring \<Rightarrow> nat \<Rightarrow> bytes" where
  "tail g n_lines =
     (if n_lines = 0 then []
      else let full = fst (read_since_inner g 0 None);
               lines = split_on NL full;
               total = length lines;
               effective = (if total > 0 \<and> lines ! (total - 1) = [] then total - 1 else total)
           in if effective = 0 then []
              else let start = effective - n_lines
                   in join_on [NL] (drop start (take effective lines)))"

section \<open>The daemon's buffer\<close>

text \<open>
  agentd's buffer has the same state and the same \<open>write\<close>; its constructor and its read differ.
\<close>

definition AGENTD_DEFAULT_BUFFER_SIZE :: nat where
  "AGENTD_DEFAULT_BUFFER_SIZE = 10 * 1024 * 1024"

definition agentd_new :: "nat \<Rightarrow> ring" where
  "agentd_new sz =
     new_raw (if sz = 0 then AGENTD_DEFAULT_BUFFER_SIZE else max sz MIN_BUFFER_SIZE)"

record agentd_read =
  ar_cursor_start :: nat
  ar_cursor_end :: nat
  ar_is_truncated :: bool
  ar_data :: bytes

definition agentd_read_range :: "ring \<Rightarrow> nat \<Rightarrow> nat \<Rightarrow> bytes" where
  "agentd_read_range g start n =
     (if n = 0 then [] else copy_out (rb_size g) (rb_buf g) (start_phys g start) n)"

definition agentd_read_since :: "ring \<Rightarrow> nat \<Rightarrow> agentd_read" where
  "agentd_read_since g since =
     (if since \<ge> rb_written g
      then \<lparr>ar_cursor_start = since, ar_cursor_end = rb_written g, ar_is_truncated = False, ar_data = []\<rparr>
      else let start = max since (earliest g); available = rb_written g - start
           in \<lparr>ar_cursor_start = start, ar_cursor_end = rb_written g,
               ar_is_truncated = (since < earliest g),
               ar_data = agentd_read_range g start available\<rparr>)"

section \<open>Abstraction: the stream of all bytes written\<close>

text \<open>
  \<open>represents g s\<close>: the ring \<open>g\<close> is in a state the code can reach after writing the
  stream \<open>s\<close>.  Until the array has filled once, the data lies at the front and the head is
  the counter; afterwards the array read from the head on is the last \<open>size\<close> bytes of the stream.
\<close>

definition ring_wf :: "ring \<Rightarrow> bool" where
  "ring_wf g \<longleftrightarrow> 0 < rb_size g \<and> length (rb_buf g) = rb_size g \<and> rb_head g < rb_size g"

definition unrolled :: "ring \<Rightarrow> bytes" where
  "unrolled g = drop (rb_head g) (rb_buf g) @ take (rb_head g) (rb_buf g)"

definition represents :: "ring \<Rightarrow> bytes \<Rightarrow> bool" where
  "represents g s \<longleftrightarrow> ring_wf g \<and> rb_written g = length s \<and>
     (if length s \<le> rb_size g
      then rb_head g = length s mod rb_size g \<and> take (length s) (rb_buf g) = s
      else unrolled g = last_n (rb_size g) s)"

lemma represents_wf [dest]: "represents g s \<Longrightarrow> ring_wf g"
  by (simp add: represents_def)

lemma represents_written: "represents g s \<Longrightarrow> rb_written g = length s"
  by (simp add: represents_def)

lemma represents_full: "represents g s \<Longrightarrow> rb_size g \<le> length s \<Longrightarrow> unrolled g = last_n (rb_size g) s"
  by (cases "length s = rb_size g") (auto simp: represents_def unrolled_def ring_wf_def)

lemma represents_new_raw [wf_intros]: "0 < n \<Longrightarrow> represents (new_raw n) []"
  by (simp add: represents_def new_raw_def ring_wf_def)

lemma represents_new [wf_intros]: "represents (new n) []"
  unfolding new_def by (rule represents_new_raw) (simp add: MIN_BUFFER_SIZE_def)

lemma represents_agentd_new [wf_intros]: "represents (agentd_new n) []"
  unfolding agentd_new_def
  by (rule represents_new_raw) (auto simp: MIN_BUFFER_SIZE_def AGENTD_DEFAULT_BUFFER_SIZE_def max_def)


section \<open>Write refines appending to the stream\<close>

lemma copy_in_progress:
  "head < sz \<Longrightarrow> data \<noteq> [] \<Longrightarrow> 0 < min (length data) (sz - head)"
  by simp

text \<open>One iteration of the copy loop: a chunk that fits before the physical end.\<close>

lemma represents_chunk:
  assumes rep: "represents g s" and fits: "length c \<le> rb_size g - rb_head g"
  shows "represents (g\<lparr>rb_buf := overwrite (rb_buf g) (rb_head g) c,
    rb_head := (rb_head g + length c) mod rb_size g, rb_written := rb_written g + length c\<rparr>) (s @ c)"
proof -
  let ?n = "rb_size g" and ?h = "rb_head g" and ?b = "rb_buf g" and ?k = "length c"
  let ?g = "g\<lparr>rb_buf := overwrite ?b ?h c, rb_head := (?h + ?k) mod ?n,
    rb_written := rb_written g + ?k\<rparr>"
  from rep have wf: "0 < ?n" "length ?b = ?n" "?h < ?n" and w: "rb_written g = length s"
    by (auto simp: represents_def ring_wf_def)
  have wf': "ring_wf ?g" using wf fits by (simp add: ring_wf_def)
  show ?thesis
  proof (cases "length s < ?n")
    case True
    then have h: "?h = length s" and pre: "take (length s) ?b = s"
      using rep by (auto simp: represents_def)
    show ?thesis
      using True wf' w h pre fits wf
      by (auto simp: represents_def overwrite_def)
  next
    case False
    then have un: "unrolled g = last_n ?n s" using represents_full [OF rep] by simp
    have ls: "last_n ?n (s @ c) = drop ?k (unrolled g) @ c"
      using False fits wf un by (subst last_n_append) auto
    have dr: "drop ?k (unrolled g) = drop (?h + ?k) ?b @ take ?h ?b"
      using wf fits by (simp add: unrolled_def add.commute)
    have "unrolled ?g = drop (?h + ?k) ?b @ take ?h ?b @ c"
    proof (cases "?h + ?k = ?n")
      case True
      then show ?thesis using wf by (simp add: unrolled_def overwrite_def)
    next
      case False
      then have "?h + ?k < ?n" using fits wf by simp
      then show ?thesis using wf by (simp add: unrolled_def overwrite_def)
    qed
    then have "unrolled ?g = last_n ?n (s @ c)" using ls dr by simp
    moreover have "?n < length (s @ c)" if "c \<noteq> []" using False that by (cases c) auto
    ultimately show ?thesis
      using wf' w False rep by (cases "c = []") (auto simp: represents_def overwrite_def)
  qed
qed

lemma represents_copy_in:
  assumes "represents g s"
  shows "represents (g\<lparr>rb_buf := fst (copy_in (rb_size g) (rb_buf g) (rb_head g) data),
    rb_head := snd (copy_in (rb_size g) (rb_buf g) (rb_head g) data),
    rb_written := rb_written g + length data\<rparr>) (s @ data)"
  using assms
proof (induction "length data" arbitrary: g s data rule: less_induct)
  case less
  let ?n = "min (length data) (rb_size g - rb_head g)"
  let ?g = "g\<lparr>rb_buf := overwrite (rb_buf g) (rb_head g) (take ?n data),
    rb_head := (rb_head g + ?n) mod rb_size g, rb_written := rb_written g + ?n\<rparr>"
  show ?case
  proof (cases "data = []")
    case True
    then show ?thesis using less.prems by (simp add: copy_in.simps)
  next
    case False
    have n: "0 < ?n" using less.prems False by (auto simp: represents_def ring_wf_def)
    then have nz: "?n \<noteq> 0" by blast
    have step: "represents ?g (s @ take ?n data)"
      using represents_chunk [OF less.prems, of "take ?n data"] by (simp add: min.commute)
    have "length (drop ?n data) < length data" using n False by simp
    note less.hyps [OF this step]
    then show ?thesis using False
      by (subst (1 2) copy_in.simps) (simp add: Let_def nz)
  qed
qed

lemma rb_size_write [simp]: "rb_size (rb_write g d) = rb_size g"
  by (simp add: rb_write_def Let_def split: prod.splits)

lemma rb_written_write [simp]: "rb_written (rb_write g d) = rb_written g + length d"
  by (simp add: rb_write_def Let_def split: prod.splits)

lemma represents_write [wf_intros]:
  assumes "represents g s"
  shows "represents (rb_write g data) (s @ data)"
proof (cases "rb_size g \<le> length data")
  case True
  then have "data \<noteq> []" using assms by (auto simp: represents_def ring_wf_def)
  moreover have "s = [] \<and> length data = rb_size g" if "length s + length data \<le> rb_size g"
    using True that by (cases s) auto
  ultimately show ?thesis using assms True
    by (auto simp: represents_def ring_wf_def rb_write_def Let_def unrolled_def last_n_append_long)
next
  case False
  then show ?thesis using represents_copy_in [OF assms, of data] assms
    by (auto simp: rb_write_def Let_def split: prod.splits)
qed

section \<open>Read refines dropping from the stream\<close>

lemma copy_out_cyclic:
  assumes "length buf = sz" "phys < sz" "n \<le> sz"
  shows "copy_out sz buf phys n = take n (drop phys buf @ take phys buf)"
proof (cases "n = 0")
  case True
  then show ?thesis by (simp add: copy_out.simps)
next
  case False
  show ?thesis
  proof (cases "n \<le> sz - phys")
    case True
    then show ?thesis using assms False
      by (subst copy_out.simps) (simp add: copy_out.simps [of _ _ _ 0])
  next
    case wrap: False
    let ?m = "n - (sz - phys)"
    have tail: "copy_out sz buf 0 ?m = take ?m buf"
      using assms wrap by (subst copy_out.simps) (auto simp: copy_out.simps [of _ _ _ 0])
    show ?thesis using assms False wrap tail
      by (subst copy_out.simps) (auto simp: min_def)
  qed
qed

lemma take_drop_append_swap:
  "i \<le> length xs \<Longrightarrow> n \<le> length xs - i \<Longrightarrow>
   take n (drop i xs @ ys) = take n (drop i xs)"
  by simp

text \<open>The physical position of an absolute cursor, seen through the unrolled array.\<close>

lemma copy_out_start_phys:
  assumes rep: "represents g s" and lo: "earliest g \<le> start" and n: "start + n \<le> length s"
    and pos: "0 < n"
  shows "copy_out (rb_size g) (rb_buf g) (start_phys g start) n = take n (drop start s)"
proof -
  from rep have wf: "0 < rb_size g" "length (rb_buf g) = rb_size g" "rb_head g < rb_size g"
    and w: "rb_written g = length s"
    by (auto simp: represents_def ring_wf_def)
  show ?thesis
  proof (cases "length s \<le> rb_size g")
    case True
    then have pre: "take (length s) (rb_buf g) = s" using rep by (simp add: represents_def)
    have "take n (drop start (rb_buf g)) = take n (drop start (take (length s) (rb_buf g)))"
      using n by (simp add: drop_take)
    then have "take n (drop start (rb_buf g)) = take n (drop start s)" by (simp add: pre)
    then show ?thesis
      using True wf w n pos by (simp add: start_phys_def copy_out_cyclic)
  next
    case False
    let ?d = "start - earliest g" and ?h = "rb_head g" and ?N = "rb_size g"
    have un: "unrolled g = last_n ?N s" using represents_full [OF rep] False by simp
    have e: "earliest g = length s - ?N" using w by (simp add: earliest_def)
    have d: "?d + n \<le> ?N" using n lo e False by simp
    have st: "drop start s = drop ?d (unrolled g)"
      using un lo e by (simp add: drop_last_n)
    have phys: "start_phys g start = (?h + ?d) mod ?N"
      using False w by (simp add: start_phys_def)
    have "copy_out ?N (rb_buf g) ((?h + ?d) mod ?N) n = take n (drop ?d (unrolled g))"
    proof (cases "?h + ?d < ?N")
      case True
      let ?p = "?h + ?d"
      have k: "n - (?N - ?p) \<le> ?h" using d True by simp
      have "copy_out ?N (rb_buf g) ?p n = take n (drop ?p (rb_buf g) @ take ?p (rb_buf g))"
        using wf True d by (intro copy_out_cyclic) auto
      also have "\<dots> = take n (drop ?p (rb_buf g)) @ take (n - (?N - ?p)) (rb_buf g)"
        using wf k by (simp add: min_absorb1)
      also have "\<dots> = take n (drop ?d (unrolled g))"
        using wf k True by (simp add: unrolled_def min_absorb1 add.commute)
      finally show ?thesis using True by simp
    next
      case wrap: False
      then have m: "(?h + ?d) mod ?N = ?h + ?d - ?N"
        using wf d pos by (simp add: mod_if)
      let ?q = "?h + ?d - ?N"
      have q: "?q = ?d - (?N - ?h)" "?q + n \<le> ?h" using wf d pos wrap by auto
      have "copy_out ?N (rb_buf g) ?q n = take n (drop ?q (rb_buf g) @ take ?q (rb_buf g))"
        using wf q d by (intro copy_out_cyclic) auto
      also have "\<dots> = take n (drop ?q (rb_buf g))" using wf q by simp
      also have "\<dots> = take n (drop ?q (take ?h (rb_buf g)))" using q(2) by (simp add: drop_take)
      also have "\<dots> = take n (drop ?d (unrolled g))"
        using wf wrap unfolding unrolled_def q(1) by simp
      finally show ?thesis unfolding m .
    qed
    then show ?thesis using st phys by simp
  qed
qed


lemma read_since_inner_refines:
  assumes "represents g s"
  shows "read_since_inner g c m =
    (let start = max c (length s - rb_size g) in
     if length s \<le> c then ([], length s)
     else let out = (case m of None \<Rightarrow> drop start s | Some k \<Rightarrow> take k (drop start s))
          in (out, start + length out))"
proof -
  have w: "rb_written g = length s" and e: "earliest g = length s - rb_size g"
    using represents_written [OF assms] by (simp_all add: earliest_def)
  have sz: "0 < rb_size g" using assms by (auto simp: represents_def ring_wf_def)
  let ?st = "max c (length s - rb_size g)"
  have core: "copy_out (rb_size g) (rb_buf g) (start_phys g ?st) n = take n (drop ?st s)"
    if "0 < n" "?st + n \<le> length s" for n
    using copy_out_start_phys [OF assms, of ?st n] that e by simp
  show ?thesis
  proof (cases "length s \<le> c")
    case True
    then show ?thesis by (simp add: read_since_inner_def w)
  next
    case False
    then have lt: "?st < length s" using sz by auto
    show ?thesis
    proof (cases m)
      case None
      then show ?thesis using False lt core [of "length s - ?st"]
        by (simp add: read_since_inner_def w e Let_def)
    next
      case (Some k)
      have "take (min (length s - ?st) k) (drop ?st s) = take k (drop ?st s)"
        by (cases "k \<le> length s - ?st") auto
      then show ?thesis using Some False lt core [of "min (length s - ?st) k"]
        by (auto simp: read_since_inner_def w e Let_def)
    qed
  qed
qed

lemma read_since_refines:
  "represents g s \<Longrightarrow> read_since g c = drop (max c (length s - rb_size g)) s"
  by (simp add: read_since_def read_since_inner_refines Let_def)

lemma read_since_max_refines:
  assumes "represents g s"
  shows "read_since_max g c m =
    (let start = max c (length s - rb_size g); out = take m (drop start s);
         next = (if length s \<le> c then length s else start + length out)
     in \<lparr>rs_output = out, rs_new_cursor = next, rs_has_more = (next < length s),
         rs_is_truncated = is_truncated g c\<rparr>)"
  using represents_written [OF assms]
  by (auto simp: read_since_max_def read_since_inner_refines [OF assms] Let_def)

lemma is_truncated_refines:
  "represents g s \<Longrightarrow> is_truncated g c \<longleftrightarrow> c > length s \<or> c < length s - rb_size g"
  by (auto simp: is_truncated_def represents_written)

lemma agentd_read_since_refines:
  assumes "represents g s"
  shows "ar_data (agentd_read_since g c) = drop (max c (length s - rb_size g)) s"
    and "ar_cursor_end (agentd_read_since g c) = length s"
    and "ar_is_truncated (agentd_read_since g c) \<longleftrightarrow> c < length s - rb_size g"
proof -
  have w: "rb_written g = length s" and e: "earliest g = length s - rb_size g"
    using represents_written [OF assms] by (simp_all add: earliest_def)
  let ?st = "max c (length s - rb_size g)"
  have "agentd_read_range g ?st (length s - ?st) = drop ?st s"
  proof (cases "?st < length s")
    case True
    then show ?thesis using copy_out_start_phys [OF assms, of ?st "length s - ?st"] e
      by (simp add: agentd_read_range_def)
  next
    case False
    then have "length s \<le> ?st" by (rule leI)
    then show ?thesis by (simp add: agentd_read_range_def)
  qed
  then show "ar_data (agentd_read_since g c) = drop ?st s"
    by (simp add: agentd_read_since_def w e Let_def)
  show "ar_cursor_end (agentd_read_since g c) = length s"
    and "ar_is_truncated (agentd_read_since g c) \<longleftrightarrow> c < length s - rb_size g"
    by (auto simp: agentd_read_since_def w e Let_def)
qed

section \<open>The contract of a byte log\<close>

text \<open>
  What the engine, the sessions and the event pump rely on: a bounded log with an absolute write
  counter, whose reads return the retained suffix of the stream.
\<close>

locale byte_log =
  fixes rep :: "'r \<Rightarrow> bytes \<Rightarrow> bool"
    and cap :: "'r \<Rightarrow> nat"
    and put :: "'r \<Rightarrow> bytes \<Rightarrow> 'r"
    and total :: "'r \<Rightarrow> nat"
    and get :: "'r \<Rightarrow> nat \<Rightarrow> bytes"
  assumes rep_put: "rep r s \<Longrightarrow> rep (put r d) (s @ d)"
    and cap_put: "cap (put r d) = cap r"
    and total_rep: "rep r s \<Longrightarrow> total r = length s"
    and get_rep: "rep r s \<Longrightarrow> get r c = drop (max c (length s - cap r)) s"
begin

lemma get_total: "rep r s \<Longrightarrow> get r (total r) = []"
  by (simp add: get_rep total_rep)

lemma length_get: "rep r s \<Longrightarrow> length (get r c) = min (total r - c) (cap r)"
  by (auto simp: get_rep total_rep)

lemma get_empty_iff: "rep r s \<Longrightarrow> 0 < cap r \<Longrightarrow> get r c = [] \<longleftrightarrow> total r \<le> c"
  by (auto simp: get_rep total_rep)

text \<open>A reader that keeps up sees each write appended to what it saw before.\<close>

lemma get_put:
  "rep r s \<Longrightarrow> c \<le> total r \<Longrightarrow> total r + length d \<le> c + cap r \<Longrightarrow> get (put r d) c = get r c @ d"
  by (simp add: get_rep [OF rep_put] get_rep total_rep cap_put)

text \<open>Reading from the counter before a write returns what was written, as far as it is retained.\<close>

lemma get_put_total: "rep r s \<Longrightarrow> get (put r d) (total r) = last_n (cap r) d"
  by (auto simp: get_rep [OF rep_put] total_rep cap_put last_n_def max_def)

lemma cap_foldl_put: "cap (foldl put r ds) = cap r"
  by (induction ds arbitrary: r) (simp_all add: cap_put)

lemma rep_foldl_put: "rep r s \<Longrightarrow> rep (foldl put r ds) (s @ concat ds)"
proof (induction ds arbitrary: r s)
  case (Cons d ds)
  then show ?case using Cons.IH [OF rep_put [OF Cons.prems, of d]] by simp
qed simp

lemma get_foldl_put:
  "rep r [] \<Longrightarrow> get (foldl put r ds) c =
    drop (max c (length (concat ds) - cap r)) (concat ds)"
  using get_rep [OF rep_foldl_put] by (simp add: cap_foldl_put)

end

interpretation out_log: byte_log represents rb_size rb_write rb_written read_since
  by unfold_locales (auto intro: represents_write simp: represents_written read_since_refines)

interpretation daemon_log: byte_log represents rb_size rb_write rb_written
  "\<lambda>g c. ar_data (agentd_read_since g c)"
  by unfold_locales
    (auto intro: represents_write simp: represents_written agentd_read_since_refines)

text \<open>Unfolding rules that evaluate a ring of known contents.\<close>

lemmas ring_eval = new_raw_def read_since_def read_since_inner_def copy_in.simps copy_out.simps
  rb_write_def overwrite_def earliest_def start_phys_def is_truncated_def read_since_max_def
  agentd_read_since_def agentd_read_range_def Let_def

section \<open>What a reader gets\<close>

lemma represents_foldl_new: "represents (foldl rb_write (new sz) chunks) (concat chunks)"
  using out_log.rep_foldl_put [OF represents_new] by simp

lemma represents_foldl_agentd_new: "represents (foldl rb_write (agentd_new sz) chunks) (concat chunks)"
  using daemon_log.rep_foldl_put [OF represents_agentd_new] by simp

lemma drop_retained_iff:
  "0 < k \<Longrightarrow> drop (max c (length s - k)) s = drop c s \<longleftrightarrow> length s - k \<le> c"
proof
  assume "0 < k" and eq: "drop (max c (length s - k)) s = drop c s"
  have "length s - max c (length s - k) = length s - c" using arg_cong [OF eq, of length] by simp
  then show "length s - k \<le> c" using \<open>0 < k\<close> by (auto simp: max_def split: if_splits)
qed (simp add: max_def)

text \<open>
  (C36) Whatever chunks the terminal wrote, in whatever sizes and across any number of wraps of the
  array, a read from any cursor returns exactly the bytes of the stream from that cursor on that
  are still retained, and \<open>is_truncated\<close> is set exactly when the reader lost bytes (or
  gave a cursor that lies in the future).
\<close>

theorem ring_read_exact:
  "let g = foldl rb_write (new sz) chunks; s = concat chunks
   in read_since g c = drop (max c (length s - rb_size (new sz))) s \<and>
      (is_truncated g c \<longleftrightarrow> \<not> (c \<le> length s \<and> read_since g c = drop c s))"
proof -
  let ?g = "foldl rb_write (new sz) chunks" and ?s = "concat chunks"
  have read: "read_since ?g c = drop (max c (length ?s - rb_size (new sz))) ?s"
    by (rule out_log.get_foldl_put [OF represents_new])
  have "rb_size ?g = rb_size (new sz)" by (rule out_log.cap_foldl_put)
  moreover have "0 < rb_size (new sz)" by (simp add: new_def new_raw_def MIN_BUFFER_SIZE_def)
  ultimately show ?thesis
    using read is_truncated_refines [OF represents_foldl_new, of sz chunks c]
      drop_retained_iff [of "rb_size (new sz)" c ?s]
    by (auto simp: Let_def)
qed

text \<open>
  The remote daemon's buffer gives the same guarantee, reports the cursor after the data, and sets
  \<open>is_truncated\<close> exactly when bytes between the requested cursor and the data are gone.
\<close>

lemma agentd_read_exact:
  "let g = foldl rb_write (agentd_new sz) chunks; s = concat chunks; r = agentd_read_since g c
   in ar_data r = drop (max c (length s - rb_size (agentd_new sz))) s \<and>
      ar_cursor_end r = length s \<and>
      (ar_is_truncated r \<longleftrightarrow> ar_data r \<noteq> drop c s)"
proof -
  let ?g = "foldl rb_write (agentd_new sz) chunks" and ?s = "concat chunks"
  have read: "ar_data (agentd_read_since ?g c) = drop (max c (length ?s - rb_size (agentd_new sz))) ?s"
    by (rule daemon_log.get_foldl_put [OF represents_agentd_new])
  have "rb_size ?g = rb_size (agentd_new sz)" by (rule daemon_log.cap_foldl_put)
  moreover have "0 < rb_size (agentd_new sz)" using represents_wf [OF represents_agentd_new] by (simp add: ring_wf_def)
  ultimately show ?thesis
    using read agentd_read_since_refines(2,3) [OF represents_foldl_agentd_new, of sz chunks c]
      drop_retained_iff [of "rb_size (agentd_new sz)" c ?s]
    by (auto simp: Let_def)
qed

lemma join_on_drop_last_empty:
  "join_on [d] (drop_last_empty (split_on d xs)) = (if xs \<noteq> [] \<and> last xs = d then butlast xs else xs)"
proof (cases "last (split_on d xs) = []")
  case False
  then show ?thesis by (auto simp: drop_last_empty_def last_split_on_empty)
next
  case True
  let ?ps = "split_on d xs"
  have ps: "?ps = butlast ?ps @ [[]]" using True by (metis append_butlast_last_id split_on_not_Nil)
  show ?thesis
  proof (cases "butlast ?ps = []")
    case True
    then have "xs = []" using ps by (metis append_Nil split_on_eq_empty)
    then show ?thesis by (simp add: drop_last_empty_def)
  next
    case False
    have "xs = join_on [d] (butlast ?ps @ [[]])" using ps by (metis join_split_on)
    then have "xs = join_on [d] (butlast ?ps) @ [d]" using False by (simp add: join_on_append)
    then have "xs \<noteq> [] \<and> last xs = d \<and> butlast xs = join_on [d] (butlast ?ps)"
      by (metis butlast_snoc last_snoc snoc_eq_iff_butlast)
    then show ?thesis using \<open>last ?ps = []\<close> by (simp add: drop_last_empty_def)
  qed
qed

lemma last_lines:
  assumes "ps \<noteq> []" "\<forall>p \<in> set ps. d \<notin> set p" "0 < k"
  shows "join_on [d] (drop (length ps - k) ps) = join_on [d] ps \<or>
      (\<exists>p. join_on [d] ps = p @ d # join_on [d] (drop (length ps - k) ps))"
    and "count_list (join_on [d] (drop (length ps - k) ps)) d = min k (length ps) - 1"
proof -
  let ?a = "take (length ps - k) ps" and ?b = "drop (length ps - k) ps"
  have "0 < length ps" using assms(1) by simp
  with assms(3) have "length ps - k < length ps" by (rule diff_less)
  then have b: "?b \<noteq> []" by simp
  have "join_on [d] ps = join_on [d] ?a @ d # join_on [d] ?b" if a: "?a \<noteq> []"
    using join_on_append [OF a b, of "[d]"] unfolding append_take_drop_id append_Cons append_Nil .
  then show "join_on [d] ?b = join_on [d] ps \<or> (\<exists>p. join_on [d] ps = p @ d # join_on [d] ?b)"
    by (cases "?a = []") auto
  show "count_list (join_on [d] ?b) d = min k (length ps) - 1"
    using assms(2) by (subst count_join_on) (auto dest: in_set_dropD simp: min_def)
qed

lemma tail_lines:
  "tail g k = (let ps = drop_last_empty (split_on NL (fst (read_since_inner g 0 None)))
    in if k = 0 \<or> ps = [] then [] else join_on [NL] (drop (length ps - k) ps))"
  by (auto simp: tail_def drop_last_empty_def Let_def last_conv_nth butlast_conv_take)

text \<open>
  \<open>tail(k)\<close> returns the last \<open>k\<close> lines of what is retained: the text after a
  line break (or all of it), with exactly as many line breaks inside as \<open>k\<close> lines have, and
  without the newline that ends the last line.
\<close>

lemma tail_last_lines:
  "let g = foldl rb_write (new sz) chunks; kept = last_n (rb_size (new sz)) (concat chunks);
       body = (if kept \<noteq> [] \<and> last kept = NL then butlast kept else kept); t = tail g k
   in if k = 0 then t = []
      else (t = body \<or> (\<exists>p. body = p @ NL # t)) \<and>
           count_list t NL = min k (Suc (count_list body NL)) - 1"
proof -
  let ?g = "foldl rb_write (new sz) chunks" and ?kept = "last_n (rb_size (new sz)) (concat chunks)"
  let ?body = "if ?kept \<noteq> [] \<and> last ?kept = NL then butlast ?kept else ?kept"
  let ?ps = "drop_last_empty (split_on NL ?kept)"
  have "fst (read_since_inner ?g 0 None) = read_since ?g 0" by (simp add: read_since_def)
  also have "\<dots> = ?kept"
    using out_log.get_foldl_put [OF represents_new, of sz chunks 0] by (simp add: last_n_def)
  finally have t: "tail ?g k = (if k = 0 \<or> ?ps = [] then [] else join_on [NL] (drop (length ?ps - k) ?ps))"
    unfolding tail_lines by (simp add: Let_def)
  have body: "?body = join_on [NL] ?ps" by (rule join_on_drop_last_empty [symmetric])
  show ?thesis
  proof (cases "k = 0 \<or> ?ps = []")
    case True
    then show ?thesis using t body by (auto simp: Let_def)
  next
    case False
    have lines: "\<forall>p \<in> set ?ps. NL \<notin> set p"
      using split_on_pieces [of _ NL ?kept] by (auto simp: drop_last_empty_def dest: in_set_butlastD)
    have "count_list ?body NL = length ?ps - 1" unfolding body by (rule count_join_on [OF lines])
    moreover have "Suc (length ?ps - 1) = length ?ps" using False by simp
    ultimately show ?thesis
      using last_lines [of ?ps NL k] lines False t unfolding Let_def body by simp
  qed
qed

end
