(* ===== verification/Text.thy ===== *)
theory Text
  imports Prelude
begin

text \<open>
  The operations of Rust's standard library on text that the modelled code uses: UTF-8 validation and
  lossy decoding of bytes, and \<open>trim\<close>, \<open>lines\<close>, \<open>split_whitespace\<close>,
  \<open>to_ascii_lowercase\<close>, \<open>strip_prefix\<close>, \<open>find\<close> on strings.  A Rust string is
  the list of its UTF-8 bytes, a HOL \<open>string\<close>; white space is Unicode \<open>White_Space\<close>, as
  in Rust, recognised by its UTF-8 encodings.
\<close>

section \<open>UTF-8\<close>

definition is_cont :: "byte \<Rightarrow> bool" where "is_cont b \<longleftrightarrow> 0x80 \<le> b \<and> b \<le> 0xBF"

definition second_ok :: "byte \<Rightarrow> byte \<Rightarrow> bool" where
  "second_ok b0 b1 \<longleftrightarrow>
     (if b0 = 0xE0 then 0xA0 \<le> b1 \<and> b1 \<le> 0xBF
      else if b0 = 0xED then 0x80 \<le> b1 \<and> b1 \<le> 0x9F
      else if b0 = 0xF0 then 0x90 \<le> b1 \<and> b1 \<le> 0xBF
      else if b0 = 0xF4 then 0x80 \<le> b1 \<and> b1 \<le> 0x8F
      else is_cont b1)"

definition utf8_width :: "byte \<Rightarrow> nat" where
  "utf8_width b =
     (if b < 0x80 then 1 else if 0xC2 \<le> b \<and> b \<le> 0xDF then 2
      else if 0xE0 \<le> b \<and> b \<le> 0xEF then 3 else if 0xF0 \<le> b \<and> b \<le> 0xF4 then 4 else 0)"

text \<open>
  The first character: whether it is well formed, and the bytes it takes; a malformed one takes its
  maximal well-formed prefix, at least one byte.
\<close>

fun utf8_char :: "bytes \<Rightarrow> bool \<times> nat" where
  "utf8_char [] = (False, 0)"
| "utf8_char (b0 # bs) =
     (let w = utf8_width b0; ok1 = (bs \<noteq> [] \<and> second_ok b0 (bs ! 0));
          ok2 = (length bs > 1 \<and> is_cont (bs ! 1)); ok3 = (length bs > 2 \<and> is_cont (bs ! 2))
      in if w = 1 then (True, 1)
         else if w = 0 \<or> \<not> ok1 then (False, 1)
         else if w = 2 then (True, 2)
         else if \<not> ok2 then (False, 2)
         else if w = 3 then (True, 3)
         else if \<not> ok3 then (False, 3)
         else (True, 4))"

lemma utf8_char_pos: "0 < snd (utf8_char (b # bs))"
  by (simp add: Let_def)

function utf8_valid :: "bytes \<Rightarrow> bool" where
  "utf8_valid [] = True"
| "utf8_valid (b # bs) =
     (let (ok, n) = utf8_char (b # bs) in ok \<and> utf8_valid (drop n (b # bs)))"
  by pat_completeness auto
termination
proof (relation "measure length")
  fix b :: byte and bs x ok n
  assume "x = utf8_char (b # bs)" "(ok, n) = x"
  then have "0 < n" using utf8_char_pos [of b bs] by (metis snd_conv)
  then show "(drop n (b # bs), b # bs) \<in> measure length" by simp
qed simp

text \<open>\<open>String::from_utf8_lossy\<close>: each malformed piece becomes U+FFFD.\<close>

definition REPLACEMENT :: string where "REPLACEMENT = [CHR 0xEF, CHR 0xBF, CHR 0xBD]"

function from_utf8_lossy :: "bytes \<Rightarrow> string" where
  "from_utf8_lossy [] = []"
| "from_utf8_lossy (b # bs) =
     (let (ok, n) = utf8_char (b # bs)
      in (if ok then bytes_str (take n (b # bs)) else REPLACEMENT) @ from_utf8_lossy (drop n (b # bs)))"
  by pat_completeness auto
termination
proof (relation "measure length")
  fix b :: byte and bs x ok n
  assume "x = utf8_char (b # bs)" "(ok, n) = x"
  then have "0 < n" using utf8_char_pos [of b bs] by (metis snd_conv)
  then show "(drop n (b # bs), b # bs) \<in> measure length" by simp
qed simp

declare utf8_valid.simps(2) [simp del] from_utf8_lossy.simps(2) [simp del]

lemma bytes_str_append: "bytes_str (xs @ ys) = bytes_str xs @ bytes_str ys"
  by (simp add: bytes_str_def)

lemma from_utf8_lossy_valid: "utf8_valid bs \<Longrightarrow> from_utf8_lossy bs = bytes_str bs"
proof (induction bs rule: utf8_valid.induct)
  case (2 b bs)
  obtain ok n where c: "utf8_char (b # bs) = (ok, n)" by (cases "utf8_char (b # bs)") auto
  have "ok" and rest: "utf8_valid (drop n (b # bs))"
    using "2.prems" c by (auto simp: utf8_valid.simps(2))
  have "from_utf8_lossy (drop n (b # bs)) = bytes_str (drop n (b # bs))"
    using "2.IH" c rest by simp
  then have "from_utf8_lossy (b # bs) = bytes_str (take n (b # bs)) @ bytes_str (drop n (b # bs))"
    using c \<open>ok\<close> by (simp add: from_utf8_lossy.simps(2))
  then show ?case by (simp only: bytes_str_append [symmetric] append_take_drop_id)
qed (simp add: bytes_str_def)

lemma utf8_ascii: "b < 0x80 \<Longrightarrow> utf8_valid (b # bs) = utf8_valid bs"
  by (simp add: utf8_valid.simps(2) utf8_width_def)

lemma utf8_valid_ascii: "\<forall>b \<in> set bs. b < 0x80 \<Longrightarrow> utf8_valid bs"
  by (induction bs) (auto simp: utf8_ascii)

section \<open>White space\<close>

abbreviation code :: "char \<Rightarrow> nat" where "code c \<equiv> of_char c"

text \<open>The bytes of the white-space character at the head, 0 if there is none.\<close>

fun ws_len :: "string \<Rightarrow> nat" where
  "ws_len [] = 0"
| "ws_len (c # s) =
     (if (9 \<le> code c \<and> code c \<le> 13) \<or> code c = 32 then 1
      else if code c = 0xC2 then
        (case s of d # _ \<Rightarrow> if code d = 0x85 \<or> code d = 0xA0 then 2 else 0 | [] \<Rightarrow> 0)
      else if code c = 0xE1 then
        (case s of d # e # _ \<Rightarrow> if code d = 0x9A \<and> code e = 0x80 then 3 else 0 | _ \<Rightarrow> 0)
      else if code c = 0xE2 then
        (case s of d # e # _ \<Rightarrow>
           if (code d = 0x80 \<and> (0x80 \<le> code e \<and> code e \<le> 0x8A \<or> code e = 0xA8 \<or> code e = 0xA9 \<or> code e = 0xAF))
              \<or> (code d = 0x81 \<and> code e = 0x9F) then 3 else 0
         | _ \<Rightarrow> 0)
      else if code c = 0xE3 then
        (case s of d # e # _ \<Rightarrow> if code d = 0x80 \<and> code e = 0x80 then 3 else 0 | _ \<Rightarrow> 0)
      else 0)"

function trim_start :: "string \<Rightarrow> string" where
  "trim_start s = (if ws_len s = 0 then s else trim_start (drop (ws_len s) s))"
  by pat_completeness auto
termination
proof (relation "measure length")
  fix s assume "ws_len s \<noteq> 0"
  then show "(drop (ws_len s) s, s) \<in> measure length" by (cases s) (simp_all del: ws_len.simps(2))
qed simp

definition ws_len_end :: "string \<Rightarrow> nat" where
  "ws_len_end s =
     (if ws_len (last_n 1 s) = 1 then 1
      else if ws_len (last_n 2 s) = 2 then 2
      else if ws_len (last_n 3 s) = 3 then 3 else 0)"

function trim_end :: "string \<Rightarrow> string" where
  "trim_end s = (if ws_len_end s = 0 then s else trim_end (take (length s - ws_len_end s) s))"
  by pat_completeness auto
termination
proof (relation "measure length")
  fix s assume "ws_len_end s \<noteq> 0"
  then show "(take (length s - ws_len_end s) s, s) \<in> measure length"
    by (cases s) (auto simp: ws_len_end_def)
qed simp

declare trim_start.simps [simp del] trim_end.simps [simp del]

definition trim :: "string \<Rightarrow> string" where "trim s = trim_end (trim_start s)"

function split_ws :: "string \<Rightarrow> string \<Rightarrow> string list" where
  "split_ws cur s =
     (case s of
        [] \<Rightarrow> (if cur = [] then [] else [rev cur])
      | c # s' \<Rightarrow>
          if ws_len s = 0 then split_ws (c # cur) s'
          else (if cur = [] then [] else [rev cur]) @ split_ws [] (drop (ws_len s) s))"
  by pat_completeness auto
termination
  by (relation "measure (\<lambda>(cur, s). length s)") (auto simp del: ws_len.simps(2))

declare split_ws.simps [simp del]

definition split_whitespace :: "string \<Rightarrow> string list" where
  "split_whitespace s = split_ws [] s"

section \<open>Lines, prefixes and searches\<close>

abbreviation newline :: char where "newline \<equiv> CHR 0x0A"
abbreviation cr :: char where "cr \<equiv> CHR 0x0D"

definition strip_cr :: "string \<Rightarrow> string" where
  "strip_cr l = (if l \<noteq> [] \<and> last l = cr then butlast l else l)"

text \<open>\<open>str::lines\<close>: lines end at a newline, or a carriage return and a newline; the last
  line need not end.\<close>

definition lines :: "string \<Rightarrow> string list" where
  "lines s =
     (let ps = split_on newline s
      in map strip_cr (butlast ps) @ (if last ps = [] then [] else [last ps]))"

definition strip_prefix :: "string \<Rightarrow> string \<Rightarrow> string option" where
  "strip_prefix p s = (if prefix p s then Some (drop (length p) s) else None)"

text \<open>\<open>s.find(p)\<close>: the byte position of the first occurrence.\<close>

fun find_str :: "'a list \<Rightarrow> 'a list \<Rightarrow> nat option" where
  "find_str p [] = (if p = [] then Some 0 else None)"
| "find_str p (c # s) = (if prefix p (c # s) then Some 0 else map_option Suc (find_str p s))"

lemma find_str_Some:
  "find_str p s = Some i \<Longrightarrow> i + length p \<le> length s \<and> take (length p) (drop i s) = p"
proof (induction s arbitrary: i)
  case (Cons c s)
  show ?case
  proof (cases "prefix p (c # s)")
    case True
    then show ?thesis using Cons.prems prefix_length_le [OF True] by (auto simp: prefix_def)
  next
    case False
    then obtain k where k: "find_str p s = Some k" "i = Suc k" using Cons.prems by auto
    then show ?thesis using Cons.IH [OF k(1)] by simp
  qed
qed (auto split: if_splits)

lemma find_str_least: "find_str p s = Some i \<Longrightarrow> j < i \<Longrightarrow> \<not> prefix p (drop j s)"
proof (induction s arbitrary: i j)
  case (Cons c s)
  then show ?case by (cases j) (auto split: if_splits)
qed (auto split: if_splits)

lemma find_str_None: "find_str p s = None \<longleftrightarrow> \<not> sublist p s"
  by (induction s) (auto simp: sublist_Cons_right)

definition ascii_lower :: "char \<Rightarrow> char" where
  "ascii_lower c = (if 65 \<le> code c \<and> code c \<le> 90 then char_of (code c + 32) else c)"

definition to_ascii_lowercase :: "string \<Rightarrow> string" where
  "to_ascii_lowercase s = map ascii_lower s"

text \<open>\<open>trim_end_matches(c)\<close> for one character.\<close>

definition trim_end_char :: "char \<Rightarrow> string \<Rightarrow> string" where
  "trim_end_char c s = rev (dropWhile (\<lambda>x. x = c) (rev s))"

text \<open>\<open>chars().count()\<close> and \<open>chars().take(n)\<close> of valid text: a character starts at
  each byte that is not a continuation byte.\<close>

definition is_char_start :: "char \<Rightarrow> bool" where
  "is_char_start c \<longleftrightarrow> \<not> (0x80 \<le> code c \<and> code c \<le> 0xBF)"

definition chars_count :: "string \<Rightarrow> nat" where
  "chars_count s = length (filter is_char_start s)"

fun chars_take :: "nat \<Rightarrow> string \<Rightarrow> string" where
  "chars_take n [] = []"
| "chars_take n (c # s) =
     (if is_char_start c then (if n = 0 then [] else c # chars_take (n - 1) s)
      else c # chars_take n s)"

lemma chars_count_take: "chars_count (chars_take n s) \<le> n"
  by (induction n s rule: chars_take.induct) (auto simp: chars_count_def)

lemma chars_take_all: "chars_count s \<le> n \<Longrightarrow> chars_take n s = s"
  by (induction n s rule: chars_take.induct) (auto simp: chars_count_def)

lemma prefix_chars_take: "prefix (chars_take n s) s"
  by (induction n s rule: chars_take.induct) auto

text \<open>\<open>split_once(c)\<close>: the text before and after the first \<open>c\<close>; also \<open>find(c)\<close> with the two slices.\<close>

definition split_once :: "char \<Rightarrow> string \<Rightarrow> (string \<times> string) option" where
  "split_once c s =
     (case dropWhile (\<lambda>x. x \<noteq> c) s of [] \<Rightarrow> None | _ # r \<Rightarrow> Some (takeWhile (\<lambda>x. x \<noteq> c) s, r))"

lemma split_once_append: "c \<notin> set a \<Longrightarrow> split_once c (a @ c # b) = Some (a, b)"
  by (induction a) (auto simp: split_once_def split: list.splits)

lemma split_once_None: "split_once c s = None \<longleftrightarrow> c \<notin> set s"
proof (cases "c \<in> set s")
  case True
  then obtain a b where "s = a @ c # b" "c \<notin> set a" by (metis split_list_first)
  then show ?thesis by (simp add: split_once_append)
next
  case False
  then have d: "dropWhile (\<lambda>x. x \<noteq> c) s = []" by (auto simp: dropWhile_eq_Nil_conv)
  show ?thesis using False unfolding split_once_def d by simp
qed

lemma split_once_Some:
  "split_once c s = Some (a, b) \<longleftrightarrow> s = a @ c # b \<and> c \<notin> set a"
proof
  assume "split_once c s = Some (a, b)"
  then obtain r where r: "dropWhile (\<lambda>x. x \<noteq> c) s = r # b" and a: "a = takeWhile (\<lambda>x. x \<noteq> c) s"
    by (auto simp: split_once_def split: list.splits)
  have "s = a @ r # b" using takeWhile_dropWhile_id [of "\<lambda>x. x \<noteq> c" s] r a by simp
  moreover have "r = c" using r hd_dropWhile [of "\<lambda>x. x \<noteq> c" s] by force
  ultimately show "s = a @ c # b \<and> c \<notin> set a" using a by (auto dest: set_takeWhileD)
qed (simp add: split_once_append)

text \<open>\<open>rsplit_once(c)\<close>, or \<open>rfind(c)\<close> with the two slices.\<close>

definition rsplit_once :: "char \<Rightarrow> string \<Rightarrow> (string \<times> string) option" where
  "rsplit_once c s = map_option (\<lambda>(b, a). (rev a, rev b)) (split_once c (rev s))"

lemma rsplit_once_append: "c \<notin> set b \<Longrightarrow> rsplit_once c (a @ c # b) = Some (a, b)"
  by (simp add: rsplit_once_def split_once_append)

lemma rsplit_once_None: "rsplit_once c s = None \<longleftrightarrow> c \<notin> set s"
  by (simp add: rsplit_once_def split_once_None)

lemma rsplit_once_Some:
  "rsplit_once c s = Some (a, b) \<Longrightarrow> s = a @ c # b \<and> c \<notin> set b"
  by (auto simp: rsplit_once_def split_once_Some rev_eq_append_conv)

section \<open>White space and trimming\<close>

lemma ws_len_append: "ws_len p \<noteq> 0 \<Longrightarrow> ws_len (p @ r) = ws_len p"
proof (cases p)
  case (Cons c s)
  consider "s = []" | d where "s = [d]" | d e t where "s = d # e # t"
    by (metis list.exhaust)
  then show "ws_len p \<noteq> 0 \<Longrightarrow> ws_len (p @ r) = ws_len p"
    by cases (auto simp: Cons split: if_splits)
qed simp

lemma trim_start_no_ws: "ws_len s = 0 \<Longrightarrow> trim_start s = s"
  by (subst trim_start.simps) simp

lemma trim_end_no_ws: "ws_len_end s = 0 \<Longrightarrow> trim_end s = s"
  by (subst trim_end.simps) simp

lemma ws_len_trim_start: "ws_len (trim_start s) = 0"
proof (induction s rule: trim_start.induct)
  case (1 s)
  then show ?case by (subst trim_start.simps) simp
qed

lemma ws_len_end_trim_end: "ws_len_end (trim_end s) = 0"
proof (induction s rule: trim_end.induct)
  case (1 s)
  then show ?case by (subst trim_end.simps) simp
qed

lemma prefix_trim_end: "prefix (trim_end s) s"
proof (induction s rule: trim_end.induct)
  case (1 s)
  then show ?case
    by (subst trim_end.simps) (auto intro: prefix_order.trans take_is_prefix)
qed

lemma suffix_trim_start: "suffix (trim_start s) s"
proof (induction s rule: trim_start.induct)
  case (1 s)
  then show ?case
    by (subst trim_start.simps) (auto intro: suffix_order.trans suffix_drop)
qed

lemma ws_len_trim [simp]: "ws_len (trim s) = 0"
  unfolding trim_def
  by (metis prefix_trim_end prefixE ws_len_append ws_len_trim_start)

lemma ws_len_end_trim [simp]: "ws_len_end (trim s) = 0"
  by (simp add: trim_def ws_len_end_trim_end)

lemma trim_fixed: "ws_len s = 0 \<Longrightarrow> ws_len_end s = 0 \<Longrightarrow> trim s = s"
  by (simp add: trim_def trim_start_no_ws trim_end_no_ws)

lemma trim_idem [simp]: "trim (trim s) = trim s"
  by (rule trim_fixed) simp_all

lemma set_trim: "set (trim s) \<subseteq> set s"
  unfolding trim_def using set_mono_prefix [OF prefix_trim_end] set_mono_suffix [OF suffix_trim_start]
  by blast

lemma lines_terminated:
  "\<forall>l \<in> set ls. newline \<notin> set l \<and> strip_cr l = l \<Longrightarrow> lines (concat (map (\<lambda>l. l @ [newline]) ls)) = ls"
proof -
  assume ok: "\<forall>l \<in> set ls. newline \<notin> set l \<and> strip_cr l = l"
  then have "split_on newline (concat (map (\<lambda>l. l @ [newline]) ls)) = ls @ [[]]"
    by (induction ls) (simp_all add: split_on_append split_on_single)
  then show ?thesis using ok by (simp add: lines_def map_idI)
qed

lemma ws_len_space: "p \<noteq> [] \<Longrightarrow> ws_len (p @ CHR '' '' # r) = ws_len p"
proof (cases p)
  case (Cons c s)
  consider "s = []" | d where "s = [d]" | d e t where "s = d # e # t"
    by (metis list.exhaust)
  then show ?thesis by cases (simp_all add: Cons split: list.split)
qed simp

lemma ws_len_end_after_space:
  assumes "v \<noteq> []" "ws_len_end v = 0"
  shows "ws_len_end (k @ CHR '' '' # v) = 0"
proof -
  consider (one) a where "v = [a]" | (two) a b where "v = [a, b]" | (more) "length v \<ge> 3"
    using assms(1) by (cases v; cases "tl v"; cases "tl (tl v)") auto
  then show ?thesis
  proof cases
    case one
    then show ?thesis using assms(2) by (cases k rule: rev_cases) (auto simp: ws_len_end_def last_n_def split: if_splits)
  next
    case two
    then show ?thesis using assms(2) by (auto simp: ws_len_end_def last_n_def split: if_splits)
  next
    case more
    then have "last_n n (k @ CHR '' '' # v) = last_n n v" if "n \<le> 3" for n
      using that last_n_append_long [of n v "k @ [CHR '' '']"] by (simp add: last_n_def)
    then show ?thesis using assms(2) by (simp add: ws_len_end_def split: if_splits)
  qed
qed

end
