(* ===== verification/Provider.thy ===== *)
theory Provider
  imports Text
begin

text \<open>
  The vocabulary of the domain layer: \<open>Host\<close>, \<open>PtySize\<close>,
  \<open>ControlKey\<close>, \<open>TermError\<close> and \<open>TransferDirection\<close> of
  src/domain/provider.rs, and \<open>Action\<close>, \<open>Decision\<close> and
  \<open>ApprovalMode\<close> of src/domain/policy.rs.  The two traits of provider.rs
  (\<open>TerminalProvider\<close>, \<open>TerminalHandle\<close>) are interfaces to code outside the
  model; their results are arguments of the definitions that call them.
\<close>

section \<open>Hosts and terminals\<close>

text \<open>The fields of \<open>Host\<close> the modelled code reads.\<close>

record host =
  h_name :: string
  h_hostname :: string
  h_user :: string
  h_port :: u16
  h_identity_files :: "string list"
  h_proxy_jump :: "string option"
  h_user_known_hosts_files :: "string list"
  h_strict_host_key_checking :: string

record pty_size =
  rows :: u16
  cols :: u16

definition default_pty_size :: pty_size where
  "default_pty_size = \<lparr>rows = 24, cols = 80\<rparr>"

record open_request =
  or_host :: host
  or_pty_size :: pty_size
  or_persistent :: bool
  or_name :: "string option"
  or_password :: "string option"

datatype control_key = CtrlC | CtrlD | CtrlZ | Tab | Enter | Escape

fun as_bytes :: "control_key \<Rightarrow> bytes" where
  "as_bytes CtrlC = [0x03]"
| "as_bytes CtrlD = [0x04]"
| "as_bytes CtrlZ = [0x1A]"
| "as_bytes Tab = [0x09]"
| "as_bytes Enter = [0x0D]"
| "as_bytes Escape = [0x1B]"

definition key_from_name :: "string \<Rightarrow> control_key option" where
  "key_from_name name =
     (let n = to_ascii_lowercase name
      in if n = ''ctrl+c'' \<or> n = ''c'' then Some CtrlC
         else if n = ''ctrl+d'' \<or> n = ''d'' then Some CtrlD
         else if n = ''ctrl+z'' \<or> n = ''z'' then Some CtrlZ
         else if n = ''tab'' then Some Tab
         else if n = ''enter'' then Some Enter
         else if n = ''escape'' \<or> n = ''esc'' then Some Escape
         else None)"

fun as_name :: "control_key \<Rightarrow> string" where
  "as_name CtrlC = ''ctrl+c''"
| "as_name CtrlD = ''ctrl+d''"
| "as_name CtrlZ = ''ctrl+z''"
| "as_name Tab = ''tab''"
| "as_name Enter = ''enter''"
| "as_name Escape = ''escape''"

section \<open>Errors\<close>

text \<open>
  \<open>TermError\<close>.  The payload of a message that the code formats from fixed text and an
  argument is the argument; where the code inspects a message it is kept in full.
\<close>

datatype term_error =
    AuthFailed
  | ConnectFailed string
  | SessionNotFound string
  | SessionClosed string
  | OperationTimeout string "string option"
  | HostKeyRejected string
  | ChannelError string
  | InvalidArgument string
  | SftpError string
  | SftpNoSuchFile string
  | SftpPermissionDenied string
  | LocalPathNotAllowed string
  | RemotePathNotAllowed string
  | PolicyDenied string
  | PolicyNeedsConfirm string
  | SessionDetached string
  | DaemonProtocolMismatch u32 u32
  | RuntimeMissing string
  | RuntimeDeployFailed string
  | Io string

type_synonym 'a result = "term_error + 'a"

fun err_code :: "term_error \<Rightarrow> string" where
  "err_code AuthFailed = ''AUTH_FAILED''"
| "err_code (SessionNotFound _) = ''SESSION_NOT_FOUND''"
| "err_code (SessionClosed _) = ''SESSION_CLOSED''"
| "err_code (ConnectFailed _) = ''CONNECT_FAILED''"
| "err_code (OperationTimeout _ _) = ''OPERATION_TIMEOUT''"
| "err_code (ChannelError _) = ''CONNECT_FAILED''"
| "err_code (HostKeyRejected _) = ''HOST_KEY_REJECTED''"
| "err_code (InvalidArgument _) = ''INVALID_ARGUMENT''"
| "err_code (SftpError _) = ''SFTP_ERROR''"
| "err_code (SftpNoSuchFile _) = ''SFTP_NO_SUCH_FILE''"
| "err_code (SftpPermissionDenied _) = ''SFTP_PERMISSION_DENIED''"
| "err_code (LocalPathNotAllowed _) = ''LOCAL_PATH_NOT_ALLOWED''"
| "err_code (RemotePathNotAllowed _) = ''REMOTE_PATH_NOT_ALLOWED''"
| "err_code (PolicyDenied _) = ''POLICY_DENIED''"
| "err_code (PolicyNeedsConfirm _) = ''POLICY_NEEDS_CONFIRM''"
| "err_code (SessionDetached _) = ''SESSION_DETACHED''"
| "err_code (DaemonProtocolMismatch _ _) = ''PROTOCOL_MISMATCH''"
| "err_code (RuntimeMissing _) = ''RUNTIME_MISSING''"
| "err_code (RuntimeDeployFailed _) = ''RUNTIME_DEPLOY_FAILED''"
| "err_code (Io _) = ''CONNECT_FAILED''"

fun retriable :: "term_error \<Rightarrow> bool" where
  "retriable AuthFailed = False"
| "retriable (SessionNotFound _) = False"
| "retriable (SessionClosed _) = False"
| "retriable (HostKeyRejected _) = False"
| "retriable (InvalidArgument _) = False"
| "retriable (LocalPathNotAllowed _) = False"
| "retriable (RemotePathNotAllowed _) = False"
| "retriable (PolicyDenied _) = False"
| "retriable (PolicyNeedsConfirm _) = False"
| "retriable (SftpNoSuchFile _) = False"
| "retriable (SftpPermissionDenied _) = False"
| "retriable (SessionDetached _) = False"
| "retriable (DaemonProtocolMismatch _ _) = False"
| "retriable (RuntimeDeployFailed _) = False"
| "retriable (ConnectFailed _) = True"
| "retriable (OperationTimeout _ _) = True"
| "retriable (ChannelError _) = True"
| "retriable (SftpError _) = True"
| "retriable (RuntimeMissing _) = True"
| "retriable (Io _) = True"

section \<open>Transfers, actions and decisions\<close>

datatype transfer_direction = Upload | Download

definition direction_from_name :: "string \<Rightarrow> transfer_direction option" where
  "direction_from_name name =
     (let n = to_ascii_lowercase name
      in if n = ''upload'' then Some Upload else if n = ''download'' then Some Download else None)"

fun direction_as_str :: "transfer_direction \<Rightarrow> string" where
  "direction_as_str Upload = ''upload''"
| "direction_as_str Download = ''download''"

datatype action =
    SendInput (si_session: string) (si_data: string)
  | SftpTransfer (st_direction: transfer_direction) (st_local: string) (st_remote: string)
  | SftpRemove (sr_remote: string) (sr_recursive: bool)
  | SftpChmod (sc_remote: string) (sc_mode: string)

datatype decision = Allow | Confirm | Deny

definition is_blocked_in_phase2 :: "decision \<Rightarrow> bool" where
  "is_blocked_in_phase2 d \<longleftrightarrow> d = Deny \<or> d = Confirm"

datatype approval_mode = Standard | Unrestricted

fun approval_as_str :: "approval_mode \<Rightarrow> string" where
  "approval_as_str Standard = ''standard''"
| "approval_as_str Unrestricted = ''unrestricted''"

text \<open>The severity order \<open>Allow < Confirm < Deny\<close> by which a policy chain merges decisions.\<close>

instantiation decision :: linorder
begin

fun severity :: "decision \<Rightarrow> nat" where
  "severity Allow = 0"
| "severity Confirm = 1"
| "severity Deny = 2"

definition less_eq_decision :: "decision \<Rightarrow> decision \<Rightarrow> bool" where
  "d \<le> e \<longleftrightarrow> severity d \<le> severity e"

definition less_decision :: "decision \<Rightarrow> decision \<Rightarrow> bool" where
  "d < e \<longleftrightarrow> severity d < severity e"

instance
proof
  fix d e :: decision
  show "d \<le> e \<Longrightarrow> e \<le> d \<Longrightarrow> d = e"
    by (cases d; cases e) (simp_all add: less_eq_decision_def)
qed (auto simp: less_eq_decision_def less_decision_def)

end

lemma decision_order [simp]:
  "Allow \<le> d" "d \<le> Deny" "Deny \<le> d \<longleftrightarrow> d = Deny" "d \<le> Allow \<longleftrightarrow> d = Allow"
  "Confirm \<le> d \<longleftrightarrow> d \<noteq> Allow"
  by (cases d; simp add: less_eq_decision_def)+

lemma max_decision [simp]:
  "max Allow d = d" "max d Allow = d" "max Deny d = Deny" "max d Deny = Deny"
  by (cases d; simp add: max_def less_eq_decision_def)+

section \<open>The names of keys and directions\<close>

lemma key_from_name_lower: "key_from_name (to_ascii_lowercase s) = key_from_name s"
proof -
  have "ascii_lower (ascii_lower c) = ascii_lower c" for c
    by (auto simp: ascii_lower_def of_char_of)
  then show ?thesis by (simp add: key_from_name_def to_ascii_lowercase_def comp_def)
qed

text \<open>
  The control keys: a name read back from its key gives the key, in any letter case, and no two
  keys send the same bytes.
\<close>

lemma control_key_names:
  "key_from_name (as_name k) = Some k \<and>
   key_from_name (to_ascii_lowercase s) = key_from_name s \<and>
   (as_bytes k = as_bytes k' \<longleftrightarrow> k = k') \<and> length (as_bytes k) = 1"
proof -
  have "key_from_name (as_name k) = Some k"
    by (cases k) (simp_all add: key_from_name_def to_ascii_lowercase_def ascii_lower_def)
  moreover have "as_bytes k = as_bytes k' \<longleftrightarrow> k = k'" by (cases k; cases k') simp_all
  moreover have "length (as_bytes k) = 1" by (cases k) simp_all
  ultimately show ?thesis using key_from_name_lower by blast
qed

section \<open>Passwords\<close>

text \<open>The answers of a credential provider, src/domain/credential.rs.\<close>

datatype credential_error = Cancelled | CredTimeout nat | HelperFailed string | Unsupported string

record password_credential =
  pc_user :: "string option"
  pc_secret :: string

end
