(* ===== verification/Protocol.thy ===== *)
theory Protocol
  imports Provider
begin

unbundle bit_operations_syntax

text \<open>
  The protocol between the MCP server and the remote daemon: agentd/src/protocol.rs, of which
  src/infrastructure/daemon_proto.rs is the client's copy.  A message is a four-byte big-endian
  length and that many bytes of JSON; requests and responses carry an id, events do not.

  The serde_json crate is a parameter: \<open>to_vec\<close> serialises a message and
  \<open>from_slice\<close> parses a byte string to a \<open>Value\<close>.  The bytes a connection will
  deliver before it ends are a list.
\<close>

section \<open>Values\<close>

text \<open>\<open>serde_json::Value\<close>; a number is an unsigned 64-bit integer or something else.\<close>

datatype json =
    JNull
  | JBool bool
  | JU64 u64
  | JOtherNum
  | JStr string
  | JArr "json list"
  | JObj "(string \<times> json) list"

fun jget :: "json \<Rightarrow> string \<Rightarrow> json option" where
  "jget (JObj kvs) k = map_of kvs k"
| "jget _ k = None"

fun as_str :: "json \<Rightarrow> string option" where
  "as_str (JStr s) = Some s"
| "as_str _ = None"

fun as_u64 :: "json \<Rightarrow> u64 option" where
  "as_u64 (JU64 n) = Some n"
| "as_u64 _ = None"

text \<open>\<open>params.get(k).and_then(|v| v.as_str())\<close>, and the same for numbers.\<close>

definition get_str :: "json \<Rightarrow> string \<Rightarrow> string option" where
  "get_str v k = (case jget v k of None \<Rightarrow> None | Some x \<Rightarrow> as_str x)"

definition get_u64 :: "json \<Rightarrow> string \<Rightarrow> u64 option" where
  "get_u64 v k = (case jget v k of None \<Rightarrow> None | Some x \<Rightarrow> as_u64 x)"

section \<open>Messages\<close>

definition PROTOCOL_VERSION :: u32 where "PROTOCOL_VERSION = 1"
definition BUILD_VERSION :: string where "BUILD_VERSION = ''0.1.0''"
definition MAX_MSG_LEN :: u32 where "MAX_MSG_LEN = 128 * 1024 * 1024"

record request =
  rq_id :: u64
  rq_method :: string
  rq_params :: json

text \<open>An error detail is its code and its message; fixed message texts are left out.\<close>

record response =
  rp_id :: u64
  rp_ok :: bool
  rp_result :: "json option"
  rp_error :: "(string \<times> string) option"

record event =
  e_event :: string
  e_session_id :: string
  e_cursor_start :: "nat option"
  e_cursor_end :: "nat option"
  e_is_truncated :: "bool option"
  e_data :: "string option"
  e_exit_code :: "int option"
  e_reason :: "string option"

definition pty_data :: "string \<Rightarrow> nat \<Rightarrow> nat \<Rightarrow> bool \<Rightarrow> string \<Rightarrow> event" where
  "pty_data session_id cursor_start cursor_end trunc data =
     \<lparr>e_event = ''pty_data'', e_session_id = session_id, e_cursor_start = Some cursor_start,
      e_cursor_end = Some cursor_end, e_is_truncated = Some trunc, e_data = Some data,
      e_exit_code = None, e_reason = None\<rparr>"

definition pty_exit :: "string \<Rightarrow> int \<Rightarrow> event" where
  "pty_exit session_id exit_code =
     \<lparr>e_event = ''pty_exit'', e_session_id = session_id, e_cursor_start = None, e_cursor_end = None,
      e_is_truncated = None, e_data = None, e_exit_code = Some exit_code, e_reason = None\<rparr>"

definition pty_exit_unknown :: "string \<Rightarrow> event" where
  "pty_exit_unknown session_id =
     \<lparr>e_event = ''pty_exit'', e_session_id = session_id, e_cursor_start = None, e_cursor_end = None,
      e_is_truncated = None, e_data = None, e_exit_code = None, e_reason = None\<rparr>"

definition session_lost :: "string \<Rightarrow> string \<Rightarrow> event" where
  "session_lost session_id reason =
     \<lparr>e_event = ''session_lost'', e_session_id = session_id, e_cursor_start = None,
      e_cursor_end = None, e_is_truncated = None, e_data = None, e_exit_code = None,
      e_reason = Some reason\<rparr>"

definition is_terminal_event :: "event \<Rightarrow> bool" where
  "is_terminal_event e \<longleftrightarrow> e_event e = ''pty_exit'' \<or> e_event e = ''session_lost''"

definition ok_response :: "u64 \<Rightarrow> json \<Rightarrow> response" where
  "ok_response i result = \<lparr>rp_id = i, rp_ok = True, rp_result = Some result, rp_error = None\<rparr>"

definition err_response :: "u64 \<Rightarrow> string \<Rightarrow> string \<Rightarrow> response" where
  "err_response i c message =
     \<lparr>rp_id = i, rp_ok = False, rp_result = None, rp_error = Some (c, message)\<rparr>"

section \<open>Framing\<close>

definition to_be_bytes :: "u32 \<Rightarrow> bytes" where
  "to_be_bytes w = [ucast (drop_bit 24 w), ucast (drop_bit 16 w), ucast (drop_bit 8 w), ucast w]"

fun from_be_bytes :: "bytes \<Rightarrow> u32" where
  "from_be_bytes [a, b, c, d] =
     push_bit 24 (ucast a) OR push_bit 16 (ucast b) OR push_bit 8 (ucast c) OR ucast d"
| "from_be_bytes _ = 0"

text \<open>The length is cast with \<open>as u32\<close>: it wraps at 4 GiB.\<close>

definition encode :: "('m \<Rightarrow> bytes) \<Rightarrow> 'm \<Rightarrow> bytes" where
  "encode to_vec msg =
     (let js = to_vec msg; len = (of_nat (length js) :: u32) in to_be_bytes len @ js)"

datatype io_error = UnexpectedEof | InvalidData

text \<open>\<open>read_exact\<close> of \<open>n\<close> bytes: the bytes and what the connection still holds.\<close>

definition read_exact :: "nat \<Rightarrow> bytes \<Rightarrow> io_error + bytes \<times> bytes" where
  "read_exact n s = (if length s < n then Inl UnexpectedEof else Inr (take n s, drop n s))"

definition read_msg :: "(bytes \<Rightarrow> json option) \<Rightarrow> bytes \<Rightarrow> io_error + json \<times> bytes" where
  "read_msg from_slice s =
     (case read_exact 4 s of
        Inl e \<Rightarrow> Inl e
      | Inr (len_buf, s) \<Rightarrow>
          let len = from_be_bytes len_buf
          in if len = 0 then Inl InvalidData
             else if len > MAX_MSG_LEN then Inl InvalidData
             else (case read_exact (unat len) s of
                     Inl e \<Rightarrow> Inl e
                   | Inr (buf, s) \<Rightarrow>
                       (case from_slice buf of None \<Rightarrow> Inl InvalidData | Some v \<Rightarrow> Inr (v, s))))"

text \<open>A reader that consumes messages until the first error.\<close>

fun read_msgs :: "(bytes \<Rightarrow> json option) \<Rightarrow> nat \<Rightarrow> bytes \<Rightarrow> json list \<times> io_error option" where
  "read_msgs from_slice 0 s = ([], None)"
| "read_msgs from_slice (Suc n) s =
     (case read_msg from_slice s of
        Inl e \<Rightarrow> ([], Some e)
      | Inr (v, s') \<Rightarrow> (let (vs, e) = read_msgs from_slice n s' in (v # vs, e)))"

lemma length_to_be_bytes [simp]: "length (to_be_bytes w) = 4"
  by (simp add: to_be_bytes_def)

lemma from_to_be_bytes [simp]: "from_be_bytes (to_be_bytes w) = w"
  unfolding to_be_bytes_def from_be_bytes.simps
proof (rule bit_word_eqI)
  fix n
  assume "n < LENGTH(32)"
  then consider "n < 8" | "8 \<le> n" "n < 16" | "16 \<le> n" "n < 24" | "24 \<le> n" "n < 32" by fastforce
  then show "bit (push_bit 24 (ucast (ucast (drop_bit 24 w) :: byte)) OR push_bit 16 (ucast (ucast (drop_bit 16 w) :: byte)) OR
      push_bit 8 (ucast (ucast (drop_bit 8 w) :: byte)) OR ucast (ucast w :: byte) :: u32) n = bit w n"
    by cases (auto simp: bit_simps)
qed

text \<open>The messages the frame format can carry.\<close>

definition frameable :: "('m \<Rightarrow> bytes) \<Rightarrow> 'm \<Rightarrow> bool" where
  "frameable to_vec m \<longleftrightarrow> to_vec m \<noteq> [] \<and> length (to_vec m) \<le> unat MAX_MSG_LEN"

lemma frame_length:
  assumes "frameable to_vec m"
  shows "unat (of_nat (length (to_vec m)) :: u32) = length (to_vec m)"
    and "(of_nat (length (to_vec m)) :: u32) \<noteq> 0" and "\<not> (of_nat (length (to_vec m)) :: u32) > MAX_MSG_LEN"
proof -
  have max: "unat MAX_MSG_LEN = 128 * 1024 * 1024" by (simp add: MAX_MSG_LEN_def)
  then show n: "unat (of_nat (length (to_vec m)) :: u32) = length (to_vec m)"
    using assms by (simp add: frameable_def unat_of_nat)
  show "(of_nat (length (to_vec m)) :: u32) \<noteq> 0"
    using n assms by (metis frameable_def length_0_conv unat_0)
  show "\<not> (of_nat (length (to_vec m)) :: u32) > MAX_MSG_LEN"
    using n assms by (simp add: frameable_def word_less_nat_alt)
qed

lemma read_msg_encode:
  assumes "frameable to_vec m" "from_slice (to_vec m) = Some v"
  shows "read_msg from_slice (encode to_vec m @ rest) = Inr (v, rest)"
  using frame_length [OF assms(1)] assms(2)
  by (simp add: read_msg_def encode_def read_exact_def Let_def)

lemma read_msg_encode_cut:
  assumes "frameable to_vec m" "k < length (encode to_vec m)"
  shows "read_msg from_slice (take k (encode to_vec m)) = Inl UnexpectedEof"
proof (cases "k < 4")
  case True
  then show ?thesis by (simp add: read_msg_def encode_def read_exact_def Let_def)
next
  case False
  then have "k - 4 < length (to_vec m)" using assms(2) by (simp add: encode_def Let_def)
  then show ?thesis using frame_length [OF assms(1)] False
    by (simp add: read_msg_def encode_def read_exact_def Let_def min_def)
qed

lemma read_msgs_encode:
  assumes "\<forall>m \<in> set ms. frameable to_vec m \<and> from_slice (to_vec m) = Some (val m)"
  shows "read_msgs from_slice (length ms + n) (concat (map (encode to_vec) ms) @ rest) =
    (let (vs, e) = read_msgs from_slice n rest in (map val ms @ vs, e))"
  using assms by (induction ms) (auto simp: read_msg_encode Let_def case_prod_beta)

text \<open>
  (C23) The framing is lossless: of a stream of framed messages cut off anywhere inside the next one, the
  reader gets exactly the complete messages, in order, and then an end-of-file error; it never
  returns part of a message or joins two.
\<close>

theorem framing_roundtrip:
  assumes "\<forall>m \<in> set (ms @ [m']). frameable to_vec m \<and> from_slice (to_vec m) = Some (val m)"
    and "k < length (encode to_vec m')"
  shows "read_msgs from_slice (length ms + Suc n)
      (concat (map (encode to_vec) ms) @ take k (encode to_vec m')) = (map val ms, Some UnexpectedEof)"
proof -
  have "read_msgs from_slice (Suc n) (take k (encode to_vec m')) = ([], Some UnexpectedEof)"
    using read_msg_encode_cut [of to_vec m' k from_slice] assms by simp
  then show ?thesis using read_msgs_encode [of ms to_vec from_slice val "Suc n"] assms(1) by simp
qed

theorem framing_roundtrip_witness:
  "read_msgs (\<lambda>b. if b = [0x31] then Some (JU64 1) else None) 2
     [0, 0, 0, 1, 0x31, 0, 0, 0, 1] = ([JU64 1], Some UnexpectedEof)"
proof -
  let ?v = "(\<lambda>_. [0x31]) :: json \<Rightarrow> bytes" and ?p = "\<lambda>b :: bytes. if b = [0x31] then Some (JU64 1) else None"
  have "encode ?v m = [0, 0, 0, 1, 0x31]" for m by (simp add: encode_def to_be_bytes_def)
  moreover have "frameable ?v m" for m by (simp add: frameable_def MAX_MSG_LEN_def)
  ultimately show ?thesis
    using framing_roundtrip [of "[JU64 1]" "JU64 1" ?v ?p "\<lambda>_. JU64 1" 4 0]
    unfolding numeral_2_eq_2 by (simp del: read_msgs.simps)
qed

end
