(* ===== verification/Agentd.thy ===== *)
theory Agentd
  imports Ring_Buffer Protocol
begin

text \<open>
  The remote daemon: its sessions and their manager (agentd/src/session.rs), and the RPC server with
  its request dispatch, connection clean-up and event pumps (agentd/src/rpc.rs).

  A session is shared by the manager, its read task and the event pumps (\<open>Arc<Session>\<close>),
  and outlives its removal from the manager; so sessions live in a store of objects, and the
  manager maps a session id to an address.  The answers of the operating system, of the input writer
  (theory \<open>Pty_Writer\<close>) and of the base64 crate are arguments, collected in two records.
\<close>

section \<open>Sessions\<close>

datatype session_error =
    NotFound string
  | InvalidState string string
  | SessionIsLost string
  | PtyError string
  | InvalidArg string

text \<open>Their \<open>Display\<close> texts, and two Chinese words of the messages in UTF-8: failed, and creation failed.\<close>

fun session_error_text :: "session_error \<Rightarrow> string" where
  "session_error_text (NotFound s) = ''session not found: '' @ s"
| "session_error_text (InvalidState ex ac) = ''session state invalid: expected '' @ ex @ '', got '' @ ac"
| "session_error_text (SessionIsLost s) = ''session lost: '' @ s"
| "session_error_text (PtyError e) = ''pty error: '' @ e"
| "session_error_text (InvalidArg e) = ''invalid argument: '' @ e"

definition FAILED :: string where
  "FAILED = [CHR 0xE5, CHR 0xA4, CHR 0xB1, CHR 0xE8, CHR 0xB4, CHR 0xA5]"

definition CREATION_FAILED :: string where
  "CREATION_FAILED = [CHR 0xE5, CHR 0x88, CHR 0x9B, CHR 0xE5, CHR 0xBB, CHR 0xBA] @ FAILED"

datatype dstate = Created | Attached | Detached | Lost

fun dstate_as_str :: "dstate \<Rightarrow> string" where
  "dstate_as_str Created = ''created''"
| "dstate_as_str Attached = ''attached''"
| "dstate_as_str Detached = ''detached''"
| "dstate_as_str Lost = ''lost''"

datatype terminal_info = Exited int | ExitedUnknown | LostInfo string

text \<open>The read task: in its loop, between the two stores that end the session, or ended.\<close>

datatype reader = Reading | Finishing | Ended

text \<open>
  Two fields record what the terminal was given: \<open>ds_spawned\<close> the arguments of \<open>Pty::spawn\<close>, \<open>ds_input\<close> the bytes
  queued for the input writer.  No operation reads them.
\<close>

record dsession =
  ds_id :: string
  ds_name :: "string option"
  ds_state :: dstate
  ds_buffer :: ring
  ds_created_at :: nat
  ds_last_activity_at :: nat
  ds_pty_size :: pty_size
  ds_terminal :: "terminal_info option"
  ds_pump_epoch :: nat
  ds_killed :: bool
  ds_reader :: reader
  ds_spawned :: "string \<times> string option \<times> pty_size"
  ds_input :: bytes

record manager =
  mg_objs :: "dsession list"
  mg_sessions :: "(string \<times> nat) list"

definition manager_new :: manager where
  "manager_new = \<lparr>mg_objs = [], mg_sessions = []\<rparr>"

definition obj :: "manager \<Rightarrow> nat \<Rightarrow> dsession" where
  "obj m a = mg_objs m ! a"

definition set_obj :: "nat \<Rightarrow> dsession \<Rightarrow> manager \<Rightarrow> manager" where
  "set_obj a s m = m\<lparr>mg_objs := (mg_objs m)[a := s]\<rparr>"

definition get_session :: "manager \<Rightarrow> string \<Rightarrow> nat option" where
  "get_session m sid = map_of (mg_sessions m) sid"

definition contains :: "manager \<Rightarrow> string \<Rightarrow> bool" where
  "contains m sid \<longleftrightarrow> get_session m sid \<noteq> None"

text \<open>
  What the world answers during one call: the clock, the new id, \<open>Pty::spawn\<close>, the creation of the input writer, its \<open>send\<close>
  (all bytes are queued, or it fails after some are), and the window-size call.
\<close>

record world =
  w_now :: nat
  w_new_id :: string
  w_spawn :: "string \<Rightarrow> string option \<Rightarrow> pty_size \<Rightarrow> string + unit"
  w_writer :: "string + unit"
  w_write :: "bytes \<Rightarrow> nat \<times> string + unit"
  w_resize :: "u16 \<Rightarrow> u16 \<Rightarrow> string + unit"

section \<open>The session manager\<close>

definition create ::
  "world \<Rightarrow> manager \<Rightarrow> string \<Rightarrow> string option \<Rightarrow> pty_size \<Rightarrow> string option \<Rightarrow> manager \<times> (session_error + string)" where
  "create w m shell cwd sz name =
     (case w_spawn w shell cwd sz of
        Inl e \<Rightarrow> (m, Inl (PtyError (''spawn '' @ FAILED @ '': '' @ e)))
      | Inr _ \<Rightarrow>
          (case w_writer w of
             Inl e \<Rightarrow> (m, Inl (PtyError (''writer '' @ CREATION_FAILED @ '': '' @ e)))
           | Inr _ \<Rightarrow>
               let sid = w_new_id w;
                   s = \<lparr>ds_id = sid, ds_name = name, ds_state = Created, ds_buffer = agentd_new 0,
                        ds_created_at = w_now w, ds_last_activity_at = w_now w, ds_pty_size = sz,
                        ds_terminal = None, ds_pump_epoch = 0, ds_killed = False, ds_reader = Reading,
                        ds_spawned = (shell, cwd, sz), ds_input = []\<rparr>
               in (m\<lparr>mg_objs := mg_objs m @ [s],
                     mg_sessions := (sid, length (mg_objs m)) # filter (\<lambda>p. fst p \<noteq> sid) (mg_sessions m)\<rparr>,
                   Inr sid)))"

definition attach :: "manager \<Rightarrow> string \<Rightarrow> nat \<Rightarrow> manager \<times> (session_error + agentd_read)" where
  "attach m sid since_cursor =
     (case get_session m sid of
        None \<Rightarrow> (m, Inl (NotFound sid))
      | Some a \<Rightarrow>
          let s = obj m a
          in case ds_state s of
               Lost \<Rightarrow> (m, Inl (SessionIsLost sid))
             | Attached \<Rightarrow> (m, Inl (InvalidState ''created or detached'' ''attached''))
             | _ \<Rightarrow> (set_obj a (s\<lparr>ds_state := Attached, ds_pump_epoch := ds_pump_epoch s + 1\<rparr>) m,
                     Inr (agentd_read_since (ds_buffer s) since_cursor)))"

definition detach :: "manager \<Rightarrow> string \<Rightarrow> manager \<times> (session_error + unit)" where
  "detach m sid =
     (case get_session m sid of
        None \<Rightarrow> (m, Inl (NotFound sid))
      | Some a \<Rightarrow>
          let s = obj m a
          in case ds_state s of
               Attached \<Rightarrow> (set_obj a (s\<lparr>ds_state := Detached\<rparr>) m, Inr ())
             | Lost \<Rightarrow> (m, Inl (SessionIsLost sid))
             | other \<Rightarrow> (m, Inl (InvalidState ''attached'' (dstate_as_str other))))"

definition ensure_alive :: "dsession \<Rightarrow> session_error + unit" where
  "ensure_alive s = (if ds_state s = Lost then Inl (SessionIsLost (ds_id s)) else Inr ())"

definition send_input :: "world \<Rightarrow> manager \<Rightarrow> string \<Rightarrow> bytes \<Rightarrow> manager \<times> (session_error + unit)" where
  "send_input w m sid data =
     (case get_session m sid of
        None \<Rightarrow> (m, Inl (NotFound sid))
      | Some a \<Rightarrow>
          (case ensure_alive (obj m a) of
             Inl e \<Rightarrow> (m, Inl e)
           | Inr _ \<Rightarrow>
               (let s = obj m a
                in case w_write w data of
                     Inl (n, e) \<Rightarrow>
                       (set_obj a (s\<lparr>ds_input := ds_input s @ take n data\<rparr>) m, Inl (PtyError (''write '' @ FAILED @ '': '' @ e)))
                   | Inr _ \<Rightarrow>
                       (set_obj a (s\<lparr>ds_input := ds_input s @ data, ds_last_activity_at := w_now w\<rparr>) m, Inr ()))))"

definition send_control :: "world \<Rightarrow> manager \<Rightarrow> string \<Rightarrow> control_key \<Rightarrow> manager \<times> (session_error + unit)" where
  "send_control w m sid key = send_input w m sid (as_bytes key)"

definition resize :: "world \<Rightarrow> manager \<Rightarrow> string \<Rightarrow> u16 \<Rightarrow> u16 \<Rightarrow> manager \<times> (session_error + unit)" where
  "resize w m sid r c =
     (case get_session m sid of
        None \<Rightarrow> (m, Inl (NotFound sid))
      | Some a \<Rightarrow>
          (case ensure_alive (obj m a) of
             Inl e \<Rightarrow> (m, Inl e)
           | Inr _ \<Rightarrow>
               (case w_resize w r c of
                  Inl e \<Rightarrow> (m, Inl (PtyError (''resize '' @ FAILED @ '': '' @ e)))
                | Inr _ \<Rightarrow> (set_obj a ((obj m a)\<lparr>ds_pty_size := \<lparr>rows = r, cols = c\<rparr>\<rparr>) m, Inr ()))))"

definition read_output :: "manager \<Rightarrow> string \<Rightarrow> nat \<Rightarrow> session_error + agentd_read" where
  "read_output m sid since_cursor =
     (case get_session m sid of
        None \<Rightarrow> Inl (NotFound sid)
      | Some a \<Rightarrow> Inr (agentd_read_since (ds_buffer (obj m a)) since_cursor))"

definition close :: "manager \<Rightarrow> string \<Rightarrow> manager \<times> (session_error + unit)" where
  "close m sid =
     (case get_session m sid of
        None \<Rightarrow> (m, Inl (NotFound sid))
      | Some a \<Rightarrow>
          (set_obj a ((obj m a)\<lparr>ds_killed := True\<rparr>)
             (m\<lparr>mg_sessions := filter (\<lambda>p. fst p \<noteq> sid) (mg_sessions m)\<rparr>), Inr ()))"

text \<open>\<open>shutdown\<close>: close every session there is.\<close>

definition shutdown :: "manager \<Rightarrow> manager" where
  "shutdown m = foldl (\<lambda>m sid. fst (close m sid)) m (map fst (mg_sessions m))"

section \<open>The read task\<close>

definition reader_data :: "nat \<Rightarrow> bytes \<Rightarrow> dsession \<Rightarrow> dsession" where
  "reader_data now data s =
     s\<lparr>ds_buffer := rb_write (ds_buffer s) data, ds_last_activity_at := now\<rparr>"

text \<open>The end of the task: first the terminal information, then the state.\<close>

definition reader_terminal :: "terminal_info \<Rightarrow> dsession \<Rightarrow> dsession" where
  "reader_terminal info s = s\<lparr>ds_terminal := Some info, ds_reader := Finishing\<rparr>"

definition reader_lost :: "dsession \<Rightarrow> dsession" where
  "reader_lost s = s\<lparr>ds_state := Lost, ds_reader := Ended\<rparr>"

text \<open>\<open>reap_exit_code_bounded\<close>: the first answer of at most 100 polls.\<close>

definition REAP_ATTEMPTS :: nat where "REAP_ATTEMPTS = 100"

definition reap_exit_code_bounded :: "(nat \<Rightarrow> int option) \<Rightarrow> int option" where
  "reap_exit_code_bounded try_reap =
     (case dropWhile (\<lambda>c. c = None) (map try_reap [0..<REAP_ATTEMPTS]) of [] \<Rightarrow> None | c # _ \<Rightarrow> c)"

definition finish_info :: "(nat \<Rightarrow> int option) \<Rightarrow> terminal_info" where
  "finish_info try_reap =
     (case reap_exit_code_bounded try_reap of Some c \<Rightarrow> Exited c | None \<Rightarrow> ExitedUnknown)"

section \<open>Dispatch\<close>

text \<open>The base64 crate's standard engine, and \<open>to_rfc3339\<close>.\<close>

record codec =
  b64_encode :: "bytes \<Rightarrow> string"
  b64_decode :: "string \<Rightarrow> string + bytes"
  rfc3339 :: "nat \<Rightarrow> string"

fun session_err_to_response :: "u64 \<Rightarrow> session_error \<Rightarrow> response" where
  "session_err_to_response i (NotFound s) = err_response i ''NOT_FOUND'' (''session not found: '' @ s)"
| "session_err_to_response i (InvalidState ex ac) =
     err_response i ''INVALID_STATE'' (''session state invalid: expected '' @ ex @ '', got '' @ ac)"
| "session_err_to_response i (SessionIsLost s) = err_response i ''SESSION_LOST'' (''session lost: '' @ s)"
| "session_err_to_response i (PtyError e) = err_response i ''INTERNAL'' (''pty error: '' @ e)"
| "session_err_to_response i (InvalidArg e) = err_response i ''INVALID_ARGUMENT'' (''invalid argument: '' @ e)"

definition unit_response :: "u64 \<Rightarrow> session_error + unit \<Rightarrow> response" where
  "unit_response i r = (case r of Inl e \<Rightarrow> session_err_to_response i e | Inr _ \<Rightarrow> ok_response i (JObj []))"

definition read_json :: "codec \<Rightarrow> agentd_read \<Rightarrow> json" where
  "read_json cod r =
     JObj [(''cursor_start'', JU64 (of_nat (ar_cursor_start r))), (''cursor_end'', JU64 (of_nat (ar_cursor_end r))),
           (''is_truncated'', JBool (ar_is_truncated r)), (''data'', JStr (b64_encode cod (ar_data r)))]"

definition info_json :: "codec \<Rightarrow> dsession \<Rightarrow> json" where
  "info_json cod s =
     JObj ([(''id'', JStr (ds_id s))] @
           (case ds_name s of None \<Rightarrow> [] | Some n \<Rightarrow> [(''name'', JStr n)]) @
           [(''state'', JStr (dstate_as_str (ds_state s))), (''created_at'', JStr (rfc3339 cod (ds_created_at s))),
            (''last_activity_at'', JStr (rfc3339 cod (ds_last_activity_at s))),
            (''pty_size'', JObj [(''rows'', JU64 (ucast (rows (ds_pty_size s)))),
                                (''cols'', JU64 (ucast (cols (ds_pty_size s))))]),
            (''written'', JU64 (of_nat (rb_written (ds_buffer s))))])"

record pump_action =
  pa_addr :: nat
  pa_session_id :: string
  pa_cursor_end :: nat
  pa_epoch :: nat

text \<open>The key names of \<open>session.send_control\<close>, compared exactly.\<close>

definition control_of :: "string \<Rightarrow> control_key option" where
  "control_of s =
     (if s = ''ctrl+c'' then Some CtrlC else if s = ''ctrl+d'' then Some CtrlD
      else if s = ''ctrl+z'' then Some CtrlZ else if s = ''tab'' then Some Tab
      else if s = ''enter'' then Some Enter else if s = ''escape'' then Some Escape else None)"

text \<open>One method each; the parts of \<open>dispatch\<close>.\<close>

definition do_create :: "world \<Rightarrow> manager \<Rightarrow> request \<Rightarrow> manager \<times> response" where
  "do_create w m rq =
     (case (get_str (rq_params rq) ''shell'', jget (rq_params rq) ''pty_size'') of
        (Some shell, Some sz) \<Rightarrow>
          let r = ucast (case get_u64 sz ''rows'' of Some n \<Rightarrow> n | None \<Rightarrow> 24);
              c = ucast (case get_u64 sz ''cols'' of Some n \<Rightarrow> n | None \<Rightarrow> 80)
          in (case create w m shell (get_str (rq_params rq) ''cwd'') \<lparr>rows = r, cols = c\<rparr> (get_str (rq_params rq) ''name'') of
                (m', Inr sid) \<Rightarrow>
                  (m', ok_response (rq_id rq) (JObj [(''session_id'', JStr sid), (''written'', JU64 0)]))
              | (m', Inl e) \<Rightarrow> (m', err_response (rq_id rq) ''INTERNAL'' (session_error_text e)))
      | _ \<Rightarrow> (m, err_response (rq_id rq) ''INVALID_ARGUMENT'' ''shell, pty_size''))"

definition do_attach ::
  "codec \<Rightarrow> manager \<Rightarrow> string list \<Rightarrow> request \<Rightarrow> manager \<times> string list \<times> response \<times> pump_action option" where
  "do_attach cod m attached rq =
     (case get_str (rq_params rq) ''session_id'' of
        None \<Rightarrow> (m, attached, err_response (rq_id rq) ''INVALID_ARGUMENT'' ''session_id'', None)
      | Some sid \<Rightarrow>
          (case attach m sid (case get_u64 (rq_params rq) ''since_cursor'' of Some n \<Rightarrow> unat n | None \<Rightarrow> 0) of
             (m', Inl e) \<Rightarrow> (m', attached, session_err_to_response (rq_id rq) e, None)
           | (m', Inr r) \<Rightarrow>
               (case get_session m' sid of
                  None \<Rightarrow> (m', attached, err_response (rq_id rq) ''INTERNAL'' ''session_id'', None)
                | Some a \<Rightarrow>
                    (m', attached @ [sid], ok_response (rq_id rq) (read_json cod r),
                     Some \<lparr>pa_addr = a, pa_session_id = sid, pa_cursor_end = ar_cursor_end r,
                           pa_epoch = ds_pump_epoch (obj m' a)\<rparr>))))"

definition do_detach :: "manager \<Rightarrow> string list \<Rightarrow> request \<Rightarrow> manager \<times> string list \<times> response" where
  "do_detach m attached rq =
     (case get_str (rq_params rq) ''session_id'' of
        None \<Rightarrow> (m, attached, err_response (rq_id rq) ''INVALID_ARGUMENT'' ''session_id'')
      | Some sid \<Rightarrow>
          let (m', r) = detach m sid
          in (m', if isl r then attached else filter (\<lambda>s. s \<noteq> sid) attached, unit_response (rq_id rq) r))"

definition do_list :: "codec \<Rightarrow> manager \<Rightarrow> request \<Rightarrow> response" where
  "do_list cod m rq =
     ok_response (rq_id rq)
       (JObj [(''sessions'', JArr (map (\<lambda>q. info_json cod (obj m (snd q))) (mg_sessions m)))])"

definition do_send_input :: "codec \<Rightarrow> world \<Rightarrow> manager \<Rightarrow> request \<Rightarrow> manager \<times> response" where
  "do_send_input cod w m rq =
     (case (get_str (rq_params rq) ''session_id'', get_str (rq_params rq) ''data'') of
        (Some sid, Some data) \<Rightarrow>
          (case b64_decode cod data of
             Inr d \<Rightarrow> let (m', r) = send_input w m sid d in (m', unit_response (rq_id rq) r)
           | Inl e \<Rightarrow> (m, err_response (rq_id rq) ''INVALID_ARGUMENT'' e))
      | _ \<Rightarrow> (m, err_response (rq_id rq) ''INVALID_ARGUMENT'' ''session_id, data''))"

definition do_send_control :: "world \<Rightarrow> manager \<Rightarrow> request \<Rightarrow> manager \<times> response" where
  "do_send_control w m rq =
     (case (get_str (rq_params rq) ''session_id'', get_str (rq_params rq) ''control'') of
        (Some sid, Some ctl) \<Rightarrow>
          (case control_of ctl of
             Some k \<Rightarrow> let (m', r) = send_control w m sid k in (m', unit_response (rq_id rq) r)
           | None \<Rightarrow> (m, err_response (rq_id rq) ''INVALID_ARGUMENT'' ctl))
      | _ \<Rightarrow> (m, err_response (rq_id rq) ''INVALID_ARGUMENT'' ''session_id, control''))"

definition do_resize :: "world \<Rightarrow> manager \<Rightarrow> request \<Rightarrow> manager \<times> response" where
  "do_resize w m rq =
     (case (get_str (rq_params rq) ''session_id'', get_u64 (rq_params rq) ''rows'', get_u64 (rq_params rq) ''cols'') of
        (Some sid, Some r, Some c) \<Rightarrow>
          let (m', res) = resize w m sid (ucast r) (ucast c) in (m', unit_response (rq_id rq) res)
      | _ \<Rightarrow> (m, err_response (rq_id rq) ''INVALID_ARGUMENT'' ''session_id/rows/cols''))"

definition do_read_output :: "codec \<Rightarrow> manager \<Rightarrow> request \<Rightarrow> response" where
  "do_read_output cod m rq =
     (case get_str (rq_params rq) ''session_id'' of
        None \<Rightarrow> err_response (rq_id rq) ''INVALID_ARGUMENT'' ''session_id''
      | Some sid \<Rightarrow>
          (case read_output m sid (case get_u64 (rq_params rq) ''since_cursor'' of Some n \<Rightarrow> unat n | None \<Rightarrow> 0) of
             Inr r \<Rightarrow> ok_response (rq_id rq) (read_json cod r)
           | Inl e \<Rightarrow> session_err_to_response (rq_id rq) e))"

definition do_close :: "manager \<Rightarrow> string list \<Rightarrow> request \<Rightarrow> manager \<times> string list \<times> response" where
  "do_close m attached rq =
     (case get_str (rq_params rq) ''session_id'' of
        None \<Rightarrow> (m, attached, err_response (rq_id rq) ''INVALID_ARGUMENT'' ''session_id'')
      | Some sid \<Rightarrow>
          let (m', r) = close m sid
          in (m', if isl r then attached else filter (\<lambda>s. s \<noteq> sid) attached, unit_response (rq_id rq) r))"

text \<open>The answer of a method that starts no pump, with the attached sessions it leaves.\<close>

definition plain :: "string list \<Rightarrow> manager \<times> response \<Rightarrow>
   manager \<times> string list \<times> response \<times> pump_action option" where
  "plain attached r = (fst r, attached, snd r, None)"

definition plain_attached :: "manager \<times> string list \<times> response \<Rightarrow>
   manager \<times> string list \<times> response \<times> pump_action option" where
  "plain_attached r = (fst r, fst (snd r), snd (snd r), None)"

definition dispatch ::
  "codec \<Rightarrow> world \<Rightarrow> manager \<Rightarrow> string list \<Rightarrow> request \<Rightarrow>
   manager \<times> string list \<times> response \<times> pump_action option" where
  "dispatch cod w m attached rq =
     (let meth = rq_method rq
      in if meth = ''session.create'' then plain attached (do_create w m rq)
         else if meth = ''session.attach'' then do_attach cod m attached rq
         else if meth = ''session.detach'' then plain_attached (do_detach m attached rq)
         else if meth = ''session.list'' then plain attached (m, do_list cod m rq)
         else if meth = ''session.send_input'' then plain attached (do_send_input cod w m rq)
         else if meth = ''session.send_control'' then plain attached (do_send_control w m rq)
         else if meth = ''session.resize'' then plain attached (do_resize w m rq)
         else if meth = ''session.read_output'' then plain attached (m, do_read_output cod m rq)
         else if meth = ''session.close'' then plain_attached (do_close m attached rq)
         else if meth = ''daemon.shutdown'' then plain attached (m, ok_response (rq_id rq) (JObj []))
         else plain attached (m, err_response (rq_id rq) ''NOT_FOUND'' meth))"

text \<open>What holds of every method's answer holds of \<open>dispatch\<close>.\<close>

lemma dispatch_cases:
  assumes "\<And>resp. P (plain attached (m, resp))"
    and "P (plain attached (do_create w m rq))" "P (do_attach cod m attached rq)"
    and "P (plain_attached (do_detach m attached rq))" "P (plain attached (do_send_input cod w m rq))"
    and "P (plain attached (do_send_control w m rq))" "P (plain attached (do_resize w m rq))"
    and "P (plain_attached (do_close m attached rq))"
  shows "P (dispatch cod w m attached rq)"
  unfolding dispatch_def Let_def using assms by (auto split: if_split)

lemma plain_simps [simp]:
  "fst (plain attached r) = fst r" "snd (snd (snd (plain attached r))) = None"
  "fst (plain_attached q) = fst q" "snd (snd (snd (plain_attached q))) = None"
  by (simp_all add: plain_def plain_attached_def)

text \<open>The handshake: the response, and whether the connection goes on.\<close>

definition hello :: "string \<Rightarrow> request \<Rightarrow> response \<times> bool" where
  "hello daemon_id rq =
     (if rq_method rq \<noteq> ''hello'' then (err_response (rq_id rq) ''PROTOCOL_MISMATCH'' (rq_method rq), False)
      else (case get_u64 (rq_params rq) ''client_protocol_version'' of
              Some v \<Rightarrow>
                if (ucast v :: u32) = PROTOCOL_VERSION
                then (ok_response (rq_id rq)
                        (JObj [(''daemon_protocol_version'', JU64 (ucast PROTOCOL_VERSION)),
                               (''daemon_build'', JStr BUILD_VERSION), (''daemon_id'', JStr daemon_id)]), True)
                else (err_response (rq_id rq) ''PROTOCOL_MISMATCH'' ''version'', False)
            | None \<Rightarrow> (err_response (rq_id rq) ''PROTOCOL_MISMATCH'' ''version'', False)))"

text \<open>The clean-up when a connection ends.\<close>

definition cleanup :: "manager \<Rightarrow> string list \<Rightarrow> manager" where
  "cleanup m attached = foldl (\<lambda>m sid. fst (detach m sid)) m attached"

section \<open>The event pump\<close>

text \<open>
  A pump stands before the flush, before the test that the session is still managed, before the test
  of its state, or it has returned.  \<open>pm_sent\<close> is what the client got, and
  \<open>pm_start\<close> the cursor it started at.
\<close>

datatype pump_pc = Flush | CheckRemoved | CheckState | Stopped

record pump =
  pm_conn :: nat
  pm_addr :: nat
  pm_session_id :: string
  pm_epoch :: nat
  pm_start :: nat
  pm_last_sent :: nat
  pm_pc :: pump_pc
  pm_sent :: "event list"

definition pump_new :: "nat \<Rightarrow> pump_action \<Rightarrow> pump" where
  "pump_new conn pa =
     \<lparr>pm_conn = conn, pm_addr = pa_addr pa, pm_session_id = pa_session_id pa, pm_epoch = pa_epoch pa,
      pm_start = pa_cursor_end pa, pm_last_sent = pa_cursor_end pa, pm_pc = Flush, pm_sent = []\<rparr>"

definition terminal_event :: "string \<Rightarrow> terminal_info option \<Rightarrow> event" where
  "terminal_event sid t =
     (case t of
        Some (Exited c) \<Rightarrow> pty_exit sid c
      | Some ExitedUnknown \<Rightarrow> pty_exit_unknown sid
      | Some (LostInfo reason) \<Rightarrow> session_lost sid reason
      | None \<Rightarrow> session_lost sid ''pty eof'')"

text \<open>The last event is written to a connection that may be gone; the pump returns anyway.\<close>

definition pump_finish :: "bool \<Rightarrow> event \<Rightarrow> pump \<Rightarrow> pump" where
  "pump_finish conn_open ev p = p\<lparr>pm_pc := Stopped, pm_sent := pm_sent p @ (if conn_open then [ev] else [])\<rparr>"

definition pump_step :: "codec \<Rightarrow> bool \<Rightarrow> manager \<Rightarrow> pump \<Rightarrow> pump" where
  "pump_step cod conn_open m p =
     (let s = obj m (pm_addr p)
      in case pm_pc p of
           Flush \<Rightarrow>
             if ds_pump_epoch s \<noteq> pm_epoch p then p\<lparr>pm_pc := Stopped\<rparr>
             else let r = agentd_read_since (ds_buffer s) (pm_last_sent p)
                  in if ar_data r = [] then p\<lparr>pm_pc := CheckRemoved\<rparr>
                     else if \<not> conn_open then p\<lparr>pm_pc := Stopped\<rparr>
                     else p\<lparr>pm_pc := CheckRemoved, pm_last_sent := ar_cursor_end r,
                            pm_sent := pm_sent p @ [pty_data (pm_session_id p) (ar_cursor_start r)
                              (ar_cursor_end r) (ar_is_truncated r) (b64_encode cod (ar_data r))]\<rparr>
         | CheckRemoved \<Rightarrow>
             if \<not> contains m (pm_session_id p)
             then pump_finish conn_open (session_lost (pm_session_id p) ''session closed'') p
             else p\<lparr>pm_pc := CheckState\<rparr>
         | CheckState \<Rightarrow>
             (case ds_state s of
                Attached \<Rightarrow> p\<lparr>pm_pc := Flush\<rparr>
              | Lost \<Rightarrow> pump_finish conn_open (terminal_event (pm_session_id p) (ds_terminal s)) p
              | _ \<Rightarrow> p\<lparr>pm_pc := Stopped\<rparr>)
         | Stopped \<Rightarrow> p)"

end
