(* ===== verification/Agentd_Run.thy ===== *)
theory Agentd_Run
  imports Agentd
begin

text \<open>
  The running daemon: connections that send requests and hang up, read tasks that write terminal
  output and end, and event pumps, interleaved in any order.  A label names one step; a run is a
  list of labels.  A request is one step, a pump takes one step for each of its three tests, and a
  read task ends in two, as the code stores the terminal information before the state.
  \<open>dm_streams\<close> records for each session what its terminal ever wrote; no step reads it.
\<close>

section \<open>Runs\<close>

record daemon =
  dm_mgr :: manager
  dm_conns :: "nat \<rightharpoonup> string list"
  dm_pumps :: "pump list"
  dm_streams :: "bytes list"

definition daemon_start :: daemon where
  "daemon_start = \<lparr>dm_mgr = manager_new, dm_conns = (\<lambda>_. None), dm_pumps = [], dm_streams = []\<rparr>"

datatype label =
    OpenConn nat
  | Request nat world request
  | HangUp nat
  | PtyOutput nat nat bytes
  | PtyEnd nat terminal_info
  | PtyLost nat
  | PumpStep nat

definition serve_request :: "codec \<Rightarrow> world \<Rightarrow> nat \<Rightarrow> string list \<Rightarrow> request \<Rightarrow> daemon \<Rightarrow> daemon" where
  "serve_request cod w c attached rq d =
     (let (m, attached', resp, pa) = dispatch cod w (dm_mgr d) attached rq
      in d\<lparr>dm_mgr := m, dm_conns := (dm_conns d)(c \<mapsto> attached'),
           dm_pumps := dm_pumps d @ (case pa of None \<Rightarrow> [] | Some a \<Rightarrow> [pump_new c a]),
           dm_streams := dm_streams d @ replicate (length (mg_objs m) - length (dm_streams d)) []\<rparr>)"

definition has_reader :: "daemon \<Rightarrow> nat \<Rightarrow> reader \<Rightarrow> bool" where
  "has_reader d a r \<longleftrightarrow> a < length (mg_objs (dm_mgr d)) \<and> ds_reader (obj (dm_mgr d) a) = r"

fun dexec :: "codec \<Rightarrow> label \<Rightarrow> daemon \<Rightarrow> daemon option" where
  "dexec cod (OpenConn c) d =
     (if dm_conns d c = None \<and> c \<notin> pm_conn ` set (dm_pumps d)
      then Some (d\<lparr>dm_conns := (dm_conns d)(c \<mapsto> [])\<rparr>) else None)"
| "dexec cod (Request c w rq) d =
     (case dm_conns d c of None \<Rightarrow> None | Some attached \<Rightarrow> Some (serve_request cod w c attached rq d))"
| "dexec cod (HangUp c) d =
     (case dm_conns d c of None \<Rightarrow> None
      | Some attached \<Rightarrow> Some (d\<lparr>dm_mgr := cleanup (dm_mgr d) attached, dm_conns := (dm_conns d)(c := None)\<rparr>))"
| "dexec cod (PtyOutput a now data) d =
     (if has_reader d a Reading
      then Some (d\<lparr>dm_mgr := set_obj a (reader_data now data (obj (dm_mgr d) a)) (dm_mgr d),
                   dm_streams := (dm_streams d)[a := dm_streams d ! a @ data]\<rparr>)
      else None)"
| "dexec cod (PtyEnd a info) d =
     (if has_reader d a Reading
      then Some (d\<lparr>dm_mgr := set_obj a (reader_terminal info (obj (dm_mgr d) a)) (dm_mgr d)\<rparr>) else None)"
| "dexec cod (PtyLost a) d =
     (if has_reader d a Finishing
      then Some (d\<lparr>dm_mgr := set_obj a (reader_lost (obj (dm_mgr d) a)) (dm_mgr d)\<rparr>) else None)"
| "dexec cod (PumpStep i) d =
     (if i < length (dm_pumps d)
      then let p = dm_pumps d ! i
           in Some (d\<lparr>dm_pumps := (dm_pumps d)[i := pump_step cod (dm_conns d (pm_conn p) \<noteq> None) (dm_mgr d) p]\<rparr>)
      else None)"

fun dexecs :: "codec \<Rightarrow> label list \<Rightarrow> daemon \<Rightarrow> daemon option" where
  "dexecs cod [] d = Some d"
| "dexecs cod (l # ls) d = (case dexec cod l d of None \<Rightarrow> None | Some d' \<Rightarrow> dexecs cod ls d')"

lemma dexecs_induct [consumes 1, case_names start step]:
  assumes "dexecs cod ls d = Some d'" "P d"
    and "\<And>l d d'. P d \<Longrightarrow> dexec cod l d = Some d' \<Longrightarrow> P d'"
  shows "P d'"
  using assms(1,2)
proof (induction ls arbitrary: d)
  case (Cons l ls)
  then show ?case using assms(3) by (auto split: option.splits)
qed simp

section \<open>How a request may change the sessions\<close>

text \<open>What the manager's operations keep of a session, and what they may put in its place.\<close>

definition evolves :: "dsession \<Rightarrow> dsession \<Rightarrow> bool" where
  "evolves s s' \<longleftrightarrow> ds_buffer s' = ds_buffer s \<and> ds_reader s' = ds_reader s \<and>
     ds_terminal s' = ds_terminal s \<and> (ds_state s' = Lost \<longleftrightarrow> ds_state s = Lost) \<and>
     ds_pump_epoch s \<le> ds_pump_epoch s'"

definition fresh_session :: "dsession \<Rightarrow> bool" where
  "fresh_session s \<longleftrightarrow> represents (ds_buffer s) [] \<and> ds_reader s = Reading \<and> ds_terminal s = None \<and>
     ds_state s = Created \<and> ds_pump_epoch s = 0"

definition mgr_wf :: "manager \<Rightarrow> bool" where
  "mgr_wf m \<longleftrightarrow> (\<forall>q \<in> set (mg_sessions m). snd q < length (mg_objs m))"

definition mgr_evolves :: "manager \<Rightarrow> manager \<Rightarrow> bool" where
  "mgr_evolves m m' \<longleftrightarrow> mgr_wf m' \<and> length (mg_objs m) \<le> length (mg_objs m') \<and>
     (\<forall>a < length (mg_objs m). evolves (obj m a) (obj m' a)) \<and>
     (\<forall>a. length (mg_objs m) \<le> a \<and> a < length (mg_objs m') \<longrightarrow> fresh_session (obj m' a))"

lemma evolves_refl [simp]: "evolves s s"
  by (simp add: evolves_def)

lemma evolves_trans: "evolves s t \<Longrightarrow> evolves t u \<Longrightarrow> evolves s u"
  by (auto simp: evolves_def)

lemma mgr_evolves_refl: "mgr_wf m \<Longrightarrow> mgr_evolves m m"
  by (auto simp: mgr_evolves_def)

lemma evolves_fresh: "evolves s t \<Longrightarrow> ds_state t = ds_state s \<Longrightarrow>
    ds_pump_epoch t = ds_pump_epoch s \<Longrightarrow> fresh_session s \<Longrightarrow> fresh_session t"
  by (auto simp: evolves_def fresh_session_def)

lemma get_session_bound: "mgr_wf m \<Longrightarrow> get_session m sid = Some a \<Longrightarrow> a < length (mg_objs m)"
  by (force simp: mgr_wf_def get_session_def dest: map_of_SomeD)

lemma obj_set_obj:
  "a < length (mg_objs m) \<Longrightarrow> obj (set_obj a s m) b = (if b = a then s else obj m b)"
  by (simp add: obj_def set_obj_def)

lemma length_set_obj [simp]: "length (mg_objs (set_obj a s m)) = length (mg_objs m)"
  by (simp add: set_obj_def)

lemma mg_sessions_set_obj [simp]: "mg_sessions (set_obj a s m) = mg_sessions m"
  by (simp add: set_obj_def)

lemma get_session_set_obj [simp]: "get_session (set_obj a s m) sid = get_session m sid"
  by (simp add: get_session_def)

lemma mgr_wf_set_obj [simp]: "mgr_wf (set_obj a s m) = mgr_wf m"
  by (simp add: mgr_wf_def)

lemma set_obj_evolves:
  "mgr_wf m \<Longrightarrow> a < length (mg_objs m) \<Longrightarrow> evolves (obj m a) s \<Longrightarrow> mgr_evolves m (set_obj a s m)"
  by (auto simp: mgr_evolves_def obj_set_obj)

lemma create_evolves:
  assumes "mgr_wf m"
  shows "mgr_evolves m (fst (create w m sh cwd sz n))"
proof (cases "w_spawn w sh cwd sz")
  case (Inl e)
  then show ?thesis using assms by (simp add: create_def mgr_evolves_refl)
next
  case (Inr u)
  then show ?thesis using assms
    by (cases "w_writer w") (auto simp: create_def Let_def mgr_evolves_refl mgr_evolves_def mgr_wf_def obj_def nth_append
        fresh_session_def less_Suc_eq intro: represents_agentd_new less_SucI)
qed

lemma attach_evolves: "mgr_wf m \<Longrightarrow> mgr_evolves m (fst (attach m sid c))"
  by (auto simp: attach_def Let_def mgr_evolves_refl evolves_def
      intro!: set_obj_evolves dest: get_session_bound split: option.split dstate.split)

lemma detach_evolves: "mgr_wf m \<Longrightarrow> mgr_evolves m (fst (detach m sid))"
  by (auto simp: detach_def Let_def mgr_evolves_refl evolves_def
      intro!: set_obj_evolves dest: get_session_bound split: option.split dstate.split)

lemma send_input_evolves: "mgr_wf m \<Longrightarrow> mgr_evolves m (fst (send_input w m sid d))"
  by (auto simp: send_input_def mgr_evolves_refl evolves_def Let_def
      intro!: set_obj_evolves dest: get_session_bound split: option.split sum.split)

lemma resize_evolves: "mgr_wf m \<Longrightarrow> mgr_evolves m (fst (resize w m sid r c))"
  by (auto simp: resize_def mgr_evolves_refl evolves_def
      intro!: set_obj_evolves dest: get_session_bound split: option.split sum.split)

lemma close_evolves:
  assumes "mgr_wf m"
  shows "mgr_evolves m (fst (close m sid))"
proof (cases "get_session m sid")
  case None
  then show ?thesis using assms by (simp add: close_def mgr_evolves_refl)
next
  case (Some a)
  let ?m = "m\<lparr>mg_sessions := filter (\<lambda>p. fst p \<noteq> sid) (mg_sessions m)\<rparr>"
  have "obj ?m b = obj m b" for b by (simp add: obj_def)
  moreover have "obj (set_obj a s ?m) b = (if b = a then s else obj ?m b)" for s b
    using get_session_bound [OF assms Some] by (intro obj_set_obj) simp
  ultimately show ?thesis using assms Some
    by (auto simp: close_def mgr_evolves_def mgr_wf_def evolves_def)
qed

lemma mgr_evolves_wf: "mgr_evolves m m' \<Longrightarrow> mgr_wf m'"
  by (simp add: mgr_evolves_def)

lemma cleanup_evolves:
  assumes "mgr_wf m"
  shows "mgr_evolves m (cleanup m attached) \<and> length (mg_objs (cleanup m attached)) = length (mg_objs m)"
  using assms
proof (induction attached arbitrary: m)
  case Nil
  then show ?case by (simp add: cleanup_def mgr_evolves_refl)
next
  case (Cons sid attached)
  let ?m = "fst (detach m sid)"
  have step: "mgr_evolves m ?m" "length (mg_objs ?m) = length (mg_objs m)"
    using detach_evolves [OF Cons.prems]
    by (auto simp: detach_def Let_def split: option.split dstate.split)
  have "mgr_evolves ?m (cleanup ?m attached)" "length (mg_objs (cleanup ?m attached)) = length (mg_objs ?m)"
    using Cons.IH [OF mgr_evolves_wf [OF step(1)]] by simp_all
  then show ?case using step by (auto simp: cleanup_def mgr_evolves_def intro: evolves_trans)
qed

lemma do_attach_spec:
  assumes "mgr_wf m" "do_attach cod m att rq = (m', att', resp, pa)"
  shows "mgr_evolves m m'"
    and "\<And>p. pa = Some p \<Longrightarrow> pa_addr p < length (mg_objs m) \<and>
      pa_cursor_end p = rb_written (ds_buffer (obj m (pa_addr p))) \<and>
      pa_epoch p = Suc (ds_pump_epoch (obj m (pa_addr p))) \<and>
      pa_epoch p = ds_pump_epoch (obj m' (pa_addr p))"
proof -
  show "mgr_evolves m m'"
    using assms attach_evolves [OF assms(1)]
    by (auto simp: do_attach_def mgr_evolves_refl split: option.splits prod.splits sum.splits)
      (metis fst_conv)+
  show "pa_addr p < length (mg_objs m) \<and>
      pa_cursor_end p = rb_written (ds_buffer (obj m (pa_addr p))) \<and>
      pa_epoch p = Suc (ds_pump_epoch (obj m (pa_addr p))) \<and>
      pa_epoch p = ds_pump_epoch (obj m' (pa_addr p))" if "pa = Some p" for p
    using assms that get_session_bound [OF assms(1)]
    by (auto simp: do_attach_def attach_def Let_def obj_set_obj agentd_read_since_def
        split: option.splits prod.splits sum.splits dstate.splits if_splits)
qed

lemma do_create_evolves: "mgr_wf m \<Longrightarrow> mgr_evolves m (fst (do_create w m rq))"
  using create_evolves [of m w]
  by (auto simp: do_create_def mgr_evolves_refl Let_def split: option.split prod.split sum.split)
    (metis fst_conv)+

lemma do_plain_evolves:
  assumes "mgr_wf m"
  shows "mgr_evolves m (fst (do_detach m att rq))" "mgr_evolves m (fst (do_close m att rq))"
    "mgr_evolves m (fst (do_send_input cod w m rq))" "mgr_evolves m (fst (do_send_control w m rq))"
    "mgr_evolves m (fst (do_resize w m rq))"
  using detach_evolves [OF assms] close_evolves [OF assms] send_input_evolves [OF assms]
    resize_evolves [OF assms] mgr_evolves_refl [OF assms]
  by (simp_all add: do_detach_def do_close_def do_send_input_def do_send_control_def do_resize_def
      send_control_def case_prod_beta split: option.split sum.split)

lemma dispatch_evolves:
  assumes "mgr_wf m"
  shows "mgr_evolves m (fst (dispatch cod w m att rq))"
proof -
  have "mgr_evolves m (fst (do_attach cod m att rq))"
    using do_attach_spec(1) [OF assms] by (metis prod.collapse)
  then show ?thesis
    using do_create_evolves [OF assms] do_plain_evolves [OF assms] mgr_evolves_refl [OF assms]
    by (intro dispatch_cases [where P = "\<lambda>r. mgr_evolves m (fst r)"]) simp_all
qed

lemma dispatch_pump:
  assumes "dispatch cod w m att rq = (m', att', resp, Some pa)"
  shows "do_attach cod m att rq = (m', att', resp, Some pa)"
proof -
  have "snd (snd (snd r)) \<noteq> None \<longrightarrow> r = do_attach cod m att rq" if "r = dispatch cod w m att rq" for r
    unfolding that
    by (rule dispatch_cases [where P = "\<lambda>r. snd (snd (snd r)) \<noteq> None \<longrightarrow> r = do_attach cod m att rq"]) simp_all
  then show ?thesis using assms by (metis option.distinct(1) snd_conv)
qed

section \<open>The invariant\<close>

definition event_bytes :: "codec \<Rightarrow> event \<Rightarrow> bytes" where
  "event_bytes cod e =
     (case e_data e of None \<Rightarrow> []
      | Some t \<Rightarrow> (case b64_decode cod t of Inr b \<Rightarrow> b | Inl _ \<Rightarrow> []))"

definition reader_ok :: "dsession \<Rightarrow> bool" where
  "reader_ok s \<longleftrightarrow> (ds_reader s = Reading \<longrightarrow> ds_terminal s = None) \<and>
     (ds_reader s \<noteq> Reading \<longrightarrow> ds_terminal s \<noteq> None) \<and> (ds_state s = Lost \<longleftrightarrow> ds_reader s = Ended)"

definition sent_untruncated :: "pump \<Rightarrow> bool" where
  "sent_untruncated p \<longleftrightarrow> (\<forall>e \<in> set (pm_sent p). e_is_truncated e \<noteq> Some True)"

text \<open>A pump against its session and the session's stream.\<close>

definition pump_ok :: "codec \<Rightarrow> dsession \<Rightarrow> bytes \<Rightarrow> pump \<Rightarrow> bool" where
  "pump_ok cod s str p \<longleftrightarrow>
     pm_start p \<le> pm_last_sent p \<and> pm_last_sent p \<le> length str \<and> pm_epoch p \<le> ds_pump_epoch s \<and>
     (sent_untruncated p \<longrightarrow>
       concat (map (event_bytes cod) (pm_sent p)) = take (pm_last_sent p - pm_start p) (drop (pm_start p) str)) \<and>
     (pm_pc p \<noteq> Stopped \<longrightarrow> filter is_terminal_event (pm_sent p) = []) \<and>
     filter is_terminal_event (butlast (pm_sent p)) = [] \<and>
     (\<forall>e \<in> set (pm_sent p). e_event e = ''pty_exit'' \<longrightarrow>
        ds_state s = Lost \<and> e = terminal_event (pm_session_id p) (ds_terminal s))"

definition dinv :: "codec \<Rightarrow> daemon \<Rightarrow> bool" where
  "dinv cod d \<longleftrightarrow> mgr_wf (dm_mgr d) \<and> length (dm_streams d) = length (mg_objs (dm_mgr d)) \<and>
     (\<forall>a < length (dm_streams d). represents (ds_buffer (obj (dm_mgr d) a)) (dm_streams d ! a) \<and>
        reader_ok (obj (dm_mgr d) a)) \<and>
     (\<forall>p \<in> set (dm_pumps d). pm_addr p < length (dm_streams d) \<and>
        pump_ok cod (obj (dm_mgr d) (pm_addr p)) (dm_streams d ! pm_addr p) p) \<and>
     distinct (map (\<lambda>p. (pm_addr p, pm_epoch p)) (dm_pumps d))"

lemma dinv_start [wf_intros]: "dinv cod daemon_start"
  by (simp add: dinv_def daemon_start_def manager_new_def mgr_wf_def)

lemma pump_ok_extend:
  assumes "pump_ok cod s str p" "ds_pump_epoch s \<le> ds_pump_epoch s'"
    and "ds_state s = Lost \<Longrightarrow> ds_state s' = Lost \<and> ds_terminal s' = ds_terminal s"
  shows "pump_ok cod s' (str @ d) p"
  using assms by (auto simp: pump_ok_def)

lemma evolves_reader_ok: "evolves s s' \<Longrightarrow> reader_ok s \<Longrightarrow> reader_ok s'"
  by (simp add: evolves_def reader_ok_def)

lemma evolves_pump_ok: "evolves s s' \<Longrightarrow> pump_ok cod s str p \<Longrightarrow> pump_ok cod s' str p"
  using pump_ok_extend [of cod s str p s' "[]"] by (simp add: evolves_def)

lemma fresh_reader_ok: "fresh_session s \<Longrightarrow> reader_ok s"
  by (simp add: fresh_session_def reader_ok_def)

text \<open>A change of the manager by its own operations, with the streams of new sessions empty.\<close>

lemma dinv_evolves:
  assumes "dinv cod d" "mgr_evolves (dm_mgr d) m"
  shows "dinv cod (d\<lparr>dm_mgr := m, dm_conns := cs,
    dm_streams := dm_streams d @ replicate (length (mg_objs m) - length (dm_streams d)) []\<rparr>)"
proof -
  let ?n = "length (dm_streams d)"
  have n: "?n = length (mg_objs (dm_mgr d))" "?n \<le> length (mg_objs m)"
    using assms by (simp_all add: dinv_def mgr_evolves_def)
  have old: "evolves (obj (dm_mgr d) a) (obj m a)" if "a < ?n" for a
    using that n assms(2) by (simp add: mgr_evolves_def)
  have new: "fresh_session (obj m a)" if "\<not> a < ?n" "a < length (mg_objs m)" for a
    using that n assms(2) by (simp add: mgr_evolves_def)
  have objs: "represents (ds_buffer (obj m a)) ((dm_streams d @ replicate (length (mg_objs m) - ?n) []) ! a) \<and>
      reader_ok (obj m a)" if "a < length (mg_objs m)" for a
  proof (cases "a < ?n")
    case True
    then have "represents (ds_buffer (obj (dm_mgr d) a)) (dm_streams d ! a)" "reader_ok (obj (dm_mgr d) a)"
      using assms(1) by (simp_all add: dinv_def)
    then show ?thesis using True old [OF True] evolves_reader_ok by (simp add: nth_append evolves_def)
  next
    case False
    then show ?thesis using new [OF False that] that by (simp add: nth_append fresh_session_def fresh_reader_ok)
  qed
  have pumps: "pm_addr p < length (mg_objs m) \<and>
      pump_ok cod (obj m (pm_addr p)) ((dm_streams d @ replicate (length (mg_objs m) - ?n) []) ! pm_addr p) p"
    if "p \<in> set (dm_pumps d)" for p
  proof -
    have p: "pm_addr p < ?n" "pump_ok cod (obj (dm_mgr d) (pm_addr p)) (dm_streams d ! pm_addr p) p"
      using that assms(1) unfolding dinv_def by blast+
    then show ?thesis using evolves_pump_ok [OF old [OF p(1)] p(2)] n by (simp add: nth_append)
  qed
  have "mgr_wf m" using assms(2) by (rule mgr_evolves_wf)
  moreover have "distinct (map (\<lambda>p. (pm_addr p, pm_epoch p)) (dm_pumps d))"
    using assms(1) by (simp add: dinv_def)
  ultimately show ?thesis using n objs pumps by (simp add: dinv_def)
qed

lemma dinv_request:
  assumes "dinv cod d"
  shows "dinv cod (serve_request cod w c att rq d)"
proof -
  obtain m att' resp pa where r: "dispatch cod w (dm_mgr d) att rq = (m, att', resp, pa)"
    by (metis prod_cases4)
  have wf: "mgr_wf (dm_mgr d)" and n: "length (dm_streams d) = length (mg_objs (dm_mgr d))"
    using assms by (simp_all add: dinv_def)
  have ev: "mgr_evolves (dm_mgr d) m" using dispatch_evolves [OF wf, of cod w att rq] r by simp
  let ?cs = "(dm_conns d)(c \<mapsto> att')"
  let ?st = "dm_streams d @ replicate (length (mg_objs m) - length (dm_streams d)) []"
  let ?d = "d\<lparr>dm_mgr := m, dm_conns := ?cs, dm_streams := ?st\<rparr>"
  have base: "dinv cod ?d" by (rule dinv_evolves [OF assms ev])
  show ?thesis
  proof (cases pa)
    case None
    then show ?thesis using base r by (simp add: serve_request_def)
  next
    case (Some a)
    from do_attach_spec(2) [OF wf dispatch_pump refl, OF r [unfolded Some]]
    have a: "pa_addr a < length (mg_objs (dm_mgr d))"
      "pa_cursor_end a = rb_written (ds_buffer (obj (dm_mgr d) (pa_addr a)))"
      "pa_epoch a = Suc (ds_pump_epoch (obj (dm_mgr d) (pa_addr a)))"
      "pa_epoch a = ds_pump_epoch (obj m (pa_addr a))" by simp_all
    have "represents (ds_buffer (obj (dm_mgr d) (pa_addr a))) (dm_streams d ! pa_addr a)"
      using assms a(1) n by (simp add: dinv_def)
    then have "pa_cursor_end a = length (dm_streams d ! pa_addr a)"
      using a(2) by (simp add: represents_written)
    then have ok: "pump_ok cod (obj m (pa_addr a)) (?st ! pa_addr a) (pump_new c a)"
      using a(1,4) n by (simp add: pump_ok_def pump_new_def nth_append sent_untruncated_def)
    have "(pa_addr a, pa_epoch a) \<notin> (\<lambda>p. (pm_addr p, pm_epoch p)) ` set (dm_pumps d)"
      using assms a(3) by (auto simp: dinv_def pump_ok_def)
    moreover have "pa_addr a < length ?st" using a(1) n by simp
    ultimately have "dinv cod (d\<lparr>dm_mgr := m, dm_conns := ?cs, dm_pumps := dm_pumps d @ [pump_new c a], dm_streams := ?st\<rparr>)"
      using base ok by (auto simp: dinv_def pump_new_def)
    then show ?thesis using r Some by (simp add: serve_request_def)
  qed
qed

lemma dinv_conns [simp]: "dinv cod (d\<lparr>dm_conns := cs\<rparr>) = dinv cod d"
  by (simp add: dinv_def)

lemma dinv_hangup: "dinv cod d \<Longrightarrow> dinv cod (d\<lparr>dm_mgr := cleanup (dm_mgr d) att, dm_conns := cs\<rparr>)"
  using dinv_evolves [of cod d "cleanup (dm_mgr d) att" cs] cleanup_evolves [of "dm_mgr d" att]
  by (auto simp: dinv_def)

text \<open>A step of a read task changes one session and appends to its stream.\<close>

lemma dinv_set_obj:
  assumes "dinv cod d" "a < length (mg_objs (dm_mgr d))" "reader_ok s"
    and "represents (ds_buffer s) (dm_streams d ! a @ x)"
    and "ds_pump_epoch s = ds_pump_epoch (obj (dm_mgr d) a)"
    and "ds_state (obj (dm_mgr d) a) = Lost \<Longrightarrow> ds_state s = Lost \<and> ds_terminal s = ds_terminal (obj (dm_mgr d) a)"
  shows "dinv cod (d\<lparr>dm_mgr := set_obj a s (dm_mgr d), dm_streams := (dm_streams d)[a := dm_streams d ! a @ x]\<rparr>)"
proof -
  have n: "length (dm_streams d) = length (mg_objs (dm_mgr d))" using assms(1) by (simp add: dinv_def)
  have "pm_addr p < length (dm_streams d) \<and>
      pump_ok cod (obj (set_obj a s (dm_mgr d)) (pm_addr p)) ((dm_streams d)[a := dm_streams d ! a @ x] ! pm_addr p) p"
    if "p \<in> set (dm_pumps d)" for p
  proof -
    have p: "pm_addr p < length (dm_streams d)"
      "pump_ok cod (obj (dm_mgr d) (pm_addr p)) (dm_streams d ! pm_addr p) p"
      using that assms(1) unfolding dinv_def by blast+
    show ?thesis
    proof (cases "pm_addr p = a")
      case True
      then show ?thesis
        using p pump_ok_extend [OF p(2), of s x] assms(2,5,6) n by (simp add: obj_set_obj)
    next
      case False
      then show ?thesis using p assms(2) by (simp add: obj_set_obj)
    qed
  qed
  then show ?thesis using assms(1-4) n by (auto simp: dinv_def obj_set_obj nth_list_update)
qed

lemma dinv_reader:
  assumes "dinv cod d" "has_reader d a r"
  shows "r = Reading \<Longrightarrow> dinv cod (d\<lparr>dm_mgr := set_obj a (reader_data now x (obj (dm_mgr d) a)) (dm_mgr d),
      dm_streams := (dm_streams d)[a := dm_streams d ! a @ x]\<rparr>)"
    and "r = Reading \<Longrightarrow> dinv cod (d\<lparr>dm_mgr := set_obj a (reader_terminal i (obj (dm_mgr d) a)) (dm_mgr d)\<rparr>)"
    and "r = Finishing \<Longrightarrow> dinv cod (d\<lparr>dm_mgr := set_obj a (reader_lost (obj (dm_mgr d) a)) (dm_mgr d)\<rparr>)"
proof -
  let ?s = "obj (dm_mgr d) a"
  have a: "a < length (mg_objs (dm_mgr d))" "ds_reader ?s = r" using assms(2) by (auto simp: has_reader_def)
  then have s: "represents (ds_buffer ?s) (dm_streams d ! a)" "reader_ok ?s" using assms(1) by (auto simp: dinv_def)
  show "dinv cod (d\<lparr>dm_mgr := set_obj a (reader_data now x ?s) (dm_mgr d),
      dm_streams := (dm_streams d)[a := dm_streams d ! a @ x]\<rparr>)" if "r = Reading"
    using s by (intro dinv_set_obj [OF assms(1) a(1)])
      (auto simp: reader_data_def reader_ok_def intro: represents_write)
  have upd: "d\<lparr>dm_mgr := m, dm_streams := (dm_streams d)[a := dm_streams d ! a @ []]\<rparr> = d\<lparr>dm_mgr := m\<rparr>" for m
    by simp
  show "dinv cod (d\<lparr>dm_mgr := set_obj a (reader_terminal i ?s) (dm_mgr d)\<rparr>)" if "r = Reading"
    using s a that by (subst upd [symmetric], intro dinv_set_obj [OF assms(1) a(1)])
      (auto simp: reader_terminal_def reader_ok_def)
  show "dinv cod (d\<lparr>dm_mgr := set_obj a (reader_lost ?s) (dm_mgr d)\<rparr>)" if "r = Finishing"
    using s a that by (subst upd [symmetric], intro dinv_set_obj [OF assms(1) a(1)])
      (auto simp: reader_lost_def reader_ok_def)
qed

section \<open>Pump steps\<close>

lemma pump_step_frame [simp]:
  "pm_addr (pump_step cod op m p) = pm_addr p" "pm_epoch (pump_step cod op m p) = pm_epoch p"
  "pm_start (pump_step cod op m p) = pm_start p" "pm_conn (pump_step cod op m p) = pm_conn p"
  "pm_session_id (pump_step cod op m p) = pm_session_id p"
  by (auto simp: pump_step_def pump_finish_def Let_def split: pump_pc.split dstate.split)

lemma event_bytes_terminal [simp]:
  "event_bytes cod (session_lost sid r) = []" "event_bytes cod (terminal_event sid t) = []"
  "e_is_truncated (session_lost sid r) = None" "e_is_truncated (terminal_event sid t) = None"
  by (auto simp: event_bytes_def session_lost_def terminal_event_def pty_exit_def pty_exit_unknown_def
      split: option.split terminal_info.split)

lemma pty_data_facts [simp]:
  "\<not> is_terminal_event (pty_data sid a b t x)" "e_is_truncated (pty_data sid a b t x) = Some t"
  "e_event (pty_data sid a b t x) = ''pty_data''" "e_event (session_lost sid r) = ''session_lost''"
  by (simp_all add: is_terminal_event_def pty_data_def session_lost_def)

text \<open>The three ways a pump goes on: a data event, a last event, or nothing sent.\<close>

lemma pump_ok_data:
  assumes law: "\<And>x. b64_decode cod (b64_encode cod x) = Inr x"
    and ok: "pump_ok cod s str p" and rep: "represents (ds_buffer s) str" and pc: "pm_pc p \<noteq> Stopped"
    and r: "r = agentd_read_since (ds_buffer s) (pm_last_sent p)"
  shows "pump_ok cod s str (p\<lparr>pm_pc := CheckRemoved, pm_last_sent := ar_cursor_end r,
    pm_sent := pm_sent p @ [pty_data sid (ar_cursor_start r) (ar_cursor_end r) (ar_is_truncated r)
      (b64_encode cod (ar_data r))]\<rparr>)"
proof -
  note read = agentd_read_since_refines [OF rep, of "pm_last_sent p", folded r]
  let ?ev = "pty_data sid (ar_cursor_start r) (ar_cursor_end r) (ar_is_truncated r) (b64_encode cod (ar_data r))"
  have bytes: "event_bytes cod ?ev = ar_data r" by (simp add: event_bytes_def pty_data_def law)
  have range: "pm_start p \<le> pm_last_sent p" "pm_last_sent p \<le> length str"
    and old: "sent_untruncated p \<Longrightarrow>
      concat (map (event_bytes cod) (pm_sent p)) = take (pm_last_sent p - pm_start p) (drop (pm_start p) str)"
    using ok by (simp_all add: pump_ok_def)
  have "concat (map (event_bytes cod) (pm_sent p @ [?ev])) = drop (pm_start p) str"
    if "sent_untruncated p" "\<not> ar_is_truncated r"
  proof -
    have "ar_data r = drop (pm_last_sent p) str" using that(2) read by (simp add: max_def)
    then have "event_bytes cod ?ev = drop (pm_last_sent p - pm_start p) (drop (pm_start p) str)"
      unfolding bytes using range by (simp del: add_diff_inverse_nat)
    then show ?thesis
      using old [OF that(1)] append_take_drop_id [of "pm_last_sent p - pm_start p" "drop (pm_start p) str"]
      by (simp only: map_append concat_append list.map concat.simps append_Nil2)
  qed
  then show ?thesis using ok pc range read(2)
    by (auto simp: pump_ok_def sent_untruncated_def)
qed

lemma pump_ok_finish:
  assumes "pump_ok cod s str p" "pm_pc p \<noteq> Stopped" "event_bytes cod ev = []"
    "e_is_truncated ev = None"
    "e_event ev = ''pty_exit'' \<Longrightarrow> ds_state s = Lost \<and> ev = terminal_event (pm_session_id p) (ds_terminal s)"
  shows "pump_ok cod s str (pump_finish op ev p)"
  using assms by (auto simp: pump_ok_def pump_finish_def sent_untruncated_def)

lemma filter_butlast_empty: "filter P xs = [] \<Longrightarrow> filter P (butlast xs) = []"
  by (auto simp: filter_empty_conv dest: in_set_butlastD)

lemma pump_ok_silent:
  "pump_ok cod s str p \<Longrightarrow> pc' = Stopped \<or> pm_pc p \<noteq> Stopped \<Longrightarrow> pump_ok cod s str (p\<lparr>pm_pc := pc'\<rparr>)"
  by (auto simp: pump_ok_def sent_untruncated_def)

lemma pump_ok_step:
  assumes "\<And>x. b64_decode cod (b64_encode cod x) = Inr x"
    and "pump_ok cod (obj m (pm_addr p)) str p" "represents (ds_buffer (obj m (pm_addr p))) str"
  shows "pump_ok cod (obj m (pm_addr p)) str (pump_step cod op m p)"
proof (cases "pm_pc p")
  case Flush
  then show ?thesis
    using pump_ok_data [OF assms _ refl] pump_ok_silent [OF assms(2)]
    by (simp add: pump_step_def Let_def)
next
  case CheckRemoved
  then show ?thesis using assms(2) pump_ok_silent [OF assms(2)]
    by (auto simp: pump_step_def Let_def intro!: pump_ok_finish)
next
  case CheckState
  then show ?thesis using assms(2) pump_ok_silent [OF assms(2)]
    by (auto simp: pump_step_def Let_def intro!: pump_ok_finish split: dstate.split)
qed (simp add: assms(2) pump_step_def)

lemma dinv_pump:
  assumes "\<And>x. b64_decode cod (b64_encode cod x) = Inr x" "dinv cod d" "i < length (dm_pumps d)"
  shows "dinv cod (d\<lparr>dm_pumps := (dm_pumps d)[i := pump_step cod op (dm_mgr d) (dm_pumps d ! i)]\<rparr>)"
proof -
  let ?p = "dm_pumps d ! i" let ?q = "pump_step cod op (dm_mgr d) ?p"
  have "?p \<in> set (dm_pumps d)" using assms(3) by simp
  then have p: "pm_addr ?p < length (dm_streams d)"
    "pump_ok cod (obj (dm_mgr d) (pm_addr ?p)) (dm_streams d ! pm_addr ?p) ?p"
    "represents (ds_buffer (obj (dm_mgr d) (pm_addr ?p))) (dm_streams d ! pm_addr ?p)"
    using assms(2) unfolding dinv_def by blast+
  have q: "pump_ok cod (obj (dm_mgr d) (pm_addr ?p)) (dm_streams d ! pm_addr ?p) ?q"
    by (rule pump_ok_step [OF assms(1) p(2,3)])
  have "map (\<lambda>p. (pm_addr p, pm_epoch p)) ((dm_pumps d)[i := ?q]) = map (\<lambda>p. (pm_addr p, pm_epoch p)) (dm_pumps d)"
    using assms(3) by (simp add: map_update list_update_same_conv)
  then show ?thesis
    using assms(2) p(1) q set_update_subset_insert [of "dm_pumps d" i ?q]
    by (fastforce simp: dinv_def)
qed

lemma dinv_exec:
  assumes "\<And>x. b64_decode cod (b64_encode cod x) = Inr x" "dinv cod d" "dexec cod l d = Some d'"
  shows "dinv cod d'"
  using assms(3,2)
  by (cases l) (auto simp: Let_def intro: dinv_request dinv_hangup dinv_reader dinv_pump [OF assms(1)]
      split: option.splits if_splits)

lemma dinv_run:
  assumes "\<And>x. b64_decode cod (b64_encode cod x) = Inr x" "dexecs cod ls daemon_start = Some d"
  shows "dinv cod d"
  using assms(2) dinv_start dinv_exec [OF assms(1)] by (rule dexecs_induct)

section \<open>Runs to evaluate\<close>

lemma agentd_read_nothing:
  "rb_written g \<le> c \<Longrightarrow> agentd_read_since g c =
   \<lparr>ar_cursor_start = c, ar_cursor_end = rb_written g, ar_is_truncated = False, ar_data = []\<rparr>"
  by (simp add: agentd_read_since_def)

lemma rb_written_agentd_new [simp]: "rb_written (agentd_new n) = 0"
  by (simp add: agentd_new_def new_raw_def)

definition demo_world :: world where
  "demo_world = \<lparr>w_now = 0, w_new_id = ''sess_0000002a'', w_spawn = (\<lambda>_ _ _. Inr ()), w_writer = Inr (),
     w_write = (\<lambda>_. Inr ()), w_resize = (\<lambda>_ _. Inr ())\<rparr>"

definition demo_request :: "string \<Rightarrow> request" where
  "demo_request meth =
     \<lparr>rq_id = 1, rq_method = meth,
      rq_params = JObj [(''shell'', JStr ''/bin/sh''), (''pty_size'', JObj []), (''session_id'', JStr ''sess_0000002a'')]\<rparr>"

lemmas run_eval = daemon_start_def manager_new_def serve_request_def dispatch_def
  plain_def plain_attached_def do_create_def do_detach_def do_send_input_def create_def do_attach_def attach_def detach_def cleanup_def get_session_def obj_def set_obj_def has_reader_def
  reader_data_def reader_terminal_def reader_lost_def pump_step_def pump_new_def pump_finish_def
  contains_def get_str_def get_u64_def terminal_event_def agentd_read_nothing demo_world_def
  demo_request_def Let_def

definition demo_codec :: codec where
  "demo_codec = \<lparr>b64_encode = bytes_str, b64_decode = (\<lambda>t. Inr (str_bytes t)), rfc3339 = (\<lambda>_. [])\<rparr>"

lemma demo_codec_law: "b64_decode demo_codec (b64_encode demo_codec x) = Inr x"
  by (simp add: demo_codec_def)

lemma demo_read:
  "ar_data (agentd_read_since (rb_write (agentd_new 0) [0x78]) 0) = [0x78]"
  "ar_cursor_end (agentd_read_since (rb_write (agentd_new 0) [0x78]) 0) = 1"
  "\<not> ar_is_truncated (agentd_read_since (rb_write (agentd_new 0) [0x78]) 0)"
proof -
  have rep: "represents (rb_write (agentd_new 0) [0x78]) [0x78]"
    using represents_write [OF represents_agentd_new, of 0 "[0x78]"] by simp
  have "0 < rb_size (agentd_new 0)" using represents_wf [OF represents_agentd_new] by (simp add: ring_wf_def)
  then show "ar_data (agentd_read_since (rb_write (agentd_new 0) [0x78]) 0) = [0x78]"
    "ar_cursor_end (agentd_read_since (rb_write (agentd_new 0) [0x78]) 0) = 1"
    "\<not> ar_is_truncated (agentd_read_since (rb_write (agentd_new 0) [0x78]) 0)"
    using agentd_read_since_refines [OF rep, of 0] by simp_all
qed

definition demo_run :: "label list" where
  "demo_run = [OpenConn 1, Request 1 demo_world (demo_request ''session.create''),
     Request 1 demo_world (demo_request ''session.attach''), PtyOutput 0 0 [0x78], PumpStep 0]"

definition takeover_run :: "label list" where
  "takeover_run = [OpenConn 1, OpenConn 2, Request 1 demo_world (demo_request ''session.create''),
     Request 1 demo_world (demo_request ''session.attach''),
     Request 2 demo_world (demo_request ''session.detach''),
     Request 2 demo_world (demo_request ''session.attach'')]"

lemma demo_run_result:
  "\<exists>d p. dexecs cod demo_run daemon_start = Some d \<and> dm_pumps d = [p] \<and> pm_last_sent p = 1 \<and>
     pm_start p = 0 \<and> pm_addr p = 0 \<and> sent_untruncated p \<and> dm_streams d = [[0x78]] \<and> pm_pc p \<noteq> Stopped"
  by (simp add: demo_run_def run_eval demo_read sent_untruncated_def)

lemma takeover_run_result:
  "\<exists>d p q. dexecs cod takeover_run daemon_start = Some d \<and> dm_pumps d = [p, q] \<and> pm_addr p = pm_addr q"
  by (simp add: takeover_run_def run_eval)

section \<open>What a client can rely on\<close>

text \<open>
  (C1) In every run, what a pump has sent its client is the session's output from the cursor of the
  attach response on, without a gap and without a repetition, as long as no event says that the
  buffer dropped data.
\<close>

theorem pump_delivers_stream:
  assumes "\<And>x. b64_decode cod (b64_encode cod x) = Inr x"
    and "dexecs cod ls daemon_start = Some d" "p \<in> set (dm_pumps d)" "sent_untruncated p"
  shows "concat (map (event_bytes cod) (pm_sent p)) =
      take (pm_last_sent p - pm_start p) (drop (pm_start p) (dm_streams d ! pm_addr p)) \<and>
    pm_start p \<le> pm_last_sent p \<and> pm_last_sent p \<le> length (dm_streams d ! pm_addr p)"
proof -
  have "pump_ok cod (obj (dm_mgr d) (pm_addr p)) (dm_streams d ! pm_addr p) p"
    using dinv_run [OF assms(1,2)] assms(3) unfolding dinv_def by blast
  then show ?thesis using assms(4) by (simp add: pump_ok_def)
qed

theorem pump_delivers_stream_witness:
  "\<exists>d p. dexecs demo_codec demo_run daemon_start = Some d \<and> dm_pumps d = [p] \<and>
     concat (map (event_bytes demo_codec) (pm_sent p)) = [0x78]"
proof -
  obtain d p where r: "dexecs demo_codec demo_run daemon_start = Some d" "dm_pumps d = [p]" "pm_last_sent p = 1"
    "pm_start p = 0" "pm_addr p = 0" "sent_untruncated p" "dm_streams d = [[0x78]]"
    using demo_run_result [of demo_codec] by blast
  from pump_delivers_stream [OF demo_codec_law r(1) _ r(6)] show ?thesis using r by auto
qed

text \<open>
  In every run a pump sends at most one terminal event and nothing after it; a pump that still
  runs has sent none; and an exit event is sent only of a session that is lost, with the information
  its read task stored.
\<close>

lemma pump_single_terminal:
  assumes "\<And>x. b64_decode cod (b64_encode cod x) = Inr x"
    and "dexecs cod ls daemon_start = Some d" "p \<in> set (dm_pumps d)"
  shows "filter is_terminal_event (butlast (pm_sent p)) = [] \<and>
    (pm_pc p \<noteq> Stopped \<longrightarrow> filter is_terminal_event (pm_sent p) = []) \<and>
    (\<forall>e \<in> set (pm_sent p). e_event e = ''pty_exit'' \<longrightarrow>
       ds_state (obj (dm_mgr d) (pm_addr p)) = Lost \<and>
       e = terminal_event (pm_session_id p) (ds_terminal (obj (dm_mgr d) (pm_addr p))))"
proof -
  have "pump_ok cod (obj (dm_mgr d) (pm_addr p)) (dm_streams d ! pm_addr p) p"
    using dinv_run [OF assms(1,2)] assms(3) unfolding dinv_def by blast
  then show ?thesis by (simp add: pump_ok_def)
qed

text \<open>
  In every run at most one pump of a session has the session's current epoch, and a pump of an
  older epoch sends no more output.
\<close>

lemma one_live_pump:
  assumes "\<And>x. b64_decode cod (b64_encode cod x) = Inr x"
    and "dexecs cod ls daemon_start = Some d"
    and "i < length (dm_pumps d)" "j < length (dm_pumps d)" "i \<noteq> j"
    and "pm_addr (dm_pumps d ! i) = pm_addr (dm_pumps d ! j)"
  shows "pm_epoch (dm_pumps d ! i) \<noteq> pm_epoch (dm_pumps d ! j) \<and>
    (pm_epoch (dm_pumps d ! i) \<noteq> ds_pump_epoch (obj (dm_mgr d) (pm_addr (dm_pumps d ! i))) \<longrightarrow>
      pm_pc (dm_pumps d ! i) = Flush \<longrightarrow>
      pm_sent (pump_step cod op (dm_mgr d) (dm_pumps d ! i)) = pm_sent (dm_pumps d ! i))"
proof -
  have "distinct (map (\<lambda>p. (pm_addr p, pm_epoch p)) (dm_pumps d))"
    using dinv_run [OF assms(1,2)] by (simp add: dinv_def)
  then have "(pm_addr (dm_pumps d ! i), pm_epoch (dm_pumps d ! i)) \<noteq> (pm_addr (dm_pumps d ! j), pm_epoch (dm_pumps d ! j))"
    using assms(3-5) nth_eq_iff_index_eq [of "map (\<lambda>p. (pm_addr p, pm_epoch p)) (dm_pumps d)" i j] by simp
  then show ?thesis using assms(6) by (simp add: pump_step_def Let_def)
qed

section \<open>Two races\<close>

text \<open>
  The pump does not flush again between its read and the terminal event: if the read task writes
  its last output and ends in between, the client gets the exit event, on an open connection, and
  never the output.
\<close>

lemma terminal_without_tail:
  "\<exists>ls d p. dexecs cod ls daemon_start = Some d \<and> dm_pumps d = [p] \<and> dm_conns d (pm_conn p) \<noteq> None \<and>
     dm_streams d = [[0x78]] \<and> pm_start p = 0 \<and> pm_pc p = Stopped \<and>
     pm_sent p = [pty_exit ''sess_0000002a'' 0]"
  by (rule exI [of _ "[OpenConn 1, Request 1 demo_world (demo_request ''session.create''),
      Request 1 demo_world (demo_request ''session.attach''), PumpStep 0, PtyOutput 0 0 [0x78],
      PtyEnd 0 (Exited 0), PtyLost 0, PumpStep 0, PumpStep 0]"])
    (simp add: run_eval)

text \<open>
  The clean-up of a connection goes by session id alone: a connection whose session another
  connection has detached and attached anew still takes that session away from it when it hangs up.
  The new owner's pump stops without a terminal event, while its connection still lists the session
  as attached.
\<close>

lemma stale_cleanup_detaches_owner:
  "\<exists>ls d p q. dexecs cod ls daemon_start = Some d \<and> dm_pumps d = [p, q] \<and>
     dm_conns d 1 = None \<and> dm_conns d 2 = Some [''sess_0000002a''] \<and> pm_conn q = 2 \<and>
     map ds_state (mg_objs (dm_mgr d)) = [Detached] \<and> pm_pc q = Stopped \<and> pm_sent q = []"
  by (rule exI [of _ "[OpenConn 1, OpenConn 2, Request 1 demo_world (demo_request ''session.create''),
      Request 1 demo_world (demo_request ''session.attach''),
      Request 2 demo_world (demo_request ''session.detach''),
      Request 2 demo_world (demo_request ''session.attach''), HangUp 1,
      PumpStep 1, PumpStep 1, PumpStep 1]"])
    (simp add: run_eval)

section \<open>Sessions across connections\<close>

text \<open>
  Attaching to a session of a running daemon succeeds only if it is created or detached; the response
  carries the session's output from the given cursor on, as far as it is retained, and the cursor at
  its end; and until a detach, a second attach is refused.
\<close>

lemma attach_resumes:
  assumes "\<And>x. b64_decode cod (b64_encode cod x) = Inr x"
    and "dexecs cod ls daemon_start = Some d" "attach (dm_mgr d) sid c = (m', Inr r)"
  shows "\<exists>a. get_session (dm_mgr d) sid = Some a \<and> ds_state (obj (dm_mgr d) a) \<in> {Created, Detached} \<and>
      ds_state (obj m' a) = Attached \<and>
      ar_data r = drop (max c (length (dm_streams d ! a) - rb_size (ds_buffer (obj (dm_mgr d) a)))) (dm_streams d ! a) \<and>
      ar_cursor_end r = length (dm_streams d ! a) \<and>
      attach m' sid c' = (m', Inl (InvalidState ''created or detached'' ''attached''))"
proof -
  have inv: "dinv cod d" by (rule dinv_run [OF assms(1,2)])
  then have wf: "mgr_wf (dm_mgr d)" by (simp add: dinv_def)
  let ?s = "\<lambda>a. obj (dm_mgr d) a"
  obtain a where a: "get_session (dm_mgr d) sid = Some a" "ds_state (?s a) \<in> {Created, Detached}"
    "m' = set_obj a (?s a\<lparr>ds_state := Attached, ds_pump_epoch := ds_pump_epoch (?s a) + 1\<rparr>) (dm_mgr d)"
    "r = agentd_read_since (ds_buffer (?s a)) c"
    using assms(3) by (auto simp: attach_def Let_def split: option.splits dstate.splits)
  have bound: "a < length (mg_objs (dm_mgr d))" using get_session_bound [OF wf a(1)] .
  then have rep: "represents (ds_buffer (?s a)) (dm_streams d ! a)" using inv by (simp add: dinv_def)
  then show ?thesis
    using a agentd_read_since_refines [OF rep, of c] bound
    by (auto simp: obj_set_obj attach_def Let_def)
qed

lemma exec_lost:
  assumes "dinv cod d" "dexec cod l d = Some d'" "a < length (mg_objs (dm_mgr d))" "ds_state (obj (dm_mgr d) a) = Lost"
  shows "a < length (mg_objs (dm_mgr d')) \<and> ds_state (obj (dm_mgr d') a) = Lost \<and>
    ds_terminal (obj (dm_mgr d') a) = ds_terminal (obj (dm_mgr d) a)"
proof -
  have wf: "mgr_wf (dm_mgr d)" and ended: "ds_reader (obj (dm_mgr d) a) = Ended"
    using assms by (auto simp: dinv_def reader_ok_def)
  have ev: "a < length (mg_objs m) \<and> ds_state (obj m a) = Lost \<and>
      ds_terminal (obj m a) = ds_terminal (obj (dm_mgr d) a)" if "mgr_evolves (dm_mgr d) m" for m
    using that assms(3,4) by (auto simp: mgr_evolves_def evolves_def)
  show ?thesis
  proof (cases l)
    case (Request c w rq)
    then show ?thesis
      using assms(2) ev [OF dispatch_evolves [OF wf]]
      by (auto simp: serve_request_def case_prod_beta split: option.splits)
  next
    case (HangUp c)
    then show ?thesis using assms(2,3) ev cleanup_evolves [OF wf] by (auto split: option.splits)
  qed (use assms ended in \<open>auto simp: has_reader_def obj_set_obj Let_def split: if_splits\<close>)
qed

text \<open>
  Lost is final: once a session's terminal has ended, no request of any connection and no other step
  makes it anything else or changes the reason, and attach and detach on it answer that it is lost.
\<close>

lemma lost_is_final:
  assumes "\<And>x. b64_decode cod (b64_encode cod x) = Inr x"
    and "dexecs cod ls daemon_start = Some d" "dexecs cod ls' d = Some d'"
    and "a < length (mg_objs (dm_mgr d))" "ds_state (obj (dm_mgr d) a) = Lost"
  shows "ds_state (obj (dm_mgr d') a) = Lost \<and>
    ds_terminal (obj (dm_mgr d') a) = ds_terminal (obj (dm_mgr d) a) \<and>
    (get_session (dm_mgr d') sid = Some a \<longrightarrow>
      attach (dm_mgr d') sid c = (dm_mgr d', Inl (SessionIsLost sid)) \<and>
      detach (dm_mgr d') sid = (dm_mgr d', Inl (SessionIsLost sid)))"
proof -
  let ?P = "\<lambda>e. dinv cod e \<and> a < length (mg_objs (dm_mgr e)) \<and> ds_state (obj (dm_mgr e) a) = Lost \<and>
    ds_terminal (obj (dm_mgr e) a) = ds_terminal (obj (dm_mgr d) a)"
  have "?P d'"
    using assms(3)
  proof (rule dexecs_induct [where P = ?P])
    show "?P d" using dinv_run [OF assms(1,2)] assms(4,5) by simp
    show "?P e'" if "?P e" "dexec cod l e = Some e'" for l e e'
      using that exec_lost [of cod e l e' a] dinv_exec [OF assms(1), of e l e'] by simp
  qed
  then show ?thesis by (simp add: attach_def detach_def)
qed

text \<open>
  The handshake looks at the low 32 bits of the client's version: it goes on exactly when the method is
  \<open>hello\<close> and the version is congruent to 1 modulo \<open>2 ^ 32\<close>; otherwise the
  answer is a PROTOCOL_MISMATCH error and the connection ends.
\<close>

lemma hello_version:
  "(snd (hello did rq) \<longleftrightarrow> rq_method rq = ''hello'' \<and>
      (\<exists>v. get_u64 (rq_params rq) ''client_protocol_version'' = Some v \<and> unat v mod 2 ^ 32 = 1)) \<and>
   rp_ok (fst (hello did rq)) = snd (hello did rq) \<and>
   rp_error (fst (hello did rq)) = (if snd (hello did rq) then None
     else Some (''PROTOCOL_MISMATCH'', if rq_method rq = ''hello'' then ''version'' else rq_method rq))"
proof -
  have "(ucast v :: u32) = 1 \<longleftrightarrow> unat v mod 2 ^ 32 = 1" for v :: u64
    by (simp add: word_unat_eq_iff unsigned_ucast_eq take_bit_eq_mod)
  then show ?thesis
    by (auto simp: hello_def PROTOCOL_VERSION_def ok_response_def err_response_def split: option.split)
qed

end
