(* ===== verification/Env_Probe.thy ===== *)
theory Env_Probe
  imports Provider
begin

text \<open>
  The parser of the environment probe's answer (\<open>parse_remote_env\<close> of
  src/application/sessions.rs).  The outer option is the panic of a slice with its bounds in the
  wrong order.
\<close>

section \<open>The environment probe\<close>

record tool_info =
  ti_name :: string
  ti_path :: string
  ti_installed :: bool

record remote_env_info =
  re_os :: string
  re_shell :: string
  re_path :: string
  re_tools :: "tool_info list"

definition env_line :: "remote_env_info \<Rightarrow> string \<Rightarrow> remote_env_info" where
  "env_line info l =
     (let line = trim l
      in case strip_prefix ''SHELL='' line of
           Some val \<Rightarrow> info\<lparr>re_shell := val\<rparr>
         | None \<Rightarrow>
             (case strip_prefix ''PATH='' line of
                Some val \<Rightarrow> info\<lparr>re_path := val\<rparr>
              | None \<Rightarrow>
                  (case strip_prefix ''TOOL:'' line of
                     Some rest \<Rightarrow>
                       (case split_once CHR '':'' rest of
                          Some (name, tool_path) \<Rightarrow>
                            info\<lparr>re_tools := re_tools info @
                              [\<lparr>ti_name = name, ti_path = tool_path, ti_installed = (tool_path \<noteq> [])\<rparr>]\<rparr>
                        | None \<Rightarrow> info)
                   | None \<Rightarrow> info)))"

text \<open>\<open>&s[a..b]\<close>, a panic when the bounds are out of order or out of range.\<close>

definition str_slice :: "string \<Rightarrow> nat \<Rightarrow> nat \<Rightarrow> string option" where
  "str_slice s a b = (if a \<le> b \<and> b \<le> length s then Some (take (b - a) (drop a s)) else None)"

definition START_MARKER :: string where "START_MARKER = ''__ENV_START__''"
definition END_MARKER :: string where "END_MARKER = ''__ENV_END__''"

definition parse_remote_env :: "string \<Rightarrow> remote_env_info result option" where
  "parse_remote_env output =
     (case find_str START_MARKER output of
        None \<Rightarrow> Some (Inl (ChannelError ''detect_remote_env: start marker not found''))
      | Some start \<Rightarrow>
          (case find_str END_MARKER (drop start output) of
             None \<Rightarrow> Some (Inl (ChannelError ''detect_remote_env: end marker not found''))
           | Some end_rel \<Rightarrow>
               let body_start = start + length START_MARKER; body_end = start + end_rel
               in (case str_slice output body_start body_end of
                     None \<Rightarrow> None
                   | Some body \<Rightarrow>
                       let ls = dropWhile (\<lambda>l. trim l = []) (lines body);
                           os = (case ls of [] \<Rightarrow> [] | l # _ \<Rightarrow> trim l)
                       in Some (Inr (foldl env_line
                            \<lparr>re_os = os, re_shell = [], re_path = [], re_tools = []\<rparr> (tl ls))))))"

section \<open>The reply of the probe\<close>

definition tool_line :: "tool_info \<Rightarrow> string" where
  "tool_line t = ''TOOL:'' @ ti_name t @ '':'' @ ti_path t"

definition probe_lines :: "remote_env_info \<Rightarrow> string list" where
  "probe_lines i = [re_os i, ''SHELL='' @ re_shell i, ''PATH='' @ re_path i] @ map tool_line (re_tools i)"

definition probe_body :: "remote_env_info \<Rightarrow> string" where
  "probe_body i = newline # concat (map (\<lambda>l. l @ [newline]) (probe_lines i))"

definition tool_ok :: "tool_info \<Rightarrow> bool" where
  "tool_ok t \<longleftrightarrow> CHR '':'' \<notin> set (ti_name t) \<and> (ti_installed t \<longleftrightarrow> ti_path t \<noteq> [])"

definition probe_ok :: "remote_env_info \<Rightarrow> bool" where
  "probe_ok i \<longleftrightarrow> re_os i \<noteq> [] \<and> (\<forall>t \<in> set (re_tools i). tool_ok t) \<and>
     (\<forall>l \<in> set (probe_lines i). newline \<notin> set l \<and> strip_cr l = l \<and> trim l = l)"

lemma find_str_append:
  assumes "\<not> sublist p (s @ butlast p)"
  shows "find_str p (s @ p @ r) = Some (length s)"
  using assms
proof (induction s)
  case Nil
  then show ?case by (cases p) simp_all
next
  case (Cons c s)
  have "\<not> prefix p (c # s @ p @ r)"
  proof
    assume pre: "prefix p (c # s @ p @ r)"
    have "length p \<le> length ((c # s) @ butlast p)" by simp
    moreover have "take (length p) ((c # s) @ p @ r) = take (length p) ((c # s) @ butlast p)"
      by (cases p rule: rev_cases) (simp_all add: take_Cons')
    ultimately have "prefix p ((c # s) @ butlast p)"
      using pre by (metis append_Cons append_eq_conv_conj prefix_def take_is_prefix)
    then show False using Cons.prems by (simp add: prefix_imp_sublist)
  qed
  moreover have "\<not> sublist p (s @ butlast p)" using Cons.prems by (auto simp: sublist_Cons_right)
  ultimately show ?case using Cons.IH by simp
qed

lemma env_line_shell:
  "trim (''SHELL='' @ v) = ''SHELL='' @ v \<Longrightarrow> env_line i (''SHELL='' @ v) = i\<lparr>re_shell := v\<rparr>"
  by (simp add: env_line_def strip_prefix_def)

lemma env_line_path:
  "trim (''PATH='' @ v) = ''PATH='' @ v \<Longrightarrow> env_line i (''PATH='' @ v) = i\<lparr>re_path := v\<rparr>"
  by (simp add: env_line_def strip_prefix_def)

lemma env_line_tool:
  assumes "trim (tool_line t) = tool_line t" "tool_ok t"
  shows "env_line i (tool_line t) = i\<lparr>re_tools := re_tools i @ [t]\<rparr>"
proof -
  have "split_once CHR '':'' (ti_name t @ CHR '':'' # ti_path t) = Some (ti_name t, ti_path t)"
    using assms(2) by (intro split_once_append) (simp add: tool_ok_def)
  then show ?thesis
    using assms by (simp add: env_line_def strip_prefix_def tool_line_def tool_ok_def)
qed

lemma env_line_tools:
  "\<forall>t \<in> set ts. trim (tool_line t) = tool_line t \<and> tool_ok t \<Longrightarrow>
   foldl env_line i (map tool_line ts) = i\<lparr>re_tools := re_tools i @ ts\<rparr>"
  by (induction ts arbitrary: i) (simp_all add: env_line_tool)

text \<open>
  The parser reads back what the probe prints: for a reply that has the probe's form, after any
  login banner and before any other output that do not forge the markers, the result is the
  operating system, shell, path and tools the probe was run on.
\<close>

lemma env_probe_roundtrip:
  assumes "probe_ok i"
    and "\<not> sublist START_MARKER (banner @ butlast START_MARKER)"
    and "\<not> sublist END_MARKER (START_MARKER @ probe_body i @ butlast END_MARKER)"
  shows "parse_remote_env (banner @ START_MARKER @ probe_body i @ END_MARKER @ rest) = Some (Inr i)"
proof -
  let ?n = "length banner" and ?k = "length (START_MARKER @ probe_body i)"
  have start: "find_str START_MARKER (banner @ START_MARKER @ probe_body i @ END_MARKER @ rest) = Some ?n"
    by (rule find_str_append [OF assms(2)])
  have stop: "find_str END_MARKER (START_MARKER @ probe_body i @ END_MARKER @ rest) = Some ?k"
    using find_str_append [of END_MARKER "START_MARKER @ probe_body i" rest] assms(3) by simp
  have slice: "str_slice (banner @ START_MARKER @ probe_body i @ END_MARKER @ rest)
      (?n + length START_MARKER) (?n + ?k) = Some (probe_body i)"
    by (simp add: str_slice_def)
  have ok: "\<forall>l \<in> set (probe_lines i). newline \<notin> set l \<and> strip_cr l = l" "\<forall>l \<in> set (probe_lines i). trim l = l"
    using assms(1) by (auto simp: probe_ok_def)
  have body: "lines (probe_body i) = [] # probe_lines i"
    using lines_terminated [of "[] # probe_lines i"] ok(1) by (simp add: probe_body_def strip_cr_def)
  have "trim [] = []" by code_simp
  moreover have os: "re_os i \<noteq> []" "trim (re_os i) = re_os i"
    using assms(1) ok(2) by (auto simp: probe_ok_def probe_lines_def)
  ultimately have ls: "dropWhile (\<lambda>l. trim l = []) (lines (probe_body i)) = probe_lines i"
    by (simp add: body probe_lines_def)
  have "trim (''SHELL='' @ re_shell i) = ''SHELL='' @ re_shell i" "trim (''PATH='' @ re_path i) = ''PATH='' @ re_path i"
    "\<forall>t \<in> set (re_tools i). trim (tool_line t) = tool_line t \<and> tool_ok t"
    using ok(2) assms(1) by (auto simp: probe_lines_def probe_ok_def)
  note fold = env_line_shell [OF this(1)] env_line_path [OF this(2)] env_line_tools [OF this(3)]
  let ?z = "\<lparr>re_os = re_os i, re_shell = [], re_path = [], re_tools = []\<rparr>"
  have "foldl env_line ?z (tl (probe_lines i)) =
      foldl env_line (env_line (env_line ?z (''SHELL='' @ re_shell i)) (''PATH='' @ re_path i))
        (map tool_line (re_tools i))"
    by (simp add: probe_lines_def)
  also have "\<dots> = i" unfolding fold by simp
  finally have "foldl env_line ?z (tl (probe_lines i)) = i" .
  moreover have "(case probe_lines i of [] \<Rightarrow> [] | l # _ \<Rightarrow> trim l) = re_os i"
    using os by (simp add: probe_lines_def)
  ultimately show ?thesis
    using start stop slice ls by (simp add: parse_remote_env_def Let_def)
qed

text \<open>
  The two markers may share their underscores, and then the slice has its bounds in the wrong order:
  a reply with \<open>__ENV_START__ENV_END__\<close> panics.
\<close>

lemma env_probe_overlap_panics: "parse_remote_env ''__ENV_START__ENV_END__'' = None"
  by code_simp

end
