(* ===== verification/Daemon_Client.thy ===== *)
theory Daemon_Client
  imports Agentd
begin

text \<open>
  The server's client of the remote daemon: \<open>DaemonClient\<close> and
  \<open>PersistentTerminalHandle\<close> of src/infrastructure/persistent.rs, with the wire types of
  src/infrastructure/daemon_proto.rs.  The reader task owns the receiving half of one SSH channel;
  callers register themselves under their request id, write the request and wait for the reader to
  hand them the response; terminal output goes to subscriber queues and terminal events to a
  broadcast.

  A call takes a step for each point where the reader can run in between: the test of
  \<open>closed\<close>, the registration, the write, and the end of its wait.  The history fields record
  what passed: \<open>dc_sent\<close> and \<open>dc_received\<close> the channel, \<open>sb_taken\<close> and
  \<open>sb_dropped\<close> a queue and how often it was full, \<open>sb_from\<close> the messages received before
  the subscription, \<open>hd_snapshot\<close> and \<open>hd_read\<close> what a handle started with and what
  its reads returned; no step reads them.  Request ids are natural numbers.
\<close>

section \<open>Deserialisation\<close>

text \<open>\<open>ReadResult\<close> as it is on the wire.\<close>

record read_wire =
  rd_cursor_start :: nat
  rd_cursor_end :: nat
  rd_is_truncated :: bool
  rd_data :: string

text \<open>serde_json's parser and the derived readers of three message types.\<close>

record serde =
  sd_from_slice :: "bytes \<Rightarrow> json option"
  sd_response :: "json \<Rightarrow> response option"
  sd_event :: "json \<Rightarrow> event option"
  sd_read_result :: "json \<Rightarrow> read_wire option"

section \<open>State\<close>

datatype call_pc = Checked | Registered | Waiting | Returned "json result"

record call =
  cl_method :: string
  cl_params :: json
  cl_id :: nat
  cl_pc :: call_pc
  cl_inbox :: "response option"

text \<open>A subscriber's queue, and whether its sender still exists.\<close>

record sub =
  sb_queue :: "bytes list"
  sb_open :: bool
  sb_dropped :: nat
  sb_taken :: "bytes list"
  sb_from :: nat

record handle =
  hd_remote_id :: string
  hd_sub :: nat
  hd_ev_pos :: nat
  hd_closed :: bool
  hd_initial :: "bytes option"
  hd_snapshot :: bytes
  hd_read :: bytes

text \<open>\<open>dc_reader\<close> is the reader task's buffer, none once it has returned.\<close>

record client =
  dc_next_id :: nat
  dc_calls :: "call list"
  dc_pending :: "(nat \<times> nat) list"
  dc_subs :: "sub list"
  dc_events :: "event list"
  dc_closed :: bool
  dc_reader :: "bytes option"
  dc_handles :: "handle list"
  dc_sent :: "request list"
  dc_received :: "json list"

definition client_new :: client where
  "client_new =
     \<lparr>dc_next_id = 1, dc_calls = [], dc_pending = [], dc_subs = [], dc_events = [], dc_closed = False,
      dc_reader = Some [], dc_handles = [], dc_sent = [], dc_received = []\<rparr>"

definition upd_call :: "nat \<Rightarrow> (call \<Rightarrow> call) \<Rightarrow> client \<Rightarrow> client" where
  "upd_call a f c = c\<lparr>dc_calls := (dc_calls c)[a := f (dc_calls c ! a)]\<rparr>"

section \<open>The reader task\<close>

datatype parsed = Incomplete | Malformed | Parsed json bytes

definition try_parse_msg :: "serde \<Rightarrow> bytes \<Rightarrow> parsed" where
  "try_parse_msg sd buffer =
     (if length buffer < 4 then Incomplete
      else let len = unat (from_be_bytes (take 4 buffer))
           in if len = 0 then Malformed
              else if len > unat MAX_MSG_LEN then Malformed
              else if length buffer < 4 + len then Incomplete
              else (case sd_from_slice sd (take len (drop 4 buffer)) of
                      None \<Rightarrow> Malformed
                    | Some v \<Rightarrow> Parsed v (drop (4 + len) buffer)))"

definition PTY_DATA_QUEUE :: nat where "PTY_DATA_QUEUE = 256"

text \<open>\<open>try_send\<close>: a full queue drops the chunk.\<close>

definition try_send :: "bytes \<Rightarrow> sub \<Rightarrow> sub" where
  "try_send data s =
     (if \<not> sb_open s then s
      else if length (sb_queue s) < PTY_DATA_QUEUE then s\<lparr>sb_queue := sb_queue s @ [data]\<rparr>
      else s\<lparr>sb_dropped := sb_dropped s + 1\<rparr>)"

definition handle_event :: "codec \<Rightarrow> event \<Rightarrow> client \<Rightarrow> client" where
  "handle_event cod ev c =
     (if e_event ev = ''pty_data'' then
        (case e_data ev of
           None \<Rightarrow> c
         | Some data_b64 \<Rightarrow>
             (case b64_decode cod data_b64 of
                Inr data \<Rightarrow> c\<lparr>dc_subs := map (try_send data) (dc_subs c)\<rparr>
              | Inl _ \<Rightarrow> c))
      else if e_event ev = ''pty_exit'' \<or> e_event ev = ''session_lost''
      then c\<lparr>dc_events := dc_events c @ [ev]\<rparr>
      else c)"

text \<open>A response goes to the call registered under its id, which is then no longer pending.\<close>

definition deliver :: "response \<Rightarrow> client \<Rightarrow> client" where
  "deliver resp c =
     (case map_of (dc_pending c) (unat (rp_id resp)) of
        None \<Rightarrow> c
      | Some a \<Rightarrow> upd_call a (\<lambda>k. k\<lparr>cl_inbox := Some resp\<rparr>)
                 (c\<lparr>dc_pending := filter (\<lambda>p. fst p \<noteq> unat (rp_id resp)) (dc_pending c)\<rparr>))"

definition dispatch_msg :: "serde \<Rightarrow> codec \<Rightarrow> json \<Rightarrow> client \<Rightarrow> client" where
  "dispatch_msg sd cod v c0 =
     (let c = c0\<lparr>dc_received := dc_received c0 @ [v]\<rparr>
      in if jget v ''id'' \<noteq> None then
           (case sd_response sd v of Some resp \<Rightarrow> deliver resp c | None \<Rightarrow> c)
         else if jget v ''event'' \<noteq> None then
           (case sd_event sd v of Some ev \<Rightarrow> handle_event cod ev c | None \<Rightarrow> c)
         else c)"

definition closed_response :: "string \<Rightarrow> response" where
  "closed_response reason = err_response 0 ''CONNECTION_CLOSED'' reason"

definition handle_disconnect :: "string \<Rightarrow> client \<Rightarrow> client" where
  "handle_disconnect reason c =
     foldl (\<lambda>c p. upd_call (snd p) (\<lambda>k. k\<lparr>cl_inbox := Some (closed_response reason)\<rparr>) c)
       (c\<lparr>dc_closed := True, dc_pending := [], dc_subs := map (\<lambda>s. s\<lparr>sb_open := False\<rparr>) (dc_subs c)\<rparr>)
       (dc_pending c)"

lemma try_parse_shrinks: "try_parse_msg sd b = Parsed v r \<Longrightarrow> length r < length b"
  by (auto simp: try_parse_msg_def Let_def split: if_splits option.splits)

text \<open>The inner loop: the messages the buffer holds, and what is left of it; none after an error.\<close>

function reader_loop :: "serde \<Rightarrow> codec \<Rightarrow> bytes \<Rightarrow> client \<Rightarrow> client" where
  "reader_loop sd cod buffer c =
     (case try_parse_msg sd buffer of
        Incomplete \<Rightarrow> c\<lparr>dc_reader := Some buffer\<rparr>
      | Malformed \<Rightarrow> (handle_disconnect ''parse error'' c)\<lparr>dc_reader := None\<rparr>
      | Parsed v rest \<Rightarrow> reader_loop sd cod rest (dispatch_msg sd cod v c))"
  by pat_completeness auto
termination
  by (relation "measure (\<lambda>(sd, cod, b, c). length b)") (auto intro: try_parse_shrinks)

declare reader_loop.simps [simp del]

datatype channel_msg = ChData bytes | ChExtended bytes | ChEof | ChClose | ChGone | ChOther

definition reader_step :: "serde \<Rightarrow> codec \<Rightarrow> channel_msg \<Rightarrow> client \<Rightarrow> client" where
  "reader_step sd cod m c =
     (case dc_reader c of
        None \<Rightarrow> c
      | Some buffer \<Rightarrow>
          (case m of
             ChData data \<Rightarrow> reader_loop sd cod (buffer @ data) c
           | ChExtended _ \<Rightarrow> c
           | ChOther \<Rightarrow> c
           | _ \<Rightarrow> (handle_disconnect ''proxy channel closed'' c)\<lparr>dc_reader := None\<rparr>))"

section \<open>Calls\<close>

definition response_result :: "response \<Rightarrow> json result" where
  "response_result r =
     (if rp_ok r
      then (case rp_result r of Some v \<Rightarrow> Inr v | None \<Rightarrow> Inl (ChannelError ''ok response missing result''))
      else Inl (ChannelError (case rp_error r of Some (_, message) \<Rightarrow> message | None \<Rightarrow> ''unknown daemon error'')))"

definition call_start :: "string \<Rightarrow> json \<Rightarrow> client \<Rightarrow> client" where
  "call_start meth params c =
     c\<lparr>dc_calls := dc_calls c @
        [\<lparr>cl_method = meth, cl_params = params, cl_id = 0,
          cl_pc = (if dc_closed c then Returned (Inl (SessionClosed ''daemon connection closed'')) else Checked),
          cl_inbox = None\<rparr>]\<rparr>"

definition call_register :: "nat \<Rightarrow> client \<Rightarrow> client" where
  "call_register a c =
     upd_call a (\<lambda>k. k\<lparr>cl_id := dc_next_id c, cl_pc := Registered\<rparr>)
       (c\<lparr>dc_next_id := dc_next_id c + 1, dc_pending := (dc_next_id c, a) # dc_pending c\<rparr>)"

definition call_write :: "nat \<Rightarrow> bool \<Rightarrow> client \<Rightarrow> client" where
  "call_write a written c =
     (let k = dc_calls c ! a
      in if written
         then upd_call a (\<lambda>k. k\<lparr>cl_pc := Waiting\<rparr>)
           (c\<lparr>dc_sent := dc_sent c @
              [\<lparr>rq_id = of_nat (cl_id k), rq_method = cl_method k, rq_params = cl_params k\<rparr>]\<rparr>)
         else upd_call a (\<lambda>k. k\<lparr>cl_pc := Returned (Inl (ChannelError ''write''))\<rparr>)
           (c\<lparr>dc_pending := filter (\<lambda>p. fst p \<noteq> cl_id k) (dc_pending c), dc_closed := True\<rparr>))"

definition call_receive :: "nat \<Rightarrow> response \<Rightarrow> client \<Rightarrow> client" where
  "call_receive a resp c = upd_call a (\<lambda>k. k\<lparr>cl_pc := Returned (response_result resp)\<rparr>) c"

definition call_timeout :: "nat \<Rightarrow> client \<Rightarrow> client" where
  "call_timeout a c =
     (let k = dc_calls c ! a
      in upd_call a (\<lambda>k. k\<lparr>cl_pc := Returned (Inl (OperationTimeout (cl_method k) None))\<rparr>)
           (c\<lparr>dc_pending := filter (\<lambda>p. fst p \<noteq> cl_id k) (dc_pending c)\<rparr>))"

text \<open>The branch for a sender dropped without an answer.\<close>

definition call_dropped :: "nat \<Rightarrow> client \<Rightarrow> client" where
  "call_dropped a c =
     (let k = dc_calls c ! a
      in upd_call a (\<lambda>k. k\<lparr>cl_pc := Returned (Inl (ChannelError ''response channel dropped''))\<rparr>)
           (c\<lparr>dc_pending := filter (\<lambda>p. fst p \<noteq> cl_id k) (dc_pending c)\<rparr>))"

section \<open>The terminal handle\<close>

definition subscribe_pty_data :: "client \<Rightarrow> client \<times> nat" where
  "subscribe_pty_data c =
     (c\<lparr>dc_subs := dc_subs c @ [\<lparr>sb_queue = [], sb_open = True, sb_dropped = 0, sb_taken = [],
        sb_from = length (dc_received c)\<rparr>]\<rparr>, length (dc_subs c))"

definition handle_new :: "string \<Rightarrow> nat \<Rightarrow> bytes option \<Rightarrow> client \<Rightarrow> client" where
  "handle_new remote_id sub initial c =
     c\<lparr>dc_handles := dc_handles c @
        [\<lparr>hd_remote_id = remote_id, hd_sub = sub, hd_ev_pos = length (dc_events c), hd_closed = False,
          hd_initial = initial, hd_snapshot = (case initial of Some d \<Rightarrow> d | None \<Rightarrow> []), hd_read = []\<rparr>]\<rparr>"

definition upd_handle :: "nat \<Rightarrow> (handle \<Rightarrow> handle) \<Rightarrow> client \<Rightarrow> client" where
  "upd_handle i f c = c\<lparr>dc_handles := (dc_handles c)[i := f (dc_handles c ! i)]\<rparr>"

definition EVENT_QUEUE :: nat where "EVENT_QUEUE = 64"

text \<open>
  One poll of the two branches of \<open>select!\<close>, which may be tried in any order: the output queue
  or the event broadcast.  A result is what \<open>read\<close> returns.
\<close>

datatype branch = DataBranch | EventBranch

datatype poll = Pending | Ready "bytes option"

definition read_poll :: "branch \<Rightarrow> nat \<Rightarrow> client \<Rightarrow> client \<times> poll" where
  "read_poll b i c =
     (let h = dc_handles c ! i; s = dc_subs c ! hd_sub h; n = length (dc_events c)
      in case b of
           DataBranch \<Rightarrow>
             (case sb_queue s of
                x # q \<Rightarrow> (c\<lparr>dc_subs := (dc_subs c)[hd_sub h := s\<lparr>sb_queue := q, sb_taken := sb_taken s @ [x]\<rparr>]\<rparr>, Ready (Some x))
              | [] \<Rightarrow> (c, if sb_open s then Pending else Ready None))
         | EventBranch \<Rightarrow>
             if n \<le> hd_ev_pos h then (c, Pending)
             else if n - hd_ev_pos h > EVENT_QUEUE
             then (upd_handle i (\<lambda>h. h\<lparr>hd_ev_pos := n - EVENT_QUEUE\<rparr>) c, Pending)
             else (upd_handle i (\<lambda>h. h\<lparr>hd_ev_pos := hd_ev_pos h + 1\<rparr>) c,
                   if is_terminal_event (dc_events c ! hd_ev_pos h) then Ready None else Pending))"

fun read_select :: "branch list \<Rightarrow> nat \<Rightarrow> client \<Rightarrow> client \<times> poll" where
  "read_select [] i c = (c, Pending)"
| "read_select (b # bs) i c =
     (case read_poll b i c of
        (c', Pending) \<Rightarrow> read_select bs i c'
      | (c', Ready r) \<Rightarrow> (c', Ready r))"

text \<open>\<open>PersistentTerminalHandle::read\<close>, with the polls it makes before the caller gives up.\<close>

definition handle_read :: "branch list \<Rightarrow> nat \<Rightarrow> client \<Rightarrow> client \<times> poll" where
  "handle_read bs i c =
     (let h = dc_handles c ! i; c' = upd_handle i (\<lambda>h. h\<lparr>hd_initial := None\<rparr>) c;
          (c', r) = (case hd_initial h of
                       Some d \<Rightarrow> if d \<noteq> [] then (c', Ready (Some d)) else read_select bs i c'
                     | None \<Rightarrow> read_select bs i c')
      in (case r of
            Ready (Some d) \<Rightarrow> upd_handle i (\<lambda>h. h\<lparr>hd_read := hd_read h @ d\<rparr>) c'
          | _ \<Rightarrow> c', r))"

section \<open>Requests and their results\<close>

definition opt_str :: "string option \<Rightarrow> json" where
  "opt_str s = (case s of Some t \<Rightarrow> JStr t | None \<Rightarrow> JNull)"

definition hello_params :: json where
  "hello_params = JObj [(''client_protocol_version'', JU64 (ucast PROTOCOL_VERSION)), (''client_build'', JStr BUILD_VERSION)]"

text \<open>The daemon's build, or the error for which \<open>connect\<close> fails.\<close>

definition hello_result :: "json \<Rightarrow> string result" where
  "hello_result v =
     (case get_u64 v ''daemon_protocol_version'' of
        None \<Rightarrow> Inl (ChannelError ''hello: missing daemon_protocol_version'')
      | Some n \<Rightarrow>
          let daemon_version = (ucast n :: u32)
          in if daemon_version \<noteq> PROTOCOL_VERSION then Inl (DaemonProtocolMismatch PROTOCOL_VERSION daemon_version)
             else Inr (case get_str v ''daemon_build'' of Some b \<Rightarrow> b | None \<Rightarrow> ''?''))"

definition create_params :: "string \<Rightarrow> string option \<Rightarrow> pty_size \<Rightarrow> string option \<Rightarrow> json" where
  "create_params shell cwd sz name =
     JObj [(''shell'', JStr shell), (''cwd'', opt_str cwd),
           (''pty_size'', JObj [(''rows'', JU64 (ucast (rows sz))), (''cols'', JU64 (ucast (cols sz)))]),
           (''name'', opt_str name)]"

definition create_result :: "json \<Rightarrow> string result" where
  "create_result v =
     (case get_str v ''session_id'' of
        Some sid \<Rightarrow> Inr sid | None \<Rightarrow> Inl (ChannelError ''session.create: missing session_id''))"

definition since_params :: "string \<Rightarrow> nat \<Rightarrow> json" where
  "since_params sid since = JObj [(''session_id'', JStr sid), (''since_cursor'', JU64 (of_nat since))]"

definition read_result_of :: "serde \<Rightarrow> json \<Rightarrow> read_wire result" where
  "read_result_of sd v = (case sd_read_result sd v of Some r \<Rightarrow> Inr r | None \<Rightarrow> Inl (ChannelError ''parse''))"

definition input_params :: "codec \<Rightarrow> string \<Rightarrow> bytes \<Rightarrow> json" where
  "input_params cod sid data = JObj [(''session_id'', JStr sid), (''data'', JStr (b64_encode cod data))]"

text \<open>The derived serialisation of \<open>ControlKey\<close>: the names of the variants in snake case.\<close>

fun proto_control :: "control_key \<Rightarrow> string" where
  "proto_control CtrlC = ''ctrl_c''"
| "proto_control CtrlD = ''ctrl_d''"
| "proto_control CtrlZ = ''ctrl_z''"
| "proto_control Tab = ''tab''"
| "proto_control Enter = ''enter''"
| "proto_control Escape = ''escape''"

definition control_params :: "string \<Rightarrow> control_key \<Rightarrow> json" where
  "control_params sid k = JObj [(''session_id'', JStr sid), (''control'', JStr (proto_control k))]"

definition resize_params :: "string \<Rightarrow> u16 \<Rightarrow> u16 \<Rightarrow> json" where
  "resize_params sid r c =
     JObj [(''session_id'', JStr sid), (''rows'', JU64 (ucast r)), (''cols'', JU64 (ucast c))]"

definition id_params :: "string \<Rightarrow> json" where
  "id_params sid = JObj [(''session_id'', JStr sid)]"

section \<open>The operations of the handle\<close>

text \<open>
  The other operations of the handle: the request each makes, and for \<open>close\<close> and
  \<open>detach\<close> none when the flag they share was set before.
\<close>

definition handle_end :: "string \<Rightarrow> nat \<Rightarrow> client \<Rightarrow> client \<times> (string \<times> json) option" where
  "handle_end meth i c =
     (let h = dc_handles c ! i
      in (upd_handle i (\<lambda>h. h\<lparr>hd_closed := True\<rparr>) c,
          if hd_closed h then None else Some (meth, id_params (hd_remote_id h))))"

definition handle_close :: "nat \<Rightarrow> client \<Rightarrow> client \<times> (string \<times> json) option" where
  "handle_close i c = handle_end ''session.close'' i c"

definition handle_detach :: "nat \<Rightarrow> client \<Rightarrow> client \<times> (string \<times> json) option" where
  "handle_detach i c = handle_end ''session.detach'' i c"

definition handle_write :: "codec \<Rightarrow> handle \<Rightarrow> bytes \<Rightarrow> string \<times> json" where
  "handle_write cod h data = (''session.send_input'', input_params cod (hd_remote_id h) data)"

definition handle_send_control :: "handle \<Rightarrow> control_key \<Rightarrow> string \<times> json" where
  "handle_send_control h k = (''session.send_control'', control_params (hd_remote_id h) k)"

definition handle_resize :: "handle \<Rightarrow> pty_size \<Rightarrow> string \<times> json" where
  "handle_resize h sz = (''session.resize'', resize_params (hd_remote_id h) (rows sz) (cols sz))"

end
