(* ===== verification/Daemon_Client_Run.thy ===== *)
theory Daemon_Client_Run
  imports Daemon_Client Agentd_Run
begin

text \<open>
  The client of the daemon at work: callers, the reader task and the terminal handles interleaved in
  any order, the matching of responses to calls, the reader's independence of how the channel cuts
  the stream, and what a persistent session's handle delivers.
\<close>

section \<open>Runs\<close>

datatype clabel =
    CallStart string json
  | CallRegister nat
  | CallWrite nat bool
  | CallReceive nat
  | CallTimeout nat
  | CallDropped nat
  | Arrive channel_msg
  | SubscribeData
  | NewHandle string nat "bytes option"
  | ReadHandle nat "branch list"
  | EndHandle string nat

definition has_pc :: "client \<Rightarrow> nat \<Rightarrow> call_pc \<Rightarrow> bool" where
  "has_pc c a pc \<longleftrightarrow> a < length (dc_calls c) \<and> cl_pc (dc_calls c ! a) = pc"

fun cexec :: "serde \<Rightarrow> codec \<Rightarrow> clabel \<Rightarrow> client \<Rightarrow> client option" where
  "cexec sd cod (CallStart meth params) c = Some (call_start meth params c)"
| "cexec sd cod (CallRegister a) c = (if has_pc c a Checked then Some (call_register a c) else None)"
| "cexec sd cod (CallWrite a ok) c = (if has_pc c a Registered then Some (call_write a ok c) else None)"
| "cexec sd cod (CallReceive a) c =
     (if has_pc c a Waiting
      then map_option (\<lambda>r. call_receive a r c) (cl_inbox (dc_calls c ! a)) else None)"
| "cexec sd cod (CallTimeout a) c =
     (if has_pc c a Waiting \<and> cl_inbox (dc_calls c ! a) = None then Some (call_timeout a c) else None)"
| "cexec sd cod (CallDropped a) c =
     (if has_pc c a Waiting \<and> cl_inbox (dc_calls c ! a) = None \<and> (cl_id (dc_calls c ! a), a) \<notin> set (dc_pending c)
      then Some (call_dropped a c) else None)"
| "cexec sd cod (Arrive m) c = Some (reader_step sd cod m c)"
| "cexec sd cod SubscribeData c = Some (fst (subscribe_pty_data c))"
| "cexec sd cod (NewHandle remote_id sub initial) c =
     (if sub < length (dc_subs c) \<and> sub \<notin> hd_sub ` set (dc_handles c) then Some (handle_new remote_id sub initial c) else None)"
| "cexec sd cod (ReadHandle i bs) c =
     (if i < length (dc_handles c) then Some (fst (handle_read bs i c)) else None)"
| "cexec sd cod (EndHandle meth i) c =
     (if i < length (dc_handles c) then Some (fst (handle_end meth i c)) else None)"

fun cexecs :: "serde \<Rightarrow> codec \<Rightarrow> clabel list \<Rightarrow> client \<Rightarrow> client option" where
  "cexecs sd cod [] c = Some c"
| "cexecs sd cod (l # ls) c = (case cexec sd cod l c of None \<Rightarrow> None | Some c' \<Rightarrow> cexecs sd cod ls c')"

lemma cexecs_induct [consumes 1, case_names start step]:
  assumes "cexecs sd cod ls c = Some c'" "P c"
    and "\<And>l c c'. P c \<Longrightarrow> cexec sd cod l c = Some c' \<Longrightarrow> P c'"
  shows "P c'"
  using assms(1,2)
proof (induction ls arbitrary: c)
  case (Cons l ls)
  then show ?case using assms(3) by (auto split: option.splits)
qed simp

section \<open>Responses and calls\<close>

text \<open>A response may be in a call's inbox if it arrived with the call's id, or if the connection is gone.\<close>

definition arrived :: "serde \<Rightarrow> json list \<Rightarrow> nat \<Rightarrow> response \<Rightarrow> bool" where
  "arrived sd ms i r \<longleftrightarrow> (\<exists>v \<in> set ms. sd_response sd v = Some r \<and> unat (rp_id r) = i)"

definition call_ok :: "serde \<Rightarrow> nat \<Rightarrow> (nat \<times> nat) list \<Rightarrow> json list \<Rightarrow> nat \<Rightarrow> call \<Rightarrow> bool" where
  "call_ok sd nxt pend ms a k \<longleftrightarrow>
     cl_id k < nxt \<and> (cl_pc k = Checked \<longrightarrow> cl_id k = 0 \<and> cl_inbox k = None) \<and>
     (cl_pc k = Registered \<or> cl_pc k = Waiting \<longrightarrow>
        0 < cl_id k \<and> (cl_inbox k = None \<longrightarrow> (cl_id k, a) \<in> set pend)) \<and>
     (\<forall>r. cl_inbox k = Some r \<longrightarrow> arrived sd ms (cl_id k) r \<or> (\<exists>reason. r = closed_response reason)) \<and>
     (\<forall>v. cl_pc k = Returned (Inr v) \<longrightarrow> (\<exists>r. arrived sd ms (cl_id k) r \<and> response_result r = Inr v))"

definition pending_ok :: "client \<Rightarrow> bool" where
  "pending_ok c \<longleftrightarrow> distinct (map fst (dc_pending c)) \<and>
     (\<forall>(i, a) \<in> set (dc_pending c). a < length (dc_calls c) \<and> cl_id (dc_calls c ! a) = i \<and> 0 < i \<and>
        cl_inbox (dc_calls c ! a) = None \<and>
        (cl_pc (dc_calls c ! a) = Registered \<or> cl_pc (dc_calls c ! a) = Waiting))"

definition ids_distinct :: "client \<Rightarrow> bool" where
  "ids_distinct c \<longleftrightarrow> (\<forall>a < length (dc_calls c). \<forall>b < length (dc_calls c).
     a \<noteq> b \<and> cl_id (dc_calls c ! a) \<noteq> 0 \<longrightarrow> cl_id (dc_calls c ! a) \<noteq> cl_id (dc_calls c ! b))"

definition cinv :: "serde \<Rightarrow> client \<Rightarrow> bool" where
  "cinv sd c \<longleftrightarrow> 0 < dc_next_id c \<and> pending_ok c \<and> ids_distinct c \<and>
     (\<forall>a < length (dc_calls c). call_ok sd (dc_next_id c) (dc_pending c) (dc_received c) a (dc_calls c ! a))"

lemma cinv_new [wf_intros]: "cinv sd client_new"
  by (simp add: cinv_def client_new_def pending_ok_def ids_distinct_def)

lemma upd_call_simps [simp]:
  "dc_calls (upd_call a f c) = (dc_calls c)[a := f (dc_calls c ! a)]"
  "dc_pending (upd_call a f c) = dc_pending c" "dc_next_id (upd_call a f c) = dc_next_id c"
  "dc_received (upd_call a f c) = dc_received c" "dc_subs (upd_call a f c) = dc_subs c"
  "dc_events (upd_call a f c) = dc_events c" "dc_handles (upd_call a f c) = dc_handles c"
  "dc_closed (upd_call a f c) = dc_closed c" "dc_reader (upd_call a f c) = dc_reader c"
  by (simp_all add: upd_call_def)

text \<open>The parts of the state the call invariant does not see.\<close>

lemma cinv_cong:
  "cinv sd c \<Longrightarrow> dc_calls c' = dc_calls c \<Longrightarrow> dc_pending c' = dc_pending c \<Longrightarrow>
   dc_next_id c' = dc_next_id c \<Longrightarrow> set (dc_received c) \<subseteq> set (dc_received c') \<Longrightarrow> cinv sd c'"
  unfolding cinv_def pending_ok_def ids_distinct_def call_ok_def arrived_def by (simp, meson subsetD)

lemma map_of_pending:
  assumes "cinv sd c" "map_of (dc_pending c) i = Some a"
  shows "a < length (dc_calls c)" "cl_id (dc_calls c ! a) = i" "0 < i"
    "cl_pc (dc_calls c ! a) = Registered \<or> cl_pc (dc_calls c ! a) = Waiting"
  using assms by (auto simp: cinv_def pending_ok_def dest!: map_of_SomeD)

text \<open>A step that changes one call and drops its entry from the pending table, or keeps the table.\<close>

lemma cinv_upd_call:
  assumes "cinv sd c" "a < length (dc_calls c)" "cl_id (f (dc_calls c ! a)) = cl_id (dc_calls c ! a)"
    and "call_ok sd (dc_next_id c) pend (dc_received c) a (f (dc_calls c ! a))"
    and "dc_calls c' = (dc_calls c)[a := f (dc_calls c ! a)]" "dc_next_id c' = dc_next_id c"
    and "dc_received c' = dc_received c" "dc_pending c' = pend"
    and "pend = filter (\<lambda>p. fst p \<noteq> cl_id (dc_calls c ! a)) (dc_pending c) \<or>
      (pend = dc_pending c \<and> cl_inbox (f (dc_calls c ! a)) = cl_inbox (dc_calls c ! a) \<and>
       (cl_pc (f (dc_calls c ! a)) = Registered \<or> cl_pc (f (dc_calls c ! a)) = Waiting))"
    and "cl_id (dc_calls c ! a) \<noteq> 0"
  shows "cinv sd c'"
proof -
  have dist: "ids_distinct c" and pend: "pending_ok c"
    and ok: "\<And>b. b < length (dc_calls c) \<Longrightarrow> call_ok sd (dc_next_id c) (dc_pending c) (dc_received c) b (dc_calls c ! b)"
    and pos: "0 < dc_next_id c"
    using assms(1) by (auto simp: cinv_def)
  have other: "cl_id (dc_calls c ! b) \<noteq> cl_id (dc_calls c ! a)" if "b < length (dc_calls c)" "b \<noteq> a" for b
    using dist that assms(2,10) unfolding ids_distinct_def by metis
  have "call_ok sd (dc_next_id c) pend (dc_received c) b (dc_calls c' ! b)" if b: "b < length (dc_calls c)" for b
  proof (cases "b = a")
    case False
    have "(cl_id (dc_calls c ! b), b) \<in> set pend" if "(cl_id (dc_calls c ! b), b) \<in> set (dc_pending c)"
      using that other [OF b False] assms(9) by auto
    moreover have "dc_calls c' ! b = dc_calls c ! b" using False by (simp add: assms(5))
    ultimately show ?thesis using ok [OF b] unfolding call_ok_def by auto
  qed (use assms(2,4,5) in simp)
  moreover have "ids_distinct c'"
    using dist assms(2,3,5) by (auto simp: ids_distinct_def nth_list_update)
  moreover have "pending_ok c'"
    using pend other assms(2,3,5,8,9)
    by (auto simp: pending_ok_def nth_list_update distinct_filter_fst)
  ultimately show ?thesis using pos assms(5-8) by (simp add: cinv_def)
qed

lemma cinv_deliver [wf_intros]:
  assumes "cinv sd c" "v \<in> set (dc_received c)" "sd_response sd v = Some r"
  shows "cinv sd (deliver r c)"
proof (cases "map_of (dc_pending c) (unat (rp_id r))")
  case (Some a)
  note m = map_of_pending [OF assms(1) Some]
  have old: "call_ok sd (dc_next_id c) (dc_pending c) (dc_received c) a (dc_calls c ! a)"
    using assms(1) m(1) by (simp add: cinv_def)
  show ?thesis
    by (rule cinv_upd_call [OF assms(1) m(1), where f = "\<lambda>k. k\<lparr>cl_inbox := Some r\<rparr>"])
      (use old m assms(2,3) in \<open>auto simp: deliver_def Some call_ok_def arrived_def\<close>)
qed (use assms in \<open>simp add: deliver_def\<close>)

lemma nth_upd: "a < length xs \<Longrightarrow> xs[b := f (xs ! b)] ! a = (if a = b then f (xs ! a) else xs ! a)"
  by (cases "a = b") simp_all

lemma foldl_upd_call:
  assumes "\<And>k. f (f k) = f k"
  shows "length (dc_calls (foldl (\<lambda>c p. upd_call (snd p) f c) c ps)) = length (dc_calls c) \<and>
    (\<forall>a < length (dc_calls c). dc_calls (foldl (\<lambda>c p. upd_call (snd p) f c) c ps) ! a =
       (if a \<in> snd ` set ps then f (dc_calls c ! a) else dc_calls c ! a))"
  using assms by (induction ps arbitrary: c) (auto simp: nth_upd)

lemma foldl_upd_call_other [simp]:
  "dc_pending (foldl (\<lambda>c p. upd_call (snd p) f c) c ps) = dc_pending c"
  "dc_next_id (foldl (\<lambda>c p. upd_call (snd p) f c) c ps) = dc_next_id c"
  "dc_received (foldl (\<lambda>c p. upd_call (snd p) f c) c ps) = dc_received c"
  "dc_subs (foldl (\<lambda>c p. upd_call (snd p) f c) c ps) = dc_subs c"
  "dc_events (foldl (\<lambda>c p. upd_call (snd p) f c) c ps) = dc_events c"
  "dc_handles (foldl (\<lambda>c p. upd_call (snd p) f c) c ps) = dc_handles c"
  "dc_closed (foldl (\<lambda>c p. upd_call (snd p) f c) c ps) = dc_closed c"
  by (induction ps arbitrary: c) simp_all

lemma handle_disconnect_calls:
  "length (dc_calls (handle_disconnect reason c)) = length (dc_calls c) \<and>
   (\<forall>a < length (dc_calls c). dc_calls (handle_disconnect reason c) ! a =
      (if a \<in> snd ` set (dc_pending c)
       then (dc_calls c ! a)\<lparr>cl_inbox := Some (closed_response reason)\<rparr> else dc_calls c ! a))"
  unfolding handle_disconnect_def
  using foldl_upd_call [of "\<lambda>k. k\<lparr>cl_inbox := Some (closed_response reason)\<rparr>"
      "c\<lparr>dc_closed := True, dc_pending := [], dc_subs := map (\<lambda>s. s\<lparr>sb_open := False\<rparr>) (dc_subs c)\<rparr>" "dc_pending c"]
  by simp

lemma handle_disconnect_simps [simp]:
  "dc_pending (handle_disconnect reason c) = []" "dc_closed (handle_disconnect reason c)"
  "dc_next_id (handle_disconnect reason c) = dc_next_id c"
  "dc_received (handle_disconnect reason c) = dc_received c"
  "dc_subs (handle_disconnect reason c) = map (\<lambda>s. s\<lparr>sb_open := False\<rparr>) (dc_subs c)"
  "dc_events (handle_disconnect reason c) = dc_events c"
  "dc_handles (handle_disconnect reason c) = dc_handles c"
  by (simp_all add: handle_disconnect_def)

lemma cinv_handle_disconnect [wf_intros]:
  assumes "cinv sd c"
  shows "cinv sd (handle_disconnect reason c)"
proof -
  let ?c = "handle_disconnect reason c"
  note d = handle_disconnect_calls [of reason c]
  have len: "length (dc_calls ?c) = length (dc_calls c)" using d by blast
  have at: "dc_calls ?c ! a = (if a \<in> snd ` set (dc_pending c)
       then (dc_calls c ! a)\<lparr>cl_inbox := Some (closed_response reason)\<rparr> else dc_calls c ! a)"
    if "a < length (dc_calls c)" for a using d that by blast
  have "call_ok sd (dc_next_id c) [] (dc_received c) a (dc_calls ?c ! a)" if a: "a < length (dc_calls c)" for a
  proof -
    have old: "call_ok sd (dc_next_id c) (dc_pending c) (dc_received c) a (dc_calls c ! a)"
      using assms a by (simp add: cinv_def)
    show ?thesis
    proof (cases "a \<in> snd ` set (dc_pending c)")
      case True
      then have "cl_pc (dc_calls c ! a) = Registered \<or> cl_pc (dc_calls c ! a) = Waiting"
        using assms by (auto simp: cinv_def pending_ok_def)
      then show ?thesis using old True at [OF a] by (auto simp: call_ok_def)
    next
      case False
      then have "(i, a) \<notin> set (dc_pending c)" for i by force
      then show ?thesis using old False at [OF a] by (simp add: call_ok_def)
    qed
  qed
  moreover have "cl_id (dc_calls ?c ! a) = cl_id (dc_calls c ! a)" if "a < length (dc_calls c)" for a
    using at [OF that] by simp
  ultimately show ?thesis using assms by (simp add: cinv_def pending_ok_def ids_distinct_def len)
qed

lemma cinv_handle_event [wf_intros]: "cinv sd c \<Longrightarrow> cinv sd (handle_event cod ev c)"
  by (erule cinv_cong) (auto simp: handle_event_def split: option.split sum.split)

lemma cinv_dispatch_msg [wf_intros]:
  assumes "cinv sd c"
  shows "cinv sd (dispatch_msg sd cod v c)"
proof -
  have "cinv sd (c\<lparr>dc_received := dc_received c @ [v]\<rparr>)" by (rule cinv_cong [OF assms]) auto
  then show ?thesis
    by (auto simp: dispatch_msg_def Let_def intro: cinv_deliver cinv_handle_event split: option.split)
qed

lemma cinv_reader_loop [wf_intros]: "cinv sd c \<Longrightarrow> cinv sd (reader_loop sd cod b c)"
proof (induction sd cod b c rule: reader_loop.induct)
  case (1 sd cod b c)
  show ?case
  proof (cases "try_parse_msg sd b")
    case Incomplete
    then show ?thesis using 1 by (subst reader_loop.simps) (auto intro: cinv_cong)
  next
    case Malformed
    have "cinv sd (handle_disconnect ''parse error'' c\<lparr>dc_reader := None\<rparr>)"
      by (rule cinv_cong [OF cinv_handle_disconnect [OF "1.prems"]]) auto
    then show ?thesis using Malformed by (subst reader_loop.simps) simp
  next
    case (Parsed v r)
    then show ?thesis using 1 cinv_dispatch_msg by (subst reader_loop.simps) simp
  qed
qed

lemma cinv_reader_step [wf_intros]:
  assumes "cinv sd c"
  shows "cinv sd (reader_step sd cod m c)"
proof -
  have "cinv sd (handle_disconnect r c\<lparr>dc_reader := None\<rparr>)" for r
    by (rule cinv_cong [OF cinv_handle_disconnect [OF assms]]) auto
  then show ?thesis using assms by (auto simp: reader_step_def intro: cinv_reader_loop split: option.split channel_msg.split)
qed

lemma call_ok_mono:
  "call_ok sd nxt pend ms a k \<Longrightarrow> nxt \<le> nxt' \<Longrightarrow> set pend \<subseteq> set pend' \<Longrightarrow> call_ok sd nxt' pend' ms a k"
  by (auto simp: call_ok_def)

lemma cinv_call_start [wf_intros]: "cinv sd c \<Longrightarrow> cinv sd (call_start meth params c)"
  by (auto simp: cinv_def call_start_def pending_ok_def ids_distinct_def call_ok_def nth_append)

lemma cinv_call_register [wf_intros]:
  assumes "cinv sd c" "has_pc c a Checked"
  shows "cinv sd (call_register a c)"
proof -
  have a: "a < length (dc_calls c)" "cl_pc (dc_calls c ! a) = Checked" using assms(2) by (auto simp: has_pc_def)
  have ok: "call_ok sd (dc_next_id c) (dc_pending c) (dc_received c) b (dc_calls c ! b)" if "b < length (dc_calls c)" for b
    using assms(1) that by (simp add: cinv_def)
  have lt: "cl_id (dc_calls c ! b) < dc_next_id c" if "b < length (dc_calls c)" for b
    using ok [OF that] by (simp add: call_ok_def)
  have "call_ok sd (dc_next_id c + 1) ((dc_next_id c, a) # dc_pending c) (dc_received c) b (dc_calls (call_register a c) ! b)"
    if b: "b < length (dc_calls c)" for b
  proof (cases "b = a")
    case True
    then show ?thesis using ok [OF a(1)] a by (auto simp: call_ok_def call_register_def)
  next
    case False
    have "call_ok sd (dc_next_id c + 1) ((dc_next_id c, a) # dc_pending c) (dc_received c) b (dc_calls c ! b)"
      by (rule call_ok_mono [OF ok [OF b]]) auto
    then show ?thesis using False by (simp add: call_register_def)
  qed
  moreover have "pending_ok (call_register a c)"
    unfolding pending_ok_def
  proof (intro conjI ballI)
    have "dc_next_id c \<notin> fst ` set (dc_pending c)"
      using assms(1) lt by (fastforce simp: cinv_def pending_ok_def)
    then show "distinct (map fst (dc_pending (call_register a c)))"
      using assms(1) by (simp add: call_register_def cinv_def pending_ok_def)
    fix p assume p: "p \<in> set (dc_pending (call_register a c))"
    have "snd p \<noteq> a" if "p \<in> set (dc_pending c)"
      using that assms(1) a by (auto simp: cinv_def pending_ok_def)
    then show "case p of (i, b) \<Rightarrow> b < length (dc_calls (call_register a c)) \<and>
        cl_id (dc_calls (call_register a c) ! b) = i \<and> 0 < i \<and> cl_inbox (dc_calls (call_register a c) ! b) = None \<and>
        (cl_pc (dc_calls (call_register a c) ! b) = Registered \<or> cl_pc (dc_calls (call_register a c) ! b) = Waiting)"
      using p assms(1) a ok [OF a(1)] by (auto simp: call_register_def cinv_def pending_ok_def call_ok_def)
  qed
  moreover have "ids_distinct (call_register a c)"
    unfolding ids_distinct_def
  proof (intro allI impI)
    fix b d
    assume bd: "b < length (dc_calls (call_register a c))" "d < length (dc_calls (call_register a c))"
      "b \<noteq> d \<and> cl_id (dc_calls (call_register a c) ! b) \<noteq> 0"
    have "ids_distinct c" using assms(1) by (simp add: cinv_def)
    then show "cl_id (dc_calls (call_register a c) ! b) \<noteq> cl_id (dc_calls (call_register a c) ! d)"
      using bd lt [of b] lt [of d] unfolding ids_distinct_def
      by (cases "b = a"; cases "d = a") (auto simp: call_register_def)
  qed
  ultimately show ?thesis using assms(1) by (simp add: cinv_def call_register_def)
qed

lemma cinv_finish_call:
  assumes "cinv sd c" "a < length (dc_calls c)" "cl_pc (dc_calls c ! a) = Registered \<or> cl_pc (dc_calls c ! a) = Waiting"
    and "cl_id (dc_calls c ! a) \<noteq> 0" "\<And>v. res = Inr v \<Longrightarrow> \<exists>r. arrived sd (dc_received c) (cl_id (dc_calls c ! a)) r \<and> response_result r = Inr v"
    and "dc_calls c' = (dc_calls c)[a := (dc_calls c ! a)\<lparr>cl_pc := Returned res\<rparr>]"
    and "dc_pending c' = filter (\<lambda>p. fst p \<noteq> cl_id (dc_calls c ! a)) (dc_pending c)"
    and "dc_next_id c' = dc_next_id c" "dc_received c' = dc_received c"
  shows "cinv sd c'"
proof -
  have "call_ok sd (dc_next_id c) (dc_pending c) (dc_received c) a (dc_calls c ! a)"
    using assms(1,2) by (simp add: cinv_def)
  then have "call_ok sd (dc_next_id c) (dc_pending c') (dc_received c) a ((dc_calls c ! a)\<lparr>cl_pc := Returned res\<rparr>)"
    using assms(5) by (simp add: call_ok_def)
  then show ?thesis
    by (intro cinv_upd_call [OF assms(1,2), where f = "\<lambda>k. k\<lparr>cl_pc := Returned res\<rparr>" and pend = "dc_pending c'"])
      (use assms in simp_all)
qed

lemma waiting_call:
  assumes "cinv sd c" "has_pc c a Registered \<or> has_pc c a Waiting"
  shows "a < length (dc_calls c)" "cl_pc (dc_calls c ! a) = Registered \<or> cl_pc (dc_calls c ! a) = Waiting"
    "cl_id (dc_calls c ! a) \<noteq> 0" "call_ok sd (dc_next_id c) (dc_pending c) (dc_received c) a (dc_calls c ! a)"
proof -
  show a: "a < length (dc_calls c)" "cl_pc (dc_calls c ! a) = Registered \<or> cl_pc (dc_calls c ! a) = Waiting"
    using assms(2) by (auto simp: has_pc_def)
  then show ok: "call_ok sd (dc_next_id c) (dc_pending c) (dc_received c) a (dc_calls c ! a)"
    using assms(1) by (simp add: cinv_def)
  show "cl_id (dc_calls c ! a) \<noteq> 0" using ok a(2) by (auto simp: call_ok_def)
qed

lemma cinv_call_write [wf_intros]:
  assumes "cinv sd c" "has_pc c a Registered"
  shows "cinv sd (call_write a ok c)"
proof -
  note w = waiting_call [OF assms(1) disjI1 [OF assms(2)]]
  have pc: "cl_pc (dc_calls c ! a) = Registered" using assms(2) by (simp add: has_pc_def)
  show ?thesis
  proof (cases ok)
    case True
    show ?thesis
      by (rule cinv_upd_call [OF assms(1) w(1), where f = "\<lambda>k. k\<lparr>cl_pc := Waiting\<rparr>" and pend = "dc_pending c"])
        (use w pc True in \<open>auto simp: call_write_def Let_def call_ok_def\<close>)
  next
    case False
    show ?thesis
      by (rule cinv_finish_call [OF assms(1) w(1-3), where res = "Inl (ChannelError ''write'')"])
        (simp_all add: call_write_def Let_def False)
  qed
qed

lemma cinv_call_timeout [wf_intros]:
  assumes "cinv sd c" "has_pc c a Waiting"
  shows "cinv sd (call_timeout a c)" "cinv sd (call_dropped a c)"
  by (rule cinv_finish_call [OF assms(1) waiting_call(1-3) [OF assms(1) disjI2 [OF assms(2)]]];
      simp add: call_timeout_def call_dropped_def Let_def; blast)+

lemma cinv_call_receive [wf_intros]:
  assumes "cinv sd c" "has_pc c a Waiting" "cl_inbox (dc_calls c ! a) = Some r"
  shows "cinv sd (call_receive a r c)"
proof -
  note w = waiting_call [OF assms(1) disjI2 [OF assms(2)]]
  have "fst p \<noteq> cl_id (dc_calls c ! a)" if "p \<in> set (dc_pending c)" for p
  proof
    assume "fst p = cl_id (dc_calls c ! a)"
    then have p: "snd p < length (dc_calls c)" "cl_id (dc_calls c ! snd p) = cl_id (dc_calls c ! a)"
      "cl_inbox (dc_calls c ! snd p) = None"
      using that assms(1) by (auto simp: cinv_def pending_ok_def)
    moreover have "ids_distinct c" using assms(1) by (simp add: cinv_def)
    ultimately have "snd p = a" using w(1,3) unfolding ids_distinct_def by metis
    then show False using p(3) assms(3) by simp
  qed
  then have pend: "filter (\<lambda>p. fst p \<noteq> cl_id (dc_calls c ! a)) (dc_pending c) = dc_pending c" by simp
  have "arrived sd (dc_received c) (cl_id (dc_calls c ! a)) r" if "response_result r = Inr v" for v
    using w(4) assms(3) that by (auto simp: call_ok_def closed_response_def err_response_def response_result_def)
  then show ?thesis
    by (intro cinv_finish_call [OF assms(1) w(1-3), where res = "response_result r"])
      (auto simp: call_receive_def pend)
qed

lemma read_poll_calls:
  "dc_calls (fst (read_poll b i c)) = dc_calls c \<and> dc_pending (fst (read_poll b i c)) = dc_pending c \<and>
   dc_next_id (fst (read_poll b i c)) = dc_next_id c \<and> dc_received (fst (read_poll b i c)) = dc_received c"
  by (simp add: read_poll_def upd_handle_def Let_def split: branch.split list.split)

lemma read_select_calls:
  "dc_calls (fst (read_select bs i c)) = dc_calls c \<and> dc_pending (fst (read_select bs i c)) = dc_pending c \<and>
   dc_next_id (fst (read_select bs i c)) = dc_next_id c \<and> dc_received (fst (read_select bs i c)) = dc_received c"
proof (induction bs i c rule: read_select.induct)
  case (2 b bs i c)
  then show ?case using read_poll_calls [of b i c] by (auto split: prod.split poll.split)
qed simp

lemma handle_read_calls:
  "dc_calls (fst (handle_read bs i c)) = dc_calls c \<and> dc_pending (fst (handle_read bs i c)) = dc_pending c \<and>
   dc_next_id (fst (handle_read bs i c)) = dc_next_id c \<and> dc_received (fst (handle_read bs i c)) = dc_received c"
proof -
  let ?c = "upd_handle i (\<lambda>h. h\<lparr>hd_initial := None\<rparr>) c"
  have "dc_calls ?c = dc_calls c" "dc_pending ?c = dc_pending c" "dc_next_id ?c = dc_next_id c" "dc_received ?c = dc_received c"
    by (simp_all add: upd_handle_def)
  then show ?thesis
    using read_select_calls [of bs i ?c]
    by (auto simp: handle_read_def Let_def upd_handle_def split: prod.split poll.split option.split)
qed

lemma cinv_step:
  assumes "cinv sd c" "cexec sd cod l c = Some c'"
  shows "cinv sd c'"
  using assms
proof (cases l)
  case (ReadHandle i bs)
  then have "c' = fst (handle_read bs i c)" using assms(2) by (simp split: if_splits)
  then show ?thesis using handle_read_calls [of bs i c] by (intro cinv_cong [OF assms(1)]) auto
next
  case SubscribeData
  then show ?thesis using assms(2) by (intro cinv_cong [OF assms(1)]) (auto simp: subscribe_pty_data_def)
next
  case NewHandle
  then show ?thesis using assms(2) by (intro cinv_cong [OF assms(1)]) (auto simp: handle_new_def split: if_splits)
next
  case EndHandle
  then show ?thesis using assms(2)
    by (intro cinv_cong [OF assms(1)]) (auto simp: handle_end_def upd_handle_def Let_def split: if_splits)
qed (auto intro: wf_intros split: if_splits)

lemma cinv_run: "cexecs sd cod ls client_new = Some c \<Longrightarrow> cinv sd c"
  by (erule cexecs_induct) (auto intro: cinv_new cinv_step)

section \<open>A small run\<close>

text \<open>A parser that knows three messages: a response, an output event and an exit event.\<close>

definition demo_event :: event where
  "demo_event = pty_data ''sess_0000002a'' 0 1 False (b64_encode demo_codec [0x78])"

definition demo_serde :: serde where
  "demo_serde =
     \<lparr>sd_from_slice = (\<lambda>b. if b = [0x31] then Some (JObj [(''id'', JU64 1)])
                          else if b = [0x32] then Some (JObj [(''event'', JStr ''pty_data'')])
                          else if b = [0x33] then Some (JObj [(''event'', JStr ''pty_exit'')]) else None),
      sd_response = (\<lambda>_. Some (ok_response 1 (JStr ''ok''))),
      sd_event = (\<lambda>v. Some (if v = JObj [(''event'', JStr ''pty_exit'')] then pty_exit ''sess_0000002a'' 0 else demo_event)),
      sd_read_result = (\<lambda>_. None)\<rparr>"

definition demo_calls :: "clabel list" where
  "demo_calls = [CallStart ''session.list'' (JObj []), CallRegister 0, CallWrite 0 True,
     Arrive (ChData [0, 0, 0]), Arrive (ChData [1, 0x31]), CallReceive 0]"

lemmas client_eval = client_new_def call_start_def call_register_def call_write_def call_receive_def
  has_pc_def upd_call_def reader_step_def reader_loop.simps try_parse_msg_def dispatch_msg_def deliver_def
  handle_event_def subscribe_pty_data_def handle_new_def response_result_def Let_def MAX_MSG_LEN_def

lemma demo_calls_result:
  "\<exists>c. cexecs demo_serde demo_codec demo_calls client_new = Some c \<and> length (dc_calls c) = 1 \<and>
     cl_pc (dc_calls c ! 0) = Returned (Inr (JStr ''ok''))"
  by (simp add: demo_calls_def client_eval demo_serde_def ok_response_def)

section \<open>Answers\<close>

lemma response_result_Inr: "response_result r = Inr v \<longleftrightarrow> rp_ok r \<and> rp_result r = Some v"
  by (auto simp: response_result_def split: option.splits)

text \<open>
  (C10) A call gets its own answer.  However callers, the reader task and the handles interleave, a call
  that returns a value returns the result of a response that arrived with the call's id, no two calls
  have the same id, and the sender of a call that waits is either registered under its id or has
  already sent: the branch for a dropped sender is never taken.
\<close>

theorem calls_get_their_answers:
  assumes "cexecs sd cod ls client_new = Some c" "a < length (dc_calls c)"
  shows "(\<forall>v. cl_pc (dc_calls c ! a) = Returned (Inr v) \<longrightarrow>
      (\<exists>m \<in> set (dc_received c). \<exists>r. sd_response sd m = Some r \<and>
         unat (rp_id r) = cl_id (dc_calls c ! a) \<and> rp_ok r \<and> rp_result r = Some v)) \<and>
    (\<forall>b < length (dc_calls c). cl_id (dc_calls c ! a) = cl_id (dc_calls c ! b) \<and> cl_id (dc_calls c ! a) \<noteq> 0 \<longrightarrow> a = b) \<and>
    cexec sd cod (CallDropped a) c = None"
proof -
  have inv: "cinv sd c" by (rule cinv_run [OF assms(1)])
  then have ok: "call_ok sd (dc_next_id c) (dc_pending c) (dc_received c) a (dc_calls c ! a)" and "ids_distinct c"
    using assms(2) by (auto simp: cinv_def)
  have "\<exists>m \<in> set (dc_received c). \<exists>r. sd_response sd m = Some r \<and>
         unat (rp_id r) = cl_id (dc_calls c ! a) \<and> rp_ok r \<and> rp_result r = Some v"
    if "cl_pc (dc_calls c ! a) = Returned (Inr v)" for v
    using ok that unfolding call_ok_def arrived_def response_result_Inr by blast
  moreover have "a = b" if "b < length (dc_calls c)" "cl_id (dc_calls c ! a) = cl_id (dc_calls c ! b)" "cl_id (dc_calls c ! a) \<noteq> 0" for b
    using \<open>ids_distinct c\<close> that assms(2) unfolding ids_distinct_def by metis
  moreover have "cexec sd cod (CallDropped a) c = None"
    using ok by (auto simp: call_ok_def has_pc_def)
  ultimately show ?thesis by blast
qed

theorem calls_get_their_answers_witness:
  "\<exists>c. cexecs demo_serde demo_codec demo_calls client_new = Some c \<and>
     (\<exists>m \<in> set (dc_received c). \<exists>r. sd_response demo_serde m = Some r \<and>
         unat (rp_id r) = cl_id (dc_calls c ! 0) \<and> rp_result r = Some (JStr ''ok''))"
proof -
  obtain c where c: "cexecs demo_serde demo_codec demo_calls client_new = Some c" "length (dc_calls c) = 1"
    "cl_pc (dc_calls c ! 0) = Returned (Inr (JStr ''ok''))"
    using demo_calls_result by blast
  from calls_get_their_answers [OF c(1), of 0] c show ?thesis by auto
qed

section \<open>The reader and the channel\<close>

lemma try_parse_append:
  "try_parse_msg sd b = Parsed v r \<Longrightarrow> try_parse_msg sd (b @ x) = Parsed v (r @ x)"
  "try_parse_msg sd b = Malformed \<Longrightarrow> try_parse_msg sd (b @ x) = Malformed"
  by (auto simp: try_parse_msg_def Let_def split: if_splits option.splits)

lemma dispatch_msg_reader:
  "dispatch_msg sd cod v (c\<lparr>dc_reader := r\<rparr>) = (dispatch_msg sd cod v c)\<lparr>dc_reader := r\<rparr>"
  by (simp add: dispatch_msg_def deliver_def handle_event_def upd_call_def Let_def
      split: option.split sum.split)

lemma upd_call_reader: "upd_call a f (c\<lparr>dc_reader := r\<rparr>) = (upd_call a f c)\<lparr>dc_reader := r\<rparr>"
  by (simp add: upd_call_def)

lemma foldl_upd_call_reader:
  "foldl (\<lambda>c p. upd_call (snd p) f c) (c\<lparr>dc_reader := r\<rparr>) ps = (foldl (\<lambda>c p. upd_call (snd p) f c) c ps)\<lparr>dc_reader := r\<rparr>"
  by (induction ps arbitrary: c) (simp_all add: upd_call_reader)

lemma handle_disconnect_reader:
  "handle_disconnect reason (c\<lparr>dc_reader := r\<rparr>) = (handle_disconnect reason c)\<lparr>dc_reader := r\<rparr>"
proof -
  have "c\<lparr>dc_reader := r, dc_closed := True, dc_pending := [], dc_subs := map (\<lambda>s. s\<lparr>sb_open := False\<rparr>) (dc_subs c)\<rparr> =
      (c\<lparr>dc_closed := True, dc_pending := [], dc_subs := map (\<lambda>s. s\<lparr>sb_open := False\<rparr>) (dc_subs c)\<rparr>)\<lparr>dc_reader := r\<rparr>"
    by simp
  note eq = this
  show ?thesis by (simp add: handle_disconnect_def eq foldl_upd_call_reader)
qed

lemma reader_loop_reader: "reader_loop sd cod b (c\<lparr>dc_reader := r\<rparr>) = reader_loop sd cod b c"
proof (induction sd cod b c rule: reader_loop.induct)
  case (1 sd cod b c)
  show ?case
    using 1 by (subst (1 2) reader_loop.simps)
      (auto simp: dispatch_msg_reader handle_disconnect_reader split: parsed.split)
qed

lemma reader_loop_append:
  "reader_loop sd cod (b @ x) c =
   (case dc_reader (reader_loop sd cod b c) of
      None \<Rightarrow> reader_loop sd cod b c
    | Some r \<Rightarrow> reader_loop sd cod (r @ x) (reader_loop sd cod b c))"
proof (induction sd cod b c rule: reader_loop.induct)
  case (1 sd cod b c)
  show ?case
  proof (cases "try_parse_msg sd b")
    case Incomplete
    then have "reader_loop sd cod b c = c\<lparr>dc_reader := Some b\<rparr>" by (subst reader_loop.simps) simp
    then show ?thesis by (simp add: reader_loop_reader)
  next
    case Malformed
    then show ?thesis using try_parse_append(2) [OF Malformed, of x]
      by (subst (1 2 3) reader_loop.simps) simp
  next
    case (Parsed v r)
    have one: "reader_loop sd cod b c = reader_loop sd cod r (dispatch_msg sd cod v c)"
      using Parsed by (subst reader_loop.simps) simp
    have two: "reader_loop sd cod (b @ x) c = reader_loop sd cod (r @ x) (dispatch_msg sd cod v c)"
      using try_parse_append(1) [OF Parsed, of x] by (subst reader_loop.simps) simp
    show ?thesis unfolding one two by (rule 1 [OF Parsed])
  qed
qed

text \<open>Data in pieces is data in one piece.\<close>

lemma reader_step_chunks:
  "foldl (\<lambda>c d. reader_step sd cod (ChData d) c) c (d # ds) = reader_step sd cod (ChData (concat (d # ds))) c"
proof (induction ds arbitrary: c d)
  case (Cons e ds)
  have "reader_step sd cod (ChData e) (reader_step sd cod (ChData d) c) = reader_step sd cod (ChData (d @ e)) c"
    using reader_loop_append [of sd cod "b @ d" e c for b]
    by (simp add: reader_step_def split: option.split)
  then show ?case using Cons.IH [of c "d @ e"] by simp
qed simp

lemma try_parse_encode:
  assumes "frameable to_vec m" "sd_from_slice sd (to_vec m) = Some v"
  shows "try_parse_msg sd (encode to_vec m @ rest) = Parsed v rest"
  using frame_length [OF assms(1)] assms(2) assms(1) [unfolded frameable_def]
  by (simp add: try_parse_msg_def encode_def Let_def word_less_nat_alt)

lemma try_parse_encode_cut:
  assumes "frameable to_vec m" "k < length (encode to_vec m)"
  shows "try_parse_msg sd (take k (encode to_vec m)) = Incomplete"
proof (cases "k < 4")
  case True
  then show ?thesis by (simp add: try_parse_msg_def encode_def Let_def)
next
  case False
  then have "take k (encode to_vec m) = to_be_bytes (of_nat (length (to_vec m))) @ take (k - 4) (to_vec m)"
    by (simp add: encode_def Let_def)
  moreover have "k - 4 < length (to_vec m)" using assms(2) False by (simp add: encode_def Let_def)
  ultimately show ?thesis using frame_length [OF assms(1)] assms(1) [unfolded frameable_def]
    by (simp add: try_parse_msg_def Let_def word_less_nat_alt)
qed

lemma reader_loop_encode:
  "\<forall>m \<in> set ms. frameable to_vec m \<and> sd_from_slice sd (to_vec m) = Some (val m) \<Longrightarrow>
   reader_loop sd cod (concat (map (encode to_vec) ms) @ rest) c =
   reader_loop sd cod rest (foldl (\<lambda>c m. dispatch_msg sd cod (val m) c) c ms)"
proof (induction ms arbitrary: c)
  case (Cons m ms)
  have "reader_loop sd cod (encode to_vec m @ concat (map (encode to_vec) ms) @ rest) c =
      reader_loop sd cod (concat (map (encode to_vec) ms) @ rest) (dispatch_msg sd cod (val m) c)"
    using try_parse_encode [of to_vec m sd "val m"] Cons.prems by (subst reader_loop.simps) simp
  then show ?case using Cons by simp
qed simp

lemma channel_chunks:
  assumes "\<forall>m \<in> set (ms @ [m']). frameable to_vec m \<and> sd_from_slice sd (to_vec m) = Some (val m)"
    and "k < length (encode to_vec m')" "dc_reader c = Some []" "ds \<noteq> []"
    and "concat ds = concat (map (encode to_vec) ms) @ take k (encode to_vec m')"
  shows "foldl (\<lambda>c d. reader_step sd cod (ChData d) c) c ds =
    (foldl (\<lambda>c m. dispatch_msg sd cod (val m) c) c ms)\<lparr>dc_reader := Some (take k (encode to_vec m'))\<rparr>"
proof -
  obtain d es where ds: "ds = d # es" using assms(4) by (cases ds) auto
  let ?c = "foldl (\<lambda>c m. dispatch_msg sd cod (val m) c) c ms"
  have "foldl (\<lambda>c d. reader_step sd cod (ChData d) c) c ds = reader_loop sd cod (concat ds) c"
    unfolding ds reader_step_chunks using assms(3) by (simp add: reader_step_def)
  also have "\<dots> = reader_loop sd cod (take k (encode to_vec m')) ?c"
    using reader_loop_encode [of ms to_vec sd val] assms(1) unfolding assms(5) by simp
  also have "\<dots> = ?c\<lparr>dc_reader := Some (take k (encode to_vec m'))\<rparr>"
    using try_parse_encode_cut [of to_vec m' k sd] assms(1,2) by (subst reader_loop.simps) simp
  finally show ?thesis .
qed

text \<open>
  The reader task hands on exactly the messages that have arrived complete, in order, each once,
  however the channel cuts the stream into pieces; the bytes of a message still incomplete stay in
  its buffer.
\<close>

lemma channel_delivers_messages:
  assumes "\<forall>m \<in> set (ms @ [m']). frameable to_vec m \<and> sd_from_slice sd (to_vec m) = Some (val m)"
    and "k < length (encode to_vec m')" "dc_reader c = Some []" "ds \<noteq> []"
    and "concat ds = concat (map (encode to_vec) ms) @ take k (encode to_vec m')"
  shows "foldl (\<lambda>c d. reader_step sd cod (ChData d) c) c ds =
    (foldl (\<lambda>c m. dispatch_msg sd cod (val m) c) c ms)\<lparr>dc_reader := Some (take k (encode to_vec m'))\<rparr>"
  by (rule channel_chunks [OF assms])

section \<open>The end of the connection\<close>

text \<open>
  When the channel ends or breaks, every call that is registered gets an error, every subscriber's
  queue ends, and a call that starts later fails at once without a request.
\<close>

lemma disconnect_fails_calls:
  assumes "cexecs sd cod ls client_new = Some c" "dc_reader c = Some b" "m = ChEof \<or> m = ChClose \<or> m = ChGone"
  shows "dc_pending (reader_step sd cod m c) = [] \<and>
    (\<forall>(i, a) \<in> set (dc_pending c). cl_inbox (dc_calls (reader_step sd cod m c) ! a) =
       Some (closed_response ''proxy channel closed'')) \<and>
    (\<forall>s \<in> set (dc_subs (reader_step sd cod m c)). \<not> sb_open s) \<and>
    (let c' = call_start meth params (reader_step sd cod m c)
     in dc_calls c' = dc_calls (reader_step sd cod m c) @
          [\<lparr>cl_method = meth, cl_params = params, cl_id = 0,
            cl_pc = Returned (Inl (SessionClosed ''daemon connection closed'')), cl_inbox = None\<rparr>] \<and>
        dc_sent c' = dc_sent c)"
proof -
  let ?d = "handle_disconnect ''proxy channel closed'' c"
  have step: "reader_step sd cod m c = ?d\<lparr>dc_reader := None\<rparr>"
    using assms(2,3) by (auto simp: reader_step_def)
  have sent: "dc_sent (foldl (\<lambda>c p. upd_call (snd p) f c) c ps) = dc_sent c" for f c ps
    by (induction ps arbitrary: c) (simp_all add: upd_call_def)
  have "cl_inbox (dc_calls ?d ! a) = Some (closed_response ''proxy channel closed'')" if "(i, a) \<in> set (dc_pending c)" for i a
  proof -
    have "a < length (dc_calls c)" using cinv_run [OF assms(1)] that by (auto simp: cinv_def pending_ok_def)
    moreover have "a \<in> snd ` set (dc_pending c)" using that by force
    ultimately show ?thesis using handle_disconnect_calls [of "''proxy channel closed''" c] by simp
  qed
  moreover have "dc_sent ?d = dc_sent c" by (simp add: handle_disconnect_def sent)
  ultimately show ?thesis by (auto simp: step call_start_def Let_def)
qed

text \<open>
  A call that passed the test of the flag before the connection ended and registers after it is
  answered by nobody: it waits for its whole time limit.
\<close>

lemma late_registration_waits:
  "\<exists>c. cexecs sd cod [CallStart ''session.list'' (JObj []), Arrive ChEof, CallRegister 0, CallWrite 0 True] client_new = Some c \<and>
     dc_reader c = None \<and> dc_pending c = [(1, 0)] \<and> cl_pc (dc_calls c ! 0) = Waiting \<and> cl_inbox (dc_calls c ! 0) = None"
  by (simp add: client_eval handle_disconnect_def)

text \<open>
  The daemon sends the last output before the exit event, but a handle that polls the event branch
  first ends while that output is still in its queue, and the output is lost.
\<close>

lemma eof_overtakes_output:
  "\<exists>c. cexecs demo_serde demo_codec
      [SubscribeData, NewHandle ''sess_0000002a'' 0 None, Arrive (ChData [0, 0, 0, 1, 0x32]),
       Arrive (ChData [0, 0, 0, 1, 0x33])] client_new = Some c \<and>
     sb_queue (dc_subs c ! 0) = [[0x78]] \<and> snd (handle_read [EventBranch, DataBranch] 0 c) = Ready None \<and>
     snd (handle_read [DataBranch, EventBranch] 0 c) = Ready (Some [0x78])"
  by (simp add: client_eval demo_serde_def demo_event_def pty_data_def pty_exit_def demo_codec_def try_send_def
      PTY_DATA_QUEUE_def EVENT_QUEUE_def handle_read_def read_poll_def upd_handle_def is_terminal_event_def)

text \<open>A terminal event that arrives before the handle subscribes to events is never seen by it.\<close>

lemma early_exit_missed:
  "dc_handles c = [] \<Longrightarrow> sub < length (dc_subs c) \<Longrightarrow> sb_queue (dc_subs c ! sub) = [] \<Longrightarrow> sb_open (dc_subs c ! sub) \<Longrightarrow>
   snd (handle_read bs 0 (handle_new remote_id sub None c)) = Pending"
proof -
  assume c: "dc_handles c = []" "sub < length (dc_subs c)" "sb_queue (dc_subs c ! sub) = []" "sb_open (dc_subs c ! sub)"
  let ?c = "handle_new remote_id sub None c"
  have one: "read_poll b 0 ?c = (?c, Pending)" for b
    using c by (cases b) (simp_all add: read_poll_def handle_new_def Let_def)
  have "read_select bs 0 ?c = (?c, Pending)" by (induction bs) (simp_all add: one)
  moreover have "upd_handle 0 (\<lambda>h. h\<lparr>hd_initial := None\<rparr>) ?c = ?c" "hd_initial (dc_handles ?c ! 0) = None"
    using c by (simp_all add: upd_handle_def handle_new_def)
  ultimately show ?thesis by (simp add: handle_read_def Let_def)
qed

end
