(* ===== verification/Persistent_Output.thy ===== *)
theory Persistent_Output
  imports Daemon_Client_Run
begin

text \<open>
  What the handle of a persistent session delivers: the snapshot of the attach response and then the
  output events, in the order the daemon sent them; and, together with the daemon's event pump, a
  prefix of the remote session's output.
\<close>

section \<open>Queues\<close>

definition msg_bytes :: "serde \<Rightarrow> codec \<Rightarrow> json \<Rightarrow> bytes" where
  "msg_bytes sd cod v =
     (if jget v ''id'' = None \<and> jget v ''event'' \<noteq> None
      then (case sd_event sd v of
              Some ev \<Rightarrow> if e_event ev = ''pty_data'' then event_bytes cod ev else []
            | None \<Rightarrow> [])
      else [])"

definition sub_ok :: "serde \<Rightarrow> codec \<Rightarrow> json list \<Rightarrow> sub \<Rightarrow> bool" where
  "sub_ok sd cod ms s \<longleftrightarrow> sb_from s \<le> length ms \<and>
     (sb_dropped s = 0 \<longrightarrow>
        concat (sb_taken s) @ concat (sb_queue s) = concat (map (msg_bytes sd cod) (drop (sb_from s) ms)))"

definition subs_ok :: "serde \<Rightarrow> codec \<Rightarrow> client \<Rightarrow> bool" where
  "subs_ok sd cod c \<longleftrightarrow> (\<forall>s \<in> set (dc_subs c). sub_ok sd cod (dc_received c) s)"

definition all_open :: "client \<Rightarrow> bool" where
  "all_open c \<longleftrightarrow> (\<forall>s \<in> set (dc_subs c). sb_open s)"

lemma sub_ok_quiet: "sub_ok sd cod ms s \<Longrightarrow> msg_bytes sd cod v = [] \<Longrightarrow> sub_ok sd cod (ms @ [v]) s"
  by (simp add: sub_ok_def)

lemma sub_ok_try_send:
  "sub_ok sd cod ms s \<Longrightarrow> sb_open s \<Longrightarrow> msg_bytes sd cod v = d \<Longrightarrow> sub_ok sd cod (ms @ [v]) (try_send d s)"
  by (simp add: sub_ok_def try_send_def)

lemma deliver_subs [simp]:
  "dc_subs (deliver r c) = dc_subs c" "dc_received (deliver r c) = dc_received c"
  "dc_handles (deliver r c) = dc_handles c" "dc_events (deliver r c) = dc_events c"
  by (simp_all add: deliver_def split: option.split)

lemma dispatch_received [simp]:
  "dc_received (dispatch_msg sd cod v c) = dc_received c @ [v]"
  "dc_handles (dispatch_msg sd cod v c) = dc_handles c"
  by (simp_all add: dispatch_msg_def handle_event_def Let_def split: option.split sum.split)

lemma dispatch_subs:
  "dc_subs (dispatch_msg sd cod v c) = dc_subs c \<and> msg_bytes sd cod v = [] \<or>
   dc_subs (dispatch_msg sd cod v c) = map (try_send (msg_bytes sd cod v)) (dc_subs c)"
  by (auto simp: dispatch_msg_def handle_event_def msg_bytes_def event_bytes_def Let_def
      split: option.split sum.split)

lemma dispatch_ok:
  assumes "subs_ok sd cod c" "all_open c"
  shows "subs_ok sd cod (dispatch_msg sd cod v c)" "all_open (dispatch_msg sd cod v c)"
proof -
  show "subs_ok sd cod (dispatch_msg sd cod v c)"
    using dispatch_subs [of sd cod v c] assms sub_ok_quiet [of sd cod "dc_received c" _ v]
      sub_ok_try_send [of sd cod "dc_received c" _ v]
    by (auto simp: subs_ok_def all_open_def)
  have "sb_open (try_send d s) = sb_open s" for d s by (simp add: try_send_def)
  then show "all_open (dispatch_msg sd cod v c)"
    using dispatch_subs [of sd cod v c] assms(2) by (auto simp: all_open_def)
qed

lemma subs_ok_disconnect:
  assumes "subs_ok sd cod c"
  shows "subs_ok sd cod (handle_disconnect reason c\<lparr>dc_reader := r\<rparr>)"
  using assms by (auto simp: subs_ok_def sub_ok_def)

lemma reader_loop_ok:
  "subs_ok sd cod c \<Longrightarrow> all_open c \<Longrightarrow>
   subs_ok sd cod (reader_loop sd cod b c) \<and>
   (dc_reader (reader_loop sd cod b c) \<noteq> None \<longrightarrow> all_open (reader_loop sd cod b c)) \<and>
   dc_handles (reader_loop sd cod b c) = dc_handles c \<and>
   length (dc_subs (reader_loop sd cod b c)) = length (dc_subs c) \<and>
   map sb_taken (dc_subs (reader_loop sd cod b c)) = map sb_taken (dc_subs c)"
proof (induction sd cod b c rule: reader_loop.induct)
  case (1 sd cod b c)
  show ?case
  proof (cases "try_parse_msg sd b")
    case Incomplete
    then show ?thesis using 1 by (subst (1 2 3 4 5 6) reader_loop.simps) (simp add: subs_ok_def all_open_def)
  next
    case Malformed
    then have "reader_loop sd cod b c = handle_disconnect ''parse error'' c\<lparr>dc_reader := None\<rparr>"
      by (subst reader_loop.simps) simp
    then show ?thesis using subs_ok_disconnect [OF "1.prems"(1)] by (simp add: comp_def)
  next
    case (Parsed v r)
    have eq: "reader_loop sd cod b c = reader_loop sd cod r (dispatch_msg sd cod v c)"
      using Parsed by (subst reader_loop.simps) simp
    have "map sb_taken (dc_subs (dispatch_msg sd cod v c)) = map sb_taken (dc_subs c)"
      "length (dc_subs (dispatch_msg sd cod v c)) = length (dc_subs c)"
      using dispatch_subs [of sd cod v c] by (auto simp: try_send_def comp_def)
    then show ?thesis unfolding eq using 1 Parsed dispatch_ok [OF "1.prems"] by simp
  qed
qed

section \<open>Handles\<close>

definition rest_initial :: "handle \<Rightarrow> bytes" where
  "rest_initial h = (case hd_initial h of Some d \<Rightarrow> d | None \<Rightarrow> [])"

definition handle_ok :: "sub list \<Rightarrow> handle \<Rightarrow> bool" where
  "handle_ok subs h \<longleftrightarrow> hd_sub h < length subs \<and>
     hd_read h @ rest_initial h = hd_snapshot h @ concat (sb_taken (subs ! hd_sub h))"

definition hinv :: "serde \<Rightarrow> codec \<Rightarrow> client \<Rightarrow> bool" where
  "hinv sd cod c \<longleftrightarrow> subs_ok sd cod c \<and> (dc_reader c \<noteq> None \<longrightarrow> all_open c) \<and>
     distinct (map hd_sub (dc_handles c)) \<and> (\<forall>h \<in> set (dc_handles c). handle_ok (dc_subs c) h) \<and>
     (\<forall>j < length (dc_subs c). j \<notin> set (map hd_sub (dc_handles c)) \<longrightarrow> map sb_taken (dc_subs c) ! j = [])"

lemma hinv_new: "hinv sd cod client_new"
  by (simp add: hinv_def client_new_def subs_ok_def all_open_def)

lemma hinv_cong:
  "hinv sd cod c \<Longrightarrow> dc_subs c' = dc_subs c \<Longrightarrow> dc_received c' = dc_received c \<Longrightarrow>
   dc_handles c' = dc_handles c \<Longrightarrow> dc_reader c' = dc_reader c \<Longrightarrow> hinv sd cod c'"
  by (simp add: hinv_def subs_ok_def all_open_def)

lemma handle_ok_taken:
  "handle_ok subs h \<Longrightarrow> map sb_taken subs' = map sb_taken subs \<Longrightarrow> handle_ok subs' h"
proof -
  assume h: "handle_ok subs h" and eq: "map sb_taken subs' = map sb_taken subs"
  have "length subs' = length subs" by (rule map_eq_imp_length_eq [OF eq])
  moreover have "sb_taken (subs' ! hd_sub h) = sb_taken (subs ! hd_sub h)"
    using h eq calculation by (metis handle_ok_def nth_map)
  ultimately show ?thesis using h by (simp add: handle_ok_def)
qed

lemma hinv_reader_step:
  assumes "hinv sd cod c"
  shows "hinv sd cod (reader_step sd cod m c)"
proof (cases "dc_reader c")
  case (Some b)
  then have ok: "subs_ok sd cod c" "all_open c" using assms by (auto simp: hinv_def)
  have "hinv sd cod (handle_disconnect reason c\<lparr>dc_reader := None\<rparr>)" for reason
    using assms subs_ok_disconnect [OF ok(1), where reason = reason and r = None]
      handle_ok_taken [of "dc_subs c" _ "map (\<lambda>s. s\<lparr>sb_open := False\<rparr>) (dc_subs c)"]
    by (simp add: hinv_def comp_def)
  moreover have "hinv sd cod (reader_loop sd cod x c)" for x
    using reader_loop_ok [OF ok, of x] assms handle_ok_taken [of "dc_subs c" _ "dc_subs (reader_loop sd cod x c)"]
    by (simp add: hinv_def)
  ultimately show ?thesis using Some assms by (simp add: reader_step_def split: channel_msg.split)
qed (use assms in \<open>simp add: reader_step_def\<close>)

text \<open>A poll moves the event position, and takes a chunk from the queue when it returns one.\<close>

definition polled :: "nat \<Rightarrow> client \<Rightarrow> client \<Rightarrow> poll \<Rightarrow> bool" where
  "polled i c c' r \<longleftrightarrow>
     (\<exists>p. dc_handles c' = (dc_handles c)[i := (dc_handles c ! i)\<lparr>hd_ev_pos := p\<rparr>]) \<and>
     dc_received c' = dc_received c \<and> dc_reader c' = dc_reader c \<and>
     (let j = hd_sub (dc_handles c ! i); s = dc_subs c ! j
      in case r of
           Ready (Some x) \<Rightarrow> \<exists>q. sb_queue s = x # q \<and>
             dc_subs c' = (dc_subs c)[j := s\<lparr>sb_queue := q, sb_taken := sb_taken s @ [x]\<rparr>]
         | _ \<Rightarrow> dc_subs c' = dc_subs c)"

lemma polled_read_poll:
  assumes "i < length (dc_handles c)"
  shows "polled i c (fst (read_poll b i c)) (snd (read_poll b i c))"
proof -
  have "\<exists>p. dc_handles c = (dc_handles c)[i := (dc_handles c ! i)\<lparr>hd_ev_pos := p\<rparr>]"
    by (rule exI [of _ "hd_ev_pos (dc_handles c ! i)"]) simp
  then show ?thesis
    by (auto simp: polled_def read_poll_def upd_handle_def Let_def split: branch.split list.split)
qed

lemma polled_trans:
  assumes "polled i c c1 Pending" "polled i c1 c2 r" "i < length (dc_handles c)"
  shows "polled i c c2 r"
proof -
  have same: "hd_sub (dc_handles c1 ! i) = hd_sub (dc_handles c ! i)" "dc_subs c1 = dc_subs c"
    "dc_received c1 = dc_received c" "dc_reader c1 = dc_reader c"
    using assms(1,3) by (auto simp: polled_def Let_def)
  obtain p where p: "dc_handles c1 = (dc_handles c)[i := (dc_handles c ! i)\<lparr>hd_ev_pos := p\<rparr>]"
    using assms(1) unfolding polled_def by blast
  obtain q where "dc_handles c2 = (dc_handles c1)[i := (dc_handles c1 ! i)\<lparr>hd_ev_pos := q\<rparr>]"
    using assms(2) unfolding polled_def by blast
  then have "dc_handles c2 = (dc_handles c)[i := (dc_handles c ! i)\<lparr>hd_ev_pos := q\<rparr>]"
    using p assms(3) by simp
  then show ?thesis using assms(2) unfolding polled_def Let_def same by blast
qed

lemma polled_read_select:
  "i < length (dc_handles c) \<Longrightarrow> polled i c (fst (read_select bs i c)) (snd (read_select bs i c))"
proof (induction bs i c rule: read_select.induct)
  case (1 i c)
  have "\<exists>p. dc_handles c = (dc_handles c)[i := (dc_handles c ! i)\<lparr>hd_ev_pos := p\<rparr>]"
    by (rule exI [of _ "hd_ev_pos (dc_handles c ! i)"]) simp
  then show ?case by (simp add: polled_def Let_def)
next
  case (2 b bs i c)
  obtain c1 r1 where p: "read_poll b i c = (c1, r1)" by (cases "read_poll b i c")
  have poll: "polled i c c1 r1" using polled_read_poll [OF 2(2), of b] p by simp
  show ?case
  proof (cases r1)
    case Pending
    have "i < length (dc_handles c1)" using poll 2(2) by (auto simp: polled_def)
    then show ?thesis using 2(1) [OF p [symmetric] Pending] polled_trans [OF poll [unfolded Pending]] 2(2) p Pending by simp
  next
    case (Ready x)
    then show ?thesis using poll p by simp
  qed
qed

lemma hinv_upd_handle:
  assumes "hinv sd cod c" "i < length (dc_handles c)" "hd_sub (f (dc_handles c ! i)) = hd_sub (dc_handles c ! i)"
    and "handle_ok (dc_subs c) (f (dc_handles c ! i))"
  shows "hinv sd cod (upd_handle i f c)"
proof -
  have "map hd_sub ((dc_handles c)[i := f (dc_handles c ! i)]) = map hd_sub (dc_handles c)"
    using assms(2,3) by (simp add: map_update list_update_same_conv)
  moreover have "handle_ok (dc_subs c) h" if "h \<in> set ((dc_handles c)[i := f (dc_handles c ! i)])" for h
    using set_update_subset_insert [of "dc_handles c"] that assms(1,4) by (fastforce simp: hinv_def)
  ultimately show ?thesis using assms(1) by (simp add: hinv_def upd_handle_def subs_ok_def all_open_def del: set_map)
qed

text \<open>The reads of one handle do not touch the queues of the others.\<close>

lemma hinv_polled:
  assumes "hinv sd cod c" "i < length (dc_handles c)" "polled i c c' r" "rest_initial (dc_handles c ! i) = []"
  shows "hinv sd cod (case r of Ready (Some d) \<Rightarrow> upd_handle i (\<lambda>h. h\<lparr>hd_read := hd_read h @ d\<rparr>) c' | _ \<Rightarrow> c')"
proof -
  let ?h = "dc_handles c ! i" and ?s = "dc_subs c ! hd_sub (dc_handles c ! i)"
  obtain p where hs: "dc_handles c' = (dc_handles c)[i := ?h\<lparr>hd_ev_pos := p\<rparr>]"
    and same: "dc_received c' = dc_received c" "dc_reader c' = dc_reader c"
    using assms(3) unfolding polled_def by blast
  have h: "handle_ok (dc_subs c) ?h" using assms(1,2) by (simp add: hinv_def)
  have pos: "hinv sd cod (upd_handle i (\<lambda>h. h\<lparr>hd_ev_pos := p\<rparr>) c)"
    by (rule hinv_upd_handle [OF assms(1,2)]) (use h in \<open>simp_all add: handle_ok_def rest_initial_def\<close>)
  show ?thesis
  proof (cases "\<exists>x. r = Ready (Some x)")
    case False
    then have "dc_subs c' = dc_subs c" using assms(3) by (auto simp: polled_def Let_def split: poll.splits option.splits)
    then have "hinv sd cod c'"
      using pos hs same by (simp add: hinv_def upd_handle_def subs_ok_def all_open_def)
    then show ?thesis using False by (auto split: poll.split option.split)
  next
    case True
    then obtain x q where r: "r = Ready (Some x)" and q: "sb_queue ?s = x # q"
      and subs: "dc_subs c' = (dc_subs c)[hd_sub ?h := ?s\<lparr>sb_queue := q, sb_taken := sb_taken ?s @ [x]\<rparr>]"
      using assms(3) by (auto simp: polled_def Let_def)
    have j: "hd_sub ?h < length (dc_subs c)" using h by (simp add: handle_ok_def)
    have "sub_ok sd cod (dc_received c) ?s" using assms(1) j by (simp add: hinv_def subs_ok_def)
    then have "subs_ok sd cod c'"
      using assms(1) set_update_subset_insert [of "dc_subs c"] q same
      by (fastforce simp: hinv_def subs_ok_def sub_ok_def subs)
    moreover have "all_open c'" if "all_open c"
      using that j set_update_subset_insert [of "dc_subs c"] by (fastforce simp: all_open_def subs)
    moreover define c2 where "c2 = upd_handle i (\<lambda>h. h\<lparr>hd_read := hd_read h @ x\<rparr>) c'"
    have len: "length (dc_handles c2) = length (dc_handles c)" by (simp add: c2_def upd_handle_def hs)
    have at: "dc_handles c2 ! k = (if k = i then ?h\<lparr>hd_ev_pos := p, hd_read := hd_read ?h @ x\<rparr> else dc_handles c ! k)"
      if "k < length (dc_handles c)" for k
      using that assms(2) by (simp add: c2_def upd_handle_def hs nth_list_update)
    have "map hd_sub (dc_handles c2) = map hd_sub (dc_handles c)"
      by (rule nth_equalityI) (simp_all add: len at)
    moreover have "handle_ok (dc_subs c2) (dc_handles c2 ! k)" if k: "k < length (dc_handles c)" for k
    proof (cases "k = i")
      case True
      then show ?thesis using h assms(4) at [OF k] j
        by (simp add: handle_ok_def c2_def upd_handle_def subs rest_initial_def)
    next
      case False
      have "hd_sub (dc_handles c ! k) \<noteq> hd_sub ?h"
        using False k assms(1,2) by (auto simp: hinv_def distinct_conv_nth)
      moreover have "handle_ok (dc_subs c) (dc_handles c ! k)" using assms(1) k by (simp add: hinv_def)
      ultimately show ?thesis using False at [OF k]
        by (simp add: handle_ok_def c2_def upd_handle_def subs)
    qed
    moreover have "map sb_taken (dc_subs c2) ! k = []"
      if k: "k < length (dc_subs c)" "k \<notin> set (map hd_sub (dc_handles c))" for k
    proof -
      have "k \<noteq> hd_sub ?h" using k(2) assms(2) by auto
      then show ?thesis using assms(1) k by (simp add: hinv_def c2_def upd_handle_def subs)
    qed
    ultimately have "hinv sd cod c2"
      using assms(1) same len subs unfolding hinv_def
      by (simp add: c2_def upd_handle_def subs_ok_def all_open_def all_set_conv_all_nth del: set_map)
    then show ?thesis by (simp add: r c2_def)
  qed
qed

lemma hinv_handle_read:
  assumes "hinv sd cod c" "i < length (dc_handles c)"
  shows "hinv sd cod (fst (handle_read bs i c))"
proof -
  let ?h = "dc_handles c ! i" and ?c = "upd_handle i (\<lambda>h. h\<lparr>hd_initial := None\<rparr>) c"
  have h: "handle_ok (dc_subs c) ?h" using assms by (simp add: hinv_def)
  show ?thesis
  proof (cases "rest_initial ?h = []")
    case True
    have inv: "hinv sd cod ?c"
      by (rule hinv_upd_handle [OF assms]) (use h True in \<open>simp_all add: handle_ok_def rest_initial_def\<close>)
    have i: "i < length (dc_handles ?c)" "rest_initial (dc_handles ?c ! i) = []"
      using assms(2) by (simp_all add: upd_handle_def rest_initial_def)
    obtain c' r where sel: "read_select bs i ?c = (c', r)" by (cases "read_select bs i ?c")
    have "hinv sd cod (case r of Ready (Some d) \<Rightarrow> upd_handle i (\<lambda>h. h\<lparr>hd_read := hd_read h @ d\<rparr>) c' | _ \<Rightarrow> c')"
      using hinv_polled [OF inv i(1) _ i(2), of c' r] polled_read_select [OF i(1), of bs] sel by simp
    moreover have "fst (handle_read bs i c) =
        (case r of Ready (Some d) \<Rightarrow> upd_handle i (\<lambda>h. h\<lparr>hd_read := hd_read h @ d\<rparr>) c' | _ \<Rightarrow> c')"
      using True by (auto simp: handle_read_def rest_initial_def sel Let_def split: option.splits)
    ultimately show ?thesis by simp
  next
    case False
    then obtain d where d: "hd_initial ?h = Some d" "d \<noteq> []" by (auto simp: rest_initial_def split: option.splits)
    have "fst (handle_read bs i c) = upd_handle i (\<lambda>h. h\<lparr>hd_initial := None, hd_read := hd_read h @ d\<rparr>) c"
      using d assms(2) by (simp add: handle_read_def upd_handle_def Let_def)
    then show ?thesis
      using hinv_upd_handle [OF assms, of "\<lambda>h. h\<lparr>hd_initial := None, hd_read := hd_read h @ d\<rparr>"] h d
      by (simp add: handle_ok_def rest_initial_def)
  qed
qed

lemma hinv_step:
  assumes "hinv sd cod c" "cexec sd cod l c = Some c'"
  shows "hinv sd cod c'"
proof (cases l)
  case (Arrive m)
  then show ?thesis using assms hinv_reader_step by auto
next
  case SubscribeData
  then show ?thesis using assms
    by (auto simp: subscribe_pty_data_def hinv_def subs_ok_def all_open_def sub_ok_def handle_ok_def nth_append
        less_Suc_eq)
next
  case (NewHandle remote_id sub initial)
  then have sub: "sub < length (dc_subs c)" "sub \<notin> hd_sub ` set (dc_handles c)"
    and c': "c' = handle_new remote_id sub initial c" using assms(2) by (auto split: if_splits)
  moreover have "sb_taken (dc_subs c ! sub) = []" using assms(1) sub by (simp add: hinv_def)
  ultimately show ?thesis using assms(1)
    by (auto simp: hinv_def c' handle_new_def subs_ok_def all_open_def handle_ok_def rest_initial_def)
next
  case (ReadHandle i bs)
  then show ?thesis using assms hinv_handle_read by (auto split: if_splits)
next
  case (EndHandle meth i)
  then have "i < length (dc_handles c)" "c' = upd_handle i (\<lambda>h. h\<lparr>hd_closed := True\<rparr>) c"
    using assms(2) by (auto simp: handle_end_def Let_def split: if_splits)
  then show ?thesis
    using hinv_upd_handle [OF assms(1), of i "\<lambda>h. h\<lparr>hd_closed := True\<rparr>"] assms(1)
    by (simp add: hinv_def handle_ok_def rest_initial_def)
qed (use assms(2) in \<open>auto intro!: hinv_cong [OF assms(1)] simp: call_start_def call_register_def call_write_def call_receive_def
      call_timeout_def call_dropped_def upd_call_def Let_def split: if_splits\<close>)

lemma hinv_run: "cexecs sd cod ls client_new = Some c \<Longrightarrow> hinv sd cod c"
  by (erule cexecs_induct) (auto intro: hinv_new hinv_step)

lemma handle_output:
  assumes "hinv sd cod c" "i < length (dc_handles c)"
    and "h = dc_handles c ! i" "s = dc_subs c ! hd_sub h" "sb_dropped s = 0"
  shows "hd_read h @ rest_initial h @ concat (sb_queue s) =
    hd_snapshot h @ concat (map (msg_bytes sd cod) (drop (sb_from s) (dc_received c)))"
proof -
  have h: "handle_ok (dc_subs c) h" using assms(1-3) by (simp add: hinv_def)
  then have "s \<in> set (dc_subs c)" by (simp add: handle_ok_def assms(4))
  then have "sub_ok sd cod (dc_received c) s" using assms(1) by (simp add: hinv_def subs_ok_def)
  then have "concat (map (msg_bytes sd cod) (drop (sb_from s) (dc_received c))) = concat (sb_taken s) @ concat (sb_queue s)"
    using assms(5) by (simp add: sub_ok_def)
  moreover have "hd_read h @ rest_initial h = hd_snapshot h @ concat (sb_taken s)"
    using h by (simp add: handle_ok_def assms(4))
  ultimately show ?thesis by (metis append.assoc)
qed

section \<open>From the remote terminal to the reads of the handle\<close>

text \<open>The events among the messages of a channel.\<close>

definition events_of :: "serde \<Rightarrow> json list \<Rightarrow> event list" where
  "events_of sd ms =
     List.map_filter (\<lambda>v. if jget v ''id'' = None \<and> jget v ''event'' \<noteq> None then sd_event sd v else None) ms"

definition plain_event :: "event \<Rightarrow> bool" where
  "plain_event e \<longleftrightarrow> e_event e = ''pty_data'' \<or> e_data e = None"

lemma plain_pump_step:
  "\<forall>e \<in> set (pm_sent p). plain_event e \<Longrightarrow> \<forall>e \<in> set (pm_sent (pump_step cod conn_open m p)). plain_event e"
  by (auto simp: pump_step_def pump_finish_def terminal_event_def plain_event_def pty_data_def session_lost_def
      pty_exit_def pty_exit_unknown_def Let_def split: pump_pc.split dstate.split option.split terminal_info.split)

lemma plain_events_run:
  assumes "dexecs cod ls daemon_start = Some d" "p \<in> set (dm_pumps d)"
  shows "\<forall>e \<in> set (pm_sent p). plain_event e"
proof -
  have "\<forall>p \<in> set (dm_pumps d). \<forall>e \<in> set (pm_sent p). plain_event e"
    using assms(1)
  proof (induction rule: dexecs_induct)
    case start
    then show ?case by (simp add: daemon_start_def)
  next
    case (step l d d')
    show ?case
    proof (cases l)
      case (PumpStep i)
      then have i: "i < length (dm_pumps d)" and d': "dm_pumps d' =
          (dm_pumps d)[i := pump_step cod (dm_conns d (pm_conn (dm_pumps d ! i)) \<noteq> None) (dm_mgr d) (dm_pumps d ! i)]"
        using step(2) by (auto simp: Let_def split: if_splits)
      have "\<forall>e \<in> set (pm_sent (pump_step cod b (dm_mgr d) (dm_pumps d ! i))). plain_event e" for b
        using plain_pump_step step(1) i by (meson nth_mem)
      then show ?thesis
        using step(1) set_update_subset_insert [of "dm_pumps d" i] by (fastforce simp: d')
    qed (use step in \<open>auto simp: serve_request_def pump_new_def split: if_splits option.splits prod.splits\<close>)
  qed
  then show ?thesis using assms(2) by blast
qed

lemma concat_msg_bytes:
  "\<forall>e \<in> set (events_of sd ms). plain_event e \<Longrightarrow>
   concat (map (msg_bytes sd cod) ms) = concat (map (event_bytes cod) (events_of sd ms))"
  by (induction ms) (auto simp: events_of_def map_filter_simps msg_bytes_def plain_event_def event_bytes_def
      split: option.splits)

lemma prefix_concat_map: "prefix xs ys \<Longrightarrow> prefix (concat (map f xs)) (concat (map f ys))"
  by (auto simp: prefix_def)

section \<open>A small run\<close>

definition demo_reads :: "clabel list" where
  "demo_reads = [SubscribeData, NewHandle ''sess_0000002a'' 0 None, Arrive (ChData [0, 0, 0, 1]),
     Arrive (ChData [0x32]), ReadHandle 0 [EventBranch, DataBranch]]"

lemma demo_reads_result:
  "\<exists>c h s. cexecs demo_serde demo_codec demo_reads client_new = Some c \<and> dc_handles c = [h] \<and> hd_sub h = 0 \<and>
     dc_subs c = [s] \<and> sb_dropped s = 0 \<and> hd_snapshot h = [] \<and> hd_read h = [0x78] \<and> rest_initial h = [] \<and> sb_queue s = [] \<and>
     events_of demo_serde (drop (sb_from s) (dc_received c)) = [demo_event]"
  by (simp add: demo_reads_def client_eval demo_serde_def demo_event_def pty_data_def demo_codec_def try_send_def
      PTY_DATA_QUEUE_def handle_read_def read_poll_def upd_handle_def rest_initial_def events_of_def map_filter_simps)

lemma demo_run_sent:
  "\<exists>d p. dexecs demo_codec demo_run daemon_start = Some d \<and> dm_pumps d = [p] \<and> pm_start p = 0 \<and> pm_addr p = 0 \<and>
     sent_untruncated p \<and> pm_sent p = [demo_event] \<and> dm_streams d = [[0x78]]"
proof -
  have rep: "represents (rb_write (agentd_new 0) [0x78]) [0x78]"
    using represents_write [OF represents_agentd_new, of 0 "[0x78]"] by simp
  have "0 < rb_size (rb_write (agentd_new 0) [0x78])" using represents_wf [OF rep] by (simp add: ring_wf_def)
  then have "ar_cursor_start (agentd_read_since (rb_write (agentd_new 0) [0x78]) 0) = 0"
    using represents_written [OF rep] by (simp add: agentd_read_since_def earliest_def Let_def)
  then show ?thesis
    by (simp add: demo_run_def run_eval demo_read sent_untruncated_def demo_event_def pty_data_def)
qed

section \<open>What a handle delivers\<close>

text \<open>
  What the reads of a handle have returned, followed by what it still holds, is the snapshot of the
  attach response followed by the output of every event received since the subscription: in order,
  nothing lost and nothing twice, as long as the handle's queue was never full.
\<close>

lemma handle_reads_in_order:
  assumes "cexecs sd cod ls client_new = Some c" "i < length (dc_handles c)"
    and "h = dc_handles c ! i" "s = dc_subs c ! hd_sub h" "sb_dropped s = 0"
  shows "hd_read h @ rest_initial h @ concat (sb_queue s) =
    hd_snapshot h @ concat (map (msg_bytes sd cod) (drop (sb_from s) (dc_received c)))"
  by (rule handle_output [OF hinv_run [OF assms(1)] assms(2-5)])

section \<open>End to end\<close>

text \<open>
  (C2) A persistent session end to end.  Let an event pump of the daemon have sent its events untruncated,
  let the events the client received since it subscribed be the first of those, and let its handle
  have started with the output before the pump's cursor, which is what the attach response carries.
  Let moreover no chunk have been dropped at the handle's queue: the subscriber's channel holds 256 chunks, and one that arrives while it
  is full is dropped without a trace.  Then the bytes the handle's reads returned are the first bytes the remote terminal ever wrote.
\<close>

theorem persistent_session_delivers_output:
  assumes "\<And>x. b64_decode cod (b64_encode cod x) = Inr x"
    and "dexecs cod dls daemon_start = Some d" "p \<in> set (dm_pumps d)" "sent_untruncated p"
    and "cexecs sd cod cls client_new = Some c" "i < length (dc_handles c)"
    and "h = dc_handles c ! i" "s = dc_subs c ! hd_sub h" "sb_dropped s = 0"
    and "prefix (events_of sd (drop (sb_from s) (dc_received c))) (pm_sent p)"
    and "hd_snapshot h = take (pm_start p) (dm_streams d ! pm_addr p)"
  shows "prefix (hd_read h) (dm_streams d ! pm_addr p)"
proof -
  let ?str = "dm_streams d ! pm_addr p" and ?ms = "drop (sb_from s) (dc_received c)"
  have "pump_ok cod (obj (dm_mgr d) (pm_addr p)) ?str p"
    using dinv_run [OF assms(1,2)] assms(3) unfolding dinv_def by blast
  then have sent: "concat (map (event_bytes cod) (pm_sent p)) = take (pm_last_sent p - pm_start p) (drop (pm_start p) ?str)"
    and le: "pm_start p \<le> pm_last_sent p" using assms(4) by (auto simp: pump_ok_def)
  have "\<forall>e \<in> set (events_of sd ?ms). plain_event e"
    using plain_events_run [OF assms(2,3)] set_mono_prefix [OF assms(10)] by blast
  then have "concat (map (msg_bytes sd cod) ?ms) = concat (map (event_bytes cod) (events_of sd ?ms))"
    by (rule concat_msg_bytes)
  then have "prefix (concat (map (msg_bytes sd cod) ?ms)) (take (pm_last_sent p - pm_start p) (drop (pm_start p) ?str))"
    using prefix_concat_map [OF assms(10), of "event_bytes cod"] sent by simp
  then have "prefix (hd_snapshot h @ concat (map (msg_bytes sd cod) ?ms))
      (take (pm_start p) ?str @ take (pm_last_sent p - pm_start p) (drop (pm_start p) ?str))"
    by (simp add: assms(11))
  also have "take (pm_start p) ?str @ take (pm_last_sent p - pm_start p) (drop (pm_start p) ?str) = take (pm_last_sent p) ?str"
    using le by (metis le_add_diff_inverse take_add)
  finally have "prefix (hd_read h @ rest_initial h @ concat (sb_queue s)) ?str"
    using handle_output [OF hinv_run [OF assms(5)] assms(6-9)] take_is_prefix prefix_order.trans by metis
  then show ?thesis by (metis append_prefixD)
qed

theorem persistent_session_delivers_output_witness:
  "\<exists>d p c h. dexecs demo_codec demo_run daemon_start = Some d \<and> dm_pumps d = [p] \<and>
     cexecs demo_serde demo_codec demo_reads client_new = Some c \<and> dc_handles c = [h] \<and>
     hd_read h = [0x78] \<and> prefix (hd_read h) (dm_streams d ! pm_addr p)"
proof -
  obtain d p where d: "dexecs demo_codec demo_run daemon_start = Some d" "dm_pumps d = [p]" "pm_start p = 0"
    "pm_addr p = 0" "sent_untruncated p" "pm_sent p = [demo_event]" using demo_run_sent by blast
  obtain c h s where c: "cexecs demo_serde demo_codec demo_reads client_new = Some c" "dc_handles c = [h]" "hd_sub h = 0"
    "dc_subs c = [s]" "sb_dropped s = 0" "hd_snapshot h = []" "hd_read h = [0x78]"
    "events_of demo_serde (drop (sb_from s) (dc_received c)) = [demo_event]"
    using demo_reads_result by blast
  have p: "p \<in> set (dm_pumps d)" "0 < length (dc_handles c)" "h = dc_handles c ! 0" "s = dc_subs c ! hd_sub h"
    "prefix (events_of demo_serde (drop (sb_from s) (dc_received c))) (pm_sent p)"
    "hd_snapshot h = take (pm_start p) (dm_streams d ! pm_addr p)"
    using d c by simp_all
  have "prefix (hd_read h) (dm_streams d ! pm_addr p)"
    by (rule persistent_session_delivers_output [OF demo_codec_law d(1) p(1) d(5) c(1) p(2-4) c(5) p(5,6)])
  note pre = this
  show ?thesis
    by (rule exI [where x = d], rule exI [where x = p], rule exI [where x = c], rule exI [where x = h])
      (intro conjI d(1,2) c(1,2,7) pre)
qed

end
