(* ===== verification/Client_Daemon.thy ===== *)
theory Client_Daemon
  imports Persistent_Output
begin

text \<open>
  The client and the daemon on the same request: what each method of \<open>DaemonClient\<close> sends is
  what the daemon's dispatch reads, and what the daemon answers is what the client returns.  One
  method does not agree: the names of the control keys.
\<close>

section \<open>Requests\<close>

definition rpc ::
  "codec \<Rightarrow> world \<Rightarrow> manager \<Rightarrow> string list \<Rightarrow> u64 \<Rightarrow> string \<Rightarrow> json \<Rightarrow> manager \<times> string list \<times> json result" where
  "rpc cod w m attached i meth params =
     (let (m', attached', resp, _) = dispatch cod w m attached \<lparr>rq_id = i, rq_method = meth, rq_params = params\<rparr>
      in (m', attached', response_result resp))"

text \<open>A unit result of the daemon as the client sees it: an empty object, or the error's message.\<close>

definition remote_result :: "('a \<Rightarrow> json) \<Rightarrow> session_error + 'a \<Rightarrow> json result" where
  "remote_result f r = (case r of Inl e \<Rightarrow> Inl (ChannelError (session_error_text e)) | Inr x \<Rightarrow> Inr (f x))"

lemma response_result_simps [simp]:
  "response_result (ok_response i v) = Inr v"
  "response_result (err_response i c msg) = Inl (ChannelError msg)"
  "response_result (session_err_to_response i e) = Inl (ChannelError (session_error_text e))"
  by (cases e; simp add: response_result_def ok_response_def err_response_def)+

lemma unit_response_result [simp]: "response_result (unit_response i r) = remote_result (\<lambda>_. JObj []) r"
  by (simp add: unit_response_def remote_result_def split: sum.split)

lemma ucast_u16 [simp]: "(ucast (ucast (x :: u16) :: u64) :: u16) = x"
  by (rule bit_word_eqI) (auto simp: bit_simps)

lemmas params_eval = rpc_def dispatch_def plain_def plain_attached_def get_str_def get_u64_def opt_str_def Let_def

lemma rpc_send_input:
  assumes "b64_decode cod (b64_encode cod data) = Inr data"
  shows "rpc cod w m attached i ''session.send_input'' (input_params cod sid data) =
    (let (m', r) = send_input w m sid data in (m', attached, remote_result (\<lambda>_. JObj []) r))"
  using assms by (simp add: params_eval input_params_def do_send_input_def split: prod.split)

lemma rpc_resize:
  "rpc cod w m attached i ''session.resize'' (resize_params sid r c) =
    (let (m', res) = resize w m sid r c in (m', attached, remote_result (\<lambda>_. JObj []) res))"
  by (simp add: params_eval resize_params_def do_resize_def split: prod.split)

lemma rpc_close:
  "rpc cod w m attached i ''session.close'' (id_params sid) =
    (let (m', r) = close m sid
     in (m', if isl r then attached else filter (\<lambda>s. s \<noteq> sid) attached, remote_result (\<lambda>_. JObj []) r))"
  by (simp add: params_eval id_params_def do_close_def split: prod.split)

lemma rpc_detach:
  "rpc cod w m attached i ''session.detach'' (id_params sid) =
    (let (m', r) = detach m sid
     in (m', if isl r then attached else filter (\<lambda>s. s \<noteq> sid) attached, remote_result (\<lambda>_. JObj []) r))"
  by (simp add: params_eval id_params_def do_detach_def split: prod.split)

lemma rpc_read_output:
  assumes "since < 2 ^ 64"
  shows "rpc cod w m attached i ''session.read_output'' (since_params sid since) =
    (m, attached, remote_result (read_json cod) (read_output m sid since))"
proof -
  have "unat (of_nat since :: u64) = since" using assms by (simp add: unat_of_nat)
  then show ?thesis
    by (simp add: params_eval since_params_def do_read_output_def remote_result_def split: sum.split)
qed

lemma rpc_attach:
  assumes "since < 2 ^ 64"
  shows "rpc cod w m attached i ''session.attach'' (since_params sid since) =
    (let (m', r) = attach m sid since
     in (m', if isl r then attached else attached @ [sid], remote_result (read_json cod) r))"
proof -
  have "unat (of_nat since :: u64) = since" using assms by (simp add: unat_of_nat)
  moreover have "snd (attach m sid since) = Inr r \<Longrightarrow> get_session (fst (attach m sid since)) sid \<noteq> None" for r
    by (auto simp: attach_def Let_def split: option.splits dstate.splits)
  ultimately show ?thesis
    by (cases "snd (attach m sid since)")
      (auto simp: params_eval since_params_def do_attach_def remote_result_def case_prod_beta split: option.split sum.split)
qed

definition created_json :: "string \<Rightarrow> json" where
  "created_json sid = JObj [(''session_id'', JStr sid), (''written'', JU64 0)]"

lemma rpc_create:
  "rpc cod w m attached i ''session.create'' (create_params shell cwd sz name) =
    (let (m', r) = create w m shell cwd sz name in (m', attached, remote_result created_json r))"
proof -
  have eq: "\<lparr>rows = rows sz, cols = cols sz\<rparr> = sz" by (cases sz) simp
  show ?thesis
    by (cases name; cases cwd)
      (simp_all add: eq params_eval create_params_def do_create_def remote_result_def created_json_def split: prod.split sum.split)
qed

lemma create_result_ok: "create_result (JObj [(''session_id'', JStr sid), (''written'', JU64 0)]) = Inr sid"
  by (simp add: create_result_def get_str_def)

text \<open>
  (C9) A remote call is the daemon's operation.  Through the client's encoding of the parameters, the
  daemon's dispatch and the client's reading of the response, creating a session (with its shell, directory, size and name), attaching to it,
  writing to it, resizing, reading, closing and detaching have the effect and the result of the daemon's own
  operation on the same arguments, down to the bytes queued for the terminal and the error's text.  The base64 crate is assumed to decode what it encoded.
\<close>

theorem remote_call_is_operation:
  assumes "\<And>x. b64_decode cod (b64_encode cod x) = Inr x" and "since < 2 ^ 64"
  shows "rpc cod w m attached i ''session.create'' (create_params shell cwd sz name) =
      (let (m', r) = create w m shell cwd sz name in (m', attached, remote_result created_json r)) \<and>
    rpc cod w m attached i ''session.attach'' (since_params sid since) =
      (let (m', r) = attach m sid since
       in (m', if isl r then attached else attached @ [sid], remote_result (read_json cod) r)) \<and>
    rpc cod w m attached i ''session.send_input'' (input_params cod sid data) =
      (let (m', r) = send_input w m sid data in (m', attached, remote_result (\<lambda>_. JObj []) r)) \<and>
    rpc cod w m attached i ''session.resize'' (resize_params sid r c) =
      (let (m', res) = resize w m sid r c in (m', attached, remote_result (\<lambda>_. JObj []) res)) \<and>
    rpc cod w m attached i ''session.read_output'' (since_params sid since) =
      (m, attached, remote_result (read_json cod) (read_output m sid since)) \<and>
    rpc cod w m attached i ''session.close'' (id_params sid) =
      (let (m', r) = close m sid
       in (m', if isl r then attached else filter (\<lambda>s. s \<noteq> sid) attached, remote_result (\<lambda>_. JObj []) r)) \<and>
    rpc cod w m attached i ''session.detach'' (id_params sid) =
      (let (m', r) = detach m sid
       in (m', if isl r then attached else filter (\<lambda>s. s \<noteq> sid) attached, remote_result (\<lambda>_. JObj []) r))"
  unfolding rpc_create rpc_attach [OF assms(2)] rpc_send_input [OF assms(1)] rpc_resize rpc_read_output [OF assms(2)] rpc_close
    rpc_detach
  by simp

text \<open>A daemon with one session, for the witnesses.\<close>

definition demo_manager :: manager where
  "demo_manager = fst (create demo_world manager_new ''/bin/sh'' None default_pty_size None)"

lemma demo_manager_session:
  "Agentd.get_session demo_manager ''sess_0000002a'' = Some 0" "length (mg_objs demo_manager) = 1"
  "ds_state (obj demo_manager 0) = Created" "ds_input (obj demo_manager 0) = []"
  by (simp_all add: demo_manager_def create_def demo_world_def manager_new_def Agentd.get_session_def obj_def Let_def)

theorem remote_call_is_operation_witness:
  "\<exists>m'. rpc demo_codec demo_world demo_manager [] 7 ''session.send_input'' (input_params demo_codec ''sess_0000002a'' [0x6C, 0x73]) =
     (m', [], Inr (JObj [])) \<and> ds_input (obj m' 0) = [0x6C, 0x73]"
proof -
  have ok: "send_input demo_world demo_manager ''sess_0000002a'' [0x6C, 0x73] =
      (set_obj 0 ((obj demo_manager 0)\<lparr>ds_input := [0x6C, 0x73], ds_last_activity_at := 0\<rparr>) demo_manager, Inr ())"
    by (simp add: send_input_def demo_manager_session ensure_alive_def demo_world_def)
  show ?thesis
    using remote_call_is_operation [of demo_codec 0 demo_world demo_manager "[]" 7 "[]" None default_pty_size None "''sess_0000002a''"
        "[0x6C, 0x73]" 1 1]
    by (simp add: demo_codec_law ok remote_result_def obj_set_obj demo_manager_session)
qed

section \<open>Control keys\<close>

text \<open>
  The client writes the keys Ctrl+C, Ctrl+D and Ctrl+Z under names the daemon does not know, so on a
  persistent session they are refused and never reach the terminal; the other keys are sent.
\<close>

lemma control_keys_disagree:
  "rpc cod w m attached i ''session.send_control'' (control_params sid k) =
   (if k = CtrlC \<or> k = CtrlD \<or> k = CtrlZ then (m, attached, Inl (ChannelError (proto_control k)))
    else (let (m', r) = send_control w m sid k in (m', attached, remote_result (\<lambda>_. JObj []) r)))"
  by (cases k) (simp_all add: params_eval control_params_def do_send_control_def control_of_def split: prod.split)

section \<open>The handshake and the snapshot\<close>

text \<open>Client and daemon of the same version accept each other.\<close>

lemma handshake_agrees:
  "hello daemon_id \<lparr>rq_id = i, rq_method = ''hello'', rq_params = hello_params\<rparr> = (resp, go) \<Longrightarrow>
   go \<and> (\<exists>v. response_result resp = Inr v \<and> hello_result v = Inr BUILD_VERSION)"
  by (auto simp: hello_def hello_params_def hello_result_def get_u64_def get_str_def PROTOCOL_VERSION_def Let_def)

text \<open>
  The response to an attach at cursor 0 carries, if it is not truncated, the whole output so far, and
  the pump it starts begins there: what the end-to-end property asks of a handle's snapshot.
\<close>

lemma attach_snapshot:
  assumes "\<And>x. b64_decode cod (b64_encode cod x) = Inr x" "dinv cod d"
    and "dispatch cod w (dm_mgr d) attached \<lparr>rq_id = i, rq_method = ''session.attach'', rq_params = since_params sid 0\<rparr>
      = (m', attached', resp, Some pa)"
    and "response_result resp = Inr v" "jget v ''is_truncated'' = Some (JBool False)"
  shows "\<exists>t. get_str v ''data'' = Some t \<and> b64_decode cod t = Inr (dm_streams d ! pa_addr pa) \<and>
    pa_cursor_end pa = length (dm_streams d ! pa_addr pa)"
proof -
  obtain a r where a: "get_session (dm_mgr d) sid = Some a" and r: "r = agentd_read_since (ds_buffer (obj (dm_mgr d) a)) 0"
    and v: "v = read_json cod r" and pa: "pa_addr pa = a" "pa_cursor_end pa = ar_cursor_end r"
    using assms(3,4)
    by (auto simp: dispatch_def plain_def plain_attached_def do_attach_def attach_def since_params_def get_str_def
        get_u64_def Agentd.get_session_def set_obj_def Let_def
        split: option.splits dstate.splits sum.splits prod.splits)
  have wf: "mgr_wf (dm_mgr d)" using assms(2) by (simp add: dinv_def)
  have "a < length (dm_streams d)" using get_session_bound [OF wf a] assms(2) by (simp add: dinv_def)
  then have rep: "represents (ds_buffer (obj (dm_mgr d) a)) (dm_streams d ! a)" using assms(2) by (simp add: dinv_def)
  have "\<not> 0 < length (dm_streams d ! a) - rb_size (ds_buffer (obj (dm_mgr d) a))"
    using assms(5) agentd_read_since_refines(3) [OF rep, of 0] by (simp add: v r read_json_def)
  then show ?thesis
    using agentd_read_since_refines(1,2) [OF rep, of 0] assms(1) by (simp add: v pa r read_json_def get_str_def)
qed

text \<open>A version congruent to the client's modulo \<open>2 ^ 32\<close> is accepted as well.\<close>

lemma hello_result_truncates:
  "hello_result (JObj [(''daemon_protocol_version'', JU64 0x100000001)]) = Inr ''?''"
  by (simp add: hello_result_def get_u64_def get_str_def PROTOCOL_VERSION_def Let_def)

end
