(* ===== verification/Decimal.thy ===== *)
theory Decimal
  imports Text
begin

text \<open>
  Decimal numbers: what \<open>format!("{n}")\<close> prints and what \<open>parse::<uN>()\<close> reads back.
\<close>

fun dec :: "nat \<Rightarrow> string" where
  "dec n = (if n < 10 then [char_of (48 + n)] else dec (n div 10) @ [char_of (48 + n mod 10)])"

declare dec.simps [simp del]

definition is_digit :: "char \<Rightarrow> bool" where
  "is_digit c \<longleftrightarrow> 48 \<le> code c \<and> code c \<le> 57"

definition undec :: "string \<Rightarrow> nat" where
  "undec s = foldl (\<lambda>n c. 10 * n + (of_char c - 48)) 0 s"

text \<open>\<open>s.parse::<uN>().ok()\<close> with the largest value \<open>m\<close>: an optional plus sign and at
  least one digit.\<close>

definition parse_unsigned :: "nat \<Rightarrow> string \<Rightarrow> nat option" where
  "parse_unsigned m s =
     (let ds = (case s of c # r \<Rightarrow> if c = CHR ''+'' \<and> r \<noteq> [] then r else s | [] \<Rightarrow> s)
      in if ds \<noteq> [] \<and> list_all is_digit ds \<and> undec ds \<le> m then Some (undec ds) else None)"

lemma undec_dec: "undec (dec n) = n"
proof (induction n rule: dec.induct)
  case (1 n)
  have digit: "of_char (char_of (48 + k) :: char) - 48 = k" if "k < 10" for k :: nat
    using that by (simp add: of_char_of)
  show ?case
  proof (cases "n < 10")
    case True
    then show ?thesis using digit [OF True] by (subst dec.simps) (simp add: undec_def)
  next
    case False
    have "undec (dec n) = 10 * undec (dec (n div 10)) + n mod 10"
      using False digit [of "n mod 10"] by (subst dec.simps) (simp add: undec_def)
    then show ?thesis using 1 False by simp
  qed
qed

lemma dec_inject [simp]: "dec m = dec n \<longleftrightarrow> m = n"
  by (metis undec_dec)

lemma is_digit_char_of: "k < 10 \<Longrightarrow> is_digit (char_of (48 + k :: nat))"
  by (simp add: is_digit_def of_char_of)

lemma dec_digits [simp]: "list_all is_digit (dec n)" "dec n \<noteq> []"
proof (induction n rule: dec.induct)
  case (1 n)
  {
    case 1
    show ?case using "1.IH"(1) is_digit_char_of [of n] is_digit_char_of [of "n mod 10"]
      by (subst dec.simps) simp
  next
    case 2
    show ?case by (subst dec.simps) simp
  }
qed

lemma parse_unsigned_dec: "n \<le> m \<Longrightarrow> parse_unsigned m (dec n) = Some n"
proof -
  assume n: "n \<le> m"
  have "hd (dec n) \<noteq> CHR ''+''"
    using dec_digits [of n] by (cases "dec n") (auto simp: is_digit_def)
  then have "(case dec n of c # r \<Rightarrow> if c = CHR ''+'' \<and> r \<noteq> [] then r else dec n | [] \<Rightarrow> dec n) = dec n"
    by (cases "dec n") auto
  then show ?thesis using n by (simp add: parse_unsigned_def undec_dec)
qed

lemma parse_unsigned_bound: "parse_unsigned m s = Some n \<Longrightarrow> n \<le> m"
  by (auto simp: parse_unsigned_def Let_def split: if_splits)

lemma parse_unsigned_digit:
  "parse_unsigned m s = Some n \<Longrightarrow> c \<in> set s \<Longrightarrow> is_digit c \<or> c = CHR ''+''"
  by (auto simp: parse_unsigned_def Let_def list_all_iff split: if_splits list.splits)

end
