(* ===== verification/Actions.thy ===== *)
theory Actions
  imports Provider
begin

text \<open>
  Programs that act on the world.  A program is a function of the actions taken so far that returns
  the actions taken after it and its result; what the world answers to an action is an argument of the
  components' definitions and may depend on every action before.
\<close>

section \<open>Programs\<close>

type_synonym ('a, 'x) prog = "'a list \<Rightarrow> 'a list \<times> 'x result"

definition ret :: "'x result \<Rightarrow> ('a, 'x) prog" where
  "ret r l = (l, r)"

definition act :: "'a \<Rightarrow> ('a list \<Rightarrow> 'x result) \<Rightarrow> ('a, 'x) prog" where
  "act a answer l = (l @ [a], answer l)"

text \<open>The world may also be asked with the action it answers at the end of the history.\<close>

definition ask :: "'a \<Rightarrow> ('a list \<Rightarrow> 'x result) \<Rightarrow> ('a, 'x) prog" where
  "ask a answer = act a (\<lambda>l. answer (l @ [a]))"

text \<open>The operator \<open>?\<close>: an error ends the program.\<close>

definition rbind :: "('a, 'x) prog \<Rightarrow> ('x \<Rightarrow> ('a, 'y) prog) \<Rightarrow> ('a, 'y) prog" where
  "rbind m f l = (case m l of (l', Inl e) \<Rightarrow> (l', Inl e) | (l', Inr x) \<Rightarrow> f x l')"

text \<open>A \<open>match\<close> on the result, and a result that is ignored.\<close>

definition rcase :: "('a, 'x) prog \<Rightarrow> (term_error \<Rightarrow> ('a, 'y) prog) \<Rightarrow> ('x \<Rightarrow> ('a, 'y) prog) \<Rightarrow> ('a, 'y) prog" where
  "rcase m f g l = (case m l of (l', Inl e) \<Rightarrow> f e l' | (l', Inr x) \<Rightarrow> g x l')"

definition rignore :: "('a, 'x) prog \<Rightarrow> ('a, 'y) prog \<Rightarrow> ('a, 'y) prog" where
  "rignore m k l = k (fst (m l))"

text \<open>
  A program cut off by a time limit: \<open>limit\<close> says after how many of its actions the time is up,
  if it is before the result.
\<close>

definition within :: "('a list \<Rightarrow> nat option) \<Rightarrow> term_error \<Rightarrow> ('a, 'x) prog \<Rightarrow> ('a, 'x) prog" where
  "within limit e m l =
     (case limit l of
        None \<Rightarrow> m l
      | Some k \<Rightarrow> (take (length l + k) (fst (m l)), Inl e))"

lemma rbind_ok: "m l = (l', Inr x) \<Longrightarrow> rbind m f l = f x l'"
  by (simp add: rbind_def)

lemma rbind_Inr:
  "rbind m f l = (l', Inr y) \<longleftrightarrow> (\<exists>l1 x. m l = (l1, Inr x) \<and> f x l1 = (l', Inr y))"
  by (auto simp: rbind_def split: prod.splits sum.splits)

section \<open>The actions of a program\<close>

text \<open>Whatever a program does is appended to the history and satisfies \<open>P\<close>.\<close>

definition acts_in :: "('a \<Rightarrow> bool) \<Rightarrow> ('a, 'x) prog \<Rightarrow> bool" where
  "acts_in P m \<longleftrightarrow> (\<forall>l. \<exists>xs. fst (m l) = l @ xs \<and> list_all P xs)"

named_theorems acts_intros \<open>introduction rules of \<open>acts_in\<close>\<close>

lemma acts_in_ret [acts_intros]: "acts_in P (ret r)"
  by (simp add: acts_in_def ret_def)

lemma acts_in_act [acts_intros]: "P a \<Longrightarrow> acts_in P (act a f)"
  by (simp add: acts_in_def act_def)

lemma acts_in_appends:
  assumes "acts_in P m" "m l = (l', r)"
  obtains ys where "l' = l @ ys" "list_all P ys"
  using assms unfolding acts_in_def by (metis fst_conv)

lemma acts_in_ask [acts_intros]: "P a \<Longrightarrow> acts_in P (ask a f)"
  by (simp add: ask_def acts_in_act)

lemma acts_in_case:
  assumes "acts_in P m" "\<And>e. acts_in P (f e)" "\<And>x. acts_in P (g x)"
  shows "acts_in P (\<lambda>l. case m l of (l', Inl e) \<Rightarrow> f e l' | (l', Inr x) \<Rightarrow> g x l')"
  unfolding acts_in_def
proof
  fix l
  obtain xs where xs: "fst (m l) = l @ xs" "list_all P xs" using assms(1) unfolding acts_in_def by blast
  obtain l' r where m: "m l = (l', r)" by (cases "m l")
  have "\<exists>ys. fst (k (l @ xs)) = (l @ xs) @ ys \<and> list_all P ys" if "acts_in P k" for k :: "('a, 'c) prog"
    using that unfolding acts_in_def by blast
  then show "\<exists>xs. fst (case m l of (l', Inl e) \<Rightarrow> f e l' | (l', Inr x) \<Rightarrow> g x l') = l @ xs \<and> list_all P xs"
    using xs m assms(2,3) by (cases r) (fastforce intro: exI [of _ "xs @ _"])+
qed

lemma acts_in_rcase [acts_intros]:
  "acts_in P m \<Longrightarrow> (\<And>e. acts_in P (f e)) \<Longrightarrow> (\<And>x. acts_in P (g x)) \<Longrightarrow> acts_in P (rcase m f g)"
  using acts_in_case [of P m f g] by (simp add: acts_in_def rcase_def)

lemma acts_in_rbind [acts_intros]:
  "acts_in P m \<Longrightarrow> (\<And>x. acts_in P (g x)) \<Longrightarrow> acts_in P (rbind m g)"
  using acts_in_case [of P m "\<lambda>e. ret (Inl e)" g] acts_in_ret by (simp add: acts_in_def rbind_def ret_def)

lemma acts_in_rbind_result:
  assumes "acts_in P m" "\<And>l l' x. m l = (l', Inr x) \<Longrightarrow> acts_in P (f x)"
  shows "acts_in P (rbind m f)"
  unfolding acts_in_def
proof
  fix l
  obtain l' r where m: "m l = (l', r)" by (cases "m l")
  obtain xs where xs: "l' = l @ xs" "list_all P xs" using acts_in_appends [OF assms(1) m] .
  show "\<exists>xs. fst (rbind m f l) = l @ xs \<and> list_all P xs"
  proof (cases r)
    case (Inr x)
    then have "acts_in P (f x)" using assms(2) m by blast
    then obtain ys where "fst (f x l') = l' @ ys" "list_all P ys" unfolding acts_in_def by blast
    then show ?thesis using m Inr xs by (auto simp: rbind_def)
  qed (use m xs in \<open>auto simp: rbind_def\<close>)
qed

lemma acts_in_rignore [acts_intros]: "acts_in P m \<Longrightarrow> acts_in P k \<Longrightarrow> acts_in P (rignore m k)"
  unfolding acts_in_def rignore_def by (metis append.assoc list_all_append)

lemma acts_in_if [acts_intros]: "(b \<Longrightarrow> acts_in P m) \<Longrightarrow> (\<not> b \<Longrightarrow> acts_in P k) \<Longrightarrow> acts_in P (if b then m else k)"
  by simp

lemma acts_in_option [acts_intros]:
  "acts_in P m \<Longrightarrow> (\<And>x. acts_in P (k x)) \<Longrightarrow> acts_in P (case z of None \<Rightarrow> m | Some x \<Rightarrow> k x)"
  by (simp split: option.split)

lemma acts_in_sum [acts_intros]:
  "(\<And>e. acts_in P (m e)) \<Longrightarrow> (\<And>x. acts_in P (k x)) \<Longrightarrow> acts_in P (case z of Inl e \<Rightarrow> m e | Inr x \<Rightarrow> k x)"
  by (simp split: sum.split)

lemma acts_in_within [acts_intros]:
  assumes "acts_in P m"
  shows "acts_in P (within limit e m)"
  unfolding acts_in_def
proof
  fix l
  obtain xs where "fst (m l) = l @ xs" "list_all P xs" using assms unfolding acts_in_def by blast
  then show "\<exists>xs. fst (within limit e m l) = l @ xs \<and> list_all P xs"
    by (auto simp: within_def list_all_iff dest: in_set_takeD split: option.split)
qed

lemma acts_in_mono: "acts_in P m \<Longrightarrow> (\<And>a. P a \<Longrightarrow> Q a) \<Longrightarrow> acts_in Q m"
  unfolding acts_in_def by (metis list.pred_mono_strong)

section \<open>What a program keeps\<close>

text \<open>A property of the history that every run of a program keeps, whatever its result.\<close>

definition keeps :: "('a list \<Rightarrow> bool) \<Rightarrow> ('a, 'x) prog \<Rightarrow> bool" where
  "keeps G m \<longleftrightarrow> (\<forall>l. G l \<longrightarrow> G (fst (m l)))"

named_theorems keeps_intros \<open>introduction rules of \<open>keeps\<close>\<close>

lemma keepsD: "keeps G m \<Longrightarrow> G l \<Longrightarrow> m l = (l', r) \<Longrightarrow> G l'"
  by (metis fst_conv keeps_def)

lemma keeps_ret [keeps_intros]: "keeps G (ret r)"
  by (simp add: keeps_def ret_def)

lemma keeps_act [keeps_intros]: "(\<And>l. G l \<Longrightarrow> G (l @ [a])) \<Longrightarrow> keeps G (act a f)"
  by (simp add: keeps_def act_def)

lemma keeps_ask [keeps_intros]: "(\<And>l. G l \<Longrightarrow> G (l @ [a])) \<Longrightarrow> keeps G (ask a f)"
  by (simp add: ask_def keeps_act)

lemma keeps_rcase [keeps_intros]:
  "keeps G m \<Longrightarrow> (\<And>e. keeps G (f e)) \<Longrightarrow> (\<And>x. keeps G (g x)) \<Longrightarrow> keeps G (rcase m f g)"
  unfolding keeps_def rcase_def by (auto split: prod.split sum.split dest: keepsD [unfolded keeps_def])

lemma keeps_rbind_result:
  assumes "keeps G m" "\<And>l l' x. G l \<Longrightarrow> m l = (l', Inr x) \<Longrightarrow> H x l'" "\<And>x l. H x l \<Longrightarrow> G (fst (f x l))"
  shows "keeps G (rbind m f)"
  using assms(2,3) keepsD [OF assms(1)] by (auto simp: keeps_def rbind_def split: prod.split sum.split)

lemma keeps_rbind [keeps_intros]: "keeps G m \<Longrightarrow> (\<And>x. keeps G (f x)) \<Longrightarrow> keeps G (rbind m f)"
  unfolding keeps_def rbind_def by (auto split: prod.split sum.split dest: keepsD [unfolded keeps_def])

lemma keeps_rignore [keeps_intros]: "keeps G m \<Longrightarrow> keeps G k \<Longrightarrow> keeps G (rignore m k)"
  by (simp add: keeps_def rignore_def)

lemma keeps_if [keeps_intros]: "(b \<Longrightarrow> keeps G m) \<Longrightarrow> (\<not> b \<Longrightarrow> keeps G k) \<Longrightarrow> keeps G (if b then m else k)"
  by simp

text \<open>A time limit keeps whatever every beginning of a history keeps.\<close>

lemma keeps_within [keeps_intros]:
  "keeps G m \<Longrightarrow> (\<And>l k. G l \<Longrightarrow> G (take k l)) \<Longrightarrow> keeps G (within limit e m)"
  by (simp add: keeps_def within_def split: option.split)

section \<open>Assertions\<close>

text \<open>
  A program started on a history with \<open>P\<close> ends on one with \<open>Q\<close> of its result, or with \<open>E\<close>
  of its error.
\<close>

definition hoare ::
  "('a list \<Rightarrow> bool) \<Rightarrow> ('a, 'x) prog \<Rightarrow> ('x \<Rightarrow> 'a list \<Rightarrow> bool) \<Rightarrow> (term_error \<Rightarrow> 'a list \<Rightarrow> bool) \<Rightarrow> bool" where
  "hoare P m Q E \<longleftrightarrow> (\<forall>l. P l \<longrightarrow> (case m l of (l', Inl e) \<Rightarrow> E e l' | (l', Inr x) \<Rightarrow> Q x l'))"

named_theorems hoare_intros \<open>rules that follow the shape of a program\<close>

lemma hoareI:
  "(\<And>l l' x. P l \<Longrightarrow> m l = (l', Inr x) \<Longrightarrow> Q x l') \<Longrightarrow> (\<And>l l' e. P l \<Longrightarrow> m l = (l', Inl e) \<Longrightarrow> E e l') \<Longrightarrow>
   hoare P m Q E"
  by (auto simp: hoare_def split: prod.split sum.split)

lemma hoare_Inr: "hoare P m Q E \<Longrightarrow> P l \<Longrightarrow> m l = (l', Inr x) \<Longrightarrow> Q x l'"
  by (auto simp: hoare_def split: prod.splits)

lemma hoare_Inl: "hoare P m Q E \<Longrightarrow> P l \<Longrightarrow> m l = (l', Inl e) \<Longrightarrow> E e l'"
  by (auto simp: hoare_def split: prod.splits)

lemma hoare_ret_Inr [hoare_intros]: "(\<And>l. P l \<Longrightarrow> Q x l) \<Longrightarrow> hoare P (ret (Inr x)) Q E"
  by (simp add: hoare_def ret_def)

lemma hoare_ret_Inl [hoare_intros]: "(\<And>l. P l \<Longrightarrow> E e l) \<Longrightarrow> hoare P (ret (Inl e)) Q E"
  by (simp add: hoare_def ret_def)

lemma hoare_ask:
  "(\<And>l x. P l \<Longrightarrow> f (l @ [a]) = Inr x \<Longrightarrow> Q x (l @ [a])) \<Longrightarrow> (\<And>l e. P l \<Longrightarrow> f (l @ [a]) = Inl e \<Longrightarrow> E e (l @ [a])) \<Longrightarrow>
   hoare P (ask a f) Q E"
  by (auto simp: hoare_def ask_def act_def split: sum.split)

lemma hoare_rbind:
  "hoare P m Q E \<Longrightarrow> (\<And>x. hoare (Q x) (f x) R E) \<Longrightarrow> hoare P (rbind m f) R E"
  unfolding hoare_def rbind_def by (fastforce split: prod.splits sum.splits)

lemma hoare_rcase:
  "hoare P m Q F \<Longrightarrow> (\<And>e. hoare (F e) (f e) R E) \<Longrightarrow> (\<And>x. hoare (Q x) (g x) R E) \<Longrightarrow> hoare P (rcase m f g) R E"
  unfolding hoare_def rcase_def by (fastforce split: prod.splits sum.splits)

lemma hoare_rignore:
  "hoare P m (\<lambda>_. I) (\<lambda>_. I) \<Longrightarrow> hoare I k R E \<Longrightarrow> hoare P (rignore m k) R E"
  unfolding hoare_def rignore_def by (fastforce split: prod.splits sum.splits)

lemma hoare_if [hoare_intros]:
  "(b \<Longrightarrow> hoare P m Q E) \<Longrightarrow> (\<not> b \<Longrightarrow> hoare P k Q E) \<Longrightarrow> hoare P (if b then m else k) Q E"
  by simp

lemma hoare_conseq:
  "hoare P m Q E \<Longrightarrow> (\<And>l. P' l \<Longrightarrow> P l) \<Longrightarrow> (\<And>x l. Q x l \<Longrightarrow> Q' x l) \<Longrightarrow> (\<And>e l. E e l \<Longrightarrow> E' e l) \<Longrightarrow> hoare P' m Q' E'"
  unfolding hoare_def by (fastforce split: prod.splits sum.splits)

lemma hoare_conj:
  "hoare P m Q E \<Longrightarrow> hoare P' m Q' E' \<Longrightarrow> hoare (\<lambda>l. P l \<and> P' l) m (\<lambda>x l. Q x l \<and> Q' x l) (\<lambda>e l. E e l \<and> E' e l)"
  unfolding hoare_def by (fastforce split: prod.splits sum.splits)

lemma hoare_within:
  "hoare P m Q E \<Longrightarrow> (\<And>l k. P l \<Longrightarrow> E e (take (length l + k) (fst (m l)))) \<Longrightarrow> hoare P (within limit e m) Q E"
  by (auto simp: hoare_def within_def split: option.split)

section \<open>Actions with a reason\<close>

text \<open>Every action of a history is justified by what came before it.\<close>

definition backed :: "('a \<Rightarrow> 'a list \<Rightarrow> bool) \<Rightarrow> 'a list \<Rightarrow> bool" where
  "backed D l \<longleftrightarrow> (\<forall>xs a ys. l = xs @ a # ys \<longrightarrow> D a xs)"

lemma backed_Nil [simp]: "backed D []"
  by (simp add: backed_def)

lemma backedD: "backed D (xs @ a # ys) \<Longrightarrow> D a xs"
  by (simp add: backed_def)

lemma backed_take: "backed D l \<Longrightarrow> backed D (take k l)"
  unfolding backed_def by (metis append.assoc append_Cons append_take_drop_id)

lemma backed_snoc [simp]: "backed D (l @ [a]) \<longleftrightarrow> backed D l \<and> D a l"
proof
  assume b: "backed D (l @ [a])"
  have "D c xs" if "l = xs @ c # ys" for xs c ys
    using b that unfolding backed_def by (metis append.assoc append_Cons)
  then show "backed D l \<and> D a l" using backedD [OF b] unfolding backed_def by blast
next
  assume b: "backed D l \<and> D a l"
  show "backed D (l @ [a])"
    unfolding backed_def
  proof (intro allI impI)
    fix xs c ys assume eq: "l @ [a] = xs @ c # ys"
    then show "D c xs"
      using b by (cases ys rule: rev_cases) (auto simp: backed_def)
  qed
qed

lemma backed_append:
  "backed D l \<Longrightarrow> (\<And>a zs. a \<in> set xs \<Longrightarrow> D a (l @ zs)) \<Longrightarrow> backed D (l @ xs)"
proof (induction xs rule: rev_induct)
  case (snoc x xs)
  then show ?case using backed_snoc [of D "l @ xs" x] by simp
qed simp

lemma backed_acts:
  assumes "acts_in P m" "m l = (l', r)" "backed D l" "\<And>a zs. P a \<Longrightarrow> D a (l @ zs)"
  shows "backed D l'"
proof -
  obtain xs where "l' = l @ xs" "list_all P xs" using acts_in_appends [OF assms(1,2)] by blast
  then show ?thesis using assms(3,4) by (auto intro!: backed_append simp: list_all_iff)
qed

end
