(* ===== verification/Remote_Runtime.thy ===== *)
theory Remote_Runtime
  imports Protocol Decimal Actions
begin

text \<open>
  The provider of persistent sessions (\<open>PersistentProvider\<close> of
  src/infrastructure/persistent.rs): probing, deploying, starting, stopping and restarting the remote
  daemon, and opening a session on it.

  An operation is a function of the actions taken so far that returns the actions taken after it and
  its result.  What the remote host, the SFTP upload, the daemon and serde_json answer is an argument,
  and may depend on every action before.  Commands are the strings sent to the remote shell.
\<close>

section \<open>Actions and their answers\<close>

datatype raction =
    Exec string
  | OpenTemp
  | UploadFile string string
  | CloseTemp
  | ConnectDaemon string
  | Rpc string

type_synonym history = "raction list"

text \<open>\<open>rs_connect\<close> answers a connection and handshake with the daemon's build; a call of the
  daemon answers with a session id or a snapshot.\<close>

record rserver =
  rs_exec :: "history \<Rightarrow> string \<Rightarrow> string result"
  rs_open :: "history \<Rightarrow> unit result"
  rs_upload :: "history \<Rightarrow> unit result"
  rs_connect :: "history \<Rightarrow> string result"
  rs_create :: "history \<Rightarrow> string result"
  rs_attach :: "history \<Rightarrow> bytes result"
  rs_list :: "history \<Rightarrow> string list result"
  rs_from_str :: "string \<Rightarrow> json option"

type_synonym 'a remote = "(raction, 'a) prog"

definition exec :: "rserver \<Rightarrow> string \<Rightarrow> string remote" where
  "exec sv cmd = act (Exec cmd) (\<lambda>l. rs_exec sv l cmd)"

section \<open>Pure parts\<close>

datatype runtime_state = Missing | NeedsUpgrade | RuntimeStopped | RuntimeRunning

record runtime_probe =
  rt_state :: runtime_state
  rt_remote_build :: "string option"

datatype stop_result = NotRunning string | DaemonStopped nat bool

record restart_report =
  rr_stopped :: bool
  rr_was_running :: bool
  rr_deployed :: bool
  rr_version_before :: "string option"
  rr_version_after :: string
  rr_restarted :: bool

definition REMOTE_BIN :: string where "REMOTE_BIN = ''~/.local/share/termbridge/termbridge-agentd''"
definition REMOTE_VERSION :: string where "REMOTE_VERSION = ''~/.local/share/termbridge/agentd.version''"
definition REMOTE_PID_FILE :: string where "REMOTE_PID_FILE = ''~/.local/share/termbridge/agentd.pid''"
definition DAEMON_TERM_GRACE_SECS :: nat where "DAEMON_TERM_GRACE_SECS = 5"

definition parse_pid_file :: "string \<Rightarrow> nat option" where
  "parse_pid_file content =
     (let trimmed = trim content
      in if trimmed = [] \<or> \<not> list_all is_digit trimmed then None
         else (case parse_unsigned (2 ^ 32 - 1) trimmed of
                 Some pid \<Rightarrow> if pid \<noteq> 0 then Some pid else None
               | None \<Rightarrow> None))"

definition AGENTD_BIN :: string where "AGENTD_BIN = ''termbridge-agentd''"

definition is_agentd_comm :: "string \<Rightarrow> bool" where
  "is_agentd_comm comm_output =
     (let comm = trim comm_output
      in if comm = [] then False
         else comm = AGENTD_BIN \<or> (length comm = 15 \<and> prefix comm AGENTD_BIN))"

definition parse_remote_build :: "rserver \<Rightarrow> string \<Rightarrow> string option" where
  "parse_remote_build sv version_file_stdout =
     (let trimmed = trim version_file_stdout
      in if trimmed = [] then None
         else (case rs_from_str sv trimmed of None \<Rightarrow> None | Some v \<Rightarrow> get_str v ''build''))"

definition should_stop_daemon_after_deploy :: "runtime_state \<Rightarrow> bool" where
  "should_stop_daemon_after_deploy st \<longleftrightarrow> st = NeedsUpgrade"

definition contains_str :: "string \<Rightarrow> string \<Rightarrow> bool" where
  "contains_str s p \<longleftrightarrow> find_str p s \<noteq> None"

section \<open>The local binary\<close>

text \<open>The questions \<open>ensure_agentd_copy\<close> asks the local file system.\<close>

record local_fs =
  lf_is_file :: "string \<Rightarrow> bool"
  lf_parent_created :: "string \<Rightarrow> bool"
  lf_copied :: "string \<Rightarrow> string \<Rightarrow> bool"

definition ensure_agentd_copy :: "local_fs \<Rightarrow> string \<Rightarrow> string \<Rightarrow> string option" where
  "ensure_agentd_copy fs dest bundled =
     (if lf_is_file fs dest then Some dest
      else if lf_is_file fs bundled \<and> lf_parent_created fs dest \<and> lf_copied fs bundled dest then Some dest
      else None)"

text \<open>\<open>bundled\<close> is none if the path of the running program is unknown.\<close>

definition ensure_local_agentd :: "local_fs \<Rightarrow> string \<Rightarrow> string option \<Rightarrow> string option" where
  "ensure_local_agentd fs dest bundled =
     (case bundled of None \<Rightarrow> None | Some b \<Rightarrow> ensure_agentd_copy fs dest b)"

section \<open>Operations\<close>

definition version_check_cmd :: string where
  "version_check_cmd = ''test -x '' @ REMOTE_BIN @ '' && cat '' @ REMOTE_VERSION"

definition check_remote_runtime :: "rserver \<Rightarrow> runtime_probe remote" where
  "check_remote_runtime sv =
     rcase (exec sv version_check_cmd)
       (\<lambda>_. ret (Inr \<lparr>rt_state = Missing, rt_remote_build = None\<rparr>))
       (\<lambda>version_out.
          let remote_build = parse_remote_build sv version_out
          in if remote_build \<noteq> Some BUILD_VERSION
             then ret (Inr \<lparr>rt_state = NeedsUpgrade, rt_remote_build = remote_build\<rparr>)
             else rcase (exec sv ''pgrep -f termbridge-agentd'')
               (\<lambda>_. ret (Inr \<lparr>rt_state = RuntimeStopped, rt_remote_build = remote_build\<rparr>))
               (\<lambda>out. ret (Inr \<lparr>rt_state = (if trim out \<noteq> [] then RuntimeRunning else RuntimeStopped),
                                rt_remote_build = remote_build\<rparr>)))"

definition remote_dir :: "string \<Rightarrow> string" where
  "remote_dir home = home @ ''/.local/share/termbridge''"

definition remote_bin :: "string \<Rightarrow> string" where
  "remote_bin home = remote_dir home @ ''/termbridge-agentd''"

definition remote_tmp :: "string \<Rightarrow> string" where
  "remote_tmp home = remote_bin home @ ''.termbridge-tmp''"

definition home_cmd :: string where "home_cmd = ''echo $HOME''"

definition mkdir_cmd :: "string \<Rightarrow> string" where
  "mkdir_cmd home = ''mkdir -p '' @ remote_dir home"

definition chmod_cmd :: "string \<Rightarrow> string" where
  "chmod_cmd home = ''chmod 0755 '' @ remote_tmp home"

definition rm_tmp_cmd :: "string \<Rightarrow> string" where
  "rm_tmp_cmd home = ''rm -f '' @ remote_tmp home"

definition mv_cmd :: "string \<Rightarrow> string" where
  "mv_cmd home = ''mv -f '' @ remote_tmp home @ '' '' @ remote_bin home"

definition version_cmd :: "string \<Rightarrow> string" where
  "version_cmd home =
     ''echo '' @ [CHR 0x27] @ ''{'' @ [CHR 0x22] @ ''protocol_version'' @ [CHR 0x22] @ '':'' @ dec (unat PROTOCOL_VERSION) @
     '','' @ [CHR 0x22] @ ''build'' @ [CHR 0x22] @ '':'' @ [CHR 0x22] @ BUILD_VERSION @ [CHR 0x22] @ ''}'' @ [CHR 0x27] @
     '' > '' @ remote_dir home @ ''/agentd.version''"

text \<open>Upload over a temporary session, which is closed whatever happens.\<close>

definition upload_tmp :: "rserver \<Rightarrow> string \<Rightarrow> string \<Rightarrow> unit remote" where
  "upload_tmp sv local_path tmp l =
     (let (l, r) = act (UploadFile local_path tmp) (rs_upload sv) l
      in (l @ [CloseTemp], r))"

definition deploy_runtime :: "rserver \<Rightarrow> string option \<Rightarrow> unit remote" where
  "deploy_runtime sv local_agentd =
     (case local_agentd of
        None \<Rightarrow> ret (Inl (RuntimeMissing ''agentd''))
      | Some local_path \<Rightarrow>
          rbind (exec sv home_cmd) (\<lambda>out.
            let home = trim out; cleanup = exec sv (rm_tmp_cmd home)
            in rbind (exec sv (mkdir_cmd home)) (\<lambda>_.
               rbind (act OpenTemp (rs_open sv)) (\<lambda>_.
               rcase (upload_tmp sv local_path (remote_tmp home))
                 (\<lambda>e. rignore cleanup (ret (Inl e)))
                 (\<lambda>_. rcase (rbind (exec sv (chmod_cmd home)) (\<lambda>_. exec sv (mv_cmd home)))
                    (\<lambda>e. rignore cleanup (ret (Inl e)))
                    (\<lambda>_. rbind (exec sv (version_cmd home)) (\<lambda>_. ret (Inr ()))))))))"

definition remote_socket_path :: "rserver \<Rightarrow> string remote" where
  "remote_socket_path sv =
     rbind (exec sv ''echo ${XDG_RUNTIME_DIR:-$HOME/.local/share/termbridge}/termbridge.sock'')
       (\<lambda>out. ret (Inr (trim out)))"

text \<open>The socket and the daemon's id.\<close>

definition bootstrap_daemon :: "rserver \<Rightarrow> (string \<times> string) remote" where
  "bootstrap_daemon sv =
     rbind (remote_socket_path sv) (\<lambda>default_socket.
     rbind (exec sv (REMOTE_BIN @ '' bootstrap --sock '' @ default_socket)) (\<lambda>stdout.
       case rs_from_str sv (trim stdout) of
         None \<Rightarrow> ret (Inl (ChannelError ''parse bootstrap response''))
       | Some j \<Rightarrow> ret (Inr (case get_str j ''socket'' of Some s \<Rightarrow> s | None \<Rightarrow> default_socket,
                            case get_str j ''daemon_id'' of Some i \<Rightarrow> i | None \<Rightarrow> ''?''))))"

definition comm_cmd :: "nat \<Rightarrow> string" where
  "comm_cmd pid = ''cat /proc/'' @ dec pid @ ''/comm 2>/dev/null || ps -p '' @ dec pid @ '' -o comm= 2>/dev/null''"

definition grace_seq :: string where
  "grace_seq = join_on '' '' (map dec [1..<DAEMON_TERM_GRACE_SECS + 1])"

definition term_cmd :: "nat \<Rightarrow> string" where
  "term_cmd pid = ''kill '' @ dec pid @ '' 2>/dev/null; for i in '' @ grace_seq @ ''; do sleep 1; kill -0 '' @ dec pid @
     '' 2>/dev/null || { echo GONE; exit 0; }; done; echo ALIVE''"

definition kill9_cmd :: "nat \<Rightarrow> string" where
  "kill9_cmd pid = ''kill -9 '' @ dec pid @ '' 2>/dev/null; sleep 1; kill -0 '' @ dec pid @ '' 2>/dev/null || echo GONE''"

text \<open>The kill, and whether it took the second signal.\<close>

definition kill_daemon :: "rserver \<Rightarrow> nat \<Rightarrow> bool remote" where
  "kill_daemon sv pid =
     rbind (exec sv (term_cmd pid)) (\<lambda>out.
       if contains_str out ''GONE'' then ret (Inr False)
       else if contains_str out ''ALIVE''
       then rbind (exec sv (kill9_cmd pid)) (\<lambda>out9.
              if \<not> contains_str out9 ''GONE'' then ret (Inl (ChannelError ''alive after SIGKILL''))
              else ret (Inr True))
       else ret (Inl (ChannelError ''no GONE/ALIVE marker'')))"

definition remove_socket :: "rserver \<Rightarrow> 'a remote \<Rightarrow> 'a remote" where
  "remove_socket sv k =
     rcase (remote_socket_path sv) (\<lambda>_. k) (\<lambda>socket. rignore (exec sv (''rm -f '' @ socket)) k)"

definition pid_cmd :: string where
  "pid_cmd = ''cat '' @ REMOTE_PID_FILE @ '' 2>/dev/null''"

definition stop_remote_daemon :: "rserver \<Rightarrow> stop_result remote" where
  "stop_remote_daemon sv =
     rcase (exec sv pid_cmd)
       (\<lambda>_. ret (Inr (NotRunning ''no pid file'')))
       (\<lambda>out. case parse_pid_file out of
          None \<Rightarrow> ret (Inr (NotRunning ''bad pid file''))
        | Some pid \<Rightarrow>
            rcase (exec sv (comm_cmd pid))
              (\<lambda>_. ret (Inr (NotRunning ''stale pid file'')))
              (\<lambda>comm. if \<not> is_agentd_comm comm then ret (Inr (NotRunning ''pid reused''))
                 else rbind (kill_daemon sv pid) (\<lambda>forced.
                        remove_socket sv (ret (Inr (DaemonStopped pid forced))))))"

definition needs_deploy :: "runtime_state \<Rightarrow> bool" where
  "needs_deploy st \<longleftrightarrow> st = Missing \<or> st = NeedsUpgrade"

definition connect_daemon :: "rserver \<Rightarrow> string \<Rightarrow> string remote" where
  "connect_daemon sv socket = act (ConnectDaemon socket) (rs_connect sv)"

definition restart_remote_daemon :: "rserver \<Rightarrow> string option \<Rightarrow> restart_report remote" where
  "restart_remote_daemon sv local_agentd =
     rbind (check_remote_runtime sv) (\<lambda>probe.
       let deployed = needs_deploy (rt_state probe)
       in rbind (if deployed then deploy_runtime sv local_agentd else ret (Inr ())) (\<lambda>_.
          rbind (stop_remote_daemon sv) (\<lambda>st.
          let was_running = (case st of DaemonStopped _ _ \<Rightarrow> True | NotRunning _ \<Rightarrow> False)
          in rbind (bootstrap_daemon sv) (\<lambda>info.
             rbind (connect_daemon sv (fst info)) (\<lambda>version_after.
               ret (Inr \<lparr>rr_stopped = was_running, rr_was_running = was_running, rr_deployed = deployed,
                 rr_version_before = rt_remote_build probe, rr_version_after = version_after,
                 rr_restarted = (snd info \<noteq> ''existing'')\<rparr>))))))"

section \<open>Sessions\<close>

text \<open>The handle's remote session and initial snapshot; none if it is empty.\<close>

definition initial_data :: "bytes \<Rightarrow> bytes option" where
  "initial_data b = (if b \<noteq> [] then Some b else None)"

definition attach_session :: "rserver \<Rightarrow> string \<Rightarrow> (string \<times> bytes option) remote" where
  "attach_session sv remote_session_id =
     rbind (act (Rpc ''session.attach'') (rs_attach sv)) (\<lambda>snapshot.
       ret (Inr (remote_session_id, initial_data snapshot)))"

definition open_persistent ::
  "rserver \<Rightarrow> string option \<Rightarrow> string option \<Rightarrow> (string \<times> bytes option) remote" where
  "open_persistent sv local_agentd password =
     (if password \<noteq> None then ret (Inl (InvalidArgument ''auth=password with session=persistent''))
      else rbind (check_remote_runtime sv) (\<lambda>probe.
        rbind (if needs_deploy (rt_state probe)
               then rbind (deploy_runtime sv local_agentd) (\<lambda>_.
                      if should_stop_daemon_after_deploy (rt_state probe)
                      then rbind (stop_remote_daemon sv) (\<lambda>_. ret (Inr ())) else ret (Inr ()))
               else ret (Inr ())) (\<lambda>_.
        rbind (bootstrap_daemon sv) (\<lambda>info.
        rbind (connect_daemon sv (fst info)) (\<lambda>_.
        rbind (act (Rpc ''session.create'') (rs_create sv)) (\<lambda>remote_session_id.
          attach_session sv remote_session_id))))))"

definition list_remote_sessions :: "rserver \<Rightarrow> string list remote" where
  "list_remote_sessions sv =
     rbind (bootstrap_daemon sv) (\<lambda>info.
     rbind (connect_daemon sv (fst info)) (\<lambda>_. act (Rpc ''session.list'') (rs_list sv)))"

definition attach_remote_session :: "rserver \<Rightarrow> string \<Rightarrow> (string \<times> bytes option) remote" where
  "attach_remote_session sv remote_session_id =
     rbind (bootstrap_daemon sv) (\<lambda>info.
     rbind (connect_daemon sv (fst info)) (\<lambda>_. attach_session sv remote_session_id))"

section \<open>The actions of an operation\<close>

text \<open>One step of an operation.\<close>

lemma remote_steps:
  "rcase (exec sv cmd) f g l =
     (case rs_exec sv l cmd of Inl e \<Rightarrow> f e (l @ [Exec cmd]) | Inr x \<Rightarrow> g x (l @ [Exec cmd]))"
  "rbind (exec sv cmd) h l =
     (case rs_exec sv l cmd of Inl e \<Rightarrow> (l @ [Exec cmd], Inl e) | Inr x \<Rightarrow> h x (l @ [Exec cmd]))"
  "rbind (act a ans) h2 l = (case ans l of Inl e \<Rightarrow> (l @ [a], Inl e) | Inr y \<Rightarrow> h2 y (l @ [a]))"
  "rbind (ret (Inr z)) h3 l = h3 z l" "rbind (ret (Inl e)) h3 l = (l, Inl e)"
  "rignore (exec sv cmd) k l = k (l @ [Exec cmd])" "ret r l = (l, r)"
  by (simp_all add: rcase_def rbind_def rignore_def exec_def act_def ret_def)

lemma acts_in_exec [acts_intros]: "P (Exec cmd) \<Longrightarrow> acts_in P (exec sv cmd)"
  by (simp add: exec_def acts_in_act)

section \<open>Stopping the daemon\<close>

lemma is_agentd_comm_iff:
  "is_agentd_comm s \<longleftrightarrow> trim s = ''termbridge-agentd'' \<or> trim s = ''termbridge-agen''"
proof -
  have len: "length (take 15 AGENTD_BIN) = 15" and cut: "take 15 AGENTD_BIN = ''termbridge-agen''" by code_simp+
  have "length t = 15 \<and> prefix t AGENTD_BIN \<longleftrightarrow> t = take 15 AGENTD_BIN" for t
    using len take_is_prefix [of 15 AGENTD_BIN] by (metis append_eq_conv_conj prefix_def)
  moreover note cut
  ultimately show ?thesis by (auto simp: is_agentd_comm_def Let_def AGENTD_BIN_def)
qed

lemma parse_pid_file_bounds: "parse_pid_file s = Some pid \<Longrightarrow> 0 < pid \<and> pid < 2 ^ 32"
  by (auto simp: parse_pid_file_def Let_def dest!: parse_unsigned_bound split: if_splits option.splits)

lemma digit_not_ws: "is_digit c \<Longrightarrow> ws_len (c # s) = 0"
  by (auto simp: is_digit_def)

lemma trim_digits:
  assumes "list_all is_digit s"
  shows "trim s = s"
proof (rule trim_fixed)
  show "ws_len s = 0" using assms by (cases s) (auto simp: digit_not_ws simp del: ws_len.simps(2))
  have "ws_len (last_n n s) = 0" for n
  proof -
    have "list_all is_digit (last_n n s)" using assms by (auto simp: last_n_def list_all_iff dest: in_set_dropD)
    then show ?thesis by (cases "last_n n s") (auto simp: digit_not_ws simp del: ws_len.simps(2))
  qed
  then show "ws_len_end s = 0" by (simp add: ws_len_end_def)
qed

lemma parse_pid_file_dec: "0 < n \<Longrightarrow> n < 2 ^ 32 \<Longrightarrow> parse_pid_file (dec n) = Some n"
  using parse_unsigned_dec [of n "2 ^ 32 - 1"] by (simp add: parse_pid_file_def trim_digits)

definition is_kill :: "raction \<Rightarrow> bool" where
  "is_kill a \<longleftrightarrow> (case a of Exec cmd \<Rightarrow> prefix ''kill '' cmd | _ \<Rightarrow> False)"

lemma acts_in_remove_socket [acts_intros]:
  "(\<And>cmd. \<not> prefix ''kill '' cmd \<Longrightarrow> P (Exec cmd)) \<Longrightarrow> acts_in P k \<Longrightarrow> acts_in P (remove_socket sv k)"
  unfolding remove_socket_def remote_socket_path_def
  by (intro acts_intros) (simp_all add: is_kill_def)

lemma acts_in_kill_daemon [acts_intros]:
  "P (Exec (term_cmd pid)) \<Longrightarrow> P (Exec (kill9_cmd pid)) \<Longrightarrow> acts_in P (kill_daemon sv pid)"
  unfolding kill_daemon_def by (auto intro!: acts_intros)

text \<open>
  (C19) The daemon is never killed blindly: a kill is sent only for the process number the pid file holds,
  which is not 0, after the process of that number was seen to be agentd, by its name or the name the
  kernel cuts it to; and the only kills sent are the two for that number.
\<close>

theorem stop_kills_only_agentd:
  assumes "stop_remote_daemon sv l = (l @ xs, r)" "a \<in> set xs" "is_kill a"
  shows "\<exists>out pid comm. rs_exec sv l pid_cmd = Inr out \<and> parse_pid_file out = Some pid \<and> 0 < pid \<and>
    rs_exec sv (l @ [Exec pid_cmd]) (comm_cmd pid) = Inr comm \<and>
    (trim comm = ''termbridge-agentd'' \<or> trim comm = ''termbridge-agen'') \<and>
    (a = Exec (term_cmd pid) \<or> a = Exec (kill9_cmd pid))"
proof -
  have quiet: "\<not> is_kill (Exec pid_cmd)" "\<not> is_kill (Exec (comm_cmd pid))" for pid
    by (simp_all add: is_kill_def comm_cmd_def pid_cmd_def)
  let ?l = "l @ [Exec pid_cmd]"
  have none: "xs \<noteq> [Exec pid_cmd]" "[Exec pid_cmd] \<noteq> xs" "[Exec pid_cmd, Exec (comm_cmd pid)] \<noteq> xs" for pid
    using quiet assms(2,3) by auto
  obtain out where out: "rs_exec sv l pid_cmd = Inr out"
    using assms(1) none by (cases "rs_exec sv l pid_cmd") (simp_all add: stop_remote_daemon_def remote_steps)
  obtain pid where pid: "parse_pid_file out = Some pid"
    using assms(1) none by (cases "parse_pid_file out") (simp_all add: stop_remote_daemon_def remote_steps out)
  obtain comm where comm: "rs_exec sv ?l (comm_cmd pid) = Inr comm"
    using assms(1) none by (cases "rs_exec sv ?l (comm_cmd pid)") (simp_all add: stop_remote_daemon_def remote_steps out pid)
  have name: "is_agentd_comm comm"
    using assms(1) none by (cases "is_agentd_comm comm") (simp_all add: stop_remote_daemon_def remote_steps out pid comm)
  let ?k = "rbind (kill_daemon sv pid) (\<lambda>forced. remove_socket sv (ret (Inr (DaemonStopped pid forced))))"
  have "stop_remote_daemon sv l = ?k (?l @ [Exec (comm_cmd pid)])"
    using name by (simp add: stop_remote_daemon_def remote_steps out pid comm)
  moreover have "acts_in (\<lambda>a. is_kill a \<longrightarrow> a = Exec (term_cmd pid) \<or> a = Exec (kill9_cmd pid)) ?k"
    by (intro acts_intros) (simp_all add: is_kill_def)
  ultimately obtain ys where "l @ xs = ?l @ [Exec (comm_cmd pid)] @ ys"
    "list_all (\<lambda>a. is_kill a \<longrightarrow> a = Exec (term_cmd pid) \<or> a = Exec (kill9_cmd pid)) ys"
    using assms(1) unfolding acts_in_def by (metis append.assoc fst_conv)
  then have "a = Exec (term_cmd pid) \<or> a = Exec (kill9_cmd pid)"
    using assms(2,3) quiet by (auto simp: list_all_iff)
  then show ?thesis using out pid comm name parse_pid_file_bounds [OF pid] by (auto simp: is_agentd_comm_iff)
qed

definition demo_server :: rserver where
  "demo_server =
     \<lparr>rs_exec = (\<lambda>l cmd. Inr (if cmd = pid_cmd then ''7'' else if cmd = comm_cmd 7 then ''termbridge-agen''
         else if cmd = term_cmd 7 then ''GONE'' else if cmd = home_cmd then ''/home/ops'' else ''old'')),
      rs_open = (\<lambda>_. Inr ()), rs_upload = (\<lambda>_. Inr ()), rs_connect = (\<lambda>_. Inr ''0.1.0''), rs_create = (\<lambda>_. Inr ''s''),
      rs_attach = (\<lambda>_. Inr []), rs_list = (\<lambda>_. Inr []), rs_from_str = (\<lambda>_. Some (JObj []))\<rparr>"

lemma demo_commands:
  "home_cmd \<noteq> pid_cmd" "home_cmd \<noteq> comm_cmd 7" "home_cmd \<noteq> term_cmd 7" "pid_cmd \<noteq> comm_cmd 7" "comm_cmd 7 \<noteq> pid_cmd" "term_cmd 7 \<noteq> pid_cmd" "term_cmd 7 \<noteq> comm_cmd 7"
  by (simp_all add: home_cmd_def pid_cmd_def comm_cmd_def term_cmd_def REMOTE_PID_FILE_def)

lemma demo_stop:
  "stop_remote_daemon demo_server l = (l @ [Exec pid_cmd, Exec (comm_cmd 7), Exec (term_cmd 7),
     Exec ''echo ${XDG_RUNTIME_DIR:-$HOME/.local/share/termbridge}/termbridge.sock'', Exec (''rm -f old'')],
   Inr (DaemonStopped 7 False))"
proof -
  have dec7: "dec 7 = ''7''" by code_simp
  have pid: "parse_pid_file ''7'' = Some 7" using parse_pid_file_dec [of 7] dec7 by simp
  have comm: "is_agentd_comm ''termbridge-agen''" "contains_str ''GONE'' ''GONE''" "trim ''old'' = ''old''" by code_simp+
  have path: "''echo ${XDG_RUNTIME_DIR:-$HOME/.local/share/termbridge}/termbridge.sock'' \<noteq> pid_cmd"
    "''echo ${XDG_RUNTIME_DIR:-$HOME/.local/share/termbridge}/termbridge.sock'' \<noteq> comm_cmd 7"
    "''echo ${XDG_RUNTIME_DIR:-$HOME/.local/share/termbridge}/termbridge.sock'' \<noteq> term_cmd 7"
    "''echo ${XDG_RUNTIME_DIR:-$HOME/.local/share/termbridge}/termbridge.sock'' \<noteq> home_cmd"
    by (simp_all add: home_cmd_def pid_cmd_def comm_cmd_def term_cmd_def REMOTE_PID_FILE_def)
  show ?thesis
    by (simp add: stop_remote_daemon_def kill_daemon_def remove_socket_def remote_socket_path_def demo_server_def
        rbind_def rcase_def rignore_def exec_def act_def ret_def demo_commands pid comm path)
qed

theorem stop_kills_only_agentd_witness:
  "\<exists>out pid comm. rs_exec demo_server [] pid_cmd = Inr out \<and> parse_pid_file out = Some pid \<and>
     rs_exec demo_server [Exec pid_cmd] (comm_cmd pid) = Inr comm \<and>
     (trim comm = ''termbridge-agentd'' \<or> trim comm = ''termbridge-agen'')"
proof -
  have "is_kill (Exec (term_cmd 7))" by (simp add: is_kill_def term_cmd_def)
  from stop_kills_only_agentd [OF demo_stop [of "[]"], of "Exec (term_cmd 7)"] this
  show ?thesis by auto
qed

section \<open>Deploying\<close>

definition deploy_trace :: "string \<Rightarrow> string \<Rightarrow> history" where
  "deploy_trace local_path home =
     [Exec home_cmd, Exec (mkdir_cmd home), OpenTemp,
      UploadFile local_path (remote_tmp home), CloseTemp, Exec (chmod_cmd home),
      Exec (mv_cmd home), Exec (version_cmd home)]"

lemma upload_steps:
  "rcase (upload_tmp sv p tmp) f g l =
     (case rs_upload sv l of Inl e \<Rightarrow> f e (l @ [UploadFile p tmp, CloseTemp])
      | Inr u \<Rightarrow> g u (l @ [UploadFile p tmp, CloseTemp]))"
  "rcase (rbind (exec sv a) (\<lambda>_. exec sv b)) f' g' l =
     (case rs_exec sv l a of Inl e \<Rightarrow> f' e (l @ [Exec a])
      | Inr _ \<Rightarrow> (case rs_exec sv (l @ [Exec a]) b of Inl e \<Rightarrow> f' e (l @ [Exec a, Exec b])
                  | Inr x \<Rightarrow> g' x (l @ [Exec a, Exec b])))"
  by (simp_all add: rcase_def upload_tmp_def rbind_def exec_def act_def split: sum.split)

text \<open>Whether a step succeeded, with what happened before it.\<close>

definition step_ok :: "rserver \<Rightarrow> history \<Rightarrow> raction \<Rightarrow> bool" where
  "step_ok sv before a =
     (case a of
        Exec cmd \<Rightarrow> \<not> isl (rs_exec sv before cmd)
      | OpenTemp \<Rightarrow> \<not> isl (rs_open sv before)
      | UploadFile _ _ \<Rightarrow> \<not> isl (rs_upload sv before)
      | _ \<Rightarrow> True)"

definition nth_ok :: "rserver \<Rightarrow> history \<Rightarrow> history \<Rightarrow> nat \<Rightarrow> bool" where
  "nth_ok sv l plan i = step_ok sv (l @ take i plan) (plan ! i)"

lemma deploy_runs_plan:
  assumes "deploy_runtime sv (Some p) l = (l @ xs, r)" "rs_exec sv l home_cmd = Inr out"
  defines "plan \<equiv> deploy_trace p (trim out)"
  shows "\<exists>k \<le> 8. k \<noteq> 4 \<and>
    xs = take k plan @ (if 5 \<le> k \<and> k < 8 then [Exec (rm_tmp_cmd (trim out))] else []) \<and>
    (\<forall>i. i + 1 < k \<longrightarrow> nth_ok sv l plan i \<or> i = 3 \<and> k = 5) \<and>
    (k < 8 \<longrightarrow> \<not> nth_ok sv l plan (if k = 5 then 3 else k - 1)) \<and>
    (r = Inr () \<longleftrightarrow> k = 8 \<and> nth_ok sv l plan 7)"
proof -
  let ?h = "trim out"
  let ?l2 = "l @ [Exec home_cmd, Exec (mkdir_cmd ?h)]"
  let ?l5 = "l @ take 5 (deploy_trace p ?h)"
  note assms(3) [simp]
  note steps = deploy_runtime_def remote_steps upload_steps Let_def assms(2) deploy_trace_def nth_ok_def step_ok_def
    less_Suc_eq numeral_eq_Suc
  consider (mk) e where "rs_exec sv (l @ [Exec home_cmd]) (mkdir_cmd ?h) = Inl e"
    | (opn) x e where "rs_exec sv (l @ [Exec home_cmd]) (mkdir_cmd ?h) = Inr x" "rs_open sv ?l2 = Inl e"
    | (upl) x where "rs_exec sv (l @ [Exec home_cmd]) (mkdir_cmd ?h) = Inr x" "rs_open sv ?l2 = Inr ()"
    by (cases "rs_exec sv (l @ [Exec home_cmd]) (mkdir_cmd ?h)"; cases "rs_open sv ?l2") auto
  then show ?thesis
  proof cases
    case mk
    then show ?thesis using assms(1) by (intro exI [of _ 2]) (auto simp: steps)
  next
    case opn
    then show ?thesis using assms(1) by (intro exI [of _ 3]) (auto simp: steps, metis sum.disc(1))
  next
    case upl
    show ?thesis
    proof (cases "rs_upload sv (?l2 @ [OpenTemp])")
      case (Inl e)
      then show ?thesis using assms(1) upl by (intro exI [of _ 5]) (auto simp: steps, metis sum.disc(1))
    next
      case up: (Inr u)
      show ?thesis
      proof (cases "rs_exec sv ?l5 (chmod_cmd ?h)")
        case (Inl e)
        then show ?thesis using assms(1) upl up by (intro exI [of _ 6]) (auto simp: steps)
      next
        case ch: (Inr c)
        show ?thesis
        proof (cases "rs_exec sv (l @ take 6 (deploy_trace p ?h)) (mv_cmd ?h)")
          case (Inl e)
          then show ?thesis using assms(1) upl up ch by (intro exI [of _ 7]) (auto simp: steps)
        next
          case (Inr m)
          then show ?thesis using assms(1) upl up ch
            by (intro exI [of _ 8]) (auto simp: steps split: sum.splits)
        qed
      qed
    qed
  qed
qed

text \<open>
  (C27) Deployment replaces the remote binary in one step.  It runs the steps of its plan in order: directory, temporary session,
  upload to a temporary name, closing of the session, permission change, rename over the binary, version file.  Every step run
  before the last one succeeded (except that the session is also closed after a failed upload, and then that is the last), and it
  stops early only because that step failed.  So the only command that touches the binary's own name, the rename, runs only after
  the upload and the permission change succeeded, and the version file is written only after the rename succeeded; after a failed
  upload, permission change or rename the last thing done is to remove the temporary file; and deployment succeeds only if all
  steps, the version file's included, did.  This is for a server that answers the question for the home directory.
\<close>

theorem deploy_replaces_atomically:
  assumes "deploy_runtime sv (Some p) l = (l @ xs, r)" "rs_exec sv l home_cmd = Inr out" "plan = deploy_trace p (trim out)"
  shows "\<exists>k \<le> 8. k \<noteq> 4 \<and>
    xs = take k plan @ (if 5 \<le> k \<and> k < 8 then [Exec (rm_tmp_cmd (trim out))] else []) \<and>
    (\<forall>i. i + 1 < k \<longrightarrow> nth_ok sv l plan i \<or> i = 3 \<and> k = 5) \<and>
    (k < 8 \<longrightarrow> \<not> nth_ok sv l plan (if k = 5 then 3 else k - 1)) \<and>
    (r = Inr () \<longleftrightarrow> k = 8 \<and> nth_ok sv l plan 7)"
  unfolding assms(3) using assms(1,2) by (rule deploy_runs_plan)

lemma demo_deploy:
  "deploy_runtime demo_server (Some ''agentd'') l = (l @ deploy_trace ''agentd'' ''/home/ops'', Inr ())"
proof -
  have "trim ''/home/ops'' = ''/home/ops''" by code_simp
  then show ?thesis
    by (simp add: deploy_runtime_def remote_steps upload_steps deploy_trace_def demo_server_def demo_commands Let_def)
qed

text \<open>A server whose upload fails: the temporary file is removed, and there is no rename.\<close>

definition full_disk :: rserver where
  "full_disk = demo_server\<lparr>rs_upload := \<lambda>_. Inl (ChannelError ''no space left'')\<rparr>"

definition full_disk_steps :: history where
  "full_disk_steps = take 5 (deploy_trace ''agentd'' ''/home/ops'') @ [Exec (rm_tmp_cmd ''/home/ops'')]"

lemma full_disk_deploy:
  "deploy_runtime full_disk (Some ''agentd'') [] = ([] @ full_disk_steps, Inl (ChannelError ''no space left''))"
proof -
  have "trim ''/home/ops'' = ''/home/ops''" by code_simp
  then show ?thesis
    by (simp add: deploy_runtime_def remote_steps upload_steps deploy_trace_def demo_server_def full_disk_def full_disk_steps_def
        demo_commands Let_def)
qed

theorem deploy_replaces_atomically_witness:
  "\<exists>k \<le> 8. full_disk_steps = take k (deploy_trace ''agentd'' ''/home/ops'') @
      (if 5 \<le> k \<and> k < 8 then [Exec (rm_tmp_cmd ''/home/ops'')] else []) \<and> k \<noteq> 4 \<and> k \<noteq> 8"
proof -
  have home: "rs_exec full_disk [] home_cmd = Inr ''/home/ops''" by (simp add: full_disk_def demo_server_def demo_commands)
  have tr: "trim ''/home/ops'' = ''/home/ops''" by code_simp
  have "\<not> nth_ok full_disk [] (deploy_trace ''agentd'' ''/home/ops'') 3"
    by (simp add: nth_ok_def step_ok_def deploy_trace_def full_disk_def)
  then show ?thesis using deploy_replaces_atomically [OF full_disk_deploy home refl, unfolded tr] by fastforce
qed

text \<open>
  An upgrade ships the cached binary.  Once a binary is in the local cache it is never replaced by the
  one a newer program bundles: deployment uploads the cached file, whatever its build, and then
  records the program's own build for it in the remote version file.
\<close>

lemma upgrade_ships_cached_binary:
  assumes "lf_is_file fs dest"
    and "deploy_runtime sv (ensure_local_agentd fs dest (Some bundled)) l = (l @ xs, Inr ())"
    and "rs_exec sv l home_cmd = Inr out"
  shows "(\<forall>p tmp. UploadFile p tmp \<in> set xs \<longrightarrow> p = dest) \<and>
    UploadFile dest (remote_tmp (trim out)) \<in> set xs \<and> Exec (version_cmd (trim out)) \<in> set xs"
proof -
  have "ensure_local_agentd fs dest (Some bundled) = Some dest"
    using assms(1) by (simp add: ensure_local_agentd_def ensure_agentd_copy_def)
  from deploy_runs_plan [OF assms(2) [unfolded this] assms(3)]
  have "xs = take 8 (deploy_trace dest (trim out))" by auto
  then have "xs = deploy_trace dest (trim out)" by (simp add: deploy_trace_def)
  then show ?thesis by (simp add: deploy_trace_def)
qed

section \<open>Opening\<close>

lemma acts_in_upload_tmp [acts_intros]: "P (UploadFile p tmp) \<Longrightarrow> P CloseTemp \<Longrightarrow> acts_in P (upload_tmp sv p tmp)"
  by (simp add: acts_in_def upload_tmp_def act_def)

definition is_connect :: "raction \<Rightarrow> bool" where
  "is_connect a \<longleftrightarrow> (case a of ConnectDaemon _ \<Rightarrow> True | _ \<Rightarrow> False)"

lemma no_connect:
  "acts_in (\<lambda>a. \<not> is_connect a) (check_remote_runtime sv)" "acts_in (\<lambda>a. \<not> is_connect a) (deploy_runtime sv local_agentd)"
  "acts_in (\<lambda>a. \<not> is_connect a) (stop_remote_daemon sv)"
  unfolding check_remote_runtime_def deploy_runtime_def stop_remote_daemon_def Let_def
  by (intro acts_intros; simp add: is_connect_def)+

lemma stop_sees_gone:
  assumes "stop_remote_daemon sv l = (l', Inr st)" "rs_exec sv l pid_cmd = Inr out" "parse_pid_file out = Some pid"
    "rs_exec sv (l @ [Exec pid_cmd]) (comm_cmd pid) = Inr comm" "is_agentd_comm comm"
  shows "\<exists>before kill out'. prefix (l @ before @ [Exec kill]) l' \<and> (kill = term_cmd pid \<or> kill = kill9_cmd pid) \<and>
    rs_exec sv (l @ before) kill = Inr out' \<and> contains_str out' ''GONE''"
proof -
  let ?l2 = "l @ [Exec pid_cmd, Exec (comm_cmd pid)]"
  have run: "rbind (kill_daemon sv pid) (\<lambda>forced. remove_socket sv (ret (Inr (DaemonStopped pid forced)))) ?l2 = (l', Inr st)"
    using assms by (simp add: stop_remote_daemon_def remote_steps)
  then obtain l3 forced where kill: "kill_daemon sv pid ?l2 = (l3, Inr forced)"
    and rest: "remove_socket sv (ret (Inr (DaemonStopped pid forced))) l3 = (l', Inr st)"
    by (auto simp: rbind_Inr)
  have acts: "acts_in (\<lambda>_. True) (remove_socket sv (ret (Inr (DaemonStopped pid forced))))" by (intro acts_intros) auto
  have pre: "prefix l3 l'" using acts_in_appends [OF acts rest] by (metis prefixI)
  consider o1 where "rs_exec sv ?l2 (term_cmd pid) = Inr o1" "contains_str o1 ''GONE''" "l3 = ?l2 @ [Exec (term_cmd pid)]"
    | o9 where "rs_exec sv (?l2 @ [Exec (term_cmd pid)]) (kill9_cmd pid) = Inr o9" "contains_str o9 ''GONE''"
        "l3 = ?l2 @ [Exec (term_cmd pid), Exec (kill9_cmd pid)]"
    using kill by (auto simp: kill_daemon_def remote_steps split: sum.splits if_splits)
  then show ?thesis
  proof cases
    case 1
    then show ?thesis using pre
      by (intro exI [of _ "[Exec pid_cmd, Exec (comm_cmd pid)]"] exI [of _ "term_cmd pid"] exI [of _ o1]) simp
  next
    case 2
    then show ?thesis using pre
      by (intro exI [of _ "[Exec pid_cmd, Exec (comm_cmd pid), Exec (term_cmd pid)]"] exI [of _ "kill9_cmd pid"] exI [of _ o9]) simp
  qed
qed

text \<open>
  (C35) What an upgrade does before a session is opened.  \<open>open\<close> connects to the daemon only after the
  runtime it found missing or outdated was deployed with success and, where it was outdated, after the stop of the old daemon
  returned without an error; if one of these fails, no connection is made.  When the pid file could be read then, and the
  process it names was seen to be agentd, that process was reported gone after one of the two kill commands, before the
  connection.  Nothing is promised otherwise: a pid file that is lost or cannot be read also counts as not running, and then the
  session may open on the old daemon.
\<close>

theorem open_after_upgrade:
  assumes "open_persistent sv local_agentd None l = (l @ xs, r)" "a \<in> set xs" "is_connect a"
    and "check_remote_runtime sv l = (l1, Inr probe)" "needs_deploy (rt_state probe)"
  shows "\<exists>l2. deploy_runtime sv local_agentd l1 = (l2, Inr ()) \<and> prefix l2 (l @ xs) \<and>
    (rt_state probe = NeedsUpgrade \<longrightarrow>
      (\<exists>l3 st. stop_remote_daemon sv l2 = (l3, Inr st) \<and> prefix l3 (l @ xs) \<and>
        (\<forall>out pid comm. rs_exec sv l2 pid_cmd = Inr out \<longrightarrow> parse_pid_file out = Some pid \<longrightarrow>
          rs_exec sv (l2 @ [Exec pid_cmd]) (comm_cmd pid) = Inr comm \<longrightarrow> is_agentd_comm comm \<longrightarrow>
          (\<exists>before kill out'. prefix (l2 @ before @ [Exec kill]) l3 \<and> (kill = term_cmd pid \<or> kill = kill9_cmd pid) \<and>
            rs_exec sv (l2 @ before) kill = Inr out' \<and> contains_str out' ''GONE''))))"
proof -
  define stop where "stop = (if should_stop_daemon_after_deploy (rt_state probe)
    then rbind (stop_remote_daemon sv) (\<lambda>_. ret (Inr ())) else ret (Inr ()))"
  define rest where "rest = rbind (bootstrap_daemon sv) (\<lambda>info. rbind (connect_daemon sv (fst info)) (\<lambda>_.
    rbind (act (Rpc ''session.create'') (rs_create sv)) (attach_session sv)))"
  have run: "rbind (rbind (deploy_runtime sv local_agentd) (\<lambda>_. stop)) (\<lambda>_. rest) l1 = (l @ xs, r)"
    using assms(1,5) by (simp add: open_persistent_def rbind_ok [where m = "check_remote_runtime sv" and l = l, OF assms(4)] stop_def rest_def)
  obtain ys where ys: "l1 = l @ ys" "list_all (\<lambda>a. \<not> is_connect a) ys"
    using acts_in_appends [OF no_connect(1) assms(4)] .
  obtain l2 r2 where dep: "deploy_runtime sv local_agentd l1 = (l2, r2)" by (cases "deploy_runtime sv local_agentd l1")
  obtain zs where zs: "l2 = l1 @ zs" "list_all (\<lambda>a. \<not> is_connect a) zs"
    using acts_in_appends [OF no_connect(2) dep] .
  have quiet: "l @ xs \<noteq> l @ ws" if "list_all (\<lambda>a. \<not> is_connect a) ws" for ws
    using that assms(2,3) by (auto simp: list_all_iff)
  have r2: "r2 = Inr ()"
  proof (cases r2)
    case (Inl e)
    then show ?thesis using run dep quiet [of "ys @ zs"] ys zs by (simp add: rbind_def)
  qed simp
  obtain l3 r3 where st: "stop l2 = (l3, r3)" by (cases "stop l2")
  have stop_acts: "acts_in (\<lambda>a. \<not> is_connect a) stop"
    unfolding stop_def by (intro acts_intros no_connect)
  obtain ws where ws: "l3 = l2 @ ws" "list_all (\<lambda>a. \<not> is_connect a) ws"
    using acts_in_appends [OF stop_acts st] .
  have r3: "r3 = Inr ()"
  proof (cases r3)
    case (Inl e)
    then show ?thesis using run dep r2 st quiet [of "ys @ zs @ ws"] ys zs ws by (simp add: rbind_def)
  qed simp
  have rest: "acts_in (\<lambda>_. True) rest"
    unfolding rest_def bootstrap_daemon_def remote_socket_path_def connect_daemon_def attach_session_def
    by (intro acts_intros) auto
  have "rest l3 = (l @ xs, r)" using run dep r2 st r3 by (simp add: rbind_def)
  then obtain us where us: "l @ xs = l3 @ us" using acts_in_appends [OF rest] by metis
  have "\<exists>st. stop_remote_daemon sv l2 = (l3, Inr st)" if "rt_state probe = NeedsUpgrade"
    using st r3 that by (auto simp: stop_def should_stop_daemon_after_deploy_def rbind_def ret_def
        split: prod.splits sum.splits)
  then have "\<exists>l3 st. stop_remote_daemon sv l2 = (l3, Inr st) \<and> prefix l3 (l @ xs)" if "rt_state probe = NeedsUpgrade"
    using that us by (metis prefixI)
  then show ?thesis using dep r2 ws us stop_sees_gone by (metis append.assoc prefixI)
qed

lemma demo_check:
  "check_remote_runtime demo_server l =
   (l @ [Exec version_check_cmd], Inr \<lparr>rt_state = NeedsUpgrade, rt_remote_build = None\<rparr>)"
proof -
  have ne: "version_check_cmd \<noteq> pid_cmd" "version_check_cmd \<noteq> comm_cmd 7" "version_check_cmd \<noteq> term_cmd 7"
    "version_check_cmd \<noteq> home_cmd"
    by (simp_all add: version_check_cmd_def pid_cmd_def comm_cmd_def term_cmd_def home_cmd_def)
  have "exec demo_server version_check_cmd l = (l @ [Exec version_check_cmd], Inr ''old'')"
    by (simp add: demo_server_def ne exec_def act_def)
  moreover have "parse_remote_build demo_server ''old'' = None" by (simp add: parse_remote_build_def demo_server_def get_str_def Let_def)
  ultimately show ?thesis
    by (simp add: check_remote_runtime_def rcase_def ret_def Let_def)
qed

lemma demo_open:
  "\<exists>xs r. open_persistent demo_server (Some ''agentd'') None [] = ([] @ xs, r) \<and> (\<exists>s. ConnectDaemon s \<in> set xs)"
proof -
  have "\<exists>xs s j. bootstrap_daemon demo_server l = (l @ xs, Inr (s, j))" for l
    by (simp add: bootstrap_daemon_def remote_socket_path_def rbind_def exec_def act_def ret_def demo_server_def get_str_def)
  then obtain bx bs bj where boot: "\<And>l. bootstrap_daemon demo_server l = (l @ bx l, Inr (bs l, bj l))" by metis
  have rest: "connect_daemon demo_server s l = (l @ [ConnectDaemon s], Inr ''0.1.0'')"
    "act (Rpc ''session.create'') (rs_create demo_server) l = (l @ [Rpc ''session.create''], Inr ''s'')"
    "attach_session demo_server i l = (l @ [Rpc ''session.attach''], Inr (i, None))" for s i l
    by (simp_all add: connect_daemon_def attach_session_def rbind_def act_def ret_def demo_server_def initial_data_def)
  show ?thesis
    by (simp add: open_persistent_def rbind_def demo_check demo_deploy demo_stop boot rest needs_deploy_def
        should_stop_daemon_after_deploy_def ret_def) blast
qed

theorem open_after_upgrade_witness:
  "\<exists>l2 xs r. open_persistent demo_server (Some ''agentd'') None [] = (xs, r) \<and>
     deploy_runtime demo_server (Some ''agentd'') [Exec version_check_cmd] = (l2, Inr ()) \<and>
     (\<exists>l3 st. stop_remote_daemon demo_server l2 = (l3, Inr st) \<and> prefix l3 xs)"
proof -
  obtain xs r s where o: "open_persistent demo_server (Some ''agentd'') None [] = ([] @ xs, r)" "ConnectDaemon s \<in> set xs"
    using demo_open by blast
  from open_after_upgrade [OF o _ demo_check] o(1) show ?thesis
    by (auto simp: is_connect_def needs_deploy_def)
qed

end
