(* ===== verification/Ansi_Strip.thy ===== *)
theory Ansi_Strip
  imports Prelude
begin

text \<open>
  Terminal control sequence stripping, src/domain/ansi_strip.rs: the stateless
  \<open>strip_control_sequences\<close>, and \<open>strip_page\<close>, which carries the incomplete
  sequence at the end of one page into the next.  The scanning loops of the code run an index over
  the input; here they run over the rest of the input from that index on.  The lemmas relate both
  functions to one scanner \<open>scan\<close>, whose append law gives the independence of the page
  boundaries.
\<close>

section \<open>Byte classes\<close>

definition ESC :: byte where "ESC = 0x1B"
definition BEL :: byte where "BEL = 0x07"
definition BACKSLASH :: byte where "BACKSLASH = 0x5C"

definition is_param :: "byte \<Rightarrow> bool" where "is_param b \<longleftrightarrow> 0x30 \<le> b \<and> b \<le> 0x3F"
definition is_inter :: "byte \<Rightarrow> bool" where "is_inter b \<longleftrightarrow> 0x20 \<le> b \<and> b \<le> 0x2F"
definition is_csi_final :: "byte \<Rightarrow> bool" where "is_csi_final b \<longleftrightarrow> 0x40 \<le> b \<and> b \<le> 0x7E"
definition is_esc_final :: "byte \<Rightarrow> bool" where "is_esc_final b \<longleftrightarrow> 0x30 \<le> b \<and> b \<le> 0x7E"

text \<open>\<open>P\<close>, \<open>_\<close>, \<open>^\<close> and \<open>X\<close>: the introducers of DCS, APC, PM and SOS.\<close>

definition is_string_intro :: "byte \<Rightarrow> bool" where
  "is_string_intro b \<longleftrightarrow> b = 0x50 \<or> b = 0x5F \<or> b = 0x5E \<or> b = 0x58"

definition CSI_INTRO :: byte where "CSI_INTRO = 0x5B"
definition OSC_INTRO :: byte where "OSC_INTRO = 0x5D"

section \<open>Consuming one sequence\<close>

definition consume_csi :: "bytes \<Rightarrow> nat option" where
  "consume_csi rest =
     (let i = length (takeWhile is_param rest);
          j = i + length (takeWhile is_inter (drop i rest))
      in if j < length rest \<and> is_csi_final (rest ! j) then Some (j + 1) else None)"

fun consume_string_terminator :: "bytes \<Rightarrow> byte \<Rightarrow> nat" where
  "consume_string_terminator [] bel = 0"
| "consume_string_terminator (x # xs) bel =
     (if bel \<noteq> 0 \<and> x = bel then 1
      else if x = ESC \<and> xs \<noteq> [] \<and> hd xs = BACKSLASH then 2
      else if x = ESC \<and> bel \<noteq> 0 then 0
      else Suc (consume_string_terminator xs bel))"

fun consume_string_until :: "bytes \<Rightarrow> byte \<Rightarrow> nat option" where
  "consume_string_until [] bel = None"
| "consume_string_until (x # xs) bel =
     (if bel \<noteq> 0 \<and> x = bel then Some 1
      else if x = ESC \<and> xs \<noteq> [] \<and> hd xs = BACKSLASH then Some 2
      else if x = ESC \<and> bel \<noteq> 0 then Some 0
      else map_option Suc (consume_string_until xs bel))"

section \<open>Stateless stripping\<close>

function strip_control_sequences :: "bytes \<Rightarrow> bytes" where
  "strip_control_sequences [] = []"
| "strip_control_sequences (b # rest) =
     (if b = ESC then
        (case rest of
           [] \<Rightarrow> [b]
         | next # r \<Rightarrow>
             if next = CSI_INTRO then
               (case consume_csi r of
                  Some consumed \<Rightarrow> strip_control_sequences (drop consumed r)
                | None \<Rightarrow> [])
             else if next = OSC_INTRO then
               strip_control_sequences (drop (consume_string_terminator r BEL) r)
             else if is_string_intro next then
               strip_control_sequences (drop (consume_string_terminator r 0) r)
             else
               let j = length (takeWhile is_inter rest)
               in if j < length rest \<and> is_esc_final (rest ! j)
                  then strip_control_sequences (drop (j + 1) rest)
                  else if j \<ge> length rest then []
                  else strip_control_sequences (drop j rest))
      else b # strip_control_sequences rest)"
  by pat_completeness auto
termination
  by (relation "measure length") auto

section \<open>Stripping page by page\<close>

definition MAX_PENDING_BYTES :: nat where "MAX_PENDING_BYTES = 8 * 1024"

text \<open>
  \<open>sequence_end\<close>: the bytes a complete sequence takes after its ESC, \<open>None\<close> if the end of
  the input cuts it off.
\<close>

definition sequence_end :: "bytes \<Rightarrow> nat option" where
  "sequence_end rest =
     (case rest of
        [] \<Rightarrow> None
      | next # r \<Rightarrow>
          if next = CSI_INTRO then map_option (\<lambda>n. 1 + n) (consume_csi r)
          else if next = OSC_INTRO then map_option (\<lambda>n. 1 + n) (consume_string_until r BEL)
          else if is_string_intro next then map_option (\<lambda>n. 1 + n) (consume_string_until r 0)
          else
            let j = length (takeWhile is_inter rest)
            in if j < length rest \<and> is_esc_final (rest ! j) then Some (j + 1)
               else if j \<ge> length rest then None
               else Some j)"

function incomplete_from :: "nat \<Rightarrow> bytes \<Rightarrow> nat option" where
  "incomplete_from i [] = None"
| "incomplete_from i (b # rest) =
     (if b = ESC then
        (case sequence_end rest of
           Some n \<Rightarrow> incomplete_from (i + 1 + n) (drop n rest)
         | None \<Rightarrow> Some i)
      else incomplete_from (i + 1) rest)"
  by pat_completeness auto
termination
  by (relation "measure (\<lambda>(i, xs). length xs)") auto

definition incomplete_trailing_start :: "bytes \<Rightarrow> nat option" where
  "incomplete_trailing_start input = incomplete_from 0 input"

record strip_page_result =
  sp_text :: bytes
  sp_trailing :: bytes

definition strip_page_inner :: "bytes \<Rightarrow> strip_page_result" where
  "strip_page_inner full =
     (case incomplete_trailing_start full of
        None \<Rightarrow> \<lparr>sp_text = strip_control_sequences full, sp_trailing = []\<rparr>
      | Some start \<Rightarrow>
          let text = strip_control_sequences (take start full)
          in if length full - start > MAX_PENDING_BYTES
             then \<lparr>sp_text = text, sp_trailing = []\<rparr>
             else \<lparr>sp_text = text, sp_trailing = drop start full\<rparr>)"

definition strip_page :: "bytes \<Rightarrow> bytes \<Rightarrow> strip_page_result" where
  "strip_page input pending =
     (if pending = [] then strip_page_inner input else strip_page_inner (pending @ input))"

section \<open>One scanner for both\<close>

declare strip_control_sequences.simps [simp del] incomplete_from.simps [simp del]

text \<open>The text of the complete sequences, and the incomplete sequence at the end.\<close>

function scan :: "bytes \<Rightarrow> bytes \<times> bytes" where
  "scan [] = ([], [])"
| "scan (b # rest) =
     (if b = ESC then
        (case sequence_end rest of
           Some n \<Rightarrow> scan (drop n rest)
         | None \<Rightarrow> ([], b # rest))
      else apfst (Cons b) (scan rest))"
  by pat_completeness auto
termination
  by (relation "measure length") auto

declare scan.simps [simp del]

lemma consume_string_until_le: "consume_string_until r bel = Some n \<Longrightarrow> n \<le> length r"
proof (induction r bel arbitrary: n rule: consume_string_until.induct)
  case (2 x xs bel)
  then show ?case by (cases xs) (auto split: if_splits)
qed simp

lemma hd_take_ne: "take m xs \<noteq> [] \<Longrightarrow> hd (take m xs) = hd xs \<and> xs \<noteq> []"
  by (cases xs; cases m) auto

text \<open>The four ways the string loops treat a byte.\<close>

lemma string_step_cases:
  obtains (bel) "bel \<noteq> 0" "x = bel"
    | (st) "\<not> (bel \<noteq> 0 \<and> x = bel)" "x = ESC" "xs \<noteq> []" "hd xs = BACKSLASH"
    | (esc) "\<not> (bel \<noteq> 0 \<and> x = bel)" "\<not> (x = ESC \<and> xs \<noteq> [] \<and> hd xs = BACKSLASH)" "x = ESC" "bel \<noteq> 0"
    | (step) "\<not> (bel \<noteq> 0 \<and> x = bel)" "\<not> (x = ESC \<and> xs \<noteq> [] \<and> hd xs = BACKSLASH)"
        "\<not> (x = ESC \<and> bel \<noteq> 0)"
  by blast

lemma consume_string_until_Some:
  "consume_string_until r bel = Some n \<Longrightarrow> n \<le> m \<Longrightarrow> consume_string_terminator (take m r) bel = n"
proof (induction r bel arbitrary: n m rule: consume_string_until.induct)
  case (2 x xs bel)
  show ?case
  proof (cases rule: string_step_cases [where bel = bel and x = x and xs = xs])
    case bel
    then show ?thesis using "2.prems" by (cases m) auto
  next
    case st
    then obtain ys where xs: "xs = BACKSLASH # ys" by (cases xs) auto
    have "n = 2" using "2.prems"(1) st by auto
    then obtain k where "m = Suc (Suc k)" using "2.prems"(2) by (metis add_2_eq_Suc le_iff_add)
    then show ?thesis using st xs \<open>n = 2\<close> by auto
  next
    case esc
    then have "n = 0" using "2.prems"(1) by (auto split: if_splits)
    then show ?thesis using esc hd_take_ne [of "m - 1" xs] by (cases m) auto
  next
    case step
    then obtain k where k: "consume_string_until xs bel = Some k" and n: "n = Suc k"
      using "2.prems"(1) by (simp split: if_splits) blast
    then obtain m' where m: "m = Suc m'" using "2.prems"(2) by (cases m) auto
    have "consume_string_terminator (take m' xs) bel = k"
      using "2.IH" step k n m "2.prems"(2) by simp
    then show ?thesis using step n m hd_take_ne [of m' xs] by auto
  qed
qed simp

lemma consume_string_until_None:
  "consume_string_until r bel = None \<Longrightarrow> consume_string_terminator r bel = length r"
  by (induction r bel rule: consume_string_until.induct) (auto split: if_splits)

lemma hd_append_ne: "xs \<noteq> [] \<Longrightarrow> hd (xs @ b) = hd xs"
  by (cases xs) auto

lemma consume_string_until_append:
  "consume_string_until r bel = Some n \<Longrightarrow>
   consume_string_until (r @ b) bel = Some n \<or>
   (r = take n r @ [ESC] \<and> n < length r \<and> b \<noteq> [] \<and> hd b = BACKSLASH \<and>
    consume_string_until (r @ b) bel = Some (n + 2))"
proof (induction r bel arbitrary: n rule: consume_string_until.induct)
  case (2 x xs bel)
  show ?case
  proof (cases rule: string_step_cases [where bel = bel and x = x and xs = xs])
    case bel
    then show ?thesis using "2.prems" by simp
  next
    case st
    then have "n = 2" using "2.prems" by auto
    then show ?thesis using st by (auto simp: hd_append_ne)
  next
    case esc
    then have n: "n = 0" using "2.prems" by (auto split: if_splits)
    show ?thesis
    proof (cases "xs = []")
      case True
      then show ?thesis using esc n by auto
    next
      case False
      then show ?thesis using esc n by (auto simp: hd_append_ne)
    qed
  next
    case step
    then obtain k where k: "consume_string_until xs bel = Some k" and n: "n = Suc k"
      using "2.prems" by (simp split: if_splits) blast
    have ne: "\<not> (x = ESC \<and> xs @ b \<noteq> [] \<and> hd (xs @ b) = BACKSLASH)" if "xs \<noteq> []"
      using step that by (auto simp: hd_append_ne)
    have xs: "xs \<noteq> []" using k by auto
    have "consume_string_until ((x # xs) @ b) bel = map_option Suc (consume_string_until (xs @ b) bel)"
      using step ne [OF xs] by auto
    moreover note "2.IH" [OF step k]
    ultimately show ?thesis using n by auto
  qed
qed simp

text \<open>The byte classes are disjoint where the loops rely on it.\<close>

lemma byte_classes:
  "is_csi_final b \<Longrightarrow> \<not> is_param b" "is_csi_final b \<Longrightarrow> \<not> is_inter b"
  "is_esc_final b \<Longrightarrow> \<not> is_inter b" "is_param b \<Longrightarrow> \<not> is_inter b"
  "\<not> is_param ESC" "\<not> is_inter ESC" "\<not> is_csi_final ESC" "\<not> is_esc_final ESC"
  by (auto simp: is_csi_final_def is_param_def is_inter_def is_esc_final_def ESC_def word_le_nat_alt)

lemma takeWhile_take_le: "length (takeWhile P r) \<le> m \<Longrightarrow> takeWhile P (take m r) = takeWhile P r"
proof (induction r arbitrary: m)
  case (Cons x r)
  then show ?case by (cases m) auto
qed simp

lemma takeWhile_stop: "\<forall>x \<in> set p. P x \<Longrightarrow> \<not> P f \<Longrightarrow> takeWhile P (p @ f # t) = p"
  by (simp add: takeWhile_append2)

lemma consume_csi_decomp:
  "\<forall>x \<in> set p. is_param x \<Longrightarrow> \<forall>x \<in> set q. is_inter x \<Longrightarrow> is_csi_final f \<Longrightarrow>
   consume_csi (p @ q @ f # t) = Some (length p + length q + 1)"
proof -
  assume p: "\<forall>x \<in> set p. is_param x" and q: "\<forall>x \<in> set q. is_inter x" and f: "is_csi_final f"
  have "takeWhile is_param (q @ f # t) = []"
    using q f byte_classes by (cases q) auto
  then have "takeWhile is_param (p @ q @ f # t) = p"
    using p by (simp add: takeWhile_append2)
  moreover have "takeWhile is_inter (q @ f # t) = q"
    using q f byte_classes by (simp add: takeWhile_stop)
  ultimately show ?thesis using f by (simp add: consume_csi_def nth_append)
qed

lemma consume_csi_Some:
  assumes "consume_csi r = Some n"
  obtains p q f t where "r = p @ q @ f # t" "n = length p + length q + 1"
    "\<forall>x \<in> set p. is_param x" "\<forall>x \<in> set q. is_inter x" "is_csi_final f"
proof -
  let ?p = "takeWhile is_param r" let ?q = "takeWhile is_inter (drop (length ?p) r)"
  let ?j = "length ?p + length ?q"
  have j: "?j < length r" "is_csi_final (r ! ?j)" "n = ?j + 1"
    using assms by (auto simp: consume_csi_def Let_def split: if_splits)
  let ?d = "drop (length ?p) r"
  have d: "?d = dropWhile is_param r" "drop (length ?q) ?d = dropWhile is_inter ?d"
    by (simp_all add: dropWhile_eq_drop)
  have "r = ?p @ ?d" unfolding d(1) by simp
  also have "?d = ?q @ drop (length ?q) ?d" unfolding d(2) by simp
  also have "drop (length ?q) ?d = drop ?j r" by (simp add: add.commute)
  finally have r: "r = ?p @ ?q @ drop ?j r" .
  have "drop ?j r = r ! ?j # drop (Suc ?j) r" using j by (simp add: Cons_nth_drop_Suc)
  with r have r': "r = ?p @ ?q @ r ! ?j # drop (Suc ?j) r" by simp
  show ?thesis
    by (rule that [OF r' j(3) _ _ j(2)]) (auto dest: set_takeWhileD)
qed

lemma consume_csi_prefix:
  "consume_csi r = Some n \<Longrightarrow> consume_csi (take n r @ b) = Some n \<and> n \<le> length r"
  by (elim consume_csi_Some) (auto simp: consume_csi_decomp)

text \<open>The other escape sequences: intermediate bytes, then one final byte.\<close>

lemma esc_final_prefix:
  assumes "j = length (takeWhile is_inter r)" "j < length r" "is_esc_final (r ! j)"
  shows "length (takeWhile is_inter (take (j + 1) r @ b)) = j" "(take (j + 1) r @ b) ! j = r ! j"
proof -
  have "take (j + 1) r = takeWhile is_inter r @ [r ! j]"
    using assms by (simp add: take_Suc_conv_app_nth takeWhile_eq_take [symmetric])
  moreover have "takeWhile is_inter (takeWhile is_inter r @ r ! j # b) = takeWhile is_inter r"
    by (rule takeWhile_stop) (use assms byte_classes in \<open>auto dest: set_takeWhileD\<close>)
  ultimately show "length (takeWhile is_inter (take (j + 1) r @ b)) = j"
    using assms by simp
  show "(take (j + 1) r @ b) ! j = r ! j" using assms by (simp add: nth_append)
qed

section \<open>Complete and incomplete sequences\<close>

lemma sequence_end_le: "sequence_end r = Some n \<Longrightarrow> n \<le> length r"
  by (auto simp: sequence_end_def Let_def split: list.splits if_splits
      dest: consume_csi_prefix consume_string_until_le)

lemma strip_Nil [simp]: "strip_control_sequences [] = []"
  by (simp add: strip_control_sequences.simps)

lemma strip_plain: "b \<noteq> ESC \<Longrightarrow> strip_control_sequences (b # r) = b # strip_control_sequences r"
  by (simp add: strip_control_sequences.simps)

lemma strip_incomplete:
  "sequence_end r = None \<Longrightarrow> strip_control_sequences (ESC # r) = (if r = [] then [ESC] else [])"
proof (cases r)
  case (Cons x r')
  assume "sequence_end r = None"
  then consider "x = CSI_INTRO" "consume_csi r' = None"
    | "x \<noteq> CSI_INTRO" "x = OSC_INTRO" "consume_string_until r' BEL = None"
    | "x \<noteq> CSI_INTRO" "x \<noteq> OSC_INTRO" "is_string_intro x" "consume_string_until r' 0 = None"
    | "x \<noteq> CSI_INTRO" "x \<noteq> OSC_INTRO" "\<not> is_string_intro x" "length (takeWhile is_inter r) \<ge> length r"
    using Cons by (auto simp: sequence_end_def Let_def split: if_splits)
  then show ?thesis
    by cases (simp_all add: Cons strip_control_sequences.simps(2) [of ESC] consume_string_until_None Let_def)
qed (simp add: strip_control_sequences.simps(2) [of ESC])

text \<open>
  \<open>strip_control_sequences\<close> and \<open>sequence_end\<close> take the same bytes for a complete
  sequence, wherever after its end the input is cut, unless that is directly behind the ESC.
\<close>

lemma strip_complete:
  assumes "sequence_end r = Some n" "n \<le> m" "0 < m"
  shows "strip_control_sequences (ESC # take m r) = strip_control_sequences (drop n (take m r))"
proof -
  from assms(1) obtain x r' where r: "r = x # r'"
    by (auto simp: sequence_end_def split: list.splits)
  show ?thesis
  proof (cases "x = CSI_INTRO \<or> x = OSC_INTRO \<or> is_string_intro x")
    case True
    then obtain k where n: "n = Suc k" and k:
      "x = CSI_INTRO \<and> consume_csi r' = Some k \<or>
       x \<noteq> CSI_INTRO \<and> x = OSC_INTRO \<and> consume_string_until r' BEL = Some k \<or>
       x \<noteq> CSI_INTRO \<and> x \<noteq> OSC_INTRO \<and> is_string_intro x \<and> consume_string_until r' 0 = Some k"
      using assms(1) r by (auto simp: sequence_end_def split: if_splits)
    obtain m' where m: "m = Suc m'" "k \<le> m'" using assms(2) n by (cases m) auto
    have "consume_csi (take m' r') = Some k" if "consume_csi r' = Some k"
      using consume_csi_prefix [OF that, of "drop k (take m' r')"] m
      by (metis append_take_drop_id min.absorb1 take_take)
    note csi = this
    have str: "consume_string_terminator (take m' r') bel = k" if "consume_string_until r' bel = Some k" for bel
      using that m(2) by (rule consume_string_until_Some)
    have lhs: "strip_control_sequences (ESC # take m r) = strip_control_sequences (drop k (take m' r'))"
      if "strip_control_sequences (ESC # x # take m' r') = strip_control_sequences (drop k (take m' r'))"
      using that r m by simp
    have "strip_control_sequences (ESC # x # take m' r') = strip_control_sequences (drop k (take m' r'))"
      using k
    proof (elim disjE conjE)
      assume "x = CSI_INTRO" "consume_csi r' = Some k"
      then show ?thesis using csi by (subst strip_control_sequences.simps(2)) simp
    next
      assume "x \<noteq> CSI_INTRO" "x = OSC_INTRO" "consume_string_until r' BEL = Some k"
      then show ?thesis using str [of BEL] by (subst strip_control_sequences.simps(2)) simp
    next
      assume "x \<noteq> CSI_INTRO" "x \<noteq> OSC_INTRO" "is_string_intro x" "consume_string_until r' 0 = Some k"
      then show ?thesis using str [of 0] by (subst strip_control_sequences.simps(2)) simp
    qed
    then show ?thesis using lhs r n m by simp
  next
    case False
    let ?j = "length (takeWhile is_inter r)"
    have n: "?j < length r" "is_esc_final (r ! ?j) \<and> n = ?j + 1 \<or> \<not> is_esc_final (r ! ?j) \<and> n = ?j"
      using assms(1) r False
      by (auto simp: sequence_end_def Let_def split: if_splits)
    show ?thesis
    proof (cases "is_esc_final (r ! ?j)")
      case True
      then have n': "n = ?j + 1" using n by simp
      have split: "take m r = take (?j + 1) r @ drop (?j + 1) (take m r)"
        using assms(2) n' by (metis append_take_drop_id min.absorb1 take_take)
      have tw: "length (takeWhile is_inter (take m r)) = ?j" "take m r ! ?j = r ! ?j"
        using esc_final_prefix [OF refl n(1) True, of "drop (?j + 1) (take m r)"] split by simp_all
      have "?j < length (take m r)" using n n' assms(2) by simp
      then show ?thesis using r False True tw n' assms(2) n
        by (cases m) (auto simp: strip_control_sequences.simps(2) [of ESC] Let_def)
    next
      case nf: False
      then have n': "n = ?j" using n by simp
      have tw: "takeWhile is_inter (take m r) = takeWhile is_inter r"
        using assms(2) n' takeWhile_take_le by blast
      have nth: "take m r ! ?j = r ! ?j" if "?j < m" using that by simp
      obtain m' where m: "m = Suc m'" using assms(3) by (cases m) auto
      have "?j \<ge> m \<or> \<not> is_esc_final (take m r ! ?j)" using nth nf by force
      then have "strip_control_sequences (ESC # take m r) =
          (if m \<le> ?j then [] else strip_control_sequences (drop ?j (take m r)))"
        using r False m tw n(1)
        by (auto simp: strip_control_sequences.simps(2) [of ESC] Let_def)
      then show ?thesis using n' assms(2) by auto
    qed
  qed
qed

lemma takeWhile_append_stop:
  "length (takeWhile P r) < length r \<Longrightarrow> takeWhile P (r @ b) = takeWhile P r"
  by (induction r) auto

text \<open>
  More input does not change a complete sequence, but for one case: an OSC that a lone ESC at the
  end of the input ended is ended by that ESC and the next byte if that byte is a backslash.
\<close>

lemma sequence_end_append:
  assumes "sequence_end r = Some n"
  shows "sequence_end (r @ b) = Some n \<or>
    (r = take n r @ [ESC] \<and> n < length r \<and> b \<noteq> [] \<and> hd b = BACKSLASH \<and> sequence_end (r @ b) = Some (n + 2))"
proof -
  from assms obtain x r' where r: "r = x # r'"
    by (auto simp: sequence_end_def split: list.splits)
  have str: "map_option (\<lambda>n. 1 + n) (consume_string_until (r' @ b) bel) = Some n \<or>
      (r = take n r @ [ESC] \<and> n < length r \<and> b \<noteq> [] \<and> hd b = BACKSLASH \<and>
       map_option (\<lambda>n. 1 + n) (consume_string_until (r' @ b) bel) = Some (n + 2))"
    if "map_option (\<lambda>n. 1 + n) (consume_string_until r' bel) = Some n" for bel
  proof -
    from that obtain k where k: "consume_string_until r' bel = Some k" "n = Suc k" by auto
    show ?thesis using consume_string_until_append [OF k(1), of b] k(2) r by auto
  qed
  consider (csi) "x = CSI_INTRO" | (osc) "x \<noteq> CSI_INTRO" "x = OSC_INTRO"
    | (string) "x \<noteq> CSI_INTRO" "x \<noteq> OSC_INTRO" "is_string_intro x"
    | (other) "x \<noteq> CSI_INTRO" "x \<noteq> OSC_INTRO" "\<not> is_string_intro x"
    by blast
  then show ?thesis
  proof cases
    case csi
    then obtain k where k: "consume_csi r' = Some k" "n = Suc k"
      using assms r by (auto simp: sequence_end_def)
    have "consume_csi (r' @ b) = Some k"
      using consume_csi_prefix [OF k(1), of "drop k r' @ b"]
      by (metis append_assoc append_take_drop_id)
    then show ?thesis using csi r k by (simp add: sequence_end_def)
  next
    case osc
    then show ?thesis using str [of BEL] assms r by (simp add: sequence_end_def)
  next
    case string
    then show ?thesis using str [of 0] assms r by (simp add: sequence_end_def)
  next
    case other
    let ?j = "length (takeWhile is_inter r)"
    have eq: "sequence_end (r @ c) =
        (let j = length (takeWhile is_inter (r @ c))
         in if j < length (r @ c) \<and> is_esc_final ((r @ c) ! j) then Some (j + 1)
            else if j \<ge> length (r @ c) then None else Some j)" for c
      using other r by (simp add: sequence_end_def)
    have j: "?j < length r"
      using assms eq [of "[]"] by (auto simp: Let_def split: if_splits)
    have "(r @ b) ! ?j = r ! ?j" using j by (simp add: nth_append)
    moreover have "takeWhile is_inter (r @ b) = takeWhile is_inter r"
      using j by (rule takeWhile_append_stop)
    ultimately have "sequence_end (r @ b) = sequence_end r"
      using j eq [of b] eq [of "[]"] by (auto simp: Let_def)
    then show ?thesis using assms by simp
  qed
qed

section \<open>Laws of the scanner\<close>

lemma scan_Nil [simp]: "scan [] = ([], [])"
  by (simp add: scan.simps)

lemma scan_plain: "b \<noteq> ESC \<Longrightarrow> scan (b # r) = apfst (Cons b) (scan r)"
  by (simp add: scan.simps)

lemma scan_complete: "sequence_end r = Some n \<Longrightarrow> scan (ESC # r) = scan (drop n r)"
  by (simp add: scan.simps)

lemma scan_incomplete: "sequence_end r = None \<Longrightarrow> scan (ESC # r) = ([], ESC # r)"
  by (simp add: scan.simps)

lemma scan_lone_esc [simp]: "scan [ESC] = ([], [ESC])"
  by (rule scan_incomplete) (simp add: sequence_end_def)

lemma scan_induct [case_names Nil Plain Complete Incomplete]:
  assumes "P []" "\<And>b r. b \<noteq> ESC \<Longrightarrow> P r \<Longrightarrow> P (b # r)"
    "\<And>r n. sequence_end r = Some n \<Longrightarrow> P (drop n r) \<Longrightarrow> P (ESC # r)"
    "\<And>r. sequence_end r = None \<Longrightarrow> P (ESC # r)"
  shows "P s"
proof (induction s rule: scan.induct)
  case (2 b rest)
  then show ?case using assms(2-4) by (cases "b = ESC"; cases "sequence_end rest") auto
qed (rule assms(1))

lemma sequence_end_st: "sequence_end (BACKSLASH # b) = Some 1"
  by (auto simp: sequence_end_def BACKSLASH_def CSI_INTRO_def OSC_INTRO_def is_string_intro_def
      is_inter_def is_esc_final_def word_le_nat_alt)

lemma scan_append:
  "scan (a @ b) = (fst (scan a) @ fst (scan (snd (scan a) @ b)), snd (scan (snd (scan a) @ b)))"
proof (induction a rule: scan_induct)
  case (Plain x r)
  then show ?case by (simp add: scan_plain apfst_def map_prod_def split: prod.splits)
next
  case (Complete r n)
  show ?case
  proof (cases "sequence_end (r @ b) = Some n")
    case True
    then show ?thesis using Complete sequence_end_le [OF Complete.hyps]
      by (simp add: scan_complete)
  next
    case False
    then have r: "r = take n r @ [ESC]" "n < length r" and b: "b \<noteq> []" "hd b = BACKSLASH"
      and n2: "sequence_end (r @ b) = Some (n + 2)"
      using sequence_end_append [OF Complete.hyps, of b] by auto
    obtain b' where b': "b = BACKSLASH # b'" using b by (cases b) auto
    have len: "length r = n + 1" using r by (metis add.commute length_append_singleton length_take min.absorb4 plus_1_eq_Suc)
    have "drop n r = [ESC]" using r len by (metis append_eq_conv_conj length_take min.absorb4)
    moreover have "drop (n + 2) (r @ b) = b'" using len b' by simp
    ultimately show ?thesis using Complete.hyps n2 b'
      by (simp add: scan_complete sequence_end_st)
  qed
next
  case (Incomplete r)
  then show ?case by (simp add: scan_incomplete)
qed simp

lemma strip_scan:
  "strip_control_sequences s = fst (scan s) @ (if snd (scan s) = [ESC] then [ESC] else [])"
proof (induction s rule: scan_induct)
  case (Complete r n)
  have "r \<noteq> []" using Complete.hyps by (auto simp: sequence_end_def)
  then have "strip_control_sequences (ESC # r) = strip_control_sequences (drop n r)"
    using strip_complete [OF Complete.hyps, of "length r"] sequence_end_le [OF Complete.hyps] by simp
  then show ?case using Complete by (simp add: scan_complete)
qed (simp_all add: strip_plain scan_plain scan_incomplete strip_incomplete)

lemma scan_no_esc: "ESC \<notin> set (fst (scan s))"
  by (induction s rule: scan_induct) (auto simp: scan_plain scan_complete scan_incomplete)

lemma scan_subseq: "subseq (fst (scan s) @ snd (scan s)) s"
proof (induction s rule: scan_induct)
  case (Complete r n)
  have "subseq (drop n r) (ESC # r)"
    by (rule list_emb_Cons, rule suffix_imp_subseq, rule suffix_drop)
  from subseq_order.trans [OF Complete.IH this] show ?case
    by (simp only: scan_complete [OF Complete.hyps])
qed (simp_all add: scan_plain scan_incomplete)

text \<open>The incomplete sequence is a suffix of the input.\<close>

lemma suffix_scan_tail: "suffix (snd (scan s)) s"
proof (induction s rule: scan_induct)
  case (Plain b r)
  then show ?case by (simp add: scan_plain suffix_ConsI)
next
  case (Complete r n)
  have "suffix (drop n r) (ESC # r)" by (simp add: suffix_ConsI suffix_drop)
  from suffix_order.trans [OF Complete.IH this] show ?case
    by (simp only: scan_complete [OF Complete.hyps])
qed (simp_all add: scan_incomplete)

lemma scan_split: obtains p where "s = p @ snd (scan s)"
  using suffix_scan_tail by (auto simp: suffix_def)

lemma complete_split:
  assumes "sequence_end r = Some n" "ESC # r = p @ snd (scan (ESC # r))"
    and "drop n r = q @ snd (scan (drop n r))"
  shows "p = ESC # take n r @ q"
proof -
  let ?t = "snd (scan (drop n r))"
  have "p @ ?t = ESC # r" using assms(2) by (simp only: scan_complete [OF assms(1)])
  also have "\<dots> = ESC # take n r @ drop n r" by simp
  also have "\<dots> = ESC # take n r @ q @ ?t" by (subst assms(3)) (rule refl)
  finally have "p @ ?t = (ESC # take n r @ q) @ ?t" by simp
  then show ?thesis by (simp only: append_same_eq)
qed

lemma scan_snd_hd: "snd (scan s) \<noteq> [] \<Longrightarrow> hd (snd (scan s)) = ESC"
  by (induction s rule: scan_induct) (auto simp: scan_plain scan_complete scan_incomplete)

section \<open>The pages of one stream\<close>

definition no_double_esc :: "bytes \<Rightarrow> bool" where
  "no_double_esc s \<longleftrightarrow> \<not> sublist [ESC, ESC] s"

lemma no_double_esc_suffix: "no_double_esc s \<Longrightarrow> suffix t s \<Longrightarrow> no_double_esc t"
  unfolding no_double_esc_def by (meson sublist_order.order.trans suffix_imp_sublist)

lemma incomplete_from_scan:
  "s = p @ snd (scan s) \<Longrightarrow>
   incomplete_from i s = (if snd (scan s) = [] then None else Some (i + length p))"
proof (induction s arbitrary: i p rule: scan_induct)
  case (Plain b r)
  obtain q where q: "r = q @ snd (scan r)" by (rule scan_split)
  have "p = b # q" using Plain.prems q Plain.hyps by (metis append_Cons append_same_eq scan_plain snd_apfst)
  then show ?case using Plain.IH [OF q] Plain.hyps
    by (simp add: incomplete_from.simps(2) scan_plain)
next
  case (Complete r n)
  obtain q where q: "drop n r = q @ snd (scan (drop n r))" by (rule scan_split)
  have "p = ESC # take n r @ q" by (rule complete_split [OF Complete.hyps Complete.prems q])
  then show ?case using Complete.IH [OF q] Complete.hyps sequence_end_le [OF Complete.hyps]
    by (simp add: incomplete_from.simps(2) scan_complete)
next
  case (Incomplete r)
  then show ?case by (simp add: incomplete_from.simps(2) scan_incomplete)
qed (simp add: incomplete_from.simps)

definition incomplete_tail :: "bytes \<Rightarrow> bytes" where
  "incomplete_tail s =
     (case incomplete_trailing_start s of None \<Rightarrow> [] | Some i \<Rightarrow> drop i s)"

lemma incomplete_tail_scan: "incomplete_tail s = snd (scan s)"
proof -
  obtain p where p: "s = p @ snd (scan s)" by (rule scan_split)
  then have "drop (length p) s = snd (scan s)" by (metis append_eq_conv_conj)
  then show ?thesis using incomplete_from_scan [OF p, of 0]
    by (auto simp: incomplete_tail_def incomplete_trailing_start_def)
qed

text \<open>
  Cutting before the incomplete sequence and stripping the front gives the scanned text, as long as
  no ESC stands directly before the incomplete sequence.
\<close>

lemma strip_front_scan:
  "no_double_esc s \<Longrightarrow> s = p @ snd (scan s) \<Longrightarrow> strip_control_sequences p = fst (scan s)"
proof (induction s arbitrary: p rule: scan_induct)
  case (Plain b r)
  have nd: "no_double_esc r" by (rule no_double_esc_suffix [OF Plain.prems(1)]) (simp add: suffix_ConsI)
  obtain q where q: "r = q @ snd (scan r)" by (rule scan_split)
  have "p = b # q" using Plain.prems q Plain.hyps by (metis append_Cons append_same_eq scan_plain snd_apfst)
  then show ?case using Plain.IH [OF nd q] Plain.hyps by (simp add: strip_plain scan_plain)
next
  case (Complete r n)
  let ?t = "snd (scan (drop n r))"
  obtain q where q: "drop n r = q @ ?t" by (rule scan_split)
  have p: "p = ESC # take n r @ q" by (rule complete_split [OF Complete.hyps Complete.prems(2) q])
  have n: "n \<le> length r" using Complete.hyps by (rule sequence_end_le)
  have nd: "no_double_esc (drop n r)"
    by (rule no_double_esc_suffix [OF Complete.prems(1)]) (simp add: suffix_ConsI suffix_drop)
  have "take n r @ (q @ ?t) = take n r @ drop n r" by (simp only: q [symmetric])
  then have r: "r = (take n r @ q) @ ?t" by simp
  have "0 < length (take n r @ q)"
  proof (rule ccontr)
    assume "\<not> 0 < length (take n r @ q)"
    then have t: "?t = r" and ne: "r \<noteq> []"
      using r Complete.hyps by (auto simp: sequence_end_def)
    then have "hd r = ESC" using scan_snd_hd [of "drop n r"] by simp
    then obtain r' where "r = ESC # r'" using ne by (cases r) auto
    then have "sublist [ESC, ESC] (ESC # r)"
      using sublist_appendI [of "[ESC, ESC]" "[]" r'] by simp
    then show False using Complete.prems by (simp add: no_double_esc_def)
  qed
  moreover have tk: "take (length (take n r @ q)) r = take n r @ q"
    by (metis append_eq_conv_conj r)
  ultimately have "strip_control_sequences (ESC # take n r @ q) = strip_control_sequences (drop n (take n r @ q))"
    using strip_complete [OF Complete.hyps, of "length (take n r @ q)"] n by simp
  also have "drop n (take n r @ q) = q" using n by simp
  also have "strip_control_sequences q = fst (scan (drop n r))" by (rule Complete.IH [OF nd q])
  finally show ?case using Complete.hyps p by (simp add: scan_complete)
qed (simp_all add: scan_incomplete)

lemma strip_page_scan:
  assumes "no_double_esc (pending @ input)"
  shows "strip_page input pending =
    \<lparr>sp_text = fst (scan (pending @ input)),
     sp_trailing = (if length (snd (scan (pending @ input))) > MAX_PENDING_BYTES then []
                    else snd (scan (pending @ input)))\<rparr>"
proof -
  have "strip_page_inner s = \<lparr>sp_text = fst (scan s),
      sp_trailing = (if length (snd (scan s)) > MAX_PENDING_BYTES then [] else snd (scan s))\<rparr>"
    if nd: "no_double_esc s" for s
  proof -
    obtain p where p: "s = p @ snd (scan s)" by (rule scan_split)
    have tk: "take (length p) s = p" "drop (length p) s = snd (scan s)"
      "length s - length p = length (snd (scan s))"
      by (metis append_eq_conv_conj p, metis append_eq_conv_conj p, metis add_diff_cancel_left' length_append p)
    show ?thesis
      using incomplete_from_scan [OF p, of 0] strip_front_scan [OF nd p] strip_scan [of s] tk
      by (auto simp: strip_page_inner_def incomplete_trailing_start_def Let_def)
  qed
  from this [OF assms] show ?thesis by (auto simp: strip_page_def)
qed

text \<open>Sequential paging: each page is stripped with what the page before left over.\<close>

fun strip_pages :: "bytes \<Rightarrow> bytes list \<Rightarrow> strip_page_result" where
  "strip_pages pending [] = \<lparr>sp_text = [], sp_trailing = pending\<rparr>"
| "strip_pages pending (p # ps) =
     (let r = strip_page p pending; r' = strip_pages (sp_trailing r) ps
      in \<lparr>sp_text = sp_text r @ sp_text r', sp_trailing = sp_trailing r'\<rparr>)"

lemma strip_pages_scan:
  assumes "no_double_esc (pre @ concat pages)"
    and "\<And>k. k \<le> length pages \<Longrightarrow> length (snd (scan (pre @ concat (take k pages)))) \<le> MAX_PENDING_BYTES"
  shows "strip_pages (snd (scan pre)) pages =
    \<lparr>sp_text = fst (scan (snd (scan pre) @ concat pages)), sp_trailing = snd (scan (pre @ concat pages))\<rparr>"
  using assms
proof (induction pages arbitrary: pre)
  case Nil
  then show ?case using scan_append [of pre "[]"] by (metis append_Nil2 concat.simps(1) fst_conv append_self_conv strip_pages.simps(1))
next
  case (Cons p ps)
  let ?q = "snd (scan pre)"
  have app: "scan (pre @ x) = (fst (scan pre) @ fst (scan (?q @ x)), snd (scan (?q @ x)))" for x
    by (rule scan_append)
  have nd: "no_double_esc (?q @ p)"
  proof -
    have "suffix (?q @ p @ concat ps) (pre @ p @ concat ps)"
      using suffix_scan_tail [of pre] by (simp add: suffix_append)
    then have "no_double_esc ((?q @ p) @ concat ps)" using Cons.prems(1) no_double_esc_suffix by simp
    then show ?thesis unfolding no_double_esc_def
      by (meson prefixI prefix_imp_sublist sublist_order.order.trans)
  qed
  have short: "length (snd (scan (?q @ p))) \<le> MAX_PENDING_BYTES"
    using Cons.prems(2) [of 1] app [of p] by simp
  have page: "strip_page p ?q = \<lparr>sp_text = fst (scan (?q @ p)), sp_trailing = snd (scan (pre @ p))\<rparr>"
    using strip_page_scan [OF nd] short app [of p] by simp
  have IH: "strip_pages (snd (scan (pre @ p))) ps =
      \<lparr>sp_text = fst (scan (snd (scan (pre @ p)) @ concat ps)),
       sp_trailing = snd (scan ((pre @ p) @ concat ps))\<rparr>"
  proof (rule Cons.IH)
    show "no_double_esc ((pre @ p) @ concat ps)" using Cons.prems(1) by simp
    show "length (snd (scan ((pre @ p) @ concat (take k ps)))) \<le> MAX_PENDING_BYTES"
      if "k \<le> length ps" for k
      using Cons.prems(2) [of "Suc k"] that by simp
  qed
  have "fst (scan (?q @ p @ concat ps)) = fst (scan (?q @ p)) @ fst (scan (snd (scan (?q @ p)) @ concat ps))"
    using scan_append [of "?q @ p" "concat ps"] by simp
  then show ?case using page IH app [of p] by (simp add: Let_def)
qed

section \<open>Properties\<close>

lemma strip_pages_concat:
  assumes "no_double_esc (concat pages)"
    and "\<And>k. k \<le> length pages \<Longrightarrow> length (incomplete_tail (concat (take k pages))) \<le> MAX_PENDING_BYTES"
  shows "strip_pages [] pages = strip_page (concat pages) []"
proof -
  have "length (snd (scan (concat pages))) \<le> MAX_PENDING_BYTES"
    using assms(2) [of "length pages"] by (simp add: incomplete_tail_scan)
  moreover have "strip_pages (snd (scan [])) pages =
      \<lparr>sp_text = fst (scan (snd (scan []) @ concat pages)), sp_trailing = snd (scan ([] @ concat pages))\<rparr>"
    using assms by (intro strip_pages_scan) (auto simp: incomplete_tail_scan)
  ultimately show ?thesis using strip_page_scan [of "[]" "concat pages"] assms(1) by simp
qed

text \<open>
  Page boundaries do not matter: stripping a stream page by page, each page with the incomplete
  sequence the page before left over, gives the text and the leftover that stripping the whole
  stream at once gives.  The hypotheses are those under which the code can promise it: no two ESC
  bytes in a row, and no incomplete sequence longer than the 8 KiB the code keeps.
\<close>

lemma strip_pages_independent:
  assumes "no_double_esc (concat pages)"
    and "\<And>k. k \<le> length pages \<Longrightarrow> length (incomplete_tail (concat (take k pages))) \<le> MAX_PENDING_BYTES"
  shows "strip_pages [] pages = strip_page (concat pages) []"
  using assms by (rule strip_pages_concat)

lemmas ansi_eval = incomplete_tail_def incomplete_trailing_start_def incomplete_from.simps
  sequence_end_def consume_csi_def no_double_esc_def sublist_code is_param_def is_inter_def
  is_csi_final_def is_esc_final_def is_string_intro_def ESC_def BEL_def BACKSLASH_def CSI_INTRO_def
  OSC_INTRO_def MAX_PENDING_BYTES_def

text \<open>
  The stripped text is a subsequence of the input, keeps no ESC but possibly one at the very end
  of the input, is the input itself when that has no ESC, and is not changed by stripping it again.
\<close>

lemma strip_clean:
  "subseq (strip_control_sequences s) s \<and> ESC \<notin> set (butlast (strip_control_sequences s)) \<and>
   (strip_control_sequences s = s \<longleftrightarrow> ESC \<notin> set (butlast s)) \<and>
   strip_control_sequences (strip_control_sequences s) = strip_control_sequences s"
proof -
  let ?t = "strip_control_sequences"
  have sub: "subseq (?t s) s"
  proof (cases "snd (scan s) = [ESC]")
    case True
    then show ?thesis using scan_subseq [of s] strip_scan [of s] by simp
  next
    case False
    then have "?t s = fst (scan s)" by (simp add: strip_scan)
    moreover have "subseq (fst (scan s)) (fst (scan s) @ snd (scan s))"
      by (simp add: prefix_imp_subseq)
    ultimately show ?thesis using scan_subseq [of s] subseq_order.trans by metis
  qed
  have clean: "ESC \<notin> set (butlast (?t u))" for u
    using scan_no_esc [of u] by (auto simp: strip_scan dest: in_set_butlastD)
  have keep: "?t u = u" if "ESC \<notin> set (butlast u)" for u
    using that
  proof (induction u)
    case (Cons b u)
    show ?case
    proof (cases "u = []")
      case True
      then show ?thesis by (simp add: strip_control_sequences.simps)
    next
      case False
      then show ?thesis using Cons by (auto simp: strip_plain)
    qed
  qed simp
  show ?thesis using sub clean keep by metis
qed

text \<open>
  A CSI sequence with a byte that no CSI sequence may have there (a control byte, a byte of a
  non-ASCII character) makes the stripper drop all the rest of the input, complete lines included,
  although the sequence does not reach the end of the input.
\<close>

lemma csi_abort_drops_rest:
  assumes "ESC \<notin> set pre" and "\<not> is_param c" "\<not> is_inter c" "\<not> is_csi_final c"
  shows "strip_control_sequences (pre @ [ESC, CSI_INTRO, c] @ rest) = pre"
proof -
  have "consume_csi (c # rest) = None" using assms by (simp add: consume_csi_def)
  then have "strip_control_sequences ([ESC, CSI_INTRO, c] @ rest) = []"
    by (simp add: strip_control_sequences.simps(2) [of ESC])
  moreover have "strip_control_sequences (p @ t) = p @ strip_control_sequences t"
    if "ESC \<notin> set p" for p t
    using that by (induction p) (auto simp: strip_plain)
  ultimately show ?thesis using assms(1) by simp
qed

text \<open>
  Two ESC bytes in a row at the end of a page: the page-wise stripper delivers an ESC byte as
  text, which the same bytes stripped at once, with the sequence completed, do not contain.
\<close>

lemma strip_page_double_esc:
  "sp_text (strip_page [ESC, ESC] []) = [ESC] \<and>
   sp_text (strip_pages [] [[ESC, ESC], [CSI_INTRO, 0x6D]]) = [ESC] \<and>
   sp_text (strip_page [ESC, ESC, CSI_INTRO, 0x6D] []) = []"
  by (simp add: strip_page_def strip_page_inner_def strip_control_sequences.simps ansi_eval Let_def)

end
