(* ===== verification/Output_Engine.thy ===== *)
theory Output_Engine
  imports Ring_Buffer Ansi_Strip Text
begin

text \<open>
  \<open>OutputEngine\<close> of src/domain/output.rs: the ring buffer with the drain cursor
  \<open>mark_cursor\<close> and the state of page-wise ANSI stripping, and the four read modes of
  \<open>read_output\<close>.

  The two blocking modes wait for the PTY and for timers.  What happens while they wait is a list of
  ticks, each with the bytes the read task has written since the tick before: in \<open>wait_for\<close> a
  tick is a wake-up of the watch channel, in \<open>settle\<close> it is a 50 ms poll with its time in
  milliseconds; \<open>Expire\<close> is the deadline.  The result is \<open>None\<close> while the call still
  waits.  The regex crate is a parameter: \<open>rx pattern\<close> is \<open>Regex::new(pattern).ok()\<close>,
  a found match being its byte range.
\<close>

section \<open>Parameters, results and state\<close>

type_synonym regex_crate = "string \<Rightarrow> (bytes \<Rightarrow> (nat \<times> nat) option) option"

datatype tick = Tick nat bytes | Expire bytes

record read_output_params =
  ro_wait_for :: "string option"
  ro_timeout_secs :: "nat option"
  ro_tail_lines :: "nat option"
  ro_since_cursor :: "nat option"
  ro_max_bytes :: "nat option"
  ro_context_lines :: "nat option"
  ro_strip_ansi :: bool

datatype read_mode = SinceCursor | TailMode | WaitFor | Settle

record read_output_result =
  rr_output :: bytes
  rr_cursor :: nat
  rr_has_more :: bool
  rr_is_truncated :: bool
  rr_matched :: bool
  rr_timed_out :: bool
  rr_mode :: read_mode

definition SETTLE_THRESHOLD_MS :: nat where "SETTLE_THRESHOLD_MS = 300"
definition DEFAULT_TIMEOUT_SECS :: nat where "DEFAULT_TIMEOUT_SECS = 5"
definition MAX_TIMEOUT_SECS :: nat where "MAX_TIMEOUT_SECS = 60"
definition MAX_TAIL_LINES :: nat where "MAX_TAIL_LINES = 100"
definition MAX_CONTEXT_LINES :: nat where "MAX_CONTEXT_LINES = 50"
definition DEFAULT_READ_MAX_BYTES :: nat where "DEFAULT_READ_MAX_BYTES = 64 * 1024"

record strip_carry =
  sc_armed :: bool
  sc_next_cursor :: nat
  sc_pending :: bytes

record engine =
  eng_buffer :: ring
  eng_mark :: nat
  eng_carry :: strip_carry

definition carry_default :: strip_carry where
  "carry_default = \<lparr>sc_armed = False, sc_next_cursor = 0, sc_pending = []\<rparr>"

definition from_buffer :: "ring \<Rightarrow> engine" where
  "from_buffer b = \<lparr>eng_buffer = b, eng_mark = 0, eng_carry = carry_default\<rparr>"

definition engine_new :: "nat \<Rightarrow> engine" where
  "engine_new buffer_size = from_buffer (new buffer_size)"

definition eng_write :: "bytes \<Rightarrow> engine \<Rightarrow> engine" where
  "eng_write d e = e\<lparr>eng_buffer := rb_write (eng_buffer e) d\<rparr>"

definition mark_to_latest :: "engine \<Rightarrow> engine" where
  "mark_to_latest e = e\<lparr>eng_mark := rb_written (eng_buffer e)\<rparr>"

section \<open>Helpers\<close>

definition strip_stateless :: "bool \<Rightarrow> bytes \<Rightarrow> bytes" where
  "strip_stateless strip data = (if strip then strip_control_sequences data else data)"

definition find_subslice :: "bytes \<Rightarrow> bytes \<Rightarrow> nat option" where
  "find_subslice data sub = (if sub = [] then Some 0 else find_str sub data)"

definition match_pattern ::
  "bytes \<Rightarrow> (bytes \<Rightarrow> (nat \<times> nat) option) option \<Rightarrow> bytes \<Rightarrow> (nat \<times> nat) option" where
  "match_pattern data re plain =
     (let contains = map_option (\<lambda>pos. (pos, pos + length plain)) (find_subslice data plain)
      in case re of
           Some re_find \<Rightarrow>
             (case (if utf8_valid data then re_find data else None) of
                Some m \<Rightarrow> Some m
              | None \<Rightarrow> contains)
         | None \<Rightarrow> contains)"

text \<open>\<open>data[..pos].rposition('\n') + 1\<close>, and the position behind the next newline.\<close>

definition line_start :: "bytes \<Rightarrow> nat \<Rightarrow> nat" where
  "line_start data pos =
     length (take pos data) - length (takeWhile (\<lambda>b. b \<noteq> NL) (rev (take pos data)))"

definition line_end :: "bytes \<Rightarrow> nat \<Rightarrow> nat" where
  "line_end data pos =
     (let p = length (takeWhile (\<lambda>b. b \<noteq> NL) (drop pos data))
      in if pos + p < length data then pos + p + 1 else length data)"

definition push_line :: "bytes \<Rightarrow> bytes \<Rightarrow> bytes" where
  "push_line out line = (if out \<noteq> [] then out @ [NL] else out) @ line"

definition extract_context :: "bytes \<Rightarrow> nat \<times> nat \<Rightarrow> nat \<Rightarrow> bytes" where
  "extract_context data m context_lines =
     (let start = line_start data (fst m); stop = line_end data (snd m);
          line = take (stop - start) (drop start data)
      in if context_lines = 0 then line
         else
           let before = take start data;
               before_lines = (if before = [] then [] else butlast (split_on NL before));
               out = foldl push_line [] (drop (length before_lines - context_lines) before_lines);
               match_line = (if line \<noteq> [] \<and> last line = NL then butlast line else line);
               out = push_line out match_line;
               after = drop stop data;
               after_lines = (if after = [] then []
                              else if last after = NL then butlast (split_on NL after)
                              else split_on NL after)
           in foldl push_line out (take context_lines after_lines))"

definition has_prompt_suffix :: "bytes \<Rightarrow> bool" where
  "has_prompt_suffix data =
     (if length data \<ge> 2 then
        let tail = drop (length data - 2) data
        in tail = str_bytes ''$ '' \<or> tail = str_bytes ''# '' \<or> tail = str_bytes ''> ''
      else False)"

section \<open>The read modes\<close>

text \<open>\<open>since_cursor\<close>: page-wise stripping, carried over only when the page continues the last one.\<close>

definition strip_since_page :: "engine \<Rightarrow> nat \<Rightarrow> nat \<Rightarrow> bytes \<Rightarrow> engine \<times> bytes" where
  "strip_since_page e read_start read_end page =
     (let carry = eng_carry e;
          contiguous = (\<not> is_truncated (eng_buffer e) read_start \<and>
                        (\<not> sc_armed carry \<or> sc_next_cursor carry = read_start))
      in if \<not> contiguous then (e, strip_control_sequences page)
         else
           let res = strip_page page (sc_pending carry)
           in (e\<lparr>eng_carry := \<lparr>sc_armed = True, sc_next_cursor = read_end,
                               sc_pending = sp_trailing res\<rparr>\<rparr>,
               sp_text res))"

definition read_since_mode :: "engine \<Rightarrow> nat \<Rightarrow> nat \<Rightarrow> bool \<Rightarrow> engine \<times> read_output_result" where
  "read_since_mode e cursor max_bytes strip =
     (let r = read_since_max (eng_buffer e) cursor max_bytes;
          (e', output) = (if strip then strip_since_page e cursor (rs_new_cursor r) (rs_output r)
                          else (e, rs_output r))
      in (e', \<lparr>rr_output = output, rr_cursor = rs_new_cursor r, rr_has_more = rs_has_more r,
               rr_is_truncated = rs_is_truncated r, rr_matched = False, rr_timed_out = False,
               rr_mode = SinceCursor\<rparr>))"

definition read_tail_mode :: "engine \<Rightarrow> nat \<Rightarrow> bool \<Rightarrow> read_output_result" where
  "read_tail_mode e n strip =
     \<lparr>rr_output = strip_stateless strip (tail (eng_buffer e) (min n MAX_TAIL_LINES)),
      rr_cursor = eng_mark e, rr_has_more = False, rr_is_truncated = False, rr_matched = False,
      rr_timed_out = False, rr_mode = TailMode\<rparr>"

text \<open>A match: the drain cursor jumps to the latest byte.\<close>

definition wait_hit :: "engine \<Rightarrow> nat \<Rightarrow> bytes \<Rightarrow> nat \<times> nat \<Rightarrow> nat \<Rightarrow> engine \<times> read_output_result" where
  "wait_hit e mark data m context_lines =
     (let latest = rb_written (eng_buffer e)
      in (e\<lparr>eng_mark := latest\<rparr>,
          \<lparr>rr_output = extract_context data m context_lines, rr_cursor = latest,
           rr_has_more = False, rr_is_truncated = is_truncated (eng_buffer e) mark,
           rr_matched = True, rr_timed_out = False, rr_mode = WaitFor\<rparr>))"

text \<open>The deadline: the cursor stays, the unread bytes are shown.\<close>

definition wait_expired :: "engine \<Rightarrow> nat \<Rightarrow> engine \<times> read_output_result" where
  "wait_expired e mark =
     (let unread = read_since (eng_buffer e) mark
      in (e, \<lparr>rr_output = unread, rr_cursor = mark, rr_has_more = (unread \<noteq> []),
              rr_is_truncated = is_truncated (eng_buffer e) mark, rr_matched = False,
              rr_timed_out = True, rr_mode = WaitFor\<rparr>))"

fun wait_loop ::
  "engine \<Rightarrow> nat \<Rightarrow> (bytes \<Rightarrow> (nat \<times> nat) option) option \<Rightarrow> bytes \<Rightarrow> nat \<Rightarrow> tick list \<Rightarrow>
   (engine \<times> read_output_result) option" where
  "wait_loop e mark re plain ctx [] = None"
| "wait_loop e mark re plain ctx (Expire d # ts) = Some (wait_expired (eng_write d e) mark)"
| "wait_loop e mark re plain ctx (Tick now d # ts) =
     (let e = eng_write d e; unread = read_since (eng_buffer e) mark
      in case match_pattern unread re plain of
           Some m \<Rightarrow> Some (wait_hit e mark unread m ctx)
         | None \<Rightarrow> wait_loop e mark re plain ctx ts)"

definition read_with_wait_for ::
  "regex_crate \<Rightarrow> engine \<Rightarrow> string \<Rightarrow> nat option \<Rightarrow> tick list \<Rightarrow> (engine \<times> read_output_result) option" where
  "read_with_wait_for rx e pattern context_lines ticks =
     (let ctx = min (case context_lines of None \<Rightarrow> 0 | Some n \<Rightarrow> n) MAX_CONTEXT_LINES;
          mark = eng_mark e; re = rx pattern; plain = str_bytes pattern;
          existing = read_since (eng_buffer e) mark
      in case match_pattern existing re plain of
           Some m \<Rightarrow> Some (wait_hit e mark existing m ctx)
         | None \<Rightarrow> wait_loop e mark re plain ctx ticks)"

definition settle_done :: "engine \<Rightarrow> nat \<Rightarrow> bytes \<Rightarrow> bool \<Rightarrow> engine \<times> read_output_result" where
  "settle_done e mark out timed_out =
     (e\<lparr>eng_mark := mark + length out\<rparr>,
      \<lparr>rr_output = out, rr_cursor = mark + length out, rr_has_more = False,
       rr_is_truncated = is_truncated (eng_buffer e) mark, rr_matched = False,
       rr_timed_out = timed_out, rr_mode = Settle\<rparr>)"

fun settle_loop ::
  "engine \<Rightarrow> nat \<Rightarrow> bytes \<Rightarrow> nat \<Rightarrow> tick list \<Rightarrow> (engine \<times> read_output_result) option" where
  "settle_loop e mark last_output last_change [] = None"
| "settle_loop e mark last_output last_change (Expire d # ts) =
     (let e = eng_write d e in Some (settle_done e mark (read_since (eng_buffer e) mark) True))"
| "settle_loop e mark last_output last_change (Tick now d # ts) =
     (let e = eng_write d e; current = read_since (eng_buffer e) mark
      in if current = [] then settle_loop e mark last_output last_change ts
         else if current \<noteq> last_output then
           (if has_prompt_suffix current then Some (settle_done e mark current False)
            else settle_loop e mark current now ts)
         else if now - last_change \<ge> SETTLE_THRESHOLD_MS \<or> has_prompt_suffix current
         then Some (settle_done e mark current False)
         else settle_loop e mark last_output last_change ts)"

definition read_with_settle :: "engine \<Rightarrow> nat \<Rightarrow> tick list \<Rightarrow> (engine \<times> read_output_result) option" where
  "read_with_settle e now ticks =
     (let mark = eng_mark e in settle_loop e mark (read_since (eng_buffer e) mark) now ticks)"

definition read_output ::
  "regex_crate \<Rightarrow> engine \<Rightarrow> read_output_params \<Rightarrow> nat \<Rightarrow> tick list \<Rightarrow> (engine \<times> read_output_result) option" where
  "read_output rx e params now ticks =
     (case ro_since_cursor params of
        Some cursor \<Rightarrow>
          Some (read_since_mode e cursor
            (case ro_max_bytes params of None \<Rightarrow> DEFAULT_READ_MAX_BYTES | Some m \<Rightarrow> m)
            (ro_strip_ansi params))
      | None \<Rightarrow>
          (case ro_tail_lines params of
             Some n \<Rightarrow> Some (e, read_tail_mode e n (ro_strip_ansi params))
           | None \<Rightarrow>
               map_option (apsnd (\<lambda>r. r\<lparr>rr_output := strip_stateless (ro_strip_ansi params) (rr_output r)\<rparr>))
                 (case ro_wait_for params of
                    Some pattern \<Rightarrow> read_with_wait_for rx e pattern (ro_context_lines params) ticks
                  | None \<Rightarrow> read_with_settle e now ticks)))"

text \<open>The deadline the code arms for a call, in seconds.\<close>

definition effective_timeout :: "read_output_params \<Rightarrow> nat" where
  "effective_timeout params =
     min (case ro_timeout_secs params of None \<Rightarrow> DEFAULT_TIMEOUT_SECS | Some t \<Rightarrow> t) MAX_TIMEOUT_SECS"

lemmas engine_eval = ring_eval from_buffer_def eng_write_def read_with_settle_def settle_done_def
  read_with_wait_for_def wait_hit_def wait_expired_def match_pattern_def find_subslice_def str_bytes_def
  read_since_mode_def strip_since_page_def carry_default_def

section \<open>The engine as a stream with a drain cursor\<close>

definition eng_rep :: "engine \<Rightarrow> bytes \<Rightarrow> bool" where
  "eng_rep e s \<longleftrightarrow> represents (eng_buffer e) s \<and> eng_mark e \<le> length s"

lemma eng_rep_new [wf_intros]: "eng_rep (engine_new n) []"
  by (simp add: eng_rep_def engine_new_def from_buffer_def represents_new)

lemma eng_write_simps [simp]:
  "eng_mark (eng_write d e) = eng_mark e" "eng_carry (eng_write d e) = eng_carry e"
  "eng_buffer (eng_write d e) = rb_write (eng_buffer e) d"
  by (simp_all add: eng_write_def)

lemma eng_rep_write [wf_intros]: "eng_rep e s \<Longrightarrow> eng_rep (eng_write d e) (s @ d)"
  by (auto simp: eng_rep_def intro: represents_write)

lemma eng_rep_read:
  "eng_rep e s \<Longrightarrow> \<not> is_truncated (eng_buffer e) c \<Longrightarrow> read_since (eng_buffer e) c = drop c s"
  by (auto simp: eng_rep_def is_truncated_refines read_since_refines max_def)

fun tick_data :: "tick \<Rightarrow> bytes" where
  "tick_data (Tick now d) = d"
| "tick_data (Expire d) = d"

fun is_expire :: "tick \<Rightarrow> bool" where
  "is_expire (Expire d) = True"
| "is_expire (Tick now d) = False"

text \<open>The engine after the bytes of some ticks have arrived.\<close>

fun arrived :: "tick list \<Rightarrow> engine \<Rightarrow> engine" where
  "arrived [] e = e"
| "arrived (t # ts) e = arrived ts (eng_write (tick_data t) e)"

lemma arrived_simps [simp]:
  "eng_mark (arrived ts e) = eng_mark e" "eng_carry (arrived ts e) = eng_carry e"
  by (induction ts arbitrary: e) simp_all

lemma eng_rep_arrived [wf_intros]:
  "eng_rep e s \<Longrightarrow> eng_rep (arrived ts e) (s @ concat (map tick_data ts))"
proof (induction ts arbitrary: e s)
  case (Cons t ts)
  from Cons.IH [OF eng_rep_write [OF Cons.prems, of "tick_data t"]] show ?case by simp
qed simp

lemma rb_size_arrived [simp]: "rb_size (eng_buffer (arrived ts e)) = rb_size (eng_buffer e)"
  by (induction ts arbitrary: e) simp_all

section \<open>Settle: the drain\<close>

text \<open>What \<open>settle_loop\<close> returns: the bytes unread at the moment it stops.\<close>

definition settled_at :: "engine \<Rightarrow> nat \<Rightarrow> tick list \<Rightarrow> engine \<times> read_output_result" where
  "settled_at e mark ts =
     settle_done (arrived ts e) mark (read_since (eng_buffer (arrived ts e)) mark) (is_expire (last ts))"

lemma settle_loop_result:
  "settle_loop e mark lo lc ticks = Some x \<Longrightarrow>
   \<exists>ts ts'. ticks = ts @ ts' \<and> ts \<noteq> [] \<and> x = settled_at e mark ts \<and>
     (is_expire (last ts) \<or> rr_output (snd x) \<noteq> [])"
proof (induction e mark lo lc ticks rule: settle_loop.induct)
  case (2 e mark lo lc d ts)
  then show ?case
    by (intro exI [of _ "[Expire d]"] exI [of _ ts]) (simp add: Let_def settled_at_def)
next
  case (3 e mark lo lc now d ts)
  let ?e = "eng_write d e" let ?cur = "read_since (eng_buffer ?e) mark"
  have later: "\<exists>us us'. Tick now d # ts = us @ us' \<and> us \<noteq> [] \<and> x = settled_at e mark us \<and>
      (is_expire (last us) \<or> rr_output (snd x) \<noteq> [])"
    if "\<exists>us us'. ts = us @ us' \<and> us \<noteq> [] \<and> x = settled_at ?e mark us \<and>
      (is_expire (last us) \<or> rr_output (snd x) \<noteq> [])"
  proof -
    from that obtain us us' where "ts = us @ us'" "us \<noteq> []" "x = settled_at ?e mark us"
      "is_expire (last us) \<or> rr_output (snd x) \<noteq> []" by blast
    then show ?thesis
      by (intro exI [of _ "Tick now d # us"] exI [of _ us']) (auto simp: settled_at_def)
  qed
  consider (now) "x = settle_done ?e mark ?cur False" "?cur \<noteq> []"
    | (empty) "?cur = []" "settle_loop ?e mark lo lc ts = Some x"
    | (changed) "?cur \<noteq> []" "?cur \<noteq> lo" "\<not> has_prompt_suffix ?cur" "settle_loop ?e mark ?cur now ts = Some x"
    | (same) "?cur \<noteq> []" "?cur = lo" "\<not> (now - lc \<ge> SETTLE_THRESHOLD_MS \<or> has_prompt_suffix ?cur)"
        "settle_loop ?e mark lo lc ts = Some x"
    using "3.prems" by (auto simp: Let_def split: if_splits)
  then show ?case
  proof cases
    case now
    then show ?thesis
      by (intro exI [of _ "[Tick now d]"] exI [of _ ts]) (simp add: settled_at_def settle_done_def)
  next
    case empty
    then show ?thesis using later "3.IH"(1) [OF refl refl] by simp
  next
    case changed
    then show ?thesis using later "3.IH"(2) [OF refl refl] by simp
  next
    case same
    then show ?thesis using later "3.IH"(3) [OF refl refl] by simp
  qed
qed simp

text \<open>One drain: everything from the mark on, exactly once, as long as nothing was overwritten.\<close>

lemma settle_drains:
  assumes rep: "eng_rep e s" and run: "read_with_settle e now ticks = Some (e', r)"
  obtains d where "eng_rep e' (s @ d)" "eng_carry e' = eng_carry e"
    "\<exists>ts ts'. ticks = ts @ ts' \<and> d = concat (map tick_data ts)"
    "rr_output r = drop (max (eng_mark e) (length (s @ d) - rb_size (eng_buffer e))) (s @ d)"
    "eng_mark e' = eng_mark e + length (rr_output r)"
    "rr_is_truncated r \<longleftrightarrow> eng_mark e < length (s @ d) - rb_size (eng_buffer e)"
    "rb_size (eng_buffer e') = rb_size (eng_buffer e)"
proof -
  obtain ts ts' where ts: "ticks = ts @ ts'" and x: "(e', r) = settled_at e (eng_mark e) ts"
  proof -
    have "settle_loop e (eng_mark e) (read_since (eng_buffer e) (eng_mark e)) now ticks = Some (e', r)"
      using run by (simp add: read_with_settle_def Let_def)
    from settle_loop_result [OF this] that show thesis by blast
  qed
  let ?d = "concat (map tick_data ts)"
  have rep': "eng_rep (arrived ts e) (s @ ?d)" by (rule eng_rep_arrived [OF rep])
  then have rb: "represents (eng_buffer (arrived ts e)) (s @ ?d)" by (simp add: eng_rep_def)
  have out: "rr_output r = drop (max (eng_mark e) (length (s @ ?d) - rb_size (eng_buffer e))) (s @ ?d)"
    using x read_since_refines [OF rb] by (simp add: settled_at_def settle_done_def)
  have mark: "eng_mark e' = eng_mark e + length (rr_output r)"
    using x by (simp add: settled_at_def settle_done_def)
  have le: "eng_mark e \<le> length s" using rep by (simp add: eng_rep_def)
  show ?thesis
  proof (rule that [of ?d])
    show "eng_rep e' (s @ ?d)"
      using x rb mark out le by (auto simp: eng_rep_def settled_at_def settle_done_def)
    show "rr_is_truncated r \<longleftrightarrow> eng_mark e < length (s @ ?d) - rb_size (eng_buffer e)"
      using x is_truncated_refines [OF rb] le by (auto simp: settled_at_def settle_done_def)
  qed (use x ts out mark in \<open>auto simp: settled_at_def settle_done_def\<close>)
qed

fun drain_run :: "engine \<Rightarrow> (nat \<times> tick list) list \<Rightarrow> (engine \<times> read_output_result list) option" where
  "drain_run e [] = Some (e, [])"
| "drain_run e ((now, ticks) # cs) =
     (case read_with_settle e now ticks of
        None \<Rightarrow> None
      | Some (e', r) \<Rightarrow> map_option (apsnd (Cons r)) (drain_run e' cs))"

text \<open>
  (C6) Consecutive default reads deliver the terminal stream exactly once: unless some byte was
  overwritten before it was read, the outputs of the calls, joined, are the stream from the first
  drain cursor up to the last one, whatever arrives before and during each call.
\<close>

theorem drain_exactly_once:
  assumes "eng_rep e s" and "drain_run e cs = Some (e', rs)"
    and "\<And>r. r \<in> set rs \<Longrightarrow> \<not> rr_is_truncated r"
  shows "\<exists>d. eng_rep e' (s @ d) \<and> eng_mark e \<le> eng_mark e' \<and>
    concat (map rr_output rs) = take (eng_mark e' - eng_mark e) (drop (eng_mark e) (s @ d))
    \<and> (cs \<noteq> [] \<longrightarrow> eng_mark e' = length (s @ d))"
  using assms
proof (induction cs arbitrary: e s rs)
  case Nil
  then show ?case by (intro exI [of _ "[]"]) simp
next
  case (Cons c cs)
  obtain now ticks where c: "c = (now, ticks)" by (cases c)
  obtain e1 r1 rs1 where run: "read_with_settle e now ticks = Some (e1, r1)"
    "drain_run e1 cs = Some (e', rs1)" "rs = r1 # rs1"
    using Cons.prems(2) c by (auto split: option.splits)
  obtain d where d: "eng_rep e1 (s @ d)"
    "rr_output r1 = drop (max (eng_mark e) (length (s @ d) - rb_size (eng_buffer e))) (s @ d)"
    "eng_mark e1 = eng_mark e + length (rr_output r1)"
    "rr_is_truncated r1 \<longleftrightarrow> eng_mark e < length (s @ d) - rb_size (eng_buffer e)"
    by (rule settle_drains [OF Cons.prems(1) run(1)])
  have "\<not> rr_is_truncated r1" using Cons.prems(3) run(3) by simp
  then have out: "rr_output r1 = drop (eng_mark e) (s @ d)" using d(2,4) by (simp add: max_def)
  have le: "eng_mark e \<le> length s" using Cons.prems(1) by (simp add: eng_rep_def)
  then have m1: "eng_mark e1 = length (s @ d)" using d(3) out by simp
  obtain d' where d': "eng_rep e' ((s @ d) @ d')" "eng_mark e1 \<le> eng_mark e'"
    "concat (map rr_output rs1) = take (eng_mark e' - eng_mark e1) (drop (eng_mark e1) ((s @ d) @ d'))"
    "cs \<noteq> [] \<longrightarrow> eng_mark e' = length ((s @ d) @ d')"
    using Cons.IH [OF d(1) run(2)] Cons.prems(3) run(3) by (meson list.set_intros(2))
  have mark': "eng_mark e' \<le> length ((s @ d) @ d')" using d'(1) by (simp add: eng_rep_def)
  have "concat (map rr_output rs) =
      drop (eng_mark e) (s @ d) @ take (eng_mark e' - length (s @ d)) d'"
    using run(3) out d'(3) m1 by simp
  also have "\<dots> = take (eng_mark e' - eng_mark e) (drop (eng_mark e) (s @ d @ d'))"
    using le d'(2) m1 by simp
  finally have "concat (map rr_output rs) = take (eng_mark e' - eng_mark e) (drop (eng_mark e) (s @ d @ d'))" .
  moreover have "eng_mark e' = length (s @ d @ d')"
  proof (cases "cs = []")
    case True
    then have "e' = e1" using run(2) by simp
    moreover have "d' = []"
      using d'(1) d(1) \<open>e' = e1\<close> by (auto simp: eng_rep_def dest!: represents_written)
    ultimately show ?thesis using m1 by simp
  next
    case False
    then show ?thesis using d'(4) by simp
  qed
  ultimately show ?case using d'(1,2) m1 le by (intro exI [of _ "d @ d'"]) simp
qed

theorem drain_exactly_once_witness:
  "\<exists>d. concat (map rr_output
      [\<lparr>rr_output = [1, 2], rr_cursor = 2, rr_has_more = False, rr_is_truncated = False,
        rr_matched = False, rr_timed_out = True, rr_mode = Settle\<rparr>]) = take 2 (drop 0 ([] @ d)) \<and> length d = 2"
proof -
  let ?e = "from_buffer (new_raw 8)"
  let ?r = "\<lparr>rr_output = [1, 2], rr_cursor = 2, rr_has_more = False, rr_is_truncated = False,
        rr_matched = False, rr_timed_out = True, rr_mode = Settle\<rparr>"
  let ?e' = "(eng_write [1, 2] ?e)\<lparr>eng_mark := 2\<rparr>"
  have rep: "eng_rep ?e []" by (simp add: eng_rep_def from_buffer_def represents_new_raw)
  have run: "drain_run ?e [(0, [Expire [1, 2]])] = Some (?e', [?r])"
    by (simp add: engine_eval)
  show ?thesis
    using drain_exactly_once [OF rep run] by (auto simp: from_buffer_def)
qed

text \<open>
  When bytes were overwritten before a default read, the drain cursor is advanced by the number of
  bytes returned and not to the position they were read up to: if two buffers' worth of output was
  missed, the next read returns the same bytes again.
\<close>

lemma settle_truncated_redelivers:
  assumes "eng_rep e s" and "read_with_settle e now ticks = Some (e', r)"
    and "eng_mark e + 2 * rb_size (eng_buffer e) \<le> rb_written (eng_buffer e')"
  shows "length (rr_output r) = rb_size (eng_buffer e) \<and>
    eng_mark e' = eng_mark e + rb_size (eng_buffer e) \<and>
    read_since (eng_buffer e') (eng_mark e') = rr_output r"
proof -
  obtain d where d: "eng_rep e' (s @ d)"
    "rr_output r = drop (max (eng_mark e) (length (s @ d) - rb_size (eng_buffer e))) (s @ d)"
    "eng_mark e' = eng_mark e + length (rr_output r)" "rb_size (eng_buffer e') = rb_size (eng_buffer e)"
    by (rule settle_drains [OF assms(1,2)])
  have rep: "represents (eng_buffer e') (s @ d)" using d(1) by (simp add: eng_rep_def)
  have w: "rb_written (eng_buffer e') = length (s @ d)" using rep by (rule represents_written)
  have "length (rr_output r) = rb_size (eng_buffer e)"
    using d(2) assms(3) w by simp
  then show ?thesis using d(2-4) assms(3) w read_since_refines [OF rep] by simp
qed

section \<open>Waiting for a pattern\<close>

text \<open>The tick at which \<open>wait_loop\<close> stops, and why.\<close>

definition unread :: "engine \<Rightarrow> nat \<Rightarrow> bytes" where
  "unread e mark = read_since (eng_buffer e) mark"

lemma wait_loop_result:
  "wait_loop e mark re plain ctx ticks = Some x \<Longrightarrow>
   \<exists>ts ts'. ticks = ts @ ts' \<and>
     (let e1 = arrived ts e in
      (\<exists>m. match_pattern (unread e1 mark) re plain = Some m \<and> x = wait_hit e1 mark (unread e1 mark) m ctx)
      \<or> (x = wait_expired e1 mark \<and> ts \<noteq> [] \<and> is_expire (last ts)))"
proof (induction e mark re plain ctx ticks rule: wait_loop.induct)
  case (2 e mark re plain ctx d ts)
  then show ?case by (intro exI [of _ "[Expire d]"] exI [of _ ts]) (simp add: Let_def)
next
  case (3 e mark re plain ctx now d ts)
  let ?e = "eng_write d e"
  show ?case
  proof (cases "match_pattern (unread ?e mark) re plain")
    case (Some m)
    then have "x = wait_hit ?e mark (unread ?e mark) m ctx"
      using "3.prems" by (simp add: Let_def unread_def)
    then show ?thesis using Some
      by - (rule exI [of _ "[Tick now d]"], rule exI [of _ ts], simp add: Let_def del: split_paired_Ex)
  next
    case None
    then have "wait_loop ?e mark re plain ctx ts = Some x"
      using "3.prems" by (simp add: Let_def unread_def)
    from "3.IH" [OF refl refl _ this] None obtain us us' where
      "ts = us @ us'" "let e1 = arrived us ?e in
      (\<exists>m. match_pattern (unread e1 mark) re plain = Some m \<and> x = wait_hit e1 mark (unread e1 mark) m ctx)
      \<or> (x = wait_expired e1 mark \<and> us \<noteq> [] \<and> is_expire (last us))"
      by (auto simp: unread_def)
    then show ?thesis
      by - (rule exI [of _ "Tick now d # us"], rule exI [of _ us'], cases us, auto simp: Let_def)
  qed
qed simp

text \<open>
  \<open>wait_for\<close> keeps its contract: a match moves the drain cursor to the latest byte and
  returns the context of a match in the bytes that were unread; a time-out leaves the drain cursor
  where it was and returns the unread bytes.
\<close>

lemma wait_for_contract:
  assumes "read_with_wait_for rx e pat context_lines ticks = Some (e', r)"
  shows "(rr_matched r \<and> \<not> rr_timed_out r \<and> eng_mark e' = rb_written (eng_buffer e') \<and>
      rr_cursor r = eng_mark e' \<and>
      (\<exists>m. match_pattern (unread e' (eng_mark e)) (rx pat) (str_bytes pat) = Some m \<and>
        rr_output r = extract_context (unread e' (eng_mark e)) m
          (min (case context_lines of None \<Rightarrow> 0 | Some n \<Rightarrow> n) MAX_CONTEXT_LINES)))
    \<or> (\<not> rr_matched r \<and> rr_timed_out r \<and> eng_mark e' = eng_mark e \<and> rr_cursor r = eng_mark e \<and>
      rr_output r = unread e' (eng_mark e) \<and> rr_has_more r = (rr_output r \<noteq> []))"
proof -
  let ?ctx = "min (case context_lines of None \<Rightarrow> 0 | Some n \<Rightarrow> n) MAX_CONTEXT_LINES"
  let ?re = "rx pat" and ?plain = "str_bytes pat" and ?mark = "eng_mark e"
  have "\<exists>e1. (\<exists>m. match_pattern (unread e1 ?mark) ?re ?plain = Some m \<and>
        (e', r) = wait_hit e1 ?mark (unread e1 ?mark) m ?ctx)
      \<or> ((e', r) = wait_expired e1 ?mark \<and> eng_mark e1 = ?mark)"
  proof (cases "match_pattern (unread e ?mark) ?re ?plain")
    case (Some m)
    then show ?thesis using assms
      by (intro exI [of _ e]) (auto simp: read_with_wait_for_def Let_def unread_def)
  next
    case None
    then have "wait_loop e ?mark ?re ?plain ?ctx ticks = Some (e', r)"
      using assms by (simp add: read_with_wait_for_def Let_def unread_def)
    from wait_loop_result [OF this] show ?thesis by (auto simp: Let_def)
  qed
  then show ?thesis
    by (auto simp: wait_hit_def wait_expired_def unread_def Let_def)
qed

text \<open>A crate that finds nothing and compiles nothing: the plain-text fallback.\<close>

text \<open>
  No missed wake-up: if the unread bytes match after some tick before the deadline, the call
  returns a match.
\<close>

lemma wait_for_no_miss:
  assumes "ticks = ts @ ts'" "\<forall>t \<in> set ts. \<not> is_expire t"
    and "match_pattern (unread (arrived ts e) (eng_mark e)) (rx pat) (str_bytes pat) \<noteq> None"
  shows "\<exists>e' r. read_with_wait_for rx e pat context_lines ticks = Some (e', r) \<and> rr_matched r"
proof -
  have loop: "\<exists>x. wait_loop e mark re plain ctx (ts @ ts') = Some x \<and> rr_matched (snd x)"
    if "\<forall>t \<in> set ts. \<not> is_expire t" "ts \<noteq> []" "match_pattern (unread (arrived ts e) mark) re plain \<noteq> None"
    for mark re plain ctx e
    using that
  proof (induction ts arbitrary: e)
    case (Cons t ts)
    then obtain now d where t: "t = Tick now d" by (cases t) auto
    let ?e = "eng_write d e"
    show ?case
    proof (cases "match_pattern (unread ?e mark) re plain")
      case (Some m)
      then show ?thesis using t by (simp add: Let_def unread_def wait_hit_def)
    next
      case None
      then have "ts \<noteq> []" using Cons.prems(3) t by auto
      then show ?thesis using Cons t None by (auto simp: Let_def unread_def)
    qed
  qed simp
  show ?thesis
  proof (cases "match_pattern (unread e (eng_mark e)) (rx pat) (str_bytes pat)")
    case (Some m)
    then show ?thesis
      by (auto simp: read_with_wait_for_def Let_def unread_def wait_hit_def)
  next
    case None
    then have "ts \<noteq> []" using assms(3) by auto
    from loop [OF assms(2) this assms(3)] None assms(1) show ?thesis
      by (fastforce simp: read_with_wait_for_def Let_def unread_def)
  qed
qed

text \<open>
  A read returns: the two peek modes without a tick, the blocking modes at the latest with the tick of the deadline.
\<close>

lemma read_output_returns:
  assumes "\<exists>t \<in> set ticks. is_expire t"
  shows "\<exists>e' r. read_output rx e params now ticks = Some (e', r)"
proof -
  have wait: "\<exists>x. wait_loop e mark re plain ctx ticks = Some x" for e mark re plain ctx
    using assms
  proof (induction ticks arbitrary: e)
    case (Cons t ts)
    then show ?case by (cases t) (auto simp: Let_def split: option.splits)
  qed simp
  have settle: "\<exists>x. settle_loop e mark lo lc ticks = Some x" for e mark lo lc
    using assms
  proof (induction ticks arbitrary: e lo lc)
    case (Cons t ts)
    then show ?case by (cases t) (auto simp: Let_def)
  qed simp
  have w: "\<exists>x. read_with_wait_for rx e p c ticks = Some x" for p c
    using wait by (simp add: read_with_wait_for_def Let_def split: option.split)
  have st: "\<exists>x. read_with_settle e now ticks = Some x"
    using settle by (simp add: read_with_settle_def Let_def)
  have "\<exists>x. read_output rx e params now ticks = Some x"
  proof (cases "ro_since_cursor params")
    case s: None
    show ?thesis
    proof (cases "ro_tail_lines params")
      case t: None
      show ?thesis using s t w st
        by (cases "ro_wait_for params") (auto simp: read_output_def)
    qed (simp add: read_output_def s)
  qed (simp add: read_output_def)
  then show ?thesis by auto
qed

text \<open>
  The peek modes take precedence over the blocking ones and do not consume: \<open>since_cursor\<close>
  and \<open>tail_lines\<close> leave the buffer and the drain cursor as they are, and without stripping
  they leave the whole engine as it is.
\<close>

lemma read_output_peeks:
  assumes "ro_since_cursor params \<noteq> None \<or> ro_tail_lines params \<noteq> None"
  shows "\<exists>e' r. read_output rx e params now ticks = Some (e', r) \<and>
    eng_buffer e' = eng_buffer e \<and> eng_mark e' = eng_mark e \<and> (\<not> ro_strip_ansi params \<longrightarrow> e' = e) \<and>
    rr_mode r = (if ro_since_cursor params \<noteq> None then SinceCursor else TailMode) \<and>
    \<not> rr_matched r \<and> \<not> rr_timed_out r"
  using assms
  by (auto simp: read_output_def read_since_mode_def read_tail_mode_def strip_since_page_def Let_def
      split: option.splits)

section \<open>Paging through the stream\<close>

text \<open>
  A client that reads with \<open>since_cursor\<close>, each time from the cursor the last read returned;
  before each read some bytes arrive, and each read has its own \<open>max_bytes\<close>.
\<close>

fun page_run :: "engine \<Rightarrow> nat \<Rightarrow> bool \<Rightarrow> (bytes \<times> nat) list \<Rightarrow> engine \<times> nat \<times> read_output_result list" where
  "page_run e c strip [] = (e, c, [])"
| "page_run e c strip ((d, m) # xs) =
     (let (e1, r) = read_since_mode (eng_write d e) c m strip;
          (e2, c2, rs) = page_run e1 (rr_cursor r) strip xs
      in (e2, c2, r # rs))"

lemma read_since_max_page:
  assumes "represents g s" "c \<le> length s" "\<not> is_truncated g c"
  shows "read_since_max g c m =
    \<lparr>rs_output = take m (drop c s), rs_new_cursor = c + length (take m (drop c s)),
     rs_has_more = (c + length (take m (drop c s)) < length s), rs_is_truncated = False\<rparr>"
  using assms by (auto simp: read_since_max_refines is_truncated_refines Let_def max_def)

lemma read_since_mode_fields:
  assumes "read_since_mode e c m strip = (e1, r)"
  shows "rr_cursor r = rs_new_cursor (read_since_max (eng_buffer e) c m)"
    and "rr_is_truncated r = is_truncated (eng_buffer e) c"
    and "\<not> rr_matched r" "eng_buffer e1 = eng_buffer e" "eng_mark e1 = eng_mark e"
    and "\<not> strip \<Longrightarrow> rr_output r = rs_output (read_since_max (eng_buffer e) c m) \<and> e1 = e"
proof -
  have t: "rs_is_truncated (read_since_max g c m) = is_truncated g c" for g
    by (simp add: read_since_max_def Let_def split: prod.splits)
  have p: "eng_buffer (fst (strip_since_page e a b p)) = eng_buffer e \<and>
      eng_mark (fst (strip_since_page e a b p)) = eng_mark e" for a b p
    by (simp add: strip_since_page_def Let_def)
  obtain e2 out where o: "(if strip then strip_since_page e c (rs_new_cursor (read_since_max (eng_buffer e) c m))
      (rs_output (read_since_max (eng_buffer e) c m)) else (e, rs_output (read_since_max (eng_buffer e) c m))) = (e2, out)"
    by (meson surj_pair)
  have e2: "eng_buffer e2 = eng_buffer e \<and> eng_mark e2 = eng_mark e"
    using p o by (metis fst_conv)
  have r: "e1 = e2" "r = \<lparr>rr_output = out, rr_cursor = rs_new_cursor (read_since_max (eng_buffer e) c m),
      rr_has_more = rs_has_more (read_since_max (eng_buffer e) c m),
      rr_is_truncated = rs_is_truncated (read_since_max (eng_buffer e) c m), rr_matched = False,
      rr_timed_out = False, rr_mode = SinceCursor\<rparr>"
    using assms o by (simp_all add: read_since_mode_def Let_def)
  show "rr_cursor r = rs_new_cursor (read_since_max (eng_buffer e) c m)"
    "rr_is_truncated r = is_truncated (eng_buffer e) c"
    "\<not> rr_matched r" "eng_buffer e1 = eng_buffer e" "eng_mark e1 = eng_mark e"
    using r e2 t by simp_all
  show "rr_output r = rs_output (read_since_max (eng_buffer e) c m) \<and> e1 = e" if "\<not> strip"
    using r o that by auto
qed

lemma eng_rep_represents: "eng_rep e s \<Longrightarrow> represents (eng_buffer e) s"
  by (simp add: eng_rep_def)

lemma page_split:
  "take m u @ take n (drop (length (take m u)) (u @ z)) = take (length (take m u) + n) (u @ z)"
proof -
  have "take (length (take m u)) (u @ z) = take m u" by (simp add: min_def)
  then show ?thesis by (simp only: take_add)
qed

lemma page_run_stream:
  assumes "represents (eng_buffer e) s" "c \<le> length s" "page_run e c strip xs = (e', c', rs)"
    and "\<And>r. r \<in> set rs \<Longrightarrow> \<not> rr_is_truncated r"
  shows "represents (eng_buffer e') (s @ concat (map fst xs)) \<and> c \<le> c' \<and>
    c' \<le> length (s @ concat (map fst xs)) \<and>
    (\<forall>r \<in> set rs. \<not> rr_matched r) \<and>
    (strip = False \<longrightarrow>
      concat (map rr_output rs) = take (c' - c) (drop c (s @ concat (map fst xs))))"
  using assms
proof (induction e c strip xs arbitrary: s rs rule: page_run.induct)
  case (2 e c strip d m xs)
  obtain e1 r rs1 where r: "read_since_mode (eng_write d e) c m strip = (e1, r)"
    "page_run e1 (rr_cursor r) strip xs = (e', c', rs1)" "rs = r # rs1"
    using "2.prems"(3) by (auto simp: Let_def split: prod.splits)
  let ?s = "s @ d"
  have rep: "represents (rb_write (eng_buffer e) d) ?s" using "2.prems"(1) by (rule represents_write)
  have c: "c \<le> length ?s" using "2.prems"(2) by simp
  note f = read_since_mode_fields [OF r(1), unfolded eng_write_simps]
  have nt: "\<not> is_truncated (rb_write (eng_buffer e) d) c"
    using f(2) r(3) "2.prems"(4) [of r] by simp
  note page = read_since_max_page [OF rep c nt]
  have buf: "eng_buffer e1 = rb_write (eng_buffer e) d" by (rule f(4))
  have cur: "rr_cursor r = c + length (take m (drop c ?s))" using f(1) page by simp
  have out: "rr_output r = take m (drop c ?s)" if "\<not> strip" using f(6) that page by simp
  have le: "rr_cursor r \<le> length ?s"
    using c unfolding cur length_take length_drop by arith
  have IH: "represents (eng_buffer e') (?s @ concat (map fst xs)) \<and> rr_cursor r \<le> c' \<and>
      c' \<le> length (?s @ concat (map fst xs)) \<and> (\<forall>r \<in> set rs1. \<not> rr_matched r) \<and>
      (strip = False \<longrightarrow> concat (map rr_output rs1) = take (c' - rr_cursor r) (drop (rr_cursor r) (?s @ concat (map fst xs))))"
  proof (rule "2.IH" [OF r(1) [symmetric] refl _ le r(2)])
    show "represents (eng_buffer e1) ?s" using rep buf by simp
    show "\<not> rr_is_truncated q" if "q \<in> set rs1" for q using "2.prems"(4) r(3) that by simp
  qed
  have matched: "\<not> rr_matched r" by (rule f(3))
  have glue: "take m (drop c ?s) @ take (c' - rr_cursor r) (drop (rr_cursor r) (?s @ z)) = take (c' - c) (drop c (?s @ z))"
    if "rr_cursor r \<le> c'" for z
  proof -
    have z: "drop c (?s @ z) = drop c ?s @ z" using c by simp
    have d: "drop (rr_cursor r) (?s @ z) = drop (length (take m (drop c ?s))) (drop c ?s @ z)"
      unfolding z [symmetric] by (simp only: cur drop_drop add.commute)
    have n: "c' - c = length (take m (drop c ?s)) + (c' - rr_cursor r)" using cur that by simp
    show ?thesis unfolding d n z by (rule page_split)
  qed
  have data: "?s @ concat (map fst xs) = s @ concat (map fst ((d, m) # xs))" by simp
  have "concat (map rr_output rs) = take (c' - c) (drop c (?s @ concat (map fst xs)))" if "\<not> strip"
    using out [OF that] IH glue [of "concat (map fst xs)"] r(3) that by simp
  moreover have "c \<le> c'" using IH cur by linarith
  ultimately show ?case using IH matched r(3) unfolding data by simp
qed simp

lemma page_run_joined:
  assumes "eng_rep e s" "c \<le> length s" "page_run e c False xs = (e', c', rs)"
    and "\<And>r. r \<in> set rs \<Longrightarrow> \<not> rr_is_truncated r"
  shows "concat (map rr_output rs) = take (c' - c) (drop c (s @ concat (map fst xs))) \<and>
    c \<le> c' \<and> c' \<le> rb_written (eng_buffer e') \<and> eng_mark e' = eng_mark e"
proof -
  have "eng_mark e' = eng_mark e"
    using assms(3)
  proof (induction e c False xs arbitrary: rs rule: page_run.induct)
    case (2 e c d m xs)
    then show ?case
      by (auto simp: Let_def split: prod.splits dest: read_since_mode_fields(5))
  qed simp
  with page_run_stream [OF eng_rep_represents [OF assms(1)] assms(2-4)] show ?thesis
    by (auto dest: represents_written)
qed

text \<open>
  Paging with \<open>since_cursor\<close> neither loses nor repeats a byte: the pages, joined, are the
  stream between the first and the last cursor, with output arriving between the pages and any page
  sizes, as long as no page reports truncation; paging consumes nothing from the drain.
\<close>

lemma paged_read_is_stream:
  assumes "eng_rep e s" "c \<le> length s" "page_run e c False xs = (e', c', rs)"
    and "\<And>r. r \<in> set rs \<Longrightarrow> \<not> rr_is_truncated r"
  shows "concat (map rr_output rs) = take (c' - c) (drop c (s @ concat (map fst xs))) \<and>
    c \<le> c' \<and> c' \<le> rb_written (eng_buffer e') \<and> eng_mark e' = eng_mark e"
  using assms by (rule page_run_joined)

text \<open>The pages before stripping, with their truncation flags.\<close>

fun raw_run :: "ring \<Rightarrow> nat \<Rightarrow> (bytes \<times> nat) list \<Rightarrow> ring \<times> nat \<times> (bytes \<times> bool) list" where
  "raw_run g c [] = (g, c, [])"
| "raw_run g c ((d, m) # xs) =
     (let q = read_since_max (rb_write g d) c m;
          (g', c', zs) = raw_run (rb_write g d) (rs_new_cursor q) xs
      in (g', c', (rs_output q, is_truncated (rb_write g d) c) # zs))"

text \<open>The strip carry is ready to continue at cursor \<open>c\<close>.\<close>

definition carry_at :: "strip_carry \<Rightarrow> nat \<Rightarrow> bool" where
  "carry_at k c \<longleftrightarrow> (if sc_armed k then sc_next_cursor k = c else sc_pending k = [])"

lemma read_since_mode_strip:
  assumes "read_since_mode e c m True = (e1, r)" "carry_at (eng_carry e) c" "\<not> is_truncated (eng_buffer e) c"
  shows "rr_output r = sp_text (strip_page (rs_output (read_since_max (eng_buffer e) c m)) (sc_pending (eng_carry e)))"
    and "sc_pending (eng_carry e1) =
      sp_trailing (strip_page (rs_output (read_since_max (eng_buffer e) c m)) (sc_pending (eng_carry e)))"
    and "carry_at (eng_carry e1) (rr_cursor r)"
  using assms by (auto simp: read_since_mode_def strip_since_page_def carry_at_def Let_def split: if_splits)

lemma page_run_raw:
  assumes "page_run e c strip xs = (e', c', rs)"
  shows "\<exists>zs. raw_run (eng_buffer e) c xs = (eng_buffer e', c', zs) \<and>
    map snd zs = map rr_is_truncated rs \<and>
    (\<not> strip \<longrightarrow> map fst zs = map rr_output rs) \<and>
    (strip \<longrightarrow> carry_at (eng_carry e) c \<longrightarrow> (\<forall>r \<in> set rs. \<not> rr_is_truncated r) \<longrightarrow>
      concat (map rr_output rs) = sp_text (strip_pages (sc_pending (eng_carry e)) (map fst zs)))"
  using assms
proof (induction e c strip xs arbitrary: rs rule: page_run.induct)
  case (2 e c strip d m xs)
  obtain e1 r rs1 where r: "read_since_mode (eng_write d e) c m strip = (e1, r)"
    "page_run e1 (rr_cursor r) strip xs = (e', c', rs1)" "rs = r # rs1"
    using "2.prems" by (auto simp: Let_def split: prod.splits)
  note f = read_since_mode_fields [OF r(1), unfolded eng_write_simps]
  let ?q = "read_since_max (rb_write (eng_buffer e) d) c m"
  obtain zs where zs: "raw_run (eng_buffer e1) (rr_cursor r) xs = (eng_buffer e', c', zs)"
    "map snd zs = map rr_is_truncated rs1" "\<not> strip \<Longrightarrow> map fst zs = map rr_output rs1"
    "strip \<Longrightarrow> carry_at (eng_carry e1) (rr_cursor r) \<Longrightarrow> \<forall>r \<in> set rs1. \<not> rr_is_truncated r \<Longrightarrow>
      concat (map rr_output rs1) = sp_text (strip_pages (sc_pending (eng_carry e1)) (map fst zs))"
    using "2.IH" [OF r(1) [symmetric] refl r(2)] by blast
  let ?z = "(rs_output ?q, is_truncated (rb_write (eng_buffer e) d) c)"
  have run: "raw_run (eng_buffer e) c ((d, m) # xs) = (eng_buffer e', c', ?z # zs)"
    using zs(1) f(1,4) by (simp add: Let_def)
  have stripped: "concat (map rr_output rs) = sp_text (strip_pages (sc_pending (eng_carry e)) (map fst (?z # zs)))"
    if "strip" "carry_at (eng_carry e) c" "\<forall>r \<in> set rs. \<not> rr_is_truncated r"
  proof -
    have nt: "\<not> is_truncated (eng_buffer (eng_write d e)) c" using that(3) r(3) f(2) by simp
    have m: "read_since_mode (eng_write d e) c m True = (e1, r)" using r(1) that(1) by simp
    have ca: "carry_at (eng_carry (eng_write d e)) c" using that(2) by simp
    note k = read_since_mode_strip [OF m ca nt, unfolded eng_write_simps]
    show ?thesis using zs(4) [OF that(1) k(3)] k(1,2) that(3) r(3) by (simp add: Let_def)
  qed
  show ?case
    by (rule exI [of _ "?z # zs"]) (use run stripped zs(2,3) f r(3) in auto)
qed simp

text \<open>
  (C37) Paging with stripping shows the stripped stream.  A walk that starts with the carry of a new engine reads the stream between
  its first and its last cursor; the stripped pages, joined, are that stretch of the stream stripped in one piece, wherever the pages
  cut its control sequences.  This is under three conditions: no page was truncated; the stretch contains no sequence that a second
  escape byte breaks off (\<open>no_double_esc\<close>; two such bytes on a page border are stripped differently, see
  \<open>strip_page_double_esc\<close>); and wherever the stretch is cut, the control sequence left open there is not longer than
  the limit \<open>MAX_PENDING_BYTES\<close> of the carry.
\<close>

theorem paged_strip_is_stripped_stream:
  assumes "eng_rep e s" "eng_carry e = carry_default" "c \<le> length s"
    and "page_run e c True xs = (e', c', rs)"
    and "\<And>r. r \<in> set rs \<Longrightarrow> \<not> rr_is_truncated r"
    and "raw = take (c' - c) (drop c (s @ concat (map fst xs)))"
    and "no_double_esc raw"
    and "\<And>k. k \<le> length raw \<Longrightarrow> length (incomplete_tail (take k raw)) \<le> MAX_PENDING_BYTES"
  shows "concat (map rr_output rs) = sp_text (strip_page raw [])"
proof -
  obtain zs where zs: "raw_run (eng_buffer e) c xs = (eng_buffer e', c', zs)"
    "map snd zs = map rr_is_truncated rs"
    "concat (map rr_output rs) = sp_text (strip_pages [] (map fst zs))"
    using page_run_raw [OF assms(4)] assms(2,5) by (auto simp: carry_at_def carry_default_def)
  obtain e2 c2 rs2 where plain: "page_run e c False xs = (e2, c2, rs2)" by (metis prod_cases3)
  have same: "c2 = c'" "map fst zs = map rr_output rs2" "map rr_is_truncated rs2 = map rr_is_truncated rs"
    using page_run_raw [OF plain] zs by auto
  have "\<not> rr_is_truncated r" if "r \<in> set rs2" for r
    using same(3) assms(5) that by (metis in_set_conv_nth length_map nth_map nth_mem)
  from page_run_joined [OF assms(1,3) plain this] have raw: "concat (map fst zs) = raw"
    using same assms(6) by simp
  have "strip_pages [] (map fst zs) = strip_page (concat (map fst zs)) []"
  proof (rule strip_pages_concat)
    show "no_double_esc (concat (map fst zs))" using raw assms(7) by simp
    show "length (incomplete_tail (concat (take k (map fst zs)))) \<le> MAX_PENDING_BYTES"
      if "k \<le> length (map fst zs)" for k
    proof -
      have "concat (map fst zs) = concat (take k (map fst zs)) @ concat (drop k (map fst zs))"
        by (metis append_take_drop_id concat_append)
      then have "concat (take k (map fst zs)) = take (length (concat (take k (map fst zs)))) raw"
        using raw by (metis append_eq_conv_conj)
      moreover have "length (concat (take k (map fst zs))) \<le> length raw"
        using raw by (metis append_take_drop_id concat_append le_add1 length_append)
      ultimately show ?thesis using assms(8) by metis
    qed
  qed
  then show ?thesis using zs(3) raw by simp
qed

theorem paged_strip_is_stripped_stream_witness:
  "\<exists>e' c' rs. page_run (from_buffer (new_raw 16)) 0 True [([0x68, 0x1B, 0x5B, 0x6D, 0x21], 2), ([], 9)] = (e', c', rs) \<and>
     concat (map rr_output rs) = [0x68, 0x21]"
proof -
  let ?e = "from_buffer (new_raw 16)" and ?s = "[0x68, 0x1B, 0x5B, 0x6D, 0x21] :: bytes"
  have rep: "eng_rep ?e []" by (simp add: eng_rep_def from_buffer_def represents_new_raw)
  have carry: "eng_carry ?e = carry_default" by (simp add: from_buffer_def)
  obtain e' c' rs where run: "page_run ?e 0 True [(?s, 2), ([], 9)] = (e', c', rs)"
    by (metis prod_cases3)
  then have c: "c' = 5" and nt: "\<And>r. r \<in> set rs \<Longrightarrow> \<not> rr_is_truncated r"
    by (auto simp: engine_eval strip_page_def strip_page_inner_def strip_control_sequences.simps ansi_eval)
  have nd: "no_double_esc ?s" by (simp add: ansi_eval)
  have short: "length (incomplete_tail (take k ?s)) \<le> MAX_PENDING_BYTES" for k
  proof -
    have "length (incomplete_tail (take k ?s)) \<le> length (take k ?s)"
      unfolding incomplete_tail_scan by (rule suffix_length_le [OF suffix_scan_tail])
    also have "\<dots> \<le> MAX_PENDING_BYTES" by (simp add: MAX_PENDING_BYTES_def)
    finally show ?thesis .
  qed
  have raw: "?s = take (c' - 0) (drop 0 ([] @ concat (map fst [(?s, 2), ([], 9)])))" using c by simp
  have "concat (map rr_output rs) = sp_text (strip_page ?s [])"
    by (rule paged_strip_is_stripped_stream [OF rep carry _ run nt raw nd short]) simp
  also have "\<dots> = [0x68, 0x21]"
    by (simp add: strip_page_def strip_page_inner_def strip_control_sequences.simps ansi_eval)
  finally show ?thesis using run by blast
qed

section \<open>Matching and its context\<close>

text \<open>
  A pattern that is a valid regular expression and matches nothing in the text is still searched
  for literally: the terminal's echo of the pattern's own characters counts as a match.
\<close>

lemma wait_for_literal_fallback:
  assumes "rx pat = Some re_find" "re_find data = None" "find_subslice data (str_bytes pat) = Some i"
  shows "match_pattern data (rx pat) (str_bytes pat) = Some (i, i + length pat)"
  using assms by (simp add: match_pattern_def Let_def)

lemma line_start_le: "line_start data pos \<le> pos"
  by (simp add: line_start_def)

lemma line_end_bounds: "pos \<le> length data \<Longrightarrow> pos \<le> line_end data pos \<and> line_end data pos \<le> length data"
  by (simp add: line_end_def Let_def)

lemma prefix_push_lines: "prefix out (foldl push_line out ls)"
proof (induction ls arbitrary: out)
  case (Cons l ls)
  have "prefix out (push_line out l)" by (simp add: push_line_def)
  then show ?case using Cons.IH prefix_order.trans by fastforce
qed simp

lemma sublist_slice:
  "i \<le> a \<Longrightarrow> b \<le> j \<Longrightarrow> sublist (take (b - a) (drop a xs)) (take (j - i) (drop i xs))"
proof -
  assume "i \<le> a" "b \<le> j"
  then have "take (b - a) (drop a xs) = take (b - a) (drop (a - i) (take (j - i) (drop i xs)))"
    by (cases "a \<le> b") (simp_all add: drop_take min_absorb1)
  then show ?thesis by (metis sublist_drop sublist_order.order.trans sublist_take)
qed

lemma sublist_butlast:
  assumes "sublist m l" "l \<noteq> []" "m = [] \<or> last m \<noteq> last l"
  shows "sublist m (butlast l)"
proof -
  obtain p q where l: "l = p @ m @ q" using assms(1) by (auto simp: sublist_def)
  show ?thesis
  proof (cases "q = []")
    case True
    then have "m = []" using l assms(2,3) by (cases "m = []") auto
    then show ?thesis by simp
  next
    case False
    then have "butlast l = p @ m @ butlast q" using l by (simp add: butlast_append)
    then show ?thesis by simp
  qed
qed

text \<open>
  What \<open>wait_for\<close> returns for a match shows the matched text, with any number of context
  lines; only a newline that ends the match may be cut off.
\<close>

lemma extract_context_shows_match:
  assumes "a \<le> b" "b \<le> length data" "n = 0 \<or> a = b \<or> data ! (b - 1) \<noteq> NL"
  shows "sublist (take (b - a) (drop a data)) (extract_context data (a, b) n)"
proof -
  let ?m = "take (b - a) (drop a data)"
  let ?i = "line_start data a" and ?j = "line_end data b"
  let ?line = "take (?j - ?i) (drop ?i data)"
  have line: "sublist ?m ?line"
    using sublist_slice [OF line_start_le] line_end_bounds [OF assms(2)] by blast
  let ?ml = "if ?line \<noteq> [] \<and> last ?line = NL then butlast ?line else ?line"
  have ml: "sublist ?m ?ml" if "n \<noteq> 0"
  proof (cases "?line \<noteq> [] \<and> last ?line = NL")
    case True
    have "?m = [] \<or> last ?m \<noteq> last ?line"
    proof (cases "a = b")
      case False
      then have len: "length ?m = b - a" "0 < b - a" using assms(1,2) by simp_all
      then have "last ?m = ?m ! (b - a - 1)" by (metis last_conv_nth length_0_conv less_irrefl)
      also have "\<dots> = data ! (b - 1)" using len(2) assms(1,2) by simp
      finally have "last ?m = data ! (b - 1)" .
      then show ?thesis using assms(3) that False True by auto
    qed simp
    then have "sublist ?m (butlast ?line)" using sublist_butlast line True by blast
    then show ?thesis unfolding if_P [OF True] .
  next
    case False
    then show ?thesis unfolding if_not_P [OF False] using line by blast
  qed
  have "sublist l (foldl push_line (push_line out l) ls)" for out l ls
  proof -
    have "suffix l (push_line out l)" by (simp add: push_line_def suffix_def)
    then show ?thesis
      using prefix_push_lines by (meson prefix_imp_sublist suffix_imp_sublist sublist_order.order.trans)
  qed
  with ml have "sublist ?m (foldl push_line (push_line out ?ml) ls)" if "n \<noteq> 0" for out ls
    using that sublist_order.order.trans by blast
  note shown = this
  show ?thesis
  proof (cases "n = 0")
    case True
    then show ?thesis using line by (simp add: extract_context_def Let_def)
  next
    case False
    show ?thesis
      unfolding extract_context_def Let_def fst_conv snd_conv if_not_P [OF False] by (rule shown [OF False])
  qed
qed

section \<open>Waiting finds the first match\<close>

lemma find_map_eq: "find P (map f xs) = map_option f (find (P \<circ> f) xs)"
  by (induction xs) simp_all

lemma wait_loop_first:
  assumes "list_all (\<lambda>t. \<not> is_expire t) ts"
  shows "wait_loop e mark re plain ctx (ts @ Expire d # rest) =
    Some (case find (\<lambda>k. match_pattern (unread (arrived (take k ts) e) mark) re plain \<noteq> None) (map Suc [0..<length ts]) of
       Some k \<Rightarrow> wait_hit (arrived (take k ts) e) mark (unread (arrived (take k ts) e) mark)
                 (the (match_pattern (unread (arrived (take k ts) e) mark) re plain)) ctx
     | None \<Rightarrow> wait_expired (arrived (ts @ [Expire d]) e) mark)"
  using assms
proof (induction ts arbitrary: e)
  case (Cons t ts)
  obtain now b where t: "t = Tick now b" using Cons.prems by (cases t) auto
  have up: "[0..<length (t # ts)] = 0 # map Suc [0..<length ts]" by (simp add: upt_conv_Cons map_Suc_upt del: upt_Suc)
  show ?case
  proof (cases "match_pattern (unread (eng_write b e) mark) re plain")
    case (Some m)
    then show ?thesis unfolding up by (simp add: t Let_def flip: unread_def)
  next
    case None
    have "list_all (\<lambda>t. \<not> is_expire t) ts" using Cons.prems by simp
    from Cons.IH [OF this, of "eng_write b e"] None show ?thesis
      unfolding up
      by (simp add: t Let_def find_map_eq o_def option.case_eq_if option.map_sel flip: unread_def del: map_map)
  qed
qed simp

lemma read_with_wait_for_first:
  assumes "list_all (\<lambda>t. \<not> is_expire t) ts"
  shows "read_with_wait_for rx e pat cl (ts @ Expire d # rest) =
    (let mark = eng_mark e; hit = (\<lambda>k. match_pattern (unread (arrived (take k ts) e) mark) (rx pat) (str_bytes pat)) in
     Some (case find (\<lambda>k. hit k \<noteq> None) [0..<Suc (length ts)] of
       Some k \<Rightarrow> wait_hit (arrived (take k ts) e) mark (unread (arrived (take k ts) e) mark) (the (hit k))
                 (min (case cl of None \<Rightarrow> 0 | Some n \<Rightarrow> n) MAX_CONTEXT_LINES)
     | None \<Rightarrow> wait_expired (arrived (ts @ [Expire d]) e) mark))"
proof -
  have up: "[0..<Suc (length ts)] = 0 # map Suc [0..<length ts]" by (simp add: upt_conv_Cons map_Suc_upt del: upt_Suc)
  show ?thesis
    unfolding up read_with_wait_for_def Let_def wait_loop_first [OF assms]
    by (simp add: unread_def split: option.split)
qed

text \<open>The stream after some ticks, and what of it is unread at the cursor of an engine.\<close>

definition stream_at :: "bytes \<Rightarrow> tick list \<Rightarrow> nat \<Rightarrow> bytes" where
  "stream_at s ticks k = s @ concat (map tick_data (take k ticks))"

definition sought :: "regex_crate \<Rightarrow> string \<Rightarrow> bytes \<Rightarrow> (nat \<times> nat) option" where
  "sought rx pat data = match_pattern data (rx pat) (str_bytes pat)"

text \<open>What a call that found the pattern at tick \<open>k\<close> leaves and returns, and what one that did not.\<close>

definition wait_matched :: "engine \<Rightarrow> read_output_result \<Rightarrow> bytes \<Rightarrow> nat \<Rightarrow> nat \<times> nat \<Rightarrow> nat \<Rightarrow> bool" where
  "wait_matched e r s mark m n \<longleftrightarrow>
     rr_matched r \<and> \<not> rr_timed_out r \<and> eng_rep e s \<and> eng_mark e = length s \<and> rr_cursor r = length s \<and>
     rr_output r = extract_context (drop mark s) m n \<and>
     (fst m \<le> snd m \<longrightarrow> snd m \<le> length (drop mark s) \<longrightarrow>
       n = 0 \<or> fst m = snd m \<or> drop mark s ! (snd m - 1) \<noteq> NL \<longrightarrow>
       sublist (take (snd m - fst m) (drop (fst m) (drop mark s))) (rr_output r))"

definition wait_timed_out :: "engine \<Rightarrow> read_output_result \<Rightarrow> bytes \<Rightarrow> nat \<Rightarrow> bool" where
  "wait_timed_out e r s mark \<longleftrightarrow>
     \<not> rr_matched r \<and> rr_timed_out r \<and> eng_rep e s \<and> eng_mark e = mark \<and> rr_cursor r = mark \<and>
     rr_output r = drop mark s \<and> (rr_has_more r \<longleftrightarrow> drop mark s \<noteq> [])"

lemma wait_hit_matched:
  assumes "eng_rep e s"
  shows "wait_matched (fst (wait_hit e mark (drop mark s) m n)) (snd (wait_hit e mark (drop mark s) m n)) s mark m n"
proof -
  have "represents (eng_buffer e) s" using assms by (simp add: eng_rep_def)
  then show ?thesis
    using extract_context_shows_match [of "fst m" "snd m" "drop mark s" n]
    by (cases m) (simp add: wait_matched_def wait_hit_def eng_rep_def represents_written Let_def del: drop_drop length_drop)
qed

text \<open>
  (C40) \<open>wait_for\<close> answers the first match.  If nothing unread falls out of the ring until the deadline, a call whose
  deadline fires at some tick returns, and its answer is fixed by the stream alone.  If the unread part of the stream matches at
  the start of the call or at a tick before the deadline, the call ends at the first such tick, with the match the pattern (as a regular expression, or
  literally) has in all that was unread then, also if it spans several writes; the cursor moves to the end of the stream; and the
  output is the context of the match and shows the matched text (with context lines, if the match does not end in a newline).
  If there is no such tick, the call times out with the whole unread stream, marked as unmatched, and leaves the cursor where it was.
\<close>

theorem wait_for_answers_first_match:
  assumes "eng_rep e s" "ticks = ts @ Expire d # rest" "list_all (\<lambda>t. \<not> is_expire t) ts"
    and "length (stream_at s ticks (Suc (length ts))) \<le> eng_mark e + rb_size (eng_buffer e)"
  shows "\<exists>e' r. read_with_wait_for rx e pat cl ticks = Some (e', r) \<and>
    (case find (\<lambda>k. sought rx pat (drop (eng_mark e) (stream_at s ticks k)) \<noteq> None) [0..<Suc (length ts)] of
       Some k \<Rightarrow> wait_matched e' r (stream_at s ticks k) (eng_mark e)
                 (the (sought rx pat (drop (eng_mark e) (stream_at s ticks k))))
                 (min (case cl of None \<Rightarrow> 0 | Some n \<Rightarrow> n) MAX_CONTEXT_LINES)
     | None \<Rightarrow> wait_timed_out e' r (stream_at s ticks (Suc (length ts))) (eng_mark e))"
proof -
  have len: "length (stream_at s ticks k) \<le> length (stream_at s ticks (Suc (length ts)))" if "k \<le> Suc (length ts)" for k
  proof -
    have "take (Suc (length ts)) ticks = take k ticks @ take (Suc (length ts) - k) (drop k ticks)"
      using that by (metis le_add_diff_inverse take_add)
    then show ?thesis by (simp add: stream_at_def)
  qed
  have rep: "eng_rep (arrived (take k ticks) e) (stream_at s ticks k)" for k
    unfolding stream_at_def by (rule eng_rep_arrived [OF assms(1)])
  have data: "unread (arrived (take k ticks) e) (eng_mark e) = drop (eng_mark e) (stream_at s ticks k)" if "k \<le> Suc (length ts)" for k
  proof -
    have "\<not> is_truncated (eng_buffer (arrived (take k ticks) e)) (eng_mark e)"
      using rep [of k] len [OF that] assms(4) is_truncated_refines by (fastforce simp: eng_rep_def)
    from eng_rep_read [OF rep this] show ?thesis by (simp add: unread_def)
  qed
  have early: "take k ts = take k ticks" if "k \<le> length ts" for k using that assms(2) by simp
  have all: "ts @ [Expire d] = take (Suc (length ts)) ticks" using assms(2) by simp
  let ?n = "min (case cl of None \<Rightarrow> 0 | Some n \<Rightarrow> n) MAX_CONTEXT_LINES"
  let ?hit = "\<lambda>k. sought rx pat (drop (eng_mark e) (stream_at s ticks k))"
  have same: "match_pattern (unread (arrived (take k ts) e) (eng_mark e)) (rx pat) (str_bytes pat) = ?hit k" if "k \<le> length ts" for k
    using that by (simp add: early data sought_def)
  have find: "find (\<lambda>k. match_pattern (unread (arrived (take k ts) e) (eng_mark e)) (rx pat) (str_bytes pat) \<noteq> None) [0..<Suc (length ts)] =
      find (\<lambda>k. ?hit k \<noteq> None) [0..<Suc (length ts)]"
  proof (rule find_cong [OF refl])
    fix k assume "k \<in> set [0..<Suc (length ts)]"
    then have "k \<le> length ts" by auto
    from same [OF this] show "(match_pattern (unread (arrived (take k ts) e) (eng_mark e)) (rx pat) (str_bytes pat) \<noteq> None) \<longleftrightarrow> ?hit k \<noteq> None"
      by simp
  qed
  note run = read_with_wait_for_first [OF assms(3), of rx e pat cl d rest, folded assms(2), unfolded Let_def find]
  show ?thesis
  proof (cases "find (\<lambda>k. ?hit k \<noteq> None) [0..<Suc (length ts)]")
    case None
    show ?thesis
      unfolding run None option.case
      using rep [of "Suc (length ts)"] data [of "Suc (length ts)"]
      by (simp add: wait_timed_out_def wait_expired_def all Let_def flip: unread_def)
  next
    case (Some k)
    then have k: "k \<le> length ts" by (auto simp: find_Some_iff simp del: upt_Suc)
    have "read_with_wait_for rx e pat cl ticks =
        Some (wait_hit (arrived (take k ticks) e) (eng_mark e) (drop (eng_mark e) (stream_at s ticks k)) (the (?hit k)) ?n)"
      unfolding run Some option.case same [OF k] unfolding early [OF k] by (simp only: data [OF le_SucI [OF k]])
    moreover note wait_hit_matched [OF rep [of k], of "eng_mark e" "the (?hit k)" ?n]
    ultimately show ?thesis unfolding Some option.case by (metis prod.collapse)
  qed
qed

text \<open>A prompt that comes in two writes.\<close>

theorem wait_for_answers_first_match_witness:
  "\<exists>e' r. read_with_wait_for (\<lambda>_. None) (from_buffer (new_raw 16)) ''ok'' None [Tick 1 [0x6F], Tick 2 [0x6B, 0x0A], Expire []] = Some (e', r) \<and>
     rr_matched r \<and> rr_output r = [0x6F, 0x6B, 0x0A] \<and> eng_mark e' = 3"
proof -
  let ?e = "from_buffer (new_raw 16)" and ?ts = "[Tick 1 [0x6F], Tick 2 [0x6B, 0x0A]]"
  have "represents (new_raw 16) []" by (rule represents_new_raw) simp
  then have e: "eng_rep ?e []" "eng_mark ?e = 0" by (simp_all add: eng_rep_def from_buffer_def)
  have size: "rb_size (eng_buffer ?e) = 16" by (simp add: from_buffer_def new_raw_def)
  have str: "stream_at [] (?ts @ [Expire []]) 0 = []" "stream_at [] (?ts @ [Expire []]) 1 = [0x6F]"
    "stream_at [] (?ts @ [Expire []]) 2 = [0x6F, 0x6B, 0x0A]" "stream_at [] (?ts @ [Expire []]) 3 = [0x6F, 0x6B, 0x0A]"
    by (simp_all add: stream_at_def numeral_eq_Suc)
  have hits: "sought (\<lambda>_. None) ''ok'' [] = None" "sought (\<lambda>_. None) ''ok'' [0x6F] = None"
    "sought (\<lambda>_. None) ''ok'' [0x6F, 0x6B, 0x0A] = Some (0, 2)"
    by code_simp+
  have ctx: "extract_context [0x6F, 0x6B, 0x0A] (0, 2) 0 = [0x6F, 0x6B, 0x0A]" by code_simp
  have "[0..<Suc (length ?ts)] = [0, 1, 2]" by (simp add: upt_rec)
  then have find: "find (\<lambda>k. sought (\<lambda>_. None) ''ok'' (drop (eng_mark ?e) (stream_at [] (?ts @ [Expire []]) k)) \<noteq> None)
      [0..<Suc (length ?ts)] = Some 2"
    by (simp only: find.simps e str drop_0 hits) simp
  have len: "length (stream_at [] (?ts @ [Expire []]) (Suc (length ?ts))) \<le> eng_mark ?e + rb_size (eng_buffer ?e)"
    by (simp add: size stream_at_def)
  obtain e' r where run: "read_with_wait_for (\<lambda>_. None) ?e ''ok'' None (?ts @ [Expire []]) = Some (e', r)"
    and w: "wait_matched e' r [0x6F, 0x6B, 0x0A] 0 (0, 2) 0"
    using wait_for_answers_first_match [OF e(1) refl _ len, of "\<lambda>_. None" "''ok''" None, unfolded find, unfolded option.case e(2) str drop_0 hits option.sel]
    by (auto simp: MAX_CONTEXT_LINES_def)
  then show ?thesis using ctx by (auto simp: wait_matched_def)
qed

end
