(* ===== verification/Timeline.thy ===== *)
theory Timeline
  imports Text
begin

text \<open>
  The event timeline of a session (src/domain/timeline.rs): a queue of metadata events with
  eviction of the oldest, and the counter of command ids.  The clock \<open>now_millis()\<close> is an
  argument of every operation that reads it.
\<close>

section \<open>State and operations\<close>

datatype timeline_event =
    Command (ev_timestamp: nat) (ev_command_id: nat) (ev_input: string) (ev_cursor_before: nat)
  | Output (ev_timestamp: nat) (ev_cursor_start: nat) (ev_cursor_end: nat) (ev_bytes: nat)
  | Control (ev_timestamp: nat) (ev_control: string)
  | StateChange (ev_timestamp: nat) (ev_from: string) (ev_to: string)

record timeline =
  tl_events :: "timeline_event list"
  tl_next_command_id :: nat
  tl_max_events :: nat

definition timeline_with_capacity :: "nat \<Rightarrow> timeline" where
  "timeline_with_capacity m = \<lparr>tl_events = [], tl_next_command_id = 1, tl_max_events = m\<rparr>"

definition timeline_new :: timeline where
  "timeline_new = timeline_with_capacity 1000"

text \<open>\<open>push\<close>: \<open>pop_front\<close> of an empty queue does nothing.\<close>

definition push :: "timeline \<Rightarrow> timeline_event \<Rightarrow> timeline" where
  "push t e =
     (let evs = (if length (tl_events t) \<ge> tl_max_events t then tl (tl_events t) else tl_events t)
      in t\<lparr>tl_events := evs @ [e]\<rparr>)"

definition truncate_utf8 :: "bytes \<Rightarrow> nat \<Rightarrow> string" where
  "truncate_utf8 bs max_len =
     (if length bs \<le> max_len then from_utf8_lossy bs
      else from_utf8_lossy (take max_len bs) @ ''...'')"

definition record_command :: "nat \<Rightarrow> timeline \<Rightarrow> bytes \<Rightarrow> nat \<Rightarrow> timeline \<times> nat" where
  "record_command now t input cursor_before =
     (let command_id = tl_next_command_id t;
          t = t\<lparr>tl_next_command_id := command_id + 1\<rparr>;
          input_str = truncate_utf8 input 4096
      in (push t (Command now command_id input_str cursor_before), command_id))"

definition record_output :: "nat \<Rightarrow> timeline \<Rightarrow> nat \<Rightarrow> nat \<Rightarrow> nat \<Rightarrow> timeline" where
  "record_output now t cursor_start cursor_end n =
     (if n = 0 then t else push t (Output now cursor_start cursor_end n))"

definition record_control :: "nat \<Rightarrow> timeline \<Rightarrow> string \<Rightarrow> timeline" where
  "record_control now t control = push t (Control now control)"

definition record_state_change :: "nat \<Rightarrow> timeline \<Rightarrow> string \<Rightarrow> string \<Rightarrow> timeline" where
  "record_state_change now t from to = push t (StateChange now from to)"

definition events :: "timeline \<Rightarrow> nat option \<Rightarrow> timeline_event list" where
  "events t limit =
     (let evs = tl_events t;
          skip = (case limit of Some n \<Rightarrow> if n < length evs then length evs - n else 0 | None \<Rightarrow> 0)
      in drop skip evs)"

section \<open>What the timeline keeps\<close>

text \<open>\<open>push\<close> keeps the last \<open>max 1 max_events\<close> events: a capacity of 0 keeps one.\<close>

definition tl_keeps :: "timeline \<Rightarrow> timeline_event list \<Rightarrow> bool" where
  "tl_keeps t history \<longleftrightarrow> tl_events t = last_n (max 1 (tl_max_events t)) history"

lemma tl_keeps_new [wf_intros]: "tl_keeps (timeline_with_capacity m) []"
  by (simp add: tl_keeps_def timeline_with_capacity_def)

lemma tl_max_push [simp]: "tl_max_events (push t e) = tl_max_events t"
  by (simp add: push_def Let_def)

lemma tl_next_push [simp]: "tl_next_command_id (push t e) = tl_next_command_id t"
  by (simp add: push_def Let_def)

lemma tl_keeps_push [wf_intros]:
  assumes "tl_keeps t h"
  shows "tl_keeps (push t e) (h @ [e])"
proof -
  let ?m = "max 1 (tl_max_events t)"
  have t: "tl_events t = last_n ?m h" using assms by (simp add: tl_keeps_def)
  show ?thesis
  proof (cases "?m \<le> length h")
    case True
    have "last_n ?m (h @ [e]) = drop 1 (last_n ?m h) @ [e]"
      using True by (subst last_n_append) auto
    moreover have "tl_max_events t \<le> length (tl_events t)" using t True by simp
    ultimately show ?thesis using t by (simp add: tl_keeps_def push_def Let_def drop_Suc)
  next
    case False
    then show ?thesis using t by (cases h) (auto simp: tl_keeps_def push_def Let_def)
  qed
qed

lemma tl_keeps_foldl_push: "tl_keeps t h \<Longrightarrow> tl_keeps (foldl push t es) (h @ es)"
proof (induction es arbitrary: t h)
  case (Cons e es)
  then show ?case using Cons.IH [OF tl_keeps_push [OF Cons.prems, of e]] by simp
qed simp

lemma tl_max_foldl_push [simp]: "tl_max_events (foldl push t es) = tl_max_events t"
  by (induction es arbitrary: t) simp_all

text \<open>
  After any history of events the timeline holds exactly the newest \<open>max 1 capacity\<close> of
  them, oldest first, and \<open>events (Some n)\<close> returns the newest \<open>n\<close> of those.
\<close>

lemma timeline_keeps_newest:
  "events (foldl push (timeline_with_capacity m) history) limit =
   last_n (case limit of None \<Rightarrow> max 1 m | Some n \<Rightarrow> min n (max 1 m)) history"
proof -
  let ?t = "foldl push (timeline_with_capacity m) history"
  have "tl_keeps ?t ([] @ history)" by (rule tl_keeps_foldl_push [OF tl_keeps_new])
  then have "tl_events ?t = last_n (max 1 m) history"
    by (simp add: tl_keeps_def timeline_with_capacity_def)
  moreover have "events ?t limit = (case limit of None \<Rightarrow> tl_events ?t | Some n \<Rightarrow> last_n n (tl_events ?t))"
    by (cases limit) (auto simp: events_def Let_def last_n_def)
  ultimately show ?thesis by (cases limit) (simp_all only: last_n_last_n option.case)
qed

text \<open>Commands are numbered consecutively from 1, whatever is recorded in between.\<close>

lemma record_command_id:
  "snd (record_command now t inp c) = tl_next_command_id t"
  "tl_next_command_id (fst (record_command now t inp c)) = Suc (tl_next_command_id t)"
  by (simp_all add: record_command_def Let_def)

lemma record_command_push:
  "fst (record_command now t inp c) =
     push (t\<lparr>tl_next_command_id := Suc (tl_next_command_id t)\<rparr>)
       (Command now (tl_next_command_id t) (truncate_utf8 inp 4096) c)"
  by (simp add: record_command_def Let_def)

lemma tl_keeps_next_id [simp]: "tl_keeps (t\<lparr>tl_next_command_id := k\<rparr>) h = tl_keeps t h"
  by (simp add: tl_keeps_def)

end
