(* ===== verification/Session.thy ===== *)
theory Session
  imports Output_Engine Provider Timeline
begin

text \<open>
  A session of the MCP server (src/domain/session.rs): an output engine, a terminal handle, a read
  task that moves terminal output into the engine, and the state machine
  Creating/Ready/Closing/Closed/Lost.  First the operations as state transformers, the results of
  the handle being arguments; then a step relation that interleaves the read task, several callers
  and several closers at the points where the code may be preempted.
\<close>

section \<open>State\<close>

datatype session_state = Creating | Ready | Closing | Closed | Lost

definition is_closed :: "session_state \<Rightarrow> bool" where "is_closed s \<longleftrightarrow> s = Closed"
definition is_detached :: "session_state \<Rightarrow> bool" where "is_detached s \<longleftrightarrow> s = Closed \<or> s = Lost"
definition is_usable :: "session_state \<Rightarrow> bool" where "is_usable s \<longleftrightarrow> s = Ready"

text \<open>\<open>format!("{:?}", state).to_ascii_lowercase()\<close>.\<close>

fun state_debug :: "session_state \<Rightarrow> string" where
  "state_debug Creating = ''Creating''"
| "state_debug Ready = ''Ready''"
| "state_debug Closing = ''Closing''"
| "state_debug Closed = ''Closed''"
| "state_debug Lost = ''Lost''"

definition state_lower :: "session_state \<Rightarrow> string" where
  "state_lower s = to_ascii_lowercase (state_debug s)"

text \<open>
  \<open>s_read_task\<close> says that the session holds the join handle of its read task,
  \<open>s_reading\<close> that the task still runs.
\<close>

record session =
  s_id :: string
  s_host :: string
  s_state :: session_state
  s_pty_size :: pty_size
  s_output :: engine
  s_read_task :: bool
  s_reading :: bool
  s_last_activity :: nat
  s_timeline :: timeline
  s_created_at :: nat
  s_approval_mode :: approval_mode

definition session_new :: "nat \<Rightarrow> nat \<Rightarrow> string \<Rightarrow> string \<Rightarrow> pty_size \<Rightarrow> session" where
  "session_new now_secs now_millis sid host pty =
     \<lparr>s_id = sid, s_host = host, s_state = Ready, s_pty_size = pty,
      s_output = engine_new DEFAULT_BUFFER_SIZE, s_read_task = True, s_reading = True,
      s_last_activity = now_secs,
      s_timeline = record_state_change now_millis timeline_new ''creating'' ''ready'',
      s_created_at = now_millis, s_approval_mode = Standard\<rparr>"

definition set_approval_mode :: "approval_mode \<Rightarrow> session \<Rightarrow> session" where
  "set_approval_mode mode s = s\<lparr>s_approval_mode := mode\<rparr>"

definition is_idle :: "nat \<Rightarrow> nat \<Rightarrow> session \<Rightarrow> bool" where
  "is_idle now_secs threshold_secs s \<longleftrightarrow> now_secs - s_last_activity s \<ge> threshold_secs"

definition touch_last_activity :: "nat \<Rightarrow> session \<Rightarrow> session" where
  "touch_last_activity now_secs s = s\<lparr>s_last_activity := now_secs\<rparr>"

definition abort_read_task :: "session \<Rightarrow> session" where
  "abort_read_task s = (if s_read_task s then s\<lparr>s_read_task := False, s_reading := False\<rparr> else s)"

section \<open>The read task\<close>

text \<open>
  One iteration on data, in the two parts another thread can see: the write, and the record of the
  cursors around it.  Then the exit, on end of file or an error alike.
\<close>

definition read_write :: "bytes \<Rightarrow> session \<Rightarrow> session \<times> nat \<times> nat" where
  "read_write data s =
     (let cursor_start = rb_written (eng_buffer (s_output s));
          s = s\<lparr>s_output := eng_write data (s_output s)\<rparr>;
          cursor_end = rb_written (eng_buffer (s_output s))
      in (s, cursor_start, cursor_end))"

definition read_record :: "nat \<Rightarrow> nat \<Rightarrow> nat \<Rightarrow> nat \<Rightarrow> session \<Rightarrow> session" where
  "read_record now cursor_start cursor_end n s =
     s\<lparr>s_timeline := record_output now (s_timeline s) cursor_start cursor_end n\<rparr>"

definition read_data :: "nat \<Rightarrow> bytes \<Rightarrow> session \<Rightarrow> session" where
  "read_data now data s =
     (let (s, a, b) = read_write data s in read_record now a b (length data) s)"

definition read_exit :: "session \<Rightarrow> session" where
  "read_exit s = (let s = s\<lparr>s_reading := False\<rparr> in if s_state s = Ready then s\<lparr>s_state := Lost\<rparr> else s)"

section \<open>The operations of a caller\<close>

definition session_read_output ::
  "regex_crate \<Rightarrow> nat \<Rightarrow> read_output_params \<Rightarrow> nat \<Rightarrow> tick list \<Rightarrow> session \<Rightarrow>
   (session \<times> read_output_result result) option" where
  "session_read_output rx now_secs params now ticks s =
     (if is_closed (s_state s) then Some (s, Inl (SessionClosed (s_id s)))
      else let s = touch_last_activity now_secs s
           in map_option (\<lambda>(e, r). (s\<lparr>s_output := e\<rparr>, Inr r))
                (read_output rx (s_output s) params now ticks))"

text \<open>
  \<open>io\<close> is what \<open>handle.write\<close>, \<open>handle.send_control\<close>,
  \<open>handle.resize\<close> or \<open>handle.close\<close> returns, if it is called.
\<close>

definition session_send_input ::
  "nat \<Rightarrow> nat \<Rightarrow> unit result \<Rightarrow> bytes \<Rightarrow> session \<Rightarrow> session \<times> unit result" where
  "session_send_input now_secs now io data s =
     (if \<not> is_usable (s_state s) then (s, Inl (SessionClosed (s_id s)))
      else let s = touch_last_activity now_secs s;
               cursor_before = rb_written (eng_buffer (s_output s));
               s = s\<lparr>s_timeline := fst (record_command now (s_timeline s) data cursor_before)\<rparr>
           in (s, io))"

definition session_send_control ::
  "nat \<Rightarrow> nat \<Rightarrow> unit result \<Rightarrow> control_key \<Rightarrow> session \<Rightarrow> session \<times> unit result" where
  "session_send_control now_secs now io key s =
     (if \<not> is_usable (s_state s) then (s, Inl (SessionClosed (s_id s)))
      else let s = touch_last_activity now_secs s;
               s = s\<lparr>s_timeline := record_control now (s_timeline s) (as_name key)\<rparr>
           in (s, io))"

definition session_resize :: "unit result \<Rightarrow> pty_size \<Rightarrow> session \<Rightarrow> session \<times> unit result" where
  "session_resize io sz s =
     (if \<not> is_usable (s_state s) then (s, Inl (SessionClosed (s_id s))) else (s, io))"

text \<open>\<open>close\<close> before and after the await of \<open>handle.close()\<close>.\<close>

definition close_mark :: "nat \<Rightarrow> session \<Rightarrow> session" where
  "close_mark now s =
     (let from_state = state_lower (s_state s);
          s = s\<lparr>s_timeline := record_state_change now (s_timeline s) from_state ''closing''\<rparr>;
          s = s\<lparr>s_state := Closing\<rparr>
      in abort_read_task s)"

definition close_done :: "nat \<Rightarrow> session \<Rightarrow> session" where
  "close_done now s =
     (let s = s\<lparr>s_state := Closed\<rparr>
      in s\<lparr>s_timeline := record_state_change now (s_timeline s) ''closing'' ''closed''\<rparr>)"

definition session_close :: "nat \<Rightarrow> unit result \<Rightarrow> session \<Rightarrow> session \<times> unit result" where
  "session_close now io s =
     (if is_closed (s_state s) then (s, Inr ()) else (close_done now (close_mark now s), io))"

text \<open>\<open>summary()\<close>; \<open>name\<close> is always \<open>None\<close>.\<close>

record session_summary =
  ss_id :: string
  ss_host :: string
  ss_state :: session_state
  ss_pty_size :: pty_size
  ss_created_at :: nat
  ss_last_activity :: nat
  ss_written :: nat
  ss_name :: "string option"
  ss_approval_mode :: approval_mode

definition summary :: "session \<Rightarrow> session_summary" where
  "summary s =
     \<lparr>ss_id = s_id s, ss_host = s_host s, ss_state = s_state s, ss_pty_size = s_pty_size s,
      ss_created_at = s_created_at s, ss_last_activity = s_last_activity s,
      ss_written = rb_written (eng_buffer (s_output s)), ss_name = None,
      ss_approval_mode = s_approval_mode s\<rparr>"

lemmas session_op_defs = session_send_input_def session_send_control_def session_resize_def
  session_close_def close_mark_def close_done_def abort_read_task_def touch_last_activity_def
  is_usable_def is_closed_def Let_def

section \<open>Interleaving\<close>

text \<open>
  The concurrent session: the session, the output the read task has written but not yet recorded,
  and the calls of \<open>close\<close> under way (\<open>Checked\<close> once the call saw the session
  not closed, \<open>Marked\<close> while it awaits \<open>handle.close()\<close>).  A read of the output
  appears as one step; what arrives while a read waits are steps of the read task.
\<close>

datatype close_phase = Checked | Marked

record csession =
  cs_session :: session
  cs_unrecorded :: "(nat \<times> nat \<times> nat) option"
  cs_closers :: "close_phase list"

definition cs_start :: "session \<Rightarrow> csession" where
  "cs_start s = \<lparr>cs_session = s, cs_unrecorded = None, cs_closers = []\<rparr>"

inductive cs_step :: "csession \<Rightarrow> csession \<Rightarrow> bool" where
  write_step: "s_reading (cs_session c) \<Longrightarrow> cs_unrecorded c = None \<Longrightarrow>
    read_write data (cs_session c) = (s, a, b) \<Longrightarrow>
    cs_step c (c\<lparr>cs_session := s, cs_unrecorded := Some (a, b, length data)\<rparr>)"
| record_step: "cs_unrecorded c = Some (a, b, n) \<Longrightarrow>
    cs_step c (c\<lparr>cs_session := read_record now a b n (cs_session c), cs_unrecorded := None\<rparr>)"
| exit_step: "s_reading (cs_session c) \<Longrightarrow> cs_unrecorded c = None \<Longrightarrow>
    cs_step c (c\<lparr>cs_session := read_exit (cs_session c)\<rparr>)"
| read_step: "\<forall>t \<in> set ticks. tick_data t = [] \<Longrightarrow>
    session_read_output rx secs params now ticks (cs_session c) = Some (s, res) \<Longrightarrow>
    cs_step c (c\<lparr>cs_session := s\<rparr>)"
| input_step: "session_send_input secs now io data (cs_session c) = (s, res) \<Longrightarrow>
    cs_step c (c\<lparr>cs_session := s\<rparr>)"
| control_step: "session_send_control secs now io key (cs_session c) = (s, res) \<Longrightarrow>
    cs_step c (c\<lparr>cs_session := s\<rparr>)"
| resize_step: "session_resize io sz (cs_session c) = (s, res) \<Longrightarrow> cs_step c (c\<lparr>cs_session := s\<rparr>)"
| approve_step: "cs_step c (c\<lparr>cs_session := set_approval_mode mode (cs_session c)\<rparr>)"
| raw_step: "cs_step c (c\<lparr>cs_session := abort_read_task (cs_session c)\<rparr>)"
| close_check_step: "\<not> is_closed (s_state (cs_session c)) \<Longrightarrow>
    cs_step c (c\<lparr>cs_closers := cs_closers c @ [Checked]\<rparr>)"
| close_mark_step: "i < length (cs_closers c) \<Longrightarrow> cs_closers c ! i = Checked \<Longrightarrow>
    cs_step c (c\<lparr>cs_session := close_mark now (cs_session c), cs_closers := (cs_closers c)[i := Marked]\<rparr>)"
| close_done_step: "cs_closers c = xs @ Marked # ys \<Longrightarrow>
    cs_step c (c\<lparr>cs_session := close_done now (cs_session c), cs_closers := xs @ ys\<rparr>)"

inductive_cases cs_stepE: "cs_step c c'"

abbreviation cs_reachable :: "csession \<Rightarrow> csession \<Rightarrow> bool" where
  "cs_reachable \<equiv> cs_step\<^sup>*\<^sup>*"

section \<open>Reading leaves the buffer alone\<close>

lemma rb_write_Nil [simp]: "rb_write g [] = g"
  by (simp add: rb_write_def)

lemma wait_loop_buffer:
  "wait_loop e mark re plain ctx ts = Some (e', r) \<Longrightarrow> \<forall>t \<in> set ts. tick_data t = [] \<Longrightarrow>
   eng_buffer e' = eng_buffer e"
  by (induction e mark re plain ctx ts rule: wait_loop.induct)
    (auto simp: Let_def wait_hit_def wait_expired_def split: option.splits)

lemma settle_loop_buffer:
  "settle_loop e mark lo lc ts = Some (e', r) \<Longrightarrow> \<forall>t \<in> set ts. tick_data t = [] \<Longrightarrow>
   eng_buffer e' = eng_buffer e"
  by (induction e mark lo lc ts rule: settle_loop.induct)
    (auto simp: Let_def settle_done_def split: if_splits)

lemma read_since_mode_buffer: "eng_buffer (fst (read_since_mode e c m strip)) = eng_buffer e"
  by (auto simp: read_since_mode_def strip_since_page_def Let_def split: prod.splits)

lemma read_output_buffer:
  assumes "read_output rx e p now ts = Some (e', r)" "\<forall>t \<in> set ts. tick_data t = []"
  shows "eng_buffer e' = eng_buffer e"
proof (cases "ro_since_cursor p")
  case (Some c)
  then show ?thesis using assms(1) read_since_mode_buffer [of e c _ "ro_strip_ansi p"]
    by (auto simp: read_output_def split: option.splits) (metis fst_conv)+
next
  case None
  then show ?thesis using assms
    by (auto simp: read_output_def read_with_wait_for_def read_with_settle_def wait_hit_def Let_def
        dest: wait_loop_buffer settle_loop_buffer split: option.splits)
qed

section \<open>What each operation leaves unchanged\<close>

abbreviation s_written :: "session \<Rightarrow> nat" where
  "s_written s \<equiv> rb_written (eng_buffer (s_output s))"

lemma session_read_output_effect:
  assumes "session_read_output rx secs p now ts s = Some (s', res)" "\<forall>t \<in> set ts. tick_data t = []"
  shows "s_state s' = s_state s" "s_id s' = s_id s" "s_reading s' = s_reading s"
    "s_read_task s' = s_read_task s" "s_timeline s' = s_timeline s" "s_written s' = s_written s"
  using assms
  by (auto simp: session_read_output_def touch_last_activity_def Let_def
      dest!: read_output_buffer split: if_splits)

lemma session_send_input_effect:
  assumes "session_send_input secs now io d s = (s', res)"
  shows "s_state s' = s_state s" "s_id s' = s_id s" "s_reading s' = s_reading s"
    "s_read_task s' = s_read_task s" "s_output s' = s_output s"
    "s_timeline s' = s_timeline s \<or>
     s_timeline s' = fst (record_command now (s_timeline s) d (s_written s))"
  using assms by (auto simp: session_op_defs split: if_splits)

lemma session_send_control_effect:
  assumes "session_send_control secs now io k s = (s', res)"
  shows "s_state s' = s_state s" "s_id s' = s_id s" "s_reading s' = s_reading s"
    "s_read_task s' = s_read_task s" "s_output s' = s_output s"
    "s_timeline s' = s_timeline s \<or> s_timeline s' = record_control now (s_timeline s) (as_name k)"
  using assms by (auto simp: session_op_defs split: if_splits)

lemma session_resize_effect: "session_resize io sz s = (s', res) \<Longrightarrow> s' = s"
  by (auto simp: session_resize_def split: if_splits)

lemma read_write_effect:
  assumes "read_write d s = (s', a, b)"
  shows "s_state s' = s_state s" "s_id s' = s_id s" "s_reading s' = s_reading s"
    "s_read_task s' = s_read_task s" "s_timeline s' = s_timeline s"
    "a = s_written s" "b = s_written s'" "s_written s' = s_written s + length d"
  using assms by (auto simp: read_write_def Let_def)

lemma read_record_effect [simp]:
  "s_state (read_record now a b n s) = s_state s" "s_id (read_record now a b n s) = s_id s"
  "s_reading (read_record now a b n s) = s_reading s"
  "s_read_task (read_record now a b n s) = s_read_task s"
  "s_output (read_record now a b n s) = s_output s"
  "s_timeline (read_record now a b n s) = record_output now (s_timeline s) a b n"
  by (simp_all add: read_record_def)

lemma read_exit_effect [simp]:
  "s_state (read_exit s) = (if s_state s = Ready then Lost else s_state s)"
  "s_id (read_exit s) = s_id s" "s_reading (read_exit s) = False"
  "s_read_task (read_exit s) = s_read_task s" "s_output (read_exit s) = s_output s"
  "s_timeline (read_exit s) = s_timeline s"
  by (simp_all add: read_exit_def Let_def)

lemma abort_read_task_effect [simp]:
  "s_state (abort_read_task s) = s_state s" "s_id (abort_read_task s) = s_id s"
  "s_output (abort_read_task s) = s_output s" "s_timeline (abort_read_task s) = s_timeline s"
  "s_reading (abort_read_task s) \<longleftrightarrow> s_reading s \<and> \<not> s_read_task s"
  "s_read_task (abort_read_task s) = False"
  by (simp_all add: abort_read_task_def)

lemma close_mark_effect [simp]:
  "s_state (close_mark now s) = Closing" "s_id (close_mark now s) = s_id s"
  "s_output (close_mark now s) = s_output s"
  "s_reading (close_mark now s) \<longleftrightarrow> s_reading s \<and> \<not> s_read_task s"
  "s_read_task (close_mark now s) = False"
  "s_timeline (close_mark now s) =
     record_state_change now (s_timeline s) (state_lower (s_state s)) ''closing''"
  by (simp_all add: close_mark_def Let_def)

lemma close_done_effect [simp]:
  "s_state (close_done now s) = Closed" "s_id (close_done now s) = s_id s"
  "s_output (close_done now s) = s_output s" "s_reading (close_done now s) = s_reading s"
  "s_read_task (close_done now s) = s_read_task s"
  "s_timeline (close_done now s) = record_state_change now (s_timeline s) ''closing'' ''closed''"
  by (simp_all add: close_done_def Let_def)

lemma set_approval_mode_effect [simp]:
  "s_state (set_approval_mode m s) = s_state s" "s_id (set_approval_mode m s) = s_id s"
  "s_output (set_approval_mode m s) = s_output s" "s_timeline (set_approval_mode m s) = s_timeline s"
  "s_reading (set_approval_mode m s) = s_reading s"
  "s_read_task (set_approval_mode m s) = s_read_task s"
  by (simp_all add: set_approval_mode_def)

lemmas session_effects = session_read_output_effect session_send_input_effect
  session_send_control_effect read_write_effect

section \<open>The state machine\<close>

definition cs_inv :: "csession \<Rightarrow> bool" where
  "cs_inv c \<longleftrightarrow>
     s_state (cs_session c) \<noteq> Creating \<and>
     (s_state (cs_session c) = Closing \<longrightarrow> Marked \<in> set (cs_closers c)) \<and>
     (Marked \<in> set (cs_closers c) \<longrightarrow> s_state (cs_session c) \<in> {Closing, Closed}) \<and>
     (s_reading (cs_session c) \<longrightarrow> s_read_task (cs_session c) \<and> s_state (cs_session c) = Ready)"

lemma cs_inv_start [wf_intros]: "cs_inv (cs_start (session_new secs now i h p))"
  by (simp add: cs_inv_def cs_start_def session_new_def)

lemma set_update_Marked: "i < length xs \<Longrightarrow> Marked \<in> set (xs[i := Marked])"
  by (rule set_update_memI)

lemma cs_inv_step: "cs_step c c' \<Longrightarrow> cs_inv c \<Longrightarrow> cs_inv c'"
proof (induction rule: cs_step.induct)
  case (close_mark_step i c now)
  then show ?case by (simp add: cs_inv_def set_update_Marked)
next
  case (close_done_step c xs ys now)
  then show ?case by (auto simp: cs_inv_def)
qed (auto simp: cs_inv_def session_effects dest: session_resize_effect)

lemma cs_inv_reachable:
  "cs_reachable (cs_start (session_new secs now i h p)) c \<Longrightarrow> cs_inv c"
  by (induction rule: rtranclp_induct) (auto intro: wf_intros cs_inv_step)

lemma cs_step_not_ready:
  "cs_step c c' \<Longrightarrow> s_state (cs_session c) \<noteq> Ready \<Longrightarrow> s_state (cs_session c') \<noteq> Ready"
  by (induction rule: cs_step.induct) (auto simp: session_effects dest: session_resize_effect)

lemma cs_step_id: "cs_step c c' \<Longrightarrow> s_id (cs_session c') = s_id (cs_session c)"
  by (induction rule: cs_step.induct) (auto simp: session_effects dest: session_resize_effect)

lemma cs_reachable_not_ready:
  "cs_reachable c c' \<Longrightarrow> s_state (cs_session c) \<noteq> Ready \<Longrightarrow>
   s_state (cs_session c') \<noteq> Ready \<and> s_id (cs_session c') = s_id (cs_session c)"
proof (induction rule: rtranclp_induct)
  case (step y z)
  then show ?case using cs_step_not_ready [OF step.hyps(2)] cs_step_id [OF step.hyps(2)] by simp
qed simp

text \<open>
  Once a session is lost, closing or closed, no interleaving of the read task, the callers and the
  closers makes it writable again: every later \<open>send_input\<close>, \<open>send_control\<close> and
  \<open>resize\<close> is refused with \<open>SESSION_CLOSED\<close> and changes nothing.
\<close>

lemma not_ready_is_final:
  assumes "s_state (cs_session c) \<noteq> Ready" "cs_reachable c c'"
  shows "session_send_input secs now io d (cs_session c') =
      (cs_session c', Inl (SessionClosed (s_id (cs_session c)))) \<and>
    session_send_control secs now io k (cs_session c') =
      (cs_session c', Inl (SessionClosed (s_id (cs_session c)))) \<and>
    session_resize io sz (cs_session c') = (cs_session c', Inl (SessionClosed (s_id (cs_session c))))"
  using cs_reachable_not_ready [OF assms(2,1)] by (simp add: session_op_defs)

lemma lost_example:
  "cs_step (cs_start (session_new 0 0 i h p)) (cs_start (read_exit (session_new 0 0 i h p)))"
  using exit_step [of "cs_start (session_new 0 0 i h p)"]
  by (simp add: cs_start_def session_new_def)

text \<open>
  In every reachable state of a session, whatever ran concurrently: the state is \<open>Closing\<close>
  only while some call of \<open>close\<close> awaits the handle; a closer past its mark has taken the
  session out of \<open>Ready\<close> and \<open>Lost\<close> for good; and the read task runs only while
  the session is \<open>Ready\<close>, so that a lost or closed session takes no more terminal output.
\<close>

lemma session_lifecycle:
  assumes "cs_reachable (cs_start (session_new secs now i h p)) c"
  shows "(s_state (cs_session c) = Closing \<longrightarrow> Marked \<in> set (cs_closers c)) \<and>
    (Marked \<in> set (cs_closers c) \<longrightarrow> s_state (cs_session c) \<in> {Closing, Closed}) \<and>
    (s_reading (cs_session c) \<longrightarrow> s_state (cs_session c) = Ready)"
  using cs_inv_reachable [OF assms] by (auto simp: cs_inv_def)

text \<open>
  Two concurrent calls of \<open>close\<close> can take the session from \<open>Closed\<close> back
  to \<open>Closing\<close>: the test for \<open>Closed\<close> and the assignment are not one step.  A read
  that was refused with \<open>SESSION_CLOSED\<close> in between is then accepted again.
\<close>

lemma close_race_reopens:
  "\<exists>c1 c2. cs_reachable (cs_start (session_new secs now i h p)) c1 \<and> cs_reachable c1 c2 \<and>
     s_state (cs_session c1) = Closed \<and> s_state (cs_session c2) = Closing \<and>
     session_read_output rx t params t' ticks (cs_session c1) =
       Some (cs_session c1, Inl (SessionClosed i)) \<and>
     session_read_output rx t (params\<lparr>ro_since_cursor := Some 0\<rparr>) t' ticks (cs_session c2) \<noteq>
       Some (cs_session c2, Inl (SessionClosed i))"
proof -
  let ?s = "session_new secs now i h p"
  let ?c0 = "cs_start ?s"
  let ?a = "?c0\<lparr>cs_closers := [Checked]\<rparr>" and ?b = "?c0\<lparr>cs_closers := [Checked, Checked]\<rparr>"
  let ?m = "?c0\<lparr>cs_session := close_mark now ?s, cs_closers := [Marked, Checked]\<rparr>"
  let ?d = "?c0\<lparr>cs_session := close_done now (close_mark now ?s), cs_closers := [Checked]\<rparr>"
  let ?e = "?c0\<lparr>cs_session := close_mark now (close_done now (close_mark now ?s)), cs_closers := [Marked]\<rparr>"
  have s: "s_state ?s = Ready" "s_id ?s = i" by (simp_all add: session_new_def)
  have "cs_step ?c0 ?a" using close_check_step [of ?c0] s by (simp add: cs_start_def is_closed_def)
  moreover have "cs_step ?a ?b" using close_check_step [of ?a] s by (simp add: cs_start_def is_closed_def)
  moreover have "cs_step ?b ?m" using close_mark_step [of 0 ?b now] by (simp add: cs_start_def)
  moreover have "cs_step ?m ?d" using close_done_step [of ?m "[]" "[Checked]" now] by (simp add: cs_start_def)
  ultimately have 1: "cs_reachable ?c0 ?d" by (meson converse_rtranclp_into_rtranclp rtranclp.rtrancl_refl)
  have "cs_step ?d ?e" using close_mark_step [of 0 ?d now] by (simp add: cs_start_def)
  then have 2: "cs_reachable ?d ?e" by (rule r_into_rtranclp)
  have "session_read_output rx t params t' ticks (cs_session ?d) = Some (cs_session ?d, Inl (SessionClosed i))"
    by (simp add: session_read_output_def is_closed_def s)
  moreover have "session_read_output rx t (params\<lparr>ro_since_cursor := Some 0\<rparr>) t' ticks (cs_session ?e) \<noteq>
     Some (cs_session ?e, Inl (SessionClosed i))"
    by (auto simp: session_read_output_def is_closed_def s read_output_def Let_def case_prod_beta)
  ultimately show ?thesis using 1 2 by (intro exI [of _ ?d] exI [of _ ?e]) simp
qed

text \<open>
  A call of \<open>close\<close> that runs alone ends the session whatever the handle answers: the state is
  \<open>Closed\<close>, the read task is gone, the caller gets the handle's result, and every further
  \<open>close\<close> returns \<open>Ok\<close> and changes nothing.
\<close>

lemma close_idempotent:
  assumes "s_state s \<noteq> Closed" "s_reading s \<longrightarrow> s_read_task s" "session_close now io s = (s', res)"
  shows "s_state s' = Closed \<and> \<not> s_reading s' \<and> res = io \<and> session_close now' io' s' = (s', Inr ())"
  using assms by (auto simp: session_close_def is_closed_def)

section \<open>The timeline follows the buffer\<close>

text \<open>
  Read from the newest event back: every output event ends where the next newer one starts, and covers
  as many cursor positions as bytes; no command was sent at a cursor beyond the buffer.
\<close>

fun tiles :: "nat \<Rightarrow> timeline_event list \<Rightarrow> bool" where
  "tiles w [] = True"
| "tiles w (Output t a b n # es) = (b = w \<and> b = a + n \<and> 0 < n \<and> tiles a es)"
| "tiles w (e # es) = tiles w es"

lemma tiles_append: "tiles w (xs @ ys) \<Longrightarrow> tiles w xs"
  by (induction w xs rule: tiles.induct) auto

lemma tiles_push:
  assumes "tiles w (e # rev (tl_events t))"
  shows "tiles w (rev (tl_events (push t e)))"
proof -
  have "tiles w (e # rev (tl (tl_events t)))"
  proof (cases "tl_events t")
    case (Cons x xs)
    then have "tiles w ((e # rev xs) @ [x])" using assms by simp
    then show ?thesis using Cons tiles_append [of w "e # rev xs" "[x]"] by simp
  qed (use assms in simp)
  then show ?thesis using assms by (simp add: push_def Let_def)
qed

text \<open>The cursor up to which the timeline has recorded output.\<close>

definition recorded_to :: "csession \<Rightarrow> nat" where
  "recorded_to c = (case cs_unrecorded c of None \<Rightarrow> s_written (cs_session c) | Some (a, b, n) \<Rightarrow> a)"

definition tl_inv :: "csession \<Rightarrow> bool" where
  "tl_inv c \<longleftrightarrow> tiles (recorded_to c) (rev (tl_events (s_timeline (cs_session c)))) \<and>
     (case cs_unrecorded c of None \<Rightarrow> True
      | Some (a, b, n) \<Rightarrow> b = s_written (cs_session c) \<and> b = a + n)"

lemma tl_inv_start [wf_intros]: "tl_inv (cs_start (session_new secs now i h p))"
  by (simp add: tl_inv_def cs_start_def session_new_def recorded_to_def record_state_change_def
      push_def Let_def timeline_new_def timeline_with_capacity_def)

lemma tl_inv_same:
  assumes "tl_inv c" "s_written s = s_written (cs_session c)"
    "tiles (recorded_to c) (rev (tl_events (s_timeline s)))"
  shows "tl_inv (c\<lparr>cs_session := s\<rparr>)" "tl_inv (c\<lparr>cs_session := s, cs_closers := xs\<rparr>)"
  using assms by (auto simp: tl_inv_def recorded_to_def split: option.splits)

lemma tiles_records:
  assumes "tiles w (rev (tl_events t))"
  shows "tiles w (rev (tl_events (record_state_change now t f g)))"
    and "tiles w (rev (tl_events (record_control now t k)))"
    and "tiles w (rev (tl_events (fst (record_command now t d c))))"
proof -
  show "tiles w (rev (tl_events (record_state_change now t f g)))"
    unfolding record_state_change_def by (rule tiles_push) (simp add: assms)
  show "tiles w (rev (tl_events (record_control now t k)))"
    unfolding record_control_def by (rule tiles_push) (simp add: assms)
  show "tiles w (rev (tl_events (fst (record_command now t d c))))"
    unfolding record_command_push by (rule tiles_push) (simp add: assms)
qed

lemma tl_inv_step: "cs_step c c' \<Longrightarrow> tl_inv c \<Longrightarrow> tl_inv c'"
proof (induction rule: cs_step.induct)
  case (write_step c data s a b)
  then show ?case using read_write_effect [OF write_step(3)]
    by (simp add: tl_inv_def recorded_to_def)
next
  case (record_step c a b n now)
  have "tiles b (rev (tl_events (record_output now (s_timeline (cs_session c)) a b n)))"
    using record_step by (auto simp: tl_inv_def recorded_to_def record_output_def intro!: tiles_push)
  then show ?case using record_step by (simp add: tl_inv_def recorded_to_def)
next
  case (read_step ticks rx secs params now c s res)
  then show ?case using session_read_output_effect [OF read_step(2,1)]
    by (intro tl_inv_same) (auto simp: tl_inv_def)
next
  case (input_step secs now io data c s res)
  then show ?case using session_send_input_effect [OF input_step(1)]
    by (intro tl_inv_same) (auto simp: tl_inv_def intro: tiles_records)
next
  case (control_step secs now io key c s res)
  then show ?case using session_send_control_effect [OF control_step(1)]
    by (intro tl_inv_same) (auto simp: tl_inv_def intro: tiles_records)
next
  case (resize_step io sz c s res)
  then show ?case using session_resize_effect [OF resize_step(1)] by simp
next
  case (close_mark_step i c now)
  then show ?case by (intro tl_inv_same) (auto simp: tl_inv_def intro: tiles_records)
next
  case (close_done_step c xs ys now)
  then show ?case by (intro tl_inv_same) (auto simp: tl_inv_def intro: tiles_records)
qed (auto simp: tl_inv_def recorded_to_def split: option.splits)

text \<open>
  (C21) The timeline is a faithful index of the output: in every reachable state its output events lie end
  to end, without gap or overlap, up to the end of what has been recorded, which is the buffer's
  counter except while the read task stands between its write and its record.
\<close>

theorem timeline_tiles_output:
  assumes "cs_reachable (cs_start (session_new secs now i h p)) c"
  shows "tiles (recorded_to c) (rev (events (s_timeline (cs_session c)) None)) \<and>
    (cs_unrecorded c = None \<longrightarrow> recorded_to c = s_written (cs_session c))"
proof -
  have "tl_inv c" using assms by (induction rule: rtranclp_induct) (auto intro: wf_intros tl_inv_step)
  then show ?thesis by (simp add: tl_inv_def events_def recorded_to_def)
qed

theorem timeline_tiles_output_witness:
  "tiles 2 [Output 7 0 2 2, StateChange 5 ''creating'' ''ready'']"
proof -
  let ?s = "session_new 0 5 ''s1'' ''web'' default_pty_size"
  let ?s' = "?s\<lparr>s_output := eng_write [0x68, 0x69] (s_output ?s)\<rparr>"
  let ?c = "(cs_start ?s)\<lparr>cs_session := ?s', cs_unrecorded := Some (0, 2, 2)\<rparr>"
  let ?c' = "?c\<lparr>cs_session := read_record 7 0 2 2 ?s', cs_unrecorded := None\<rparr>"
  have w: "s_written ?s = 0"
    by (simp add: session_new_def engine_new_def from_buffer_def new_def new_raw_def)
  have "s_reading ?s" by (simp add: session_new_def)
  moreover have "read_write [0x68, 0x69] ?s = (?s', 0, 2)" by (simp add: read_write_def Let_def w)
  ultimately have "cs_step (cs_start ?s) ?c"
    using write_step [of "cs_start ?s" "[0x68, 0x69]" ?s' 0 2] by (simp add: cs_start_def numeral_2_eq_2)
  moreover have "cs_step ?c ?c'" using record_step [of ?c 0 2 2 7] by simp
  ultimately have "cs_reachable (cs_start ?s) ?c'"
    by (meson converse_rtranclp_into_rtranclp rtranclp.rtrancl_refl)
  from timeline_tiles_output [OF this] show ?thesis
    by (simp add: recorded_to_def cs_start_def w events_def record_output_def session_new_def
        push_def record_state_change_def timeline_new_def timeline_with_capacity_def)
qed

end
