(* ===== verification/Path_Policy.thy ===== *)
theory Path_Policy
  imports Provider
begin

text \<open>
  The SFTP path policy (src/application/path_policy.rs): lexical normalisation of remote paths, the
  scope test, the unconditional safety rules and the pipeline \<open>check_remote_access\<close> that
  combines them with the remote server's \<open>realpath\<close>; and the local path check.

  The remote server is a parameter: \<open>realpath\<close> is its answer to
  \<open>SftpCanonicalize::canonicalize\<close>, \<open>home\<close> its answer to
  \<open>SftpCanonicalize::home\<close>.  So is the local \<open>std::fs::canonicalize\<close>.
  A local \<open>Path\<close> is the list of its components, as Rust compares paths.
\<close>

section \<open>Remote operations and path helpers\<close>

datatype remote_operation = Read | Write | Create | Delete | Chmod

fun op_as_str :: "remote_operation \<Rightarrow> string" where
  "op_as_str Read = ''read''"
| "op_as_str Write = ''write''"
| "op_as_str Create = ''create''"
| "op_as_str Delete = ''delete''"
| "op_as_str Chmod = ''chmod''"

abbreviation slash :: char where "slash \<equiv> CHR ''/''"
abbreviation tilde :: char where "tilde \<equiv> CHR ''~''"

definition is_under_remote :: "string \<Rightarrow> string \<Rightarrow> bool" where
  "is_under_remote canonical root =
     (let root = trim_end_char slash root;
          root = (if root = [] then [slash] else root)
      in if canonical = root then True
         else prefix (if root = [slash] then [slash] else root @ [slash]) canonical)"

definition expand_tilde :: "string \<Rightarrow> string option \<Rightarrow> string" where
  "expand_tilde path home_dir =
     (case home_dir of
        None \<Rightarrow> path
      | Some h \<Rightarrow>
          if path = [tilde] then h
          else (case strip_prefix [tilde, slash] path of
                  Some rest \<Rightarrow> if rest = [] then h else h @ [slash] @ rest
                | None \<Rightarrow> path))"

definition authorized_keys :: string where "authorized_keys = ''/.ssh/authorized_keys''"
definition authorized_keys2 :: string where "authorized_keys2 = ''/.ssh/authorized_keys2''"

text \<open>The reason of a denial is the rule that denies.\<close>

datatype safety_reason = AuthorizedKeys | KernelInterface remote_operation

definition hard_safety_deny :: "string \<Rightarrow> remote_operation \<Rightarrow> safety_reason option" where
  "hard_safety_deny canonical op =
     (case op of
        Read \<Rightarrow> None
      | _ \<Rightarrow>
          if suffix authorized_keys canonical \<or> suffix authorized_keys2 canonical
          then Some AuthorizedKeys
          else if canonical = ''/proc'' \<or> prefix ''/proc/'' canonical \<or>
                  canonical = ''/sys'' \<or> prefix ''/sys/'' canonical
          then Some (KernelInterface op)
          else None)"

section \<open>Lexical normalisation\<close>

definition norm_seg :: "bool \<Rightarrow> string list \<Rightarrow> string \<Rightarrow> string list" where
  "norm_seg rooted segments seg =
     (if seg = [] \<or> seg = ''.'' then segments
      else if seg = ''..'' then
        (if rooted then butlast segments
         else if segments = [] \<or> last segments = ''..'' then segments @ [''..'']
         else butlast segments)
      else segments @ [seg])"

definition normalize_remote_path_lexical :: "string \<Rightarrow> string" where
  "normalize_remote_path_lexical path =
     (let rooted = (prefix [slash] path \<or> prefix [tilde] path);
          trailing = suffix [slash] path;
          body = (case strip_prefix [tilde] path of
                    Some rest \<Rightarrow> (case strip_prefix [slash] rest of Some r \<Rightarrow> r | None \<Rightarrow> rest)
                  | None \<Rightarrow> path);
          segments = (if prefix [tilde] path then [[tilde]] else []);
          segments = foldl (norm_seg rooted) segments (split_on slash body);
          out = (if rooted then slash # join_on [slash] segments else join_on [slash] segments)
      in if trailing \<and> \<not> suffix [slash] out then out @ [slash] else out)"

text \<open>\<open>rfind('/')\<close>: the text before the last slash, if there is one.\<close>

definition before_last_slash :: "string \<Rightarrow> string option" where
  "before_last_slash s =
     (case dropWhile (\<lambda>c. c \<noteq> slash) (rev s) of [] \<Rightarrow> None | c # r \<Rightarrow> Some (rev r))"

definition parent_remote_path :: "string \<Rightarrow> string option" where
  "parent_remote_path path =
     (let trimmed = trim_end_char slash path
      in if trimmed = [] then None
         else (case before_last_slash trimmed of
                 Some p \<Rightarrow> if p = [] then Some [slash] else Some p
               | None \<Rightarrow> None))"

section \<open>The policy\<close>

type_synonym path = "string list"

text \<open>The components of a Unix path: a leading slash is the root component.\<close>

definition path_of :: "string \<Rightarrow> path" where
  "path_of s =
     (if prefix [slash] s then [[slash]] else if hd (split_on slash s) = ''.'' then [''.''] else []) @
     filter (\<lambda>c. c \<noteq> [] \<and> c \<noteq> ''.'') (split_on slash s)"

definition path_parent :: "path \<Rightarrow> path option" where
  "path_parent p = (if p = [] \<or> p = [[slash]] then None else Some (butlast p))"

record path_policy =
  allowed_local_paths :: "path list"
  allowed_remote_paths :: "string list"

definition path_policy_new ::
  "(path \<Rightarrow> path option) \<Rightarrow> path list \<Rightarrow> string list \<Rightarrow> path_policy" where
  "path_policy_new fs_canonicalize local_roots remote_roots =
     \<lparr>allowed_local_paths = map (\<lambda>p. case fs_canonicalize p of Some c \<Rightarrow> c | None \<Rightarrow> p) local_roots,
      allowed_remote_paths = (if remote_roots = [] then [''/''] else remote_roots)\<rparr>"

text \<open>A list of paths in an environment variable.\<close>

definition env_entries :: "char \<Rightarrow> string \<Rightarrow> string list" where
  "env_entries sep v = filter (\<lambda>s. s \<noteq> []) (map trim (split_on sep v))"

definition default_from_cwd ::
  "(path \<Rightarrow> path option) \<Rightarrow> path option \<Rightarrow> path \<Rightarrow> char \<Rightarrow> string option \<Rightarrow> string option \<Rightarrow> path_policy" where
  "default_from_cwd fs_canonicalize current_dir temp_dir sep env_local env_remote =
     (let cwd = (case current_dir of Some d \<Rightarrow> d | None \<Rightarrow> path_of ''.'');
          allowed_local = [cwd, temp_dir @ [''termbridge'']] @
            (case env_local of Some extra \<Rightarrow> map path_of (env_entries sep extra) | None \<Rightarrow> []);
          allowed_remote =
            (case env_remote of
               Some v \<Rightarrow> if trim v \<noteq> [] then env_entries sep v else [''/'']
             | None \<Rightarrow> [''/''])
      in path_policy_new fs_canonicalize allowed_local allowed_remote)"

definition check_canonical_under_any :: "path \<Rightarrow> path list \<Rightarrow> string \<Rightarrow> unit result" where
  "check_canonical_under_any canonical allowed original =
     (if \<exists>root \<in> set allowed. prefix root canonical then Inr () else Inl (LocalPathNotAllowed original))"

definition check_local :: "(path \<Rightarrow> path option) \<Rightarrow> path_policy \<Rightarrow> string \<Rightarrow> unit result" where
  "check_local fs_canonicalize pol p =
     (if CHR 0x00 \<in> set p then Inl (LocalPathNotAllowed p)
      else case fs_canonicalize (path_of p) of
             Some c \<Rightarrow> check_canonical_under_any c (allowed_local_paths pol) p
           | None \<Rightarrow>
               (case path_parent (path_of p) of
                  None \<Rightarrow> Inl (LocalPathNotAllowed p)
                | Some parent \<Rightarrow>
                    (case fs_canonicalize parent of
                       None \<Rightarrow> Inl (LocalPathNotAllowed p)
                     | Some pc \<Rightarrow> check_canonical_under_any pc (allowed_local_paths pol) p)))"

text \<open>The scope that applies: the host's roots if there are any, the global ones otherwise.\<close>

definition effective_roots :: "path_policy \<Rightarrow> string list option \<Rightarrow> string option \<Rightarrow> string list" where
  "effective_roots pol host_roots home_dir =
     (case host_roots of
        Some roots \<Rightarrow> if roots \<noteq> [] then map (\<lambda>r. expand_tilde r home_dir) roots
                      else map (\<lambda>r. expand_tilde r home_dir) (allowed_remote_paths pol)
      | None \<Rightarrow> map (\<lambda>r. expand_tilde r home_dir) (allowed_remote_paths pol))"

definition check_scope_and_safety ::
  "path_policy \<Rightarrow> string \<Rightarrow> string \<Rightarrow> remote_operation \<Rightarrow> string list option \<Rightarrow> string option \<Rightarrow> unit result" where
  "check_scope_and_safety pol canonical original op host_roots home_dir =
     (if \<not> (\<exists>root \<in> set (effective_roots pol host_roots home_dir). is_under_remote canonical root)
      then Inl (RemotePathNotAllowed original)
      else case hard_safety_deny canonical op of
             Some reason \<Rightarrow> Inl (RemotePathNotAllowed original)
           | None \<Rightarrow> Inr ())"

definition needs_home :: "path_policy \<Rightarrow> string \<Rightarrow> string list option \<Rightarrow> bool" where
  "needs_home pol path host_roots \<longleftrightarrow>
     tilde \<in> set path \<or>
     (case host_roots of Some r \<Rightarrow> \<exists>root \<in> set r. tilde \<in> set root | None \<Rightarrow> False) \<or>
     (\<exists>root \<in> set (allowed_remote_paths pol). tilde \<in> set root)"

definition check_remote_access ::
  "path_policy \<Rightarrow> (string \<Rightarrow> string result) \<Rightarrow> string option \<Rightarrow> string \<Rightarrow> remote_operation \<Rightarrow>
   string list option \<Rightarrow> unit result" where
  "check_remote_access pol realpath sftp_home path op host_roots =
     (if CHR 0x00 \<in> set path then Inl (RemotePathNotAllowed path)
      else if needs_home pol path host_roots \<and> sftp_home = None then Inl (RemotePathNotAllowed path)
      else
        let home_dir = (if needs_home pol path host_roots then sftp_home else None);
            expanded = expand_tilde path home_dir
        in case realpath expanded of
             Inr canonical \<Rightarrow> check_scope_and_safety pol canonical path op host_roots home_dir
           | Inl e \<Rightarrow>
               if (\<exists>m. e = SftpNoSuchFile m) \<and> op = Create then
                 (case parent_remote_path expanded of
                    None \<Rightarrow> Inl (RemotePathNotAllowed path)
                  | Some parent \<Rightarrow>
                      (case realpath parent of
                         Inl e' \<Rightarrow> Inl e'
                       | Inr parent_canonical \<Rightarrow>
                           (case check_scope_and_safety pol parent_canonical path op host_roots home_dir of
                              Inl e' \<Rightarrow> Inl e'
                            | Inr _ \<Rightarrow>
                                let target = normalize_remote_path_lexical expanded
                                in case hard_safety_deny target op of
                                     Some reason \<Rightarrow> Inl (RemotePathNotAllowed path)
                                   | None \<Rightarrow> Inr ())))
               else Inl e)"

definition check_remote ::
  "path_policy \<Rightarrow> (string \<Rightarrow> string result) \<Rightarrow> string option \<Rightarrow> string \<Rightarrow> unit result" where
  "check_remote pol realpath sftp_home path = check_remote_access pol realpath sftp_home path Read None"

definition check_remote_allow_new ::
  "path_policy \<Rightarrow> (string \<Rightarrow> string result) \<Rightarrow> string option \<Rightarrow> string \<Rightarrow> unit result" where
  "check_remote_allow_new pol realpath sftp_home path =
     check_remote_access pol realpath sftp_home path Create None"

section \<open>Normal forms\<close>

definition plain_seg :: "string \<Rightarrow> bool" where
  "plain_seg s \<longleftrightarrow> s \<noteq> [] \<and> s \<noteq> ''.'' \<and> s \<noteq> ''..'' \<and> slash \<notin> set s"

definition rooted :: "string \<Rightarrow> bool" where
  "rooted p \<longleftrightarrow> prefix [slash] p \<or> prefix [tilde] p"

text \<open>The segments of a rooted path: the slash that follows a tilde only adds an empty segment.\<close>

definition lex_segments :: "string \<Rightarrow> string list" where
  "lex_segments p =
     foldl (norm_seg True) (if prefix [tilde] p then [[tilde]] else [])
       (split_on slash (if prefix [tilde] p then tl p else p))"

definition render :: "string list \<Rightarrow> bool \<Rightarrow> string" where
  "render segs trailing =
     slash # join_on [slash] segs @ (if trailing \<and> segs \<noteq> [] then [slash] else [])"

lemma last_join_on:
  "segs \<noteq> [] \<Longrightarrow> \<forall>s \<in> set segs. s \<noteq> [] \<Longrightarrow>
   join_on sep segs \<noteq> [] \<and> last (join_on sep segs) = last (last segs)"
proof (induction sep segs rule: join_on.induct)
  case (3 sep x y zs)
  then have "join_on sep (y # zs) \<noteq> []" "last (join_on sep (y # zs)) = last (last (y # zs))" by auto
  then show ?case by simp
qed auto

lemma plain_last: "plain_seg s \<Longrightarrow> last s \<noteq> slash"
  by (metis last_in_set plain_seg_def)

lemma norm_seg_plain:
  "\<forall>s \<in> set segs. plain_seg s \<Longrightarrow> slash \<notin> set x \<Longrightarrow> \<forall>s \<in> set (norm_seg True segs x). plain_seg s"
  by (auto simp: norm_seg_def plain_seg_def dest: in_set_butlastD)

lemma foldl_norm_seg_plain:
  "\<forall>s \<in> set segs. plain_seg s \<Longrightarrow> \<forall>x \<in> set xs. slash \<notin> set x \<Longrightarrow>
   \<forall>s \<in> set (foldl (norm_seg True) segs xs). plain_seg s"
proof (induction xs arbitrary: segs)
  case (Cons x xs)
  have "\<forall>s \<in> set (norm_seg True segs x). plain_seg s"
    using norm_seg_plain Cons.prems by (meson list.set_intros(1))
  then show ?case using Cons.IH Cons.prems(2) by simp
qed simp

lemma plain_tilde [simp]: "plain_seg [tilde]"
  by (simp add: plain_seg_def)

lemma lex_segments_plain: "\<forall>s \<in> set (lex_segments p). plain_seg s"
  unfolding lex_segments_def by (rule foldl_norm_seg_plain) (auto dest: split_on_pieces)

lemma normalize_rooted:
  assumes "rooted p"
  shows "normalize_remote_path_lexical p = render (lex_segments p) (suffix [slash] p)"
proof -
  have strip: "foldl (norm_seg True) S (split_on slash (case strip_prefix [slash] r of Some q \<Rightarrow> q | None \<Rightarrow> r)) =
      foldl (norm_seg True) S (split_on slash r)" for S r
    by (cases r) (auto simp: strip_prefix_def norm_seg_def)
  have tail: "r = tl p" if "strip_prefix [tilde] p = Some r" for r
    using that by (auto simp: strip_prefix_def drop_Suc split: if_splits)
  have pt: "prefix [tilde] p \<longleftrightarrow> strip_prefix [tilde] p \<noteq> None" by (auto simp: strip_prefix_def)
  have segs: "foldl (norm_seg True) (if prefix [tilde] p then [[tilde]] else [])
      (split_on slash (case strip_prefix [tilde] p of
          Some rest \<Rightarrow> (case strip_prefix [slash] rest of Some r \<Rightarrow> r | None \<Rightarrow> rest)
        | None \<Rightarrow> p)) = lex_segments p"
    using tail pt by (auto simp: lex_segments_def strip split: option.split)
  let ?S = "lex_segments p"
  have "suffix [slash] (slash # join_on [slash] ?S) \<longleftrightarrow> ?S = []"
  proof (cases "?S = []")
    case False
    then have "join_on [slash] ?S \<noteq> [] \<and> last (join_on [slash] ?S) = last (last ?S)"
      using lex_segments_plain last_join_on by (metis plain_seg_def)
    moreover have "last (last ?S) \<noteq> slash" 
      by (rule plain_last [OF bspec [OF lex_segments_plain last_in_set [OF False]]])
    ultimately show ?thesis using False by (simp add: suffix_single)
  qed (simp add: suffix_def)
  then show ?thesis
    using assms segs by (auto simp: normalize_remote_path_lexical_def render_def rooted_def Let_def)
qed

lemma foldl_norm_seg_id:
  "\<forall>s \<in> set xs. plain_seg s \<Longrightarrow> foldl (norm_seg True) S xs = S @ xs"
  by (induction xs arbitrary: S) (auto simp: norm_seg_def plain_seg_def)

lemma lex_segments_render:
  assumes "\<forall>s \<in> set segs. plain_seg s"
  shows "lex_segments (render segs t) = segs" and "suffix [slash] (render segs t) \<longleftrightarrow> t \<or> segs = []"
proof -
  have split: "split_on slash (join_on [slash] segs @ slash # r) = segs @ split_on slash r" if "segs \<noteq> []" for r
    using assms that split_on_join_on [of segs slash] by (simp add: split_on_append plain_seg_def)
  have "split_on slash (join_on [slash] segs) = segs" if "segs \<noteq> []"
    using assms that split_on_join_on [of segs slash] by (simp add: plain_seg_def)
  moreover have "norm_seg True S [] = S" for S by (simp add: norm_seg_def)
  ultimately show "lex_segments (render segs t) = segs"
    using assms split [of "[]"]
    by (cases "segs = []"; cases t) (simp_all add: lex_segments_def render_def foldl_norm_seg_id)
  show "suffix [slash] (render segs t) \<longleftrightarrow> t \<or> segs = []"
  proof (cases "segs = []")
    case False
    then have "join_on [slash] segs \<noteq> [] \<and> last (join_on [slash] segs) = last (last segs)"
      using assms last_join_on by (metis plain_seg_def)
    moreover have "last (last segs) \<noteq> slash"
      by (rule plain_last [OF bspec [OF assms last_in_set [OF False]]])
    ultimately show ?thesis using False by (simp add: render_def suffix_single)
  qed (simp add: render_def suffix_def)
qed

text \<open>
  The normal form of an absolute or tilde path is a slash and plain segments joined by single
  slashes: no empty, \<open>.\<close> or \<open>..\<close> segment survives, the trailing slash is kept,
  and normalising again changes nothing.
\<close>

lemma normalize_normal_form:
  assumes "rooted p"
  shows "\<exists>segs. (\<forall>s \<in> set segs. plain_seg s) \<and>
      normalize_remote_path_lexical p =
        slash # join_on [slash] segs @ (if suffix [slash] p \<and> segs \<noteq> [] then [slash] else []) \<and>
      normalize_remote_path_lexical (normalize_remote_path_lexical p) = normalize_remote_path_lexical p"
proof (intro exI conjI)
  let ?q = "render (lex_segments p) (suffix [slash] p)"
  show "\<forall>s \<in> set (lex_segments p). plain_seg s" by (rule lex_segments_plain)
  show norm: "normalize_remote_path_lexical p = slash # join_on [slash] (lex_segments p) @
      (if suffix [slash] p \<and> lex_segments p \<noteq> [] then [slash] else [])"
    unfolding normalize_rooted [OF assms] by (simp add: render_def)
  have "rooted ?q" by (simp add: rooted_def render_def)
  then have "normalize_remote_path_lexical ?q = render (lex_segments ?q) (suffix [slash] ?q)"
    by (rule normalize_rooted)
  also have "\<dots> = ?q"
    unfolding lex_segments_render [OF lex_segments_plain] by (auto simp: render_def)
  finally show "normalize_remote_path_lexical (normalize_remote_path_lexical p) = normalize_remote_path_lexical p"
    unfolding normalize_rooted [OF assms] .
qed

lemma normalize_spelling_eq:
  assumes "rooted a" "plain_seg x"
  shows "normalize_remote_path_lexical (a @ ''//'' @ b) = normalize_remote_path_lexical (a @ ''/'' @ b)"
    and "normalize_remote_path_lexical (a @ ''/./'' @ b) = normalize_remote_path_lexical (a @ ''/'' @ b)"
    and "normalize_remote_path_lexical (a @ ''/'' @ x @ ''/../'' @ b) = normalize_remote_path_lexical (a @ ''/'' @ b)"
proof -
  have ne: "a \<noteq> []" using assms(1) by (auto simp: rooted_def)
  then have pre: "prefix [c] (a @ r) \<longleftrightarrow> prefix [c] a" for c r by (cases a) auto
  have root: "rooted (a @ r)" for r using assms(1) by (simp add: rooted_def pre)
  let ?a = "if prefix [tilde] a then tl a else a" and ?S = "if prefix [tilde] a then [[tilde]] else []"
  have lex: "lex_segments (a @ slash # r) =
      foldl (norm_seg True) (foldl (norm_seg True) ?S (split_on slash ?a)) (split_on slash r)" for r
    using ne by (simp add: lex_segments_def pre split_on_append)
  have x: "split_on slash (x @ slash # r) = x # split_on slash r" for r
    using assms(2) by (simp add: split_on_append split_on_single plain_seg_def)
  have dots: "split_on slash (CHR ''.'' # slash # b) = ''.'' # split_on slash b"
    "split_on slash (CHR ''.'' # CHR ''.'' # slash # b) = ''..'' # split_on slash b"
    by simp_all
  have up: "norm_seg True (norm_seg True S x) ''..'' = S" for S
    using assms(2) by (simp add: norm_seg_def plain_seg_def)
  have skip: "norm_seg True S [] = S" "norm_seg True S ''.'' = S" for S by (simp_all add: norm_seg_def)
  have trail: "suffix [slash] (u @ slash # b) \<longleftrightarrow> b = [] \<or> last b = slash" for u
    by (cases b rule: rev_cases) (auto simp: suffix_def)
  have t: "suffix [slash] (a @ slash # b) \<longleftrightarrow> b = [] \<or> last b = slash"
    "suffix [slash] (a @ slash # slash # b) \<longleftrightarrow> b = [] \<or> last b = slash"
    "suffix [slash] (a @ slash # CHR ''.'' # slash # b) \<longleftrightarrow> b = [] \<or> last b = slash"
    "suffix [slash] (a @ slash # x @ slash # CHR ''.'' # CHR ''.'' # slash # b) \<longleftrightarrow> b = [] \<or> last b = slash"
    using trail [of a] trail [of "a @ [slash]"] trail [of "a @ [slash, CHR ''.'']"]
      trail [of "a @ slash # x @ [slash, CHR ''.'', CHR ''.'']"] by simp_all
  have segs: "lex_segments (a @ slash # slash # b) = lex_segments (a @ slash # b)"
    "lex_segments (a @ slash # CHR ''.'' # slash # b) = lex_segments (a @ slash # b)"
    "lex_segments (a @ slash # x @ slash # CHR ''.'' # CHR ''.'' # slash # b) = lex_segments (a @ slash # b)"
    unfolding lex by (simp_all add: x up skip)
  show "normalize_remote_path_lexical (a @ ''//'' @ b) = normalize_remote_path_lexical (a @ ''/'' @ b)"
    and "normalize_remote_path_lexical (a @ ''/./'' @ b) = normalize_remote_path_lexical (a @ ''/'' @ b)"
    and "normalize_remote_path_lexical (a @ ''/'' @ x @ ''/../'' @ b) = normalize_remote_path_lexical (a @ ''/'' @ b)"
    by (simp_all only: append_Cons append_Nil normalize_rooted [OF root] segs t)
qed

text \<open>
  No other spelling of a rooted path changes its normal form, so none changes what the sensitive
  path tables say of it: doubled slashes, \<open>.\<close> segments and a detour through a segment and
  back are all resolved.
\<close>

lemma normalize_spelling:
  assumes "rooted a" "plain_seg x"
  shows "normalize_remote_path_lexical (a @ ''//'' @ b) = normalize_remote_path_lexical (a @ ''/'' @ b) \<and>
    normalize_remote_path_lexical (a @ ''/./'' @ b) = normalize_remote_path_lexical (a @ ''/'' @ b) \<and>
    normalize_remote_path_lexical (a @ ''/'' @ x @ ''/../'' @ b) = normalize_remote_path_lexical (a @ ''/'' @ b)"
  using normalize_spelling_eq [OF assms] by simp

section \<open>Prefixes of normal forms\<close>

lemma append_sep_eq:
  "d \<notin> set w \<Longrightarrow> d \<notin> set s \<Longrightarrow> w @ d # u = s @ d # v \<longleftrightarrow> w = s \<and> u = v"
proof (induction w arbitrary: s)
  case Nil
  then show ?case by (cases s) auto
next
  case (Cons a w)
  then show ?case by (cases s) auto
qed

lemma render_Cons:
  "render (s # r) t = slash # s @ (if r = [] then if t then [slash] else []
     else slash # join_on [slash] r @ (if t then [slash] else []))"
  by (simp add: render_def join_on_Cons)

text \<open>A normal form lies strictly below a top-level directory, or is that directory.\<close>

lemma render_below:
  assumes "slash \<notin> set w" "\<forall>s \<in> set segs. plain_seg s"
  shows "prefix (slash # w @ [slash]) (render segs t) \<longleftrightarrow> (\<exists>r. segs = w # r \<and> (r \<noteq> [] \<or> t))"
    and "render segs t = slash # w \<longleftrightarrow> (if w = [] then segs = [] else segs = [w] \<and> \<not> t)"
proof -
  show "prefix (slash # w @ [slash]) (render segs t) \<longleftrightarrow> (\<exists>r. segs = w # r \<and> (r \<noteq> [] \<or> t))"
  proof (cases segs)
    case (Cons s r)
    have s: "slash \<notin> set s" using assms(2) Cons by (simp add: plain_seg_def)
    have "(\<exists>zs. s @ slash # y = w @ slash # zs) \<longleftrightarrow> w = s" for y
      using append_sep_eq [OF assms(1) s] by (metis (full_types))
    moreover have "s \<noteq> w @ slash # zs" for zs using s by auto
    ultimately show ?thesis unfolding Cons render_Cons by (auto simp: prefix_def)
  qed (simp add: render_def)
  show "render segs t = slash # w \<longleftrightarrow> (if w = [] then segs = [] else segs = [w] \<and> \<not> t)"
  proof (cases segs)
    case (Cons s r)
    then have "s \<noteq> []" using assms(2) by (simp add: plain_seg_def)
    moreover have "s @ slash # y \<noteq> w" for y using assms(1) by auto
    ultimately show ?thesis unfolding Cons render_Cons by auto
  qed (simp add: render_def)
qed

section \<open>Scope\<close>

lemma trim_end_render:
  "\<forall>s \<in> set segs. s \<noteq> [] \<and> slash \<notin> set s \<Longrightarrow>
   trim_end_char slash (slash # join_on [slash] segs @ replicate k slash) =
   (if segs = [] then [] else slash # join_on [slash] segs)"
proof -
  assume segs: "\<forall>s \<in> set segs. s \<noteq> [] \<and> slash \<notin> set s"
  have drop: "dropWhile (\<lambda>x. x = slash) (replicate k slash @ r) = dropWhile (\<lambda>x. x = slash) r" for r :: string
    by (induction k) auto
  show ?thesis
  proof (cases "segs = []")
    case False
    then have ne: "join_on [slash] segs \<noteq> []" "last (join_on [slash] segs) = last (last segs)"
      using last_join_on segs by blast+
    have "last (last segs) \<noteq> slash" using bspec [OF segs last_in_set [OF False]] by (auto dest: last_in_set)
    moreover obtain r l where "join_on [slash] segs = r @ [l]" using ne(1) by (meson rev_exhaust)
    ultimately have "dropWhile (\<lambda>x. x = slash) (rev (join_on [slash] segs) @ [slash]) = rev (join_on [slash] segs) @ [slash]"
      using ne(2) by simp
    then show ?thesis using False by (simp add: trim_end_char_def drop)
  qed (simp add: trim_end_char_def drop)
qed

text \<open>
  The scope test is component-wise: an absolute path is under a root, written with any number of
  trailing slashes, exactly when the root's components begin the path's, so \<open>/home/userfoo\<close>
  is not under \<open>/home/user\<close>.
\<close>

lemma is_under_remote_components:
  assumes "\<forall>s \<in> set cs \<union> set rs. s \<noteq> [] \<and> slash \<notin> set s"
  shows "is_under_remote (slash # join_on [slash] cs) (slash # join_on [slash] rs @ replicate k slash)
    \<longleftrightarrow> prefix rs cs"
proof (cases "rs = []")
  case True
  then show ?thesis using trim_end_render [of "[]" k] by (simp add: is_under_remote_def)
next
  case False
  have rs: "\<forall>s \<in> set rs. s \<noteq> [] \<and> slash \<notin> set s" and cs: "\<forall>s \<in> set cs. s \<noteq> [] \<and> slash \<notin> set s"
    using assms by auto
  let ?R = "join_on [slash] rs" and ?C = "join_on [slash] cs"
  have ne: "?R \<noteq> []" using last_join_on False rs by blast
  have splitR: "split_on slash ?R = rs" using False rs by (simp add: split_on_join_on)
  have splitC: "split_on slash ?C = (if cs = [] then [[]] else cs)" using cs by (simp add: split_on_join_on)
  have "is_under_remote (slash # ?C) (slash # ?R @ replicate k slash) \<longleftrightarrow>
      ?C = ?R \<or> (\<exists>r. ?C = ?R @ slash # r)"
    using trim_end_render [OF rs, of k] False ne by (auto simp: is_under_remote_def prefix_def)
  also have "\<dots> \<longleftrightarrow> prefix rs cs"
  proof
    assume "?C = ?R \<or> (\<exists>r. ?C = ?R @ slash # r)"
    then show "prefix rs cs"
    proof
      assume "?C = ?R"
      then have "(if cs = [] then [[]] else cs) = rs" using splitR splitC by simp
      then show ?thesis using ne by (auto split: if_splits)
    next
      assume "\<exists>r. ?C = ?R @ slash # r"
      then obtain r where "?C = ?R @ slash # r" by blast
      then have "(if cs = [] then [[]] else cs) = rs @ split_on slash r"
        using splitR splitC by (metis split_on_append)
      then show ?thesis using rs False by (cases rs) (auto split: if_splits)
    qed
  next
    assume "prefix rs cs"
    then obtain ys where "cs = rs @ ys" by (auto simp: prefix_def)
    then show "?C = ?R \<or> (\<exists>r. ?C = ?R @ slash # r)"
      using False join_on_append [of rs ys "[slash]"] by (cases "ys = []") auto
  qed
  finally show ?thesis .
qed

section \<open>What an access check admits\<close>

lemma check_scope_and_safety_ok:
  "check_scope_and_safety pol c p op hr h = Inr () \<longleftrightarrow>
   (\<exists>root \<in> set (effective_roots pol hr h). is_under_remote c root) \<and> hard_safety_deny c op = None"
  by (auto simp: check_scope_and_safety_def split: option.splits)

text \<open>The pipeline's outcome for a path, as a predicate on the remote server's answers.\<close>

definition admitted ::
  "path_policy \<Rightarrow> (string \<Rightarrow> string result) \<Rightarrow> string option \<Rightarrow> string \<Rightarrow> remote_operation \<Rightarrow>
   string list option \<Rightarrow> string \<Rightarrow> bool" where
  "admitted pol realpath h expanded op hr c \<longleftrightarrow>
     (realpath expanded = Inr c \<or>
      op = Create \<and> hard_safety_deny (normalize_remote_path_lexical expanded) op = None \<and>
      (\<exists>m par. realpath expanded = Inl (SftpNoSuchFile m) \<and> parent_remote_path expanded = Some par \<and>
               realpath par = Inr c)) \<and>
     (\<exists>root \<in> set (effective_roots pol hr h). is_under_remote c root) \<and> hard_safety_deny c op = None"

lemma unit_bind_ok:
  "(case r of Inl e \<Rightarrow> Inl e | Inr u \<Rightarrow> k) = Inr () \<longleftrightarrow> r = Inr () \<and> k = Inr ()" for r :: "unit result"
  by (cases r) auto

lemma remote_pipeline_ok:
  "(case realpath e of
      Inr canonical \<Rightarrow> check_scope_and_safety pol canonical p op hr h
    | Inl err \<Rightarrow>
        if (\<exists>m. err = SftpNoSuchFile m) \<and> op = Create then
          (case parent_remote_path e of
             None \<Rightarrow> Inl (RemotePathNotAllowed p)
           | Some parent \<Rightarrow>
               (case realpath parent of
                  Inl e' \<Rightarrow> Inl e'
                | Inr pc \<Rightarrow>
                    (case check_scope_and_safety pol pc p op hr h of
                       Inl e' \<Rightarrow> Inl e'
                     | Inr _ \<Rightarrow>
                         (case hard_safety_deny (normalize_remote_path_lexical e) op of
                            Some reason \<Rightarrow> Inl (RemotePathNotAllowed p)
                          | None \<Rightarrow> Inr ()))))
        else Inl err) = Inr () \<longleftrightarrow> (\<exists>c. admitted pol realpath h e op hr c)"
  unfolding admitted_def
  by (auto simp: check_scope_and_safety_ok unit_bind_ok split: sum.splits option.splits)

lemma check_remote_access_ok:
  "check_remote_access pol realpath sftp_home p op hr = Inr () \<longleftrightarrow>
   CHR 0x00 \<notin> set p \<and> \<not> (needs_home pol p hr \<and> sftp_home = None) \<and>
   (let h = (if needs_home pol p hr then sftp_home else None)
    in \<exists>c. admitted pol realpath h (expand_tilde p h) op hr c)"
proof (cases "CHR 0x00 \<in> set p \<or> needs_home pol p hr \<and> sftp_home = None")
  case True
  then show ?thesis by (auto simp: check_remote_access_def)
next
  case False
  then have F: "(CHR 0x00 \<in> set p) = False" "(needs_home pol p hr \<and> sftp_home = None) = False" by auto
  show ?thesis
    unfolding check_remote_access_def Let_def F if_False by (simp only: remote_pipeline_ok simp_thms)
qed

text \<open>
  The rules by components: an absolute path is its list of names; the authorized_keys files of any home and the kernel interfaces are
  protected against every operation but reading.
\<close>

definition canonical_path :: "string list \<Rightarrow> string" where
  "canonical_path names = slash # join_on [slash] names"

definition protected :: "remote_operation \<Rightarrow> string list \<Rightarrow> bool" where
  "protected op names \<longleftrightarrow> op \<noteq> Read \<and>
     (names \<noteq> [] \<and> hd names \<in> {''proc'', ''sys''} \<or>
      2 \<le> length names \<and> names ! (length names - 2) = ''.ssh'' \<and> last names \<in> {''authorized_keys'', ''authorized_keys2''})"

lemma suffix_names:
  assumes "\<forall>s \<in> set cs. plain_seg s" "plain_seg a" "plain_seg b"
  shows "suffix (slash # a @ slash # b) (canonical_path cs) \<longleftrightarrow> (\<exists>pre. cs = pre @ [a, b])"
proof
  assume "suffix (slash # a @ slash # b) (canonical_path cs)"
  then obtain x where x: "slash # join_on [slash] cs = x @ slash # a @ slash # b" by (auto simp: suffix_def canonical_path_def)
  have ab: "split_on slash (a @ slash # b) = [a, b]"
    using split_on_single [of slash a] split_on_single [of slash b] assms(2,3) by (simp add: split_on_append plain_seg_def)
  have "split_on slash (slash # join_on [slash] cs) = split_on slash x @ [a, b]"
    using split_on_append [of slash x "a @ slash # b"] by (simp only: x ab)
  then have e: "[] # (if cs = [] then [[]] else cs) = split_on slash x @ [a, b]"
    using assms(1) split_on_join_on [of cs slash] by (cases "cs = []") (auto simp: plain_seg_def)
  show "\<exists>pre. cs = pre @ [a, b]"
  proof (cases "split_on slash x")
    case Nil
    then show ?thesis using e assms(2) by (simp add: plain_seg_def)
  next
    case (Cons y ys)
    then show ?thesis using e assms(2) by (auto split: if_splits)
  qed
next
  assume "\<exists>pre. cs = pre @ [a, b]"
  then obtain pre where "cs = pre @ [a, b]" by blast
  then have "canonical_path cs = (if pre = [] then [] else slash # join_on [slash] pre) @ slash # a @ slash # b"
    using join_on_append [of pre "[a, b]" "[slash]"] by (cases "pre = []") (simp_all add: canonical_path_def)
  then show "suffix (slash # a @ slash # b) (canonical_path cs)" by (metis suffixI)
qed

lemma last_two: "(\<exists>pre. cs = pre @ [a, b]) \<longleftrightarrow> 2 \<le> length cs \<and> cs ! (length cs - 2) = a \<and> last cs = b"
proof (cases cs rule: rev_cases)
  case (snoc ys y)
  then show ?thesis by (cases ys rule: rev_cases) (auto simp: nth_append)
qed simp

lemma hard_safety_components:
  assumes "\<forall>s \<in> set cs. plain_seg s"
  shows "hard_safety_deny (canonical_path cs) op = None \<longleftrightarrow> \<not> protected op cs"
proof -
  have keys: "suffix authorized_keys (canonical_path cs) \<longleftrightarrow> (\<exists>pre. cs = pre @ [''.ssh'', ''authorized_keys''])"
    "suffix authorized_keys2 (canonical_path cs) \<longleftrightarrow> (\<exists>pre. cs = pre @ [''.ssh'', ''authorized_keys2''])"
    using suffix_names [OF assms, of "''.ssh''" "''authorized_keys''"] suffix_names [OF assms, of "''.ssh''" "''authorized_keys2''"]
    by (simp_all add: authorized_keys_def authorized_keys2_def plain_seg_def)
  have r: "canonical_path cs = render cs False" by (simp add: render_def canonical_path_def)
  have top: "canonical_path cs = slash # w \<or> prefix (slash # w @ [slash]) (canonical_path cs) \<longleftrightarrow> cs \<noteq> [] \<and> hd cs = w"
    if "slash \<notin> set w" "w \<noteq> []" for w
    unfolding r using render_below [OF that(1) assms, of False] that(2) by (cases cs) auto
  show ?thesis
    using top [of "''proc''"] top [of "''sys''"] keys
    by (auto simp: hard_safety_deny_def protected_def last_two split: remote_operation.split)
qed

lemma parent_of_absolute:
  assumes "slash \<notin> set n" "n \<noteq> []"
  shows "parent_remote_path (q @ slash # n) = Some (if q = [] then [slash] else q)"
proof -
  obtain m l where n: "n = m @ [l]" "l \<noteq> slash" using assms by (metis append_butlast_last_id last_in_set)
  have "trim_end_char slash (q @ slash # n) = q @ slash # n" using n by (simp add: trim_end_char_def)
  moreover have "dropWhile (\<lambda>c. c \<noteq> slash) (rev n @ slash # rev q) = slash # rev q"
    using assms(1) by (induction n rule: rev_induct) auto
  then have "before_last_slash (q @ slash # n) = Some q" by (simp add: before_last_slash_def)
  ultimately show ?thesis by (simp add: parent_remote_path_def Let_def)
qed

lemma split_last_slash:
  assumes "prefix [slash] e" "\<not> suffix [slash] e"
  obtains q n where "e = q @ slash # n" "slash \<notin> set n" "n \<noteq> []"
proof -
  have "slash \<in> set e" using assms(1) by (auto simp: prefix_def)
  then obtain q n where "e = q @ slash # n" "slash \<notin> set n" by (meson split_list_last)
  moreover have "n \<noteq> []" using assms(2) calculation(1) by (auto simp: suffix_def)
  ultimately show thesis using that by blast
qed

lemma ex_scope: "(\<exists>n. P n \<and> R n \<and> (\<exists>r k. Q r \<and> S r k \<and> T r n) \<and> U n) \<longleftrightarrow>
    (\<exists>n r k. (P n \<and> Q r) \<and> R n \<and> S r k \<and> T r n \<and> U n)"
  by blast

lemma normalize_absolute:
  assumes "prefix [slash] e" "\<not> suffix [slash] e"
  shows "normalize_remote_path_lexical e = canonical_path (lex_segments e)"
  using normalize_rooted [of e] assms by (simp add: rooted_def render_def canonical_path_def)

lemma scope_components:
  assumes "\<forall>s \<in> set cs. plain_seg s"
    and "\<And>root. root \<in> R \<Longrightarrow> \<exists>rs k. (\<forall>s \<in> set rs. plain_seg s) \<and> root = canonical_path rs @ replicate k slash"
  shows "(\<exists>root \<in> R. is_under_remote (canonical_path cs) root) \<longleftrightarrow>
    (\<exists>rs k. (\<forall>s \<in> set rs. plain_seg s) \<and> canonical_path rs @ replicate k slash \<in> R \<and> prefix rs cs)"
proof -
  have "is_under_remote (canonical_path cs) (canonical_path rs @ replicate k slash) \<longleftrightarrow> prefix rs cs"
    if "\<forall>s \<in> set rs. plain_seg s" for rs k
    using is_under_remote_components [of cs rs k] assms(1) that by (auto simp: canonical_path_def plain_seg_def)
  then show ?thesis using assms(2) by metis
qed

text \<open>
  (C5) What a remote access check admits, component by component.  Let the server's \<open>realpath\<close> answer with canonical absolute
  paths, let the effective roots be absolute and written without doubled slashes inside, and let the expanded path be absolute without a
  trailing slash.  The access is admitted exactly when the path has no null byte, a tilde anywhere can be expanded, and the names of
  the path that \<open>realpath\<close> gives for it, or for its parent when a target to be created does not exist, begin with all names
  of a root (so \<open>/srv/data2\<close> is not under \<open>/srv/data\<close>) and are not protected: unless it is to be read, not
  \<open>.ssh/authorized_keys\<close> of any directory and nothing in \<open>/proc\<close> or \<open>/sys\<close>; for a new target its
  spelling with \<open>..\<close> resolved must not be protected either.
\<close>

theorem check_remote_access_admits:
  assumes "h = (if needs_home pol p hr then sftp_home else None)" "e = expand_tilde p h"
    and "prefix [slash] e" "\<not> suffix [slash] e"
    and "\<And>q c. realpath q = Inr c \<Longrightarrow> \<exists>names. (\<forall>s \<in> set names. plain_seg s) \<and> c = canonical_path names"
    and "\<And>root. root \<in> set (effective_roots pol hr h) \<Longrightarrow>
      \<exists>rs k. (\<forall>s \<in> set rs. plain_seg s) \<and> root = canonical_path rs @ replicate k slash"
  shows "check_remote_access pol realpath sftp_home p op hr = Inr () \<longleftrightarrow>
   CHR 0x00 \<notin> set p \<and> \<not> (needs_home pol p hr \<and> sftp_home = None) \<and>
   (\<exists>names rs k. (\<forall>s \<in> set names \<union> set rs. plain_seg s) \<and>
      (realpath e = Inr (canonical_path names) \<or>
       op = Create \<and> \<not> protected op (lex_segments e) \<and>
       (\<exists>m q n. realpath e = Inl (SftpNoSuchFile m) \<and> e = q @ slash # n \<and> slash \<notin> set n \<and>
          realpath (if q = [] then [slash] else q) = Inr (canonical_path names))) \<and>
      canonical_path rs @ replicate k slash \<in> set (effective_roots pol hr h) \<and> prefix rs names \<and> \<not> protected op names)"
proof -
  obtain q n where e: "e = q @ slash # n" "slash \<notin> set n" "n \<noteq> []" using split_last_slash [OF assms(3,4)] .
  have new: "hard_safety_deny (normalize_remote_path_lexical e) op = None \<longleftrightarrow> \<not> protected op (lex_segments e)"
    unfolding normalize_absolute [OF assms(3,4)] by (rule hard_safety_components [OF lex_segments_plain])
  have par: "parent_remote_path e = Some (if q = [] then [slash] else q)"
    unfolding e(1) by (rule parent_of_absolute [OF e(2,3)])
  have same: "q' = q" if "e = q' @ slash # n'" "slash \<notin> set n'" for q' n'
  proof -
    have "rev n' @ slash # rev q' = rev n @ slash # rev q" using that e by (metis append.assoc append_Cons append_Nil rev.simps(2) rev_append)
    then show ?thesis using append_sep_eq [of slash "rev n'" "rev n"] that(2) e(2) by simp
  qed
  have here: "(\<exists>m par. realpath e = Inl (SftpNoSuchFile m) \<and> parent_remote_path e = Some par \<and> realpath par = Inr c) \<longleftrightarrow>
      (\<exists>m q n. realpath e = Inl (SftpNoSuchFile m) \<and> e = q @ slash # n \<and> slash \<notin> set n \<and>
        realpath (if q = [] then [slash] else q) = Inr c)" for c
    using par same e(1,2) by (metis option.inject)
  let ?reached = "\<lambda>names. realpath e = Inr (canonical_path names) \<or>
       op = Create \<and> \<not> protected op (lex_segments e) \<and>
       (\<exists>m q n. realpath e = Inl (SftpNoSuchFile m) \<and> e = q @ slash # n \<and> slash \<notin> set n \<and>
          realpath (if q = [] then [slash] else q) = Inr (canonical_path names))"
  let ?scope = "\<lambda>names. \<exists>rs k. (\<forall>s \<in> set rs. plain_seg s) \<and>
      canonical_path rs @ replicate k slash \<in> set (effective_roots pol hr h) \<and> prefix rs names"
  have adm: "admitted pol realpath h e op hr (canonical_path names) \<longleftrightarrow> ?reached names \<and> ?scope names \<and> \<not> protected op names"
    if "\<forall>s \<in> set names. plain_seg s" for names
    by (simp only: admitted_def here new hard_safety_components [OF that] scope_components [OF that assms(6)])
  have "\<exists>names. (\<forall>s \<in> set names. plain_seg s) \<and> c = canonical_path names" if "admitted pol realpath h e op hr c" for c
    using that assms(5) unfolding admitted_def by blast
  then have "(\<exists>c. admitted pol realpath h e op hr c) \<longleftrightarrow>
      (\<exists>names. (\<forall>s \<in> set names. plain_seg s) \<and> admitted pol realpath h e op hr (canonical_path names))"
    by blast
  also have "\<dots> \<longleftrightarrow> (\<exists>names. (\<forall>s \<in> set names. plain_seg s) \<and> ?reached names \<and> ?scope names \<and> \<not> protected op names)"
    by (rule ex_cong1, rule conj_cong [OF refl], rule adm)
  also have "\<dots> \<longleftrightarrow> (\<exists>names rs k. (\<forall>s \<in> set names \<union> set rs. plain_seg s) \<and> ?reached names \<and>
      canonical_path rs @ replicate k slash \<in> set (effective_roots pol hr h) \<and> prefix rs names \<and> \<not> protected op names)"
    unfolding ball_Un by (rule ex_scope)
  finally show ?thesis
    unfolding check_remote_access_ok Let_def assms(1) [symmetric] assms(2) [symmetric] by (simp only:)
qed

text \<open>A write below the one root is admitted; the same spelling next to the root is not.\<close>

definition demo_scope :: path_policy where
  "demo_scope = \<lparr>allowed_local_paths = [], allowed_remote_paths = [''/srv/data/'']\<rparr>"

definition demo_answers :: "string \<Rightarrow> string result" where
  "demo_answers q = (if q = ''/srv/data/x'' then Inr q else if q = ''/srv/./data2/x'' then Inr ''/srv/data2/x'' else Inl (SftpNoSuchFile q))"

lemma demo_next_to_root: "check_remote_access demo_scope demo_answers None ''/srv/./data2/x'' Write None \<noteq> Inr ()"
  by (simp add: check_remote_access_def needs_home_def demo_scope_def demo_answers_def expand_tilde_def check_scope_and_safety_def
      effective_roots_def is_under_remote_def trim_end_char_def)

theorem check_remote_access_admits_witness:
  "check_remote_access demo_scope demo_answers None ''/srv/data/x'' Write None = Inr ()"
proof -
  have h: "\<not> needs_home demo_scope ''/srv/data/x'' None" by (simp add: needs_home_def demo_scope_def)
  have e: "''/srv/data/x'' = expand_tilde ''/srv/data/x'' None" by (simp add: expand_tilde_def)
  have names: "canonical_path [''srv'', ''data'', ''x''] = ''/srv/data/x''" "canonical_path [''srv'', ''data2'', ''x''] = ''/srv/data2/x''"
    "canonical_path [''srv'', ''data''] @ replicate 1 slash = ''/srv/data/''" by (simp_all add: canonical_path_def)
  have plain: "\<forall>s \<in> set [''srv'', ''data'', ''x'']. plain_seg s" "\<forall>s \<in> set [''srv'', ''data2'', ''x'']. plain_seg s"
    by (simp_all add: plain_seg_def)
  have answers: "\<exists>names. (\<forall>s \<in> set names. plain_seg s) \<and> c = canonical_path names" if "demo_answers q = Inr c" for q c
  proof -
    have "c = ''/srv/data/x'' \<or> c = ''/srv/data2/x''" using that by (auto simp: demo_answers_def split: if_splits)
    then show ?thesis using plain names(1,2) by metis
  qed
  have roots: "set (effective_roots demo_scope None None) = {''/srv/data/''}"
    by (simp add: effective_roots_def demo_scope_def expand_tilde_def)
  have root: "\<exists>rs k. (\<forall>s \<in> set rs. plain_seg s) \<and> root = canonical_path rs @ replicate k slash"
    if "root \<in> set (effective_roots demo_scope None None)" for root
    using that names(3) by (intro exI [of _ "[''srv'', ''data'']"] exI [of _ 1]) (simp add: roots plain_seg_def)
  have h': "None = (if needs_home demo_scope ''/srv/data/x'' None then None else None :: string option)" by simp
  have form: "prefix [slash] ''/srv/data/x''" "\<not> suffix [slash] ''/srv/data/x''" by (simp_all add: suffix_def)
  note iff = check_remote_access_admits [OF h' e form, where op = Write and realpath = demo_answers]
  show ?thesis
  proof (rule iffD2 [OF iff [OF answers root]], assumption, assumption, intro conjI exI)
    show "\<forall>s \<in> set [''srv'', ''data'', ''x''] \<union> set [''srv'', ''data'']. plain_seg s" using plain by auto
    show "canonical_path [''srv'', ''data''] @ replicate 1 slash \<in> set (effective_roots demo_scope None None)"
      using names(3) by (simp add: roots)
  qed (use h names in \<open>simp_all add: demo_answers_def protected_def\<close>)
qed

text \<open>
  The authorized_keys files and the kernel interfaces are closed to every operation but reading, with any
  configured roots: no access to a path that the server resolves to one of them is admitted.
\<close>

lemma hard_safety_unconditional:
  assumes "op \<noteq> Read"
    and "realpath (expand_tilde p (if needs_home pol p hr then sftp_home else None)) = Inr c"
    and "suffix authorized_keys c \<or> suffix authorized_keys2 c \<or> c \<in> {''/proc'', ''/sys''} \<or>
      prefix ''/proc/'' c \<or> prefix ''/sys/'' c"
  shows "check_remote_access pol realpath sftp_home p op hr \<noteq> Inr ()"
proof -
  have "hard_safety_deny c op \<noteq> None"
    using assms(1,3) by (auto simp: hard_safety_deny_def split: remote_operation.splits)
  then show ?thesis using assms(2) by (auto simp: check_remote_access_ok admitted_def Let_def)
qed

text \<open>
  The safety rule for a new target looks at the path as spelled, not at the parent that the server
  resolved: through a directory that is a symbolic link to \<open>~/.ssh\<close>, or with a trailing
  slash, the creation of a missing authorized_keys is admitted, although the resolved target is one
  the rule forbids.
\<close>

lemma create_target_unresolved:
  "\<exists>realpath. realpath ''/tmp/link'' = Inr ''/home/u/.ssh'' \<and>
     realpath ''/home/u/.ssh'' = Inr ''/home/u/.ssh'' \<and>
     hard_safety_deny (''/home/u/.ssh'' @ ''/authorized_keys'') Create \<noteq> None \<and>
     check_remote_access (path_policy_new (\<lambda>_. None) [] []) realpath None
       ''/tmp/link/authorized_keys'' Create None = Inr () \<and>
     check_remote_access (path_policy_new (\<lambda>_. None) [] []) realpath None
       ''/home/u/.ssh/authorized_keys/'' Create None = Inr ()"
proof -
  let ?rp = "\<lambda>q. if q = ''/tmp/link'' \<or> q = ''/home/u/.ssh'' then Inr ''/home/u/.ssh'' else Inl (SftpNoSuchFile q)"
  let ?pol = "path_policy_new (\<lambda>_. None) [] []"
  have plain: "\<not> needs_home ?pol p None" if "tilde \<notin> set p" for p
    using that by (simp add: needs_home_def path_policy_new_def)
  have root: "\<exists>root \<in> set (effective_roots ?pol None None). is_under_remote ''/home/u/.ssh'' root"
    by (simp add: effective_roots_def path_policy_new_def expand_tilde_def is_under_remote_def trim_end_char_def)
  have ok: "check_remote_access ?pol ?rp None p Create None = Inr ()"
    if "tilde \<notin> set p" "CHR 0x00 \<notin> set p" "?rp p = Inl (SftpNoSuchFile p)"
      "parent_remote_path p = Some par" "?rp par = Inr ''/home/u/.ssh''"
      "hard_safety_deny (normalize_remote_path_lexical p) Create = None" for p par
  proof -
    have "admitted ?pol ?rp None (expand_tilde p None) Create None ''/home/u/.ssh''"
      unfolding admitted_def using that root
      by (auto simp: expand_tilde_def hard_safety_deny_def authorized_keys_def authorized_keys2_def suffix_def)
    then show ?thesis using plain [OF that(1)] that(2) by (auto simp: check_remote_access_ok Let_def)
  qed
  have "check_remote_access ?pol ?rp None ''/tmp/link/authorized_keys'' Create None = Inr ()"
    by (rule ok [where par = "''/tmp/link''"])
      (simp_all add: parent_remote_path_def before_last_slash_def trim_end_char_def
        normalize_remote_path_lexical_def norm_seg_def strip_prefix_def hard_safety_deny_def
        authorized_keys_def authorized_keys2_def suffix_to_prefix)
  moreover have "check_remote_access ?pol ?rp None ''/home/u/.ssh/authorized_keys/'' Create None = Inr ()"
    by (rule ok [where par = "''/home/u/.ssh''"])
      (simp_all add: parent_remote_path_def before_last_slash_def trim_end_char_def
        normalize_remote_path_lexical_def norm_seg_def strip_prefix_def hard_safety_deny_def
        authorized_keys_def authorized_keys2_def suffix_to_prefix)
  ultimately show ?thesis
    by (intro exI [of _ ?rp]) (simp add: hard_safety_deny_def authorized_keys_def suffix_to_prefix)
qed

text \<open>
  A local path is admitted exactly when it has no null byte and its canonical form, or its parent's if
  it has none, lies under an allowed root by components.  A target that does not resolve, a new file
  or a dangling link alike, is judged by its parent alone.
\<close>

lemma check_local_admits:
  "check_local fs pol p = Inr () \<longleftrightarrow>
   CHR 0x00 \<notin> set p \<and>
   (\<exists>c. (fs (path_of p) = Some c \<or>
         fs (path_of p) = None \<and> (\<exists>par. path_parent (path_of p) = Some par \<and> fs par = Some c)) \<and>
        (\<exists>root \<in> set (allowed_local_paths pol). prefix root c))"
  by (auto simp: check_local_def check_canonical_under_any_def split: option.splits)

end
