(* ===== verification/Policy.thy ===== *)
theory Policy
  imports Path_Policy
begin

text \<open>
  The command and SFTP policy (src/application/policy.rs): the rule tables, \<open>DefaultPolicy\<close>,
  and \<open>PolicyManager\<close>, which merges the decisions of a chain of policies and applies the
  session's approval mode.

  The regex crate is a parameter: \<open>is_match p l\<close> says whether the compiled pattern with
  text \<open>p\<close> matches somewhere in the line \<open>l\<close>.  A rule's description is its
  ASCII head; only \<open>starts_with("sudo")\<close> is ever asked of it.
\<close>

section \<open>The rule tables\<close>

text \<open>The text of a pattern, with \<open>%\<close> standing for the backslash.\<close>

definition re :: "string \<Rightarrow> string" where
  "re s = map (\<lambda>c. if c = CHR ''%'' then CHR 0x5C else c) s"

type_synonym rule = "string \<times> string"

definition blocklist :: "rule list" where
  "blocklist =
     [(''rm -rf /'', re ''rm%s+-[a-zA-Z]*r[a-zA-Z]*f[a-zA-Z]*%s+/(%s|$)''),
      (''rm -fr /'', re ''rm%s+-[a-zA-Z]*f[a-zA-Z]*r[a-zA-Z]*%s+/(%s|$)''),
      (''mkfs'', re ''%bmkfs(%.%w+)?%b''),
      (''dd of=/dev/'', re ''%bdd%b.*%bof=/dev/''),
      (''fork bomb :(){'', re '':%s*%(%s*%)%s*%{''),
      (''shutdown/reboot/halt/poweroff'', re ''%b(shutdown|reboot|halt|poweroff|init%s+0)%b''),
      (''chmod -R 777 /'', re ''chmod%s+-R%s+777%s+/(%s|$)''),
      (''> /dev/'', re ''>%s*/dev/(sd|nvme|hd|vd|xvd|disk)''),
      (''fork bomb :|:&'', re '':%s*%|%s*:%s*&'')]"

definition confirm_list :: "rule list" where
  "confirm_list =
     [(''rm -rf'', re ''rm%s+-[a-zA-Z]*r[a-zA-Z]*f[a-zA-Z]*%s+%S''),
      (''rm -fr'', re ''rm%s+-[a-zA-Z]*f[a-zA-Z]*r[a-zA-Z]*%s+%S''),
      (''sudo'', re ''%bsudo%b''),
      (''kill -9'', re ''%bkill%s+-9%b''),
      (''kill -KILL'', re ''%bkill%s+-KILL%b''),
      (''iptables'', re ''%biptables%b''),
      (''crontab -r'', re ''%bcrontab%s+-r%b'')]"

section \<open>The default policy\<close>

definition chain_markers :: "string list" where
  "chain_markers = ['';'', ''&&'', ''||'', ''|'', ''$('', [CHR 0x60], ''<('', ''>('']"

definition sudo_non_interactive_passthrough :: "string \<Rightarrow> bool" where
  "sudo_non_interactive_passthrough line =
     (let trimmed = trim line
      in if \<exists>m \<in> set chain_markers. sublist m trimmed then False
         else (case split_whitespace trimmed of
                 [] \<Rightarrow> False
               | t # ts \<Rightarrow>
                   if t \<noteq> ''sudo'' then False
                   else (case ts of
                           [] \<Rightarrow> False
                         | u # us \<Rightarrow>
                             if u = ''-n'' \<or> u = ''--non-interactive''
                             then \<not> (\<exists>w \<in> set us. w = ''sudo'') else False)))"

fun check_confirm :: "(string \<Rightarrow> string \<Rightarrow> bool) \<Rightarrow> string \<Rightarrow> rule list \<Rightarrow> decision option" where
  "check_confirm is_match line [] = None"
| "check_confirm is_match line ((desc, p) # rules) =
     (if prefix ''sudo'' desc \<and> sudo_non_interactive_passthrough line
      then check_confirm is_match line rules
      else if is_match p line then Some Confirm
      else check_confirm is_match line rules)"

definition check_line :: "(string \<Rightarrow> string \<Rightarrow> bool) \<Rightarrow> string \<Rightarrow> decision option" where
  "check_line is_match line =
     (if \<exists>(desc, p) \<in> set blocklist. is_match p line then Some Deny
      else check_confirm is_match line confirm_list)"

fun check_lines :: "(string \<Rightarrow> string \<Rightarrow> bool) \<Rightarrow> decision \<Rightarrow> string list \<Rightarrow> decision" where
  "check_lines is_match acc [] = acc"
| "check_lines is_match acc (l # ls) =
     (let trimmed = trim l
      in if trimmed = [] then check_lines is_match acc ls
         else (case check_line is_match trimmed of
                 Some Deny \<Rightarrow> Deny
               | Some Confirm \<Rightarrow> check_lines is_match Confirm ls
               | _ \<Rightarrow> check_lines is_match acc ls))"

definition check_send_input :: "(string \<Rightarrow> string \<Rightarrow> bool) \<Rightarrow> string \<Rightarrow> decision" where
  "check_send_input is_match data = check_lines is_match Allow (lines data)"

definition check_sftp_transfer :: "transfer_direction \<Rightarrow> string \<Rightarrow> decision" where
  "check_sftp_transfer direction remote =
     (if direction = Upload \<and>
         (let normalized = normalize_remote_path_lexical remote
          in \<exists>p \<in> set [''/dev/'', ''/etc/'', ''/boot/'', ''/sys/'', ''/proc/'']. prefix p normalized)
      then Confirm else Allow)"

definition critical_paths :: "string list" where
  "critical_paths =
     [''/'', ''/etc'', ''/usr'', ''/var'', ''/boot'', ''/sys'', ''/proc'', ''/lib'', ''/bin'', ''/sbin'']"

definition check_sftp_remove :: "string \<Rightarrow> bool \<Rightarrow> decision" where
  "check_sftp_remove remote recursive =
     (if recursive then
        let normalized = normalize_remote_path_lexical remote
        in if \<exists>p \<in> set critical_paths. normalized = p \<or> prefix (p @ ''/'') normalized then Deny
           else Confirm
      else Confirm)"

definition chmod_sensitive :: "string list" where
  "chmod_sensitive = [''/etc'', ''/var'', ''/usr'', ''/boot'', ''/sys'', ''/bin'', ''/sbin'', ''/lib'']"

definition check_sftp_chmod :: "string \<Rightarrow> string \<Rightarrow> decision" where
  "check_sftp_chmod remote mode =
     (if mode = ''777'' \<or> sublist ''777'' mode then
        let normalized = normalize_remote_path_lexical remote
        in if \<exists>p \<in> set chmod_sensitive. normalized = p \<or> prefix (p @ ''/'') normalized then Confirm
           else Allow
      else Allow)"

type_synonym policy = "action \<Rightarrow> decision"

fun default_policy :: "(string \<Rightarrow> string \<Rightarrow> bool) \<Rightarrow> policy" where
  "default_policy is_match (SendInput _ data) = check_send_input is_match data"
| "default_policy is_match (SftpTransfer direction _ remote) = check_sftp_transfer direction remote"
| "default_policy is_match (SftpRemove remote recursive) = check_sftp_remove remote recursive"
| "default_policy is_match (SftpChmod remote mode) = check_sftp_chmod remote mode"

section \<open>The policy manager\<close>

type_synonym policy_manager = "policy list"

definition with_default :: "(string \<Rightarrow> string \<Rightarrow> bool) \<Rightarrow> policy_manager" where
  "with_default is_match = [default_policy is_match]"

definition add_policy :: "policy_manager \<Rightarrow> policy \<Rightarrow> policy_manager" where
  "add_policy mgr p = mgr @ [p]"

fun authorize_chain :: "policy_manager \<Rightarrow> action \<Rightarrow> decision \<Rightarrow> decision" where
  "authorize_chain [] a result = result"
| "authorize_chain (p # ps) a result =
     (case p a of
        Deny \<Rightarrow> Deny
      | Confirm \<Rightarrow> authorize_chain ps a Confirm
      | Allow \<Rightarrow> authorize_chain ps a result)"

definition authorize :: "policy_manager \<Rightarrow> action \<Rightarrow> decision" where
  "authorize mgr a = authorize_chain mgr a Allow"

definition authorize_with_approval :: "policy_manager \<Rightarrow> action \<Rightarrow> approval_mode \<Rightarrow> decision" where
  "authorize_with_approval mgr a approval =
     (case authorize mgr a of
        Deny \<Rightarrow> Deny
      | Confirm \<Rightarrow> if approval = Unrestricted then Allow else Confirm
      | Allow \<Rightarrow> Allow)"

section \<open>Merging decisions\<close>

text \<open>The contract of a scan that merges the decisions of a list by severity.\<close>

locale decision_scan =
  fixes scan :: "decision \<Rightarrow> 'a list \<Rightarrow> decision"
    and judge :: "'a \<Rightarrow> decision"
  assumes scan_Nil: "scan d [] = d"
    and scan_Cons: "d \<noteq> Deny \<Longrightarrow>
      scan d (x # xs) = (if judge x = Deny then Deny else scan (max d (judge x)) xs)"
begin

lemma scan_cases:
  "d \<noteq> Deny \<Longrightarrow>
   scan d xs = (if \<exists>x \<in> set xs. judge x = Deny then Deny
                else if d = Confirm \<or> (\<exists>x \<in> set xs. judge x = Confirm) then Confirm else Allow)"
proof (induction xs arbitrary: d)
  case Nil
  then show ?case by (cases d) (simp_all add: scan_Nil)
next
  case (Cons x xs)
  have "max d (judge x) \<noteq> Deny" if "judge x \<noteq> Deny" using Cons.prems that by (auto simp: max_def)
  then show ?case using Cons
    by (cases "judge x"; cases d) (simp_all add: scan_Cons max_def)
qed

lemma scan_upper: "x \<in> set xs \<Longrightarrow> judge x \<le> scan Allow xs"
  by (cases "judge x") (auto simp: scan_cases)

lemma scan_attained: "scan Allow xs = Allow \<or> (\<exists>x \<in> set xs. judge x = scan Allow xs)"
  by (auto simp: scan_cases)

lemma scan_max: "scan Allow xs = Max (insert Allow (judge ` set xs))"
proof (rule Max_eqI [symmetric])
  show "y \<le> scan Allow xs" if "y \<in> insert Allow (judge ` set xs)" for y
    using that scan_upper by auto
  show "scan Allow xs \<in> insert Allow (judge ` set xs)" using scan_attained [of xs] by force
qed simp

lemma scan_permute: "set xs = set ys \<Longrightarrow> scan Allow xs = scan Allow ys"
  by (simp add: scan_max)

end

text \<open>The decision of one line of input.\<close>

definition line_decision :: "(string \<Rightarrow> string \<Rightarrow> bool) \<Rightarrow> string \<Rightarrow> decision" where
  "line_decision is_match l =
     (if trim l = [] then Allow
      else case check_line is_match (trim l) of None \<Rightarrow> Allow | Some d \<Rightarrow> d)"

lemma check_confirm_not_Deny: "check_confirm m l rules \<noteq> Some Deny \<and> check_confirm m l rules \<noteq> Some Allow"
  by (induction m l rules rule: check_confirm.induct) auto

lemma check_line_not_Allow: "check_line m l \<noteq> Some Allow"
  using check_confirm_not_Deny by (simp add: check_line_def)

interpretation chain: decision_scan "\<lambda>d ps. authorize_chain ps a d" "\<lambda>p. p a" for a
proof
  fix d ps p
  assume "d \<noteq> Deny"
  then show "authorize_chain (p # ps) a d = (if p a = Deny then Deny else authorize_chain ps a (max d (p a)))"
    by (cases "p a"; cases d) (simp_all add: max_def)
qed simp

interpretation input: decision_scan "check_lines m" "line_decision m" for m
proof
  fix d l ls
  assume "d \<noteq> Deny"
  then show "check_lines m d (l # ls) =
      (if line_decision m l = Deny then Deny else check_lines m (max d (line_decision m l)) ls)"
    using check_line_not_Allow [of m "trim l"]
    by (cases d; cases "trim l = []")
      (auto simp: line_decision_def Let_def max_def split: option.splits decision.splits)
qed simp

text \<open>
  A chain of policies decides by the most severe of its policies' decisions, whatever their order; the
  empty chain allows.
\<close>

lemma manager_most_severe:
  "authorize mgr a = Max (insert Allow ((\<lambda>p. p a) ` set mgr))"
  unfolding authorize_def by (rule chain.scan_max)

text \<open>
  The approval mode lifts confirmations and nothing else: a denial by any policy stays a denial in
  an unrestricted session, an unrestricted session never asks for a confirmation, and the standard
  mode is the chain's decision.
\<close>

lemma approval_keeps_denials:
  "(authorize_with_approval mgr a mode = Deny \<longleftrightarrow> (\<exists>p \<in> set mgr. p a = Deny)) \<and>
   (authorize_with_approval mgr a mode = Confirm \<longleftrightarrow> mode = Standard \<and> authorize mgr a = Confirm) \<and>
   authorize_with_approval mgr a Standard = authorize mgr a"
proof -
  have "authorize mgr a = Deny \<longleftrightarrow> (\<exists>p \<in> set mgr. p a = Deny)"
    unfolding authorize_def by (subst chain.scan_cases) auto
  then show ?thesis
    by (cases "authorize mgr a"; cases mode) (simp_all add: authorize_with_approval_def)
qed

section \<open>Terminal input\<close>

definition is_sudo_rule :: "rule \<Rightarrow> bool" where
  "is_sudo_rule r \<longleftrightarrow> prefix ''sudo'' (fst r)"

lemma check_confirm_Some:
  "check_confirm m l rules = Some Confirm \<longleftrightarrow>
   (\<exists>r \<in> set rules. m (snd r) l \<and> \<not> (is_sudo_rule r \<and> sudo_non_interactive_passthrough l))"
  by (induction m l rules rule: check_confirm.induct) (auto simp: is_sudo_rule_def)

lemma line_decision_cases:
  "line_decision m l = Deny \<longleftrightarrow> trim l \<noteq> [] \<and> (\<exists>r \<in> set blocklist. m (snd r) (trim l))"
  "line_decision m l = Confirm \<longleftrightarrow> trim l \<noteq> [] \<and> \<not> (\<exists>r \<in> set blocklist. m (snd r) (trim l)) \<and>
     (\<exists>r \<in> set confirm_list. m (snd r) (trim l) \<and>
        \<not> (is_sudo_rule r \<and> sudo_non_interactive_passthrough (trim l)))"
proof -
  have block: "(\<exists>(desc, p) \<in> set blocklist. m p t) \<longleftrightarrow> (\<exists>r \<in> set blocklist. m (snd r) t)" for t
    by (auto simp: case_prod_beta)
  have "check_confirm m t rs = Some d \<Longrightarrow> d = Confirm" for t rs d
    using check_confirm_not_Deny [of m t rs] by (cases d) auto
  then show "line_decision m l = Deny \<longleftrightarrow> trim l \<noteq> [] \<and> (\<exists>r \<in> set blocklist. m (snd r) (trim l))"
    "line_decision m l = Confirm \<longleftrightarrow> trim l \<noteq> [] \<and> \<not> (\<exists>r \<in> set blocklist. m (snd r) (trim l)) \<and>
     (\<exists>r \<in> set confirm_list. m (snd r) (trim l) \<and>
        \<not> (is_sudo_rule r \<and> sudo_non_interactive_passthrough (trim l)))"
    unfolding check_confirm_Some [symmetric]
    by (auto simp: line_decision_def check_line_def block split: option.splits)
qed

text \<open>
  Input is denied exactly when some line that is not blank, trimmed, matches a blocklist rule, wherever
  it stands in the input; otherwise it needs a confirmation exactly when some line matches a confirm
  rule, where a non-interactive \<open>sudo\<close> exempts a line from the sudo rule alone.
\<close>

lemma send_input_decision:
  "(check_send_input m data = Deny \<longleftrightarrow>
     (\<exists>l \<in> set (lines data). trim l \<noteq> [] \<and> (\<exists>r \<in> set blocklist. m (snd r) (trim l)))) \<and>
   (check_send_input m data = Confirm \<longleftrightarrow>
     check_send_input m data \<noteq> Deny \<and>
     (\<exists>l \<in> set (lines data). trim l \<noteq> [] \<and>
       (\<exists>r \<in> set confirm_list. m (snd r) (trim l) \<and>
         \<not> (is_sudo_rule r \<and> sudo_non_interactive_passthrough (trim l)))))"
proof -
  have D: "check_send_input m data = Deny \<longleftrightarrow> (\<exists>l \<in> set (lines data). line_decision m l = Deny)"
    and C: "check_send_input m data = Confirm \<longleftrightarrow>
      check_send_input m data \<noteq> Deny \<and> (\<exists>l \<in> set (lines data). line_decision m l = Confirm)"
    unfolding check_send_input_def input.scan_cases [OF decision.distinct(3)] by simp_all
  have E: "line_decision m l = Confirm \<longleftrightarrow> line_decision m l \<noteq> Deny \<and> trim l \<noteq> [] \<and>
      (\<exists>r \<in> set confirm_list. m (snd r) (trim l) \<and>
        \<not> (is_sudo_rule r \<and> sudo_non_interactive_passthrough (trim l)))" for l
    using line_decision_cases [of m l] by blast
  show ?thesis
  proof
    show "check_send_input m data = Deny \<longleftrightarrow>
        (\<exists>l \<in> set (lines data). trim l \<noteq> [] \<and> (\<exists>r \<in> set blocklist. m (snd r) (trim l)))"
      by (simp only: D line_decision_cases(1))
  qed (use C D E in blast)
qed

text \<open>
  The exemption of a non-interactive \<open>sudo\<close> counts whole tokens and does not know the background
  operator: a second, interactive \<open>sudo\<close> glued to \<open>&\<close> passes, and the input is
  allowed although the sudo rule matches it.
\<close>

lemma sudo_token_gap:
  assumes "\<And>r. r \<in> set blocklist \<union> set confirm_list \<Longrightarrow>
      is_match (snd r) ''sudo -n true &sudo id'' \<longleftrightarrow> is_sudo_rule r"
  shows "check_send_input is_match ''sudo -n true &sudo id'' = Allow"
proof -
  let ?l = "''sudo -n true &sudo id''"
  have l: "lines ?l = [?l]" by (simp add: lines_def)
  have t: "trim ?l = ?l"
    by code_simp
  have w: "split_whitespace ?l = [''sudo'', ''-n'', ''true'', ''&sudo'', ''id'']"
    by code_simp
  have c: "\<not> (\<exists>m \<in> set chain_markers. sublist m ?l)"
    by code_simp
  have p: "sudo_non_interactive_passthrough ?l"
    using c by (simp add: sudo_non_interactive_passthrough_def t w)
  have "\<not> is_sudo_rule r" if "r \<in> set blocklist" for r
    using that by (auto simp: blocklist_def is_sudo_rule_def)
  then have "\<not> (\<exists>r \<in> set blocklist. is_match (snd r) ?l)" using assms by blast
  then have "line_decision is_match ?l \<noteq> Deny" "line_decision is_match ?l \<noteq> Confirm"
    unfolding line_decision_cases t using assms p by blast+
  then show ?thesis
    unfolding check_send_input_def l input.scan_cases [OF decision.distinct(3)]
    by (simp only: list.set bex_simps simp_thms decision.distinct if_False)
qed

section \<open>SFTP operations\<close>

definition top_dirs :: "string list \<Rightarrow> string list" where
  "top_dirs ws = map (\<lambda>w. ''/'' @ w) ws"

lemma under_top_dir:
  assumes "rooted p" "slash \<notin> set w" "w \<noteq> []"
  shows "normalize_remote_path_lexical p = ''/'' @ w \<or> prefix ((''/'' @ w) @ ''/'') (normalize_remote_path_lexical p)
    \<longleftrightarrow> (\<exists>r. lex_segments p = w # r)"
  using assms(3) render_below [OF assms(2) lex_segments_plain [of p], of "suffix [slash] p"]
  by (auto simp: normalize_rooted [OF assms(1)])

lemma under_root:
  assumes "rooted p"
  shows "normalize_remote_path_lexical p = ''/'' \<or> prefix (''/'' @ ''/'') (normalize_remote_path_lexical p)
    \<longleftrightarrow> lex_segments p = []"
proof -
  have "lex_segments p \<noteq> [] # r" for r
    using lex_segments_plain [of p] by (metis list.set_intros(1) plain_seg_def)
  then show ?thesis
    using render_below [of "[]" "lex_segments p" "suffix [slash] p"] lex_segments_plain [of p]
    by (auto simp: normalize_rooted [OF assms])
qed

lemma critical_paths_split:
  "critical_paths = ''/'' # top_dirs [''etc'', ''usr'', ''var'', ''boot'', ''sys'', ''proc'', ''lib'', ''bin'', ''sbin'']"
  by (simp add: critical_paths_def top_dirs_def)

lemma chmod_sensitive_split:
  "chmod_sensitive = top_dirs [''etc'', ''var'', ''usr'', ''boot'', ''sys'', ''bin'', ''sbin'', ''lib'']"
  by (simp add: chmod_sensitive_def top_dirs_def)

lemma top_dirs_ex:
  assumes "rooted p" "\<forall>w \<in> set ws. slash \<notin> set w \<and> w \<noteq> []"
  shows "(\<exists>d \<in> set (top_dirs ws). normalize_remote_path_lexical p = d \<or>
      prefix (d @ ''/'') (normalize_remote_path_lexical p)) \<longleftrightarrow> (\<exists>w \<in> set ws. \<exists>r. lex_segments p = w # r)"
  using assms under_top_dir [OF assms(1)] unfolding top_dirs_def by fastforce

text \<open>
  Removals always need the user: none is allowed outright.  A recursive removal of a rooted path is denied
  exactly when the path resolves lexically to the root, to one of nine system directories, or below
  one; any other recursive removal is only to be confirmed.
\<close>

lemma sftp_remove_decision:
  assumes "rooted p"
  shows "check_sftp_remove p recursive \<noteq> Allow \<and>
    (check_sftp_remove p True = Deny \<longleftrightarrow>
      lex_segments p = [] \<or>
      hd (lex_segments p) \<in>
        {''etc'', ''usr'', ''var'', ''boot'', ''sys'', ''proc'', ''lib'', ''bin'', ''sbin''})"
proof -
  let ?ws = "[''etc'', ''usr'', ''var'', ''boot'', ''sys'', ''proc'', ''lib'', ''bin'', ''sbin'']"
  have "(\<exists>d \<in> set (top_dirs ?ws). normalize_remote_path_lexical p = d \<or>
      prefix (d @ ''/'') (normalize_remote_path_lexical p)) \<longleftrightarrow> (\<exists>w \<in> set ?ws. \<exists>r. lex_segments p = w # r)"
    by (rule top_dirs_ex [OF assms]) simp
  then have "check_sftp_remove p True = Deny \<longleftrightarrow> lex_segments p = [] \<or> (\<exists>w \<in> set ?ws. \<exists>r. lex_segments p = w # r)"
    using under_root [OF assms] unfolding check_sftp_remove_def critical_paths_split Let_def by auto
  moreover have "(\<exists>w \<in> set ?ws. \<exists>r. lex_segments p = w # r) \<longleftrightarrow>
      lex_segments p \<noteq> [] \<and> hd (lex_segments p) \<in> set ?ws"
    by (cases "lex_segments p") auto
  ultimately have "check_sftp_remove p True = Deny \<longleftrightarrow> lex_segments p = [] \<or> hd (lex_segments p) \<in> set ?ws"
    by blast
  moreover have "check_sftp_remove p recursive \<noteq> Allow" by (simp add: check_sftp_remove_def Let_def)
  ultimately show ?thesis unfolding list.set by blast
qed

text \<open>
  An upload to a rooted path needs a confirmation exactly when the path resolves lexically to something
  strictly below one of five system directories, or to the directory itself with a trailing slash:
  the directory spelled without the slash is allowed, and downloads always are.
\<close>

lemma sftp_transfer_decision:
  assumes "rooted p"
  shows "check_sftp_transfer Download p = Allow \<and>
    (check_sftp_transfer Upload p = Confirm \<longleftrightarrow>
      (\<exists>w \<in> {''dev'', ''etc'', ''boot'', ''sys'', ''proc''}.
         \<exists>r. lex_segments p = w # r \<and> (r \<noteq> [] \<or> suffix [slash] p)))"
proof -
  have below: "prefix (slash # w @ [slash]) (normalize_remote_path_lexical p) \<longleftrightarrow>
      (\<exists>r. lex_segments p = w # r \<and> (r \<noteq> [] \<or> suffix [slash] p))" if "slash \<notin> set w" for w
    unfolding normalize_rooted [OF assms] by (rule render_below(1) [OF that lex_segments_plain])
  have "check_sftp_transfer Upload p = Confirm \<longleftrightarrow>
      (\<exists>w \<in> {''dev'', ''etc'', ''boot'', ''sys'', ''proc''}. prefix (slash # w @ [slash]) (normalize_remote_path_lexical p))"
    by (simp add: check_sftp_transfer_def Let_def)
  also have "\<dots> \<longleftrightarrow> (\<exists>w \<in> {''dev'', ''etc'', ''boot'', ''sys'', ''proc''}.
      \<exists>r. lex_segments p = w # r \<and> (r \<noteq> [] \<or> suffix [slash] p))"
    by (rule bex_cong [OF refl], rule below) auto
  finally have "check_sftp_transfer Upload p = Confirm \<longleftrightarrow> (\<exists>w \<in> {''dev'', ''etc'', ''boot'', ''sys'', ''proc''}.
      \<exists>r. lex_segments p = w # r \<and> (r \<noteq> [] \<or> suffix [slash] p))" .
  moreover have "check_sftp_transfer Download p = Allow" by (simp add: check_sftp_transfer_def)
  ultimately show ?thesis by (intro conjI)
qed

end
