(* ===== verification/Host_Policy.thy ===== *)
theory Host_Policy
  imports Path_Policy
begin

text \<open>
  The per-host preferences of hosts.toml (src/application/host_policy.rs): their resolution
  \<open>explicit > host policy > system default\<close>, the remote paths a host declares, and the
  closed state after a damaged file.  The file system's answer and the TOML parser are arguments of
  \<open>load_from\<close>.
\<close>

section \<open>The configuration\<close>

datatype auth_mode = Key | Password | Auto
datatype session_mode = StandardSession | PersistentSession

definition session_mode_from :: "bool \<Rightarrow> session_mode" where
  "session_mode_from persistent = (if persistent then PersistentSession else StandardSession)"

fun auth_display :: "auth_mode \<Rightarrow> string" where
  "auth_display Key = ''key''"
| "auth_display Password = ''password''"
| "auth_display Auto = ''auto''"

fun session_display :: "session_mode \<Rightarrow> string" where
  "session_display StandardSession = ''standard''"
| "session_display PersistentSession = ''persistent''"

record host_policy =
  hp_auth :: "auth_mode option"
  hp_session :: "session_mode option"
  hp_allowed_remote_paths :: "string list option"

type_synonym host_policy_config = "string \<rightharpoonup> host_policy"

record resolved_policy =
  rp_auth :: auth_mode
  rp_session :: session_mode

definition resolved_default :: resolved_policy where
  "resolved_default = \<lparr>rp_auth = Auto, rp_session = StandardSession\<rparr>"

definition CORRUPT_DENY_ALL_SCOPE :: string where
  "CORRUPT_DENY_ALL_SCOPE = ''/__termbridge_host_policy_corrupt_deny_all__''"

record resolver =
  hr_config :: host_policy_config
  hr_corrupt :: bool

section \<open>Loading\<close>

datatype read_error = FileNotFound | OtherIoError

definition load_from ::
  "read_error + string \<Rightarrow> (string \<Rightarrow> host_policy_config option) \<Rightarrow> resolver" where
  "load_from file toml =
     (case file of
        Inl FileNotFound \<Rightarrow> \<lparr>hr_config = (\<lambda>_. None), hr_corrupt = False\<rparr>
      | Inl OtherIoError \<Rightarrow> \<lparr>hr_config = (\<lambda>_. None), hr_corrupt = True\<rparr>
      | Inr content \<Rightarrow>
          (case toml content of
             Some cfg \<Rightarrow> \<lparr>hr_config = cfg, hr_corrupt = False\<rparr>
           | None \<Rightarrow> \<lparr>hr_config = (\<lambda>_. None), hr_corrupt = True\<rparr>))"

definition resolver_empty :: resolver where
  "resolver_empty = \<lparr>hr_config = (\<lambda>_. None), hr_corrupt = False\<rparr>"

text \<open>The keys of a host entry that \<open>warn_on_nested_dotted_host_keys\<close> warns of.\<close>

definition nested_key_warnings :: "(string \<times> string list) list \<Rightarrow> (string \<times> string list) list" where
  "nested_key_warnings host_tables =
     filter (\<lambda>w. snd w \<noteq> [])
       (map (apsnd (filter (\<lambda>k. k \<noteq> ''auth'' \<and> k \<noteq> ''session''))) host_tables)"

section \<open>Resolution\<close>

definition or_else :: "'a option \<Rightarrow> 'a option \<Rightarrow> 'a option" where
  "or_else a b = (case a of Some x \<Rightarrow> Some x | None \<Rightarrow> b)"

definition unwrap_or :: "'a option \<Rightarrow> 'a \<Rightarrow> 'a" where
  "unwrap_or a d = (case a of Some x \<Rightarrow> x | None \<Rightarrow> d)"

definition resolve ::
  "resolver \<Rightarrow> string \<Rightarrow> auth_mode option \<Rightarrow> session_mode option \<Rightarrow> resolved_policy" where
  "resolve r host_alias explicit_auth explicit_session =
     (let host_policy = hr_config r host_alias; default = resolved_default;
          auth = unwrap_or (or_else explicit_auth (Option.bind host_policy hp_auth)) (rp_auth default);
          session = unwrap_or (or_else explicit_session (Option.bind host_policy hp_session)) (rp_session default)
      in \<lparr>rp_auth = auth, rp_session = session\<rparr>)"

definition allowed_remote_paths_for :: "resolver \<Rightarrow> string \<Rightarrow> string list option" where
  "allowed_remote_paths_for r host_alias =
     (if hr_corrupt r then Some [CORRUPT_DENY_ALL_SCOPE]
      else Option.bind (hr_config r host_alias) hp_allowed_remote_paths)"

section \<open>Properties\<close>

text \<open>
  A damaged hosts.toml closes every host: whatever the global roots and the remote server's answers, a
  remote access is admitted only to the sentinel path or below it, and the auth and session modes
  are the system defaults.
\<close>

lemma corrupt_config_denies:
  assumes "file = Inl OtherIoError \<or> (\<exists>content. file = Inr content \<and> toml content = None)"
    and "check_remote_access pol realpath sftp_home p op
      (allowed_remote_paths_for (load_from file toml) h) = Inr ()"
  shows "(\<exists>q c. realpath q = Inr c \<and> prefix CORRUPT_DENY_ALL_SCOPE c) \<and>
    resolve (load_from file toml) h None None = resolved_default"
proof -
  have r: "load_from file toml = \<lparr>hr_config = (\<lambda>_. None), hr_corrupt = True\<rparr>"
    using assms(1) by (auto simp: load_from_def)
  have roots: "effective_roots pol (Some [CORRUPT_DENY_ALL_SCOPE]) hd = [CORRUPT_DENY_ALL_SCOPE]" for hd
    by (cases hd) (simp_all add: effective_roots_def expand_tilde_def strip_prefix_def CORRUPT_DENY_ALL_SCOPE_def)
  have trim: "trim_end_char slash CORRUPT_DENY_ALL_SCOPE = CORRUPT_DENY_ALL_SCOPE"
    by (simp add: trim_end_char_def CORRUPT_DENY_ALL_SCOPE_def)
  have ne: "CORRUPT_DENY_ALL_SCOPE \<noteq> []" "CORRUPT_DENY_ALL_SCOPE \<noteq> [slash]"
    by (simp_all add: CORRUPT_DENY_ALL_SCOPE_def)
  have under: "prefix CORRUPT_DENY_ALL_SCOPE c" if "is_under_remote c CORRUPT_DENY_ALL_SCOPE" for c
    using that ne by (auto simp: is_under_remote_def trim Let_def split: if_splits dest: append_prefixD)
  have "\<exists>q c. realpath q = Inr c \<and> prefix CORRUPT_DENY_ALL_SCOPE c"
    using assms(2) under
    by (auto simp: r allowed_remote_paths_for_def check_remote_access_ok admitted_def roots Let_def)
  then show ?thesis by (simp add: r resolve_def resolved_default_def unwrap_or_def or_else_def)
qed

text \<open>
  An explicit argument beats the host's policy, which beats the default; the two dimensions are
  independent.
\<close>

lemma resolve_priority:
  "rp_auth (resolve r h ea es) = (case ea of Some a \<Rightarrow> a | None \<Rightarrow>
     (case hr_config r h of Some p \<Rightarrow> (case hp_auth p of Some a \<Rightarrow> a | None \<Rightarrow> Auto) | None \<Rightarrow> Auto)) \<and>
   rp_session (resolve r h ea es) = (case es of Some s \<Rightarrow> s | None \<Rightarrow>
     (case hr_config r h of Some p \<Rightarrow> (case hp_session p of Some s \<Rightarrow> s | None \<Rightarrow> StandardSession)
      | None \<Rightarrow> StandardSession))"
  by (auto simp: resolve_def resolved_default_def unwrap_or_def or_else_def Let_def split: option.split)

text \<open>
  A host that declares an empty list of paths is given the global roots, and every host that declares
  paths at all draws the warning meant for misspelled aliases.
\<close>

lemma empty_declaration_widens:
  "effective_roots pol (Some []) home_dir = effective_roots pol None home_dir"
  by (simp add: effective_roots_def)

lemma declared_paths_warned:
  "nested_key_warnings [(''prod'', [''auth'', ''allowed_remote_paths''])] =
   [(''prod'', [''allowed_remote_paths''])]"
  by (simp add: nested_key_warnings_def)

end
