(* ===== verification/Session_Manager.thy ===== *)
theory Session_Manager
  imports Session Policy Host_Policy Decimal
begin

text \<open>
  The application layer (src/application/sessions.rs): the map of sessions and every operation a tool
  calls on it, with the policy and path checks in front.

  Sessions are shared objects (\<open>Arc<Session>\<close>): the map gives an address, and a caller that
  holds an address keeps the object when the map changes.  The terminal provider, ssh -G, the
  credential helper and the SFTP server are arguments; a function that would call the SFTP server
  returns the calls it makes beside its result.
\<close>

section \<open>State\<close>

datatype handle_kind = SshHandle | PersistentHandle | OtherHandle

record sobj =
  so_session :: session
  so_handle :: handle_kind

record smgr =
  sm_objs :: "sobj list"
  sm_sessions :: "(string \<times> nat) list"
  sm_counter :: nat
  sm_path_policy :: path_policy
  sm_policy :: policy_manager
  sm_host_policy :: resolver

definition sess :: "smgr \<Rightarrow> nat \<Rightarrow> session" where
  "sess sm a = so_session (sm_objs sm ! a)"

definition put_sess :: "nat \<Rightarrow> session \<Rightarrow> smgr \<Rightarrow> smgr" where
  "put_sess a s sm = sm\<lparr>sm_objs := (sm_objs sm)[a := (sm_objs sm ! a)\<lparr>so_session := s\<rparr>]\<rparr>"

definition new_obj :: "sobj \<Rightarrow> smgr \<Rightarrow> smgr \<times> nat" where
  "new_obj ob sm = (sm\<lparr>sm_objs := sm_objs sm @ [ob]\<rparr>, length (sm_objs sm))"

text \<open>\<open>DashMap::insert\<close>, \<open>remove\<close> and \<open>get\<close>.\<close>

definition map_insert :: "string \<Rightarrow> nat \<Rightarrow> smgr \<Rightarrow> smgr" where
  "map_insert k a sm = sm\<lparr>sm_sessions := (k, a) # filter (\<lambda>p. fst p \<noteq> k) (sm_sessions sm)\<rparr>"

definition map_remove :: "string \<Rightarrow> smgr \<Rightarrow> smgr" where
  "map_remove k sm = sm\<lparr>sm_sessions := filter (\<lambda>p. fst p \<noteq> k) (sm_sessions sm)\<rparr>"

definition lookup :: "smgr \<Rightarrow> string \<Rightarrow> nat option" where
  "lookup sm k = map_of (sm_sessions sm) k"

definition get_session :: "smgr \<Rightarrow> string \<Rightarrow> nat result" where
  "get_session sm sid = (case lookup sm sid of Some a \<Rightarrow> Inr a | None \<Rightarrow> Inl (SessionNotFound sid))"

definition IDLE_TIMEOUT_SECS :: nat where "IDLE_TIMEOUT_SECS = 1800"

text \<open>\<open>format!("sess_{n}")\<close>.\<close>

definition next_session_id :: "smgr \<Rightarrow> smgr \<times> string" where
  "next_session_id sm = (sm\<lparr>sm_counter := sm_counter sm + 1\<rparr>, ''sess_'' @ dec (sm_counter sm))"

section \<open>Policy\<close>

text \<open>\<open>policy_reason\<close>; the fixed advice after the snippet is left out.\<close>

definition first_line :: "string \<Rightarrow> string" where
  "first_line data =
     trim (case List.find (\<lambda>l. trim l \<noteq> []) (lines data) of Some l \<Rightarrow> l | None \<Rightarrow> [])"

definition snippet :: "string \<Rightarrow> string" where
  "snippet data =
     (let s = first_line data in if chars_count s > 80 then chars_take 77 s @ ''...'' else s)"

fun policy_reason :: "action \<Rightarrow> string \<Rightarrow> string" where
  "policy_reason (SendInput _ data) status =
     (if status = ''needs confirmation'' then ''command needs confirmation: '' @ snippet data
      else ''command '' @ status @ '': '' @ snippet data)"
| "policy_reason (SftpTransfer direction _ remote) status =
     ''sftp '' @ direction_as_str direction @ '' '' @ status @ '': '' @ remote"
| "policy_reason (SftpRemove remote recursive) status =
     ''sftp remove'' @ (if recursive then '' (recursive)'' else []) @ '' '' @ status @ '': '' @ remote"
| "policy_reason (SftpChmod remote mode) status =
     ''sftp chmod '' @ mode @ '' '' @ status @ '': '' @ remote"

definition approval_for :: "smgr \<Rightarrow> action \<Rightarrow> approval_mode" where
  "approval_for sm a =
     (case a of
        SendInput sid _ \<Rightarrow> (case lookup sm sid of Some ad \<Rightarrow> s_approval_mode (sess sm ad) | None \<Rightarrow> Standard)
      | _ \<Rightarrow> Standard)"

definition check_policy :: "smgr \<Rightarrow> action \<Rightarrow> unit result" where
  "check_policy sm a =
     (case authorize_with_approval (sm_policy sm) a (approval_for sm a) of
        Allow \<Rightarrow> Inr ()
      | Deny \<Rightarrow> Inl (PolicyDenied (policy_reason a ''blocked''))
      | Confirm \<Rightarrow> Inl (PolicyNeedsConfirm (policy_reason a ''needs confirmation'')))"

section \<open>Opening\<close>

text \<open>What the world answers during an open or a reconnect.\<close>

record open_world =
  ow_resolve :: "string \<Rightarrow> host result"
  ow_password :: "host \<Rightarrow> credential_error + password_credential"
  ow_open :: "open_request \<Rightarrow> handle_kind result"
  ow_now_secs :: nat
  ow_now_millis :: nat

definition validate_auth_session_combo :: "auth_mode \<Rightarrow> session_mode \<Rightarrow> unit result" where
  "validate_auth_session_combo auth session =
     (if auth = Password \<and> session = PersistentSession
      then Inl (InvalidArgument ''auth=password with session=persistent is not supported'') else Inr ())"

definition resolve_session_mode :: "smgr \<Rightarrow> string \<Rightarrow> bool option \<Rightarrow> session_mode" where
  "resolve_session_mode sm host_alias explicit =
     rp_session (resolve (sm_host_policy sm) host_alias None (map_option session_mode_from explicit))"

definition resolve_auth_mode :: "smgr \<Rightarrow> string \<Rightarrow> auth_mode" where
  "resolve_auth_mode sm host_alias = rp_auth (resolve (sm_host_policy sm) host_alias None None)"

fun credential_to_term_error :: "credential_error \<Rightarrow> term_error" where
  "credential_to_term_error Cancelled = AuthFailed"
| "credential_to_term_error (CredTimeout _) = AuthFailed"
| "credential_to_term_error (HelperFailed msg) = InvalidArgument msg"
| "credential_to_term_error (Unsupported msg) = InvalidArgument msg"

definition request_password :: "open_world \<Rightarrow> host \<Rightarrow> password_credential result" where
  "request_password w h =
     (case ow_password w h of Inl e \<Rightarrow> Inl (credential_to_term_error e) | Inr c \<Rightarrow> Inr c)"

text \<open>
  What a call of \<open>open_session\<close> did besides changing the map: whether it asked the user for a
  password, the request it made, and the user name it remembered for a host.
\<close>

record open_trace =
  ot_prompted :: bool
  ot_request :: "open_request option"
  ot_remembered :: "(string \<times> string) option"

definition no_trace :: open_trace where
  "no_trace = \<lparr>ot_prompted = False, ot_request = None, ot_remembered = None\<rparr>"

text \<open>Steps 5 and 6 of \<open>open_session\<close>: the provider, the memory, the new session.\<close>

definition open_with ::
  "open_world \<Rightarrow> smgr \<Rightarrow> host \<Rightarrow> auth_mode \<Rightarrow> pty_size option \<Rightarrow> bool \<Rightarrow> string option \<Rightarrow> string option \<Rightarrow>
   smgr \<times> string result \<times> open_trace" where
  "open_with w sm h auth pty persistent name secret =
     (let pty = (case pty of Some p \<Rightarrow> p | None \<Rightarrow> default_pty_size);
          rq = \<lparr>or_host = h, or_pty_size = pty, or_persistent = persistent, or_name = name,
                or_password = secret\<rparr>;
          tr = \<lparr>ot_prompted = (auth = Password), ot_request = Some rq, ot_remembered = None\<rparr>
      in case ow_open w rq of
           Inl e \<Rightarrow> (sm, Inl e, tr)
         | Inr hnd \<Rightarrow>
             let remembered = (if auth = Password then Some (h_hostname h, h_user h) else None);
                 (sm, i) = next_session_id sm;
                 s = session_new (ow_now_secs w) (ow_now_millis w) i (h_name h) pty;
                 (sm, a) = new_obj \<lparr>so_session = s, so_handle = hnd\<rparr> sm
             in (map_insert i a sm, Inr i, tr\<lparr>ot_remembered := remembered\<rparr>))"

definition open_session ::
  "open_world \<Rightarrow> smgr \<Rightarrow> string \<Rightarrow> pty_size option \<Rightarrow> bool option \<Rightarrow> string option \<Rightarrow>
   smgr \<times> string result \<times> open_trace" where
  "open_session w sm host_alias pty persistent name =
     (let session_mode = resolve_session_mode sm host_alias persistent;
          auth = resolve_auth_mode sm host_alias
      in case validate_auth_session_combo auth session_mode of
           Inl e \<Rightarrow> (sm, Inl e, no_trace)
         | Inr _ \<Rightarrow>
             (case ow_resolve w host_alias of
                Inl e \<Rightarrow> (sm, Inl e, no_trace)
              | Inr h \<Rightarrow>
                  if auth = Password then
                    (case request_password w h of
                       Inl e \<Rightarrow> (sm, Inl e, no_trace\<lparr>ot_prompted := True\<rparr>)
                     | Inr cred \<Rightarrow>
                         let h' = h\<lparr>h_user := (case pc_user cred of Some u \<Rightarrow> u | None \<Rightarrow> h_user h)\<rparr>
                         in open_with w sm h' auth pty (session_mode = PersistentSession) name
                              (Some (pc_secret cred)))
                  else open_with w sm h auth pty (session_mode = PersistentSession) name None))"

section \<open>Delegating to a session\<close>

definition cleanup_detached_session :: "string \<Rightarrow> nat \<Rightarrow> smgr \<Rightarrow> smgr" where
  "cleanup_detached_session sid a sm = (if is_closed (s_state (sess sm a)) then map_remove sid sm else sm)"

text \<open>The common tail of \<open>send_input\<close>, \<open>send_control\<close>, \<open>resize\<close> and
  \<open>read_output\<close>.\<close>

definition after_call :: "string \<Rightarrow> nat \<Rightarrow> smgr \<times> 'a result \<Rightarrow> smgr \<times> 'a result" where
  "after_call sid a r =
     (case snd r of
        Inl (SessionClosed m) \<Rightarrow> (cleanup_detached_session sid a (fst r), Inl (SessionClosed m))
      | _ \<Rightarrow> r)"

definition smgr_send_input ::
  "nat \<Rightarrow> nat \<Rightarrow> unit result \<Rightarrow> smgr \<Rightarrow> string \<Rightarrow> bytes \<Rightarrow> smgr \<times> unit result" where
  "smgr_send_input secs now io sm sid data =
     (case check_policy sm (SendInput sid (from_utf8_lossy data)) of
        Inl e \<Rightarrow> (sm, Inl e)
      | Inr _ \<Rightarrow>
          (case get_session sm sid of
             Inl e \<Rightarrow> (sm, Inl e)
           | Inr a \<Rightarrow>
               let (s, r) = session_send_input secs now io data (sess sm a)
               in after_call sid a (put_sess a s sm, r)))"

definition smgr_send_control ::
  "nat \<Rightarrow> nat \<Rightarrow> unit result \<Rightarrow> smgr \<Rightarrow> string \<Rightarrow> control_key \<Rightarrow> smgr \<times> unit result" where
  "smgr_send_control secs now io sm sid key =
     (case get_session sm sid of
        Inl e \<Rightarrow> (sm, Inl e)
      | Inr a \<Rightarrow>
          let (s, r) = session_send_control secs now io key (sess sm a)
          in after_call sid a (put_sess a s sm, r))"

definition smgr_resize :: "unit result \<Rightarrow> smgr \<Rightarrow> string \<Rightarrow> u16 \<Rightarrow> u16 \<Rightarrow> smgr \<times> unit result" where
  "smgr_resize io sm sid c r =
     (case get_session sm sid of
        Inl e \<Rightarrow> (sm, Inl e)
      | Inr a \<Rightarrow>
          let (s, res) = session_resize io \<lparr>rows = r, cols = c\<rparr> (sess sm a)
          in after_call sid a (put_sess a s sm, res))"

definition smgr_read_output ::
  "regex_crate \<Rightarrow> nat \<Rightarrow> nat \<Rightarrow> tick list \<Rightarrow> smgr \<Rightarrow> string \<Rightarrow> read_output_params \<Rightarrow>
   (smgr \<times> read_output_result result) option" where
  "smgr_read_output rx secs now ticks sm sid params =
     (case get_session sm sid of
        Inl e \<Rightarrow> Some (sm, Inl e)
      | Inr a \<Rightarrow>
          map_option (\<lambda>(s, r). after_call sid a (put_sess a s sm, r))
            (session_read_output rx secs params now ticks (sess sm a)))"

definition prepare_for_raw_mode :: "smgr \<Rightarrow> string \<Rightarrow> smgr \<times> unit result" where
  "prepare_for_raw_mode sm sid =
     (case get_session sm sid of
        Inl e \<Rightarrow> (sm, Inl e)
      | Inr a \<Rightarrow> (put_sess a (abort_read_task (sess sm a)) sm, Inr ()))"

definition write_raw :: "unit result \<Rightarrow> smgr \<Rightarrow> string \<Rightarrow> unit result" where
  "write_raw io sm sid = (case get_session sm sid of Inl e \<Rightarrow> Inl e | Inr a \<Rightarrow> io)"

definition close_session :: "nat \<Rightarrow> unit result \<Rightarrow> smgr \<Rightarrow> string \<Rightarrow> smgr \<times> unit result" where
  "close_session now io sm sid =
     (case lookup sm sid of
        None \<Rightarrow> (sm, Inr ())
      | Some a \<Rightarrow>
          let sm = map_remove sid sm; (s, r) = session_close now io (sess sm a)
          in (put_sess a s sm, r))"

definition smgr_set_approval_mode :: "smgr \<Rightarrow> string \<Rightarrow> approval_mode \<Rightarrow> smgr \<times> unit result" where
  "smgr_set_approval_mode sm sid mode =
     (case get_session sm sid of
        Inl e \<Rightarrow> (sm, Inl e)
      | Inr a \<Rightarrow> (put_sess a (set_approval_mode mode (sess sm a)) sm, Inr ()))"

definition list_sessions :: "smgr \<Rightarrow> session_summary list" where
  "list_sessions sm = map (\<lambda>p. summary (sess sm (snd p))) (sm_sessions sm)"

definition get_session_timeline :: "smgr \<Rightarrow> string \<Rightarrow> nat option \<Rightarrow> timeline_event list result" where
  "get_session_timeline sm sid limit =
     (case get_session sm sid of Inl e \<Rightarrow> Inl e | Inr a \<Rightarrow> Inr (events (s_timeline (sess sm a)) limit))"

definition session_state_of :: "smgr \<Rightarrow> string \<Rightarrow> string result" where
  "session_state_of sm sid =
     (case get_session sm sid of Inl e \<Rightarrow> Inl e | Inr a \<Rightarrow> Inr (state_lower (s_state (sess sm a))))"

definition detach_session :: "unit result \<Rightarrow> smgr \<Rightarrow> string \<Rightarrow> smgr \<times> unit result" where
  "detach_session io sm sid =
     (case get_session sm sid of
        Inl e \<Rightarrow> (sm, Inl e)
      | Inr a \<Rightarrow>
          if so_handle (sm_objs sm ! a) \<noteq> PersistentHandle
          then (sm, Inl (InvalidArgument ''session does not support detach (non-persistent handle)''))
          else (case io of Inl e \<Rightarrow> (sm, Inl e) | Inr _ \<Rightarrow> (map_remove sid sm, Inr ())))"

text \<open>\<open>attach_remote_session\<close>; \<open>persistent\<close> says whether the provider is the
  persistent one, \<open>att\<close> is its answer.\<close>

definition attach_remote_session ::
  "open_world \<Rightarrow> bool \<Rightarrow> handle_kind result \<Rightarrow> smgr \<Rightarrow> string \<Rightarrow> smgr \<times> string result" where
  "attach_remote_session w persistent att sm host_alias =
     (case ow_resolve w host_alias of
        Inl e \<Rightarrow> (sm, Inl e)
      | Inr h \<Rightarrow>
          if \<not> persistent then (sm, Inl (InvalidArgument ''attach_remote_session requires persistent provider''))
          else (case att of
                  Inl e \<Rightarrow> (sm, Inl e)
                | Inr hnd \<Rightarrow>
                    let (sm, i) = next_session_id sm;
                        s = session_new (ow_now_secs w) (ow_now_millis w) i (h_name h) default_pty_size;
                        (sm, a) = new_obj \<lparr>so_session = s, so_handle = hnd\<rparr> sm
                    in (map_insert i a sm, Inr i)))"

section \<open>Reconnecting\<close>

datatype reconnect_result =
    Reconnected string string bool
  | NotLost string string
  | ReconnectFailed string term_error

text \<open>
  The three parts of \<open>reconnect_session\<close> between its awaits: the look-up, the close of the
  old session, and the replacement once the provider has opened a new handle.
\<close>

definition reconnect_begin :: "smgr \<Rightarrow> string \<Rightarrow> (nat + reconnect_result) result" where
  "reconnect_begin sm sid =
     (case get_session sm sid of
        Inl e \<Rightarrow> Inl e
      | Inr a \<Rightarrow>
          if s_state (sess sm a) \<noteq> Lost then Inr (Inr (NotLost sid (state_lower (s_state (sess sm a)))))
          else Inr (Inl a))"

definition reconnect_close :: "nat \<Rightarrow> unit result \<Rightarrow> nat \<Rightarrow> smgr \<Rightarrow> smgr" where
  "reconnect_close now io a sm = put_sess a (fst (session_close now io (sess sm a))) sm"

definition reconnect_open :: "open_world \<Rightarrow> nat \<Rightarrow> string \<Rightarrow> smgr \<Rightarrow> smgr \<times> reconnect_result" where
  "reconnect_open w a sid sm =
     (let old = sess sm a
      in case ow_resolve w (s_host old) of
           Inl e \<Rightarrow> (sm, ReconnectFailed sid e)
         | Inr h \<Rightarrow>
             (case ow_open w \<lparr>or_host = h, or_pty_size = s_pty_size old, or_persistent = False,
                              or_name = None, or_password = None\<rparr> of
                Inl e \<Rightarrow> (sm, ReconnectFailed sid e)
              | Inr hnd \<Rightarrow>
                  let s = session_new (ow_now_secs w) (ow_now_millis w) sid (h_name h) (s_pty_size old);
                      (sm, b) = new_obj \<lparr>so_session = s, so_handle = hnd\<rparr> sm
                  in (map_insert sid b sm, Reconnected sid (h_name h) False)))"

definition reconnect_session ::
  "open_world \<Rightarrow> unit result \<Rightarrow> smgr \<Rightarrow> string \<Rightarrow> smgr \<times> reconnect_result result" where
  "reconnect_session w io sm sid =
     (case reconnect_begin sm sid of
        Inl e \<Rightarrow> (sm, Inl e)
      | Inr (Inr r) \<Rightarrow> (sm, Inr r)
      | Inr (Inl a) \<Rightarrow>
          let (sm, r) = reconnect_open w a sid (reconnect_close (ow_now_millis w) io a sm) in (sm, Inr r))"

section \<open>The idle reaper\<close>

text \<open>One turn of the loop over the collected ids: check again, remove, close.\<close>

definition reap_one :: "nat \<Rightarrow> nat \<Rightarrow> nat \<Rightarrow> unit result \<Rightarrow> string \<Rightarrow> smgr \<Rightarrow> smgr" where
  "reap_one now_secs now timeout io sid sm =
     (case lookup sm sid of
        None \<Rightarrow> sm
      | Some a \<Rightarrow>
          if \<not> is_idle now_secs timeout (sess sm a) then sm
          else put_sess a (fst (session_close now io (sess sm a))) (map_remove sid sm))"

definition reap_idle :: "nat \<Rightarrow> nat \<Rightarrow> nat \<Rightarrow> unit result \<Rightarrow> smgr \<Rightarrow> smgr" where
  "reap_idle now_secs now timeout io sm =
     foldl (\<lambda>sm sid. reap_one now_secs now timeout io sid sm) sm
       (map fst (filter (\<lambda>p. is_idle now_secs timeout (sess sm (snd p))) (sm_sessions sm)))"

end
