(* ===== verification/Manager_Run.thy ===== *)
theory Manager_Run
  imports Session_Manager
begin

text \<open>
  The session manager at work: the step relation that interleaves tool calls, reconnects, the idle
  reaper and the read tasks of the sessions, the invariant of the session map, and what each
  operation of src/application/sessions.rs promises its caller.
\<close>

section \<open>The invariant of the session map\<close>

text \<open>
  Every id is listed once and under the session that carries it, no two ids share a session, every
  id was issued by the counter, and no session outlives its object.
\<close>

definition issued :: "nat \<Rightarrow> string \<Rightarrow> bool" where
  "issued c k \<longleftrightarrow> (\<exists>n < c. k = ''sess_'' @ dec n)"

definition smgr_inv :: "smgr \<Rightarrow> bool" where
  "smgr_inv sm \<longleftrightarrow> distinct (map fst (sm_sessions sm)) \<and>
     (\<forall>a < length (sm_objs sm). issued (sm_counter sm) (s_id (sess sm a))) \<and>
     (\<forall>(k, a) \<in> set (sm_sessions sm). a < length (sm_objs sm) \<and> s_id (sess sm a) = k)"

lemma issued_mono: "issued c k \<Longrightarrow> c \<le> d \<Longrightarrow> issued d k"
  by (auto simp: issued_def)

lemma lookup_inv:
  assumes "smgr_inv sm" "lookup sm k = Some a"
  shows "a < length (sm_objs sm)" "s_id (sess sm a) = k"
  using assms by (auto simp: smgr_inv_def lookup_def dest: map_of_SomeD)

lemma lookup_map_insert [simp]:
  "lookup (map_insert k a sm) j = (if j = k then Some a else lookup sm j)"
  by (simp add: lookup_def map_insert_def)

lemma lookup_map_remove [simp]:
  "lookup (map_remove k sm) j = (if j = k then None else lookup sm j)"
  by (simp add: lookup_def map_remove_def)

lemma lookup_put_sess [simp]: "lookup (put_sess a s sm) j = lookup sm j"
  by (simp add: lookup_def put_sess_def)

lemma sess_put_sess [simp]:
  "a < length (sm_objs sm) \<Longrightarrow> sess (put_sess a s sm) b = (if b = a then s else sess sm b)"
  by (simp add: sess_def put_sess_def nth_list_update)

lemma sess_map [simp]:
  "sess (map_insert k a sm) = sess sm" "sess (map_remove k sm) = sess sm"
  "sess (sm\<lparr>sm_counter := c\<rparr>) = sess sm"
  by (rule ext, simp add: sess_def map_insert_def map_remove_def)+

lemma objs_simps [simp]:
  "length (sm_objs (put_sess a s sm)) = length (sm_objs sm)"
  "sm_objs (map_insert k a sm) = sm_objs sm" "sm_objs (map_remove k sm) = sm_objs sm"
  "sm_sessions (put_sess a s sm) = sm_sessions sm" "sm_counter (put_sess a s sm) = sm_counter sm"
  "sm_counter (map_insert k a sm) = sm_counter sm" "sm_counter (map_remove k sm) = sm_counter sm"
  by (simp_all add: put_sess_def map_insert_def map_remove_def)

lemma sessions_simps:
  "sm_sessions (map_insert k a sm) = (k, a) # filter (\<lambda>p. fst p \<noteq> k) (sm_sessions sm)"
  "sm_sessions (map_remove k sm) = filter (\<lambda>p. fst p \<noteq> k) (sm_sessions sm)"
  by (simp_all add: map_insert_def map_remove_def)

lemma inv_put:
  assumes "smgr_inv sm" "s_id s = s_id (sess sm a)"
  shows "smgr_inv (put_sess a s sm)"
proof (cases "a < length (sm_objs sm)")
  case True
  then show ?thesis using assms unfolding smgr_inv_def by (auto split: if_splits)
next
  case False
  then have "(sm_objs sm)[a := x] = sm_objs sm" for x by (simp add: list_update_beyond)
  then have "put_sess a s sm = sm" by (simp add: put_sess_def)
  then show ?thesis using assms by simp
qed

lemma inv_remove: "smgr_inv sm \<Longrightarrow> smgr_inv (map_remove k sm)"
  unfolding smgr_inv_def by (auto simp: sessions_simps distinct_filter_fst)

lemma inv_insert:
  "smgr_inv sm \<Longrightarrow> a < length (sm_objs sm) \<Longrightarrow> s_id (sess sm a) = k \<Longrightarrow> smgr_inv (map_insert k a sm)"
  unfolding smgr_inv_def by (auto simp: sessions_simps distinct_filter_fst)

lemma sess_new_obj:
  "sess (fst (new_obj ob sm)) b = (if b = length (sm_objs sm) then so_session ob else sess sm b)"
  if "b \<le> length (sm_objs sm)"
  using that by (auto simp: sess_def new_obj_def nth_append)

lemma inv_new_obj:
  assumes "smgr_inv sm" "issued (sm_counter sm) (s_id (so_session ob))"
  shows "smgr_inv (fst (new_obj ob sm))"
  using assms unfolding smgr_inv_def
  by (auto simp: new_obj_def sess_def nth_append less_Suc_eq)

lemma inv_add:
  assumes "smgr_inv sm" "issued (sm_counter sm) k" "s_id (so_session ob) = k" "new_obj ob sm = (sm', a)"
  shows "smgr_inv (map_insert k a sm')"
proof (rule inv_insert)
  show "smgr_inv sm'" using inv_new_obj [of sm ob] assms by simp
  show "a < length (sm_objs sm')" using assms(4) by (auto simp: new_obj_def)
  show "s_id (sess sm' a) = k" using assms(3,4) by (auto simp: new_obj_def sess_def)
qed

lemma inv_next_id:
  assumes "smgr_inv sm" "next_session_id sm = (sm', i)"
  shows "smgr_inv sm'" "issued (sm_counter sm') i"
  using assms unfolding next_session_id_def smgr_inv_def
  by (auto simp: issued_def sess_def intro: less_SucI)

lemma inv_cleanup: "smgr_inv sm \<Longrightarrow> smgr_inv (cleanup_detached_session sid a sm)"
  by (simp add: cleanup_detached_session_def inv_remove)

lemma inv_after_call: "smgr_inv (fst r) \<Longrightarrow> smgr_inv (fst (after_call sid a r))"
  by (auto simp: after_call_def inv_cleanup split: sum.split term_error.split)

section \<open>Every interleaving\<close>

text \<open>
  One step of the manager while tool calls, reconnects, the reaper and the read tasks run side by
  side.  A call works on the object it looked up, whatever the map says by then; so do the two
  later parts of a reconnect.
\<close>

inductive sm_step :: "smgr \<Rightarrow> smgr \<Rightarrow> bool" where
  open_step: "open_session w sm host pty persistent name = (sm', r, tr) \<Longrightarrow> sm_step sm sm'"
| attach_step: "attach_remote_session w p att sm host = (sm', ra) \<Longrightarrow> sm_step sm sm'"
| detach_step: "detach_session io sm sid = (sm', ru) \<Longrightarrow> sm_step sm sm'"
| close_step: "close_session now io sm sid = (sm', ru) \<Longrightarrow> sm_step sm sm'"
| approve_step: "smgr_set_approval_mode sm sid mode = (sm', ru) \<Longrightarrow> sm_step sm sm'"
| raw_step: "prepare_for_raw_mode sm sid = (sm', ru) \<Longrightarrow> sm_step sm sm'"
| reap_step: "sm_step sm (reap_one secs now timeout io sid sm)"
| input_step: "a < length (sm_objs sm) \<Longrightarrow> session_send_input secs now io data (sess sm a) = (s, ru) \<Longrightarrow>
    sm_step sm (fst (after_call (s_id (sess sm a)) a (put_sess a s sm, ru)))"
| control_step: "a < length (sm_objs sm) \<Longrightarrow> session_send_control secs now io key (sess sm a) = (s, ru) \<Longrightarrow>
    sm_step sm (fst (after_call (s_id (sess sm a)) a (put_sess a s sm, ru)))"
| resize_step: "a < length (sm_objs sm) \<Longrightarrow> session_resize io sz (sess sm a) = (s, ru) \<Longrightarrow>
    sm_step sm (fst (after_call (s_id (sess sm a)) a (put_sess a s sm, ru)))"
| read_step: "a < length (sm_objs sm) \<Longrightarrow>
    session_read_output rx secs params now ticks (sess sm a) = Some (s, ro) \<Longrightarrow>
    sm_step sm (fst (after_call (s_id (sess sm a)) a (put_sess a s sm, ro)))"
| data_step: "s_reading (sess sm a) \<Longrightarrow> sm_step sm (put_sess a (read_data now data (sess sm a)) sm)"
| exit_step: "s_reading (sess sm a) \<Longrightarrow> sm_step sm (put_sess a (read_exit (sess sm a)) sm)"
| reconnect_close_step: "sm_step sm (reconnect_close now io a sm)"
| reconnect_open_step: "a < length (sm_objs sm) \<Longrightarrow>
    reconnect_open w a (s_id (sess sm a)) sm = (sm', rr) \<Longrightarrow> sm_step sm sm'"

definition smgr_new :: "path_policy \<Rightarrow> policy_manager \<Rightarrow> resolver \<Rightarrow> smgr" where
  "smgr_new pp pol hp =
     \<lparr>sm_objs = [], sm_sessions = [], sm_counter = 0, sm_path_policy = pp, sm_policy = pol,
      sm_host_policy = hp\<rparr>"

lemma session_close_id [simp]: "s_id (fst (session_close now io s)) = s_id s"
  by (simp add: session_close_def)

lemma read_data_id [simp]: "s_id (read_data now d s) = s_id s"
  by (simp add: read_data_def read_write_def Let_def)

lemma read_call_id:
  "session_read_output rx secs p now ts s = Some (s', ro) \<Longrightarrow> s_id s' = s_id s"
  by (auto simp: session_read_output_def touch_last_activity_def Let_def split: if_splits)

lemma inv_add_new:
  assumes "smgr_inv sm" "next_session_id sm = (sm1, i)" "s_id (so_session ob) = i"
    and "new_obj ob sm1 = (sm2, a)"
  shows "smgr_inv (map_insert i a sm2)"
  using inv_add [OF inv_next_id(1) [OF assms(1,2)] inv_next_id(2) [OF assms(1,2)] assms(3,4)] .

lemma session_new_id [simp]: "s_id (session_new a b i h p) = i"
  by (simp add: session_new_def)

lemma inv_open_with: "smgr_inv sm \<Longrightarrow> smgr_inv (fst (open_with w sm h auth pty per nm sec))"
  by (auto simp: open_with_def Let_def intro!: inv_add_new split: sum.split prod.split)

lemma inv_open_session: "smgr_inv sm \<Longrightarrow> smgr_inv (fst (open_session w sm h pty per nm))"
  by (auto simp: open_session_def Let_def intro: inv_open_with split: sum.split)

lemma inv_attach: "smgr_inv sm \<Longrightarrow> smgr_inv (fst (attach_remote_session w p att sm h))"
  by (auto simp: attach_remote_session_def Let_def intro!: inv_add_new split: sum.split prod.split)

lemma inv_reconnect_open:
  assumes "smgr_inv sm" "a < length (sm_objs sm)"
  shows "smgr_inv (fst (reconnect_open w a (s_id (sess sm a)) sm))"
proof -
  have iss: "issued (sm_counter sm) (s_id (sess sm a))" using assms by (simp add: smgr_inv_def)
  show ?thesis
    using assms(1) iss by (auto simp: reconnect_open_def Let_def intro!: inv_add split: sum.split prod.split)
qed

lemma session_close_same_id: "session_close now io s = (s', r) \<Longrightarrow> s_id s' = s_id s"
  using session_close_id [of now io s] by simp

lemma inv_step: "sm_step sm sm' \<Longrightarrow> smgr_inv sm \<Longrightarrow> smgr_inv sm'"
proof (induction rule: sm_step.induct)
  case (open_step w sm host pty persistent name sm' r tr)
  then show ?case using inv_open_session by (metis fst_conv)
next
  case (attach_step w p att sm host sm' ra)
  then show ?case using inv_attach by (metis fst_conv)
next
  case (reconnect_open_step a sm w sm' rr)
  then show ?case using inv_reconnect_open by (metis fst_conv)
qed (auto simp: detach_session_def close_session_def smgr_set_approval_mode_def prepare_for_raw_mode_def
    reap_one_def reconnect_close_def Let_def dest: session_send_input_effect(2)
    session_send_control_effect(2) session_resize_effect read_call_id session_close_same_id
    intro!: inv_put inv_remove inv_after_call split: option.splits sum.splits if_splits prod.splits)

lemma inv_new: "smgr_inv (smgr_new pp pol hp)"
  by (simp add: smgr_inv_def smgr_new_def)

lemma inv_reachable: "sm_step\<^sup>*\<^sup>* sm sm' \<Longrightarrow> smgr_inv sm \<Longrightarrow> smgr_inv sm'"
  by (induction rule: rtranclp_induct) (auto intro: inv_step)

lemma next_id_unused:
  "smgr_inv sm \<Longrightarrow> a < length (sm_objs sm) \<Longrightarrow> s_id (sess sm a) \<noteq> snd (next_session_id sm)"
  by (auto simp: smgr_inv_def issued_def next_session_id_def)

section \<open>Properties\<close>

text \<open>
  (C7) However tool calls, reconnects, the reaper and the read tasks interleave, every listed session
  carries the id it is listed under, no id is listed twice, and the id the next open will issue
  belongs to no session that ever existed, listed or not.
\<close>

theorem session_ids_unique:
  assumes "sm_step\<^sup>*\<^sup>* (smgr_new pp pol hp) sm"
  shows "distinct (map fst (sm_sessions sm)) \<and>
    (\<forall>k a. lookup sm k = Some a \<longrightarrow> a < length (sm_objs sm) \<and> s_id (sess sm a) = k) \<and>
    (\<forall>a < length (sm_objs sm). s_id (sess sm a) \<noteq> snd (next_session_id sm))"
proof -
  have inv: "smgr_inv sm" using inv_reachable [OF assms inv_new] .
  then show ?thesis using lookup_inv [OF inv] next_id_unused [OF inv] by (simp add: smgr_inv_def)
qed

text \<open>A session was added: the one new object, listed under the id \<open>i\<close>.\<close>

definition session_added :: "smgr \<Rightarrow> string \<Rightarrow> string \<Rightarrow> pty_size \<Rightarrow> smgr \<Rightarrow> bool" where
  "session_added sm i host_name pty sm' \<longleftrightarrow>
     (let a = length (sm_objs sm)
      in lookup sm' = (lookup sm)(i \<mapsto> a) \<and> (\<forall>b < a. sess sm' b = sess sm b) \<and>
         s_id (sess sm' a) = i \<and> s_host (sess sm' a) = host_name \<and> s_pty_size (sess sm' a) = pty \<and>
         s_state (sess sm' a) = Ready \<and> s_approval_mode (sess sm' a) = Standard \<and>
         eng_rep (s_output (sess sm' a)) [])"

lemma session_addedI:
  assumes "new_obj \<lparr>so_session = session_new secs now i hn pty, so_handle = hnd\<rparr> (sm\<lparr>sm_counter := c\<rparr>) = (sm1, a)"
  shows "session_added sm i hn pty (map_insert i a sm1)"
  using assms eng_rep_new [of DEFAULT_BUFFER_SIZE]
  by (auto simp: session_added_def new_obj_def sess_def session_new_def nth_append fun_eq_iff lookup_def
      map_insert_def)

lemma open_with_spec:
  assumes "open_with w sm h auth pty per nm sec = (sm', r, tr)"
  obtains rq where "ot_request tr = Some rq" "or_host rq = h" "or_password rq = sec" "or_persistent rq = per"
    "or_pty_size rq = (case pty of Some p \<Rightarrow> p | None \<Rightarrow> default_pty_size)" "ot_prompted tr = (auth = Password)"
    "case r of Inl e \<Rightarrow> sm' = sm \<and> ot_remembered tr = None
     | Inr i \<Rightarrow> i = snd (next_session_id sm) \<and> session_added sm i (h_name h) (or_pty_size rq) sm' \<and>
         ot_remembered tr = (if auth = Password then Some (h_hostname h, h_user h) else None)"
proof -
  define p where "p = (case pty of Some p \<Rightarrow> p | None \<Rightarrow> default_pty_size)"
  define rq where "rq = \<lparr>or_host = h, or_pty_size = p, or_persistent = per, or_name = nm, or_password = sec\<rparr>"
  define i where "i = ''sess_'' @ dec (sm_counter sm)"
  note o = assms [unfolded open_with_def next_session_id_def, folded p_def i_def, simplified Let_def,
      folded rq_def]
  have res: "case r of Inl e \<Rightarrow> sm' = sm \<and> ot_remembered tr = None
     | Inr j \<Rightarrow> j = i \<and> session_added sm j (h_name h) (or_pty_size rq) sm' \<and>
         ot_remembered tr = (if auth = Password then Some (h_hostname h, h_user h) else None)"
    using o by (auto simp: rq_def intro: session_addedI split: sum.splits prod.splits)
  show thesis
    by (rule that [of rq]) (use o res in \<open>auto simp: rq_def p_def i_def next_session_id_def
      split: sum.splits prod.splits\<close>)
qed

text \<open>
  \<open>open_session\<close>: a password is asked for only when the host's policy says so and never for
  a persistent session; the provider gets a secret exactly for the hosts with password
  authentication, and then asks for no persistent session; a failed open leaves the manager as it
  was; a successful one adds exactly one session, ready, empty, with the standard approval mode,
  under a new id, and remembers the user name of the connection if a password was used.
\<close>

lemma open_session_contract:
  assumes "open_session w sm host pty persistent name = (sm', r, tr)"
  shows "(ot_prompted tr \<longrightarrow> resolve_auth_mode sm host = Password \<and>
            resolve_session_mode sm host persistent \<noteq> PersistentSession) \<and>
    (case ot_request tr of None \<Rightarrow> \<not> isl r \<longrightarrow> False
     | Some rq \<Rightarrow> (or_password rq \<noteq> None \<longleftrightarrow> resolve_auth_mode sm host = Password) \<and>
         (or_password rq \<noteq> None \<longrightarrow> \<not> or_persistent rq)) \<and>
    (case r of Inl e \<Rightarrow> sm' = sm \<and> ot_remembered tr = None
     | Inr i \<Rightarrow> i = snd (next_session_id sm) \<and>
         (\<exists>rq. ot_request tr = Some rq \<and> session_added sm i (h_name (or_host rq)) (or_pty_size rq) sm' \<and>
            ot_remembered tr = (if resolve_auth_mode sm host = Password
              then Some (h_hostname (or_host rq), h_user (or_host rq)) else None)))"
  using assms unfolding open_session_def Let_def
  by (auto simp: validate_auth_session_combo_def no_trace_def elim!: open_with_spec
      split: sum.splits if_splits)

lemma session_close_state [simp]: "s_state (fst (session_close now io s)) = Closed"
  by (auto simp: session_close_def is_closed_def)

text \<open>
  \<open>close_session\<close> takes the session out of the map, whatever the handle answers, leaves
  every other entry alone, closes exactly that session, and a repetition is a success that changes
  nothing.
\<close>

lemma close_session_idempotent:
  "let sm' = fst (close_session now io sm sid)
   in lookup sm' = (lookup sm)(sid := None) \<and>
      close_session now' io' sm' sid = (sm', Inr ()) \<and>
      (case lookup sm sid of
         None \<Rightarrow> sm' = sm
       | Some a \<Rightarrow> a < length (sm_objs sm) \<longrightarrow>
           s_state (sess sm' a) = Closed \<and> (\<forall>b. b \<noteq> a \<longrightarrow> sess sm' b = sess sm b))"
  using session_close_state [of now io]
  by (auto simp: close_session_def Let_def case_prod_beta fun_eq_iff split: option.split)

lemma reap_fold:
  assumes "smgr_inv sm" "distinct ks" "\<forall>k \<in> set ks. \<exists>a. lookup sm k = Some a \<and> is_idle secs t (sess sm a)"
  shows "let sm' = foldl (\<lambda>sm sid. reap_one secs now t io sid sm) sm ks
    in sm_sessions sm' = filter (\<lambda>p. fst p \<notin> set ks) (sm_sessions sm) \<and>
       (\<forall>b. sess sm' b = (if \<exists>k \<in> set ks. lookup sm k = Some b
                          then fst (session_close now io (sess sm b)) else sess sm b))"
  using assms
proof (induction ks arbitrary: sm)
  case (Cons k ks)
  obtain a where a: "lookup sm k = Some a" "is_idle secs t (sess sm a)" using Cons.prems(3) by auto
  let ?s = "fst (session_close now io (sess sm a))"
  let ?sm = "put_sess a ?s (map_remove k sm)"
  have one: "reap_one secs now t io k sm = ?sm" using a by (simp add: reap_one_def)
  have la: "a < length (sm_objs sm)" using lookup_inv [OF Cons.prems(1) a(1)] by simp
  have apart: "lookup sm j = Some a \<longleftrightarrow> j = k" for j
    using lookup_inv(2) [OF Cons.prems(1)] a(1) by auto
  have inv: "smgr_inv ?sm" using Cons.prems(1) by (intro inv_put inv_remove) simp_all
  have rest: "\<forall>j \<in> set ks. \<exists>b. lookup ?sm j = Some b \<and> is_idle secs t (sess ?sm b)"
  proof
    fix j assume j: "j \<in> set ks"
    with Cons.prems(2,3) obtain b where "j \<noteq> k" "lookup sm j = Some b" "is_idle secs t (sess sm b)" by auto
    then show "\<exists>b. lookup ?sm j = Some b \<and> is_idle secs t (sess ?sm b)" using la apart by auto
  qed
  have uniq: "lookup sm k = Some b \<longleftrightarrow> b = a" for b using a(1) by auto
  have kin: "k \<notin> set ks" using Cons.prems(2) by simp
  show ?case using Cons.IH [OF inv _ rest] Cons.prems(2) one la uniq apart kin
    by (auto simp: Let_def sessions_simps) 
qed simp

text \<open>
  One pass of the idle reaper removes exactly the sessions idle for the timeout, closes each of
  them, and leaves every other session as it was.
\<close>

lemma reap_idle_exact:
  assumes "sm_step\<^sup>*\<^sup>* (smgr_new pp pol hp) sm"
  shows "let sm' = reap_idle secs now timeout io sm
    in sm_sessions sm' = filter (\<lambda>(k, a). \<not> is_idle secs timeout (sess sm a)) (sm_sessions sm) \<and>
       (\<forall>b. sess sm' b = (if b \<in> snd ` set (sm_sessions sm) \<and> is_idle secs timeout (sess sm b)
                          then fst (session_close now io (sess sm b)) else sess sm b))"
proof -
  have inv: "smgr_inv sm" using inv_reachable [OF assms inv_new] .
  let ?ks = "map fst (filter (\<lambda>p. is_idle secs timeout (sess sm (snd p))) (sm_sessions sm))"
  have d: "distinct (map fst (sm_sessions sm))" using inv by (simp add: smgr_inv_def)
  have l: "lookup sm k = Some a \<longleftrightarrow> (k, a) \<in> set (sm_sessions sm)" for k a
    using d by (simp add: lookup_def map_of_eq_Some_iff)
  have idle: "\<forall>k \<in> set ?ks. \<exists>a. lookup sm k = Some a \<and> is_idle secs timeout (sess sm a)"
    using l by force
  have k: "k \<in> set ?ks \<longleftrightarrow> is_idle secs timeout (sess sm a)" if "(k, a) \<in> set (sm_sessions sm)" for k a
  proof -
    have "b = a" if "(k, b) \<in> set (sm_sessions sm)" for b
      using that l [of k b] l [of k a] \<open>(k, a) \<in> set (sm_sessions sm)\<close> by simp
    moreover have "k \<in> set ?ks \<longleftrightarrow> (\<exists>b. (k, b) \<in> set (sm_sessions sm) \<and> is_idle secs timeout (sess sm b))"
      by force
    ultimately show ?thesis using that by blast
  qed
  note f = reap_fold [OF inv distinct_filter_fst [OF d] idle, folded reap_idle_def, unfolded Let_def,
      of now io]
  have "sm_sessions (reap_idle secs now timeout io sm) =
      filter (\<lambda>(k, a). \<not> is_idle secs timeout (sess sm a)) (sm_sessions sm)"
  proof -
    have "filter (\<lambda>p. fst p \<notin> set ?ks) (sm_sessions sm) =
        filter (\<lambda>(k, a). \<not> is_idle secs timeout (sess sm a)) (sm_sessions sm)"
    proof (rule filter_cong [OF refl])
      fix p assume "p \<in> set (sm_sessions sm)"
      then show "(fst p \<notin> set ?ks) = (case p of (k, a) \<Rightarrow> \<not> is_idle secs timeout (sess sm a))"
        using k [of "fst p" "snd p"] by (simp only: prod.collapse case_prod_beta simp_thms)
    qed
    then show ?thesis using f by simp
  qed
  moreover have "(\<exists>j \<in> set ?ks. lookup sm j = Some b) \<longleftrightarrow>
      b \<in> snd ` set (sm_sessions sm) \<and> is_idle secs timeout (sess sm b)" for b
  proof -
    have "(\<exists>j \<in> set ?ks. lookup sm j = Some b) \<longleftrightarrow>
        (\<exists>j. (j, b) \<in> set (sm_sessions sm) \<and> j \<in> set ?ks)" unfolding l by blast
    also have "\<dots> \<longleftrightarrow> (\<exists>j. (j, b) \<in> set (sm_sessions sm)) \<and> is_idle secs timeout (sess sm b)"
      using k by blast
    finally show ?thesis by (simp add: image_iff Bex_def)
  qed
  ultimately show ?thesis using f unfolding Let_def by (simp only: simp_thms)
qed

text \<open>
  Input that the policy chain denies, or that it wants confirmed in a session the user has not
  approved, never reaches a session: nothing changes, and the answer is the policy error, the same
  whether the session exists or not.
\<close>

lemma blocked_input_never_sent:
  assumes "authorize (sm_policy sm) (SendInput sid (from_utf8_lossy data)) = Deny \<or>
    authorize (sm_policy sm) (SendInput sid (from_utf8_lossy data)) = Confirm \<and>
    (\<forall>a. lookup sm sid = Some a \<longrightarrow> s_approval_mode (sess sm a) = Standard)"
  shows "smgr_send_input secs now io sm sid data =
    (sm, Inl (if authorize (sm_policy sm) (SendInput sid (from_utf8_lossy data)) = Deny
      then PolicyDenied (policy_reason (SendInput sid (from_utf8_lossy data)) ''blocked'')
      else PolicyNeedsConfirm (policy_reason (SendInput sid (from_utf8_lossy data)) ''needs confirmation'')))"
  using assms
  by (auto simp: smgr_send_input_def check_policy_def authorize_with_approval_def approval_for_def
      simp del: policy_reason.simps split: option.splits decision.splits)

lemma reconnect_close_effect:
  assumes "a < length (sm_objs sm)"
  shows "sess (reconnect_close now io a sm) b =
      (if b = a then fst (session_close now io (sess sm a)) else sess sm b)"
    "lookup (reconnect_close now io a sm) = lookup sm"
    "length (sm_objs (reconnect_close now io a sm)) = length (sm_objs sm)"
  using assms by (simp_all add: reconnect_close_def fun_eq_iff)

lemma reconnect_open_spec:
  assumes "reconnect_open w a sid sm = (sm', r)" "a < length (sm_objs sm)"
  shows "case r of
      Reconnected i h cwd \<Rightarrow> i = sid \<and> \<not> cwd \<and> session_added sm sid h (s_pty_size (sess sm a)) sm'
    | ReconnectFailed i e \<Rightarrow> i = sid \<and> sm' = sm
    | NotLost _ _ \<Rightarrow> False"
  using assms session_addedI [where sm = sm and c = "sm_counter sm"]
  by (auto simp: reconnect_open_def Let_def split: sum.splits prod.splits)

lemma session_close_pty [simp]: "s_pty_size (fst (session_close now io s)) = s_pty_size s"
  by (simp add: session_close_def close_done_def close_mark_def abort_read_task_def Let_def)

lemma reconnect_session_spec:
  assumes "lookup sm sid = Some a" "a < length (sm_objs sm)"
  shows "(s_state (sess sm a) \<noteq> Lost \<longrightarrow>
      reconnect_session w io sm sid = (sm, Inr (NotLost sid (state_lower (s_state (sess sm a)))))) \<and>
    (s_state (sess sm a) = Lost \<longrightarrow>
      (\<exists>sm' r. reconnect_session w io sm sid = (sm', Inr r) \<and> s_state (sess sm' a) = Closed \<and>
         (case r of
            Reconnected i h cwd \<Rightarrow> i = sid \<and> \<not> cwd \<and> session_added
              (reconnect_close (ow_now_millis w) io a sm) sid h (s_pty_size (sess sm a)) sm'
          | ReconnectFailed i e \<Rightarrow> i = sid \<and> sm' = reconnect_close (ow_now_millis w) io a sm
          | NotLost _ _ \<Rightarrow> False)))"
proof (intro conjI impI)
  have get: "get_session sm sid = Inr a" using assms(1) by (simp add: get_session_def)
  show "reconnect_session w io sm sid = (sm, Inr (NotLost sid (state_lower (s_state (sess sm a)))))"
    if "s_state (sess sm a) \<noteq> Lost"
    using that get by (simp add: reconnect_session_def reconnect_begin_def)
  assume lost: "s_state (sess sm a) = Lost"
  let ?sm = "reconnect_close (ow_now_millis w) io a sm"
  obtain sm' r where o: "reconnect_open w a sid ?sm = (sm', r)" by fastforce
  note eff = reconnect_close_effect [OF assms(2), of "ow_now_millis w" io]
  have spec: "case r of
      Reconnected i h cwd \<Rightarrow> i = sid \<and> \<not> cwd \<and> session_added ?sm sid h (s_pty_size (sess ?sm a)) sm'
    | ReconnectFailed i e \<Rightarrow> i = sid \<and> sm' = ?sm
    | NotLost _ _ \<Rightarrow> False"
    using reconnect_open_spec [OF o] assms(2) eff(3) by simp
  have pty: "s_pty_size (sess ?sm a) = s_pty_size (sess sm a)" by (simp add: eff)
  have "s_state (sess sm' a) = Closed"
    using spec eff assms(2) by (auto simp: session_added_def Let_def split: reconnect_result.splits)
  then show "\<exists>sm' r. reconnect_session w io sm sid = (sm', Inr r) \<and> s_state (sess sm' a) = Closed \<and>
      (case r of
         Reconnected i h cwd \<Rightarrow> i = sid \<and> \<not> cwd \<and> session_added ?sm sid h (s_pty_size (sess sm a)) sm'
       | ReconnectFailed i e \<Rightarrow> i = sid \<and> sm' = ?sm
       | NotLost _ _ \<Rightarrow> False)"
    using spec [unfolded pty] o get lost by (simp add: reconnect_session_def reconnect_begin_def)
qed

text \<open>
  \<open>reconnect_session\<close> acts only on a lost session.  It always closes it; if the provider
  opens a new handle, the id is listed with a new, empty, ready session of the same size in the
  standard approval mode, and otherwise the map still lists the closed one.
\<close>

lemma reconnect_contract:
  assumes "lookup sm sid = Some a" "a < length (sm_objs sm)"
  shows "(s_state (sess sm a) \<noteq> Lost \<longrightarrow>
      reconnect_session w io sm sid = (sm, Inr (NotLost sid (state_lower (s_state (sess sm a)))))) \<and>
    (s_state (sess sm a) = Lost \<longrightarrow>
      (\<exists>sm' r. reconnect_session w io sm sid = (sm', Inr r) \<and> s_state (sess sm' a) = Closed \<and>
         (case r of
            Reconnected i h cwd \<Rightarrow> i = sid \<and> \<not> cwd \<and> session_added
              (reconnect_close (ow_now_millis w) io a sm) sid h (s_pty_size (sess sm a)) sm'
          | ReconnectFailed i e \<Rightarrow> i = sid \<and> sm' = reconnect_close (ow_now_millis w) io a sm
          | NotLost _ _ \<Rightarrow> False)))"
  using assms by (rule reconnect_session_spec)

lemma stale_call_removes:
  assumes "b \<noteq> a" "a < length (sm_objs sm1)" "s_state (sess sm1 a) = Closed" "lookup sm1 sid = Some b"
    and "session_send_input secs now io data (sess sm1 a) = (s, r)"
  shows "let sm2 = fst (after_call sid a (put_sess a s sm1, r))
    in lookup sm2 sid = None \<and> sess sm2 b = sess sm1 b"
  using assms by (auto simp: session_send_input_def is_usable_def after_call_def
      cleanup_detached_session_def is_closed_def Let_def)

text \<open>
  A call that looked a lost session up before a reconnect replaced it undoes the reconnect: it finds
  its own session closed and takes the id out of the map, although the session now listed under the
  id is another one, and ready.
\<close>

lemma stale_call_drops_reconnected:
  assumes "lookup sm sid = Some a" "a < length (sm_objs sm)"
    and "reconnect_session w io sm sid = (sm1, Inr (Reconnected i h cwd))"
    and "session_send_input secs now io' data (sess sm1 a) = (s, r)"
  shows "let sm2 = fst (after_call sid a (put_sess a s sm1, r))
    in \<exists>b. lookup sm1 sid = Some b \<and> s_state (sess sm2 b) = Ready \<and> lookup sm2 sid = None"
proof -
  let ?c = "reconnect_close (ow_now_millis w) io a sm" and ?b = "length (sm_objs sm)"
  note eff = reconnect_close_effect [OF assms(2), of "ow_now_millis w" io]
  have "s_state (sess sm a) = Lost"
    using reconnect_session_spec [OF assms(1,2), of w io] assms(3) by auto
  then have "s_state (sess sm1 a) = Closed" "session_added ?c sid h (s_pty_size (sess sm a)) sm1"
    using reconnect_session_spec [OF assms(1,2), of w io] assms(3) by auto
  moreover from this(2) have "lookup sm1 sid = Some ?b" "s_state (sess sm1 ?b) = Ready"
    using eff by (simp_all add: session_added_def Let_def)
  moreover have "a < length (sm_objs sm1)"
    using assms(2,3) by (auto simp: reconnect_session_def reconnect_begin_def reconnect_open_def new_obj_def
        Let_def get_session_def assms(1) eff map_insert_def split: if_splits sum.splits)
  ultimately show ?thesis
    using stale_call_removes [of ?b a sm1 sid secs now io' data s r] assms(2,4) by (simp add: Let_def)
qed

section \<open>Concrete runs\<close>

definition demo_host :: host where
  "demo_host = \<lparr>h_name = ''web'', h_hostname = ''web.example'', h_user = ''ops'', h_port = 22,
     h_identity_files = [], h_proxy_jump = None, h_user_known_hosts_files = [],
     h_strict_host_key_checking = ''yes''\<rparr>"

definition demo_open_world :: open_world where
  "demo_open_world = \<lparr>ow_resolve = (\<lambda>_. Inr demo_host), ow_password = (\<lambda>_. Inl Cancelled),
     ow_open = (\<lambda>_. Inr SshHandle), ow_now_secs = 0, ow_now_millis = 0\<rparr>"

definition demo_empty :: smgr where
  "demo_empty = smgr_new \<lparr>allowed_local_paths = [], allowed_remote_paths = [''/'']\<rparr>
     (with_default (\<lambda>p l. True)) resolver_empty"

definition demo_sm :: smgr where
  "demo_sm = fst (open_session demo_open_world demo_empty ''web'' None None None)"

definition demo_lost :: smgr where
  "demo_lost = put_sess 0 (read_exit (sess demo_sm 0)) demo_sm"

lemma dec_0 [simp]: "dec 0 = ''0''"
  by code_simp

lemma demo_sm_eq:
  "demo_sm = demo_empty\<lparr>sm_objs := [\<lparr>so_session = session_new 0 0 ''sess_0'' ''web'' default_pty_size,
     so_handle = SshHandle\<rparr>], sm_sessions := [(''sess_0'', 0)], sm_counter := 1\<rparr>"
  by (simp add: demo_sm_def demo_empty_def demo_open_world_def demo_host_def open_session_def
      open_with_def resolve_session_mode_def resolve_auth_mode_def resolver_empty_def resolve_def
      smgr_new_def next_session_id_def new_obj_def map_insert_def validate_auth_session_combo_def
      resolved_default_def or_else_def unwrap_or_def)

lemma demo_reachable: "sm_step\<^sup>*\<^sup>* demo_empty demo_sm"
proof -
  obtain r tr where "open_session demo_open_world demo_empty ''web'' None None None = (demo_sm, r, tr)"
    unfolding demo_sm_def by (metis prod.collapse)
  then show ?thesis by (intro r_into_rtranclp) (rule sm_step.open_step)
qed

lemma demo_lost_eq:
  "demo_lost = demo_sm\<lparr>sm_objs := [\<lparr>so_session = read_exit (session_new 0 0 ''sess_0'' ''web'' default_pty_size),
     so_handle = SshHandle\<rparr>]\<rparr>"
  by (simp add: demo_lost_def demo_sm_eq put_sess_def sess_def)

theorem session_ids_unique_witness:
  "distinct (map fst (sm_sessions demo_sm)) \<and> lookup demo_sm ''sess_0'' = Some 0 \<and>
   s_id (sess demo_sm 0) \<noteq> snd (next_session_id demo_sm)"
proof -
  have "lookup demo_sm ''sess_0'' = Some 0" "0 < length (sm_objs demo_sm)"
    by (simp_all add: demo_sm_eq lookup_def)
  then show ?thesis
    using session_ids_unique [OF demo_reachable [unfolded demo_empty_def]] by blast
qed

lemma demo_denied: "authorize (sm_policy demo_sm) (SendInput ''sess_9'' (from_utf8_lossy [0x6C, 0x73])) = Deny"
proof -
  have "lines (from_utf8_lossy [0x6C, 0x73]) = [''ls'']" "trim ''ls'' = ''ls''" by code_simp+
  moreover have "check_line (\<lambda>p l. True) l = Some Deny" for l
  proof -
    have "last blocklist \<in> set blocklist" by (rule last_in_set) (simp add: blocklist_def)
    then have "\<exists>(desc, p) \<in> set blocklist. True" by (intro bexI [of _ "last blocklist"]) auto
    then show ?thesis unfolding check_line_def by (rule if_P)
  qed
  ultimately show ?thesis
    by (simp add: demo_sm_eq demo_empty_def smgr_new_def with_default_def authorize_def check_send_input_def)
qed

end
