(* ===== verification/Sftp_Ops.thy ===== *)
theory Sftp_Ops
  imports Manager_Run
begin

text \<open>
  The SFTP tools of the session manager and the control interface
  (src/application/sessions.rs).  An SFTP operation returns the calls it makes on the channel, in
  order, beside its result; the server's answers are arguments.
\<close>

section \<open>SFTP operations\<close>

datatype sftp_call =
    DoUpload string string
  | DoDownload string string
  | DoUploadDir string string
  | DoDownloadDir string string
  | DoMkdir string nat
  | DoList string
  | DoRemove string
  | DoRmdir string
  | DoChmod string nat

text \<open>
  The answers: opening the channel, \<open>realpath\<close>, \<open>home\<close>, the local file
  system, and the result of each call.
\<close>

record sftp_world =
  sw_open :: "unit result"
  sw_realpath :: "string \<Rightarrow> string result"
  sw_home :: "string option"
  sw_fs :: "path \<Rightarrow> path option"
  sw_do :: "sftp_call \<Rightarrow> unit result"
  sw_list :: "string \<Rightarrow> (string \<times> bool) list result"

definition remote_roots_for :: "smgr \<Rightarrow> string \<Rightarrow> string list option" where
  "remote_roots_for sm sid =
     (case lookup sm sid of
        None \<Rightarrow> None
      | Some a \<Rightarrow> allowed_remote_paths_for (sm_host_policy sm) (s_host (sess sm a)))"

definition open_sftp_for_session :: "sftp_world \<Rightarrow> smgr \<Rightarrow> string \<Rightarrow> unit result" where
  "open_sftp_for_session w sm sid =
     (case get_session sm sid of
        Inl e \<Rightarrow> Inl e
      | Inr a \<Rightarrow>
          if so_handle (sm_objs sm ! a) \<noteq> SshHandle then Inl (InvalidArgument sid) else sw_open w)"

definition remote_check :: "sftp_world \<Rightarrow> smgr \<Rightarrow> string \<Rightarrow> string \<Rightarrow> remote_operation \<Rightarrow> unit result" where
  "remote_check w sm sid remote op =
     check_remote_access (sm_path_policy sm) (sw_realpath w) (sw_home w) remote op (remote_roots_for sm sid)"

text \<open>\<open>a?; b\<close>.\<close>

definition and_then :: "unit result \<Rightarrow> sftp_call list \<times> unit result \<Rightarrow> sftp_call list \<times> unit result" where
  "and_then r k = (case r of Inl e \<Rightarrow> ([], Inl e) | Inr _ \<Rightarrow> k)"

definition call :: "sftp_world \<Rightarrow> sftp_call \<Rightarrow> sftp_call list \<times> unit result" where
  "call w c = ([c], sw_do w c)"

definition sftp_transfer ::
  "sftp_world \<Rightarrow> smgr \<Rightarrow> string \<Rightarrow> transfer_direction \<Rightarrow> string \<Rightarrow> string \<Rightarrow> sftp_call list \<times> unit result" where
  "sftp_transfer w sm sid direction local remote =
     and_then (check_policy sm (SftpTransfer direction local remote))
       (and_then (open_sftp_for_session w sm sid)
         (and_then (check_local (sw_fs w) (sm_path_policy sm) local)
           (and_then (remote_check w sm sid remote (case direction of Upload \<Rightarrow> Create | Download \<Rightarrow> Read))
             (case direction of
                Upload \<Rightarrow> call w (DoUpload local remote)
              | Download \<Rightarrow> call w (DoDownload remote local)))))"

definition sftp_mkdir :: "sftp_world \<Rightarrow> smgr \<Rightarrow> string \<Rightarrow> string \<Rightarrow> nat \<Rightarrow> sftp_call list \<times> unit result" where
  "sftp_mkdir w sm sid remote mode =
     and_then (open_sftp_for_session w sm sid)
       (and_then (remote_check w sm sid remote Create) (call w (DoMkdir remote mode)))"

definition sftp_list :: "sftp_world \<Rightarrow> smgr \<Rightarrow> string \<Rightarrow> string \<Rightarrow> sftp_call list \<times> unit result" where
  "sftp_list w sm sid remote =
     and_then (open_sftp_for_session w sm sid)
       (and_then (remote_check w sm sid remote Read) (call w (DoList remote)))"

definition MAX_DEPTH :: nat where "MAX_DEPTH = 20"

text \<open>The loop over the entries of a directory, given the removal of one child.\<close>

fun remove_entries ::
  "(string \<Rightarrow> bool \<Rightarrow> sftp_call list \<times> unit result) \<Rightarrow> (string \<times> bool) list \<Rightarrow> sftp_call list \<times> unit result" where
  "remove_entries rm [] = ([], Inr ())"
| "remove_entries rm ((name, is_dir) # es) =
     (case rm name is_dir of
        (cs, Inl e) \<Rightarrow> (cs, Inl e)
      | (cs, Inr _) \<Rightarrow> (let (cs', r) = remove_entries rm es in (cs @ cs', r)))"

definition child_path :: "string \<Rightarrow> string \<Rightarrow> string" where
  "child_path remote name =
     (if suffix [slash] remote then remote @ name else remote @ [slash] @ name)"

text \<open>\<open>left\<close> counts down from \<open>MAX_DEPTH + 1\<close> while the code's depth counts up.\<close>

fun remove_recursive :: "sftp_world \<Rightarrow> nat \<Rightarrow> string \<Rightarrow> sftp_call list \<times> unit result" where
  "remove_recursive w 0 remote = ([], Inl (InvalidArgument remote))"
| "remove_recursive w (Suc left) remote =
     (case sw_list w remote of
        Inl e \<Rightarrow> ([DoList remote], Inl e)
      | Inr entries \<Rightarrow>
          (case remove_entries
                  (\<lambda>name is_dir. if is_dir then remove_recursive w left (child_path remote name)
                                 else call w (DoRemove (child_path remote name)))
                  entries of
             (cs, Inl e) \<Rightarrow> (DoList remote # cs, Inl e)
           | (cs, Inr _) \<Rightarrow> (DoList remote # cs @ [DoRmdir remote], sw_do w (DoRmdir remote))))"

definition sftp_remove_recursive :: "sftp_world \<Rightarrow> string \<Rightarrow> sftp_call list \<times> unit result" where
  "sftp_remove_recursive w remote = remove_recursive w (MAX_DEPTH + 1) remote"

definition sftp_remove :: "sftp_world \<Rightarrow> smgr \<Rightarrow> string \<Rightarrow> string \<Rightarrow> bool \<Rightarrow> sftp_call list \<times> unit result" where
  "sftp_remove w sm sid remote recursive =
     and_then (check_policy sm (SftpRemove remote recursive))
       (and_then (open_sftp_for_session w sm sid)
         (and_then (remote_check w sm sid remote Delete)
           (if recursive then sftp_remove_recursive w remote else call w (DoRemove remote))))"

text \<open>\<open>format!("{mode:o}")\<close>.\<close>

fun oct :: "nat \<Rightarrow> string" where
  "oct n = (if n < 8 then [char_of (48 + n)] else oct (n div 8) @ [char_of (48 + n mod 8)])"

declare oct.simps [simp del]

definition sftp_chmod :: "sftp_world \<Rightarrow> smgr \<Rightarrow> string \<Rightarrow> string \<Rightarrow> nat \<Rightarrow> sftp_call list \<times> unit result" where
  "sftp_chmod w sm sid remote mode =
     and_then (check_policy sm (SftpChmod remote (oct mode)))
       (and_then (open_sftp_for_session w sm sid)
         (and_then (remote_check w sm sid remote Chmod) (call w (DoChmod remote mode))))"

definition sftp_transfer_dir ::
  "sftp_world \<Rightarrow> smgr \<Rightarrow> string \<Rightarrow> transfer_direction \<Rightarrow> string \<Rightarrow> string \<Rightarrow> sftp_call list \<times> unit result" where
  "sftp_transfer_dir w sm sid direction local remote =
     and_then (check_policy sm (SftpTransfer direction local remote))
       (and_then (open_sftp_for_session w sm sid)
         (case direction of
            Upload \<Rightarrow>
              and_then (check_local (sw_fs w) (sm_path_policy sm) local)
                (and_then (remote_check w sm sid remote Create) (call w (DoUploadDir local remote)))
          | Download \<Rightarrow>
              and_then (remote_check w sm sid remote Read)
                (and_then (check_local (sw_fs w) (sm_path_policy sm) local)
                  (call w (DoDownloadDir remote local)))))"

section \<open>Logging helpers and the control interface\<close>

definition escape_newlines :: "string \<Rightarrow> string" where
  "escape_newlines s =
     concat (map (\<lambda>c. if c = newline then [CHR 0x5C, CHR ''n''] else if c = cr then [CHR 0x5C, CHR ''r''] else [c]) s)"

definition truncate_for_log :: "bytes \<Rightarrow> nat \<Rightarrow> string" where
  "truncate_for_log data max_chars =
     (let s = from_utf8_lossy data
      in escape_newlines (if chars_count s > max_chars then chars_take max_chars s @ ''...'' else s))"

definition read_mode_name :: "read_output_params \<Rightarrow> string" where
  "read_mode_name params =
     (if ro_since_cursor params \<noteq> None then ''since_cursor''
      else if ro_tail_lines params \<noteq> None then ''tail''
      else if ro_wait_for params \<noteq> None then ''wait_for''
      else ''settle'')"

record session_control_info =
  ci_id :: string
  ci_host :: string
  ci_state :: string
  ci_approval_mode :: string

definition control_info :: "session \<Rightarrow> session_control_info" where
  "control_info s =
     \<lparr>ci_id = s_id s, ci_host = s_host s, ci_state = state_lower (s_state s),
      ci_approval_mode = approval_as_str (s_approval_mode s)\<rparr>"

definition control_list_sessions :: "smgr \<Rightarrow> session_control_info list" where
  "control_list_sessions sm = map (\<lambda>p. control_info (sess sm (snd p))) (sm_sessions sm)"

definition control_get_session :: "smgr \<Rightarrow> string \<Rightarrow> session_control_info option" where
  "control_get_session sm sid = map_option (\<lambda>a. control_info (sess sm a)) (lookup sm sid)"

record control_error =
  ce_code :: string
  ce_message :: string

definition control_err :: "string \<Rightarrow> string \<Rightarrow> control_error" where
  "control_err c msg = \<lparr>ce_code = c, ce_message = msg\<rparr>"

definition invalid_mode :: "string \<Rightarrow> control_error" where
  "invalid_mode mode =
     (let q = (\<lambda>s. CHR 0x27 # s @ [CHR 0x27])
      in control_err ''INVALID_ARGUMENT''
           (''invalid mode '' @ q mode @ ''; expected '' @ q ''standard'' @ '' or '' @ q ''unrestricted''))"

text \<open>The only error of the inner call is the unknown session.\<close>

definition control_set_approval_mode :: "smgr \<Rightarrow> string \<Rightarrow> string \<Rightarrow> smgr \<times> (control_error + unit)" where
  "control_set_approval_mode sm sid mode =
     (if mode = ''standard'' \<or> mode = ''unrestricted'' then
        (case smgr_set_approval_mode sm sid (if mode = ''standard'' then Standard else Unrestricted) of
           (sm', Inr _) \<Rightarrow> (sm', Inr ())
         | (sm', Inl e) \<Rightarrow> (sm', Inl (control_err ''SESSION_ERROR'' (''session not found: '' @ sid))))
      else (sm, Inl (invalid_mode mode)))"

section \<open>Nothing happens unchecked\<close>

lemma and_then_calls: "fst (and_then r k) \<noteq> [] \<Longrightarrow> r = Inr () \<and> fst k \<noteq> []"
  by (auto simp: and_then_def split: sum.splits)

lemma and_then_ok: "snd (and_then r k) = Inr () \<longleftrightarrow> r = Inr () \<and> snd k = Inr ()"
  by (auto simp: and_then_def split: sum.splits)

lemma check_policy_ok:
  "check_policy sm a = Inr () \<longleftrightarrow> authorize_with_approval (sm_policy sm) a (approval_for sm a) = Allow"
  by (auto simp: check_policy_def split: decision.splits)

lemma approval_sftp: "\<not> (\<exists>i d. a = SendInput i d) \<Longrightarrow> approval_for sm a = Standard"
  by (cases a) (simp_all add: approval_for_def)

lemma authorize_standard: "authorize_with_approval mgr a Standard = authorize mgr a"
  by (cases "authorize mgr a") (simp_all add: authorize_with_approval_def)

text \<open>
  No SFTP tool touches the server before its checks: if a transfer, a removal or a mode change makes any
  call, then the policy chain allowed the action without regard to the session's approval mode, and
  the path policy admitted the remote path for the operation under the host's roots.
\<close>

lemma sftp_calls_checked:
  "(fst (sftp_transfer w sm sid direction local remote) = [] \<or>
      authorize (sm_policy sm) (SftpTransfer direction local remote) = Allow \<and>
      check_local (sw_fs w) (sm_path_policy sm) local = Inr () \<and>
      remote_check w sm sid remote (case direction of Upload \<Rightarrow> Create | Download \<Rightarrow> Read) = Inr ()) \<and>
   (fst (sftp_transfer_dir w sm sid direction local remote) = [] \<or>
      authorize (sm_policy sm) (SftpTransfer direction local remote) = Allow \<and>
      check_local (sw_fs w) (sm_path_policy sm) local = Inr () \<and>
      remote_check w sm sid remote (case direction of Upload \<Rightarrow> Create | Download \<Rightarrow> Read) = Inr ()) \<and>
   (fst (sftp_remove w sm sid remote recursive) = [] \<or>
      authorize (sm_policy sm) (SftpRemove remote recursive) = Allow \<and>
      remote_check w sm sid remote Delete = Inr ()) \<and>
   (fst (sftp_chmod w sm sid remote mode) = [] \<or>
      authorize (sm_policy sm) (SftpChmod remote (oct mode)) = Allow \<and>
      remote_check w sm sid remote Chmod = Inr ())"
  by (auto simp: sftp_transfer_def sftp_transfer_dir_def sftp_remove_def sftp_chmod_def check_policy_ok
      approval_sftp authorize_standard dest!: and_then_calls split: transfer_direction.splits)

lemma check_policy_error:
  "check_policy sm a \<noteq> Inr () \<Longrightarrow> \<exists>m. check_policy sm a \<in> {Inl (PolicyDenied m), Inl (PolicyNeedsConfirm m)}"
  by (auto simp: check_policy_def split: decision.splits)

text \<open>
  Under the default policy chain no removal is ever carried out: \<open>sftp_remove\<close> answers with a
  policy error and makes no call, for every path, session and approval mode.
\<close>

lemma default_policy_never_removes:
  assumes "sm_policy sm = with_default is_match"
  shows "fst (sftp_remove w sm sid remote recursive) = [] \<and>
    (\<exists>m. snd (sftp_remove w sm sid remote recursive) \<in> {Inl (PolicyDenied m), Inl (PolicyNeedsConfirm m)})"
proof -
  have "check_sftp_remove remote recursive \<noteq> Allow" by (simp add: check_sftp_remove_def Let_def)
  then have "authorize (sm_policy sm) (SftpRemove remote recursive) \<noteq> Allow"
    using assms by (simp add: with_default_def authorize_def split: decision.split)
  then have "check_policy sm (SftpRemove remote recursive) \<noteq> Inr ()"
    by (simp add: check_policy_ok approval_sftp authorize_standard)
  from check_policy_error [OF this] obtain m
    where "check_policy sm (SftpRemove remote recursive) \<in> {Inl (PolicyDenied m), Inl (PolicyNeedsConfirm m)}" ..
  then show ?thesis by (auto simp: sftp_remove_def and_then_def)
qed

end
