(* ===== verification/Sftp_Client.thy ===== *)
theory Sftp_Client
  imports Actions Decimal
begin

text \<open>
  The SFTP provider (src/infrastructure/sftp.rs): single-file transfers through temporary files, the
  small operations, and recursive transfers of directories.  Operations are programs over theory
  \<open>Actions\<close>; the answers of the SFTP server and of the local file system are arguments.
\<close>

section \<open>Actions and answers\<close>

text \<open>Actions on the server begin with \<open>S\<close>, on the local file system with \<open>L\<close>.\<close>

datatype faction =
    SChannel
  | SSubsystem string
  | SSession
  | SClose
  | SCreate string
  | SOpen string
  | SCopyUp string string
  | SFlush
  | SShutdown
  | SStat string
  | SRename string string
  | SRemove string
  | SMkdir string
  | SRmdir string
  | SSetPerm string u32
  | SReadDir string
  | SRealpath string
  | LStat string
  | LOpen string
  | LCreate string
  | LCopyDown string string
  | LSync string
  | LRename string string
  | LRemove string
  | LMkdirAll string
  | LReadDir string

type_synonym fhist = "faction list"

text \<open>russh-sftp's errors: the status codes the program distinguishes, and errors without one.\<close>

datatype status_code = NoSuchFile | PermissionDenied | Failure | OtherStatus

datatype sftp_lib_error = Status status_code string | NoStatus string

record remote_entry =
  re_name :: string
  re_is_dir :: bool
  re_is_file :: bool
  re_size :: u64
  re_permissions :: "u32 option"

datatype file_type = Symlink | Dir | File | Special

text \<open>
  \<open>fw_s\<close> and \<open>fw_l\<close> are the error an action on the server or on the local file system gives,
  if any; the history an answer depends on ends with the action.
\<close>

record file_world =
  fw_s :: "fhist \<Rightarrow> sftp_lib_error option"
  fw_l :: "fhist \<Rightarrow> string option"
  fw_stat_len :: "fhist \<Rightarrow> u64"
  fw_local_len :: "fhist \<Rightarrow> u64"
  fw_local_is_dir :: "fhist \<Rightarrow> bool"
  fw_list :: "fhist \<Rightarrow> remote_entry list"
  fw_local_list :: "fhist \<Rightarrow> (string + string \<times> file_type) list"
  fw_realpath :: "fhist \<Rightarrow> string"
  fw_pid :: nat
  fw_millis :: "fhist \<Rightarrow> nat"
  fw_join :: "string \<Rightarrow> string \<Rightarrow> string"

type_synonym 'x sftp = "(faction, 'x) prog"

definition map_sftp_error :: "sftp_lib_error \<Rightarrow> string \<Rightarrow> term_error" where
  "map_sftp_error e context =
     (case e of
        Status NoSuchFile _ \<Rightarrow> SftpNoSuchFile context
      | Status PermissionDenied _ \<Rightarrow> SftpPermissionDenied context
      | _ \<Rightarrow> SftpError context)"

definition remote_do :: "file_world \<Rightarrow> faction \<Rightarrow> (sftp_lib_error \<Rightarrow> term_error) \<Rightarrow> unit sftp" where
  "remote_do w a err = ask a (\<lambda>l. case fw_s w l of None \<Rightarrow> Inr () | Some e \<Rightarrow> Inl (err e))"

definition local_do :: "file_world \<Rightarrow> faction \<Rightarrow> unit sftp" where
  "local_do w a = ask a (\<lambda>l. case fw_l w l of None \<Rightarrow> Inr () | Some e \<Rightarrow> Inl (Io e))"

definition remote_plain :: "file_world \<Rightarrow> faction \<Rightarrow> string \<Rightarrow> unit sftp" where
  "remote_plain w a context = remote_do w a (\<lambda>_. SftpError context)"

definition remote_mapped :: "file_world \<Rightarrow> faction \<Rightarrow> string \<Rightarrow> unit sftp" where
  "remote_mapped w a context = remote_do w a (\<lambda>e. map_sftp_error e context)"

text \<open>\<open>to_string_lossy\<close> of a local name.\<close>

definition lossy :: "string \<Rightarrow> string" where
  "lossy name = from_utf8_lossy (str_bytes name)"

section \<open>Opening and closing the channel\<close>

definition sftp_open :: "file_world \<Rightarrow> unit sftp" where
  "sftp_open w =
     rbind (remote_plain w SChannel ''channel_open_session'') (\<lambda>_.
     rbind (remote_plain w (SSubsystem ''sftp'') ''request_subsystem(sftp)'') (\<lambda>_.
       remote_plain w SSession ''SftpSession::new''))"

definition sftp_close :: "file_world \<Rightarrow> unit sftp" where
  "sftp_close w = remote_plain w SClose ''sftp close''"

section \<open>Uploading a file\<close>

definition tmp_suffix :: "file_world \<Rightarrow> nat \<Rightarrow> string" where
  "tmp_suffix w millis = ''.termbridge-tmp-'' @ dec (fw_pid w) @ ''-'' @ dec millis"

definition remote_tmp_path :: "file_world \<Rightarrow> nat \<Rightarrow> string \<Rightarrow> string" where
  "remote_tmp_path w millis remote =
     (let (parent, name) = (case rsplit_once CHR ''/'' remote of
                              Some (p, n) \<Rightarrow> (p @ ''/'', n) | None \<Rightarrow> ([], remote))
      in parent @ name @ tmp_suffix w millis)"

text \<open>The fallback for a server that does not rename onto an existing file.\<close>

definition replace_remote_file :: "file_world \<Rightarrow> string \<Rightarrow> string \<Rightarrow> unit sftp" where
  "replace_remote_file w tmp remote l =
     (let l = l @ [SRename tmp remote]
      in case fw_s w l of
           None \<Rightarrow> (l, Inr ())
         | Some (Status Failure _) \<Rightarrow>
             rbind (remote_mapped w (SRemove remote) remote)
               (\<lambda>_. remote_mapped w (SRename tmp remote) remote) l
         | Some e \<Rightarrow> (l, Inl (map_sftp_error e remote)))"

definition check_size :: "file_world \<Rightarrow> u64 \<Rightarrow> string \<Rightarrow> string \<Rightarrow> unit sftp" where
  "check_size w local_size tmp remote l =
     (if fw_stat_len w l \<noteq> local_size then (l, Inl (SftpError remote)) else (l, Inr ()))"

definition upload_body :: "file_world \<Rightarrow> string \<Rightarrow> string \<Rightarrow> string \<Rightarrow> u64 \<Rightarrow> unit sftp" where
  "upload_body w local tmp remote local_size =
     rbind (remote_plain w (SCreate tmp) tmp) (\<lambda>_.
     rbind (remote_plain w (SCopyUp local tmp) tmp) (\<lambda>_.
     rbind (remote_plain w SFlush tmp) (\<lambda>_.
     rbind (remote_plain w SShutdown tmp) (\<lambda>_.
     rbind (remote_mapped w (SStat tmp) tmp) (\<lambda>_.
     rbind (check_size w local_size tmp remote) (\<lambda>_.
       replace_remote_file w tmp remote))))))"

definition upload :: "file_world \<Rightarrow> string \<Rightarrow> string \<Rightarrow> unit sftp" where
  "upload w local remote =
     rbind (local_do w (LStat local)) (\<lambda>_ l.
       let local_size = fw_local_len w l; tmp = remote_tmp_path w (fw_millis w l) remote
       in rbind (local_do w (LOpen local)) (\<lambda>_.
            rcase (upload_body w local tmp remote local_size)
              (\<lambda>e. rignore (remote_plain w (SRemove tmp) tmp) (ret (Inl e)))
              (\<lambda>_. ret (Inr ()))) l)"

section \<open>Downloading a file\<close>

definition local_tmp_path :: "file_world \<Rightarrow> nat \<Rightarrow> string \<Rightarrow> string" where
  "local_tmp_path w millis local = lossy local @ tmp_suffix w millis"

definition download_body :: "file_world \<Rightarrow> string \<Rightarrow> string \<Rightarrow> string \<Rightarrow> unit sftp" where
  "download_body w remote tmp local =
     rbind (remote_plain w (SOpen remote) remote) (\<lambda>_.
     rbind (local_do w (LCreate tmp)) (\<lambda>_.
     rbind (remote_plain w (LCopyDown remote tmp) remote) (\<lambda>_.
     rbind (remote_plain w SShutdown remote) (\<lambda>_.
     rbind (local_do w (LSync tmp)) (\<lambda>_.
       local_do w (LRename tmp local))))))"

definition download :: "file_world \<Rightarrow> string \<Rightarrow> string \<Rightarrow> unit sftp" where
  "download w remote local l =
     (let tmp = local_tmp_path w (fw_millis w l) local
      in rcase (download_body w remote tmp local)
           (\<lambda>e. rignore (local_do w (LRemove tmp)) (ret (Inl e)))
           (\<lambda>_. ret (Inr ())) l)"

section \<open>Small operations\<close>

definition mkdir :: "file_world \<Rightarrow> string \<Rightarrow> u32 \<Rightarrow> unit sftp" where
  "mkdir w remote mode =
     rbind (remote_mapped w (SMkdir remote) remote) (\<lambda>_.
       if mode \<noteq> 0 then remote_mapped w (SSetPerm remote mode) remote else ret (Inr ()))"

definition rmdir :: "file_world \<Rightarrow> string \<Rightarrow> unit sftp" where
  "rmdir w remote = remote_mapped w (SRmdir remote) remote"

definition remove_file :: "file_world \<Rightarrow> string \<Rightarrow> unit sftp" where
  "remove_file w remote = remote_mapped w (SRemove remote) remote"

definition chmod :: "file_world \<Rightarrow> string \<Rightarrow> u32 \<Rightarrow> unit sftp" where
  "chmod w remote mode = remote_mapped w (SSetPerm remote mode) remote"

definition list_dir :: "file_world \<Rightarrow> string \<Rightarrow> remote_entry list sftp" where
  "list_dir w remote =
     rbind (remote_mapped w (SReadDir remote) remote) (\<lambda>_ l. (l, Inr (fw_list w l)))"

definition canonicalize :: "file_world \<Rightarrow> string \<Rightarrow> string sftp" where
  "canonicalize w path =
     rbind (remote_mapped w (SRealpath path) path) (\<lambda>_ l. (l, Inr (fw_realpath w l)))"

text \<open>\<open>home\<close>: the answer, to be cached for the channel; \<open>cached\<close> is what an earlier call got.\<close>

definition sftp_home :: "file_world \<Rightarrow> string option option \<Rightarrow> string option sftp" where
  "sftp_home w cached =
     (case cached of
        Some h \<Rightarrow> ret (Inr h)
      | None \<Rightarrow>
          rcase (canonicalize w ''~'') (\<lambda>_. ret (Inr None))
            (\<lambda>h. let h = trim_end_char CHR ''/'' h in ret (Inr (if h = [] then None else Some h))))"

section \<open>Making directories\<close>

text \<open>The loop over the components: the path so far, whether a component came before.\<close>

definition mkdir_step :: "file_world \<Rightarrow> string \<Rightarrow> bool \<Rightarrow> u32 \<Rightarrow> unit sftp" where
  "mkdir_step w current is_last mode l =
     (let l = l @ [SStat current]
      in case fw_s w l of
           None \<Rightarrow> (l, Inr ())
         | Some (Status NoSuchFile _) \<Rightarrow>
             rbind (remote_mapped w (SMkdir current) current) (\<lambda>_.
               if is_last \<and> mode \<noteq> 0
               then rignore (remote_plain w (SSetPerm current mode) current) (ret (Inr ()))
               else ret (Inr ())) l
         | Some e \<Rightarrow> (l, Inl (map_sftp_error e current)))"

fun mkdir_loop :: "file_world \<Rightarrow> string option \<Rightarrow> bool \<Rightarrow> u32 \<Rightarrow> string list \<Rightarrow> unit sftp" where
  "mkdir_loop w so_far absolute mode [] = ret (Inr ())"
| "mkdir_loop w so_far absolute mode (c # cs) =
     (let current = (case so_far of
                       None \<Rightarrow> if absolute then ''/'' @ c else c
                     | Some p \<Rightarrow> p @ ''/'' @ c)
      in rbind (mkdir_step w current (cs = []) mode)
           (\<lambda>_. mkdir_loop w (Some current) absolute mode cs))"

definition components :: "string \<Rightarrow> string list" where
  "components s = filter (\<lambda>c. c \<noteq> []) (split_on CHR ''/'' s)"

definition mkdir_p :: "file_world \<Rightarrow> string \<Rightarrow> u32 \<Rightarrow> unit sftp" where
  "mkdir_p w remote mode =
     (let trimmed = trim_end_char CHR ''/'' remote
      in if trimmed = [] then ret (Inr ())
         else mkdir_loop w None (prefix ''/'' trimmed) mode (components trimmed))"

section \<open>Directories\<close>

record skipped_entry =
  se_name :: string
  se_reason :: string

record dir_report =
  dr_files :: nat
  dr_skipped :: "skipped_entry list"

definition skip :: "string \<Rightarrow> string \<Rightarrow> dir_report \<Rightarrow> dir_report" where
  "skip name reason r = r\<lparr>dr_skipped := dr_skipped r @ [\<lparr>se_name = name, se_reason = reason\<rparr>]\<rparr>"

definition count_file :: "dir_report \<Rightarrow> dir_report" where
  "count_file r = r\<lparr>dr_files := dr_files r + 1\<rparr>"

definition add_sub :: "dir_report \<Rightarrow> dir_report \<Rightarrow> dir_report" where
  "add_sub sub r = \<lparr>dr_files = dr_files r + dr_files sub, dr_skipped = dr_skipped r @ dr_skipped sub\<rparr>"

definition no_files :: dir_report where
  "no_files = \<lparr>dr_files = 0, dr_skipped = []\<rparr>"

definition remote_child :: "string \<Rightarrow> string \<Rightarrow> string" where
  "remote_child remote_dir name = (if suffix ''/'' remote_dir then remote_dir @ name else remote_dir @ ''/'' @ name)"

definition DIR_MAX_DEPTH :: nat where "DIR_MAX_DEPTH = 20"

text \<open>The loop over the local entries, given the upload of a subdirectory.\<close>

fun upload_entries ::
  "file_world \<Rightarrow> (string \<Rightarrow> string \<Rightarrow> dir_report sftp) \<Rightarrow> string \<Rightarrow> string \<Rightarrow>
   (string + string \<times> file_type) list \<Rightarrow> dir_report \<Rightarrow> dir_report sftp" where
  "upload_entries w sub local_dir remote_dir [] r = ret (Inr r)"
| "upload_entries w sub local_dir remote_dir (e # es) r =
     (case e of
        Inl err \<Rightarrow> ret (Inl (Io err))
      | Inr (name, ft) \<Rightarrow>
          (let lc = fw_join w local_dir name; rc = remote_child remote_dir (lossy name)
           in case ft of
                Symlink \<Rightarrow> upload_entries w sub local_dir remote_dir es (skip (lossy name) ''symlink'' r)
              | Dir \<Rightarrow> rbind (sub lc rc)
                         (\<lambda>s. upload_entries w sub local_dir remote_dir es (add_sub s r))
              | File \<Rightarrow> rbind (upload w lc rc)
                          (\<lambda>_. upload_entries w sub local_dir remote_dir es (count_file r))
              | Special \<Rightarrow> upload_entries w sub local_dir remote_dir es r))"

text \<open>\<open>left\<close> counts down from \<open>DIR_MAX_DEPTH + 1\<close> while the code's depth counts up.\<close>

fun upload_dir_inner :: "file_world \<Rightarrow> nat \<Rightarrow> string \<Rightarrow> string \<Rightarrow> dir_report sftp" where
  "upload_dir_inner w 0 local_dir remote_dir = ret (Inl (InvalidArgument remote_dir))"
| "upload_dir_inner w (Suc left) local_dir remote_dir =
     rbind (local_do w (LStat local_dir)) (\<lambda>_ l.
       if \<not> fw_local_is_dir w l then (l, Inl (InvalidArgument local_dir))
       else rbind (mkdir_p w remote_dir 0) (\<lambda>_.
            rbind (local_do w (LReadDir local_dir)) (\<lambda>_ l.
              upload_entries w (upload_dir_inner w left) local_dir remote_dir (fw_local_list w l) no_files l)) l)"

definition upload_dir :: "file_world \<Rightarrow> string \<Rightarrow> string \<Rightarrow> dir_report sftp" where
  "upload_dir w local_dir remote_dir = upload_dir_inner w (DIR_MAX_DEPTH + 1) local_dir remote_dir"

text \<open>\<open>char::is_control\<close> on UTF-8: the ASCII controls, and the C1 controls in two bytes.\<close>

fun has_control :: "string \<Rightarrow> bool" where
  "has_control [] = False"
| "has_control [c] = (of_char c < (0x20 :: nat) \<or> c = CHR 0x7F)"
| "has_control (c # d # s) =
     (of_char c < (0x20 :: nat) \<or> c = CHR 0x7F \<or> (c = CHR 0xC2 \<and> of_char d < (0xA0 :: nat)) \<or> has_control (d # s))"

definition RESERVED :: "string list" where
  "RESERVED = [''CON'', ''PRN'', ''AUX'', ''NUL'', ''COM1'', ''COM2'', ''COM3'', ''COM4'', ''COM5'', ''COM6'', ''COM7'',
     ''COM8'', ''COM9'', ''LPT1'', ''LPT2'', ''LPT3'', ''LPT4'', ''LPT5'', ''LPT6'', ''LPT7'', ''LPT8'', ''LPT9'']"

definition in_quotes :: "string \<Rightarrow> string" where
  "in_quotes s = CHR 0x27 # s @ [CHR 0x27]"

definition validate_local_entry_name :: "string \<Rightarrow> string + unit" where
  "validate_local_entry_name name =
     (if name = [] then Inl ''empty name''
      else if name = ''.'' \<or> name = ''..'' then Inl (''relative path component '' @ in_quotes name)
      else if CHR 0x5C \<in> set name then Inl ''contains backslash''
      else if CHR ''/'' \<in> set name then Inl ''contains slash''
      else if CHR '':'' \<in> set name then Inl ''contains colon (NTFS alternate data stream)''
      else if has_control name then Inl ''contains control characters''
      else if suffix ''.'' name \<or> suffix '' '' name then Inl ''ends with dot or space''
      else let stem = takeWhile (\<lambda>c. c \<noteq> CHR ''.'') name
           in if list_ex (\<lambda>r. to_ascii_lowercase stem = to_ascii_lowercase r) RESERVED
              then Inl (''reserved device name '' @ in_quotes stem) else Inr ())"

fun download_entries ::
  "file_world \<Rightarrow> (string \<Rightarrow> string \<Rightarrow> dir_report sftp) \<Rightarrow> string \<Rightarrow> string \<Rightarrow>
   remote_entry list \<Rightarrow> dir_report \<Rightarrow> dir_report sftp" where
  "download_entries w sub remote_dir local_dir [] r = ret (Inr r)"
| "download_entries w sub remote_dir local_dir (e # es) r =
     (case validate_local_entry_name (re_name e) of
        Inl reason \<Rightarrow>
          download_entries w sub remote_dir local_dir es (skip (re_name e) (''invalid local filename: '' @ reason) r)
      | Inr _ \<Rightarrow>
          (let rc = remote_child remote_dir (re_name e); lc = fw_join w local_dir (re_name e)
           in if re_is_dir e
              then rbind (sub rc lc) (\<lambda>s. download_entries w sub remote_dir local_dir es (add_sub s r))
              else if re_is_file e
              then rbind (download w rc lc) (\<lambda>_. download_entries w sub remote_dir local_dir es (count_file r))
              else download_entries w sub remote_dir local_dir es
                     (skip (re_name e) ''not a regular file or directory'' r)))"

fun download_dir_inner :: "file_world \<Rightarrow> nat \<Rightarrow> string \<Rightarrow> string \<Rightarrow> dir_report sftp" where
  "download_dir_inner w 0 remote_dir local_dir = ret (Inl (InvalidArgument remote_dir))"
| "download_dir_inner w (Suc left) remote_dir local_dir =
     rbind (local_do w (LMkdirAll local_dir)) (\<lambda>_.
     rbind (list_dir w remote_dir) (\<lambda>entries.
       download_entries w (download_dir_inner w left) remote_dir local_dir entries no_files))"

definition download_dir :: "file_world \<Rightarrow> string \<Rightarrow> string \<Rightarrow> dir_report sftp" where
  "download_dir w remote_dir local_dir = download_dir_inner w (DIR_MAX_DEPTH + 1) remote_dir local_dir"

section \<open>What an upload leaves\<close>

text \<open>The temporary file lies beside its target.\<close>

lemma remote_tmp_path_eq: "remote_tmp_path w m remote = remote @ tmp_suffix w m"
  by (auto simp: remote_tmp_path_def dest!: rsplit_once_Some split: option.split)

lemma remote_tmp_path_neq: "remote_tmp_path w m remote \<noteq> remote"
  by (simp add: remote_tmp_path_eq tmp_suffix_def)

text \<open>
  What the program relies on of a server's files: \<open>content l p\<close> is what file \<open>p\<close> holds
  once the server has dealt with the actions \<open>l\<close>.  An action touches only the files it names; a rename or removal that the server
  refuses with a status leaves them as they were, while one that failed without a status, as when the answer timed out, may have been
  done or not; a rename moves; a removal removes; the size a status reports is the
  file's; and copying stores some bytes, whatever its outcome.
\<close>

definition touches :: "faction \<Rightarrow> string set" where
  "touches a = (case a of SCreate p \<Rightarrow> {p} | SCopyUp _ p \<Rightarrow> {p} | SRename p q \<Rightarrow> {p, q} | SRemove p \<Rightarrow> {p} | _ \<Rightarrow> {})"

definition server_laws :: "file_world \<Rightarrow> (fhist \<Rightarrow> string \<Rightarrow> bytes option) \<Rightarrow> bool" where
  "server_laws w content \<longleftrightarrow>
     (\<forall>l a p. p \<notin> touches a \<longrightarrow> content (l @ [a]) p = content l p) \<and>
     (\<forall>l p q c m. fw_s w (l @ [SRename p q]) = Some (Status c m) \<longrightarrow> content (l @ [SRename p q]) = content l) \<and>
     (\<forall>l p c m. fw_s w (l @ [SRemove p]) = Some (Status c m) \<longrightarrow> content (l @ [SRemove p]) = content l) \<and>
     (\<forall>l p q m. p \<noteq> q \<longrightarrow> fw_s w (l @ [SRename p q]) = Some (NoStatus m) \<longrightarrow>
        content (l @ [SRename p q]) = content l \<or> content (l @ [SRename p q]) = (content l)(q := content l p, p := None)) \<and>
     (\<forall>l p m. fw_s w (l @ [SRemove p]) = Some (NoStatus m) \<longrightarrow>
        content (l @ [SRemove p]) p = content l p \<or> content (l @ [SRemove p]) p = None) \<and>
     (\<forall>l p q. p \<noteq> q \<longrightarrow> fw_s w (l @ [SRename p q]) = None \<longrightarrow>
        content (l @ [SRename p q]) = (content l)(q := content l p, p := None)) \<and>
     (\<forall>l p. fw_s w (l @ [SRemove p]) = None \<longrightarrow> content (l @ [SRemove p]) p = None) \<and>
     (\<forall>l p. fw_s w (l @ [SStat p]) = None \<longrightarrow>
        (\<exists>d. content (l @ [SStat p]) p = Some d \<and> of_nat (length d) = fw_stat_len w (l @ [SStat p])))"

lemma law_untouched: "server_laws w content \<Longrightarrow> p \<notin> touches a \<Longrightarrow> content (l @ [a]) p = content l p"
  by (simp add: server_laws_def)

lemma law_refused:
  assumes "server_laws w content"
  shows "fw_s w (l @ [SRename p q]) = Some (Status c m) \<Longrightarrow> content (l @ [SRename p q]) = content l"
    "fw_s w (l @ [SRemove p]) = Some (Status c m) \<Longrightarrow> content (l @ [SRemove p]) = content l"
  using assms by (simp_all add: server_laws_def)

lemma law_failed_rename:
  assumes "server_laws w content" "p \<noteq> q" "fw_s w (l @ [SRename p q]) = Some e"
  shows "content (l @ [SRename p q]) q = content l q \<or> (\<exists>m. e = NoStatus m) \<and> content (l @ [SRename p q]) q = content l p"
proof (cases e)
  case (Status c m)
  then show ?thesis using law_refused(1) [OF assms(1)] assms(3) by simp
next
  case (NoStatus m)
  then have "content (l @ [SRename p q]) = content l \<or> content (l @ [SRename p q]) = (content l)(q := content l p, p := None)"
    using assms by (simp add: server_laws_def)
  then show ?thesis using assms(2) NoStatus by auto
qed

lemma law_failed_remove:
  assumes "server_laws w content" "fw_s w (l @ [SRemove p]) = Some e"
  shows "content (l @ [SRemove p]) p = content l p \<or> (\<exists>m. e = NoStatus m) \<and> content (l @ [SRemove p]) p = None"
  using assms law_refused(2) [OF assms(1)] by (cases e) (auto simp: server_laws_def)

lemma law_rename:
  "server_laws w content \<Longrightarrow> p \<noteq> q \<Longrightarrow> fw_s w (l @ [SRename p q]) = None \<Longrightarrow>
   content (l @ [SRename p q]) = (content l)(q := content l p, p := None)"
  by (simp add: server_laws_def)

lemma law_remove: "server_laws w content \<Longrightarrow> fw_s w (l @ [SRemove p]) = None \<Longrightarrow> content (l @ [SRemove p]) p = None"
  by (simp add: server_laws_def)

lemma law_stat:
  "server_laws w content \<Longrightarrow> fw_s w (l @ [SStat p]) = None \<Longrightarrow>
   \<exists>d. content (l @ [SStat p]) p = Some d \<and> of_nat (length d) = fw_stat_len w (l @ [SStat p])"
  by (simp add: server_laws_def)

lemma untouched_append:
  "server_laws w content \<Longrightarrow> \<forall>a \<in> set xs. p \<notin> touches a \<Longrightarrow> content (l @ xs) p = content l p"
proof (induction xs rule: rev_induct)
  case (snoc a xs)
  then have "content ((l @ xs) @ [a]) p = content (l @ xs) p" by (intro law_untouched) simp_all
  then show ?case using snoc by simp
qed simp

lemmas file_steps = remote_plain_def remote_mapped_def remote_do_def local_do_def rbind_def ask_def act_def ret_def

text \<open>An upload that does not reach the replacement has touched nothing but the temporary file.\<close>

lemma upload_body_cases:
  assumes "upload_body w local tmp remote n l = (l', r)"
  obtains (early) xs e where "l' = l @ xs" "set xs \<subseteq> {SCreate tmp, SCopyUp local tmp, SFlush, SShutdown, SStat tmp}" "r = Inl e"
  | (replace) l5 where "l5 = l @ [SCreate tmp, SCopyUp local tmp, SFlush, SShutdown, SStat tmp]" "fw_s w l5 = None"
      "fw_stat_len w l5 = n" "replace_remote_file w tmp remote l5 = (l', r)"
  using assms
  by (auto simp: upload_body_def file_steps check_size_def split: option.splits if_splits)

lemma replace_cases:
  assumes "replace_remote_file w tmp remote l = (l', r)"
  obtains (direct) "l' = l @ [SRename tmp remote]" "fw_s w l' = None" "r = Inr ()"
  | (refused) e e' where "l' = l @ [SRename tmp remote]" "fw_s w l' = Some e" "r = Inl e'"
  | (kept) m e' e'' where "l' = l @ [SRename tmp remote, SRemove remote]" "fw_s w (l @ [SRename tmp remote]) = Some (Status Failure m)"
      "fw_s w l' = Some e'" "r = Inl e''"
  | (moved) m where "l' = l @ [SRename tmp remote, SRemove remote, SRename tmp remote]"
      "fw_s w (l @ [SRename tmp remote]) = Some (Status Failure m)" "fw_s w l' = None" "r = Inr ()"
  | (lost) m e' e'' where "l' = l @ [SRename tmp remote, SRemove remote, SRename tmp remote]"
      "fw_s w (l @ [SRename tmp remote]) = Some (Status Failure m)" "fw_s w (l @ [SRename tmp remote, SRemove remote]) = None"
      "fw_s w l' = Some e'" "r = Inl e''"
  using assms
  by (auto simp: replace_remote_file_def file_steps Let_def split: option.splits sftp_lib_error.splits status_code.splits)

text \<open>
  What a failed replacement may have left, and what it leaves if every error came with a status.  \<open>removed\<close> says that the removal of
  the target was asked for, after the server had refused to rename onto it.
\<close>

definition removed :: "file_world \<Rightarrow> string \<Rightarrow> string \<Rightarrow> fhist \<Rightarrow> bool" where
  "removed w tmp remote l \<longleftrightarrow>
     (\<exists>l0 xs m. l = l0 @ [SRename tmp remote, SRemove remote] @ xs \<and> fw_s w (l0 @ [SRename tmp remote]) = Some (Status Failure m))"

definition statuses_only :: "file_world \<Rightarrow> fhist \<Rightarrow> bool" where
  "statuses_only w l \<longleftrightarrow> (\<forall>xs m. prefix xs l \<longrightarrow> fw_s w xs \<noteq> Some (NoStatus m))"

lemma removed_append: "removed w tmp remote l \<Longrightarrow> removed w tmp remote (l @ ys)"
  unfolding removed_def by (metis append.assoc)

lemma statuses_only_prefix: "statuses_only w (l @ xs) \<Longrightarrow> statuses_only w l"
  by (auto simp: statuses_only_def)

definition failed_leaves :: "file_world \<Rightarrow> string \<Rightarrow> string \<Rightarrow> bytes option \<Rightarrow> bytes option \<Rightarrow> bytes option \<Rightarrow> fhist \<Rightarrow> bool" where
  "failed_leaves w tmp remote old new now l \<longleftrightarrow>
     (now = old \<or> now = new \<and> new \<noteq> None \<and> \<not> statuses_only w l \<or> now = None \<and> removed w tmp remote l) \<and>
     (statuses_only w l \<longrightarrow> now = old \<or> now = None \<and> (\<exists>l0. l = l0 @ [SRename tmp remote, SRemove remote, SRename tmp remote]))"

lemma not_statuses_only: "fw_s w l = Some (NoStatus m) \<Longrightarrow> \<not> statuses_only w l"
  by (auto simp: statuses_only_def)

lemma replace_outcome:
  assumes laws: "server_laws w content" and ne: "tmp \<noteq> remote" and new: "content l tmp \<noteq> None"
    and run: "replace_remote_file w tmp remote l = (l', r)"
  shows "(r = Inr () \<longrightarrow> content l' remote = content l tmp) \<and>
    (r \<noteq> Inr () \<longrightarrow> failed_leaves w tmp remote (content l remote) (content l tmp) (content l' remote) l')"
  using run
proof (cases rule: replace_cases)
  case direct
  then show ?thesis using law_rename [OF laws ne, of l] ne by simp
next
  case (refused e e')
  then show ?thesis
    using law_failed_rename [OF laws ne, of l e] new not_statuses_only [of w l'] by (auto simp: failed_leaves_def)
next
  case (kept m e' e'')
  have "removed w tmp remote l'" using kept(1,2) by (auto simp: removed_def)
  then show ?thesis
    using kept law_refused(1) [OF laws kept(2)] law_failed_remove [OF laws, of "l @ [SRename tmp remote]" remote e']
      not_statuses_only [of w l'] by (auto simp: failed_leaves_def)
next
  case (moved m)
  let ?l2 = "l @ [SRename tmp remote, SRemove remote]"
  have "content ?l2 tmp = content (l @ [SRename tmp remote]) tmp"
    using law_untouched [OF laws, of tmp "SRemove remote" "l @ [SRename tmp remote]"] ne by (simp add: touches_def)
  then show ?thesis
    using moved ne law_rename [OF laws ne, of ?l2] law_refused(1) [OF laws moved(2)] by simp
next
  case (lost m e' e'')
  let ?l2 = "l @ [SRename tmp remote, SRemove remote]"
  have "removed w tmp remote l'" using lost(1,2) by (auto simp: removed_def)
  moreover have "content ?l2 tmp = content l tmp"
    using law_untouched [OF laws, of tmp "SRemove remote" "l @ [SRename tmp remote]"] ne law_refused(1) [OF laws lost(2)]
    by (simp add: touches_def)
  moreover have "content ?l2 remote = None" using law_remove [OF laws, of "l @ [SRename tmp remote]" remote] lost(3) by simp
  ultimately show ?thesis
    using lost law_failed_rename [OF laws ne, of ?l2 e'] new not_statuses_only [of w l'] by (auto simp: failed_leaves_def)
qed

lemma upload_run_steps:
  assumes "upload w local remote l = (l', r)" "tmp = remote @ tmp_suffix w (fw_millis w (l @ [LStat local]))"
  obtains (no_local) e where "l' = l @ [LStat local] \<or> l' = l @ [LStat local, LOpen local]" "r = Inl e"
  | (ok) "upload_body w local tmp remote (fw_local_len w (l @ [LStat local])) (l @ [LStat local, LOpen local]) = (l', Inr ())"
      "r = Inr ()"
  | (failed) l2 e where
      "upload_body w local tmp remote (fw_local_len w (l @ [LStat local])) (l @ [LStat local, LOpen local]) = (l2, Inl e)"
      "l' = l2 @ [SRemove tmp]" "r = Inl e"
proof -
  let ?l1 = "l @ [LStat local]" and ?l2 = "l @ [LStat local, LOpen local]"
  let ?body = "upload_body w local tmp remote (fw_local_len w ?l1) ?l2"
  have run: "upload w local remote l =
    (case fw_l w ?l1 of Some e \<Rightarrow> (?l1, Inl (Io e)) | None \<Rightarrow>
      (case fw_l w ?l2 of Some e \<Rightarrow> (?l2, Inl (Io e)) | None \<Rightarrow>
        (case ?body of (l3, Inl e) \<Rightarrow> (l3 @ [SRemove tmp], Inl e) | (l3, Inr _) \<Rightarrow> (l3, Inr ()))))"
    by (simp add: upload_def local_do_def remote_plain_def remote_do_def rbind_def rcase_def rignore_def ask_def act_def
        ret_def Let_def remote_tmp_path_eq assms(2) split: option.split)
  obtain l3 r3 where "?body = (l3, r3)" by (cases ?body)
  then show thesis
    using run assms(1) no_local ok failed by (cases r3) (auto split: option.splits)
qed

lemma upload_body_outcome:
  assumes laws: "server_laws w content" and ne: "tmp \<noteq> remote"
    and run: "upload_body w local tmp remote n l = (l', r)"
  shows "(r = Inr () \<longrightarrow> (\<exists>d. content l' remote = Some d \<and> of_nat (length d) = n)) \<and>
    (r \<noteq> Inr () \<longrightarrow> (\<exists>d. of_nat (length d) = n \<and> failed_leaves w tmp remote (content l remote) (Some d) (content l' remote) l')) \<and>
    (\<exists>xs. l' = l @ xs \<and> set xs \<subseteq> {SCreate tmp, SCopyUp local tmp, SFlush, SShutdown, SStat tmp, SRename tmp remote, SRemove remote})"
  using run
proof (cases rule: upload_body_cases)
  case (early xs e)
  then have "content l' remote = content l remote"
    unfolding early(1) using ne by (intro untouched_append [OF laws]) (auto simp: touches_def)
  moreover have "\<exists>d :: bytes. of_nat (length d) = n" by (intro exI [of _ "replicate (unat n) 0"]) simp
  ultimately show ?thesis using early by (auto simp: failed_leaves_def)
next
  case (replace l5)
  have same: "content l5 remote = content l remote"
    unfolding replace(1) using ne by (intro untouched_append [OF laws]) (auto simp: touches_def)
  obtain d where d: "content l5 tmp = Some d" "of_nat (length d) = n"
    using law_stat [OF laws, of "l @ [SCreate tmp, SCopyUp local tmp, SFlush, SShutdown]" tmp] replace(1-3) by auto
  obtain ys where ys: "l' = l5 @ ys" "set ys \<subseteq> {SRename tmp remote, SRemove remote}"
    using replace(4) by (cases rule: replace_cases) auto
  have "l' = l @ [SCreate tmp, SCopyUp local tmp, SFlush, SShutdown, SStat tmp] @ ys" by (simp add: ys(1) replace(1))
  then have "\<exists>xs. l' = l @ xs \<and> set xs \<subseteq> {SCreate tmp, SCopyUp local tmp, SFlush, SShutdown, SStat tmp, SRename tmp remote, SRemove remote}"
    using ys(2) by (intro exI) (rule conjI, assumption, auto)
  then show ?thesis using replace_outcome [OF laws ne _ replace(4)] d unfolding same by (metis option.distinct(1))
qed

text \<open>
  (C8) An upload replaces its target as a whole or leaves it.  On a server that behaves as assumed, an upload that succeeds leaves in the
  target a file of exactly the local file's size.  One that fails leaves the target as it was; or, if some answer was an error without a
  status, possibly the complete new file; or no file, but only when its removal had been asked for because the server refused to
  rename onto it.  If every error came with a status, the only failure that does not leave the target as it was is that of the rename after that
  removal, and then the target is gone.  The target never holds a partial copy, and no other file than the target and the
  temporary file beside it is touched.
\<close>

theorem upload_replaces_or_keeps:
  assumes "server_laws w content" "upload w local remote l = (l', r)"
    and "tmp = remote @ tmp_suffix w (fw_millis w (l @ [LStat local]))" "n = fw_local_len w (l @ [LStat local])"
  shows "(r = Inr () \<longrightarrow> (\<exists>d. content l' remote = Some d \<and> of_nat (length d) = n)) \<and>
    (r \<noteq> Inr () \<longrightarrow>
       content l' remote = content l remote \<or>
       \<not> statuses_only w l' \<and> (\<exists>d. content l' remote = Some d \<and> of_nat (length d) = n) \<or>
       removed w tmp remote l' \<and> content l' remote = None) \<and>
    (r \<noteq> Inr () \<and> statuses_only w l' \<longrightarrow> content l' remote = content l remote \<or>
       content l' remote = None \<and> (\<exists>l0. l' = l0 @ [SRename tmp remote, SRemove remote, SRename tmp remote, SRemove tmp])) \<and>
    (\<forall>p. p \<noteq> remote \<longrightarrow> p \<noteq> tmp \<longrightarrow> content l' p = content l p)"
proof -
  note laws = assms(1)
  have ne: "tmp \<noteq> remote" by (simp add: assms(3) tmp_suffix_def)
  let ?l2 = "l @ [LStat local, LOpen local]"
  have start: "content ?l2 p = content l p" for p
    by (rule untouched_append [OF laws]) (simp add: touches_def)
  have others: "content (l @ xs) p = content l p"
    if "set xs \<subseteq> {LStat local, LOpen local, SCreate tmp, SCopyUp local tmp, SFlush, SShutdown, SStat tmp, SRename tmp remote, SRemove remote, SRemove tmp}"
      "p \<noteq> remote" "p \<noteq> tmp" for xs p
    using that by (intro untouched_append [OF laws]) (auto simp: touches_def)
  note body = upload_body_outcome [OF laws ne, where l = ?l2, unfolded start]
  show ?thesis
    using assms(2,3)
  proof (cases rule: upload_run_steps)
    case (no_local e)
    then show ?thesis using untouched_append [OF laws, of "[LStat local]" _ l] start by (auto simp: touches_def)
  next
    case ok
    from body [OF ok(1)] obtain xs where xs: "l' = ?l2 @ xs"
      "set xs \<subseteq> {SCreate tmp, SCopyUp local tmp, SFlush, SShutdown, SStat tmp, SRename tmp remote, SRemove remote}" by blast
    have "content l' p = content l p" if "p \<noteq> remote" "p \<noteq> tmp" for p
      using others [of "[LStat local, LOpen local] @ xs" p] that xs by auto
    then show ?thesis using body [OF ok(1)] ok(2) assms(4) by blast
  next
    case (failed l2 e)
    have end_: "content l' remote = content l2 remote"
      unfolding failed(2) using ne by (intro law_untouched [OF laws]) (simp add: touches_def)
    from body [OF failed(1)] obtain xs where xs: "l2 = ?l2 @ xs"
      "set xs \<subseteq> {SCreate tmp, SCopyUp local tmp, SFlush, SShutdown, SStat tmp, SRename tmp remote, SRemove remote}" by blast
    have oth: "content l' p = content l p" if "p \<noteq> remote" "p \<noteq> tmp" for p
      using others [of "[LStat local, LOpen local] @ xs @ [SRemove tmp]" p] that xs failed(2) by auto
    obtain d where d: "of_nat (length d) = n" "failed_leaves w tmp remote (content l remote) (Some d) (content l2 remote) l2"
      using body [OF failed(1)] assms(4) by blast
    have "removed w tmp remote l2 \<Longrightarrow> removed w tmp remote l'" "statuses_only w l' \<Longrightarrow> statuses_only w l2"
      unfolding failed(2) by (rule removed_append, assumption, rule statuses_only_prefix)
    then show ?thesis using d oth failed(2,3) unfolding end_ failed_leaves_def by auto
  qed
qed

section \<open>A server\<close>

text \<open>
  A server with files, which refuses to rename onto an existing file, as OpenSSH does, and onto a file
  that \<open>deny\<close> names.
\<close>

type_synonym files = "string \<Rightarrow> bytes option"

definition server_step :: "(string \<Rightarrow> bool) \<Rightarrow> files \<Rightarrow> faction \<Rightarrow> files \<times> sftp_lib_error option" where
  "server_step deny f a =
     (case a of
        SCreate p \<Rightarrow> (f(p \<mapsto> []), None)
      | SCopyUp p q \<Rightarrow> (f(q \<mapsto> [0x78]), None)
      | SStat p \<Rightarrow> (f, if f p = None then Some (Status NoSuchFile ''stat'') else None)
      | SRename p q \<Rightarrow> if f q \<noteq> None \<or> deny q then (f, Some (Status Failure ''rename'')) else (f(q := f p, p := None), None)
      | SRemove p \<Rightarrow> (f(p := None), None)
      | _ \<Rightarrow> (f, None))"

definition server_files :: "(string \<Rightarrow> bool) \<Rightarrow> files \<Rightarrow> fhist \<Rightarrow> files" where
  "server_files deny f l = foldl (\<lambda>f a. fst (server_step deny f a)) f l"

definition server_world :: "(string \<Rightarrow> bool) \<Rightarrow> files \<Rightarrow> file_world" where
  "server_world deny f = \<lparr>
     fw_s = (\<lambda>l. snd (server_step deny (server_files deny f (butlast l)) (last l))), fw_l = (\<lambda>_. None),
     fw_stat_len = (\<lambda>l. case last l of SStat p \<Rightarrow> of_nat (length (the (server_files deny f l p))) | _ \<Rightarrow> 0),
     fw_local_len = (\<lambda>_. 1), fw_local_is_dir = (\<lambda>_. True), fw_list = (\<lambda>_. []), fw_local_list = (\<lambda>_. []),
     fw_realpath = (\<lambda>_. ''/home/ops''), fw_pid = 7, fw_millis = (\<lambda>_. 5), fw_join = (\<lambda>a b. a @ ''/'' @ b)\<rparr>"

lemma server_files_snoc: "server_files deny f (l @ [a]) = fst (server_step deny (server_files deny f l) a)"
  by (simp add: server_files_def)

lemma server_world_laws: "server_laws (server_world deny f) (server_files deny f)"
  unfolding server_laws_def
  by (auto simp: server_files_snoc server_world_def server_step_def touches_def fun_eq_iff
      split: faction.splits if_splits)

definition demo_tmp :: string where
  "demo_tmp = ''/etc/app.conf'' @ tmp_suffix (server_world (\<lambda>_. False) (\<lambda>_. None)) 5"

lemma demo_tmp_eq: "''/etc/app.conf'' @ tmp_suffix (server_world deny f) m = demo_tmp" if "m = 5"
  using that by (simp add: demo_tmp_def tmp_suffix_def server_world_def)

lemma demo_tmp_neq: "demo_tmp \<noteq> ''/etc/app.conf''" "''/etc/app.conf'' \<noteq> demo_tmp"
  by (simp_all add: demo_tmp_def tmp_suffix_def)

lemma server_world_s: "fw_s (server_world deny f) (l @ [a]) = snd (server_step deny (server_files deny f l) a)"
  by (simp add: server_world_def)

lemma server_world_rest:
  "fw_l (server_world deny f) l = None" "fw_local_len (server_world deny f) l = 1" "fw_millis (server_world deny f) l = 5"
  "fw_stat_len (server_world deny f) l = (case last l of SStat p \<Rightarrow> of_nat (length (the (server_files deny f l p))) | _ \<Rightarrow> 0)"
  by (simp_all add: server_world_def)

lemmas demo_server_eval = upload_def upload_body_def replace_remote_file_def check_size_def local_do_def remote_plain_def
  remote_mapped_def remote_do_def rbind_def rcase_def rignore_def ask_def act_def ret_def Let_def remote_tmp_path_eq
  server_world_s server_world_rest server_files_snoc server_step_def demo_tmp_neq map_sftp_error_def

lemma demo_upload_ok:
  "upload (server_world (\<lambda>_. False) (\<lambda>_. None)) ''app.conf'' ''/etc/app.conf'' [] =
    ([LStat ''app.conf'', LOpen ''app.conf'', SCreate demo_tmp, SCopyUp ''app.conf'' demo_tmp, SFlush, SShutdown,
      SStat demo_tmp, SRename demo_tmp ''/etc/app.conf''], Inr ())"
  by (simp add: demo_server_eval demo_tmp_eq server_files_def flip: append_Cons)

theorem upload_replaces_or_keeps_witness:
  "\<exists>d. server_files (\<lambda>_. False) (\<lambda>_. None)
     [LStat ''app.conf'', LOpen ''app.conf'', SCreate demo_tmp, SCopyUp ''app.conf'' demo_tmp, SFlush, SShutdown,
      SStat demo_tmp, SRename demo_tmp ''/etc/app.conf''] ''/etc/app.conf'' = Some d \<and> of_nat (length d) = (1 :: u64)"
  using upload_replaces_or_keeps [OF server_world_laws demo_upload_ok refl refl] by (simp add: server_world_rest)

text \<open>
  A failed upload can lose the file.  On a server that refuses to rename onto a file for another reason
  than that it exists, the target is removed, the second rename fails too, and the clean-up removes
  the new copy: both the old and the new content are gone, although the upload reports an error and
  promises to leave the target alone.
\<close>

lemma failed_upload_loses_target:
  "\<exists>w content l' e. server_laws w content \<and> content [] ''/etc/app.conf'' = Some [0x6F] \<and>
     upload w ''app.conf'' ''/etc/app.conf'' [] = (l', Inl e) \<and>
     content l' ''/etc/app.conf'' = None \<and> content l' demo_tmp = None"
proof -
  let ?deny = "\<lambda>p. p = ''/etc/app.conf''" and ?f = "[''/etc/app.conf'' \<mapsto> [0x6F]]"
  have "upload (server_world ?deny ?f) ''app.conf'' ''/etc/app.conf'' [] =
    ([LStat ''app.conf'', LOpen ''app.conf'', SCreate demo_tmp, SCopyUp ''app.conf'' demo_tmp, SFlush, SShutdown,
      SStat demo_tmp, SRename demo_tmp ''/etc/app.conf'', SRemove ''/etc/app.conf'', SRename demo_tmp ''/etc/app.conf'',
      SRemove demo_tmp], Inl (SftpError ''/etc/app.conf''))" (is "_ = (?l, _)")
    by (simp add: demo_server_eval demo_tmp_eq server_files_def flip: append_Cons)
  moreover have "server_files ?deny ?f ?l ''/etc/app.conf'' = None" "server_files ?deny ?f ?l demo_tmp = None"
    "server_files ?deny ?f [] ''/etc/app.conf'' = Some [0x6F]"
    by (simp_all add: server_files_def server_step_def demo_tmp_neq)
  ultimately show ?thesis using server_world_laws by blast
qed

section \<open>Where a download writes\<close>

lemma acts_in_remote_do [acts_intros]: "P a \<Longrightarrow> acts_in P (remote_do w a err)"
  unfolding remote_do_def by (intro acts_intros)

lemma acts_in_remote_plain [acts_intros]: "P a \<Longrightarrow> acts_in P (remote_plain w a c)"
  unfolding remote_plain_def by (intro acts_intros)

lemma acts_in_remote_mapped [acts_intros]: "P a \<Longrightarrow> acts_in P (remote_mapped w a c)"
  unfolding remote_mapped_def by (intro acts_intros)

lemma acts_in_local_do [acts_intros]: "P a \<Longrightarrow> acts_in P (local_do w a)"
  unfolding local_do_def by (intro acts_intros)

lemma acts_in_pure [acts_intros]: "acts_in P (\<lambda>l. (l, f l))"
  by (simp add: acts_in_def)

lemma acts_in_at: "(\<And>l. acts_in P (f l)) \<Longrightarrow> acts_in P (\<lambda>l. f l l)"
  by (simp add: acts_in_def)

definition safe_name :: "string \<Rightarrow> bool" where
  "safe_name n \<longleftrightarrow> n \<noteq> [] \<and> n \<noteq> ''.'' \<and> n \<noteq> ''..'' \<and> set n \<inter> {CHR ''/'', CHR 0x5C, CHR '':''} = {}"

lemma validate_safe: "validate_local_entry_name n = Inr () \<Longrightarrow> safe_name n"
  by (auto simp: validate_local_entry_name_def safe_name_def Let_def split: if_splits)

text \<open>A path reached from a directory by joining single safe names.\<close>

inductive below :: "file_world \<Rightarrow> string \<Rightarrow> string \<Rightarrow> bool" for w d where
  below_self: "below w d d"
| below_join: "below w d p \<Longrightarrow> safe_name n \<Longrightarrow> below w d (fw_join w p n)"

lemma below_trans: "below w q p \<Longrightarrow> below w d q \<Longrightarrow> below w d p"
  by (induction rule: below.induct) (auto intro: below.intros)

definition tmp_below :: "file_world \<Rightarrow> string \<Rightarrow> string \<Rightarrow> bool" where
  "tmp_below w d p \<longleftrightarrow> (\<exists>q m. below w d q \<and> p = local_tmp_path w m q)"

definition confined :: "file_world \<Rightarrow> string \<Rightarrow> faction \<Rightarrow> bool" where
  "confined w d a =
     (case a of
        LMkdirAll p \<Rightarrow> below w d p
      | LCreate p \<Rightarrow> tmp_below w d p
      | LCopyDown _ p \<Rightarrow> tmp_below w d p
      | LSync p \<Rightarrow> tmp_below w d p
      | LRemove p \<Rightarrow> tmp_below w d p
      | LRename p q \<Rightarrow> tmp_below w d p \<and> below w d q
      | SOpen _ \<Rightarrow> True | SShutdown \<Rightarrow> True | SReadDir _ \<Rightarrow> True
      | _ \<Rightarrow> False)"

lemma confined_trans: "confined w q a \<Longrightarrow> below w d q \<Longrightarrow> confined w d a"
  by (auto simp: confined_def tmp_below_def dest: below_trans split: faction.splits)

lemma download_confined: "acts_in (confined w p) (download w remote p)"
proof -
  have "acts_in (confined w p) (rcase (download_body w remote (local_tmp_path w m p) p)
      (\<lambda>e. rignore (local_do w (LRemove (local_tmp_path w m p))) (ret (Inl e))) (\<lambda>_. ret (Inr ())))" for m
    unfolding download_body_def
    by (intro acts_intros) (auto simp: confined_def tmp_below_def intro: below_self)
  then show ?thesis
    unfolding download_def Let_def by (rule acts_in_at)
qed

lemma download_entries_confined:
  assumes "\<And>rc q. acts_in (confined w q) (sub rc q)"
  shows "acts_in (confined w d) (download_entries w sub rd d es r)"
proof (induction es arbitrary: r)
  case (Cons e es)
  have "acts_in (confined w d) (sub rc (fw_join w d (re_name e)))" "acts_in (confined w d) (download w rc (fw_join w d (re_name e)))"
    if "validate_local_entry_name (re_name e) = Inr ()" for rc
  proof -
    have "below w d (fw_join w d (re_name e))" using validate_safe [OF that] by (intro below.intros)
    then show "acts_in (confined w d) (sub rc (fw_join w d (re_name e)))"
        "acts_in (confined w d) (download w rc (fw_join w d (re_name e)))"
      by (auto intro: acts_in_mono [OF assms] acts_in_mono [OF download_confined] confined_trans)
  qed
  then show ?case using Cons by (auto simp: Let_def intro!: acts_intros split: sum.split)
qed (simp add: acts_intros)

lemma download_dir_inner_confined: "acts_in (confined w d) (download_dir_inner w left rd d)"
proof (induction left arbitrary: rd d)
  case (Suc left)
  have "acts_in (confined w d) (download_entries w (download_dir_inner w left) rd d es r)" for es r
    by (rule download_entries_confined) (rule Suc)
  then show ?case
    by (auto simp: list_dir_def intro!: acts_intros) (auto simp: confined_def intro: below_self)
qed (simp add: acts_intros)

text \<open>
  (C13) A download of a directory stays in its directory.  Whatever names the server lists, at whatever depth,
  everything created, written, renamed or removed on the local file system is the target directory, a
  path reached from it by joining single names without separators, dots or drive colons, or the
  temporary file beside such a path.
\<close>

theorem download_dir_confined:
  assumes "download_dir w remote_dir local_dir l = (l @ xs, r)" "a \<in> set xs"
  shows "confined w local_dir a"
  using acts_in_appends [OF download_dir_inner_confined, of w "DIR_MAX_DEPTH + 1" remote_dir local_dir l "l @ xs" r] assms
  by (auto simp: download_dir_def list_all_iff)

text \<open>A server whose directory lists a name with a separator and an ordinary one.\<close>

definition evil_world :: file_world where
  "evil_world = (server_world (\<lambda>_. False) (\<lambda>_. None))\<lparr>fw_list := \<lambda>l.
     [\<lparr>re_name = ''../.bashrc'', re_is_dir = False, re_is_file = True, re_size = 1, re_permissions = None\<rparr>,
      \<lparr>re_name = ''a'', re_is_dir = False, re_is_file = True, re_size = 1, re_permissions = None\<rparr>]\<rparr>"

lemma evil_world_sel:
  "fw_s evil_world = fw_s (server_world (\<lambda>_. False) (\<lambda>_. None))" "fw_l evil_world = (\<lambda>_. None)"
  "fw_millis evil_world = (\<lambda>_. 5)" "fw_join evil_world a b = a @ ''/'' @ b" "fw_pid evil_world = 7"
  "fw_list evil_world l =
     [\<lparr>re_name = ''../.bashrc'', re_is_dir = False, re_is_file = True, re_size = 1, re_permissions = None\<rparr>,
      \<lparr>re_name = ''a'', re_is_dir = False, re_is_file = True, re_size = 1, re_permissions = None\<rparr>]"
  by (simp_all add: evil_world_def server_world_def)

definition evil_tmp :: string where
  "evil_tmp = local_tmp_path evil_world 5 ''/tmp/d/a''"

lemma demo_names: "validate_local_entry_name ''../.bashrc'' = Inl ''contains slash''" "validate_local_entry_name ''a'' = Inr ()"
  by code_simp+

lemma demo_join: "''/tmp/d'' @ ''/'' @ ''a'' = ''/tmp/d/a''"
  by simp

lemma demo_download_dir:
  "download_dir evil_world ''d'' ''/tmp/d'' [] =
    ([] @ [LMkdirAll ''/tmp/d'', SReadDir ''d'', SOpen ''d/a'', LCreate evil_tmp, LCopyDown ''d/a'' evil_tmp, SShutdown,
       LSync evil_tmp, LRename evil_tmp ''/tmp/d/a''],
     Inr \<lparr>dr_files = 1, dr_skipped = [\<lparr>se_name = ''../.bashrc'', se_reason = ''invalid local filename: contains slash''\<rparr>]\<rparr>)"
  by (simp add: download_dir_def list_dir_def download_def download_body_def evil_world_sel demo_names remote_child_def demo_join
      server_world_s server_files_snoc server_step_def evil_tmp_def suffix_def no_files_def skip_def count_file_def Let_def
      rbind_def rcase_def ask_def act_def ret_def remote_plain_def remote_mapped_def remote_do_def local_do_def
      flip: append_Cons)

theorem download_dir_confined_witness: "confined evil_world ''/tmp/d'' (LRename evil_tmp ''/tmp/d/a'')"
  by (rule download_dir_confined [OF demo_download_dir]) simp

section \<open>What a directory transfer reports\<close>

text \<open>What became of an entry of the server's list, by the report and the actions.\<close>

definition accounted :: "file_world \<Rightarrow> string \<Rightarrow> fhist \<Rightarrow> dir_report \<Rightarrow> remote_entry \<Rightarrow> bool" where
  "accounted w d xs r e =
     (let p = fw_join w d (re_name e)
      in if validate_local_entry_name (re_name e) = Inr () \<and> re_is_dir e then LMkdirAll p \<in> set xs
         else if validate_local_entry_name (re_name e) = Inr () \<and> re_is_file e
         then \<exists>m. LRename (local_tmp_path w m p) p \<in> set xs
         else re_name e \<in> se_name ` set (dr_skipped r))"

definition renames :: "fhist \<Rightarrow> nat" where
  "renames xs = length (filter (\<lambda>a. case a of LRename _ _ \<Rightarrow> True | _ \<Rightarrow> False) xs)"

lemma renames_append: "renames (xs @ ys) = renames xs + renames ys"
  by (simp add: renames_def)

lemma accounted_mono:
  "accounted w d xs r e \<Longrightarrow> set xs \<subseteq> set ys \<Longrightarrow> set (dr_skipped r) \<subseteq> set (dr_skipped r') \<Longrightarrow> accounted w d ys r' e"
  by (auto simp: accounted_def Let_def split: if_splits)

lemma download_ok:
  assumes "download w remote p l = (l', Inr u)"
  obtains xs m where "l' = l @ xs" "renames xs = 1" "LRename (local_tmp_path w m p) p \<in> set xs"
proof -
  obtain m where "l' = l @ [SOpen remote, LCreate (local_tmp_path w m p), LCopyDown remote (local_tmp_path w m p), SShutdown,
      LSync (local_tmp_path w m p), LRename (local_tmp_path w m p) p]"
    using assms
    by (auto simp: download_def download_body_def file_steps rcase_def rignore_def Let_def split: option.splits)
  then show thesis using that by (simp add: renames_def)
qed

text \<open>What a transfer of a subdirectory must give.\<close>

definition reports :: "(string \<Rightarrow> string \<Rightarrow> dir_report sftp) \<Rightarrow> bool" where
  "reports sub \<longleftrightarrow> (\<forall>rc q l l' s. sub rc q l = (l', Inr s) \<longrightarrow>
     (\<exists>xs. l' = l @ xs \<and> dr_files s = renames xs \<and> LMkdirAll q \<in> set xs))"

lemma download_entries_reports:
  assumes "reports sub"
  shows "download_entries w sub rd d es r l = (l', Inr r') \<Longrightarrow>
    \<exists>xs. l' = l @ xs \<and> dr_files r' = dr_files r + renames xs \<and> set (dr_skipped r) \<subseteq> set (dr_skipped r') \<and>
      (\<forall>e \<in> set es. accounted w d xs r' e)"
proof (induction es arbitrary: r l)
  case Nil
  then show ?case by (auto simp: ret_def renames_def)
next
  case (Cons e es)
  have more: ?case if run: "download_entries w sub rd d es r1 (l @ ys) = (l', Inr r')"
    and n: "dr_files r1 = dr_files r + renames ys" and s: "set (dr_skipped r) \<subseteq> set (dr_skipped r1)"
    and e: "accounted w d ys r1 e" for r1 ys
  proof -
    from Cons.IH [OF run] obtain xs where xs: "l' = (l @ ys) @ xs" "dr_files r' = dr_files r1 + renames xs"
      "set (dr_skipped r1) \<subseteq> set (dr_skipped r')" "\<forall>e \<in> set es. accounted w d xs r' e" by blast
    then show ?thesis
      using n s e by (intro exI [of _ "ys @ xs"]) (auto simp: renames_append intro: accounted_mono)
  qed
  show ?case
  proof (cases "validate_local_entry_name (re_name e) = Inr () \<and> (re_is_dir e \<or> re_is_file e)")
    case False
    then obtain reason where "download_entries w sub rd d es (skip (re_name e) reason r) l = (l', Inr r')"
      using Cons.prems by (auto simp: Let_def split: sum.splits if_splits)
    moreover have "accounted w d [] (skip (re_name e) reason r) e"
      using False by (simp add: accounted_def skip_def)
    ultimately show ?thesis
      by (intro more [of "skip (re_name e) reason r" "[]"]) (auto simp: renames_def skip_def)
  next
    case True
    let ?p = "fw_join w d (re_name e)" and ?rc = "remote_child rd (re_name e)"
    show ?thesis
    proof (cases "re_is_dir e")
      case dir: True
      then obtain l1 s where l1: "sub ?rc ?p l = (l1, Inr s)" "download_entries w sub rd d es (add_sub s r) l1 = (l', Inr r')"
        using Cons.prems True by (auto simp: Let_def rbind_Inr)
      then obtain ys where "l1 = l @ ys" "dr_files s = renames ys" "LMkdirAll ?p \<in> set ys"
        using assms unfolding reports_def by blast
      then show ?thesis
        using l1(2) True dir by (intro more [of "add_sub s r" ys]) (auto simp: accounted_def add_sub_def)
    next
      case reg: False
      then obtain l1 u where l1: "download w ?rc ?p l = (l1, Inr u)" "download_entries w sub rd d es (count_file r) l1 = (l', Inr r')"
        using Cons.prems True by (auto simp: Let_def rbind_Inr)
      from download_ok [OF l1(1)] obtain ys m where
        "l1 = l @ ys" "renames ys = 1" "LRename (local_tmp_path w m ?p) ?p \<in> set ys" .
      then show ?thesis
        using l1(2) True reg by (intro more [of "count_file r" ys]) (auto simp: accounted_def count_file_def Let_def)
    qed
  qed
qed

lemma download_dir_inner_run:
  assumes "download_dir_inner w (Suc left) rd d l = (l', Inr r)"
  shows "download_entries w (download_dir_inner w left) rd d (fw_list w (l @ [LMkdirAll d, SReadDir rd])) no_files
    (l @ [LMkdirAll d, SReadDir rd]) = (l', Inr r)"
  using assms by (auto simp: list_dir_def file_steps split: option.splits)

lemma download_dir_inner_reports: "reports (download_dir_inner w left)"
proof (induction left)
  case 0
  then show ?case by (simp add: reports_def ret_def)
next
  case (Suc left)
  show ?case
    unfolding reports_def
  proof (intro allI impI)
    fix rd d l l' s
    assume "download_dir_inner w (Suc left) rd d l = (l', Inr s)"
    from download_entries_reports [OF Suc download_dir_inner_run [OF this]] obtain xs where
      "l' = (l @ [LMkdirAll d, SReadDir rd]) @ xs" "dr_files s = renames xs" by (auto simp: no_files_def)
    then show "\<exists>xs. l' = l @ xs \<and> dr_files s = renames xs \<and> LMkdirAll d \<in> set xs"
      by (intro exI [of _ "[LMkdirAll d, SReadDir rd] @ xs"]) (simp add: renames_def)
  qed
qed

text \<open>
  (C31) A directory download accounts for every entry.  When it succeeds, its count is the number of files
  moved into place in the whole tree, and every entry the server listed for the directory is
  either a directory that was made, a file that was moved into place under its own name, or is named among
  the skipped ones: none is lost silently.
\<close>

theorem download_dir_accounts:
  assumes "download_dir w remote_dir local_dir l = (l', Inr r)"
    and "e \<in> set (fw_list w (l @ [LMkdirAll local_dir, SReadDir remote_dir]))"
  shows "\<exists>xs. l' = l @ xs \<and> dr_files r = renames xs \<and> accounted w local_dir xs r e"
proof -
  have run: "download_dir_inner w (Suc DIR_MAX_DEPTH) remote_dir local_dir l = (l', Inr r)"
    using assms(1) by (simp add: download_dir_def)
  from download_entries_reports [OF download_dir_inner_reports download_dir_inner_run [OF run]] assms(2)
  obtain xs where "l' = (l @ [LMkdirAll local_dir, SReadDir remote_dir]) @ xs" "dr_files r = renames xs" "accounted w local_dir xs r e"
    by (auto simp: no_files_def)
  then show ?thesis
    by (intro exI [of _ "[LMkdirAll local_dir, SReadDir remote_dir] @ xs"])
      (auto simp: renames_def intro: accounted_mono)
qed

theorem download_dir_accounts_witness:
  "\<exists>xs. fst (download_dir evil_world ''d'' ''/tmp/d'' []) = [] @ xs \<and> 1 = renames xs \<and>
     (\<exists>m. LRename (local_tmp_path evil_world m ''/tmp/d/a'') ''/tmp/d/a'' \<in> set xs)"
  using download_dir_accounts [OF demo_download_dir,
      of "\<lparr>re_name = ''a'', re_is_dir = False, re_is_file = True, re_size = 1, re_permissions = None\<rparr>"]
  unfolding demo_download_dir by (simp add: evil_world_sel accounted_def demo_names)

text \<open>
  An upload does not: a local entry that is neither link, directory nor file disappears from
  the transfer and from the report.
\<close>

lemma special_entry_unreported: "upload_entries w sub local_dir remote_dir [Inr (name, Special)] r l = (l, Inr r)"
  by (simp add: ret_def Let_def)

end
