(* ===== verification/Sftp_Run.thy ===== *)
theory Sftp_Run
  imports Sftp_Ops Sftp_Client
begin

text \<open>
  The SFTP tools of the session manager (theory \<open>Sftp_Ops\<close>) run on the SFTP provider (theory
  \<open>Sftp_Client\<close>): what the checks of a tool say of the files its run touches.
\<close>

section \<open>Running the calls of a tool\<close>

fun run_call :: "file_world \<Rightarrow> sftp_call \<Rightarrow> unit sftp" where
  "run_call fw (DoUpload local remote) = upload fw local remote"
| "run_call fw (DoDownload remote local) = download fw remote local"
| "run_call fw (DoUploadDir local remote) = rbind (upload_dir fw local remote) (\<lambda>_. ret (Inr ()))"
| "run_call fw (DoDownloadDir remote local) = rbind (download_dir fw remote local) (\<lambda>_. ret (Inr ()))"
| "run_call fw (DoMkdir remote mode) = mkdir fw remote (of_nat mode)"
| "run_call fw (DoList remote) = rbind (list_dir fw remote) (\<lambda>_. ret (Inr ()))"
| "run_call fw (DoRemove remote) = remove_file fw remote"
| "run_call fw (DoRmdir remote) = rmdir fw remote"
| "run_call fw (DoChmod remote mode) = chmod fw remote (of_nat mode)"

fun run_calls :: "file_world \<Rightarrow> sftp_call list \<Rightarrow> unit sftp" where
  "run_calls fw [] = ret (Inr ())"
| "run_calls fw (c # cs) = rbind (run_call fw c) (\<lambda>_. run_calls fw cs)"

section \<open>Names\<close>

text \<open>A directory's entries have proper names; read lossily they are still proper.\<close>

lemma from_utf8_lossy_chars: "set (from_utf8_lossy bs) \<subseteq> set (bytes_str bs) \<union> set REPLACEMENT"
proof (induction bs rule: from_utf8_lossy.induct)
  case (2 b bs)
  obtain ok n where c: "utf8_char (b # bs) = (ok, n)" by (cases "utf8_char (b # bs)") auto
  have "set (bytes_str (take n (b # bs))) \<subseteq> set (bytes_str (b # bs))" "set (bytes_str (drop n (b # bs))) \<subseteq> set (bytes_str (b # bs))"
    unfolding bytes_str_def by (metis set_map image_mono set_take_subset, metis set_map image_mono set_drop_subset)
  then show ?case using "2.IH" [OF c [symmetric] refl] c by (auto simp: from_utf8_lossy.simps(2))
qed simp

lemma from_utf8_lossy_clean: "CHR 0xEF \<notin> set (from_utf8_lossy bs) \<Longrightarrow> from_utf8_lossy bs = bytes_str bs"
proof (induction bs rule: from_utf8_lossy.induct)
  case 1
  show ?case by (simp add: bytes_str_def)
next
  case (2 b bs)
  obtain ok n where c: "utf8_char (b # bs) = (ok, n)" by (cases "utf8_char (b # bs)") auto
  then have "ok" using "2.prems" by (auto simp: from_utf8_lossy.simps(2) REPLACEMENT_def split: if_splits)
  then have "from_utf8_lossy (b # bs) = bytes_str (take n (b # bs)) @ bytes_str (drop n (b # bs))"
    using "2.IH" [OF c [symmetric] refl] "2.prems" c by (simp add: from_utf8_lossy.simps(2))
  then show ?case by (simp only: bytes_str_append [symmetric] append_take_drop_id)
qed

lemma from_utf8_lossy_empty: "from_utf8_lossy bs = [] \<Longrightarrow> bs = []"
  using from_utf8_lossy_clean [of bs] by (simp add: bytes_str_def)

lemma lossy_plain:
  assumes "plain_seg n"
  shows "plain_seg (lossy n)"
proof -
  have inv: "bytes_str (str_bytes n) = n" by simp
  have "lossy n = n" if "CHR 0xEF \<notin> set (lossy n)"
    using that from_utf8_lossy_clean [of "str_bytes n"] inv by (simp add: lossy_def)
  then have "lossy n \<noteq> ''.''" "lossy n \<noteq> ''..''" using assms by (auto simp: plain_seg_def)
  moreover have "slash \<notin> set (lossy n)"
    using from_utf8_lossy_chars [of "str_bytes n"] inv assms by (auto simp: lossy_def REPLACEMENT_def plain_seg_def)
  moreover have "str_bytes n \<noteq> []" using inv assms by (metis bytes_str_def list.simps(8) plain_seg_def)
  then have "lossy n \<noteq> []" using from_utf8_lossy_empty by (auto simp: lossy_def)
  ultimately show ?thesis by (simp add: plain_seg_def)
qed

lemma components_append: "components (a @ slash # b) = components a @ components b"
  by (simp add: components_def split_on_append)

lemma components_single: "slash \<notin> set n \<Longrightarrow> components n = (if n = [] then [] else [n])"
  by (simp add: components_def split_on_single)

lemma components_slashes: "components (a @ replicate k slash) = components a"
proof (induction k)
  case (Suc k)
  have "components ((a @ replicate k slash) @ slash # []) = components (a @ replicate k slash) @ components []"
    by (rule components_append)
  moreover have "a @ replicate (Suc k) slash = (a @ replicate k slash) @ slash # []" by (simp flip: replicate_append_same)
  moreover have "components [] = []" by (simp add: components_def)
  ultimately show ?case using Suc by simp
qed simp

lemma trim_end_char_split: "\<exists>k. s = trim_end_char c s @ replicate k c"
proof -
  have "takeWhile (\<lambda>x. x = c) (rev s) = replicate (length (takeWhile (\<lambda>x. x = c) (rev s))) c"
    by (metis (full_types) replicate_length_same set_takeWhileD)
  then have "s = trim_end_char c s @ rev (replicate (length (takeWhile (\<lambda>x. x = c) (rev s))) c)"
    unfolding trim_end_char_def by (metis rev_append rev_rev_ident takeWhile_dropWhile_id)
  then show ?thesis by (metis rev_replicate)
qed

section \<open>What an upload touches\<close>

text \<open>
  The remote paths a directory upload derives from its target by joining proper names, and what they are by components.
\<close>

inductive remote_below :: "string \<Rightarrow> string \<Rightarrow> bool" for d where
  remote_self: "remote_below d d"
| remote_join: "remote_below d p \<Longrightarrow> plain_seg n \<Longrightarrow> remote_below d (remote_child p n)"

definition below_dir :: "string \<Rightarrow> string \<Rightarrow> bool" where
  "below_dir d p \<longleftrightarrow> (\<exists>ns. (\<forall>n \<in> set ns. plain_seg n) \<and> components p = components d @ ns) \<and> (prefix ''/'' p \<longleftrightarrow> prefix ''/'' d)"

lemma remote_below_trans: "remote_below q p \<Longrightarrow> remote_below d q \<Longrightarrow> remote_below d p"
  by (induction rule: remote_below.induct) (auto intro: remote_below.intros)

lemma remote_child_components:
  assumes "d \<noteq> []" "plain_seg n"
  shows "components (remote_child d n) = components d @ [n]" "prefix ''/'' (remote_child d n) \<longleftrightarrow> prefix ''/'' d" "remote_child d n \<noteq> []"
proof -
  have n: "components n = [n]" using assms(2) by (simp add: components_single plain_seg_def)
  show "components (remote_child d n) = components d @ [n]"
  proof (cases "suffix ''/'' d")
    case True
    then obtain e where "d = e @ [slash]" by (auto simp: suffix_def)
    then show ?thesis using n components_append [of e n] components_slashes [of e 1] by (simp add: remote_child_def suffix_def)
  next
    case False
    then show ?thesis using n components_append [of d n] by (simp add: remote_child_def)
  qed
  show "prefix ''/'' (remote_child d n) \<longleftrightarrow> prefix ''/'' d" using assms(1) by (cases d) (simp_all add: remote_child_def)
  show "remote_child d n \<noteq> []" using assms(1) by (simp add: remote_child_def)
qed

lemma remote_below_dir:
  assumes "remote_below d p" "d \<noteq> []"
  shows "p \<noteq> [] \<and> below_dir d p"
  using assms(1)
proof (induction rule: remote_below.induct)
  case remote_self
  show ?case using assms(2) by (auto simp: below_dir_def intro: exI [of _ "[]"])
next
  case (remote_join p n)
  then obtain ns where ns: "\<forall>n \<in> set ns. plain_seg n" "components p = components d @ ns" by (auto simp: below_dir_def)
  then have "components (remote_child p n) = components d @ (ns @ [n]) \<and> (\<forall>x \<in> set (ns @ [n]). plain_seg x)"
    using remote_child_components [of p n] remote_join by simp
  then show ?case using remote_child_components [of p n] remote_join unfolding below_dir_def by blast
qed

text \<open>The paths an action changes, and the directory it makes.\<close>

definition changes :: "faction \<Rightarrow> string set" where
  "changes a = touches a \<union> (case a of SSetPerm p _ \<Rightarrow> {p} | SRmdir p \<Rightarrow> {p} | _ \<Rightarrow> {})"

definition within_target :: "file_world \<Rightarrow> string \<Rightarrow> faction \<Rightarrow> bool" where
  "within_target fw d a \<longleftrightarrow>
     (\<forall>p \<in> changes a. \<exists>q m. remote_below d q \<and> (p = q \<or> p = remote_tmp_path fw m q)) \<and>
     (\<forall>p. a = SMkdir p \<longrightarrow> (\<exists>q. remote_below d q \<and> prefix (components p) (components q) \<and> (prefix ''/'' p \<longleftrightarrow> prefix ''/'' q)))"

lemma within_target_trans: "within_target fw q a \<Longrightarrow> remote_below d q \<Longrightarrow> within_target fw d a"
  unfolding within_target_def by (blast intro: remote_below_trans)

lemma within_target_none [simp]:
  "within_target fw d (LStat p)" "within_target fw d (LOpen p)" "within_target fw d (SStat p)" "within_target fw d SFlush"
  "within_target fw d SShutdown" "within_target fw d (LReadDir p)"
  by (simp_all add: within_target_def changes_def touches_def)

lemma within_target_self:
  "within_target fw d (SCreate (remote_tmp_path fw m d))" "within_target fw d (SCopyUp l (remote_tmp_path fw m d))"
  "within_target fw d (SRename (remote_tmp_path fw m d) d)" "within_target fw d (SRemove (remote_tmp_path fw m d))"
  "within_target fw d (SRemove d)"
  by (auto simp: within_target_def changes_def touches_def intro: remote_self)

lemma replace_within: "acts_in (within_target fw d) (replace_remote_file fw (remote_tmp_path fw m d) d)"
  unfolding acts_in_def
proof
  fix l
  obtain l' r where run: "replace_remote_file fw (remote_tmp_path fw m d) d l = (l', r)"
    by (cases "replace_remote_file fw (remote_tmp_path fw m d) d l")
  have ok: "list_all (within_target fw d) [SRename (remote_tmp_path fw m d) d, SRemove d, SRename (remote_tmp_path fw m d) d]"
    by (simp add: within_target_self)
  from run have "\<exists>xs. l' = l @ xs \<and> list_all (within_target fw d) xs"
    by (rule replace_cases) (use ok in auto)
  then show "\<exists>xs. fst (replace_remote_file fw (remote_tmp_path fw m d) d l) = l @ xs \<and> list_all (within_target fw d) xs"
    by (simp add: run)
qed

lemma upload_within: "acts_in (within_target fw d) (upload fw local d)"
proof -
  have size: "acts_in (within_target fw d) (check_size fw n t r)" for n t r
    by (auto simp: acts_in_def check_size_def)
  have "acts_in (within_target fw d) (rbind (local_do fw (LOpen local)) (\<lambda>_.
      rcase (upload_body fw local (remote_tmp_path fw m d) d n)
        (\<lambda>e. rignore (remote_plain fw (SRemove (remote_tmp_path fw m d)) (remote_tmp_path fw m d)) (ret (Inl e)))
        (\<lambda>_. ret (Inr ()))))" for m n
    unfolding upload_body_def by (intro acts_intros replace_within size) (simp_all add: within_target_self)
  then have "acts_in (within_target fw d) (\<lambda>l. rbind (local_do fw (LOpen local)) (\<lambda>_.
      rcase (upload_body fw local (remote_tmp_path fw (fw_millis fw l) d) d (fw_local_len fw l))
        (\<lambda>e. rignore (remote_plain fw (SRemove (remote_tmp_path fw (fw_millis fw l) d)) (remote_tmp_path fw (fw_millis fw l) d)) (ret (Inl e)))
        (\<lambda>_. ret (Inr ()))) l)"
    by (rule acts_in_at)
  then show ?thesis
    unfolding upload_def Let_def by (intro acts_in_rbind acts_in_local_do) simp_all
qed

text \<open>The directories made on the way to a path are those of its components' beginnings.\<close>

lemma mkdir_step_within:
  "within_target fw d (SMkdir p) \<Longrightarrow> acts_in (within_target fw d) (mkdir_step fw p is_last 0)"
  by (auto simp: acts_in_def mkdir_step_def file_steps rignore_def Let_def
      split: option.splits sftp_lib_error.splits status_code.splits)

lemma mkdir_loop_within:
  assumes "\<forall>c \<in> set cs. c \<noteq> [] \<and> slash \<notin> set c" "components d = pre @ cs" "prefix ''/'' d \<longleftrightarrow> absolute"
    and "case so_far of None \<Rightarrow> pre = [] | Some s \<Rightarrow> s \<noteq> [] \<and> components s = pre \<and> (prefix ''/'' s \<longleftrightarrow> absolute)"
  shows "acts_in (within_target fw d) (mkdir_loop fw so_far absolute 0 cs)"
  using assms
proof (induction cs arbitrary: so_far pre)
  case (Cons c cs)
  define current where "current = (case so_far of None \<Rightarrow> if absolute then ''/'' @ c else c | Some p \<Rightarrow> p @ ''/'' @ c)"
  have c: "c \<noteq> []" "slash \<notin> set c" using Cons.prems(1) by simp_all
  have comps: "components c = [c]" "components ''/'' = []" using c by (simp_all add: components_def split_on_single)
  have "current \<noteq> [] \<and> components current = pre @ [c] \<and> (prefix ''/'' current \<longleftrightarrow> absolute)"
  proof (cases so_far)
    case None
    have "prefix ''/'' c \<longleftrightarrow> False" using c by (cases c) auto
    then show ?thesis using None Cons.prems(4) c comps components_append [of "[]" c] by (auto simp: current_def components_def)
  next
    case (Some s)
    have "prefix ''/'' (s @ slash # c) \<longleftrightarrow> prefix ''/'' s" if "s \<noteq> []" using that by (cases s) simp_all
    then show ?thesis using Some Cons.prems(4) comps components_append [of s c] by (simp add: current_def)
  qed
  then have cur: "current \<noteq> []" "components current = pre @ [c]" "prefix ''/'' current \<longleftrightarrow> absolute" by blast+
  have "within_target fw d (SMkdir current)"
    using cur Cons.prems(2,3)
    by (auto simp: within_target_def changes_def touches_def intro!: exI [of _ d] remote_self)
  moreover have "acts_in (within_target fw d) (mkdir_loop fw (Some current) absolute 0 cs)"
    using Cons.prems cur by (intro Cons.IH [of "pre @ [c]"]) simp_all
  ultimately show ?case
    by (auto simp: Let_def current_def [symmetric] intro!: acts_intros mkdir_step_within)
qed (simp add: acts_intros)

lemma mkdir_p_within: "acts_in (within_target fw d) (mkdir_p fw d 0)"
proof (cases "trim_end_char slash d = []")
  case False
  let ?t = "trim_end_char slash d"
  obtain k where k: "d = ?t @ replicate k slash" using trim_end_char_split by metis
  have "components d = components ?t" using components_slashes [of ?t k] k by simp
  moreover have "prefix ''/'' d \<longleftrightarrow> prefix ''/'' ?t"
  proof -
    obtain x xs where t: "?t = x # xs" using False by (cases ?t) auto
    then have d: "d = x # xs @ replicate k slash" using k by simp
    show ?thesis unfolding t by (subst d) simp
  qed
  moreover have "\<forall>c \<in> set (components ?t). c \<noteq> [] \<and> slash \<notin> set c" by (auto simp: components_def dest: split_on_pieces)
  ultimately show ?thesis
    using mkdir_loop_within [of "components ?t" d "[]" "prefix ''/'' ?t" None fw] False by (simp add: mkdir_p_def Let_def)
qed (simp add: mkdir_p_def acts_intros Let_def)

text \<open>The local directory lists proper names.\<close>

definition proper_names :: "(string + string \<times> file_type) list \<Rightarrow> bool" where
  "proper_names es \<longleftrightarrow> list_all (\<lambda>e. case e of Inl _ \<Rightarrow> True | Inr (n, _) \<Rightarrow> plain_seg n) es"

lemma upload_entries_within:
  assumes "\<And>lc q. acts_in (within_target fw q) (sub lc q)" "proper_names es"
  shows "acts_in (within_target fw d) (upload_entries fw sub ld d es r)"
  using assms(2)
proof (induction es arbitrary: r)
  case (Cons e es)
  have "acts_in (within_target fw d) (sub lc (remote_child d (lossy n)))" "acts_in (within_target fw d) (upload fw lc (remote_child d (lossy n)))"
    if "plain_seg n" for lc n
    using lossy_plain [OF that]
    by (auto intro: acts_in_mono [OF assms(1)] acts_in_mono [OF upload_within] within_target_trans remote_below.intros)
  then show ?case using Cons
    by (auto simp: Let_def proper_names_def intro!: acts_intros split: sum.split file_type.split sum.splits prod.splits)
qed (simp add: acts_intros)

lemma upload_dir_inner_within:
  assumes "\<And>l. proper_names (fw_local_list fw l)"
  shows "acts_in (within_target fw d) (upload_dir_inner fw left ld d)"
proof (induction left arbitrary: ld d)
  case (Suc left)
  have "acts_in (within_target fw d) (upload_entries fw (upload_dir_inner fw left) ld d (fw_local_list fw l) r)" for l r
    by (rule upload_entries_within) (rule Suc, rule assms)
  then have "acts_in (within_target fw d) (\<lambda>l. upload_entries fw (upload_dir_inner fw left) ld d (fw_local_list fw l) no_files l)"
    by (rule acts_in_at)
  then have "acts_in (within_target fw d) (rbind (mkdir_p fw d 0) (\<lambda>_. rbind (local_do fw (LReadDir ld)) (\<lambda>_ l.
      upload_entries fw (upload_dir_inner fw left) ld d (fw_local_list fw l) no_files l)))"
    by (intro acts_intros mkdir_p_within) simp_all
  then have "acts_in (within_target fw d) (\<lambda>l. if \<not> fw_local_is_dir fw l then (l, Inl (InvalidArgument ld))
      else rbind (mkdir_p fw d 0) (\<lambda>_. rbind (local_do fw (LReadDir ld)) (\<lambda>_ l.
        upload_entries fw (upload_dir_inner fw left) ld d (fw_local_list fw l) no_files l)) l)"
    by (auto simp: acts_in_def)
  then show ?case by (auto intro!: acts_intros)
qed (simp add: acts_intros)

lemma upload_calls_within:
  assumes "set cs \<subseteq> {DoUpload local d, DoUploadDir local d}" "\<And>l. proper_names (fw_local_list fw l)"
  shows "acts_in (within_target fw d) (run_calls fw cs)"
  using assms(1) upload_dir_inner_within [OF assms(2)]
  by (induction cs) (auto simp: upload_dir_def simp del: upload_dir_inner.simps intro!: acts_intros upload_within)

text \<open>
  (C12) The uploads of both transfer tools change the server only after the path policy admitted the remote path for creation and the policy
  chain allowed the transfer, and then only below the path of the call.  Let the local directories list proper names, and the remote path
  not be empty.  Every file that is created, written, renamed, removed or changed in its mode has the components of the path
  given, followed by proper names, none of them empty, \<open>.\<close>, \<open>..\<close> or with a slash, or it is the temporary file beside such a path;
  and every directory that is made is one of these or leads to it.  The path of the call is the checked one as it was given: a leading tilde is expanded for
  the check only.
\<close>

theorem uploads_stay_below_checked_path:
  assumes "cs = fst (sftp_transfer w sm sid Upload local remote) \<or> cs = fst (sftp_transfer_dir w sm sid Upload local remote)"
    and "remote \<noteq> []" "\<And>l. proper_names (fw_local_list fw l)"
    and "run_calls fw cs l = (l @ xs, r)" "a \<in> set xs"
  shows "authorize (sm_policy sm) (SftpTransfer Upload local remote) = Allow \<and>
    remote_check w sm sid remote Create = Inr () \<and>
    (\<forall>p \<in> changes a. \<exists>q m. below_dir remote q \<and> (p = q \<or> p = q @ tmp_suffix fw m)) \<and>
    (\<forall>p. a = SMkdir p \<longrightarrow> (\<exists>q. below_dir remote q \<and> prefix (components p) (components q) \<and> (prefix ''/'' p \<longleftrightarrow> prefix ''/'' q)))"
proof -
  have cs: "set cs \<subseteq> {DoUpload local remote, DoUploadDir local remote}"
    using assms(1) by (auto simp: sftp_transfer_def sftp_transfer_dir_def and_then_def call_def split: sum.splits)
  obtain ys where "xs = ys" "list_all (within_target fw remote) ys"
    using acts_in_appends [OF upload_calls_within [OF cs assms(3)] assms(4)] by blast
  then have "within_target fw remote a" using assms(5) by (simp add: list_all_iff)
  moreover have "below_dir remote q" if "remote_below remote q" for q using remote_below_dir [OF that assms(2)] by blast
  moreover have "cs \<noteq> []" using assms(4,5) by (auto simp: ret_def)
  moreover have "fst (sftp_transfer w sm sid Upload local remote) = [] \<or>
      authorize (sm_policy sm) (SftpTransfer Upload local remote) = Allow \<and> remote_check w sm sid remote Create = Inr ()"
    "fst (sftp_transfer_dir w sm sid Upload local remote) = [] \<or>
      authorize (sm_policy sm) (SftpTransfer Upload local remote) = Allow \<and> remote_check w sm sid remote Create = Inr ()"
    by (auto simp: sftp_transfer_def sftp_transfer_dir_def check_policy_ok
        approval_sftp authorize_standard dest!: and_then_calls)
  ultimately show ?thesis using assms(1) unfolding within_target_def remote_tmp_path_eq by blast
qed

text \<open>An empty remote path is not that of the home directory its check is about: the entries go below the root.\<close>

lemma empty_remote_goes_to_root: "remote_child [] n = slash # n"
  by (simp add: remote_child_def)

section \<open>What the check of a directory upload does not see\<close>

text \<open>
  A session on a host without roots of its own; a local tree with a file
  \<open>.ssh/authorized_keys\<close>; a server on which every call succeeds.
\<close>

definition demo_sftp :: sftp_world where
  "demo_sftp = \<lparr>sw_open = Inr (), sw_realpath = (\<lambda>q. if q = ''~/x'' then Inl (SftpNoSuchFile q) else Inr q),
     sw_home = Some ''/home/ops'', sw_fs = (\<lambda>p. Some p), sw_do = (\<lambda>_. Inr ()), sw_list = (\<lambda>_. Inr [])\<rparr>"

definition demo_tools :: smgr where
  "demo_tools = demo_sm\<lparr>sm_path_policy := \<lparr>allowed_local_paths = [path_of ''/w''], allowed_remote_paths = [''/'']\<rparr>\<rparr>"

definition tree_world :: file_world where
  "tree_world = \<lparr>fw_s = (\<lambda>_. None), fw_l = (\<lambda>_. None), fw_stat_len = (\<lambda>_. 1), fw_local_len = (\<lambda>_. 1),
     fw_local_is_dir = (\<lambda>_. True), fw_list = (\<lambda>_. []),
     fw_local_list = (\<lambda>l. if last l = LReadDir ''/w/tree'' then [Inr (''.ssh'', Dir)] else [Inr (''authorized_keys'', File)]),
     fw_realpath = (\<lambda>_. ''/home/ops''), fw_pid = 7, fw_millis = (\<lambda>_. 5), fw_join = (\<lambda>a b. a @ ''/'' @ b)\<rparr>"

lemma tree_world_sel:
  "fw_s tree_world l = None" "fw_l tree_world l = None" "fw_stat_len tree_world l = 1" "fw_local_len tree_world l = 1"
  "fw_local_is_dir tree_world l" "fw_millis tree_world l = 5" "fw_join tree_world a b = a @ ''/'' @ b"
  "fw_local_list tree_world l =
     (if last l = LReadDir ''/w/tree'' then [Inr (''.ssh'', Dir)] else [Inr (''authorized_keys'', File)])"
  by (simp_all add: tree_world_def)

lemma demo_components:
  "trim_end_char CHR ''/'' ''/home/ops'' = ''/home/ops''" "components ''/home/ops'' = [''home'', ''ops'']"
  "trim_end_char CHR ''/'' ''/home/ops/.ssh'' = ''/home/ops/.ssh''" "components ''/home/ops/.ssh'' = [''home'', ''ops'', ''.ssh'']"
  by code_simp+

lemma demo_lossy: "lossy ''.ssh'' = ''.ssh''" "lossy ''authorized_keys'' = ''authorized_keys''"
  by code_simp+

lemma demo_paths:
  "''/w/tree'' @ ''/'' @ ''.ssh'' = ''/w/tree/.ssh''" "''/w/tree/.ssh'' @ ''/'' @ ''authorized_keys'' = ''/w/tree/.ssh/authorized_keys''"
  "remote_child ''/home/ops'' ''.ssh'' = ''/home/ops/.ssh''"
  "remote_child ''/home/ops/.ssh'' ''authorized_keys'' = ''/home/ops/.ssh/authorized_keys''"
  by (simp_all add: remote_child_def suffix_to_prefix)

lemma mkdir_p_demo:
  "mkdir_p tree_world ''/home/ops'' 0 l = (l @ [SStat ''/home'', SStat ''/home/ops''], Inr ())"
  "mkdir_p tree_world ''/home/ops/.ssh'' 0 l = (l @ [SStat ''/home'', SStat ''/home/ops'', SStat ''/home/ops/.ssh''], Inr ())"
  by (simp_all add: mkdir_p_def demo_components mkdir_step_def tree_world_sel rbind_def ret_def Let_def)

definition keys_tmp :: string where
  "keys_tmp = ''/home/ops/.ssh/authorized_keys'' @ tmp_suffix tree_world 5"

lemma upload_demo:
  "upload tree_world ''/w/tree/.ssh/authorized_keys'' ''/home/ops/.ssh/authorized_keys'' l =
     (l @ [LStat ''/w/tree/.ssh/authorized_keys'', LOpen ''/w/tree/.ssh/authorized_keys'', SCreate keys_tmp,
        SCopyUp ''/w/tree/.ssh/authorized_keys'' keys_tmp, SFlush, SShutdown, SStat keys_tmp,
        SRename keys_tmp ''/home/ops/.ssh/authorized_keys''], Inr ())"
  by (simp add: upload_def upload_body_def file_steps rcase_def tree_world_sel Let_def remote_tmp_path_eq check_size_def
      replace_remote_file_def keys_tmp_def)

lemma tree_step:
  "mkdir_p tree_world rd 0 (l @ [LStat ld]) = (l1, Inr ()) \<Longrightarrow>
   upload_dir_inner tree_world (Suc n) ld rd l =
     upload_entries tree_world (upload_dir_inner tree_world n) ld rd (fw_local_list tree_world (l1 @ [LReadDir ld])) no_files
       (l1 @ [LReadDir ld])"
  by (simp add: rbind_def local_do_def ask_def act_def ret_def tree_world_sel(2,5))

lemma upload_dir_demo:
  "\<exists>xs r. upload_dir tree_world ''/w/tree'' ''/home/ops'' l = (l @ xs, Inr r) \<and>
     SRename keys_tmp ''/home/ops/.ssh/authorized_keys'' \<in> set xs"
proof -
  obtain n where depth: "DIR_MAX_DEPTH + 1 = Suc (Suc n)" by (simp add: DIR_MAX_DEPTH_def)
  have inner: "\<exists>xs r. upload_dir_inner tree_world (Suc n) ''/w/tree/.ssh'' ''/home/ops/.ssh'' l = (l @ xs, Inr r) \<and>
      SRename keys_tmp ''/home/ops/.ssh/authorized_keys'' \<in> set xs" for l
    unfolding tree_step [OF mkdir_p_demo(2)]
    by (simp add: rbind_def ret_def tree_world_sel demo_lossy demo_paths upload_demo Let_def del: append.simps(2))
  let ?l1 = "((l @ [LStat ''/w/tree'']) @ [SStat ''/home'', SStat ''/home/ops'']) @ [LReadDir ''/w/tree'']"
  obtain xs r where xs: "upload_dir_inner tree_world (Suc n) ''/w/tree/.ssh'' ''/home/ops/.ssh'' ?l1 = (?l1 @ xs, Inr r)"
    "SRename keys_tmp ''/home/ops/.ssh/authorized_keys'' \<in> set xs" using inner by blast
  have "upload_dir tree_world ''/w/tree'' ''/home/ops'' l = (?l1 @ xs, Inr (add_sub r no_files))"
    unfolding upload_dir_def depth tree_step [OF mkdir_p_demo(1)] tree_world_sel(8) last_snoc if_P [OF refl]
    by (simp only: upload_entries.simps sum.case prod.case Let_def file_type.case tree_world_sel(7) demo_lossy demo_paths
        rbind_def xs(1) sum.case prod.case ret_def)
  then show ?thesis using xs(2) by auto
qed

lemma demo_tools_sel:
  "sm_path_policy demo_tools = \<lparr>allowed_local_paths = [path_of ''/w''], allowed_remote_paths = [''/'']\<rparr>"
  "sm_policy demo_tools = with_default (\<lambda>p l. True)" "get_session demo_tools ''sess_0'' = Inr 0"
  "so_handle (sm_objs demo_tools ! 0) = SshHandle" "remote_roots_for demo_tools ''sess_0'' = None"
  by (simp_all add: demo_tools_def demo_sm_eq demo_empty_def smgr_new_def get_session_def lookup_def remote_roots_for_def
      sess_def session_new_def allowed_remote_paths_for_def resolver_empty_def)

lemma demo_open_tools: "open_sftp_for_session demo_sftp demo_tools ''sess_0'' = Inr ()"
  by (simp add: open_sftp_for_session_def demo_tools_sel demo_sftp_def)

lemma demo_policy_tools: "check_policy demo_tools (SftpTransfer Upload local ''/home/ops'') = Inr ()"
  "check_policy demo_tools (SftpTransfer Upload local ''/home/ops/.ssh/authorized_keys'') = Inr ()"
  "check_policy demo_tools (SftpTransfer Upload local ''~/x'') = Inr ()"
  by (simp_all add: check_policy_ok approval_sftp authorize_standard demo_tools_sel with_default_def authorize_def
      check_sftp_transfer_def normalize_remote_path_lexical_def norm_seg_def strip_prefix_def Let_def)

lemma demo_local_tools: "check_local (sw_fs demo_sftp) (sm_path_policy demo_tools) ''/w/tree'' = Inr ()"
  by (simp add: demo_tools_sel demo_sftp_def check_local_def check_canonical_under_any_def path_of_def)

lemma demo_remote_tools:
  "remote_check demo_sftp demo_tools ''sess_0'' ''/home/ops'' Create = Inr ()"
  "remote_check demo_sftp demo_tools ''sess_0'' ''/home/ops/.ssh/authorized_keys'' Create =
     Inl (RemotePathNotAllowed ''/home/ops/.ssh/authorized_keys'')"
  "remote_check demo_sftp demo_tools ''sess_0'' ''~/x'' Create = Inr ()"
  by (simp_all add: remote_check_def demo_tools_sel demo_sftp_def check_remote_access_def needs_home_def expand_tilde_def
      check_scope_and_safety_def effective_roots_def is_under_remote_def trim_end_char_def hard_safety_deny_def
      authorized_keys_def authorized_keys2_def suffix_to_prefix strip_prefix_def)

lemma demo_dir_calls:
  "fst (sftp_transfer_dir demo_sftp demo_tools ''sess_0'' Upload ''/w/tree'' ''/home/ops'') = [DoUploadDir ''/w/tree'' ''/home/ops'']"
  by (simp add: sftp_transfer_dir_def and_then_def demo_policy_tools demo_open_tools demo_local_tools demo_remote_tools call_def)

text \<open>
  (C39) A directory upload passes the hard safety rule by.  On a session where uploading a file to
  \<open>/home/ops/.ssh/authorized_keys\<close> is refused without a call, uploading a directory to
  \<open>/home/ops\<close> is admitted, and its run moves a new file over
  \<open>/home/ops/.ssh/authorized_keys\<close>: the path policy is asked about the root of the tree only.
\<close>

theorem dir_upload_bypasses_hard_safety:
  "\<exists>w sm fw xs.
     sftp_transfer w sm ''sess_0'' Upload ''/w/tree'' ''/home/ops/.ssh/authorized_keys'' =
       ([], Inl (RemotePathNotAllowed ''/home/ops/.ssh/authorized_keys'')) \<and>
     fst (sftp_transfer_dir w sm ''sess_0'' Upload ''/w/tree'' ''/home/ops'') = [DoUploadDir ''/w/tree'' ''/home/ops''] \<and>
     run_calls fw (fst (sftp_transfer_dir w sm ''sess_0'' Upload ''/w/tree'' ''/home/ops'')) [] = (xs, Inr ()) \<and>
     (\<exists>tmp. SRename tmp ''/home/ops/.ssh/authorized_keys'' \<in> set xs)"
proof -
  have single: "sftp_transfer demo_sftp demo_tools ''sess_0'' Upload ''/w/tree'' ''/home/ops/.ssh/authorized_keys'' =
      ([], Inl (RemotePathNotAllowed ''/home/ops/.ssh/authorized_keys''))"
    by (simp add: sftp_transfer_def and_then_def demo_policy_tools demo_open_tools demo_local_tools demo_remote_tools)
  obtain xs r where "upload_dir tree_world ''/w/tree'' ''/home/ops'' [] = ([] @ xs, Inr r)"
    "SRename keys_tmp ''/home/ops/.ssh/authorized_keys'' \<in> set xs" using upload_dir_demo by blast
  then have "run_calls tree_world [DoUploadDir ''/w/tree'' ''/home/ops''] [] = (xs, Inr ())"
    "SRename keys_tmp ''/home/ops/.ssh/authorized_keys'' \<in> set xs"
    by (simp_all add: rbind_def ret_def)
  then show ?thesis using single demo_dir_calls by metis
qed

theorem uploads_stay_below_checked_path_witness:
  "remote_check demo_sftp demo_tools ''sess_0'' ''/home/ops'' Create = Inr () \<and>
   (\<exists>q m. below_dir ''/home/ops'' q \<and>
     (''/home/ops/.ssh/authorized_keys'' = q \<or> ''/home/ops/.ssh/authorized_keys'' = q @ tmp_suffix tree_world m))"
proof -
  obtain xs r where xs: "upload_dir tree_world ''/w/tree'' ''/home/ops'' [] = ([] @ xs, Inr r)"
    "SRename keys_tmp ''/home/ops/.ssh/authorized_keys'' \<in> set xs" using upload_dir_demo by blast
  have run: "run_calls tree_world (fst (sftp_transfer_dir demo_sftp demo_tools ''sess_0'' Upload ''/w/tree'' ''/home/ops'')) [] =
      ([] @ xs, Inr ())"
    unfolding demo_dir_calls using xs(1) by (simp add: rbind_def ret_def)
  have p: "''/home/ops/.ssh/authorized_keys'' \<in> changes (SRename keys_tmp ''/home/ops/.ssh/authorized_keys'')"
    by (simp add: changes_def touches_def)
  have "proper_names (fw_local_list tree_world l)" for l by (simp add: tree_world_sel proper_names_def plain_seg_def)
  then show ?thesis using uploads_stay_below_checked_path [OF disjI2 [OF refl] _ _ run xs(2)] p by blast
qed

text \<open>
  The check of a path that begins with a tilde is about the expanded path, the call about the path as
  given: on a server that does not expand the tilde itself, the upload that was admitted for
  \<open>/home/ops/x\<close> goes to a path of another name.
\<close>

lemma tilde_reaches_server:
  "sw_realpath demo_sftp ''~/x'' = Inl (SftpNoSuchFile ''~/x'') \<and>
   sftp_transfer demo_sftp demo_tools ''sess_0'' Upload ''/w/tree'' ''~/x'' = ([DoUpload ''/w/tree'' ''~/x''], Inr ()) \<and>
   sw_realpath demo_sftp (expand_tilde ''~/x'' (sw_home demo_sftp)) = Inr ''/home/ops/x''"
  by (simp add: sftp_transfer_def and_then_def demo_policy_tools demo_open_tools demo_local_tools demo_remote_tools call_def)
    (simp add: demo_sftp_def expand_tilde_def strip_prefix_def)

end
