(* ===== verification/Pty_Writer.thy ===== *)
theory Pty_Writer
  imports Prelude
begin

text \<open>
  The daemon's terminal (agentd/src/pty.rs): the bounded queue between the callers of
  \<open>PtyWriter::send\<close> and the writer thread, as interleaved steps that each hold the lock once, and the
  signals and waits around the child process.  The kernel's answers are arguments.
\<close>

section \<open>The queue\<close>

definition WRITER_QUEUE_BYTES :: nat where "WRITER_QUEUE_BYTES = 256 * 1024"
definition WRITER_CHUNK :: nat where "WRITER_CHUNK = 64 * 1024"
definition SEND_WAIT_MS :: nat where "SEND_WAIT_MS = 5000"

datatype pty_write_error = Closed | Backlogged

record writer_queue =
  wq_chunks :: "bytes list"
  wq_queued :: nat
  wq_closed :: bool

text \<open>\<open>data.chunks(n)\<close>.\<close>

function chunks_of :: "nat \<Rightarrow> bytes \<Rightarrow> bytes list" where
  "chunks_of n [] = []"
| "chunks_of 0 (b # bs) = [b # bs]"
| "chunks_of (Suc n) (b # bs) = take (Suc n) (b # bs) # chunks_of (Suc n) (drop (Suc n) (b # bs))"
  by pat_completeness auto
termination by (relation "measure (\<lambda>(n, bs). length bs)") auto

lemma concat_chunks_of [simp]: "concat (chunks_of n bs) = bs"
  by (induction n bs rule: chunks_of.induct) simp_all

lemma chunks_of_bounds: "c \<in> set (chunks_of n bs) \<Longrightarrow> 0 < n \<Longrightarrow> c \<noteq> [] \<and> length c \<le> n"
  by (induction n bs rule: chunks_of.induct) auto

lemma chunks_of_one: "bs \<noteq> [] \<Longrightarrow> length bs \<le> n \<Longrightarrow> chunks_of n bs = [bs]"
  by (cases n; cases bs) auto

section \<open>Threads\<close>

text \<open>
  A sender holds the chunks it has still to queue, the first one in progress; its data and what it
  queued are only recorded.  \<open>Notifying\<close> is the
  moment between releasing the lock and \<open>notify_one\<close>.
\<close>

datatype phase = Trying | Notifying | Finished "pty_write_error + unit"

record sender =
  sd_data :: bytes
  sd_todo :: "bytes list"
  sd_sent :: "bytes list"
  sd_deadline :: nat
  sd_phase :: phase

datatype writer_phase = WTaking | WWriting bytes nat | WDone

datatype thread = TWriter | TSender nat

text \<open>
  \<open>ws_waiters\<close> are the threads asleep on the condition variable, in the order they came;
  \<open>ws_dropping\<close> is the moment in \<open>drop\<close> between closing the queue and
  \<open>notify_all\<close>.  \<open>ws_pushed\<close> and \<open>ws_lost\<close> only record what was queued and whether a write failed.
\<close>

record wsys =
  ws_queue :: writer_queue
  ws_waiters :: "thread list"
  ws_senders :: "sender list"
  ws_writer :: writer_phase
  ws_dropping :: bool
  ws_now :: nat
  ws_out :: bytes
  ws_pushed :: "bytes list"
  ws_lost :: bool

definition writer_new :: wsys where
  "writer_new = \<lparr>ws_queue = \<lparr>wq_chunks = [], wq_queued = 0, wq_closed = False\<rparr>, ws_waiters = [], ws_senders = [],
     ws_writer = WTaking, ws_dropping = False, ws_now = 0, ws_out = [], ws_pushed = [], ws_lost = False\<rparr>"

definition put_sender :: "nat \<Rightarrow> sender \<Rightarrow> wsys \<Rightarrow> wsys" where
  "put_sender i sd s = s\<lparr>ws_senders := (ws_senders s)[i := sd]\<rparr>"

section \<open>Sending\<close>

definition new_sender :: "nat \<Rightarrow> bytes \<Rightarrow> sender" where
  "new_sender now data =
     \<lparr>sd_data = data, sd_todo = chunks_of WRITER_CHUNK data, sd_sent = [], sd_deadline = now + SEND_WAIT_MS,
      sd_phase = if data = [] then Finished (Inr ()) else Trying\<rparr>"

definition send_start :: "bytes \<Rightarrow> wsys \<Rightarrow> wsys" where
  "send_start data s = s\<lparr>ws_senders := ws_senders s @ [new_sender (ws_now s) data]\<rparr>"

text \<open>One turn of the inner loop of \<open>send\<close>, with the lock: refused, queued, or asleep.\<close>

definition fits :: "writer_queue \<Rightarrow> bytes \<Rightarrow> bool" where
  "fits q c \<longleftrightarrow> wq_queued q + length c \<le> WRITER_QUEUE_BYTES"

definition push_chunk :: "bytes \<Rightarrow> writer_queue \<Rightarrow> writer_queue" where
  "push_chunk c q = q\<lparr>wq_queued := wq_queued q + length c, wq_chunks := wq_chunks q @ [c]\<rparr>"

definition sender_try :: "nat \<Rightarrow> wsys \<Rightarrow> wsys" where
  "sender_try i s =
     (let sd = ws_senders s ! i; q = ws_queue s; c = hd (sd_todo sd)
      in if wq_closed q then put_sender i (sd\<lparr>sd_phase := Finished (Inl Closed)\<rparr>) s
         else if fits q c then
           (put_sender i (sd\<lparr>sd_todo := tl (sd_todo sd), sd_sent := sd_sent sd @ [c], sd_phase := Notifying\<rparr>) s)
             \<lparr>ws_queue := push_chunk c q, ws_pushed := ws_pushed s @ [c]\<rparr>
         else if sd_deadline sd \<le> ws_now s then put_sender i (sd\<lparr>sd_phase := Finished (Inl Backlogged)\<rparr>) s
         else s\<lparr>ws_waiters := ws_waiters s @ [TSender i]\<rparr>)"

text \<open>\<open>notify_one\<close> wakes the thread that \<open>pick\<close> chooses, if one is asleep; then the next chunk.\<close>

definition notify_one :: "(thread list \<Rightarrow> thread) \<Rightarrow> thread list \<Rightarrow> thread list" where
  "notify_one pick ws = (if ws = [] then [] else removeAll (pick ws) ws)"

definition sender_notify :: "(thread list \<Rightarrow> thread) \<Rightarrow> nat \<Rightarrow> wsys \<Rightarrow> wsys" where
  "sender_notify pick i s =
     (let sd = ws_senders s ! i
      in (put_sender i (sd\<lparr>sd_phase := if sd_todo sd = [] then Finished (Inr ()) else Trying\<rparr>) s)
           \<lparr>ws_waiters := notify_one pick (ws_waiters s)\<rparr>)"

section \<open>The writer thread\<close>

definition writer_take :: "wsys \<Rightarrow> wsys" where
  "writer_take s =
     (let q = ws_queue s
      in if wq_closed q then s\<lparr>ws_queue := q\<lparr>wq_chunks := [], wq_queued := 0\<rparr>, ws_waiters := [], ws_writer := WDone\<rparr>
         else case wq_chunks q of
                c # cs \<Rightarrow> s\<lparr>ws_queue := q\<lparr>wq_chunks := cs, wq_queued := wq_queued q - length c\<rparr>, ws_waiters := [],
                              ws_writer := WWriting c 0\<rparr>
              | [] \<Rightarrow> s\<lparr>ws_waiters := ws_waiters s @ [TWriter]\<rparr>)"

datatype write_result = Wrote nat | Interrupted | WouldBlock | WriteFailed

definition writer_write :: "write_result \<Rightarrow> bytes \<Rightarrow> nat \<Rightarrow> wsys \<Rightarrow> wsys" where
  "writer_write res c off s =
     (case res of
        Wrote n \<Rightarrow>
          s\<lparr>ws_out := ws_out s @ take n (drop off c),
            ws_writer := if off + n < length c then WWriting c (off + n) else WTaking\<rparr>
      | Interrupted \<Rightarrow> s
      | WouldBlock \<Rightarrow> s
      | WriteFailed \<Rightarrow> s\<lparr>ws_writer := WTaking, ws_lost := True\<rparr>)"

section \<open>Dropping the writer\<close>

definition drop_close :: "wsys \<Rightarrow> wsys" where
  "drop_close s = s\<lparr>ws_queue := (ws_queue s)\<lparr>wq_closed := True\<rparr>, ws_dropping := True\<rparr>"

definition drop_notify :: "wsys \<Rightarrow> wsys" where
  "drop_notify s = s\<lparr>ws_waiters := [], ws_dropping := False\<rparr>"

section \<open>Interleaving\<close>

text \<open>A write returns at most the bytes it was given.  A sleeping sender may also wake by itself.\<close>

inductive wstep :: "(thread list \<Rightarrow> thread) \<Rightarrow> wsys \<Rightarrow> wsys \<Rightarrow> bool" for pick where
  step_start: "wstep pick s (send_start data s)"
| step_try: "i < length (ws_senders s) \<Longrightarrow> sd_phase (ws_senders s ! i) = Trying \<Longrightarrow> TSender i \<notin> set (ws_waiters s) \<Longrightarrow>
    wstep pick s (sender_try i s)"
| step_notify: "i < length (ws_senders s) \<Longrightarrow> sd_phase (ws_senders s ! i) = Notifying \<Longrightarrow> wstep pick s (sender_notify pick i s)"
| step_wake: "wstep pick s (s\<lparr>ws_waiters := removeAll (TSender i) (ws_waiters s)\<rparr>)"
| step_take: "ws_writer s = WTaking \<Longrightarrow> TWriter \<notin> set (ws_waiters s) \<Longrightarrow> wstep pick s (writer_take s)"
| step_write: "ws_writer s = WWriting c off \<Longrightarrow> (\<And>n. res = Wrote n \<Longrightarrow> n \<le> length c - off) \<Longrightarrow>
    wstep pick s (writer_write res c off s)"
| step_close: "\<not> wq_closed (ws_queue s) \<Longrightarrow> wstep pick s (drop_close s)"
| step_closed: "ws_dropping s \<Longrightarrow> wstep pick s (drop_notify s)"
| step_tick: "wstep pick s (s\<lparr>ws_now := ws_now s + 1\<rparr>)"

section \<open>The bound on the queue, order and loss\<close>

text \<open>What a sender has still to do and has done, and what its result says.\<close>

definition sender_ok :: "nat \<Rightarrow> sender \<Rightarrow> bool" where
  "sender_ok now sd \<longleftrightarrow>
     concat (sd_sent sd @ sd_todo sd) = sd_data sd \<and>
     (\<forall>c \<in> set (sd_todo sd). c \<noteq> [] \<and> length c \<le> WRITER_CHUNK) \<and>
     (case sd_phase sd of
        Trying \<Rightarrow> sd_todo sd \<noteq> []
      | Notifying \<Rightarrow> True
      | Finished (Inr _) \<Rightarrow> sd_todo sd = []
      | Finished (Inl Closed) \<Rightarrow> sd_todo sd \<noteq> []
      | Finished (Inl Backlogged) \<Rightarrow> sd_todo sd \<noteq> [] \<and> sd_deadline sd \<le> now)"

definition in_flight :: "wsys \<Rightarrow> bytes" where
  "in_flight s = (case ws_writer s of WWriting c off \<Rightarrow> drop off c | _ \<Rightarrow> [])"

definition queue_ok :: "writer_queue \<Rightarrow> bool" where
  "queue_ok q \<longleftrightarrow>
     wq_queued q = sum_list (map length (wq_chunks q)) \<and> wq_queued q \<le> WRITER_QUEUE_BYTES \<and>
     (\<forall>c \<in> set (wq_chunks q). c \<noteq> [] \<and> length c \<le> WRITER_CHUNK)"

definition senders_ok :: "wsys \<Rightarrow> bool" where
  "senders_ok s \<longleftrightarrow> (\<forall>sd \<in> set (ws_senders s). sender_ok (ws_now s) sd)"

definition sent_ok :: "wsys \<Rightarrow> bool" where
  "sent_ok s \<longleftrightarrow> (\<forall>sd \<in> set (ws_senders s). subseq (sd_sent sd) (ws_pushed s))"

text \<open>Without a failed write, what was written, is being written and is queued is what was pushed.\<close>

definition stream_ok :: "wsys \<Rightarrow> bool" where
  "stream_ok s \<longleftrightarrow> ws_lost s \<or>
     (if ws_writer s = WDone then prefix (ws_out s) (concat (ws_pushed s))
      else ws_out s @ in_flight s @ concat (wq_chunks (ws_queue s)) = concat (ws_pushed s))"

definition wf_writer :: "wsys \<Rightarrow> bool" where
  "wf_writer s \<longleftrightarrow> queue_ok (ws_queue s) \<and> senders_ok s \<and> stream_ok s"

lemma sender_ok_new: "sender_ok now (new_sender now data)"
proof -
  have "chunks_of WRITER_CHUNK data \<noteq> []" if "data \<noteq> []"
    using that concat_chunks_of [of WRITER_CHUNK data] by (metis concat.simps(1))
  moreover have "0 < WRITER_CHUNK" by (simp add: WRITER_CHUNK_def)
  ultimately show ?thesis
    using chunks_of_bounds [of _ WRITER_CHUNK data] by (auto simp: sender_ok_def new_sender_def)
qed

lemma sender_ok_later: "sender_ok now sd \<Longrightarrow> now \<le> now' \<Longrightarrow> sender_ok now' sd"
  by (auto simp: sender_ok_def split: phase.split sum.split pty_write_error.split)

lemma senders_put: "senders_ok s \<Longrightarrow> sender_ok (ws_now s) sd \<Longrightarrow> senders_ok (put_sender i sd s)"
  unfolding senders_ok_def put_sender_def
  by (auto dest: set_update_subset_insert [THEN subsetD])

lemma senders_nth: "senders_ok s \<Longrightarrow> i < length (ws_senders s) \<Longrightarrow> sender_ok (ws_now s) (ws_senders s ! i)"
  by (simp add: senders_ok_def)

text \<open>Fields an update leaves alone.\<close>

lemma senders_ok_cong [simp]:
  "senders_ok (s\<lparr>ws_queue := q\<rparr>) = senders_ok s" "senders_ok (s\<lparr>ws_waiters := ws\<rparr>) = senders_ok s"
  "senders_ok (s\<lparr>ws_writer := wr\<rparr>) = senders_ok s" "senders_ok (s\<lparr>ws_dropping := b\<rparr>) = senders_ok s"
  "senders_ok (s\<lparr>ws_out := out\<rparr>) = senders_ok s" "senders_ok (s\<lparr>ws_pushed := p\<rparr>) = senders_ok s"
  "senders_ok (s\<lparr>ws_lost := b\<rparr>) = senders_ok s"
  by (simp_all add: senders_ok_def)

lemma stream_ok_cong [simp]:
  "stream_ok (s\<lparr>ws_waiters := ws\<rparr>) = stream_ok s" "stream_ok (s\<lparr>ws_senders := sds\<rparr>) = stream_ok s"
  "stream_ok (s\<lparr>ws_dropping := b\<rparr>) = stream_ok s" "stream_ok (s\<lparr>ws_now := n\<rparr>) = stream_ok s"
  "stream_ok (put_sender i sd s) = stream_ok s"
  by (simp_all add: stream_ok_def in_flight_def put_sender_def)

lemma put_sender_sel [simp]:
  "ws_queue (put_sender i sd s) = ws_queue s" "ws_waiters (put_sender i sd s) = ws_waiters s"
  "ws_writer (put_sender i sd s) = ws_writer s" "ws_now (put_sender i sd s) = ws_now s"
  "ws_pushed (put_sender i sd s) = ws_pushed s" "ws_dropping (put_sender i sd s) = ws_dropping s"
  "ws_out (put_sender i sd s) = ws_out s" "ws_lost (put_sender i sd s) = ws_lost s"
  "ws_senders (put_sender i sd s) = (ws_senders s)[i := sd]"
  by (simp_all add: put_sender_def)

lemma queue_ok_push:
  "queue_ok q \<Longrightarrow> fits q c \<Longrightarrow> c \<noteq> [] \<Longrightarrow> length c \<le> WRITER_CHUNK \<Longrightarrow> queue_ok (push_chunk c q)"
  by (auto simp: queue_ok_def fits_def push_chunk_def)

lemma stream_ok_push:
  "stream_ok s \<Longrightarrow> stream_ok ((put_sender i sd s)\<lparr>ws_queue := push_chunk c (ws_queue s), ws_pushed := ws_pushed s @ [c]\<rparr>)"
  by (cases "ws_writer s") (auto simp: stream_ok_def in_flight_def push_chunk_def prefix_def)

lemma wf_try:
  assumes "wf_writer s" "i < length (ws_senders s)" "sd_phase (ws_senders s ! i) = Trying"
  shows "wf_writer (sender_try i s)"
proof -
  let ?sd = "ws_senders s ! i"
  have s: "queue_ok (ws_queue s)" "senders_ok s" "stream_ok s" using assms(1) by (simp_all add: wf_writer_def)
  have ok: "sender_ok (ws_now s) ?sd" by (rule senders_nth [OF s(2) assms(2)])
  then obtain c cs where c: "sd_todo ?sd = c # cs" "c \<noteq> []" "length c \<le> WRITER_CHUNK"
    using assms(3) by (cases "sd_todo ?sd") (auto simp: sender_ok_def)
  have "sender_ok (ws_now s) (?sd\<lparr>sd_phase := Finished (Inl Closed)\<rparr>)"
    "sender_ok (ws_now s) (?sd\<lparr>sd_todo := cs, sd_sent := sd_sent ?sd @ [c], sd_phase := Notifying\<rparr>)"
    "sd_deadline ?sd \<le> ws_now s \<Longrightarrow> sender_ok (ws_now s) (?sd\<lparr>sd_phase := Finished (Inl Backlogged)\<rparr>)"
    using ok c by (auto simp: sender_ok_def)
  then show ?thesis
    using s c unfolding wf_writer_def sender_try_def Let_def
    by (simp add: senders_put queue_ok_push stream_ok_push)
qed

lemma appended_prefix: "xs @ ys = zs \<Longrightarrow> prefix xs zs"
  by (auto simp: prefix_def)

lemma wf_take: "wf_writer s \<Longrightarrow> ws_writer s = WTaking \<Longrightarrow> wf_writer (writer_take s)"
  by (auto simp: wf_writer_def writer_take_def queue_ok_def stream_ok_def in_flight_def Let_def intro: appended_prefix split: list.split)

lemma take_drop_append: "take n xs @ drop n xs @ ys = xs @ ys"
  by (metis append.assoc append_take_drop_id)

lemma wf_write: "wf_writer s \<Longrightarrow> ws_writer s = WWriting c off \<Longrightarrow> wf_writer (writer_write res c off s)"
  by (auto simp: wf_writer_def writer_write_def stream_ok_def in_flight_def add.commute take_drop_append
      simp flip: drop_drop split: write_result.split)

lemma wf_step: "wstep pick s s' \<Longrightarrow> wf_writer s \<Longrightarrow> wf_writer s'"
proof (induction rule: wstep.induct)
  case (step_start s data)
  then show ?case by (auto simp: wf_writer_def senders_ok_def send_start_def sender_ok_new)
next
  case (step_notify i s)
  let ?sd = "ws_senders s ! i"
  have "sender_ok (ws_now s) ?sd" using step_notify senders_nth by (auto simp: wf_writer_def)
  then have "sender_ok (ws_now s) (?sd\<lparr>sd_phase := if sd_todo ?sd = [] then Finished (Inr ()) else Trying\<rparr>)"
    by (auto simp: sender_ok_def)
  then show ?case
    using step_notify by (simp add: wf_writer_def sender_notify_def Let_def senders_put)
next
  case (step_tick s)
  then show ?case by (auto simp: wf_writer_def senders_ok_def intro: sender_ok_later)
next
  case (step_close s)
  then show ?case by (auto simp: wf_writer_def drop_close_def queue_ok_def stream_ok_def in_flight_def)
qed (simp_all add: wf_try wf_take wf_write, simp_all add: drop_notify_def wf_writer_def)

lemma wf_new: "wf_writer writer_new"
  by (simp add: wf_writer_def writer_new_def queue_ok_def senders_ok_def stream_ok_def in_flight_def)

lemma wf_reachable: "(wstep pick)\<^sup>*\<^sup>* writer_new s \<Longrightarrow> wf_writer s"
  by (induction rule: rtranclp_induct) (auto simp: wf_new wf_step)

text \<open>
  (C18) The input queue is bounded and ordered.  However the threads interleave, the queued bytes are counted
  exactly and never exceed 256 KiB, no queued chunk is empty or longer than 64 KiB, and as long as no write failed
  the terminal received a beginning of what was queued: nothing twice, nothing out of order.
\<close>

theorem input_queue_bounded:
  assumes "(wstep pick)\<^sup>*\<^sup>* writer_new s"
  shows "wq_queued (ws_queue s) = sum_list (map length (wq_chunks (ws_queue s))) \<and>
    wq_queued (ws_queue s) \<le> 256 * 1024 \<and>
    list_all (\<lambda>c. c \<noteq> [] \<and> length c \<le> 64 * 1024) (wq_chunks (ws_queue s)) \<and>
    (ws_lost s \<or> prefix (ws_out s) (concat (ws_pushed s)))"
proof -
  have wf: "queue_ok (ws_queue s)" "stream_ok s" using wf_reachable [OF assms] by (simp_all add: wf_writer_def)
  moreover have "ws_lost s \<or> prefix (ws_out s) (concat (ws_pushed s))"
    using wf(2) by (auto simp: stream_ok_def split: if_splits intro: appended_prefix)
  ultimately show ?thesis
    by (simp add: queue_ok_def list_all_iff WRITER_QUEUE_BYTES_def WRITER_CHUNK_def)
qed

section \<open>No wake-up is lost\<close>

text \<open>
  Senders and the writer thread sleep on one condition variable, and a sender wakes only one thread.
  The writer sleeps at the head of the queue of waiters, with a notification under way if there is work.
\<close>

definition pending_notify :: "wsys \<Rightarrow> bool" where
  "pending_notify s \<longleftrightarrow> list_ex (\<lambda>sd. sd_phase sd = Notifying) (ws_senders s)"

definition wake_ok :: "wsys \<Rightarrow> bool" where
  "wake_ok s \<longleftrightarrow>
     distinct (ws_waiters s) \<and>
     (\<forall>i. TSender i \<in> set (ws_waiters s) \<longrightarrow> wq_chunks (ws_queue s) \<noteq> [] \<or> wq_closed (ws_queue s)) \<and>
     (TWriter \<in> set (ws_waiters s) \<longrightarrow>
        hd (ws_waiters s) = TWriter \<and> ws_writer s = WTaking \<and>
        (wq_chunks (ws_queue s) = [] \<or> pending_notify s) \<and> (wq_closed (ws_queue s) \<longrightarrow> ws_dropping s))"

lemma pending_other:
  "pending_notify s \<Longrightarrow> sd_phase (ws_senders s ! i) \<noteq> Notifying \<Longrightarrow> i < length (ws_senders s) \<Longrightarrow> pending_notify (put_sender i sd s)"
  unfolding pending_notify_def list_ex_iff put_sender_sel
  by (metis in_set_conv_nth length_list_update nth_list_update_neq)

lemma pending_cong [simp]:
  "pending_notify (s\<lparr>ws_queue := q\<rparr>) = pending_notify s" "pending_notify (s\<lparr>ws_waiters := ws\<rparr>) = pending_notify s"
  "pending_notify (s\<lparr>ws_writer := wr\<rparr>) = pending_notify s" "pending_notify (s\<lparr>ws_dropping := b\<rparr>) = pending_notify s"
  "pending_notify (s\<lparr>ws_now := n\<rparr>) = pending_notify s" "pending_notify (s\<lparr>ws_out := out\<rparr>) = pending_notify s"
  "pending_notify (s\<lparr>ws_pushed := p\<rparr>) = pending_notify s" "pending_notify (s\<lparr>ws_lost := b\<rparr>) = pending_notify s"
  by (simp_all add: pending_notify_def)

lemma pending_put: "sd_phase sd = Notifying \<Longrightarrow> i < length (ws_senders s) \<Longrightarrow> pending_notify (put_sender i sd s)"
  unfolding pending_notify_def list_ex_iff put_sender_sel by (meson set_update_memI)

lemma pending_start: "pending_notify s \<Longrightarrow> pending_notify (send_start data s)"
  by (auto simp: pending_notify_def send_start_def)

lemma full_queue: "queue_ok q \<Longrightarrow> \<not> fits q c \<Longrightarrow> length c \<le> WRITER_CHUNK \<Longrightarrow> wq_chunks q \<noteq> []"
  by (auto simp: queue_ok_def fits_def WRITER_CHUNK_def WRITER_QUEUE_BYTES_def)

lemma wake_try:
  assumes "wake_ok s" "wf_writer s" "i < length (ws_senders s)" "sd_phase (ws_senders s ! i) = Trying"
    "TSender i \<notin> set (ws_waiters s)"
  shows "wake_ok (sender_try i s)"
proof -
  let ?sd = "ws_senders s ! i" and ?q = "ws_queue s"
  have "sender_ok (ws_now s) ?sd" using assms(2,3) senders_nth by (simp add: wf_writer_def)
  then have len: "length (hd (sd_todo ?sd)) \<le> WRITER_CHUNK"
    using assms(4) by (cases "sd_todo ?sd") (auto simp: sender_ok_def)
  have finished: "wake_ok (put_sender i (?sd\<lparr>sd_phase := Finished (Inl e)\<rparr>) s)" for e
    using assms(1,3,4) pending_other [of s i] by (auto simp: wake_ok_def)
  have pushed: "wake_ok ((put_sender i sd s)\<lparr>ws_queue := push_chunk c ?q, ws_pushed := p\<rparr>)"
    if "sd_phase sd = Notifying" for sd c p
    using assms(1,3) that pending_put [of sd i s] by (auto simp: wake_ok_def push_chunk_def)
  have asleep: "wake_ok (s\<lparr>ws_waiters := ws_waiters s @ [TSender i]\<rparr>)" if "\<not> fits ?q (hd (sd_todo ?sd))"
    using assms(1,5) full_queue [OF _ that len] assms(2) by (auto simp: wake_ok_def wf_writer_def hd_append)
  show ?thesis
    unfolding sender_try_def Let_def by (simp add: finished pushed asleep)
qed

lemma wake_notify:
  assumes "wake_ok s" "\<And>ws. ws \<noteq> [] \<Longrightarrow> pick ws = hd ws"
  shows "wake_ok (sender_notify pick i s)"
proof (cases "ws_waiters s")
  case Nil
  then show ?thesis using assms(1) by (simp add: wake_ok_def sender_notify_def Let_def notify_one_def)
next
  case (Cons t ts)
  then have "ws_waiters (sender_notify pick i s) = ts" "TWriter \<notin> set ts"
    using assms by (auto simp: wake_ok_def sender_notify_def Let_def notify_one_def)
  then show ?thesis using assms(1) Cons by (auto simp: wake_ok_def sender_notify_def Let_def)
qed

lemma wake_step:
  assumes "wstep pick s s'" "wake_ok s" "wf_writer s" "\<And>ws. ws \<noteq> [] \<Longrightarrow> pick ws = hd ws"
  shows "wake_ok s'"
  using assms
proof (induction rule: wstep.induct)
  case (step_start s data)
  then show ?case using pending_start [of s data] by (auto simp: wake_ok_def send_start_def)
next
  case (step_wake s i)
  have "hd (removeAll (TSender i) ws) = TWriter" if "hd ws = TWriter" "TWriter \<in> set ws" for ws
    using that by (cases ws) auto
  then show ?case using step_wake by (auto simp: wake_ok_def distinct_removeAll)
next
  case (step_take s)
  have "ws_waiters s = []" if "wq_chunks (ws_queue s) = []" "\<not> wq_closed (ws_queue s)"
  proof -
    have "t \<notin> set (ws_waiters s)" for t
      using step_take that by (cases t) (auto simp: wake_ok_def)
    then show ?thesis by (meson last_in_set)
  qed
  then show ?case using step_take by (auto simp: wake_ok_def writer_take_def Let_def split: list.split)
next
  case (step_write s c off res)
  then show ?case by (auto simp: wake_ok_def writer_write_def split: write_result.split)
next
  case (step_close s)
  then show ?case by (auto simp: wake_ok_def drop_close_def)
next
  case (step_closed s)
  then show ?case by (auto simp: wake_ok_def drop_notify_def)
next
  case (step_tick s)
  then show ?case by (auto simp: wake_ok_def)
qed (auto simp: wake_try wake_notify)

lemma wake_reachable: "(wstep hd)\<^sup>*\<^sup>* writer_new s \<Longrightarrow> wake_ok s"
proof (induction rule: rtranclp_induct)
  case base
  show ?case by (simp add: wake_ok_def writer_new_def)
next
  case (step s s')
  then show ?case using wake_step [of hd s s'] wf_reachable [of hd s] by simp
qed

text \<open>
  No wake-up is lost.  If the condition variable wakes the thread that waits longest, a sleeping
  writer has nothing to write, or some sender is about to notify and that notification wakes the writer
  and no sender instead; and a queue closed while the writer sleeps is about to wake everyone.
\<close>

lemma no_lost_wakeup:
  assumes "(wstep hd)\<^sup>*\<^sup>* writer_new s" "TWriter \<in> set (ws_waiters s)"
  shows "(wq_chunks (ws_queue s) = [] \<or>
      (\<exists>i. i < length (ws_senders s) \<and> sd_phase (ws_senders s ! i) = Notifying \<and>
           TWriter \<notin> set (ws_waiters (sender_notify hd i s)))) \<and>
    (\<not> wq_closed (ws_queue s) \<or> ws_dropping s)"
proof -
  have ok: "hd (ws_waiters s) = TWriter" "wq_chunks (ws_queue s) = [] \<or> pending_notify s" "\<not> wq_closed (ws_queue s) \<or> ws_dropping s"
    using wake_reachable [OF assms(1)] assms(2) by (auto simp: wake_ok_def)
  have "TWriter \<notin> set (ws_waiters (sender_notify hd i s))" for i
    using ok(1) by (simp add: sender_notify_def Let_def notify_one_def)
  then show ?thesis
    using ok(2,3) by (auto simp: pending_notify_def list_ex_iff in_set_conv_nth)
qed

section \<open>What a caller learns\<close>

lemma sent_step: "wstep pick s s' \<Longrightarrow> sent_ok s \<Longrightarrow> sent_ok s'"
proof (induction rule: wstep.induct)
  case (step_try i s)
  let ?sd = "ws_senders s ! i"
  have all: "subseq (sd_sent sd) (ws_pushed s)" if "sd \<in> set (ws_senders s)" for sd
    using step_try.prems that by (simp add: sent_ok_def)
  have mine: "subseq (sd_sent ?sd) (ws_pushed s)" using all step_try.hyps(1) by simp
  have kept: "subseq (sd_sent sd) (ws_pushed s)" if "sd \<in> set ((ws_senders s)[i := ?sd\<lparr>sd_phase := p\<rparr>])" for sd p
    using set_update_subset_insert [THEN subsetD, OF that] all mine by auto
  have more: "subseq (sd_sent sd) (ws_pushed s @ [c])"
    if "sd \<in> set ((ws_senders s)[i := ?sd\<lparr>sd_todo := t, sd_sent := sd_sent ?sd @ [c], sd_phase := p\<rparr>])" for sd t c p
    using set_update_subset_insert [THEN subsetD, OF that] all mine
    by (auto intro: subseq_append_iff [THEN iffD2] list_emb_append_mono list_emb_append2)
  show ?case
    using step_try.prems kept more by (simp add: sent_ok_def sender_try_def Let_def)
next
  case (step_notify i s)
  let ?sd = "ws_senders s ! i"
  have "subseq (sd_sent sd) (ws_pushed s)" if "sd \<in> set ((ws_senders s)[i := ?sd\<lparr>sd_phase := p\<rparr>])" for sd p
    using set_update_subset_insert [THEN subsetD, OF that] step_notify by (auto simp: sent_ok_def)
  then show ?case by (simp add: sent_ok_def sender_notify_def Let_def)
next
  case (step_take s)
  then show ?case by (auto simp: sent_ok_def writer_take_def Let_def split: list.split)
next
  case (step_write s c off res)
  then show ?case by (auto simp: sent_ok_def writer_write_def split: write_result.split)
qed (auto simp: sent_ok_def send_start_def new_sender_def drop_close_def drop_notify_def)

lemma sent_reachable: "(wstep pick)\<^sup>*\<^sup>* writer_new s \<Longrightarrow> sent_ok s"
  by (induction rule: rtranclp_induct) (auto simp: sent_step, simp add: sent_ok_def writer_new_def)

text \<open>
  What the result of \<open>send\<close> says.  A call that succeeded queued exactly its data; one that failed
  queued a proper beginning of it, by whole chunks, which the terminal still receives, and it reports backlog only after
  its five seconds were over.  In every case its chunks entered the queue in order.
\<close>

lemma send_result:
  assumes "(wstep pick)\<^sup>*\<^sup>* writer_new s" "sd \<in> set (ws_senders s)" "sd_phase sd = Finished r"
  shows "subseq (sd_sent sd) (ws_pushed s) \<and>
    (case r of
       Inr _ \<Rightarrow> concat (sd_sent sd) = sd_data sd
     | Inl e \<Rightarrow> strict_prefix (concat (sd_sent sd)) (sd_data sd) \<and> (e = Closed \<or> sd_deadline sd \<le> ws_now s))"
proof -
  have ok: "sender_ok (ws_now s) sd" using wf_reachable [OF assms(1)] assms(2) by (simp add: wf_writer_def senders_ok_def)
  have "strict_prefix (concat (sd_sent sd)) (sd_data sd)" if "sd_todo sd \<noteq> []"
  proof -
    have "concat (sd_todo sd) \<noteq> []" using ok that by (auto simp: sender_ok_def neq_Nil_conv)
    moreover have "sd_data sd = concat (sd_sent sd) @ concat (sd_todo sd)" using ok by (simp add: sender_ok_def)
    ultimately show ?thesis by (simp add: strict_prefix_def)
  qed
  then show ?thesis
    using ok assms(3) sent_reachable [OF assms(1)] assms(2)
    by (auto simp: sender_ok_def sent_ok_def split: sum.splits pty_write_error.splits)
qed

section \<open>Runs\<close>

text \<open>Five senders of one full chunk each, some of which have pushed it.\<close>

definition full_chunk :: bytes where
  "full_chunk = replicate WRITER_CHUNK 0x61"

definition sender_at :: "phase \<Rightarrow> sender" where
  "sender_at ph = \<lparr>sd_data = full_chunk, sd_todo = if ph = Trying then [full_chunk] else [], sd_sent = if ph = Trying then [] else [full_chunk],
     sd_deadline = SEND_WAIT_MS, sd_phase = ph\<rparr>"

definition jam :: "phase list \<Rightarrow> nat \<Rightarrow> thread list \<Rightarrow> wsys" where
  "jam phs n ws = writer_new\<lparr>ws_queue := \<lparr>wq_chunks = replicate n full_chunk, wq_queued = n * WRITER_CHUNK, wq_closed = False\<rparr>,
     ws_waiters := ws, ws_senders := map sender_at phs, ws_pushed := replicate n full_chunk\<rparr>"

lemma jam_sel:
  "ws_waiters (jam phs n ws) = ws" "ws_senders (jam phs n ws) = map sender_at phs" "ws_pushed (jam phs n ws) = replicate n full_chunk"
  "wq_chunks (ws_queue (jam phs n ws)) = replicate n full_chunk"
  by (simp_all add: jam_def)

lemma full_chunk_length [simp]: "length full_chunk = WRITER_CHUNK"
  by (simp add: full_chunk_def)

lemma full_chunk_ne [simp]: "full_chunk \<noteq> []"
  using full_chunk_length by (metis WRITER_CHUNK_def list.size(3) zero_neq_numeral mult_is_0)

lemma new_sender_full: "new_sender 0 full_chunk = sender_at Trying"
  by (simp add: new_sender_def sender_at_def chunks_of_one)

lemma jam_start: "wstep pick (jam phs n ws) (jam (phs @ [Trying]) n ws)"
proof -
  have "send_start full_chunk (jam phs n ws) = jam (phs @ [Trying]) n ws"
    by (simp add: send_start_def jam_def writer_new_def new_sender_full)
  then show ?thesis by (metis step_start)
qed

lemma jam_sleep: "TWriter \<notin> set ws \<Longrightarrow> wstep pick (jam phs 0 ws) (jam phs 0 (ws @ [TWriter]))"
  using step_take [of "jam phs 0 ws" pick] by (simp add: writer_take_def jam_def writer_new_def)

lemma jam_push:
  assumes "i < length phs" "phs ! i = Trying" "TSender i \<notin> set ws" "n < 4"
  shows "wstep pick (jam phs n ws) (jam (phs[i := Notifying]) (n + 1) ws)"
proof -
  have "sender_try i (jam phs n ws) = jam (phs[i := Notifying]) (n + 1) ws"
    using assms by (simp add: sender_try_def jam_def writer_new_def Let_def put_sender_def fits_def push_chunk_def
        WRITER_CHUNK_def WRITER_QUEUE_BYTES_def replicate_append_same map_update sender_at_def)
  then show ?thesis using step_try [of i "jam phs n ws" pick] assms by (simp add: jam_def sender_at_def)
qed

lemma jam_wait:
  assumes "i < length phs" "phs ! i = Trying" "TSender i \<notin> set ws"
  shows "wstep pick (jam phs 4 ws) (jam phs 4 (ws @ [TSender i]))"
proof -
  have "sender_try i (jam phs 4 ws) = jam phs 4 (ws @ [TSender i])"
    using assms by (simp add: sender_try_def jam_def writer_new_def Let_def fits_def
        WRITER_CHUNK_def WRITER_QUEUE_BYTES_def sender_at_def SEND_WAIT_MS_def)
  then show ?thesis using step_try [of i "jam phs 4 ws" pick] assms by (simp add: jam_def sender_at_def)
qed

lemma jam_notify:
  assumes "i < length phs" "phs ! i = Notifying"
  shows "wstep pick (jam phs n ws) (jam (phs[i := Finished (Inr ())]) n (notify_one pick ws))"
proof -
  have "sender_notify pick i (jam phs n ws) = jam (phs[i := Finished (Inr ())]) n (notify_one pick ws)"
    using assms by (simp add: sender_notify_def jam_def writer_new_def Let_def put_sender_def map_update sender_at_def)
  then show ?thesis using step_notify [of i "jam phs n ws" pick] assms by (simp add: jam_def sender_at_def)
qed

text \<open>The writer is asleep, four senders have pushed, the fifth waits for room.\<close>

lemma jam_run:
  "(wstep pick)\<^sup>*\<^sup>* writer_new (jam [Notifying, Notifying, Notifying, Notifying, Trying] 4 [TWriter, TSender 4])"
proof -
  let ?T = Trying and ?N = Notifying
  note path = rtranclp.rtrancl_into_rtrancl [of "wstep pick" writer_new]
  have "writer_new = jam [] 0 []" by (simp add: jam_def writer_new_def)
  then have "(wstep pick)\<^sup>*\<^sup>* writer_new (jam [] 0 [])" by simp
  from path [OF this jam_start] path [OF _ jam_start]
  have "(wstep pick)\<^sup>*\<^sup>* writer_new (jam [?T, ?T, ?T, ?T, ?T] 0 [])"
    by (metis append_Cons append_Nil)
  from path [OF this jam_sleep] have "(wstep pick)\<^sup>*\<^sup>* writer_new (jam [?T, ?T, ?T, ?T, ?T] 0 [TWriter])" by simp
  from path [OF this jam_push [of 0]] have "(wstep pick)\<^sup>*\<^sup>* writer_new (jam [?N, ?T, ?T, ?T, ?T] 1 [TWriter])" by simp
  from path [OF this jam_push [of 1]] have "(wstep pick)\<^sup>*\<^sup>* writer_new (jam [?N, ?N, ?T, ?T, ?T] 2 [TWriter])"
    by (simp add: numeral_2_eq_2)
  from path [OF this jam_push [of 2]] have "(wstep pick)\<^sup>*\<^sup>* writer_new (jam [?N, ?N, ?N, ?T, ?T] 3 [TWriter])" by simp
  from path [OF this jam_push [of 3]] have "(wstep pick)\<^sup>*\<^sup>* writer_new (jam [?N, ?N, ?N, ?N, ?T] 4 [TWriter])" by simp
  from path [OF this jam_wait [of 4]] show ?thesis by simp
qed

theorem input_queue_bounded_witness:
  "wq_queued (ws_queue (jam [Notifying, Notifying, Notifying, Notifying, Trying] 4 [TWriter, TSender 4])) \<le> 256 * 1024"
  using input_queue_bounded [OF jam_run] by blast

text \<open>
  The order of waking matters: with a condition variable that wakes the thread that came last, the
  waiting sender takes every notification, and the writer sleeps on with a full queue and no notification
  under way.
\<close>

lemma wakeup_lost_with_last:
  "\<exists>s. (wstep last)\<^sup>*\<^sup>* writer_new s \<and> TWriter \<in> set (ws_waiters s) \<and> wq_chunks (ws_queue s) \<noteq> [] \<and> \<not> pending_notify s"
proof -
  let ?F = "Finished (Inr ())"
  note path = rtranclp.rtrancl_into_rtrancl [of "wstep last" writer_new]
  have again: "(wstep last)\<^sup>*\<^sup>* writer_new (jam (phs[i := ?F]) 4 [TWriter, TSender 4])"
    if "(wstep last)\<^sup>*\<^sup>* writer_new (jam phs 4 [TWriter, TSender 4])" "length phs = 5" "phs ! 4 = Trying" "i < 4" "phs ! i = Notifying"
    for phs i
    using path [OF path [OF that(1) jam_notify [of i]] jam_wait [of 4]] that by (simp add: notify_one_def)
  have "(wstep last)\<^sup>*\<^sup>* writer_new (jam [?F, ?F, ?F, ?F, Trying] 4 [TWriter, TSender 4])"
    using again [OF again [OF again [OF again [OF jam_run, of 0], of 1], of 2], of 3] by simp
  moreover have "\<not> pending_notify (jam [?F, ?F, ?F, ?F, Trying] 4 [TWriter, TSender 4])"
    by (simp add: pending_notify_def jam_def writer_new_def sender_at_def)
  moreover have "TWriter \<in> set (ws_waiters (jam phs 4 [TWriter, TSender 4]))" "wq_chunks (ws_queue (jam phs 4 [TWriter, TSender 4])) \<noteq> []" for phs
    by (simp_all add: jam_def writer_new_def)
  ultimately show ?thesis by blast
qed

text \<open>A sender that times out: its result is an error although it queued nothing, and one that queued everything succeeds.\<close>

section \<open>The child process\<close>

text \<open>
  What \<open>waitpid\<close> may answer, and the signals \<open>kill_child\<close> sends: to the process group, and to the
  leader alone when there is no such group.
\<close>

datatype wait_answer = Exited int | Signaled int | StillAlive | OtherStatus | WaitError

datatype kill_answer = Delivered | NoSuchProcess | KillRefused

definition kill_child :: "(int \<Rightarrow> kill_answer) \<Rightarrow> int \<Rightarrow> int list" where
  "kill_child answer pid = - pid # (if answer (- pid) = NoSuchProcess then [pid] else [])"

fun try_reap :: "wait_answer \<Rightarrow> int option" where
  "try_reap (Exited n) = Some n"
| "try_reap (Signaled n) = Some (128 + n)"
| "try_reap _ = None"

text \<open>\<open>wait_child\<close> on the answers to its successive calls; \<open>None\<close> while it still waits.\<close>

fun wait_child :: "wait_answer list \<Rightarrow> (unit + int) option" where
  "wait_child [] = None"
| "wait_child (a # as) =
     (case a of
        Exited n \<Rightarrow> Some (Inr n)
      | Signaled n \<Rightarrow> Some (Inr (128 + n))
      | WaitError \<Rightarrow> Some (Inl ())
      | _ \<Rightarrow> wait_child as)"

text \<open>
  The end of a terminal: kill, one attempt to reap, and while the child lives more attempts until 200
  milliseconds are over.  Each entry is the time at which the loop tests its deadline and the answer to
  the attempt after the pause; the result is the number of attempts in the loop.
\<close>

fun poll_reap :: "nat \<Rightarrow> (nat \<times> wait_answer) list \<Rightarrow> nat option" where
  "poll_reap deadline [] = None"
| "poll_reap deadline ((now, a) # rest) =
     (if now < deadline then (if a = StillAlive then map_option Suc (poll_reap deadline rest) else Some 1) else Some 0)"

definition drop_pty :: "(int \<Rightarrow> kill_answer) \<Rightarrow> int \<Rightarrow> wait_answer \<Rightarrow> nat \<Rightarrow> (nat \<times> wait_answer) list \<Rightarrow> int list \<times> nat option" where
  "drop_pty answer pid first start polls =
     (kill_child answer pid, if first = StillAlive then poll_reap (start + 200) polls else Some 0)"

lemma poll_reap_bound:
  assumes "\<forall>i < length polls. t + 10 * i \<le> fst (polls ! i)" "deadline \<le> t + 10 * n" "n < length polls"
  shows "\<exists>k \<le> n. poll_reap deadline polls = Some k"
  using assms
proof (induction polls arbitrary: t n)
  case (Cons p ps)
  obtain now a where p: "p = (now, a)" by (cases p)
  show ?case
  proof (cases n)
    case 0
    then have "deadline \<le> now" using Cons.prems(1,2) p by (force dest: spec [of _ 0])
    then show ?thesis using p by simp
  next
    case (Suc m)
    have "\<forall>i < length ps. (t + 10) + 10 * i \<le> fst (ps ! i)"
    proof (intro allI impI)
      fix i assume "i < length ps"
      then show "(t + 10) + 10 * i \<le> fst (ps ! i)" using Cons.prems(1) [rule_format, of "Suc i"] by simp
    qed
    then have "\<exists>k \<le> m. poll_reap deadline ps = Some k"
      using Cons.IH [of "t + 10" m] Cons.prems(2,3) Suc by simp
    then show ?thesis using p Suc by auto
  qed
qed simp

text \<open>
  Dropping a terminal blocks for a bounded time: if each pause takes its ten milliseconds, the loop makes
  at most 20 attempts, whatever the child does, and the child's whole group was sent the kill signal first.
\<close>

lemma drop_pty_bounded:
  assumes "\<forall>i < length polls. start + 10 * i \<le> fst (polls ! i)" "20 < length polls"
  shows "\<exists>sigs k. drop_pty answer pid first start polls = (sigs, Some k) \<and> k \<le> 20 \<and> hd sigs = - pid"
  using poll_reap_bound [OF assms(1), of "start + 200" 20] assms(2) by (auto simp: drop_pty_def kill_child_def)

end
