(* ===== verification/Control_Server.thy ===== *)
theory Control_Server
  imports Sftp_Ops
begin

text \<open>
  The control plane (src/transport/control): the protocol of the local socket through which a person
  approves what sessions may do, its server and the discovery files.  JSON is a parameter; the handler
  behind the server is a locale, interpreted by the session manager.
\<close>

section \<open>Protocol\<close>

record 'j control_request =
  cr_id :: u64
  cr_method :: string
  cr_params :: 'j

datatype payload = Sessions "session_control_info list" | SessionInfo session_control_info | ModeSet string string

datatype control_response = COk u64 payload | CErr u64 control_error

record set_approval_params =
  ap_session_id :: string
  ap_mode :: string

text \<open>
  What the code takes from serde_json: reading a greeting or a request from a line, the string
  \<open>session_id\<close> of the parameters, and the parameters of \<open>session.set_approval_mode\<close>;
  the text of an error of the parser.
\<close>

record 'j json =
  js_hello :: "string \<Rightarrow> string option"
  js_request :: "string \<Rightarrow> string + 'j control_request"
  js_session_id :: "'j \<Rightarrow> string option"
  js_approval :: "'j \<Rightarrow> string + set_approval_params"

definition parse_mode :: "set_approval_params \<Rightarrow> control_error + string" where
  "parse_mode p =
     (if ap_mode p = ''standard'' \<or> ap_mode p = ''unrestricted'' then Inr (ap_mode p)
      else Inl (invalid_mode (ap_mode p)))"

section \<open>The handler\<close>

text \<open>\<open>ControlHandler\<close>: list, get and set, on a state the handler keeps.\<close>

record 's handler =
  h_list :: "'s \<Rightarrow> session_control_info list"
  h_get :: "'s \<Rightarrow> string \<Rightarrow> session_control_info option"
  h_set :: "'s \<Rightarrow> string \<Rightarrow> string \<Rightarrow> 's \<times> (control_error + unit)"

definition unwrap_str :: "string option \<Rightarrow> string" where
  "unwrap_str z = (case z of Some s \<Rightarrow> s | None \<Rightarrow> [])"

definition control_dispatch :: "'j json \<Rightarrow> 's handler \<Rightarrow> 's \<Rightarrow> 'j control_request \<Rightarrow> 's \<times> control_response" where
  "control_dispatch js h s req =
     (if cr_method req = ''session.list'' then (s, COk (cr_id req) (Sessions (h_list h s)))
      else if cr_method req = ''session.get'' then
        (let sid = unwrap_str (js_session_id js (cr_params req))
         in case h_get h s sid of
              Some info \<Rightarrow> (s, COk (cr_id req) (SessionInfo info))
            | None \<Rightarrow> (s, CErr (cr_id req) (control_err ''NOT_FOUND'' (''session not found: '' @ sid))))
      else if cr_method req = ''session.set_approval_mode'' then
        (case js_approval js (cr_params req) of
           Inl e \<Rightarrow> (s, CErr (cr_id req) (control_err ''INVALID_ARGUMENT'' (''invalid params: '' @ e)))
         | Inr p \<Rightarrow>
             (case parse_mode p of
                Inl e \<Rightarrow> (s, CErr (cr_id req) e)
              | Inr mode \<Rightarrow>
                  (case h_set h s (ap_session_id p) mode of
                     (s', Inr _) \<Rightarrow> (s', COk (cr_id req) (ModeSet (ap_session_id p) mode))
                   | (s', Inl e) \<Rightarrow> (s', CErr (cr_id req) e))))
      else (s, CErr (cr_id req) (control_err ''METHOD_NOT_FOUND'' (''unknown method: '' @ cr_method req))))"

section \<open>A connection\<close>

text \<open>
  What the server does on a connection, in order.  Its input is the list of the lines it reads, or the
  error a read gives; the end of the list is the end of the stream.  \<open>broken out\<close> says whether the last
  write of \<open>out\<close> fails.
\<close>

datatype cout = Pause | HelloReply bool "string option" | Response control_response

definition MAX_HELLO_ATTEMPTS :: nat where "MAX_HELLO_ATTEMPTS = 5"

datatype hello_outcome = Authenticated "(unit + string) list" "cout list" | HelloClosed "cout list" | HelloFailed "cout list"

fun hello_loop ::
  "'j json \<Rightarrow> (cout list \<Rightarrow> bool) \<Rightarrow> string \<Rightarrow> nat \<Rightarrow> (unit + string) list \<Rightarrow> cout list \<Rightarrow> hello_outcome" where
  "hello_loop js broken token 0 reads out = HelloClosed out"
| "hello_loop js broken token (Suc left) [] out = HelloClosed out"
| "hello_loop js broken token (Suc left) (Inl e # reads) out = HelloFailed out"
| "hello_loop js broken token (Suc left) (Inr line # reads) out =
     (let parsed = js_hello js (trim line)
      in if parsed = Some token then Authenticated reads out
         else let out = out @ [Pause, HelloReply False (Some (if parsed = None then ''expected HELLO with token'' else ''invalid token''))]
              in if broken out then HelloFailed out else hello_loop js broken token left reads out)"

fun serve ::
  "'j json \<Rightarrow> 's handler \<Rightarrow> (cout list \<Rightarrow> bool) \<Rightarrow> (unit + string) list \<Rightarrow> 's \<Rightarrow> cout list \<Rightarrow> 's \<times> cout list \<times> (unit + unit)" where
  "serve js h broken [] s out = (s, out, Inr ())"
| "serve js h broken (Inl e # reads) s out = (s, out, Inl ())"
| "serve js h broken (Inr line # reads) s out =
     (let (s, resp) = (case js_request js (trim line) of
                         Inl e \<Rightarrow> (s, CErr 0 (control_err ''PARSE_ERROR'' (''invalid JSON: '' @ e)))
                       | Inr req \<Rightarrow> control_dispatch js h s req);
          out = out @ [Response resp]
      in if broken out then (s, out, Inl ()) else serve js h broken reads s out)"

definition handle_connection ::
  "'j json \<Rightarrow> 's handler \<Rightarrow> (cout list \<Rightarrow> bool) \<Rightarrow> string \<Rightarrow> (unit + string) list \<Rightarrow> 's \<Rightarrow> 's \<times> cout list \<times> (unit + unit)" where
  "handle_connection js h broken token reads s =
     (case hello_loop js broken token MAX_HELLO_ATTEMPTS reads [] of
        HelloClosed out \<Rightarrow> (s, out, Inr ())
      | HelloFailed out \<Rightarrow> (s, out, Inl ())
      | Authenticated rest out \<Rightarrow>
          (let out = out @ [HelloReply True None]
           in if broken out then (s, out, Inl ()) else serve js h broken rest s out))"

section \<open>Nothing without the token\<close>

definition refusals :: "cout list \<Rightarrow> nat" where
  "refusals out = length (filter (\<lambda>x. case x of HelloReply ok _ \<Rightarrow> \<not> ok | _ \<Rightarrow> False) out)"

definition pauses :: "cout list \<Rightarrow> nat" where
  "pauses out = length (filter (\<lambda>x. x = Pause) out)"

definition quiet :: "cout \<Rightarrow> bool" where
  "quiet x \<longleftrightarrow> (case x of Pause \<Rightarrow> True | HelloReply ok _ \<Rightarrow> \<not> ok | Response _ \<Rightarrow> False)"

text \<open>Every refusal comes right after a pause, and every pause before its refusal.\<close>

fun paced :: "cout list \<Rightarrow> bool" where
  "paced [] = True"
| "paced (Pause # HelloReply False e # out) = paced out"
| "paced (Pause # out) = False"
| "paced (HelloReply ok e # out) = (ok \<and> paced out)"
| "paced (Response r # out) = paced out"

lemma paced_append: "paced xs \<Longrightarrow> paced ys \<Longrightarrow> paced (xs @ ys)"
  by (induction xs rule: paced.induct) auto

lemma paced_responses: "list_all (\<lambda>x. \<exists>r. x = Response r) xs \<Longrightarrow> paced xs"
  by (induction xs) auto

definition offers :: "'j json \<Rightarrow> string \<Rightarrow> unit + string \<Rightarrow> bool" where
  "offers js token x = (case x of Inl _ \<Rightarrow> False | Inr line \<Rightarrow> js_hello js (trim line) = Some token)"

fun hello_out :: "hello_outcome \<Rightarrow> cout list" where
  "hello_out (Authenticated rest out) = out"
| "hello_out (HelloClosed out) = out"
| "hello_out (HelloFailed out) = out"

lemma count_simps [simp]:
  "refusals (xs @ ys) = refusals xs + refusals ys" "pauses (xs @ ys) = pauses xs + pauses ys"
  "refusals [] = 0" "pauses [] = 0"
  "refusals (Pause # xs) = refusals xs" "refusals (HelloReply b e # xs) = (if b then 0 else 1) + refusals xs"
  "refusals (Response r # xs) = refusals xs"
  "pauses (Pause # xs) = Suc (pauses xs)" "pauses (HelloReply b e # xs) = pauses xs" "pauses (Response r # xs) = pauses xs"
  by (simp_all add: refusals_def pauses_def)

lemma quiet_simps [simp]: "quiet Pause" "quiet (HelloReply b e) = (\<not> b)" "\<not> quiet (Response r)"
  by (simp_all add: quiet_def)

lemma hello_loop_out:
  "\<exists>xs. hello_out (hello_loop js broken token left reads out) = out @ xs \<and> list_all quiet xs \<and>
     refusals xs \<le> left \<and> pauses xs = refusals xs \<and> paced xs"
proof (induction js broken token left reads out rule: hello_loop.induct)
  case (4 js broken token left line reads out)
  let ?new = "[Pause, HelloReply False (Some (if js_hello js (trim line) = None then ''expected HELLO with token'' else ''invalid token''))]"
  show ?case
  proof (cases "js_hello js (trim line) = Some token \<or> broken (out @ ?new)")
    case True
    then show ?thesis by (auto simp: Let_def intro: exI [of _ ?new])
  next
    case False
    then obtain xs where "hello_out (hello_loop js broken token left reads (out @ ?new)) = (out @ ?new) @ xs"
      "list_all quiet xs" "refusals xs \<le> left" "pauses xs = refusals xs" "paced xs"
      using 4 by (auto simp: Let_def)
    then show ?thesis using False by (intro exI [of _ "?new @ xs"]) (auto simp: Let_def)
  qed
qed auto

lemma hello_loop_authenticated:
  "hello_loop js broken token left reads out = Authenticated rest out' \<Longrightarrow> list_ex (offers js token) (take left reads)"
  by (induction js broken token left reads out rule: hello_loop.induct)
    (auto simp: Let_def offers_def split: if_splits)

lemma serve_out:
  "serve js h broken reads s out = (s', out', r) \<Longrightarrow>
   \<exists>xs. out' = out @ xs \<and> refusals xs = 0 \<and> pauses xs = 0 \<and> list_all (\<lambda>x. \<exists>r. x = Response r) xs"
proof (induction js h broken reads s out rule: serve.induct)
  case (3 js h broken line reads s out)
  obtain s1 resp where d: "(case js_request js (trim line) of
      Inl e \<Rightarrow> (s, CErr 0 (control_err ''PARSE_ERROR'' (''invalid JSON: '' @ e)))
    | Inr req \<Rightarrow> control_dispatch js h s req) = (s1, resp)" by fastforce
  show ?case
  proof (cases "broken (out @ [Response resp])")
    case True
    then show ?thesis using 3 d by auto
  next
    case False
    then have "serve js h broken reads s1 (out @ [Response resp]) = (s', out', r)" using 3(2) d by simp
    then obtain xs where "out' = (out @ [Response resp]) @ xs" "refusals xs = 0" "pauses xs = 0" "list_all (\<lambda>x. \<exists>r. x = Response r) xs"
      using 3(1) [OF d [symmetric] refl refl False] by auto
    then show ?thesis by (intro exI [of _ "Response resp # xs"]) auto
  qed
qed auto

text \<open>
  (C14) The control server acts for nobody without the token.  On every connection either one of the first five
  lines carried the token, or the handler's state is untouched and nothing but refusals was sent.  In
  either case at most five greetings are refused, and right before each refusal, and nowhere else, the server pauses.
\<close>

theorem control_requires_token:
  assumes "handle_connection js h broken token reads s = (s', out, r)"
  shows "(list_ex (offers js token) (take 5 reads) \<or> s' = s \<and> list_all quiet out) \<and>
    refusals out \<le> 5 \<and> pauses out = refusals out \<and> paced out"
proof (cases "hello_loop js broken token MAX_HELLO_ATTEMPTS reads []")
  case (Authenticated rest xs)
  have xs: "refusals xs \<le> 5" "pauses xs = refusals xs" "paced xs"
    using hello_loop_out [of js broken token MAX_HELLO_ATTEMPTS reads "[]"] Authenticated by (simp_all add: MAX_HELLO_ATTEMPTS_def)
  have tok: "list_ex (offers js token) (take 5 reads)"
    using hello_loop_authenticated [OF Authenticated] by (simp add: MAX_HELLO_ATTEMPTS_def)
  show ?thesis
  proof (cases "broken (xs @ [HelloReply True None])")
    case True
    then show ?thesis using assms Authenticated xs tok paced_append [of xs] by (auto simp: handle_connection_def)
  next
    case False
    then have "serve js h broken rest s (xs @ [HelloReply True None]) = (s', out, r)"
      using assms Authenticated by (simp add: handle_connection_def)
    from serve_out [OF this] obtain ys where "out = (xs @ [HelloReply True None]) @ ys" "refusals ys = 0" "pauses ys = 0"
      "list_all (\<lambda>x. \<exists>r. x = Response r) ys" by blast
    then show ?thesis using xs tok paced_append [OF paced_append [OF xs(3), of "[HelloReply True None]"] paced_responses] by simp
  qed
next
  case (HelloClosed xs)
  then show ?thesis
    using assms hello_loop_out [of js broken token MAX_HELLO_ATTEMPTS reads "[]"]
    by (auto simp: handle_connection_def MAX_HELLO_ATTEMPTS_def)
next
  case (HelloFailed xs)
  then show ?thesis
    using assms hello_loop_out [of js broken token MAX_HELLO_ATTEMPTS reads "[]"]
    by (auto simp: handle_connection_def MAX_HELLO_ATTEMPTS_def)
qed

section \<open>What a handler promises\<close>

text \<open>
  The contract between server and handler: on a good state, a mode that was set is reported for its session
  and nothing is changed for others; a refused call changes nothing.
\<close>

locale control_handler =
  fixes h :: "'s handler" and good :: "'s \<Rightarrow> bool"
  assumes set_good: "good s \<Longrightarrow> h_set h s sid m = (s', u) \<Longrightarrow> good s'"
    and set_reported: "good s \<Longrightarrow> h_set h s sid m = (s', Inr v) \<Longrightarrow> map_option ci_approval_mode (h_get h s' sid) = Some m"
    and set_others: "good s \<Longrightarrow> h_set h s sid m = (s', u) \<Longrightarrow> k \<noteq> sid \<Longrightarrow> h_get h s' k = h_get h s k"
    and set_refused: "h_set h s sid m = (s', Inl e) \<Longrightarrow> s' = s"
begin

text \<open>A request changes the state only by setting the mode it names, and says so.\<close>

lemma dispatch_effect:
  assumes "good s" "control_dispatch js h s req = (s', resp)"
  shows "good s' \<and>
    (s' = s \<or>
     (\<exists>sid m. resp = COk (cr_id req) (ModeSet sid m) \<and> m \<in> {''standard'', ''unrestricted''} \<and>
        map_option ci_approval_mode (h_get h s' sid) = Some m \<and> (\<forall>k. k \<noteq> sid \<longrightarrow> h_get h s' k = h_get h s k)))"
proof (cases "cr_method req = ''session.set_approval_mode''")
  case True
  show ?thesis
  proof (cases "js_approval js (cr_params req)")
    case (Inl e)
    then show ?thesis using assms True by (simp add: control_dispatch_def)
  next
    case (Inr p)
    show ?thesis
    proof (cases "parse_mode p")
      case (Inl e)
      then show ?thesis using assms True Inr by (simp add: control_dispatch_def)
    next
      case mode: (Inr m)
      then have m: "m \<in> {''standard'', ''unrestricted''}" by (auto simp: parse_mode_def split: if_splits)
      obtain s1 u where set: "h_set h s (ap_session_id p) m = (s1, u)" by fastforce
      show ?thesis
      proof (cases u)
        case (Inl e)
        then show ?thesis using assms True Inr mode set set_refused [of s "ap_session_id p" m s1 e] by (auto simp: control_dispatch_def)
      next
        case ok: (Inr v)
        then show ?thesis
          using assms True Inr mode m set set_good [OF assms(1) set] set_reported [OF assms(1), of "ap_session_id p" m s1 v]
            set_others [OF assms(1) set]
          by (auto simp: control_dispatch_def)
      qed
    qed
  qed
next
  case False
  then show ?thesis using assms by (auto simp: control_dispatch_def Let_def split: option.splits if_splits)
qed

text \<open>A session for which a connection confirmed no mode is reported as before.\<close>

lemma serve_keeps:
  "serve js h broken reads s out = (s', out', r) \<Longrightarrow> good s \<Longrightarrow>
   \<forall>i m. Response (COk i (ModeSet k m)) \<notin> set out' \<Longrightarrow> good s' \<and> h_get h s' k = h_get h s k"
proof (induction reads arbitrary: s out)
  case (Cons x reads)
  show ?case
  proof (cases x)
    case (Inr line)
    obtain s1 resp where d: "(case js_request js (trim line) of
        Inl e \<Rightarrow> (s, CErr 0 (control_err ''PARSE_ERROR'' (''invalid JSON: '' @ e)))
      | Inr req \<Rightarrow> control_dispatch js h s req) = (s1, resp)" by fastforce
    have "resp \<noteq> COk i (ModeSet k m)" for i m
    proof -
      have "Response resp \<in> set out'"
        using Cons.prems(1) d Inr serve_out [of js h broken reads s1 "out @ [Response resp]" s' out' r]
        by (auto simp: Let_def split: if_splits)
      then show ?thesis using Cons.prems(3) by auto
    qed
    then have s1: "good s1" "h_get h s1 k = h_get h s k"
      using d dispatch_effect [OF Cons.prems(2), of js] Cons.prems(2) by (auto split: sum.splits) metis+
    then show ?thesis
      using Cons.prems d Inr Cons.IH [of s1 "out @ [Response resp]"] by (auto simp: Let_def split: if_splits)
  qed (use Cons.prems in auto)
qed auto

lemma connection_keeps:
  assumes "handle_connection js h broken token reads s = (s', out, r)" "good s"
    "\<forall>i m. Response (COk i (ModeSet k m)) \<notin> set out"
  shows "good s' \<and> h_get h s' k = h_get h s k"
  using assms serve_keeps [of js broken _ s _ s' out r k]
  by (auto simp: handle_connection_def Let_def split: hello_outcome.splits if_splits)

end

section \<open>The session manager behind it\<close>

definition smgr_handler :: "smgr handler" where
  "smgr_handler = \<lparr>h_list = control_list_sessions, h_get = control_get_session, h_set = control_set_approval_mode\<rparr>"

lemma control_set_cases:
  assumes "control_set_approval_mode sm sid m = (sm', u)"
  obtains (refused) e where "sm' = sm" "u = Inl e"
  | (set) a where "lookup sm sid = Some a" "m \<in> {''standard'', ''unrestricted''}" "u = Inr ()"
      "sm' = put_sess a (set_approval_mode (if m = ''standard'' then Standard else Unrestricted) (sess sm a)) sm"
  using assms
  by (auto simp: control_set_approval_mode_def smgr_set_approval_mode_def get_session_def split: if_splits option.splits)

interpretation manager: control_handler smgr_handler smgr_inv
proof
  fix sm sid m sm' u
  assume inv: "smgr_inv sm" and set: "h_set smgr_handler sm sid m = (sm', u)"
  then have "control_set_approval_mode sm sid m = (sm', u)" by (simp add: smgr_handler_def)
  then show "smgr_inv sm'"
    by (cases rule: control_set_cases) (use inv in \<open>auto intro: inv_put simp: set_approval_mode_def\<close>)
next
  fix sm sid m sm' v
  assume inv: "smgr_inv sm" and set: "h_set smgr_handler sm sid m = (sm', Inr v)"
  then have "control_set_approval_mode sm sid m = (sm', Inr v)" by (simp add: smgr_handler_def)
  then show "map_option ci_approval_mode (h_get smgr_handler sm' sid) = Some m"
    by (cases rule: control_set_cases)
      (use inv lookup_inv in \<open>auto simp: smgr_handler_def control_get_session_def control_info_def set_approval_mode_def\<close>)
next
  fix sm sid m sm' u k
  assume inv: "smgr_inv sm" and set: "h_set smgr_handler sm sid m = (sm', u)" and k: "k \<noteq> sid"
  then have "control_set_approval_mode sm sid m = (sm', u)" by (simp add: smgr_handler_def)
  then show "h_get smgr_handler sm' k = h_get smgr_handler sm k"
  proof (cases rule: control_set_cases)
    case (set a)
    then have "lookup sm k \<noteq> Some a" using inv k lookup_inv(2) by metis
    then show ?thesis
      using set lookup_inv(1) [OF inv set(1)]
      by (auto simp: smgr_handler_def control_get_session_def intro!: map_option_cong)
  qed simp
next
  fix sm sid m sm' e
  assume "h_set smgr_handler sm sid m = (sm', Inl e)"
  then have "control_set_approval_mode sm sid m = (sm', Inl e)" by (simp add: smgr_handler_def)
  then show "sm' = sm" by (cases rule: control_set_cases) auto
qed

text \<open>
  (C32) A connection to the session manager changes only what it answers for.  Whatever lines it sends, the
  map stays consistent, and a session for which no new mode was confirmed is reported exactly as before.
\<close>

theorem connection_changes_only_confirmed:
  assumes "smgr_inv sm" "handle_connection js smgr_handler broken token reads sm = (sm', out, r)"
    and "\<forall>i m. Response (COk i (ModeSet k m)) \<notin> set out"
  shows "smgr_inv sm' \<and> control_get_session sm' k = control_get_session sm k"
  using manager.connection_keeps [OF assms(2,1,3)] by (simp add: smgr_handler_def)

section \<open>Who approves\<close>

lemma approval_kept:
  "session_send_input secs now io d s = (s', ru) \<Longrightarrow> s_approval_mode s' = s_approval_mode s"
  "session_send_control secs now io key s = (s', ru) \<Longrightarrow> s_approval_mode s' = s_approval_mode s"
  "session_resize io sz s = (s', ru) \<Longrightarrow> s_approval_mode s' = s_approval_mode s"
  "session_read_output rx secs p now ts s = Some (s', ro) \<Longrightarrow> s_approval_mode s' = s_approval_mode s"
  "s_approval_mode (read_data now d s) = s_approval_mode s"
  "s_approval_mode (read_exit s) = s_approval_mode s"
  "s' = fst (session_close now io s) \<Longrightarrow> s_approval_mode s' = s_approval_mode s"
  "s_approval_mode (abort_read_task s) = s_approval_mode s"
  by (auto simp: session_op_defs session_resize_def session_read_output_def touch_last_activity_def Let_def
      read_data_def read_write_def read_record_def close_mark_def close_done_def read_exit_def session_close_def abort_read_task_def split: if_splits prod.splits)

text \<open>No session's approval differs, and new sessions begin without approval.\<close>

definition approvals_kept :: "smgr \<Rightarrow> smgr \<Rightarrow> bool" where
  "approvals_kept sm sm' \<longleftrightarrow> length (sm_objs sm) \<le> length (sm_objs sm') \<and>
     (\<forall>a < length (sm_objs sm'). s_approval_mode (sess sm' a) = (if a < length (sm_objs sm) then s_approval_mode (sess sm a) else Standard))"

lemma kept_refl [simp]: "approvals_kept sm sm"
  by (simp add: approvals_kept_def)

lemma kept_trans: "approvals_kept sm sm1 \<Longrightarrow> approvals_kept sm1 sm2 \<Longrightarrow> approvals_kept sm sm2"
  by (auto simp: approvals_kept_def)

lemma kept_map [simp]:
  "approvals_kept sm (map_insert k a sm') = approvals_kept sm sm'" "approvals_kept sm (map_remove k sm') = approvals_kept sm sm'"
  "approvals_kept sm (sm'\<lparr>sm_counter := c\<rparr>) = approvals_kept sm sm'"
  by (simp_all add: approvals_kept_def)

lemma kept_put: "s_approval_mode s = s_approval_mode (sess sm a) \<Longrightarrow> approvals_kept sm (put_sess a s sm)"
  by (cases "a < length (sm_objs sm)") (auto simp: approvals_kept_def put_sess_def sess_def nth_list_update)

lemma kept_new: "s_approval_mode (so_session ob) = Standard \<Longrightarrow> approvals_kept sm (fst (new_obj ob sm))"
  by (auto simp: approvals_kept_def new_obj_def sess_def nth_append less_Suc_eq)

lemma kept_add:
  "new_obj \<lparr>so_session = session_new secs now i h p, so_handle = hnd\<rparr> sm = (sm', a) \<Longrightarrow> approvals_kept sm sm'"
  using kept_new [of "\<lparr>so_session = session_new secs now i h p, so_handle = hnd\<rparr>" sm] by (simp add: session_new_def)

lemma kept_next_add:
  "next_session_id sm = (sm1, j) \<Longrightarrow> new_obj \<lparr>so_session = session_new secs now i h p, so_handle = hnd\<rparr> sm1 = (sm2, a) \<Longrightarrow>
   approvals_kept sm sm2"
  by (rule kept_trans [OF _ kept_add]) (auto simp: next_session_id_def)

lemma kept_after_call: "approvals_kept sm (fst r) \<Longrightarrow> approvals_kept sm (fst (after_call sid a r))"
  by (auto simp: after_call_def cleanup_detached_session_def split: sum.split term_error.split)

lemma kept_open_with: "approvals_kept sm (fst (open_with w sm h auth pty per nm sec))"
  by (auto simp: open_with_def Let_def split: sum.split prod.split dest: kept_next_add)

lemma kept_open: "approvals_kept sm (fst (open_session w sm h pty per nm))"
  by (auto simp: open_session_def Let_def intro: kept_open_with split: sum.split)

lemma kept_call:
  "s_approval_mode s = s_approval_mode (sess sm a) \<Longrightarrow> approvals_kept sm (fst (after_call sid a (put_sess a s sm, r)))"
  by (intro kept_after_call) (simp add: kept_put)

lemma kept_attach: "attach_remote_session w p att sm h = (sm', ra) \<Longrightarrow> approvals_kept sm sm'"
  by (auto simp: attach_remote_session_def Let_def split: sum.splits prod.splits if_splits dest: kept_next_add)

lemma kept_reconnect: "reconnect_open w a sid sm = (sm', rr) \<Longrightarrow> approvals_kept sm sm'"
  by (auto simp: reconnect_open_def Let_def split: sum.splits prod.splits dest: kept_add)

text \<open>
  (C15) Only a person approves.  Whatever tool calls, reconnects, the reaper and the read tasks do, no step
  but the setting of an approval mode, which only the control interface offers, changes the approval
  mode of any session, and every session that is opened, attached or reconnected begins unapproved.
\<close>

theorem only_control_approves:
  assumes "sm_step sm sm'"
  shows "(length (sm_objs sm) \<le> length (sm_objs sm') \<and>
      list_all (\<lambda>a. s_approval_mode (sess sm' a) = (if a < length (sm_objs sm) then s_approval_mode (sess sm a) else Standard))
        [0..<length (sm_objs sm')]) \<or>
    (\<exists>sid mode. sm' = fst (smgr_set_approval_mode sm sid mode))"
proof -
  have "approvals_kept sm sm' \<or> (\<exists>sid mode. sm' = fst (smgr_set_approval_mode sm sid mode))"
    using assms
  proof (induction rule: sm_step.induct)
    case (open_step w sm host pty persistent name sm' r tr)
    then show ?case using kept_open by (metis fst_conv)
  next
    case (approve_step sm sid mode sm' ru)
    then show ?case by (metis fst_conv)
  next
    case (reap_step sm secs now timeout io sid)
    have "approvals_kept sm (put_sess a (fst (session_close now io (sess sm a))) (map_remove sid sm))" for a
      using kept_put [of "fst (session_close now io (sess sm a))" "map_remove sid sm" a] approval_kept(7) [OF refl, of now io "sess sm a"]
      by (simp add: approvals_kept_def)
    then show ?case by (auto simp: reap_one_def split: option.split)
  next
    case (reconnect_close_step sm now io a)
    show ?case
      using kept_put approval_kept(7) [OF refl, of now io "sess sm a"]
      by (simp add: reconnect_close_def)
  next
    case (close_step now io sm sid sm' ru)
    have "approvals_kept sm (put_sess a s (map_remove sid sm))" if "session_close now io (sess sm a) = (s, r)" for a s r
      using kept_put [of s "map_remove sid sm" a] approval_kept(7) [of s now io "sess sm a"] that by (simp add: approvals_kept_def)
    then show ?case using close_step by (auto simp: close_session_def Let_def split: option.splits prod.splits)
  qed (auto simp: detach_session_def prepare_for_raw_mode_def approval_kept
      intro: kept_attach kept_reconnect kept_put kept_call split: sum.splits if_splits)
  then show ?thesis by (auto simp: approvals_kept_def list_all_iff)
qed

section \<open>Runs\<close>

definition demo_json :: "unit json" where
  "demo_json = \<lparr>js_hello = Some,
     js_request = (\<lambda>l. if l = ''up'' then Inr \<lparr>cr_id = 7, cr_method = ''session.set_approval_mode'', cr_params = ()\<rparr>
                        else Inl ''expected value''),
     js_session_id = (\<lambda>_. Some ''sess_0''),
     js_approval = (\<lambda>_. Inr \<lparr>ap_session_id = ''sess_0'', ap_mode = ''unrestricted''\<rparr>)\<rparr>"

lemma demo_lines: "trim ''guess'' = ''guess''" "trim ''up'' = ''up''" "trim ''secret'' = ''secret''"
  by code_simp+

lemma demo_guess:
  "handle_connection demo_json h (\<lambda>_. False) ''secret'' [Inr ''guess'', Inr ''up''] s =
     (s, [Pause, HelloReply False (Some ''invalid token''), Pause, HelloReply False (Some ''invalid token'')], Inr ())"
  by (simp add: handle_connection_def MAX_HELLO_ATTEMPTS_def eval_nat_numeral demo_lines demo_json_def)

theorem control_requires_token_witness:
  "refusals [Pause, HelloReply False (Some ''invalid token''), Pause, HelloReply False (Some ''invalid token'')] \<le> 5 \<and>
   paced [Pause, HelloReply False (Some ''invalid token''), Pause, HelloReply False (Some ''invalid token'')]"
  using control_requires_token [OF demo_guess] by simp

lemma demo_up:
  "\<exists>sm'. handle_connection demo_json smgr_handler (\<lambda>_. False) ''secret'' [Inr ''secret'', Inr ''up''] demo_sm =
     (sm', [HelloReply True None, Response (COk 7 (ModeSet ''sess_0'' ''unrestricted''))], Inr ())"
proof -
  have "lookup demo_sm ''sess_0'' = Some 0" by (simp add: demo_sm_eq lookup_def)
  then show ?thesis
    by (simp add: handle_connection_def MAX_HELLO_ATTEMPTS_def eval_nat_numeral demo_lines demo_json_def Let_def
        control_dispatch_def parse_mode_def smgr_handler_def control_set_approval_mode_def smgr_set_approval_mode_def get_session_def)
qed

lemma demo_inv: "smgr_inv demo_sm"
  using inv_reachable [OF demo_reachable] inv_new by (simp add: demo_empty_def)

theorem connection_changes_only_confirmed_witness:
  "\<exists>sm'. control_get_session sm' ''sess_9'' = control_get_session demo_sm ''sess_9'' \<and>
     fst (handle_connection demo_json smgr_handler (\<lambda>_. False) ''secret'' [Inr ''secret'', Inr ''up''] demo_sm) = sm'"
proof -
  obtain sm' where run: "handle_connection demo_json smgr_handler (\<lambda>_. False) ''secret'' [Inr ''secret'', Inr ''up''] demo_sm =
     (sm', [HelloReply True None, Response (COk 7 (ModeSet ''sess_0'' ''unrestricted''))], Inr ())" using demo_up by blast
  show ?thesis
    using connection_changes_only_confirmed [OF demo_inv run, of "''sess_9''"] run by simp
qed

definition close_result :: "smgr \<Rightarrow> smgr" where
  "close_result sm = fst (close_session 0 (Inr ()) sm ''sess_0'')"

lemma close_result_step: "sm_step sm (close_result sm)"
  unfolding close_result_def by (rule sm_step.close_step) (rule surjective_pairing)

theorem only_control_approves_witness:
  "(length (sm_objs demo_sm) \<le> length (sm_objs (close_result demo_sm)) \<and>
      list_all (\<lambda>a. s_approval_mode (sess (close_result demo_sm) a) =
          (if a < length (sm_objs demo_sm) then s_approval_mode (sess demo_sm a) else Standard))
        [0..<length (sm_objs (close_result demo_sm))]) \<or>
    (\<exists>sid mode. close_result demo_sm = fst (smgr_set_approval_mode demo_sm sid mode))"
  by (rule only_control_approves [OF close_result_step])

end
