(* ===== verification/Control_Instance.thy ===== *)
theory Control_Instance
  imports Actions Decimal
begin

text \<open>
  How a control server is found (src/transport/control/instance.rs, and the start of server.rs): the
  token, the endpoint, the socket, and the discovery file with its clean-up.  The file system's answers,
  random bytes, the process id, the clock and the environment are arguments.
\<close>

section \<open>Names\<close>

definition hex_digit :: "nat \<Rightarrow> char" where
  "hex_digit n = ''0123456789abcdef'' ! n"

text \<open>\<open>format!("{b:02x}")\<close>, \<open>{:06x}\<close>.\<close>

definition hex_byte :: "byte \<Rightarrow> string" where
  "hex_byte b = [hex_digit (unat b div 16), hex_digit (unat b mod 16)]"

fun hex_pad :: "nat \<Rightarrow> nat \<Rightarrow> string" where
  "hex_pad 0 n = []"
| "hex_pad (Suc k) n = hex_pad k (n div 16) @ [hex_digit (n mod 16)]"

text \<open>The token is 16 random bytes in hexadecimal.\<close>

definition generate_token :: "bytes \<Rightarrow> string" where
  "generate_token random = concat (map hex_byte (take 16 random))"

definition generate_instance_id :: "nat \<Rightarrow> nat \<Rightarrow> string" where
  "generate_instance_id pid nanos = hex_pad 6 (unat (and (xor (of_nat pid) (of_nat nanos)) (0xFFFFFF :: u64)))"

datatype platform = Linux | MacOs | Windows | OtherOs

definition unix_like :: "platform \<Rightarrow> bool" where
  "unix_like p \<longleftrightarrow> p = Linux \<or> p = MacOs"

definition generate_endpoint :: "platform \<Rightarrow> string option \<Rightarrow> nat \<Rightarrow> bytes \<Rightarrow> string" where
  "generate_endpoint p xdg_runtime_dir pid random =
     (let i = dec pid @ ''-'' @ concat (map hex_byte (take 4 random))
      in if unix_like p
         then (case xdg_runtime_dir of Some d \<Rightarrow> d | None \<Rightarrow> ''/tmp'') @ ''/termbridge/mcp-'' @ i @ ''.sock''
         else [CHR 0x5C, CHR 0x5C] @ ''.'' @ [CHR 0x5C] @ ''pipe'' @ [CHR 0x5C] @ ''termbridge-mcp-'' @ i)"

definition transport_name :: "platform \<Rightarrow> string" where
  "transport_name p = (if unix_like p then ''unix_socket'' else ''named_pipe'')"

definition instance_dir :: "platform \<Rightarrow> (string \<Rightarrow> string option) \<Rightarrow> string \<Rightarrow> (string \<Rightarrow> string \<Rightarrow> string) \<Rightarrow> string" where
  "instance_dir p env temp_dir join =
     (case env (if unix_like p then ''XDG_RUNTIME_DIR'' else ''TEMP'') of
        Some d \<Rightarrow> join d ''termbridge''
      | None \<Rightarrow> join temp_dir ''termbridge'')"

definition instance_file_path :: "(string \<Rightarrow> string \<Rightarrow> string) \<Rightarrow> string \<Rightarrow> string \<Rightarrow> string" where
  "instance_file_path join dir i = join dir (''mcp-'' @ i @ ''.json'')"

section \<open>The discovery file\<close>

record instance_info =
  ii_pid :: u32
  ii_transport :: string
  ii_endpoint :: string
  ii_token :: string
  ii_started_at :: u64
  ii_protocol_version :: u32

datatype iaction =
    Exists string
  | CreateDirAll string
  | Chmod string nat
  | WriteInfo string instance_info
  | RemoveFile string
  | Connect string
  | Bind string

type_synonym ihist = "iaction list"

record ifs =
  if_err :: "ihist \<Rightarrow> string option"
  if_exists :: "string \<Rightarrow> bool"
  if_alive :: "ihist \<Rightarrow> bool"

definition do_io :: "ifs \<Rightarrow> iaction \<Rightarrow> (iaction, unit) prog" where
  "do_io w a = ask a (\<lambda>l. case if_err w l of None \<Rightarrow> Inr () | Some e \<Rightarrow> Inl (Io e))"

definition register :: "ifs \<Rightarrow> bool \<Rightarrow> string option \<Rightarrow> string \<Rightarrow> instance_info \<Rightarrow> (iaction, instance_info \<times> string) prog" where
  "register w unix parent file_path info =
     rbind (case parent of
              None \<Rightarrow> ret (Inr ())
            | Some dir \<Rightarrow>
                rbind (do_io w (CreateDirAll dir)) (\<lambda>_.
                  if unix \<and> \<not> if_exists w dir then rignore (do_io w (Chmod dir 448)) (ret (Inr ())) else ret (Inr ())))
       (\<lambda>_. rbind (do_io w (WriteInfo file_path info)) (\<lambda>_.
         if unix then rignore (do_io w (Chmod file_path 384)) (ret (Inr (info, file_path))) else ret (Inr (info, file_path))))"

text \<open>\<open>Drop\<close> of the registry.\<close>

definition registry_drop :: "ifs \<Rightarrow> bool \<Rightarrow> string \<Rightarrow> (iaction, unit) prog" where
  "registry_drop w cleaned_up file_path =
     (if cleaned_up then ret (Inr ()) else rignore (do_io w (RemoveFile file_path)) (ret (Inr ())))"

text \<open>
  The scan: the readable entries of the directory as path, extension, content and what the content parses
  to, and whether a process is alive; the instances and the paths removed.
\<close>

record entry =
  en_path :: string
  en_extension :: "string option"
  en_content :: "string option"

fun list_instances :: "(string \<Rightarrow> instance_info option) \<Rightarrow> (u32 \<Rightarrow> bool) \<Rightarrow> entry list \<Rightarrow> instance_info list \<times> string list" where
  "list_instances parse alive [] = ([], [])"
| "list_instances parse alive (e # es) =
     (let (infos, removed) = list_instances parse alive es
      in if en_extension e \<noteq> Some ''json'' then (infos, removed)
         else case en_content e of
                None \<Rightarrow> (infos, removed)
              | Some c \<Rightarrow>
                  (case parse c of
                     None \<Rightarrow> (infos, removed)
                   | Some info \<Rightarrow> if alive (ii_pid info) then (info # infos, removed) else (infos, en_path e # removed)))"

text \<open>\<open>is_pid_alive\<close> on Unix, given the result of \<open>kill\<close> with signal 0 on the 32-bit signed id.\<close>

definition is_pid_alive :: "(int \<Rightarrow> int) \<Rightarrow> u32 \<Rightarrow> bool" where
  "is_pid_alive kill0 pid \<longleftrightarrow> kill0 (sint pid) = 0"

section \<open>The socket\<close>

text \<open>A socket file on which nobody answers is removed.\<close>

definition clear_stale :: "ifs \<Rightarrow> string \<Rightarrow> (iaction, unit) prog" where
  "clear_stale w endpoint =
     (if if_exists w endpoint
      then rbind (ask (Connect endpoint) (\<lambda>l. Inr (if_alive w l))) (\<lambda>live.
             if live then ret (Inr ()) else rignore (do_io w (RemoveFile endpoint)) (ret (Inr ())))
      else ret (Inr ()))"

definition start_unix :: "ifs \<Rightarrow> string \<Rightarrow> string option \<Rightarrow> (iaction, instance_info \<times> string) prog \<Rightarrow> (iaction, instance_info \<times> string) prog" where
  "start_unix w endpoint parent registration =
     rbind (clear_stale w endpoint)
       (\<lambda>_. rbind (case parent of None \<Rightarrow> ret (Inr ()) | Some dir \<Rightarrow> do_io w (CreateDirAll dir))
       (\<lambda>_. rbind (do_io w (Bind endpoint))
       (\<lambda>_. rbind (do_io w (Chmod endpoint 384)) (\<lambda>_. registration))))"

section \<open>Tokens\<close>

lemma hex_digit_inj: "m < 16 \<Longrightarrow> n < 16 \<Longrightarrow> hex_digit m = hex_digit n \<longleftrightarrow> m = n"
proof -
  have "distinct ''0123456789abcdef''" "length ''0123456789abcdef'' = 16" by code_simp+
  then show "m < 16 \<Longrightarrow> n < 16 \<Longrightarrow> ?thesis" by (simp add: hex_digit_def nth_eq_iff_index_eq)
qed

lemma hex_byte_inj: "hex_byte a = hex_byte b \<longleftrightarrow> a = b"
proof
  assume eq: "hex_byte a = hex_byte b"
  have lt: "unat x < 256" for x :: byte using unsigned_less [of x, where ?'a = nat] by simp
  have "unat a div 16 = unat b div 16" "unat a mod 16 = unat b mod 16"
    using eq lt [of a] lt [of b] by (simp_all add: hex_byte_def hex_digit_inj less_mult_imp_div_less)
  then show "a = b" by (metis div_mult_mod_eq word_unat_eq_iff)
qed simp

lemma hex_bytes_inj: "concat (map hex_byte xs) = concat (map hex_byte ys) \<longleftrightarrow> xs = ys"
proof (induction xs arbitrary: ys)
  case Nil
  then show ?case by (cases ys) (simp_all add: hex_byte_def)
next
  case (Cons x xs)
  have split: "hex_byte a @ u = hex_byte b @ v \<longleftrightarrow> hex_byte a = hex_byte b \<and> u = v" for a b u v
    by (rule append_eq_append_conv) (simp add: hex_byte_def)
  show ?case
  proof (cases ys)
    case Nil
    then show ?thesis by (simp add: hex_byte_def)
  qed (simp add: split hex_byte_inj Cons)
qed

lemma hex_bytes_length: "length (concat (map hex_byte xs)) = 2 * length xs"
  by (induction xs) (simp_all add: hex_byte_def)

text \<open>
  A token keeps all of its 128 random bits: it has 32 digits, and two tokens are equal only if the sixteen random
  bytes are.
\<close>

lemma token_keeps_entropy:
  assumes "length r = 16" "length r' = 16"
  shows "length (generate_token r) = 32 \<and> (generate_token r = generate_token r' \<longleftrightarrow> r = r')"
  using assms hex_bytes_length [of r] by (simp add: generate_token_def hex_bytes_inj)

section \<open>The socket of a live server\<close>

lemma acts_in_do_io [acts_intros]: "P a \<Longrightarrow> acts_in P (do_io w a)"
  unfolding do_io_def by (intro acts_intros)

text \<open>
  Starting removes a socket only when nobody answers on it: if the start removes the endpoint, the file
  existed and the connection attempt just before had failed.
\<close>

lemma live_socket_kept:
  assumes "start_unix w endpoint parent registration l = (l @ xs, r)" "RemoveFile endpoint \<in> set xs"
    and "acts_in (\<lambda>a. a \<noteq> RemoveFile endpoint) registration"
  shows "if_exists w endpoint \<and> \<not> if_alive w (l @ [Connect endpoint])"
proof (rule ccontr)
  assume live: "\<not> ?thesis"
  let ?rest = "rbind (case parent of None \<Rightarrow> ret (Inr ()) | Some dir \<Rightarrow> do_io w (CreateDirAll dir))
       (\<lambda>_. rbind (do_io w (Bind endpoint)) (\<lambda>_. rbind (do_io w (Chmod endpoint 384)) (\<lambda>_. registration)))"
  have rest: "acts_in (\<lambda>a. a \<noteq> RemoveFile endpoint) ?rest"
    using assms(3) by (intro acts_intros) simp_all
  let ?start = "if if_exists w endpoint then l @ [Connect endpoint] else l"
  have "clear_stale w endpoint l = (?start, Inr ())"
    using live by (simp add: clear_stale_def rbind_def ask_def act_def ret_def)
  then have "?rest ?start = (l @ xs, r)"
    using assms(1) by (simp add: start_unix_def rbind_def [of "clear_stale w endpoint"])
  then obtain ys where "l @ xs = ?start @ ys" "list_all (\<lambda>a. a \<noteq> RemoveFile endpoint) ys"
    using acts_in_appends [OF rest] by blast
  then show False using assms(2) by (auto simp: list_all_iff split: if_splits)
qed

text \<open>A socket left by a dead server is removed and bound again.\<close>

definition stale_world :: ifs where
  "stale_world = \<lparr>if_err = (\<lambda>_. None), if_exists = (\<lambda>_. True), if_alive = (\<lambda>_. False)\<rparr>"

definition demo_info :: instance_info where
  "demo_info = \<lparr>ii_pid = 42, ii_transport = ''unix_socket'', ii_endpoint = ''/run/t.sock'', ii_token = ''ab'', ii_started_at = 7,
     ii_protocol_version = 1\<rparr>"

lemma register_acts: "acts_in (\<lambda>a. \<forall>p. a \<noteq> RemoveFile p) (register w unix parent file_path info)"
  unfolding register_def by (intro acts_intros) simp_all

lemma stale_start:
  "start_unix stale_world ''/run/t.sock'' None (register stale_world True None ''/run/t.json'' demo_info) [] =
    ([] @ [Connect ''/run/t.sock'', RemoveFile ''/run/t.sock'', Bind ''/run/t.sock'', Chmod ''/run/t.sock'' 384,
       WriteInfo ''/run/t.json'' demo_info, Chmod ''/run/t.json'' 384], Inr (demo_info, ''/run/t.json''))"
  by (simp add: start_unix_def clear_stale_def register_def do_io_def stale_world_def rbind_def rignore_def ask_def act_def ret_def)

text \<open>
  The token is on disk before the file is closed to others: in a directory that existed already, the
  discovery file is written with the permissions the process gives by default, and restricted only afterwards;
  if restricting it fails, nobody learns of it.
\<close>

lemma token_written_before_restricted:
  "if_exists w dir \<Longrightarrow> if_err w (l @ [CreateDirAll dir]) = None \<Longrightarrow> if_err w (l @ [CreateDirAll dir, WriteInfo p info]) = None \<Longrightarrow>
   register w True (Some dir) p info l = (l @ [CreateDirAll dir, WriteInfo p info, Chmod p 384], Inr (info, p))"
  by (simp add: register_def do_io_def rbind_def rignore_def ask_def act_def ret_def)

text \<open>
  The scan removes only files of dead instances: a file that is not JSON, cannot be read, does not
  describe an instance or belongs to a living process stays.
\<close>

lemma scan_removes_only_dead:
  "p \<in> set (snd (list_instances parse alive es)) \<Longrightarrow>
   \<exists>e c info. e \<in> set es \<and> en_path e = p \<and> en_extension e = Some ''json'' \<and> en_content e = Some c \<and>
     parse c = Some info \<and> \<not> alive (ii_pid info)"
  by (induction es) (auto simp: Let_def split: prod.splits if_splits option.splits)

text \<open>A process id above the signed range names a process group, or all processes, for \<open>kill\<close>.\<close>

lemma pid_sign: "is_pid_alive kill0 0xFFFFFFFF \<longleftrightarrow> kill0 (- 1) = 0"
  by (simp add: is_pid_alive_def)

end
