(* ===== verification/Credential_Helper.thy ===== *)
theory Credential_Helper
  imports Provider Decimal
begin

text \<open>
  Passwords out of band: the client that runs the credential helper
  (src/infrastructure/credential/helper.rs, src/domain/credential.rs) and the helper on Linux
  (crates/termbridge-auth-helper) and on macOS: choice of the prompt, classification of dialogs, the terminal
  prompt and the guard that cleans up on a signal.  JSON, the environment and the answers of programs are
  arguments.
\<close>

section \<open>Messages\<close>

record password_request =
  pr_host :: string
  pr_user :: string
  pr_reason :: string

datatype helper_response =
    HPassword string "string option"
  | HCancelled
  | HUnsupported string
  | HFailed string

text \<open>
  serde_json on both sides: requests carry their type tag; \<open>cm_write\<close> fails for no value that occurs.
\<close>

record credential_json =
  cm_request :: "string \<Rightarrow> password_request \<Rightarrow> string"
  cm_read_request :: "string \<Rightarrow> (string \<times> password_request) option"
  cm_response :: "helper_response \<Rightarrow> string"
  cm_read_response :: "string \<Rightarrow> string + helper_response"

section \<open>The client\<close>

definition DEFAULT_PROMPT_TIMEOUT_SECS :: nat where "DEFAULT_PROMPT_TIMEOUT_SECS = 300"

definition prompt_timeout :: "string option \<Rightarrow> nat option" where
  "prompt_timeout env =
     (case env of
        None \<Rightarrow> Some DEFAULT_PROMPT_TIMEOUT_SECS
      | Some raw \<Rightarrow>
          (case parse_unsigned (2 ^ 64 - 1) (trim raw) of
             Some n \<Rightarrow> if n = 0 then None else Some n
           | None \<Rightarrow> Some DEFAULT_PROMPT_TIMEOUT_SECS))"

text \<open>
  \<open>start_kill\<close> and \<open>kill\<close> of a tokio child both send SIGKILL on Unix; \<open>exited\<close> says whether the
  child is gone within the grace period.
\<close>

datatype signal = SigTerm | SigKill

definition kill_helper :: "bool \<Rightarrow> signal list" where
  "kill_helper exited = (if exited then [SigKill] else [SigKill, SigKill])"

datatype answer_line = Line string | ReadError string | NoAnswer

text \<open>
  The outside: errors of the spawn and of the write, the answer to the request line, and whether the child exits
  (after its answer, or within the grace period after a signal).
\<close>

record helper_world =
  hw_spawn :: "string option"
  hw_write :: "string option"
  hw_answer :: "string \<Rightarrow> answer_line"
  hw_exits :: bool

definition credential_of_response :: "helper_response \<Rightarrow> credential_error + password_credential" where
  "credential_of_response r =
     (case r of
        HPassword v u \<Rightarrow> Inr \<lparr>pc_user = u, pc_secret = v\<rparr>
      | HCancelled \<Rightarrow> Inl Cancelled
      | HUnsupported m \<Rightarrow> Inl (Unsupported m)
      | HFailed m \<Rightarrow> Inl (HelperFailed m))"

text \<open>The signals sent and the result; \<open>None\<close> is a call that waits for ever.\<close>

definition request_password ::
  "credential_json \<Rightarrow> helper_world \<Rightarrow> string option \<Rightarrow> password_request \<Rightarrow>
   (signal list \<times> (credential_error + password_credential)) option" where
  "request_password js w env req =
     (case hw_spawn w of
        Some e \<Rightarrow> Some ([], Inl (HelperFailed (''spawn helper: '' @ e)))
      | None \<Rightarrow>
          (case hw_write w of
             Some e \<Rightarrow> Some ([], Inl (HelperFailed (''write helper stdin: '' @ e)))
           | None \<Rightarrow>
               (case hw_answer w (cm_request js ''password_request'' req @ [newline]) of
                  NoAnswer \<Rightarrow>
                    (case prompt_timeout env of
                       None \<Rightarrow> None
                     | Some secs \<Rightarrow> Some (kill_helper (hw_exits w), Inl (CredTimeout secs)))
                | ReadError e \<Rightarrow> Some ([], Inl (HelperFailed (''read helper stdout: '' @ e)))
                | Line line \<Rightarrow>
                    if line = [] then Some ([], Inl (HelperFailed ''helper exited without response''))
                    else if \<not> hw_exits w then None
                    else (case cm_read_response js (trim line) of
                            Inl e \<Rightarrow> Some ([], Inl (HelperFailed (''parse helper response: '' @ e)))
                          | Inr r \<Rightarrow> Some ([], credential_of_response r)))))"

definition request_passphrase :: "credential_error + password_credential" where
  "request_passphrase = Inl (Unsupported ''passphrase prompt not implemented in MVP'')"

text \<open>The path of the helper: the environment, or beside the running program if it is a file there.\<close>

definition resolve_helper_path ::
  "string option \<Rightarrow> string + string \<Rightarrow> (string \<Rightarrow> string option) \<Rightarrow> (string \<Rightarrow> string \<Rightarrow> string) \<Rightarrow> (string \<Rightarrow> bool) \<Rightarrow> bool \<Rightarrow>
   credential_error + string" where
  "resolve_helper_path env exe parent join is_file windows =
     (case env of
        Some p \<Rightarrow> Inr p
      | None \<Rightarrow>
          (case exe of
             Inl e \<Rightarrow> Inl (HelperFailed (''resolve current_exe: '' @ e))
           | Inr x \<Rightarrow>
               (case parent x of
                  None \<Rightarrow> Inl (HelperFailed ''current_exe has no parent dir'')
                | Some d \<Rightarrow>
                    (let p = join d (if windows then ''termbridge-auth-helper.exe'' else ''termbridge-auth-helper'')
                     in if is_file p then Inr p else Inl (HelperFailed (''credential helper not found: '' @ p))))))"

section \<open>Dialogs\<close>

datatype prompt_outcome =
    PPassword "string option" string
  | PCancelled
  | PUnsupported string
  | PFailed string

datatype dialog_result = DSuccess string | DCancelled | DUnavailable string

definition trim_newlines :: "string \<Rightarrow> string" where
  "trim_newlines s = rev (dropWhile (\<lambda>c. c = newline \<or> c = CHR 0x0D) (rev s))"

definition contains :: "string \<Rightarrow> string \<Rightarrow> bool" where
  "contains s p \<longleftrightarrow> sublist p s"

definition ENV_FAILURE_PATTERNS :: "string list" where
  "ENV_FAILURE_PATTERNS = [''cannot open display'', ''could not connect to display'', ''cannot connect to display'',
     ''missing x server'', ''no protocol specified'', ''authorization required'']"

definition USER_CANCEL_PATTERNS :: "string list" where
  "USER_CANCEL_PATTERNS = [''user canceled'', ''user cancelled'']"

definition FAST_FAIL_MS :: nat where "FAST_FAIL_MS = 2000"

text \<open>The first line of an error output, at most 200 characters.\<close>

definition error_line :: "string \<Rightarrow> string" where
  "error_line s = chars_take 200 (trim (case lines s of l # _ \<Rightarrow> l | [] \<Rightarrow> []))"

definition classify_dialog :: "int \<Rightarrow> nat \<Rightarrow> string \<Rightarrow> string \<Rightarrow> int list \<Rightarrow> dialog_result" where
  "classify_dialog exit elapsed_ms stdout stderr always_cancel_codes =
     (let out = trim_newlines stdout; lower = to_ascii_lowercase stderr
      in if exit = 0 then (if out = [] then DCancelled else DSuccess out)
         else if out \<noteq> [] then DCancelled
         else if list_ex (contains lower) USER_CANCEL_PATTERNS then DCancelled
         else if list_ex (contains lower) ENV_FAILURE_PATTERNS then DUnavailable (error_line stderr)
         else if exit \<in> set always_cancel_codes then DCancelled
         else if elapsed_ms < FAST_FAIL_MS then DUnavailable ''exited before showing dialog''
         else DCancelled)"

text \<open>
  A run of a program: it cannot be started (not found, or another error), waiting fails, or its exit code (none
  after a signal), time and outputs.
\<close>

datatype program_run = NotFound string | CannotExecute string | WaitFailed string | Ran "int option" nat bytes bytes

definition run_dialog :: "program_run \<Rightarrow> int list \<Rightarrow> dialog_result" where
  "run_dialog r always_cancel_codes =
     (case r of
        NotFound _ \<Rightarrow> DUnavailable ''not found in PATH''
      | CannotExecute e \<Rightarrow> DUnavailable (''cannot execute: '' @ e)
      | WaitFailed e \<Rightarrow> DUnavailable (''wait failed: '' @ e)
      | Ran exit ms out err \<Rightarrow>
          classify_dialog (case exit of Some c \<Rightarrow> c | None \<Rightarrow> -1) ms (from_utf8_lossy out) (from_utf8_lossy err)
            always_cancel_codes)"

definition run_askpass :: "string \<Rightarrow> program_run \<Rightarrow> prompt_outcome" where
  "run_askpass program r =
     (let name = ''TERMBRIDGE_ASKPASS program '' @ (CHR 0x27 # program @ [CHR 0x27])
      in case r of
           NotFound e \<Rightarrow> PFailed (name @ '' cannot be executed: '' @ e)
         | CannotExecute e \<Rightarrow> PFailed (name @ '' cannot be executed: '' @ e)
         | WaitFailed e \<Rightarrow> PFailed (name @ '' wait failed: '' @ e)
         | Ran exit ms out err \<Rightarrow>
             (let password = trim_newlines (from_utf8_lossy out); stderr = from_utf8_lossy err
              in if exit = Some 0 then (if password = [] then PCancelled else PPassword None password)
                 else if trim stderr = [] then PCancelled
                 else PFailed (name @ '' failed: '' @ error_line stderr)))"

definition askpass_program :: "string option \<Rightarrow> string option" where
  "askpass_program env = (case env of None \<Rightarrow> None | Some v \<Rightarrow> if trim v = [] then None else Some (trim v))"

definition parse_zenity_output :: "string \<Rightarrow> prompt_outcome" where
  "parse_zenity_output stdout =
     (case split_once CHR ''|'' stdout of
        Some (user, password) \<Rightarrow>
          if password \<noteq> [] then PPassword (if user = [] then None else Some user) password else PCancelled
      | None \<Rightarrow> PCancelled)"

section \<open>The terminal\<close>

datatype tty_error = TtyCancelled | TtyUnavailable string

datatype tty_event = TByte byte | TEof | TReadError

text \<open>\<open>SetRaw ok\<close> is the attempt to switch off the echo, \<open>GuardBegin\<close> and \<open>GuardEnd\<close> are tty_begin and tty_end.\<close>

datatype tty_action = TtyOpen | TtyWrite | SetRaw bool | GuardBegin | TtyRead | GuardEnd | Restore

record tty_world =
  tw_open :: "string option"
  tw_getattr :: bool
  tw_setattr :: bool
  tw_input :: "tty_event list"

text \<open>The loop over the bytes; an exhausted list is a terminal at its end.\<close>

fun tty_loop :: "tty_event list \<Rightarrow> bytes \<Rightarrow> tty_action list \<times> (tty_error + bytes)" where
  "tty_loop [] bytes = ([TtyRead], Inr bytes)"
| "tty_loop (TEof # es) bytes = ([TtyRead], Inr bytes)"
| "tty_loop (TReadError # es) bytes = ([TtyRead], Inr bytes)"
| "tty_loop (TByte b # es) bytes =
     (if b = 0x0A \<or> b = 0x0D then ([TtyRead], Inr bytes)
      else if b = 0x03 then ([TtyRead], Inl TtyCancelled)
      else (let (as, r) = tty_loop es (bytes @ [b]) in (TtyRead # as, r)))"

definition tty_prompt :: "tty_world \<Rightarrow> tty_action list \<times> (tty_error + string)" where
  "tty_prompt w =
     (case tw_open w of
        Some e \<Rightarrow> ([TtyOpen], Inl (TtyUnavailable (''/dev/tty: '' @ e)))
      | None \<Rightarrow>
          if \<not> tw_getattr w then ([TtyOpen, TtyWrite, TtyWrite], Inl (TtyUnavailable ''tcgetattr failed''))
          else
            (let (as, r) = (if tw_setattr w
                            then (let (as, r) = tty_loop (tw_input w) [] in (GuardBegin # as @ [GuardEnd], r))
                            else ([], Inl (TtyUnavailable ''cannot disable ECHO'')))
             in ([TtyOpen, TtyWrite, SetRaw (tw_setattr w)] @ as @ [Restore, TtyWrite],
                 (case r of Inl e \<Rightarrow> Inl e | Inr bytes \<Rightarrow> if bytes = [] then Inl TtyCancelled else Inr (from_utf8_lossy bytes)))))"

section \<open>The choice of a prompt\<close>

record prompt_world =
  pw_askpass :: "string option"
  pw_display :: "string option"
  pw_wayland :: "string option"
  pw_run :: "string \<Rightarrow> program_run"
  pw_tty :: tty_world

definition non_empty :: "string option \<Rightarrow> bool" where
  "non_empty v \<longleftrightarrow> (case v of None \<Rightarrow> False | Some s \<Rightarrow> s \<noteq> [])"

definition has_display_session :: "prompt_world \<Rightarrow> bool" where
  "has_display_session w \<longleftrightarrow> non_empty (pw_display w) \<or> non_empty (pw_wayland w)"

text \<open>The loop over the dialogs, with the reasons collected so far.\<close>

fun first_dialog :: "(string \<times> dialog_result) list \<Rightarrow> string list \<Rightarrow> prompt_outcome + string list" where
  "first_dialog [] trace = Inr trace"
| "first_dialog ((name, r) # rs) trace =
     (case r of
        DSuccess out \<Rightarrow> Inl (if name = ''zenity'' then parse_zenity_output out else PPassword None out)
      | DCancelled \<Rightarrow> Inl PCancelled
      | DUnavailable detail \<Rightarrow> first_dialog rs (trace @ [name @ '': '' @ detail]))"

definition unsupported_message :: "string \<Rightarrow> string \<Rightarrow> string list \<Rightarrow> string" where
  "unsupported_message user host trace =
     ''no interactive password prompt available for '' @ user @ ''@'' @ host @ '' (tried: '' @ join_on ''; '' trace @
     ''). Options: (1) install zenity, kdialog or yad on a desktop session; (2) set TERMBRIDGE_ASKPASS to an askpass-compatible program; (3) run from an interactive terminal.''"

definition tty_or_unsupported :: "tty_world \<Rightarrow> string \<Rightarrow> string \<Rightarrow> string list \<Rightarrow> prompt_outcome" where
  "tty_or_unsupported tw user host trace =
     (case snd (tty_prompt tw) of
        Inr password \<Rightarrow> PPassword None password
      | Inl TtyCancelled \<Rightarrow> PCancelled
      | Inl (TtyUnavailable detail) \<Rightarrow> PUnsupported (unsupported_message user host (trace @ [detail])))"

text \<open>
  The programs that were run, in order, and the outcome.  The array the loop ranges over holds the results of all
  three dialogs, so they are run before the loop looks at the first.
\<close>

definition prompt_password :: "prompt_world \<Rightarrow> string \<Rightarrow> string \<Rightarrow> string list \<times> prompt_outcome" where
  "prompt_password w host user =
     (case askpass_program (pw_askpass w) of
        Some program \<Rightarrow> ([program], run_askpass program (pw_run w program))
      | None \<Rightarrow>
          (let trace = [''TERMBRIDGE_ASKPASS not set''];
               (ran, dialogs) =
                 (if has_display_session w
                  then ([''zenity'', ''kdialog'', ''yad''],
                        first_dialog [(''zenity'', run_dialog (pw_run w ''zenity'') []), (''kdialog'', run_dialog (pw_run w ''kdialog'') []),
                                      (''yad'', run_dialog (pw_run w ''yad'') [252])] trace)
                  else ([], Inr (trace @ [''no display session (DISPLAY/WAYLAND_DISPLAY unset)''])))
           in case dialogs of
                Inl outcome \<Rightarrow> (ran, outcome)
              | Inr trace \<Rightarrow> (ran @ [''/dev/tty''], tty_or_unsupported (pw_tty w) user host trace)))"

text \<open>The same on macOS, with one dialog; the prompt is part of an AppleScript program.\<close>

fun escape_applescript :: "string \<Rightarrow> string" where
  "escape_applescript [] = []"
| "escape_applescript (c # cs) =
     (if c = CHR 0x5C then [CHR 0x5C, CHR 0x5C] else if c = CHR 0x22 then [CHR 0x5C, CHR 0x22] else [c]) @ escape_applescript cs"

definition osascript_program :: "string \<Rightarrow> string" where
  "osascript_program prompt =
     ''return text returned of (display dialog '' @ CHR 0x22 # escape_applescript prompt @
     CHR 0x22 # '' default answer '' @ [CHR 0x22, CHR 0x22] @ '' with hidden answer with title '' @ CHR 0x22 # ''TermBridge Credential'' @ CHR 0x22 # '')''"

definition prompt_text :: "string \<Rightarrow> string \<Rightarrow> string \<Rightarrow> string" where
  "prompt_text host user reason = ''Password for '' @ user @ ''@'' @ host @ '' ('' @ reason @ ''): ''"

definition prompt_password_macos :: "prompt_world \<Rightarrow> string \<Rightarrow> string \<Rightarrow> string list \<times> prompt_outcome" where
  "prompt_password_macos w host user =
     (case askpass_program (pw_askpass w) of
        Some program \<Rightarrow> ([program], run_askpass program (pw_run w program))
      | None \<Rightarrow>
          (case run_dialog (pw_run w ''osascript'') [] of
             DSuccess out \<Rightarrow> ([''osascript''], PPassword None out)
           | DCancelled \<Rightarrow> ([''osascript''], PCancelled)
           | DUnavailable detail \<Rightarrow>
               ([''osascript'', ''/dev/tty''],
                tty_or_unsupported (pw_tty w) user host [''TERMBRIDGE_ASKPASS not set'', ''osascript: '' @ detail])))"

text \<open>The helper's \<open>main\<close>: from what it is sent to the line it writes.\<close>

definition response_of_outcome :: "prompt_outcome \<Rightarrow> helper_response" where
  "response_of_outcome p =
     (case p of
        PPassword user password \<Rightarrow> HPassword password user
      | PCancelled \<Rightarrow> HCancelled
      | PUnsupported m \<Rightarrow> HUnsupported m
      | PFailed m \<Rightarrow> HFailed m)"

definition read_line :: "string \<Rightarrow> string" where
  "read_line s = takeWhile (\<lambda>c. c \<noteq> newline) s @ (if newline \<in> set s then [newline] else [])"

definition helper_main :: "credential_json \<Rightarrow> prompt_world \<Rightarrow> string \<Rightarrow> string" where
  "helper_main js w stdin =
     cm_response js
       (case cm_read_request js (trim (read_line stdin)) of
          None \<Rightarrow> HCancelled
        | Some (msg_type, req) \<Rightarrow>
            if msg_type \<noteq> ''password_request'' then HCancelled
            else response_of_outcome (snd (prompt_password w (pr_host req) (pr_user req)))) @ [newline]"

section \<open>The signal guard\<close>

text \<open>
  The terminal is raw, the guard knows of it (TTY_READY), the dialog that runs (CHILD_PID), the helper lives, and a
  dialog was left without a parent.
\<close>

record guard =
  sg_raw :: bool
  sg_ready :: bool
  sg_child :: "nat option"
  sg_alive :: bool
  sg_orphan :: bool

definition set_child :: "nat \<Rightarrow> guard \<Rightarrow> guard" where "set_child pid g = g\<lparr>sg_child := Some pid\<rparr>"

definition clear_child :: "guard \<Rightarrow> guard" where "clear_child g = g\<lparr>sg_child := None\<rparr>"

fun tty_step :: "tty_action \<Rightarrow> guard \<Rightarrow> guard" where
  "tty_step (SetRaw ok) g = (if ok then g\<lparr>sg_raw := True\<rparr> else g)"
| "tty_step GuardBegin g = g\<lparr>sg_ready := True\<rparr>"
| "tty_step GuardEnd g = g\<lparr>sg_ready := False\<rparr>"
| "tty_step Restore g = g\<lparr>sg_raw := False\<rparr>"
| "tty_step _ g = g"

text \<open>SIGTERM runs the handler, which stops the dialog and restores the terminal; SIGKILL cannot be caught.\<close>

definition handle_signal :: "guard \<Rightarrow> guard" where
  "handle_signal g =
     (let g = g\<lparr>sg_child := None\<rparr>; g = (if sg_ready g then g\<lparr>sg_raw := False\<rparr> else g) in g\<lparr>sg_alive := False\<rparr>)"

definition deliver_signal :: "signal \<Rightarrow> guard \<Rightarrow> guard" where
  "deliver_signal s g =
     (if \<not> sg_alive g then g
      else case s of
             SigTerm \<Rightarrow> handle_signal g
           | SigKill \<Rightarrow> g\<lparr>sg_alive := False, sg_orphan := sg_child g \<noteq> None\<rparr>)"

definition idle_guard :: guard where
  "idle_guard = \<lparr>sg_raw = False, sg_ready = False, sg_child = None, sg_alive = True, sg_orphan = False\<rparr>"

section \<open>Lemmas\<close>

text \<open>A dialog that was shown, and what its answer means.\<close>

definition shown :: "dialog_result \<Rightarrow> bool" where
  "shown r \<longleftrightarrow> (case r of DUnavailable _ \<Rightarrow> False | _ \<Rightarrow> True)"

definition dialog_outcome :: "string \<Rightarrow> dialog_result \<Rightarrow> prompt_outcome" where
  "dialog_outcome name r =
     (case r of
        DSuccess out \<Rightarrow> if name = ''zenity'' then parse_zenity_output out else PPassword None out
      | _ \<Rightarrow> PCancelled)"

lemma first_dialog_find:
  "first_dialog rs trace =
     (case find (shown \<circ> snd) rs of
        Some (name, r) \<Rightarrow> Inl (dialog_outcome name r)
      | None \<Rightarrow> Inr (trace @ map (\<lambda>(name, r). name @ '': '' @ (case r of DUnavailable d \<Rightarrow> d | _ \<Rightarrow> [])) rs))"
  by (induction rs trace rule: first_dialog.induct) (auto simp: shown_def dialog_outcome_def split: dialog_result.splits option.splits)

text \<open>
  A dialog is only passed over if it ended with an error, printed nothing, and the answer is no cancellation the
  classifier knows.
\<close>

lemma classify_dialog_unavailable:
  assumes "classify_dialog exit ms out err cancel = DUnavailable d"
  shows "exit \<noteq> 0 \<and> trim_newlines out = [] \<and> \<not> list_ex (contains (to_ascii_lowercase err)) USER_CANCEL_PATTERNS \<and>
   (list_ex (contains (to_ascii_lowercase err)) ENV_FAILURE_PATTERNS \<or> exit \<notin> set cancel \<and> ms < FAST_FAIL_MS)"
proof -
  have cases: "(if a then if b then DCancelled else DSuccess s else if \<not> b then DCancelled
      else if c then DCancelled else if e then DUnavailable x else if f then DCancelled
      else if g then DUnavailable y else DCancelled) = DUnavailable d \<Longrightarrow> \<not> a \<and> b \<and> \<not> c \<and> (e \<or> \<not> f \<and> g)" for a b c e f g s x y
    by (simp split: if_split_asm)
  show ?thesis by (rule cases[OF assms[unfolded classify_dialog_def Let_def]])
qed

lemma tty_loop_byte:
  "fst (tty_loop (TByte b # es) bs) = [TtyRead] \<or>
   fst (tty_loop (TByte b # es) bs) = TtyRead # fst (tty_loop es (bs @ [b]))"
  by (cases "tty_loop es (bs @ [b])") simp

lemma tty_loop_reads: "fst (tty_loop es bs) \<noteq> [] \<and> set (fst (tty_loop es bs)) = {TtyRead}"
proof (induction es arbitrary: bs)
  case (Cons e es)
  show ?case
  proof (cases e)
    case (TByte b)
    with Cons[of "bs @ [b]"] tty_loop_byte[of b es bs] show ?thesis by (elim disjE) auto
  qed simp_all
qed simp

lemma tty_loop_replicate: "\<exists>k. fst (tty_loop es bs) = replicate (Suc k) TtyRead"
proof -
  have "fst (tty_loop es bs) = replicate (length (fst (tty_loop es bs))) TtyRead"
    using tty_loop_reads[of es bs] by (intro replicate_length_same[symmetric]) simp
  with tty_loop_reads[of es bs] show ?thesis by (cases "fst (tty_loop es bs)") auto
qed

lemma fold_reads [simp]: "(tty_step TtyRead ^^ k) g = g"
  by (induction k) auto

text \<open>The four courses a prompt on the terminal can take.\<close>

lemma tty_prompt_courses:
  obtains "fst (tty_prompt w) = [TtyOpen]"
  | "fst (tty_prompt w) = [TtyOpen, TtyWrite, TtyWrite]"
  | "fst (tty_prompt w) = [TtyOpen, TtyWrite, SetRaw False, Restore, TtyWrite]"
  | k where "fst (tty_prompt w) =
      [TtyOpen, TtyWrite, SetRaw True, GuardBegin] @ replicate (Suc k) TtyRead @ [GuardEnd, Restore, TtyWrite]"
proof -
  obtain k where k: "fst (tty_loop (tw_input w) []) = replicate (Suc k) TtyRead"
    using tty_loop_replicate by blast
  consider e where "tw_open w = Some e" | "tw_open w = None" "\<not> tw_getattr w"
    | "tw_open w = None" "tw_getattr w" "\<not> tw_setattr w" | "tw_open w = None" "tw_getattr w" "tw_setattr w"
    by (cases "tw_open w") auto
  then show ?thesis
  proof cases
    case 4
    with k that(4)[of k] show ?thesis by (cases "tty_loop (tw_input w) []") (simp add: tty_prompt_def)
  qed (use that(1-3) in \<open>simp_all add: tty_prompt_def\<close>)
qed

lemma take_course:
  obtains "n \<le> 4" | j where "j < Suc k" "n = 4 + Suc j" | "n = 4 + Suc k + 1" | "n = 4 + Suc k + 2" | "n \<ge> 4 + Suc k + 3"
proof (cases "n \<le> 4 \<or> n \<ge> 4 + Suc k + 1")
  case True with that show ?thesis by linarith
next
  case False
  then show ?thesis using that(2)[of "n - 5"] by auto
qed

lemma small_nat: "(n::nat) \<le> 4 \<Longrightarrow> n = 0 \<or> n = 1 \<or> n = 2 \<or> n = 3 \<or> n = 4" by linarith

text \<open>
  The terminal prompt under a signal.  Whenever the prompt is interrupted by SIGTERM, the terminal is left
  without echo exactly if the signal falls in one of two gaps: between switching off the echo and registering with
  the guard, or between leaving the guard and switching the echo on again.  Bytes are read only with the echo off
  and the guard set, and a prompt that is not interrupted leaves the terminal as it was.
\<close>

lemma tty_signal_window:
  "let as = fst (tty_prompt w); past = take n as; g = fold tty_step past idle_guard
   in (sg_raw (deliver_signal SigTerm g) \<longleftrightarrow> past \<noteq> [] \<and> last past \<in> {SetRaw True, GuardEnd}) \<and>
      (past \<noteq> [] \<and> last past = TtyRead \<longrightarrow> sg_raw g \<and> sg_ready g) \<and>
      (length as \<le> n \<longrightarrow> \<not> sg_raw g)"
proof (cases rule: tty_prompt_courses[of w])
  case 1
  then show ?thesis by (auto simp: Let_def take_Cons' deliver_signal_def handle_signal_def idle_guard_def)
next
  case 2
  then show ?thesis by (auto simp: Let_def take_Cons' deliver_signal_def handle_signal_def idle_guard_def)
next
  case 3
  then show ?thesis by (auto simp: Let_def take_Cons' deliver_signal_def handle_signal_def idle_guard_def)
next
  case (4 k)
  let ?head = "[TtyOpen, TtyWrite, SetRaw True, GuardBegin]"
  show ?thesis
  proof (cases rule: take_course[where n = n and k = k])
    case 1
    then show ?thesis
      by (auto dest!: small_nat simp: 4 Let_def take_Cons' deliver_signal_def handle_signal_def idle_guard_def)
  next
    case (2 j)
    then have "take n (fst (tty_prompt w)) = ?head @ replicate (Suc j) TtyRead"
      unfolding 4 by (simp add: take_Cons' min_def)
    with 2 show ?thesis unfolding 4 Let_def
      by (simp add: deliver_signal_def handle_signal_def idle_guard_def del: replicate_Suc)
  next
    case 3
    then have "take n (fst (tty_prompt w)) = ?head @ replicate (Suc k) TtyRead @ [GuardEnd]"
      unfolding 4 by (simp add: take_Cons' min_def)
    with 3 show ?thesis unfolding 4 Let_def
      by (simp add: deliver_signal_def handle_signal_def idle_guard_def del: replicate_Suc)
  next
    case 4
    then have "take n (fst (tty_prompt w)) = ?head @ replicate (Suc k) TtyRead @ [GuardEnd, Restore]"
      unfolding \<open>fst (tty_prompt w) = _\<close> by (simp add: take_Cons' min_def)
    with 4 show ?thesis unfolding \<open>fst (tty_prompt w) = ?head @ _\<close> Let_def
      by (simp add: deliver_signal_def handle_signal_def idle_guard_def del: replicate_Suc)
  next
    case 5
    then have "take n (fst (tty_prompt w)) = ?head @ replicate (Suc k) TtyRead @ [GuardEnd, Restore, TtyWrite]"
      unfolding 4 by simp
    with 5 show ?thesis unfolding 4 Let_def
      by (simp add: deliver_signal_def handle_signal_def idle_guard_def del: replicate_Suc)
  qed
qed

section \<open>Both programs together\<close>

text \<open>The helper as the process the client talks to.\<close>

definition helper_process :: "credential_json \<Rightarrow> prompt_world \<Rightarrow> helper_world" where
  "helper_process js w =
     \<lparr>hw_spawn = None, hw_write = None, hw_answer = (\<lambda>stdin. Line (read_line (helper_main js w stdin))), hw_exits = True\<rparr>"

definition outcome_credential :: "prompt_outcome \<Rightarrow> credential_error + password_credential" where
  "outcome_credential p =
     (case p of
        PPassword user password \<Rightarrow> Inr \<lparr>pc_user = user, pc_secret = password\<rparr>
      | PCancelled \<Rightarrow> Inl Cancelled
      | PUnsupported m \<Rightarrow> Inl (Unsupported m)
      | PFailed m \<Rightarrow> Inl (HelperFailed m))"

lemma credential_of_response_of_outcome: "credential_of_response (response_of_outcome p) = outcome_credential p"
  by (cases p) (simp_all add: credential_of_response_def response_of_outcome_def outcome_credential_def)

text \<open>A text that is one line of its own: no newline in it, no blank at its ends.\<close>

definition one_line :: "string \<Rightarrow> bool" where
  "one_line s \<longleftrightarrow> s \<noteq> [] \<and> newline \<notin> set s \<and> trim s = s"

lemma read_line_one_line: "newline \<notin> set s \<Longrightarrow> read_line (s @ newline # t) = s @ [newline]"
  by (simp add: read_line_def takeWhile_append takeWhile_eq_all_conv[THEN iffD2])

lemma ws_len_newline: "p \<noteq> [] \<Longrightarrow> ws_len (p @ newline # r) = ws_len p"
proof (cases p)
  case (Cons c s)
  consider "s = []" | d where "s = [d]" | d e t where "s = d # e # t"
    by (metis list.exhaust)
  then show ?thesis by cases (simp_all add: Cons split: list.split)
qed simp

lemma trim_line: "one_line s \<Longrightarrow> trim (s @ [newline]) = s"
proof -
  assume one: "one_line s"
  then have ws: "ws_len s = 0" "ws_len_end s = 0"
    using ws_len_trim[of s] ws_len_end_trim[of s] by (simp_all add: one_line_def)
  have "trim_start (s @ [newline]) = s @ [newline]"
    using one ws ws_len_newline[of s "[]"] by (simp add: trim_start_no_ws one_line_def)
  moreover have "ws_len_end (s @ [newline]) = 1" by (simp add: ws_len_end_def last_n_def)
  ultimately show ?thesis
    using ws by (simp add: trim_def trim_end.simps[of "s @ [newline]"] trim_end_no_ws)
qed

text \<open>
  (C30) The protocol of client and helper.  If the JSON texts of the request and of the helper's response are single
  lines that read back, the client's answer is the outcome of the prompt, whatever it is: password and edited user
  name character by character, cancellation, no way to prompt, or a broken provider.
\<close>

theorem helper_protocol:
  assumes "one_line (cm_request js ''password_request'' req)"
    and "cm_read_request js (cm_request js ''password_request'' req) = Some (''password_request'', req)"
    and "let r = response_of_outcome (snd (prompt_password w (pr_host req) (pr_user req)))
         in one_line (cm_response js r) \<and> cm_read_response js (cm_response js r) = Inr r"
  shows "request_password js (helper_process js w) env req =
         Some ([], outcome_credential (snd (prompt_password w (pr_host req) (pr_user req))))"
proof -
  let ?r = "response_of_outcome (snd (prompt_password w (pr_host req) (pr_user req)))"
  have r: "one_line (cm_response js ?r)" "cm_read_response js (cm_response js ?r) = Inr ?r"
    using assms(3) by (simp_all add: Let_def)
  have nl: "newline \<notin> set (cm_request js ''password_request'' req)" "newline \<notin> set (cm_response js ?r)" "cm_response js ?r \<noteq> []"
    using assms(1) r(1) by (simp_all add: one_line_def)
  have main: "helper_main js w (cm_request js ''password_request'' req @ [newline]) = cm_response js ?r @ [newline]"
    unfolding helper_main_def read_line_one_line[OF nl(1)] trim_line[OF assms(1)] assms(2) by simp
  show ?thesis
    unfolding request_password_def helper_process_def
    by (simp add: main read_line_one_line[OF nl(2)] trim_line[OF r(1)] r(2) nl(3) credential_of_response_of_outcome)
qed

text \<open>
  Dialogs on Linux.  Without an askpass program on a desktop, the outcome is decided by the first of zenity,
  kdialog and yad that was shown, and by the terminal if none was; but all three are run in any case, so a user who
  has answered or cancelled the first dialog is asked twice more.
\<close>

lemma every_dialog_is_run:
  assumes "askpass_program (pw_askpass w) = None" "has_display_session w"
  shows "take 3 (fst (prompt_password w host user)) = [''zenity'', ''kdialog'', ''yad''] \<and>
    (case find (shown \<circ> snd) [(''zenity'', run_dialog (pw_run w ''zenity'') []),
        (''kdialog'', run_dialog (pw_run w ''kdialog'') []), (''yad'', run_dialog (pw_run w ''yad'') [252])] of
       Some (name, r) \<Rightarrow> prompt_password w host user = ([''zenity'', ''kdialog'', ''yad''], dialog_outcome name r)
     | None \<Rightarrow> fst (prompt_password w host user) = [''zenity'', ''kdialog'', ''yad'', ''/dev/tty''])"
proof -
  define rs where "rs = [(''zenity'', run_dialog (pw_run w ''zenity'') []),
    (''kdialog'', run_dialog (pw_run w ''kdialog'') []), (''yad'', run_dialog (pw_run w ''yad'') [252])]"
  have eq: "prompt_password w host user =
      (case first_dialog rs [''TERMBRIDGE_ASKPASS not set''] of
         Inl outcome \<Rightarrow> ([''zenity'', ''kdialog'', ''yad''], outcome)
       | Inr trace \<Rightarrow> ([''zenity'', ''kdialog'', ''yad''] @ [''/dev/tty''], tty_or_unsupported (pw_tty w) user host trace))"
    unfolding prompt_password_def rs_def using assms by (simp only: option.case if_True Let_def prod.case)
  show ?thesis
  proof (cases "find (shown \<circ> snd) rs")
    case None
    then show ?thesis unfolding eq rs_def[symmetric] by (simp add: first_dialog_find)
  next
    case (Some q)
    then show ?thesis unfolding eq rs_def[symmetric] by (cases q) (simp add: first_dialog_find)
  qed
qed

text \<open>A call that gives up waiting sends SIGKILL and nothing else: the helper's clean-up never runs.\<close>

lemma timeout_skips_cleanup:
  assumes "hw_spawn w = None" "hw_write w = None" "hw_answer w (cm_request js ''password_request'' req @ [newline]) = NoAnswer"
    and "prompt_timeout env = Some secs" "sg_alive g"
  shows "\<exists>signals. request_password js w env req = Some (signals, Inl (CredTimeout secs)) \<and> set signals = {SigKill} \<and>
    fold deliver_signal signals g = g\<lparr>sg_alive := False, sg_orphan := sg_child g \<noteq> None\<rparr>"
  using assms by (simp add: request_password_def kill_helper_def deliver_signal_def)

text \<open>
  A string literal of AppleScript, read to its closing quote: a backslash takes the next character.
\<close>

fun applescript_literal :: "string \<Rightarrow> (string \<times> string) option" where
  "applescript_literal [] = None"
| "applescript_literal (c # cs) =
     (if c = CHR 0x22 then Some ([], cs)
      else if c = CHR 0x5C then
        (case cs of [] \<Rightarrow> None | d # ds \<Rightarrow> map_option (\<lambda>(s, rest). (d # s, rest)) (applescript_literal ds))
      else map_option (\<lambda>(s, rest). (c # s, rest)) (applescript_literal cs))"

lemma escape_applescript_literal: "applescript_literal (escape_applescript s @ CHR 0x22 # rest) = Some (s, rest)"
  by (induction s) auto

section \<open>Witnesses\<close>

definition demo_tty :: tty_world where
  "demo_tty = \<lparr>tw_open = None, tw_getattr = True, tw_setattr = True, tw_input = [TByte 112, TByte 119, TByte 10]\<rparr>"

lemma demo_tty_actions:
  "fst (tty_prompt demo_tty) =
     [TtyOpen, TtyWrite, SetRaw True, GuardBegin, TtyRead, TtyRead, TtyRead, GuardEnd, Restore, TtyWrite]"
  by (simp add: tty_prompt_def demo_tty_def)

text \<open>A desktop whose user cancels zenity and has the other dialogs installed.\<close>

definition demo_cancel :: prompt_world where
  "demo_cancel = \<lparr>pw_askpass = None, pw_display = Some '':0'', pw_wayland = None,
     pw_run = (\<lambda>_. Ran (Some 1) 5000 [] []), pw_tty = demo_tty\<rparr>"

lemma demo_cancel_run: "run_dialog (pw_run demo_cancel p) codes = DCancelled"
proof -
  have "\<not> list_ex (contains (to_ascii_lowercase (from_utf8_lossy []))) ENV_FAILURE_PATTERNS"
    by (simp add: ENV_FAILURE_PATTERNS_def contains_def to_ascii_lowercase_def)
  then show ?thesis
    by (simp add: demo_cancel_def run_dialog_def classify_dialog_def Let_def FAST_FAIL_MS_def trim_newlines_def)
qed

text \<open>Texts in the place of JSON.\<close>

definition demo_json :: credential_json where
  "demo_json =
     \<lparr>cm_request = (\<lambda>t r. join_on ''|'' [t, pr_host r, pr_user r, pr_reason r]),
      cm_read_request = (\<lambda>s. case split_on CHR ''|'' s of
         [t, h, u, r] \<Rightarrow> Some (t, \<lparr>pr_host = h, pr_user = u, pr_reason = r\<rparr>) | _ \<Rightarrow> None),
      cm_response = (\<lambda>r. case r of HPassword p u \<Rightarrow> ''+'' @ p | HCancelled \<Rightarrow> ''c'' | HUnsupported m \<Rightarrow> ''u'' @ m | HFailed m \<Rightarrow> ''f'' @ m),
      cm_read_response = (\<lambda>s. case s of [] \<Rightarrow> Inl ''empty''
         | c # m \<Rightarrow> if c = CHR ''+'' then Inr (HPassword m None) else if c = CHR ''c'' then Inr HCancelled
             else if c = CHR ''u'' then Inr (HUnsupported m) else Inr (HFailed m))\<rparr>"

definition demo_request :: password_request where
  "demo_request = \<lparr>pr_host = ''h'', pr_user = ''root'', pr_reason = ''bootstrap''\<rparr>"

definition demo_headless :: prompt_world where
  "demo_headless = \<lparr>pw_askpass = None, pw_display = None, pw_wayland = None, pw_run = (\<lambda>_. NotFound ''none''), pw_tty = demo_tty\<rparr>"

lemma demo_typed: "from_utf8_lossy [112, 119] = ''pw''"
  by code_simp

lemma demo_headless_outcome: "snd (prompt_password demo_headless h u) = PPassword None ''pw''"
  by (simp add: prompt_password_def demo_headless_def askpass_program_def has_display_session_def non_empty_def
     tty_or_unsupported_def tty_prompt_def demo_tty_def demo_typed)

theorem helper_protocol_witness:
  "request_password demo_json (helper_process demo_json demo_headless) None demo_request =
     Some ([], Inr \<lparr>pc_user = None, pc_secret = ''pw''\<rparr>)"
proof -
  have host: "pr_host demo_request = ''h''" "pr_user demo_request = ''root''" by (simp_all add: demo_request_def)
  have req: "cm_request demo_json ''password_request'' demo_request = ''password_request|h|root|bootstrap''"
    by (simp add: demo_json_def demo_request_def)
  have resp: "cm_response demo_json (HPassword ''pw'' None) = ''+pw''" by (simp add: demo_json_def)
  have one: "one_line ''password_request|h|root|bootstrap''" "one_line ''+pw''"
    by (simp_all add: one_line_def trim_fixed ws_len_end_def last_n_def)
  have read: "cm_read_request demo_json ''password_request|h|root|bootstrap'' = Some (''password_request'', demo_request)"
    by (simp add: demo_json_def demo_request_def)
  have read': "cm_read_response demo_json ''+pw'' = Inr (HPassword ''pw'' None)" by (simp add: demo_json_def)
  show ?thesis
    using helper_protocol[of demo_json demo_request demo_headless None]
    by (simp add: host req one read demo_headless_outcome response_of_outcome_def resp read' outcome_credential_def)
qed

end
