(* ===== verification/Ssh_Config.thy ===== *)
theory Ssh_Config
  imports Provider Decimal
begin

text \<open>
  src/infrastructure/sshconfig.rs: the host a tool names is resolved by running \<open>ssh -G\<close> and
  reading its output.  The child process, the home directory, the file system, the joining of paths
  (which differs between platforms) and the remembered user names are arguments.
\<close>

section \<open>The alias\<close>

definition validate_alias :: "string \<Rightarrow> string result" where
  "validate_alias alias =
     (let trimmed = trim alias
      in if trimmed = [] then Inl (InvalidArgument alias)
         else if prefix ''-'' trimmed then Inl (InvalidArgument alias)
         else Inr trimmed)"

section \<open>Paths\<close>

record ssh_env =
  se_windows :: bool
  se_home :: "string option"
  se_join :: "string \<Rightarrow> string \<Rightarrow> string"
  se_is_file :: "string \<Rightarrow> bool"

definition expand_home :: "ssh_env \<Rightarrow> string \<Rightarrow> string" where
  "expand_home env path =
     (case (strip_prefix ''~/'' path, se_home env) of
        (Some rest, Some home) \<Rightarrow> se_join env home rest
      | _ \<Rightarrow> if path = ''~'' then (case se_home env of Some home \<Rightarrow> home | None \<Rightarrow> path) else path)"

definition is_ascii_alphabetic :: "char \<Rightarrow> bool" where
  "is_ascii_alphabetic c \<longleftrightarrow> 65 \<le> code c \<and> code c \<le> 90 \<or> 97 \<le> code c \<and> code c \<le> 122"

definition normalize_msys_path :: "string \<Rightarrow> bool \<Rightarrow> string" where
  "normalize_msys_path path windows =
     (if \<not> windows then path
      else if length path \<ge> 3 \<and> path ! 0 = CHR ''/'' \<and> is_ascii_alphabetic (path ! 1) \<and> path ! 2 = CHR ''/''
      then [path ! 1, CHR '':''] @ drop 2 path
      else path)"

text \<open>\<open>split_quoted_tokens\<close>: the token so far, whether the scan is inside quotes, and whether
  a token has begun.\<close>

function split_tokens :: "string \<Rightarrow> bool \<Rightarrow> bool \<Rightarrow> string \<Rightarrow> string list" where
  "split_tokens cur in_quotes started [] = (if started then [cur] else [])"
| "split_tokens cur in_quotes started (c # s) =
     (if c = CHR 0x22 then split_tokens cur (\<not> in_quotes) True s
      else if ws_len (c # s) \<noteq> 0 \<and> \<not> in_quotes
      then (if started then cur # split_tokens [] in_quotes False (drop (ws_len (c # s)) (c # s))
            else split_tokens cur in_quotes False (drop (ws_len (c # s)) (c # s)))
      else split_tokens (cur @ [c]) in_quotes True s)"
  by pat_completeness auto
termination
  by (relation "measure (\<lambda>(cur, q, st, s). length s)") (auto simp del: ws_len.simps(2))

declare split_tokens.simps(2) [simp del]

definition split_quoted_tokens :: "string \<Rightarrow> string list" where
  "split_quoted_tokens value = split_tokens [] False False value"

section \<open>The output of ssh -G\<close>

text \<open>\<open>splitn(2, char::is_whitespace)\<close>.\<close>

fun splitn2_ws :: "string \<Rightarrow> string \<times> string option" where
  "splitn2_ws [] = ([], None)"
| "splitn2_ws (c # s) =
     (if ws_len (c # s) \<noteq> 0 then ([], Some (drop (ws_len (c # s)) (c # s)))
      else (let (k, v) = splitn2_ws s in (c # k, v)))"

text \<open>
  \<open>to_lowercase\<close> on a key.  The only letter outside ASCII whose lower case is in ASCII is the
  Kelvin sign; other letters outside ASCII stay outside it, and the keys looked up are in ASCII, so
  they are left as they are.
\<close>

fun key_lower :: "string \<Rightarrow> string" where
  "key_lower (c # d # e # s) =
     (if c = CHR 0xE2 \<and> d = CHR 0x84 \<and> e = CHR 0xAA then CHR ''k'' # key_lower s
      else ascii_lower c # key_lower (d # e # s))"
| "key_lower s = map ascii_lower s"

type_synonym ssh_fields = "(string \<rightharpoonup> string) \<times> (string \<rightharpoonup> string list)"

fun ssh_put :: "ssh_fields \<Rightarrow> string \<times> string \<Rightarrow> ssh_fields" where
  "ssh_put (single, multi) (key, value) =
     (if key = ''identityfile'' \<or> key = ''certificatefile''
      then (single, multi(key \<mapsto> (case multi key of Some vs \<Rightarrow> vs | None \<Rightarrow> []) @ [value]))
      else (single(key \<mapsto> value), multi))"

definition ssh_line :: "ssh_fields \<Rightarrow> string \<Rightarrow> ssh_fields" where
  "ssh_line f raw =
     (let l = trim raw; (k, v) = splitn2_ws l; key = key_lower k;
          value = (case v of Some x \<Rightarrow> trim x | None \<Rightarrow> [])
      in if l = [] \<or> key = [] then f else ssh_put f (key, value))"

definition local_path :: "ssh_env \<Rightarrow> string \<Rightarrow> string" where
  "local_path env s = expand_home env (normalize_msys_path s (se_windows env))"

definition parse_ssh_g :: "ssh_env \<Rightarrow> string \<Rightarrow> string \<Rightarrow> host result" where
  "parse_ssh_g env alias stdout =
     (let (single, multi) = foldl ssh_line (\<lambda>_. None, \<lambda>_. None) (lines stdout)
      in case single ''hostname'' of
           None \<Rightarrow> Inl (ConnectFailed alias)
         | Some hostname \<Rightarrow>
             Inr \<lparr>h_name = alias, h_hostname = hostname,
                  h_user = (case single ''user'' of Some u \<Rightarrow> u | None \<Rightarrow> []),
                  h_port = (case single ''port'' of
                              Some v \<Rightarrow> (case parse_unsigned 65535 v of Some n \<Rightarrow> of_nat n | None \<Rightarrow> 22)
                            | None \<Rightarrow> 22),
                  h_identity_files = (case multi ''identityfile'' of
                              Some fs \<Rightarrow> filter (se_is_file env) (map (local_path env) fs) | None \<Rightarrow> []),
                  h_proxy_jump = (case single ''proxyjump'' of
                              Some v \<Rightarrow> if v \<noteq> [] \<and> v \<noteq> ''none'' then Some v else None | None \<Rightarrow> None),
                  h_user_known_hosts_files = (case single ''userknownhostsfile'' of
                              Some v \<Rightarrow> map (local_path env) (split_quoted_tokens v) | None \<Rightarrow> []),
                  h_strict_host_key_checking = (case single ''stricthostkeychecking'' of
                              Some v \<Rightarrow> to_ascii_lowercase v | None \<Rightarrow> ''ask'')\<rparr>)"

text \<open>What \<open>ssh -G\<close> does within the time limit.\<close>

datatype ssh_g_outcome = SpawnError string | SshTimedOut | SshExited bool bytes bytes

definition resolve_host ::
  "ssh_env \<Rightarrow> (string \<Rightarrow> ssh_g_outcome) \<Rightarrow> (string \<Rightarrow> string option) \<Rightarrow> string \<Rightarrow> host result" where
  "resolve_host env ssh_g remembered alias0 =
     (case validate_alias alias0 of
        Inl e \<Rightarrow> Inl e
      | Inr alias \<Rightarrow>
          (case ssh_g alias of
             SpawnError e \<Rightarrow> Inl (ConnectFailed e)
           | SshTimedOut \<Rightarrow> Inl (ConnectFailed ''timed out'')
           | SshExited success out err \<Rightarrow>
               if \<not> success then Inl (ConnectFailed (from_utf8_lossy err))
               else (case parse_ssh_g env alias (from_utf8_lossy out) of
                       Inl e \<Rightarrow> Inl e
                     | Inr h \<Rightarrow>
                         Inr (case remembered (h_hostname h) of Some u \<Rightarrow> h\<lparr>h_user := u\<rparr> | None \<Rightarrow> h))))"

section \<open>Jump hosts\<close>

record proxy_jump_target =
  pj_user :: "string option"
  pj_host :: string
  pj_port :: "u16 option"

definition parse_proxy_jump :: "string \<Rightarrow> proxy_jump_target result" where
  "parse_proxy_jump s0 =
     (let s = trim s0
      in if s = [] then Inl (InvalidArgument [])
         else if CHR '','' \<in> set s then Inl (InvalidArgument s)
         else
           let (user, rest) = (case split_once CHR ''@'' s of
                                 Some (u, r) \<Rightarrow> (if u = [] then None else Some u, r)
                               | None \<Rightarrow> (None, s));
               (host, port) = (case rsplit_once CHR '':'' rest of
                                 Some (h, p) \<Rightarrow>
                                   (case parse_unsigned 65535 p of
                                      Some n \<Rightarrow> (h, Some (of_nat n)) | None \<Rightarrow> (rest, None))
                               | None \<Rightarrow> (rest, None))
           in if host = [] then Inl (InvalidArgument s)
              else Inr \<lparr>pj_user = user, pj_host = host, pj_port = port\<rparr>)"

section \<open>What is passed to ssh\<close>

lemma validate_alias_Inr:
  "validate_alias a = Inr b \<Longrightarrow> b = trim a \<and> b \<noteq> [] \<and> \<not> prefix ''-'' b"
  by (auto simp: validate_alias_def Let_def split: if_splits)

text \<open>
  No alias can become an option of \<open>ssh\<close>: \<open>resolve\<close> runs \<open>ssh -G\<close> only with a
  trimmed, non-empty argument that does not begin with a dash, for its result depends on nothing
  else the program would do.
\<close>

lemma ssh_g_argument_safe:
  assumes "\<And>a. a \<noteq> [] \<Longrightarrow> \<not> prefix ''-'' a \<Longrightarrow> trim a = a \<Longrightarrow> run a = run' a"
  shows "resolve_host env run remembered alias0 = resolve_host env run' remembered alias0"
proof (cases "validate_alias alias0")
  case (Inr b)
  then have "run b = run' b" using validate_alias_Inr [OF Inr] by (intro assms) auto
  then show ?thesis using Inr by (simp add: resolve_host_def)
qed (simp add: resolve_host_def)

section \<open>Quoted tokens\<close>

fun has_ws :: "string \<Rightarrow> bool" where
  "has_ws [] = False"
| "has_ws (c # s) = (ws_len (c # s) \<noteq> 0 \<or> has_ws s)"

definition quote_token :: "string \<Rightarrow> string" where
  "quote_token t = (if t \<noteq> [] \<and> \<not> has_ws t then t else CHR 0x22 # t @ [CHR 0x22])"

lemma split_tokens_quoted:
  "CHR 0x22 \<notin> set t \<Longrightarrow> split_tokens cur True True (t @ rest) = split_tokens (cur @ t) True True rest"
  by (induction t arbitrary: cur) (auto simp: split_tokens.simps(2))

lemma split_tokens_bare:
  "CHR 0x22 \<notin> set t \<Longrightarrow> \<not> has_ws t \<Longrightarrow> rest = [] \<or> (\<exists>r. rest = CHR '' '' # r) \<Longrightarrow>
   split_tokens cur False st (t @ rest) = split_tokens (cur @ t) False (st \<or> t \<noteq> []) rest"
proof (induction t arbitrary: cur st)
  case (Cons c t)
  have "ws_len (c # t @ rest) = 0"
    using Cons.prems(2,3) ws_len_space [of "c # t"] by (auto simp del: ws_len.simps)
  then show ?case
    using Cons by (auto simp: split_tokens.simps(2) simp del: ws_len.simps)
qed simp

lemma split_tokens_quote_token:
  assumes "CHR 0x22 \<notin> set t" "rest = [] \<or> (\<exists>r. rest = CHR '' '' # r)"
  shows "split_tokens [] False False (quote_token t @ rest) = split_tokens t False True rest"
  using assms split_tokens_bare [OF assms(1) _ assms(2), of "[]" False]
    split_tokens_quoted [OF assms(1), of "[]" "CHR 0x22 # rest"]
  by (auto simp: quote_token_def split_tokens.simps(2))

lemma split_tokens_space:
  "split_tokens cur False True (CHR '' '' # r) = cur # split_tokens [] False False r"
  by (simp add: split_tokens.simps(2))

lemma split_tokens_join:
  "\<forall>t \<in> set ts. CHR 0x22 \<notin> set t \<Longrightarrow>
   split_tokens [] False False (join_on '' '' (map quote_token ts)) = ts"
proof (induction ts rule: induct_list012)
  case (2 t)
  then show ?case using split_tokens_quote_token [of t "[]"] by simp
next
  case (3 t u ts)
  then show ?case
    using split_tokens_quote_token [of t "CHR '' '' # join_on '' '' (map quote_token (u # ts))"]
    by (simp add: split_tokens_space)
qed simp

text \<open>
  Splitting undoes quoting: tokens without a double quote, written bare or in quotes where they are
  empty or contain white space, and separated by a space, are read back one by one; a path with
  spaces is never torn apart.
\<close>

lemma quoted_tokens_roundtrip:
  assumes "\<forall>t \<in> set ts. CHR 0x22 \<notin> set t"
  shows "split_quoted_tokens (join_on '' '' (map quote_token ts)) = ts"
  unfolding split_quoted_tokens_def by (rule split_tokens_join [OF assms])

text \<open>A space between a quoted and a bare part stays in the token.\<close>

lemma quoted_part_keeps_space:
  "split_quoted_tokens (CHR 0x22 # ''a b'' @ CHR 0x22 # ''c d'') = [''a bc'', ''d'']"
  by code_simp

section \<open>Jump hosts\<close>

definition show_proxy_jump :: "proxy_jump_target \<Rightarrow> string" where
  "show_proxy_jump t =
     (case pj_user t of Some u \<Rightarrow> u @ ''@'' | None \<Rightarrow> []) @ pj_host t @
     (case pj_port t of Some p \<Rightarrow> CHR '':'' # dec (unat p) | None \<Rightarrow> [])"

definition proxy_jump_ok :: "proxy_jump_target \<Rightarrow> bool" where
  "proxy_jump_ok t \<longleftrightarrow> pj_host t \<noteq> [] \<and> CHR '','' \<notin> set (show_proxy_jump t) \<and>
     trim (show_proxy_jump t) = show_proxy_jump t \<and>
     (case pj_user t of Some u \<Rightarrow> u \<noteq> [] \<and> CHR ''@'' \<notin> set u | None \<Rightarrow> CHR ''@'' \<notin> set (pj_host t)) \<and>
     (pj_port t = None \<longrightarrow> CHR '':'' \<notin> set (pj_host t))"

lemma dec_not_in: "\<not> is_digit c \<Longrightarrow> c \<notin> set (dec n)"
  using dec_digits(1) [of n] by (auto simp: list_all_iff)

text \<open>
  A jump host in the form \<open>[user@]host[:port]\<close> is read back as it was written.
\<close>

lemma proxy_jump_roundtrip:
  assumes "proxy_jump_ok t"
  shows "parse_proxy_jump (show_proxy_jump t) = Inr t"
proof -
  define hp where "hp = pj_host t @ (case pj_port t of Some p \<Rightarrow> CHR '':'' # dec (unat p) | None \<Rightarrow> [])"
  have user: "(case split_once CHR ''@'' (show_proxy_jump t) of
      Some (u, r) \<Rightarrow> (if u = [] then None else Some u, r) | None \<Rightarrow> (None, show_proxy_jump t)) = (pj_user t, hp)"
  proof (cases "pj_user t")
    case None
    have "CHR ''@'' \<notin> set hp"
      using assms None by (auto simp: hp_def proxy_jump_ok_def is_digit_def dec_not_in split: option.splits)
    then have "split_once CHR ''@'' (show_proxy_jump t) = None"
      by (simp add: None show_proxy_jump_def hp_def split_once_None)
    then show ?thesis by (simp add: None show_proxy_jump_def hp_def)
  next
    case (Some u)
    then have "show_proxy_jump t = u @ CHR ''@'' # hp" by (simp add: show_proxy_jump_def hp_def)
    then show ?thesis using assms Some by (simp add: proxy_jump_ok_def split_once_append)
  qed
  have "unat p \<le> 65535" for p :: u16 using unsigned_less [of p, where ?'a = nat] by simp
  note num = parse_unsigned_dec [OF this]
  have port: "(case rsplit_once CHR '':'' hp of
      Some (h, p) \<Rightarrow> (case parse_unsigned 65535 p of Some n \<Rightarrow> (h, Some (of_nat n)) | None \<Rightarrow> (hp, None))
    | None \<Rightarrow> (hp, None)) = (pj_host t, pj_port t)"
  proof (cases "pj_port t")
    case None
    then have "rsplit_once CHR '':'' hp = None"
      using assms by (simp add: hp_def rsplit_once_None proxy_jump_ok_def)
    then show ?thesis by (simp add: None hp_def)
  next
    case (Some p)
    have "rsplit_once CHR '':'' hp = Some (pj_host t, dec (unat p))"
      by (simp add: Some hp_def rsplit_once_append dec_not_in is_digit_def)
    then show ?thesis by (simp add: Some num)
  qed
  have tr: "trim (show_proxy_jump t) = show_proxy_jump t" and "show_proxy_jump t \<noteq> []"
    "CHR '','' \<notin> set (show_proxy_jump t)" "pj_host t \<noteq> []"
    using assms by (auto simp: proxy_jump_ok_def show_proxy_jump_def)
  then show ?thesis unfolding parse_proxy_jump_def Let_def tr user prod.case port by simp
qed

text \<open>An IPv6 address without brackets loses its last group to the port.\<close>

lemma ipv6_tail_is_port:
  "parse_proxy_jump ''fe80::1'' = Inr \<lparr>pj_user = None, pj_host = ''fe80:'', pj_port = Some 1\<rparr>"
proof -
  have "trim ''fe80::1'' = ''fe80::1''" "split_once CHR ''@'' ''fe80::1'' = None"
    "rsplit_once CHR '':'' ''fe80::1'' = Some (''fe80:'', ''1'')"
    by code_simp+
  moreover have "parse_unsigned 65535 ''1'' = Some 1"
    by (simp add: parse_unsigned_def is_digit_def undec_def)
  ultimately show ?thesis by (simp add: parse_proxy_jump_def)
qed

section \<open>Reading back a printed host\<close>

definition kv :: "string \<Rightarrow> string \<Rightarrow> string" where
  "kv k v = k @ CHR '' '' # v"

definition host_values :: "host \<Rightarrow> (string \<times> string) list" where
  "host_values h =
     [(''user'', h_user h), (''hostname'', h_hostname h), (''port'', dec (unat (h_port h))),
      (''stricthostkeychecking'', h_strict_host_key_checking h)] @
     map (Pair ''identityfile'') (h_identity_files h) @
     (case h_proxy_jump h of Some p \<Rightarrow> [(''proxyjump'', p)] | None \<Rightarrow> []) @
     (if h_user_known_hosts_files h = [] then []
      else [(''userknownhostsfile'', join_on '' '' (h_user_known_hosts_files h))])"

text \<open>A listing in the form of \<open>ssh -G\<close>: a key and its value on each line, nothing quoted.\<close>

definition render_host :: "host \<Rightarrow> string" where
  "render_host h = concat (map (\<lambda>l. l @ [newline]) (map (\<lambda>(k, v). kv k v) (host_values h)))"

definition value_ok :: "string \<Rightarrow> bool" where
  "value_ok v \<longleftrightarrow> v \<noteq> [] \<and> trim v = v \<and> newline \<notin> set v \<and> last v \<noteq> cr"

definition host_ok :: "ssh_env \<Rightarrow> host \<Rightarrow> bool" where
  "host_ok env h \<longleftrightarrow> (\<forall>(k, v) \<in> set (host_values h). value_ok v) \<and>
     (\<forall>p \<in> set (h_identity_files h). local_path env p = p \<and> se_is_file env p) \<and>
     (\<forall>p \<in> set (h_user_known_hosts_files h). local_path env p = p \<and> p \<noteq> [] \<and> \<not> has_ws p \<and> CHR 0x22 \<notin> set p) \<and>
     h_proxy_jump h \<noteq> Some ''none'' \<and>
     to_ascii_lowercase (h_strict_host_key_checking h) = h_strict_host_key_checking h"

lemma splitn2_ws_kv: "\<not> has_ws k \<Longrightarrow> splitn2_ws (kv k v) = (k, Some v)"
proof (induction k)
  case (Cons c k)
  then show ?case using ws_len_space [of "c # k" v] by (simp add: kv_def del: ws_len.simps)
qed (simp add: kv_def)

lemma trim_kv: "k \<noteq> [] \<Longrightarrow> \<not> has_ws k \<Longrightarrow> v \<noteq> [] \<Longrightarrow> trim v = v \<Longrightarrow> trim (kv k v) = kv k v"
  using ws_len_space [of k v] ws_len_end_after_space [of v k] ws_len_end_trim [of v]
  by (cases k) (auto simp: kv_def intro: trim_fixed simp del: ws_len.simps)

lemma ssh_line_kv:
  assumes "k \<noteq> []" "\<not> has_ws k" "key_lower k = k" "value_ok v"
  shows "ssh_line f (kv k v) = ssh_put f (k, v)"
proof -
  have "trim v = v" "v \<noteq> []" using assms(4) by (auto simp: value_ok_def)
  moreover have "kv k v \<noteq> []" by (simp add: kv_def)
  ultimately show ?thesis
    using assms by (simp add: ssh_line_def Let_def trim_kv splitn2_ws_kv)
qed

lemma host_keys:
  "(k, v) \<in> set (host_values h) \<Longrightarrow> k \<noteq> [] \<and> \<not> has_ws k \<and> key_lower k = k"
proof -
  have "list_all (\<lambda>k. k \<noteq> [] \<and> \<not> has_ws k \<and> key_lower k = k)
    [''user'', ''hostname'', ''port'', ''stricthostkeychecking'', ''identityfile'', ''proxyjump'', ''userknownhostsfile'']"
    by code_simp
  moreover assume "(k, v) \<in> set (host_values h)"
  ultimately show ?thesis by (auto simp: host_values_def split: option.splits if_splits)
qed

lemma newline_kv:
  assumes "value_ok v" "newline \<notin> set k"
  shows "newline \<notin> set (kv k v)" "strip_cr (kv k v) = kv k v"
  using assms by (auto simp: kv_def value_ok_def strip_cr_def split: if_splits)

lemma lines_render_host:
  assumes "host_ok env h"
  shows "lines (render_host h) = map (\<lambda>(k, v). kv k v) (host_values h)"
  unfolding render_host_def
proof (rule lines_terminated, rule ballI)
  fix l assume "l \<in> set (map (\<lambda>(k, v). kv k v) (host_values h))"
  then obtain k v where kv: "(k, v) \<in> set (host_values h)" "l = kv k v" by auto
  then have "newline \<notin> set k" by (auto simp: host_values_def split: option.splits if_splits)
  then show "newline \<notin> set l \<and> strip_cr l = l"
    using newline_kv [of v k] assms kv by (auto simp: host_ok_def)
qed

lemma foldl_ssh_line:
  "\<forall>(k, v) \<in> set kvs. k \<noteq> [] \<and> \<not> has_ws k \<and> key_lower k = k \<and> value_ok v \<Longrightarrow>
   foldl ssh_line f (map (\<lambda>(k, v). kv k v) kvs) = foldl ssh_put f kvs"
proof (induction kvs arbitrary: f)
  case (Cons p kvs)
  obtain k v where p: "p = (k, v)" by (cases p)
  then have "ssh_line f (kv k v) = ssh_put f (k, v)" using Cons.prems by (intro ssh_line_kv) auto
  then show ?case using Cons by (simp add: p del: ssh_put.simps)
qed simp

lemma foldl_identities:
  "foldl ssh_put (s, m) (map (Pair ''identityfile'') fs) =
   (s, if fs = [] then m else m(''identityfile'' \<mapsto> (case m ''identityfile'' of Some vs \<Rightarrow> vs | None \<Rightarrow> []) @ fs))"
  by (induction fs arbitrary: m) auto

text \<open>
  (C34) Reading undoes listing.  A host whose values are listed in the form of \<open>ssh -G\<close>, one lower-case key and its value on
  each line, the known-hosts files on one line with spaces between them and nothing quoted, is parsed back to that host.  The conditions
  (\<open>host_ok\<close>) are: every value is not empty, has no white space around it and no line break in it; every identity file exists and neither it
  nor a known-hosts file is a path that expands or is rewritten for Windows; no known-hosts path is empty or has white space or a
  double quote in it; the jump host is not \<open>none\<close>; and the mode of host key checking is in lower case.  Where a
  known-hosts path has a space, it is read as two.
\<close>

theorem ssh_g_roundtrip:
  assumes "host_ok env h"
  shows "parse_ssh_g env (h_name h) (render_host h) = Inr h"
proof -
  let ?none = "(\<lambda>_. None, \<lambda>_. None) :: ssh_fields"
  have ok: "\<forall>(k, v) \<in> set (host_values h). k \<noteq> [] \<and> \<not> has_ws k \<and> key_lower k = k \<and> value_ok v"
    using host_keys assms by (fastforce simp: host_ok_def)
  obtain single multi where sm: "foldl ssh_line ?none (lines (render_host h)) = (single, multi)"
    by (meson surj_pair)
  have fold: "foldl ssh_put ?none (host_values h) = (single, multi)"
    using sm foldl_ssh_line [OF ok] by (simp add: lines_render_host [OF assms])
  have vals: "single ''hostname'' = Some (h_hostname h)" "single ''user'' = Some (h_user h)"
    "single ''port'' = Some (dec (unat (h_port h)))"
    "single ''stricthostkeychecking'' = Some (h_strict_host_key_checking h)"
    "single ''proxyjump'' = h_proxy_jump h"
    "single ''userknownhostsfile'' = (if h_user_known_hosts_files h = [] then None
       else Some (join_on '' '' (h_user_known_hosts_files h)))"
    "multi ''identityfile'' = (if h_identity_files h = [] then None else Some (h_identity_files h))"
    using fold by (auto simp: host_values_def foldl_identities split: option.splits if_splits)
  have "unat (h_port h) \<le> 65535" using unsigned_less [of "h_port h", where ?'a = nat] by simp
  note num = parse_unsigned_dec [OF this]
  have proxy: "h_proxy_jump h \<noteq> Some []" "h_proxy_jump h \<noteq> Some ''none''"
    using assms by (auto simp: host_ok_def host_values_def value_ok_def)
  have "map quote_token (h_user_known_hosts_files h) = h_user_known_hosts_files h"
    using assms by (auto simp: host_ok_def quote_token_def intro!: map_idI)
  then have known: "map (local_path env) (split_quoted_tokens (join_on '' '' (h_user_known_hosts_files h))) = h_user_known_hosts_files h"
    using assms split_tokens_join [of "h_user_known_hosts_files h"]
    by (simp add: split_quoted_tokens_def host_ok_def map_idI)
  have "filter (se_is_file env) (map (local_path env) (h_identity_files h)) = h_identity_files h"
    using assms by (simp add: host_ok_def map_idI)
  then show ?thesis
    using assms proxy known num
    by (auto simp: parse_ssh_g_def sm vals host_ok_def split: option.splits)
qed

theorem ssh_g_roundtrip_witness:
  "parse_ssh_g \<lparr>se_windows = False, se_home = None, se_join = (@), se_is_file = (\<lambda>_. True)\<rparr> ''web''
     (render_host \<lparr>h_name = ''web'', h_hostname = ''10.0.0.1'', h_user = ''ops'', h_port = 2,
        h_identity_files = [''/k''], h_proxy_jump = Some ''b'', h_user_known_hosts_files = [''/my_kh'', ''/kh''],
        h_strict_host_key_checking = ''ask''\<rparr>) =
   Inr \<lparr>h_name = ''web'', h_hostname = ''10.0.0.1'', h_user = ''ops'', h_port = 2,
        h_identity_files = [''/k''], h_proxy_jump = Some ''b'', h_user_known_hosts_files = [''/my_kh'', ''/kh''],
        h_strict_host_key_checking = ''ask''\<rparr>"
proof -
  let ?env = "\<lparr>se_windows = False, se_home = None, se_join = (@), se_is_file = (\<lambda>_. True)\<rparr>"
  let ?h = "\<lparr>h_name = ''web'', h_hostname = ''10.0.0.1'', h_user = ''ops'', h_port = 2,
        h_identity_files = [''/k''], h_proxy_jump = Some ''b'', h_user_known_hosts_files = [''/my_kh'', ''/kh''],
        h_strict_host_key_checking = ''ask''\<rparr>"
  have "list_all value_ok [''ops'', ''10.0.0.1'', ''2'', ''ask'', ''/k'', ''b'',
      join_on '' '' [''/my_kh'', ''/kh'']]" by code_simp
  moreover have "dec 2 = ''2''" by code_simp
  moreover have "list_all (\<lambda>p. local_path ?env p = p \<and> \<not> has_ws p) [''/k'', ''/my_kh'', ''/kh'']" by code_simp
  moreover have "to_ascii_lowercase ''ask'' = ''ask''" by code_simp
  ultimately have "host_ok ?env ?h" by (simp add: host_ok_def host_values_def)
  then show ?thesis using ssh_g_roundtrip [of ?env ?h] by simp
qed

text \<open>\<open>ssh -G\<close> does not quote: a known-hosts path with a space is read as two paths.\<close>

lemma spaced_path_torn: "split_quoted_tokens (join_on '' '' [''/my kh'', ''/kh'']) = [''/my'', ''kh'', ''/kh'']"
  by code_simp

end
