(* ===== verification/Ssh_Client.thy ===== *)
theory Ssh_Client
  imports Ssh_Config Actions
begin

text \<open>
  The SSH provider (src/infrastructure/ssh.rs): checking host keys, connecting directly or through
  jump hosts, authenticating, opening a terminal, running a command, and the terminal handle with its
  keep-alive.

  A program is a function of the actions so far (theory \<open>Actions\<close>); what the network, the server,
  the agent and the file system answer is an argument.  Every time limit is a question to the world,
  which may cut the program off after any of its actions.  The texts of refused host keys, which are
  not ASCII, are shortened.
\<close>

section \<open>Connections, actions and answers\<close>

text \<open>A connection is told by how it was made: directly to a host, or through another one.\<close>

datatype conn = Direct host | Via conn host

fun conn_host :: "conn \<Rightarrow> host" where
  "conn_host (Direct h) = h"
| "conn_host (Via c h) = h"

fun chain :: "conn \<Rightarrow> conn list" where
  "chain (Direct h) = []"
| "chain (Via c h) = chain c @ [c]"

datatype identity = PublicKey string | Certificate string

datatype chan_msg = MData bytes | MExtended bytes | MExitStatus u32 | MEof | MClose | MOther

datatype saction =
    Dial conn
  | Learn string host string
  | Verdict conn bool
  | RequestIdentities
  | AgentAuth conn string identity
  | KeyAuth conn string string
  | PasswordAuth conn string string
  | OpenTunnel conn string u16
  | OpenChannel conn
  | RequestPty u32 u32
  | RequestShell
  | RequestExec string
  | ChannelEof
  | WindowChange u32 u32
  | WriteData bytes
  | OpenSftp conn
  | Disconnect conn

type_synonym shist = "saction list"

text \<open>What a lookup of a key in one known-hosts file says.\<close>

datatype known = KhMatch | KhAbsent | KhChanged nat | KhError string

text \<open>
  \<open>sw_limit\<close> is the moment a time limit cuts off the work that starts now, if it does before the
  work is done.  \<open>sw_dial\<close> gives the server's key, \<open>sw_established\<close> the error that may
  still follow an accepted key; \<open>sw_messages\<close> are the messages the channel delivers before it
  is gone.
\<close>

record ssh_world =
  sw_env :: ssh_env
  sw_ssh_g :: "string \<Rightarrow> ssh_g_outcome"
  sw_remembered :: "string \<Rightarrow> string option"
  sw_limit :: "shist \<Rightarrow> nat option"
  sw_dial :: "shist \<Rightarrow> conn \<Rightarrow> string + string"
  sw_established :: "shist \<Rightarrow> string option"
  sw_known :: "shist \<Rightarrow> string \<Rightarrow> host \<Rightarrow> string \<Rightarrow> known"
  sw_learn :: "shist \<Rightarrow> string option"
  sw_agent :: "shist \<Rightarrow> bool"
  sw_identities :: "shist \<Rightarrow> string + identity list"
  sw_auth :: "shist \<Rightarrow> string + bool"
  sw_readable :: "shist \<Rightarrow> string \<Rightarrow> bool"
  sw_reply :: "shist \<Rightarrow> string option"
  sw_messages :: "shist \<Rightarrow> chan_msg list"

type_synonym 'x ssh = "(saction, 'x) prog"

text \<open>A request whose only answers are success and an error.\<close>

definition request :: "ssh_world \<Rightarrow> saction \<Rightarrow> (string \<Rightarrow> term_error) \<Rightarrow> unit ssh" where
  "request w a err = ask a (\<lambda>l. case sw_reply w l of None \<Rightarrow> Inr () | Some e \<Rightarrow> Inl (err e))"

definition with_timeout :: "ssh_world \<Rightarrow> term_error \<Rightarrow> 'x ssh \<Rightarrow> 'x ssh" where
  "with_timeout w on_timeout m = within (sw_limit w) on_timeout m"

section \<open>Host keys\<close>

text \<open>
  \<open>check_server_key\<close>: the walk over the known-hosts files stops at the first match and at the
  first changed key.
\<close>

datatype lookup = Found | Changed nat | Unknown

fun known_hosts_lookup :: "(string \<Rightarrow> known) \<Rightarrow> string list \<Rightarrow> lookup" where
  "known_hosts_lookup kh [] = Unknown"
| "known_hosts_lookup kh (path # paths) =
     (case kh path of
        KhMatch \<Rightarrow> Found
      | KhChanged n \<Rightarrow> Changed n
      | KhAbsent \<Rightarrow> known_hosts_lookup kh paths
      | KhError _ \<Rightarrow> known_hosts_lookup kh paths)"

text \<open>The answer to russh: true, or the reason of the refusal in the shared slot.\<close>

definition check_server_key :: "ssh_world \<Rightarrow> host \<Rightarrow> string \<Rightarrow> shist \<Rightarrow> shist \<times> (string + unit)" where
  "check_server_key w h key l =
     (let strict = to_ascii_lowercase (h_strict_host_key_checking h); paths = h_user_known_hosts_files h
      in if strict = ''no'' then (l, Inr ())
         else if paths = [] then (l, Inl ''no known_hosts path'')
         else case known_hosts_lookup (\<lambda>p. sw_known w l p h key) paths of
                Found \<Rightarrow> (l, Inr ())
              | Changed n \<Rightarrow> (l, Inl ''host key mismatch'')
              | Unknown \<Rightarrow>
                  if strict = ''accept-new''
                  then (let l = l @ [Learn (hd paths) h key]
                        in case sw_learn w l of None \<Rightarrow> (l, Inr ()) | Some e \<Rightarrow> (l, Inl e))
                  else (l, Inl ''host key unknown''))"

text \<open>
  \<open>client::connect\<close> and \<open>connect_stream\<close>: the handler's verdict is asked for the key the
  server offers; a reason left in the slot turns the failure into \<open>HostKeyRejected\<close>.
\<close>

definition dial :: "ssh_world \<Rightarrow> conn \<Rightarrow> unit ssh" where
  "dial w c l0 =
     (let l = l0 @ [Dial c]
      in case sw_dial w l c of
           Inl e \<Rightarrow> (l, Inl (ConnectFailed e))
         | Inr key \<Rightarrow>
             (let (l, v) = check_server_key w (conn_host c) key l
              in case v of
                   Inl reason \<Rightarrow> (l @ [Verdict c False], Inl (HostKeyRejected reason))
                 | Inr _ \<Rightarrow>
                     (let l = l @ [Verdict c True]
                      in case sw_established w l of
                           None \<Rightarrow> (l, Inr ()) | Some e \<Rightarrow> (l, Inl (ConnectFailed e)))))"

section \<open>Authentication\<close>

text \<open>An attempt that fails with an error counts as refused.\<close>

definition accepted :: "string + bool \<Rightarrow> bool" where
  "accepted r \<longleftrightarrow> r = Inr True"

fun agent_auth_loop :: "ssh_world \<Rightarrow> conn \<Rightarrow> string \<Rightarrow> identity list \<Rightarrow> bool ssh" where
  "agent_auth_loop w c user [] = ret (Inr False)"
| "agent_auth_loop w c user (i # is) =
     rbind (ask (AgentAuth c user i) (\<lambda>l. Inr (accepted (sw_auth w l))))
       (\<lambda>ok. if ok then ret (Inr True) else agent_auth_loop w c user is)"

definition authenticate_with_agent :: "ssh_world \<Rightarrow> conn \<Rightarrow> string \<Rightarrow> bool ssh" where
  "authenticate_with_agent w c user l =
     (if \<not> sw_agent w l then (l, Inr False)
      else rbind (ask RequestIdentities (\<lambda>l. Inr (sw_identities w l)))
             (\<lambda>r. case r of Inl _ \<Rightarrow> ret (Inr False) | Inr ids \<Rightarrow> agent_auth_loop w c user ids) l)"

definition authenticate_with_key :: "ssh_world \<Rightarrow> conn \<Rightarrow> string \<Rightarrow> string \<Rightarrow> bool ssh" where
  "authenticate_with_key w c user key_path l =
     (if \<not> sw_readable w l key_path then (l, Inl AuthFailed)
      else ask (KeyAuth c user key_path)
             (\<lambda>l. case sw_auth w l of Inr ok \<Rightarrow> Inr ok | Inl e \<Rightarrow> Inl (ChannelError e)) l)"

fun authenticate_with_identity_files :: "ssh_world \<Rightarrow> conn \<Rightarrow> string \<Rightarrow> string list \<Rightarrow> bool ssh" where
  "authenticate_with_identity_files w c user [] = ret (Inr False)"
| "authenticate_with_identity_files w c user (k # ks) =
     rcase (authenticate_with_key w c user k)
       (\<lambda>_. authenticate_with_identity_files w c user ks)
       (\<lambda>ok. if ok then ret (Inr True) else authenticate_with_identity_files w c user ks)"

definition authenticate_session :: "ssh_world \<Rightarrow> conn \<Rightarrow> string \<Rightarrow> string list \<Rightarrow> string ssh" where
  "authenticate_session w c user identity_files =
     rbind (authenticate_with_agent w c user) (\<lambda>authed.
       if authed then ret (Inr ''ssh-agent'')
       else rbind (authenticate_with_identity_files w c user identity_files)
              (\<lambda>ok. if ok then ret (Inr ''identity_file'') else ret (Inl AuthFailed)))"

definition authenticate_with_password :: "ssh_world \<Rightarrow> conn \<Rightarrow> string \<Rightarrow> string \<Rightarrow> bool ssh" where
  "authenticate_with_password w c user password =
     ask (PasswordAuth c user password)
       (\<lambda>l. case sw_auth w l of Inr ok \<Rightarrow> Inr ok | Inl e \<Rightarrow> Inl (ChannelError e))"

section \<open>Connecting\<close>

definition MAX_PROXY_DEPTH :: nat where "MAX_PROXY_DEPTH = 3"

definition connect_and_auth :: "ssh_world \<Rightarrow> conn \<Rightarrow> unit ssh" where
  "connect_and_auth w c =
     with_timeout w (ConnectFailed ''ssh connect+auth timed out'')
       (rbind (dial w c) (\<lambda>_.
        rbind (authenticate_session w c (h_user (conn_host c)) (h_identity_files (conn_host c))) (\<lambda>_. ret (Inr ()))))"

text \<open>The jump host: its own configuration, with the user and port the jump names.\<close>

definition resolve_bastion :: "ssh_world \<Rightarrow> string \<Rightarrow> host result" where
  "resolve_bastion w pj =
     (case parse_proxy_jump pj of
        Inl e \<Rightarrow> Inl e
      | Inr t \<Rightarrow>
          (case resolve_host (sw_env w) (sw_ssh_g w) (sw_remembered w) (pj_host t) of
             Inl e \<Rightarrow> Inl e
           | Inr b \<Rightarrow>
               (let b = (case pj_user t of Some u \<Rightarrow> b\<lparr>h_user := u\<rparr> | None \<Rightarrow> b)
                in Inr (case pj_port t of Some p \<Rightarrow> b\<lparr>h_port := p\<rparr> | None \<Rightarrow> b))))"

text \<open>The connection and the jump hosts it goes through, the outermost first.\<close>

function connect_session :: "ssh_world \<Rightarrow> host \<Rightarrow> nat \<Rightarrow> (conn \<times> conn list) ssh" where
  "connect_session w host depth =
     (case h_proxy_jump host of
        Some pj \<Rightarrow>
          if MAX_PROXY_DEPTH \<le> depth then ret (Inl (InvalidArgument ''proxyjump depth''))
          else (case resolve_bastion w pj of
                  Inl e \<Rightarrow> ret (Inl e)
                | Inr bastion \<Rightarrow>
                    rbind (connect_session w bastion (Suc depth)) (\<lambda>(via, bastions).
                    rbind (request w (OpenTunnel via (h_hostname host) (h_port host)) ConnectFailed) (\<lambda>_.
                    rbind (connect_and_auth w (Via via host)) (\<lambda>_.
                      ret (Inr (Via via host, bastions @ [via]))))))
      | None \<Rightarrow>
          rbind (connect_and_auth w (Direct host)) (\<lambda>_. ret (Inr (Direct host, []))))"
  by pat_completeness auto
termination
  by (relation "measure (\<lambda>(w, host, depth). MAX_PROXY_DEPTH - depth)") auto

declare connect_session.simps [simp del]

definition connect_unauthenticated :: "ssh_world \<Rightarrow> host \<Rightarrow> conn ssh" where
  "connect_unauthenticated w host =
     (if h_proxy_jump host \<noteq> None then ret (Inl (InvalidArgument ''password authentication does not support ProxyJump''))
      else rbind (with_timeout w (ConnectFailed ''ssh connect timed out'') (dial w (Direct host)))
             (\<lambda>_. ret (Inr (Direct host))))"

section \<open>Opening a terminal\<close>

text \<open>
  The handle: the session and the jump hosts, each none once taken by \<open>close\<close> (or by the
  keep-alive), and whether the keep-alive task is still to be stopped.
\<close>

record ssh_handle =
  sh_session :: "conn option"
  sh_bastions :: "conn list option"
  sh_keepalive :: bool

definition ssh_handle_new :: "conn \<Rightarrow> conn list \<Rightarrow> ssh_handle" where
  "ssh_handle_new session bastions =
     \<lparr>sh_session = Some session, sh_bastions = (if bastions = [] then None else Some bastions), sh_keepalive = True\<rparr>"

definition open_connection :: "ssh_world \<Rightarrow> open_request \<Rightarrow> (conn \<times> conn list) ssh" where
  "open_connection w req =
     (let host = or_host req
      in case or_password req of
           Some password \<Rightarrow>
             rbind (connect_unauthenticated w host) (\<lambda>c.
             rbind (authenticate_with_password w c (h_user host) password) (\<lambda>ok.
               if \<not> ok then ret (Inl AuthFailed) else ret (Inr (c, []))))
         | None \<Rightarrow> connect_session w host 0)"

definition ssh_open :: "ssh_world \<Rightarrow> open_request \<Rightarrow> ssh_handle ssh" where
  "ssh_open w req =
     rbind (open_connection w req) (\<lambda>(c, bastions).
     rbind (request w (OpenChannel c) ChannelError) (\<lambda>_.
     rbind (request w (RequestPty (ucast (cols (or_pty_size req))) (ucast (rows (or_pty_size req)))) ChannelError) (\<lambda>_.
     rbind (request w RequestShell ChannelError) (\<lambda>_.
       ret (Inr (ssh_handle_new c bastions))))))"

section \<open>Running a command\<close>

text \<open>The loop over the channel's messages: standard output and the exit status.\<close>

fun collect :: "chan_msg list \<Rightarrow> bytes \<Rightarrow> u32 option \<Rightarrow> bytes \<times> u32 option" where
  "collect [] stdout status = (stdout, status)"
| "collect (m # ms) stdout status =
     (case m of
        MData d \<Rightarrow> collect ms (stdout @ d) status
      | MExitStatus n \<Rightarrow> collect ms stdout (Some n)
      | MEof \<Rightarrow> (stdout, status)
      | MClose \<Rightarrow> (stdout, status)
      | _ \<Rightarrow> collect ms stdout status)"

definition exec_outcome :: "bytes \<times> u32 option \<Rightarrow> string result" where
  "exec_outcome r =
     (case snd r of
        Some n \<Rightarrow> if n = 0 then Inr (from_utf8_lossy (fst r))
                  else Inl (ChannelError (''command exited with code '' @ dec (unat n)))
      | None \<Rightarrow> Inr (from_utf8_lossy (fst r)))"

definition open_channel :: "ssh_world \<Rightarrow> conn \<Rightarrow> unit ssh" where
  "open_channel w c =
     with_timeout w (ChannelError ''channel_open timed out'') (request w (OpenChannel c) ChannelError)"

definition disconnects :: "conn \<Rightarrow> conn list \<Rightarrow> shist" where
  "disconnects c bastions = Disconnect c # map Disconnect (rev bastions)"

definition ssh_exec :: "ssh_world \<Rightarrow> host \<Rightarrow> string \<Rightarrow> string ssh" where
  "ssh_exec w host command =
     rbind (connect_session w host 0) (\<lambda>(c, bastions).
     rbind (open_channel w c) (\<lambda>_.
     rbind (request w (RequestExec command) ChannelError) (\<lambda>_.
     rbind (with_timeout w (ChannelError ''ssh exec timed out'') (\<lambda>l. (l, Inr (collect (sw_messages w l) [] None)))) (\<lambda>r.
       (\<lambda>l. (l @ ChannelEof # disconnects c bastions, exec_outcome r))))))"

definition ssh_exec_stream :: "ssh_world \<Rightarrow> host \<Rightarrow> string \<Rightarrow> conn ssh" where
  "ssh_exec_stream w host command =
     rbind (connect_session w host 0) (\<lambda>(c, bastions).
     rbind (open_channel w c) (\<lambda>_.
     rbind (request w (RequestExec command) ChannelError) (\<lambda>_. ret (Inr c))))"

section \<open>The terminal handle\<close>

text \<open>\<open>read\<close>: what it returns, and the messages left.\<close>

fun term_read :: "chan_msg list \<Rightarrow> bytes option \<times> chan_msg list" where
  "term_read [] = (None, [])"
| "term_read (m # ms) =
     (case m of
        MData d \<Rightarrow> (Some d, ms)
      | MExtended d \<Rightarrow> (Some d, ms)
      | MEof \<Rightarrow> (None, ms)
      | _ \<Rightarrow> term_read ms)"

definition term_write :: "ssh_world \<Rightarrow> bytes \<Rightarrow> unit ssh" where
  "term_write w data = with_timeout w (ChannelError ''pty write timed out'') (request w (WriteData data) ChannelError)"

definition term_send_control :: "ssh_world \<Rightarrow> control_key \<Rightarrow> unit ssh" where
  "term_send_control w k =
     with_timeout w (ChannelError ''send_control timed out'') (request w (WriteData (as_bytes k)) ChannelError)"

definition term_resize :: "ssh_world \<Rightarrow> pty_size \<Rightarrow> unit ssh" where
  "term_resize w sz = request w (WindowChange (ucast (cols sz)) (ucast (rows sz))) ChannelError"

definition term_close :: "ssh_handle \<Rightarrow> shist \<Rightarrow> ssh_handle \<times> shist" where
  "term_close h l =
     (h\<lparr>sh_keepalive := False, sh_session := None, sh_bastions := None\<rparr>,
      l @ [ChannelEof] @ (case sh_session h of Some c \<Rightarrow> [Disconnect c] | None \<Rightarrow> []) @
      (case sh_bastions h of Some bs \<Rightarrow> map Disconnect (rev bs) | None \<Rightarrow> []))"

definition open_sftp_provider :: "ssh_world \<Rightarrow> ssh_handle \<Rightarrow> unit ssh" where
  "open_sftp_provider w h =
     (case sh_session h of
        None \<Rightarrow> ret (Inl (SessionClosed ''ssh session handle already taken''))
      | Some c \<Rightarrow> with_timeout w (SftpError ''open SFTP provider timed out'') (request w (OpenSftp c) SftpError))"

definition term_exec :: "ssh_world \<Rightarrow> ssh_handle \<Rightarrow> string \<Rightarrow> string ssh" where
  "term_exec w h command =
     (case sh_session h of
        None \<Rightarrow> ret (Inl (SessionClosed ''ssh session handle already taken''))
      | Some c \<Rightarrow>
          rbind (open_channel w c) (\<lambda>_.
          rbind (request w (RequestExec command) ChannelError) (\<lambda>_.
            (\<lambda>l. (l @ [ChannelEof], exec_outcome (collect (sw_messages w l) [] None))))))"

text \<open>
  The keep-alive loop over what it finds at each tick: the session taken, or an answer to its ping in
  time or not.  The result is whether it disconnects the session, none while it still runs.
\<close>

datatype tick = Taken | Ping bool

definition KEEPALIVE_MAX_MISSES :: nat where "KEEPALIVE_MAX_MISSES = 3"

fun keepalive_loop :: "nat \<Rightarrow> tick list \<Rightarrow> bool option" where
  "keepalive_loop misses [] = None"
| "keepalive_loop misses (Taken # ts) = Some False"
| "keepalive_loop misses (Ping True # ts) = keepalive_loop 0 ts"
| "keepalive_loop misses (Ping False # ts) =
     (if KEEPALIVE_MAX_MISSES \<le> misses + 1 then Some True else keepalive_loop (misses + 1) ts)"

section \<open>Which connection is made\<close>

lemma connect_session_result:
  "connect_session w h d l = (l', Inr (c, bs)) \<Longrightarrow>
   conn_host c = h \<and> bs = chain c \<and> length bs + d \<le> max d MAX_PROXY_DEPTH"
proof (induction w h d arbitrary: l l' c bs rule: connect_session.induct)
  case (1 w h d)
  show ?case
  proof (cases "h_proxy_jump h")
    case None
    then show ?thesis using "1.prems" by (subst (asm) connect_session.simps) (auto simp: rbind_Inr ret_def)
  next
    case (Some pj)
    show ?thesis
    proof (cases "resolve_bastion w pj")
      case (Inl e)
      then show ?thesis using Some "1.prems" by (subst (asm) connect_session.simps) (auto simp: ret_def split: if_splits)
    next
      case (Inr b)
      have d: "\<not> MAX_PROXY_DEPTH \<le> d"
        using Some "1.prems" by (subst (asm) connect_session.simps) (auto simp: ret_def split: if_splits)
      then obtain via bs' l1 where "connect_session w b (Suc d) l = (l1, Inr (via, bs'))" "c = Via via h" "bs = bs' @ [via]"
        using Some Inr "1.prems" by (subst (asm) connect_session.simps) (auto simp: ret_def rbind_Inr)
      then show ?thesis using "1.IH" [OF Some d Inr] d by auto
    qed
  qed
qed

text \<open>
  A configuration whose jump hosts never end.
\<close>

lemma connect_session_endless:
  assumes "\<And>b pj. resolve_bastion w pj = Inr b \<Longrightarrow> h_proxy_jump b \<noteq> None" "h_proxy_jump h \<noteq> None"
  shows "\<exists>e. connect_session w h d l = (l, Inl e)"
  using assms
proof (induction w h d arbitrary: l rule: connect_session.induct)
  case (1 w h d)
  from "1.prems"(2) obtain pj where pj: "h_proxy_jump h = Some pj" by blast
  show ?case
  proof (cases "MAX_PROXY_DEPTH \<le> d \<or> (\<exists>e. resolve_bastion w pj = Inl e)")
    case True
    then show ?thesis using pj by (subst connect_session.simps) (auto simp: ret_def)
  next
    case False
    then obtain b where b: "resolve_bastion w pj = Inr b" "\<not> MAX_PROXY_DEPTH \<le> d" by (metis sum.exhaust)
    obtain e where "connect_session w b (Suc d) l = (l, Inl e)"
      using "1.IH" [OF pj b(2,1)] "1.prems"(1) b(1) by metis
    then show ?thesis using pj b by (subst connect_session.simps) (simp add: rbind_def)
  qed
qed

section \<open>No credential before the key is accepted\<close>

definition credential_of :: "saction \<Rightarrow> conn option" where
  "credential_of a =
     (case a of
        AgentAuth c _ _ \<Rightarrow> Some c | KeyAuth c _ _ \<Rightarrow> Some c | PasswordAuth c _ _ \<Rightarrow> Some c | _ \<Rightarrow> None)"

text \<open>Every credential offered on a connection comes after the verdict that its key is accepted.\<close>

definition guarded :: "shist \<Rightarrow> bool" where
  "guarded = backed (\<lambda>a xs. \<forall>c. credential_of a = Some c \<longrightarrow> Verdict c True \<in> set xs)"

lemma guarded_Nil [simp]: "guarded []"
  by (simp add: guarded_def)

lemma guarded_snoc [simp]:
  "guarded (l @ [a]) \<longleftrightarrow> guarded l \<and> (\<forall>c. credential_of a = Some c \<longrightarrow> Verdict c True \<in> set l)"
  by (simp add: guarded_def)

lemma guarded_take: "guarded l \<Longrightarrow> guarded (take k l)"
  by (simp add: guarded_def backed_take)

lemma guarded_append_plain: "guarded l \<Longrightarrow> list_all (\<lambda>a. credential_of a = None) xs \<Longrightarrow> guarded (l @ xs)"
  unfolding guarded_def by (rule backed_append) (auto simp: list_all_iff)

text \<open>What a program on connection \<open>c\<close> needs and keeps.\<close>

definition trusted :: "conn \<Rightarrow> shist \<Rightarrow> bool" where
  "trusted c l \<longleftrightarrow> guarded l \<and> Verdict c True \<in> set l"

lemma trusted_snoc [simp]:
  "trusted c (l @ [a]) \<longleftrightarrow>
     guarded l \<and> (\<forall>d. credential_of a = Some d \<longrightarrow> Verdict d True \<in> set l) \<and> (Verdict c True \<in> set l \<or> a = Verdict c True)"
  by (auto simp: trusted_def)

lemma agent_auth_loop_keeps: "keeps (trusted c) (agent_auth_loop w c user ids)"
  by (induction ids) (auto intro!: keeps_intros simp: trusted_def credential_of_def)

lemma authenticate_with_agent_keeps: "keeps (trusted c) (authenticate_with_agent w c user)"
proof -
  have "keeps (trusted c) (rbind (ask RequestIdentities (\<lambda>l. Inr (sw_identities w l)))
      (\<lambda>r. case r of Inl _ \<Rightarrow> ret (Inr False) | Inr ids \<Rightarrow> agent_auth_loop w c user ids))"
    by (auto intro!: keeps_intros agent_auth_loop_keeps simp: trusted_def credential_of_def split: sum.split)
  then show ?thesis by (simp add: keeps_def authenticate_with_agent_def)
qed

lemma authenticate_with_key_keeps: "keeps (trusted c) (authenticate_with_key w c user path)"
  by (simp add: keeps_def authenticate_with_key_def ask_def act_def credential_of_def) (simp add: trusted_def)

lemma authenticate_with_identity_files_keeps:
  "keeps (trusted c) (authenticate_with_identity_files w c user ks)"
  by (induction ks) (auto intro!: keeps_intros authenticate_with_key_keeps)

lemma authenticate_session_keeps: "keeps (trusted c) (authenticate_session w c u ks)"
  unfolding authenticate_session_def
  by (intro keeps_intros authenticate_with_agent_keeps authenticate_with_identity_files_keeps)

lemma check_server_key_keeps: "check_server_key w h key l = (l', v) \<Longrightarrow> guarded l \<Longrightarrow> guarded l'"
  by (auto simp: check_server_key_def Let_def credential_of_def split: if_splits lookup.splits option.splits)

lemma dial_keeps: "keeps guarded (dial w c)"
  unfolding keeps_def dial_def Let_def
  by (auto simp: credential_of_def dest!: check_server_key_keeps split: sum.split prod.split option.split)

lemma dial_trusted: "guarded l \<Longrightarrow> dial w c l = (l', Inr x) \<Longrightarrow> trusted c l'"
  unfolding dial_def Let_def
  by (auto simp: credential_of_def dest!: check_server_key_keeps split: sum.splits prod.splits option.splits)

lemma keeps_request [keeps_intros]: "(\<And>l. G l \<Longrightarrow> G (l @ [a])) \<Longrightarrow> keeps G (request w a err)"
  unfolding request_def by (intro keeps_intros)

lemma connect_and_auth_keeps: "keeps guarded (connect_and_auth w c)"
  unfolding connect_and_auth_def with_timeout_def
proof (intro keeps_within guarded_take)
  have "keeps (trusted c) (rbind (authenticate_session w c u ks) (\<lambda>_. ret (Inr ())))" for u ks
    by (intro keeps_intros authenticate_session_keeps)
  then show "keeps guarded (rbind (dial w c) (\<lambda>_.
      rbind (authenticate_session w c (h_user (conn_host c)) (h_identity_files (conn_host c))) (\<lambda>_. ret (Inr ()))))"
    by (intro keeps_rbind_result [where H = "\<lambda>_. trusted c"] dial_keeps dial_trusted)
      (auto simp: keeps_def trusted_def)
qed

lemma connect_session_keeps: "keeps guarded (connect_session w h d)"
proof (induction w h d rule: connect_session.induct)
  case (1 w h d)
  have tunnel: "keeps guarded (request w (OpenTunnel via (h_hostname h) (h_port h)) ConnectFailed)" for via
    by (intro keeps_intros) (simp add: credential_of_def)
  show ?case
    by (subst connect_session.simps)
      (auto intro!: keeps_intros connect_and_auth_keeps tunnel 1 split: option.split sum.split)
qed

lemma connect_unauthenticated_keeps: "keeps guarded (connect_unauthenticated w h)"
  unfolding connect_unauthenticated_def with_timeout_def
  by (intro keeps_intros dial_keeps guarded_take)

lemma connect_unauthenticated_trusted:
  "guarded l \<Longrightarrow> connect_unauthenticated w h l = (l', Inr c) \<Longrightarrow> c = Direct h \<and> trusted c l'"
  by (auto simp: connect_unauthenticated_def with_timeout_def within_def rbind_Inr ret_def
      split: if_splits option.splits intro: dial_trusted)

lemma open_connection_keeps: "keeps guarded (open_connection w req)"
proof (cases "or_password req")
  case None
  then show ?thesis by (simp add: open_connection_def connect_session_keeps)
next
  case (Some pw)
  have "guarded (fst (rbind (authenticate_with_password w c u pw) (\<lambda>ok. if \<not> ok then ret (Inl AuthFailed) else ret (Inr (c, []))) l))"
    if "trusted c l" for c u l
    using that by (auto simp: rbind_def authenticate_with_password_def ask_def act_def ret_def trusted_def credential_of_def
        split: prod.split sum.split)
  then show ?thesis
    unfolding open_connection_def Let_def Some option.case
    by (intro keeps_rbind_result [where H = trusted] connect_unauthenticated_keeps)
      (auto dest: connect_unauthenticated_trusted)
qed

lemma open_keeps: "keeps guarded (ssh_open w req)"
  unfolding ssh_open_def
  by (auto intro!: keeps_intros open_connection_keeps simp: credential_of_def)

lemma open_channel_keeps: "keeps guarded (open_channel w c)"
  unfolding open_channel_def with_timeout_def by (intro keeps_intros guarded_take) (simp add: credential_of_def)

lemma exec_keeps: "keeps guarded (ssh_exec w h cmd)"
proof -
  have fin: "keeps guarded (\<lambda>l. (l @ ChannelEof # disconnects c bs, r))" for c bs and r :: "string result"
    by (auto simp: keeps_def disconnects_def list_all_iff credential_of_def intro!: guarded_append_plain)
  have wait: "keeps guarded (with_timeout w e (\<lambda>l. (l, Inr (f l))))" for e and f :: "shist \<Rightarrow> bytes \<times> u32 option"
    unfolding with_timeout_def by (intro keeps_within guarded_take) (simp add: keeps_def)
  show ?thesis
    unfolding ssh_exec_def
    by (auto intro!: keeps_intros connect_session_keeps open_channel_keeps fin wait simp: credential_of_def)
qed

text \<open>Passwords go to the host itself, and only if the caller gave one.\<close>

definition offers :: "open_request \<Rightarrow> saction \<Rightarrow> bool" where
  "offers req a \<longleftrightarrow>
     (case a of
        PasswordAuth c u p \<Rightarrow> or_password req = Some p \<and> c = Direct (or_host req) \<and> h_proxy_jump (or_host req) = None
      | AgentAuth _ _ _ \<Rightarrow> or_password req = None
      | KeyAuth _ _ _ \<Rightarrow> or_password req = None
      | _ \<Rightarrow> True)"

lemma acts_in_request [acts_intros]: "P a \<Longrightarrow> acts_in P (request w a err)"
  unfolding request_def by (intro acts_intros)

lemma acts_in_check_server_key:
  "check_server_key w h key l = (l', v) \<Longrightarrow> \<exists>xs. l' = l @ xs \<and> set xs \<subseteq> {Learn (hd (h_user_known_hosts_files h)) h key}"
  by (auto simp: check_server_key_def Let_def split: if_splits lookup.splits option.splits)

lemma acts_in_dial [acts_intros]:
  assumes "P (Dial c)" "\<And>p h k. P (Learn p h k)" "\<And>b. P (Verdict c b)"
  shows "acts_in P (dial w c)"
  unfolding acts_in_def
proof
  fix l
  show "\<exists>xs. fst (dial w c l) = l @ xs \<and> list_all P xs"
    using assms
    by (fastforce simp: dial_def Let_def list_all_iff dest!: acts_in_check_server_key
        split: sum.split prod.split option.split)
qed

lemma acts_in_authenticate_session:
  assumes "P RequestIdentities" "\<And>u i. P (AgentAuth c u i)" "\<And>u k. P (KeyAuth c u k)"
  shows "acts_in P (authenticate_session w c user identity_files)"
proof -
  have loop: "acts_in P (agent_auth_loop w c u ids)" for u ids
    by (induction ids) (auto intro!: acts_intros assms)
  have "acts_in P (rbind (ask RequestIdentities (\<lambda>l. Inr (sw_identities w l)))
      (\<lambda>r. case r of Inl _ \<Rightarrow> ret (Inr False) | Inr ids \<Rightarrow> agent_auth_loop w c u ids))" for u
    by (intro acts_intros assms loop)
  then have agent: "acts_in P (authenticate_with_agent w c u)" for u
    by (auto simp: acts_in_def authenticate_with_agent_def)
  have key: "acts_in P (authenticate_with_key w c u k)" for u k
    by (simp add: acts_in_def authenticate_with_key_def ask_def act_def assms)
  have "acts_in P (authenticate_with_identity_files w c u ks)" for u ks
    by (induction ks) (auto intro!: acts_intros key)
  then show ?thesis unfolding authenticate_session_def by (intro acts_intros agent)
qed

lemma acts_in_connect_session:
  assumes "\<And>c. P (Dial c)" "\<And>p h k. P (Learn p h k)" "\<And>c b. P (Verdict c b)" "\<And>c h p. P (OpenTunnel c h p)"
    "P RequestIdentities" "\<And>c u i. P (AgentAuth c u i)" "\<And>c u k. P (KeyAuth c u k)"
  shows "acts_in P (connect_session w h d)"
proof (induction w h d rule: connect_session.induct)
  case (1 w h d)
  have one: "acts_in P (connect_and_auth w c)" for c
    unfolding connect_and_auth_def with_timeout_def
    by (intro acts_intros acts_in_authenticate_session assms)
  show ?case
    by (subst connect_session.simps) (auto intro!: acts_intros one 1 assms split: option.split sum.split)
qed

lemma connect_unauthenticated_direct: "connect_unauthenticated w h l = (l', Inr c) \<Longrightarrow> c = Direct h"
  by (auto simp: connect_unauthenticated_def rbind_Inr ret_def split: if_splits)

lemma open_offers: "acts_in (offers req) (ssh_open w req)"
proof -
  have "acts_in (offers req) (open_connection w req)"
  proof (cases "or_password req")
    case None
    then show ?thesis by (auto simp: open_connection_def offers_def intro!: acts_in_connect_session)
  next
    case (Some pw)
    show ?thesis
    proof (cases "h_proxy_jump (or_host req) = None")
      case False
      then show ?thesis
        by (auto simp: open_connection_def Some connect_unauthenticated_def rbind_def ret_def acts_in_def)
    next
      case True
      have "acts_in (offers req) (connect_unauthenticated w (or_host req))"
        using True unfolding connect_unauthenticated_def with_timeout_def
        by (auto intro!: acts_intros simp: offers_def)
      moreover have "acts_in (offers req) (authenticate_with_password w c (h_user (or_host req)) pw)"
        if "c = Direct (or_host req)" for c
        using that True Some unfolding authenticate_with_password_def by (intro acts_intros) (simp add: offers_def)
      moreover have "c = Direct (or_host req)" if "connect_unauthenticated w (or_host req) l = (l', Inr c)" for l l' c
        using that by (rule connect_unauthenticated_direct)
      ultimately show ?thesis
        unfolding open_connection_def Let_def Some option.case
        by (intro acts_in_rbind_result) (auto intro!: acts_intros)
    qed
  qed
  then show ?thesis
    unfolding ssh_open_def by (auto intro!: acts_intros simp: offers_def)
qed

definition demo_host :: host where
  "demo_host = \<lparr>h_name = ''web'', h_hostname = ''web.lan'', h_user = ''ops'', h_port = 22, h_identity_files = [''id''],
     h_proxy_jump = None, h_user_known_hosts_files = [''kh'', ''kh2''], h_strict_host_key_checking = ''accept-new''\<rparr>"

definition demo_world :: "ssh_world" where
  "demo_world = \<lparr>sw_env = \<lparr>se_windows = False, se_home = Some ''/home/ops'', se_join = (\<lambda>a b. a @ CHR ''/'' # b), se_is_file = (\<lambda>_. True)\<rparr>,
     sw_ssh_g = (\<lambda>_. SshTimedOut), sw_remembered = (\<lambda>_. None), sw_limit = (\<lambda>_. None),
     sw_dial = (\<lambda>_ _. Inr ''key''), sw_established = (\<lambda>_. None), sw_known = (\<lambda>_ _ _ _. KhAbsent),
     sw_learn = (\<lambda>_. None), sw_agent = (\<lambda>_. True), sw_identities = (\<lambda>_. Inr [PublicKey ''a'']),
     sw_auth = (\<lambda>l. Inr (case last l of PasswordAuth _ _ _ \<Rightarrow> True | _ \<Rightarrow> False)), sw_readable = (\<lambda>_ _. True),
     sw_reply = (\<lambda>_. None), sw_messages = (\<lambda>_. [MData [0x6F], MEof, MExitStatus 1, MClose])\<rparr>"

definition demo_request :: open_request where
  "demo_request = \<lparr>or_host = demo_host, or_pty_size = \<lparr>rows = 24, cols = 80\<rparr>, or_persistent = False, or_name = None,
     or_password = Some ''pw''\<rparr>"

definition demo_opened :: shist where
  "demo_opened = (let c = Direct demo_host in
     [Dial c, Learn ''kh'' demo_host ''key'', Verdict c True, PasswordAuth c ''ops'' ''pw'', OpenChannel c,
      RequestPty 80 24, RequestShell])"

lemma accept_new_lower [simp]: "to_ascii_lowercase ''accept-new'' = ''accept-new''"
  by code_simp

lemma demo_selectors [simp]:
  "h_user demo_host = ''ops''" "h_proxy_jump demo_host = None" "h_user_known_hosts_files demo_host = [''kh'', ''kh2'']"
  "h_strict_host_key_checking demo_host = ''accept-new''"
  "sw_limit demo_world l = None" "sw_dial demo_world l c = Inr ''key''" "sw_established demo_world l = None"
  "sw_known demo_world l p demo_host k = KhAbsent" "sw_learn demo_world l = None" "sw_reply demo_world l = None"
  "sw_auth demo_world (l @ [PasswordAuth c u p]) = Inr True" "sw_auth demo_world (a # l @ [PasswordAuth c u p]) = Inr True"
  "or_host demo_request = demo_host" "or_password demo_request = Some ''pw''"
  "or_pty_size demo_request = \<lparr>rows = 24, cols = 80\<rparr>"
  by (simp_all add: demo_world_def demo_request_def demo_host_def)

lemma demo_dial:
  "dial demo_world (Direct demo_host) [] =
     ([Dial (Direct demo_host), Learn ''kh'' demo_host ''key'', Verdict (Direct demo_host) True], Inr ())"
  by (simp add: dial_def check_server_key_def)

lemma demo_terminal: "ssh_open demo_world demo_request [] = (demo_opened, Inr (ssh_handle_new (Direct demo_host) []))"
  by (simp add: ssh_open_def open_connection_def connect_unauthenticated_def authenticate_with_password_def
      request_def with_timeout_def within_def rbind_def ask_def act_def ret_def demo_dial
      flip: append_Cons) (simp add: demo_opened_def Let_def)

text \<open>
  (C4) No credential before the host key is accepted.  Whatever the network, the server and the time limits
  do while a terminal is opened, through jump hosts or not, a credential goes only to a connection
  whose host key was accepted before; a password goes only to the requested host itself, never through a
  jump host, and only if the caller gave it; keys are offered only if the caller gave none.
\<close>

theorem credentials_need_accepted_key:
  assumes "ssh_open w req [] = (xs @ a # ys, r)" "credential_of a = Some c"
  shows "Verdict c True \<in> set xs \<and> offers req a"
proof -
  have "guarded (xs @ a # ys)" using keepsD [OF open_keeps _ assms(1)] by simp
  moreover have "offers req a" using acts_in_appends [OF open_offers assms(1)] by (auto simp: list_all_iff)
  ultimately show ?thesis using assms(2) by (auto simp: guarded_def dest: backedD)
qed

theorem credentials_need_accepted_key_witness:
  "Verdict (Direct demo_host) True \<in> set [Dial (Direct demo_host), Learn ''kh'' demo_host ''key'', Verdict (Direct demo_host) True] \<and>
   offers demo_request (PasswordAuth (Direct demo_host) ''ops'' ''pw'')"
  by (rule credentials_need_accepted_key [where w = demo_world and r = "Inr (ssh_handle_new (Direct demo_host) [])"
        and ys = "[OpenChannel (Direct demo_host), RequestPty 80 24, RequestShell]"])
    (simp_all add: demo_terminal demo_opened_def credential_of_def Let_def)

section \<open>The verdict\<close>

definition decisive :: "known \<Rightarrow> bool" where
  "decisive k \<longleftrightarrow> (case k of KhMatch \<Rightarrow> True | KhChanged _ \<Rightarrow> True | _ \<Rightarrow> False)"

lemma known_hosts_lookup_find:
  "known_hosts_lookup kh ps =
     (case find (\<lambda>p. decisive (kh p)) ps of
        None \<Rightarrow> Unknown
      | Some p \<Rightarrow> (case kh p of KhChanged n \<Rightarrow> Changed n | _ \<Rightarrow> Found))"
  by (induction ps) (auto simp: decisive_def split: known.split)

text \<open>
  (C26) The verdict on a host key, in every mode: \<open>no\<close> accepts all; otherwise the first known-hosts
  file that matches or contradicts the key decides; if none does, only \<open>accept-new\<close> accepts, and
  only when the key could be written to the first file; without known-hosts files every key is refused.
  Nothing else is ever written.  In particular a file that contradicts the key, when no file before it decides, refuses it although a later file
  has it: the files are not all looked at, as the comment in the code says they are, and a changed key does not wait for a match elsewhere.
\<close>

theorem host_key_verdict:
  assumes "check_server_key w h key l = (l', v)"
  shows "(v = Inr () \<longleftrightarrow>
      to_ascii_lowercase (h_strict_host_key_checking h) = ''no'' \<or>
      h_user_known_hosts_files h \<noteq> [] \<and>
      (case find (\<lambda>p. decisive (sw_known w l p h key)) (h_user_known_hosts_files h) of
         Some p \<Rightarrow> sw_known w l p h key = KhMatch
       | None \<Rightarrow> to_ascii_lowercase (h_strict_host_key_checking h) = ''accept-new'' \<and>
           l' = l @ [Learn (hd (h_user_known_hosts_files h)) h key] \<and> sw_learn w l' = None))
    \<and> (l' = l \<or> l' = l @ [Learn (hd (h_user_known_hosts_files h)) h key] \<and>
         to_ascii_lowercase (h_strict_host_key_checking h) = ''accept-new'' \<and>
         find (\<lambda>p. decisive (sw_known w l p h key)) (h_user_known_hosts_files h) = None)
    \<and> (\<forall>before p later n. h_user_known_hosts_files h = before @ p # later \<longrightarrow>
         find (\<lambda>q. decisive (sw_known w l q h key)) before = None \<longrightarrow> sw_known w l p h key = KhChanged n \<longrightarrow>
         to_ascii_lowercase (h_strict_host_key_checking h) \<noteq> ''no'' \<longrightarrow> v \<noteq> Inr () \<and> l' = l)"
proof -
  have dec: "decisive k \<Longrightarrow> (\<nexists>n. k = KhChanged n) \<Longrightarrow> k = KhMatch" for k
    by (cases k) (auto simp: decisive_def)
  have "decisive (sw_known w l p h key)"
    if "find (\<lambda>p. decisive (sw_known w l p h key)) (h_user_known_hosts_files h) = Some p" for p
    using that by (auto simp: find_Some_iff)
  then have main: "(v = Inr () \<longleftrightarrow>
      to_ascii_lowercase (h_strict_host_key_checking h) = ''no'' \<or>
      h_user_known_hosts_files h \<noteq> [] \<and>
      (case find (\<lambda>p. decisive (sw_known w l p h key)) (h_user_known_hosts_files h) of
         Some p \<Rightarrow> sw_known w l p h key = KhMatch
       | None \<Rightarrow> to_ascii_lowercase (h_strict_host_key_checking h) = ''accept-new'' \<and>
           l' = l @ [Learn (hd (h_user_known_hosts_files h)) h key] \<and> sw_learn w l' = None))
    \<and> (l' = l \<or> l' = l @ [Learn (hd (h_user_known_hosts_files h)) h key] \<and>
         to_ascii_lowercase (h_strict_host_key_checking h) = ''accept-new'' \<and>
         find (\<lambda>p. decisive (sw_known w l p h key)) (h_user_known_hosts_files h) = None)"
    using assms
    by (auto simp: check_server_key_def Let_def known_hosts_lookup_find decisive_def
        split: if_splits option.splits known.splits)
  have "find P (before @ p # later) = Some p" if "find P before = None" "P p" for P before later and p :: string
    using that by (induction before) (auto split: if_splits)
  then have "find (\<lambda>q. decisive (sw_known w l q h key)) (before @ p # later) = Some p"
    if "find (\<lambda>q. decisive (sw_known w l q h key)) before = None" "sw_known w l p h key = KhChanged n" for before p later n
    using that by (simp add: decisive_def)
  then have refuses: "v \<noteq> Inr () \<and> l' = l"
    if "h_user_known_hosts_files h = before @ p # later" "find (\<lambda>q. decisive (sw_known w l q h key)) before = None"
      "sw_known w l p h key = KhChanged n" "to_ascii_lowercase (h_strict_host_key_checking h) \<noteq> ''no''" for before p later n
    using main that by simp
  show ?thesis
    by (rule conjI [OF conjunct1 [OF main] conjI [OF conjunct2 [OF main]]], intro allI impI, rule refuses, assumption+)
qed

text \<open>Two known-hosts files: the first has another key for the host, the second the one offered.\<close>

definition two_files_world :: ssh_world where
  "two_files_world = demo_world\<lparr>sw_known := \<lambda>_ p _ _. if p = ''kh'' then KhChanged 1 else KhMatch\<rparr>"

definition two_files_host :: host where
  "two_files_host = demo_host\<lparr>h_user_known_hosts_files := [''kh'', ''kh2'']\<rparr>"

theorem host_key_verdict_witness:
  "snd (check_server_key two_files_world two_files_host ''key'' []) \<noteq> Inr () \<and> sw_known two_files_world [] ''kh2'' two_files_host ''key'' = KhMatch"
proof -
  have files: "h_user_known_hosts_files two_files_host = [] @ ''kh'' # [''kh2'']" by (simp add: two_files_host_def)
  have known: "sw_known two_files_world [] ''kh'' two_files_host ''key'' = KhChanged 1" by (simp add: two_files_world_def)
  have mode: "to_ascii_lowercase (h_strict_host_key_checking two_files_host) \<noteq> ''no''"
    by (simp add: two_files_host_def demo_host_def to_ascii_lowercase_def ascii_lower_def)
  obtain l' v where run: "check_server_key two_files_world two_files_host ''key'' [] = (l', v)" by fastforce
  have "find (\<lambda>q. decisive (sw_known two_files_world [] q two_files_host ''key'')) [] = None" by simp
  with host_key_verdict [OF run] files known mode have "v \<noteq> Inr ()" by metis
  then show ?thesis by (simp add: run) (simp add: two_files_world_def)
qed

text \<open>A changed key in one file refuses the host although a later file has the key offered.\<close>

lemma changed_before_match:
  "known_hosts_lookup (\<lambda>p. if p = ''kh'' then KhChanged 1 else KhMatch) [''kh'', ''kh2''] = Changed 1"
  by simp

text \<open>
  A file that cannot be read counts as one without the host: under \<open>accept-new\<close> the key is
  learned and the connection made.
\<close>

lemma unreadable_is_unknown:
  assumes "\<And>p. sw_known w l p h key = KhError e" "h_user_known_hosts_files h \<noteq> []"
    "h_strict_host_key_checking h = ''accept-new''" "sw_learn w (l @ [Learn (hd (h_user_known_hosts_files h)) h key]) = None"
  shows "snd (check_server_key w h key l) = Inr ()"
proof -
  have "find (\<lambda>p. decisive (sw_known w l p h key)) ps = None" for ps
    by (induction ps) (simp_all add: assms(1) decisive_def)
  then show ?thesis using assms by (simp add: check_server_key_def known_hosts_lookup_find)
qed

section \<open>Jump hosts\<close>

text \<open>
  (C28) A connection goes through its own jump hosts: the one returned ends at the host asked for, the jump
  hosts kept alive beside it are exactly those it was made through, the outermost first, and there are
  at most three.
\<close>

theorem connection_chain:
  assumes "connect_session w h 0 l = (l', Inr (c, bs))"
  shows "conn_host c = h \<and> bs = chain c \<and> length bs \<le> MAX_PROXY_DEPTH"
  using connect_session_result [OF assms] by auto

definition key_world :: ssh_world where
  "key_world = demo_world\<lparr>sw_auth := \<lambda>_. Inr True, sw_known := \<lambda>_ _ _ _. KhMatch\<rparr>"

lemma key_selectors [simp]:
  "sw_auth key_world l = Inr True" "sw_known key_world l p h k = KhMatch" "sw_limit key_world l = None"
  "sw_dial key_world l c = Inr ''key''" "sw_established key_world l = None" "sw_agent key_world l"
  "sw_identities key_world l = Inr [PublicKey ''a'']" "sw_reply key_world l = None"
  "sw_messages key_world l = [MData [0x6F], MEof, MExitStatus 1, MClose]"
  by (simp_all add: key_world_def demo_world_def)

lemma connect_key_world:
  "connect_session key_world demo_host 0 [] =
    ([Dial (Direct demo_host), Verdict (Direct demo_host) True, RequestIdentities,
      AgentAuth (Direct demo_host) ''ops'' (PublicKey ''a'')], Inr (Direct demo_host, []))"
proof -
  have "authenticate_session key_world (Direct demo_host) (h_user demo_host) (h_identity_files demo_host) l =
      (l @ [RequestIdentities, AgentAuth (Direct demo_host) ''ops'' (PublicKey ''a'')], Inr ''ssh-agent'')" for l
    by (simp add: authenticate_session_def authenticate_with_agent_def rbind_def ask_def act_def ret_def accepted_def demo_host_def)
  then show ?thesis
    by (subst connect_session.simps)
      (simp add: connect_and_auth_def with_timeout_def within_def rbind_def ret_def dial_def check_server_key_def)
qed

theorem connection_chain_witness:
  "conn_host (Direct demo_host) = demo_host \<and> [] = chain (Direct demo_host) \<and> length ([] :: conn list) \<le> MAX_PROXY_DEPTH"
  by (rule connection_chain [OF connect_key_world])

text \<open>
  A configuration in which every jump host names another one ends in an error, and no host is
  contacted.
\<close>

lemma endless_jumps_contact_nobody:
  assumes "\<And>b pj. resolve_bastion w pj = Inr b \<Longrightarrow> h_proxy_jump b \<noteq> None" "h_proxy_jump h \<noteq> None"
  shows "\<exists>e. connect_session w h 0 l = (l, Inl e)"
  by (rule connect_session_endless [OF assms])

definition loop_out :: bytes where
  "loop_out = map (\<lambda>c. of_nat (of_char c)) (''hostname b'' @ [CHR 0x0A] @ ''proxyjump b'')"

definition loop_world :: ssh_world where
  "loop_world = demo_world\<lparr>sw_ssh_g := \<lambda>_. SshExited True loop_out []\<rparr>"

lemma loop_lines: "lines (from_utf8_lossy loop_out) = [''hostname b'', ''proxyjump b'']"
  by code_simp

lemma loop_jump:
  assumes "resolve_bastion loop_world pj = Inr b"
  shows "h_proxy_jump b \<noteq> None"
proof -
  have l: "ssh_line f ''hostname b'' = ssh_put f (''hostname'', ''b'')" "ssh_line f ''proxyjump b'' = ssh_put f (''proxyjump'', ''b'')" for f
  proof -
    have "trim ''hostname b'' = ''hostname b''" "splitn2_ws ''hostname b'' = (''hostname'', Some ''b'')"
      "key_lower ''hostname'' = ''hostname''" "trim ''b'' = ''b''"
      "trim ''proxyjump b'' = ''proxyjump b''" "splitn2_ws ''proxyjump b'' = (''proxyjump'', Some ''b'')"
      "key_lower ''proxyjump'' = ''proxyjump''" by code_simp+
    then show "ssh_line f ''hostname b'' = ssh_put f (''hostname'', ''b'')" "ssh_line f ''proxyjump b'' = ssh_put f (''proxyjump'', ''b'')"
      by (simp_all add: ssh_line_def Let_def)
  qed
  have "h_proxy_jump h \<noteq> None" if "parse_ssh_g env a (from_utf8_lossy loop_out) = Inr h" for env a h
    using that by (auto simp: parse_ssh_g_def loop_lines l)
  then show ?thesis
    using assms by (auto simp: resolve_bastion_def resolve_host_def loop_world_def Let_def
        split: sum.splits option.splits if_splits)
qed

section \<open>Closing\<close>

text \<open>
  Closing tears a connection down from the inside: the session first, then its jump hosts, each
  before the one that carries it; closing again sends nothing but the end of the channel.
\<close>

lemma close_inside_out:
  assumes "ssh_open w req l = (l1, Inr h)"
  shows "\<exists>c h'. conn_host c = or_host req \<and>
    term_close h l2 = (h', l2 @ ChannelEof # Disconnect c # map Disconnect (rev (chain c))) \<and>
    term_close h' l3 = (h', l3 @ [ChannelEof])"
proof -
  obtain c bs l0 where c: "open_connection w req l = (l0, Inr (c, bs))" "h = ssh_handle_new c bs"
    using assms by (auto simp: ssh_open_def rbind_Inr ret_def)
  have "conn_host c = or_host req \<and> bs = chain c"
  proof (cases "or_password req")
    case None
    then show ?thesis using c(1) connect_session_result by (auto simp: open_connection_def)
  next
    case (Some pw)
    then show ?thesis
      using c(1)
      by (auto simp: open_connection_def Some rbind_Inr ret_def Let_def dest!: connect_unauthenticated_direct split: if_splits)
  qed
  then show ?thesis
    by (intro exI [of _ c]) (auto simp: c(2) term_close_def ssh_handle_new_def)
qed

section \<open>Authentication\<close>

lemma agent_auth_loop_fails:
  "agent_auth_loop w c u ids l = (l', Inr False) \<Longrightarrow> set l \<subseteq> set l' \<and> (\<forall>i \<in> set ids. AgentAuth c u i \<in> set l')"
  by (induction ids arbitrary: l) (force simp: rbind_def ask_def act_def ret_def split: if_splits)+

lemma agent_auth_loop_never_errs: "agent_auth_loop w c u ids l \<noteq> (l', Inl e)"
  by (induction ids arbitrary: l) (auto simp: rbind_def ask_def act_def ret_def split: if_splits)

lemma identity_files_fail:
  "authenticate_with_identity_files w c u ks l = (l', Inr False) \<Longrightarrow>
   set l \<subseteq> set l' \<and> (\<forall>k \<in> set ks. KeyAuth c u k \<in> set l' \<or> (\<exists>l''. \<not> sw_readable w l'' k))"
  by (induction ks arbitrary: l)
    (force simp: rcase_def authenticate_with_key_def ask_def act_def ret_def split: if_splits sum.splits)+

lemma identity_files_never_err: "authenticate_with_identity_files w c u ks l \<noteq> (l', Inl e)"
  by (induction ks arbitrary: l)
    (auto simp: rcase_def authenticate_with_key_def ask_def act_def ret_def split: if_splits sum.splits)

text \<open>
  Authentication gives up only after everything was tried.  Its one error is \<open>AuthFailed\<close>, and
  then every identity the agent listed and every identity file that could be read was offered; an error
  of one attempt never ends the search.
\<close>

lemma authentication_tries_all:
  assumes "authenticate_session w c u ks l = (l', Inl e)"
  shows "e = AuthFailed \<and>
    (\<forall>k \<in> set ks.
       KeyAuth c u k \<in> set l' \<or> (\<exists>l''. \<not> sw_readable w l'' k)) \<and>
    (\<forall>ids. sw_agent w l \<and> sw_identities w (l @ [RequestIdentities]) = Inr ids \<longrightarrow>
       (\<forall>i \<in> set ids. AgentAuth c u i \<in> set l'))"
proof -
  obtain la ra where a: "authenticate_with_agent w c u l = (la, ra)" by (cases "authenticate_with_agent w c u l")
  have ra: "ra = Inr False"
    using a assms agent_auth_loop_never_errs
    by (auto simp: authenticate_session_def authenticate_with_agent_def rbind_def ask_def act_def ret_def
        split: if_splits sum.splits prod.splits)
  obtain lf rf where f: "authenticate_with_identity_files w c u ks la = (lf, rf)"
    by (cases "authenticate_with_identity_files w c u ks la")
  have rf: "rf = Inr False" "l' = lf" "e = AuthFailed"
    using a ra f assms identity_files_never_err
    by (auto simp: authenticate_session_def rbind_def ret_def split: if_splits sum.splits)
  note files = identity_files_fail [OF f [unfolded rf(1)]]
  have "\<forall>i \<in> set ids. AgentAuth c u i \<in> set la" if "sw_agent w l" "sw_identities w (l @ [RequestIdentities]) = Inr ids" for ids
    using a ra that agent_auth_loop_fails
    by (auto simp: authenticate_with_agent_def rbind_def ask_def act_def)
  then show ?thesis using files rf by blast
qed

section \<open>The result of a command\<close>

definition stdout_of :: "chan_msg list \<Rightarrow> bytes" where
  "stdout_of ms = concat (map (\<lambda>m. case m of MData d \<Rightarrow> d | _ \<Rightarrow> []) ms)"

definition ends :: "chan_msg \<Rightarrow> bool" where
  "ends m \<longleftrightarrow> m = MEof \<or> m = MClose"

definition last_status :: "chan_msg list \<Rightarrow> u32 option" where
  "last_status ms = foldl (\<lambda>st m. case m of MExitStatus n \<Rightarrow> Some n | _ \<Rightarrow> st) None ms"

lemma collect_before_end:
  "collect ms out st =
     (let before = takeWhile (\<lambda>m. \<not> ends m) ms
      in (out @ stdout_of before, foldl (\<lambda>st m. case m of MExitStatus n \<Rightarrow> Some n | _ \<Rightarrow> st) st before))"
  by (induction ms arbitrary: out st) (auto simp: stdout_of_def ends_def Let_def split: chan_msg.splits)

text \<open>
  What a command's result is.  Where the connection stands, the channel and the request are granted and
  no time limit strikes, \<open>exec\<close> returns the standard output before the channel's first end; it is
  an error only if the last status before that end is not 0.  A status that comes after the end of the
  output is therefore never seen: a failed command whose server closes its output first is a success.
\<close>

lemma exec_result:
  assumes "connect_session w h 0 l = (l1, Inr (c, bs))" "\<And>l. sw_reply w l = None" "\<And>l. sw_limit w l = None"
    and "\<And>l. sw_messages w l = ms" "before = takeWhile (\<lambda>m. \<not> ends m) ms"
  shows "ssh_exec w h cmd l =
    (l1 @ [OpenChannel c, RequestExec cmd, ChannelEof, Disconnect c] @ map Disconnect (rev bs),
     if last_status before = None \<or> last_status before = Some 0 then Inr (from_utf8_lossy (stdout_of before))
     else Inl (ChannelError (''command exited with code '' @ dec (unat (the (last_status before))))))"
  using assms
  by (auto simp: ssh_exec_def rbind_def open_channel_def with_timeout_def within_def request_def ask_def act_def
      disconnects_def exec_outcome_def collect_before_end Let_def last_status_def split: option.splits)

section \<open>The keep-alive\<close>

lemma run_after:
  assumes "x \<noteq> F" "m < n"
  shows "replicate m F @ x # ts = pre @ replicate n F @ post \<longleftrightarrow>
    (\<exists>pre'. pre = replicate m F @ x # pre' \<and> ts = pre' @ replicate n F @ post)"
proof
  assume eq: "replicate m F @ x # ts = pre @ replicate n F @ post"
  have "m < length pre"
  proof (rule ccontr)
    assume "\<not> m < length pre"
    moreover from this have "m - length pre < n" using assms(2) by linarith
    ultimately have "(pre @ replicate n F @ post) ! m = F" by (simp add: nth_append)
    then show False using assms(1) by (simp flip: eq add: nth_append)
  qed
  then have "take (m + 1) pre = replicate m F @ [x]"
    using arg_cong [OF eq, of "take (m + 1)"] by simp
  then obtain pre' where "pre = replicate m F @ x # pre'" by (metis append.assoc append_Cons append_Nil append_take_drop_id)
  then show "\<exists>pre'. pre = replicate m F @ x # pre' \<and> ts = pre' @ replicate n F @ post" using eq by simp
qed auto

lemma keepalive_loop_run:
  "m < KEEPALIVE_MAX_MISSES \<Longrightarrow> keepalive_loop m ts = Some True \<longleftrightarrow>
   (\<exists>pre post. replicate m (Ping False) @ ts = pre @ replicate KEEPALIVE_MAX_MISSES (Ping False) @ post \<and> Taken \<notin> set pre)"
proof (induction m ts rule: keepalive_loop.induct)
  case (1 m)
  then show ?case using arg_cong [where f = length] by (fastforce dest: arg_cong [where f = length])
next
  case (2 m ts)
  then show ?case by (auto simp: run_after)
next
  case (3 m ts)
  have "keepalive_loop 0 ts = Some True \<longleftrightarrow>
      (\<exists>pre' post. ts = pre' @ replicate KEEPALIVE_MAX_MISSES (Ping False) @ post \<and> Taken \<notin> set pre')"
    using "3.IH" by (simp add: KEEPALIVE_MAX_MISSES_def)
  also have "\<dots> \<longleftrightarrow> (\<exists>pre post. replicate m (Ping False) @ Ping True # ts =
      pre @ replicate KEEPALIVE_MAX_MISSES (Ping False) @ post \<and> Taken \<notin> set pre)"
    unfolding run_after [of "Ping True" "Ping False" m KEEPALIVE_MAX_MISSES, OF _ "3.prems", simplified] by fastforce
  finally show ?case by simp
next
  case (4 m ts)
  show ?case
  proof (cases "KEEPALIVE_MAX_MISSES \<le> m + 1")
    case True
    then have "m + 1 = KEEPALIVE_MAX_MISSES" using 4 by simp
    then have "replicate m (Ping False) @ Ping False # ts = [] @ replicate KEEPALIVE_MAX_MISSES (Ping False) @ ts"
      by (metis Suc_eq_plus1 append_Cons append_Nil replicate_Suc replicate_app_Cons_same)
    then show ?thesis using True by (metis empty_iff keepalive_loop.simps(4) list.set(1))
  next
    case False
    then show ?thesis using 4 by (simp add: replicate_app_Cons_same)
  qed
qed

text \<open>
  The keep-alive disconnects exactly if three pings in a row fail while the session has not been taken;
  a single answer starts the count anew.
\<close>

lemma keepalive_disconnects:
  "keepalive_loop 0 ts = Some True \<longleftrightarrow>
   (\<exists>pre post. ts = pre @ replicate KEEPALIVE_MAX_MISSES (Ping False) @ post \<and> Taken \<notin> set pre)"
  using keepalive_loop_run [of 0 ts] by (simp add: KEEPALIVE_MAX_MISSES_def)

end
