(* ===== verification/Bootstrap.thy ===== *)
theory Bootstrap
  imports Ssh_Client
begin

text \<open>
  Setting a host up for key authentication (src/application/bootstrap.rs), and the memory of user names it feeds
  (src/infrastructure/username_store.rs).  The programs of the SSH client run on the part of the history that
  concerns the network; what the user, the key generator and the files answer is an argument.
\<close>

section \<open>Actions and results\<close>

datatype baction =
    Ssh saction
  | CreateDir string
  | KeyGen string
  | AskPassword string string string
  | RememberUser string string
  | ReadKey string

type_synonym bhist = "baction list"

type_synonym 'x boot = "(baction, 'x) prog"

datatype bootstrap_result =
    AlreadyConfigured string string
  | Bootstrapped string string
  | BCancelled string
  | BTimedOut string nat
  | AuthenticationFailed string
  | BootstrapFailed string string

text \<open>
  The network, the password prompt, the environment, existence of files, the outcome of ssh-keygen (it could not be
  run, or its success and error output), the text of the public key file, and the base64 encoding.
\<close>

record boot_world =
  bw_ssh :: ssh_world
  bw_password :: "bhist \<Rightarrow> credential_error + password_credential"
  bw_env :: "string \<Rightarrow> string option"
  bw_exists :: "bhist \<Rightarrow> string \<Rightarrow> bool"
  bw_keygen :: "bhist \<Rightarrow> string + bool \<times> bytes"
  bw_read :: "bhist \<Rightarrow> string + string"
  bw_base64 :: "bytes \<Rightarrow> string"

fun ssh_part :: "bhist \<Rightarrow> shist" where
  "ssh_part [] = []"
| "ssh_part (Ssh a # l) = a # ssh_part l"
| "ssh_part (_ # l) = ssh_part l"

definition on_ssh :: "'x ssh \<Rightarrow> 'x boot" where
  "on_ssh m l = (let (s, r) = m (ssh_part l) in (l @ map Ssh (drop (length (ssh_part l)) s), r))"

section \<open>The key files\<close>

definition home_dir :: "boot_world \<Rightarrow> string option" where
  "home_dir w = (case bw_env w ''HOME'' of Some h \<Rightarrow> Some h | None \<Rightarrow> bw_env w ''USERPROFILE'')"

definition ensure_identity_file :: "boot_world \<Rightarrow> host \<Rightarrow> string boot" where
  "ensure_identity_file w host l =
     (case h_identity_files host of
        first # _ \<Rightarrow> (l, Inr first)
      | [] \<Rightarrow>
          (case home_dir w of
             None \<Rightarrow> (l, Inl (InvalidArgument ''cannot determine home dir''))
           | Some home \<Rightarrow>
               (let join = se_join (sw_env (bw_ssh w)); ssh_dir = join home ''.ssh''; key_path = join ssh_dir ''id_ed25519''
                in if bw_exists w l key_path then (l, Inr key_path)
                   else (let l = l @ [CreateDir ssh_dir]
                         in if \<not> utf8_valid (str_bytes key_path)
                            then (l, Inl (InvalidArgument ''identity file path is not valid UTF-8''))
                            else (let l = l @ [KeyGen key_path]
                                  in case bw_keygen w l of
                                       Inl e \<Rightarrow> (l, Inl (InvalidArgument (''ssh-keygen failed: '' @ e)))
                                     | Inr (success, stderr) \<Rightarrow>
                                         if success then (l, Inr key_path)
                                         else (l, Inl (InvalidArgument (''ssh-keygen failed: '' @ from_utf8_lossy stderr))))))))"

text \<open>
  \<open>Path::with_extension\<close> for paths that end in a file name: an extension the name has is replaced.
\<close>

definition with_extension :: "string \<Rightarrow> string \<Rightarrow> string" where
  "with_extension path ext =
     (let (dir, name) = (case rsplit_once CHR ''/'' path of Some (d, n) \<Rightarrow> (d @ ''/'', n) | None \<Rightarrow> ([], path));
          stem = (case rsplit_once CHR ''.'' name of Some (a, b) \<Rightarrow> if a = [] then name else a | None \<Rightarrow> name)
      in dir @ stem @ ''.'' @ ext)"

definition read_public_key :: "boot_world \<Rightarrow> string \<Rightarrow> string boot" where
  "read_public_key w key_path =
     ask (ReadKey (with_extension key_path ''pub''))
       (\<lambda>l. case bw_read w l of Inl e \<Rightarrow> Inl (InvalidArgument (''read public key: '' @ e)) | Inr content \<Rightarrow> Inr (trim content))"

section \<open>Deployment\<close>

definition quote :: char where "quote = CHR 0x27"

fun replace_quotes :: "string \<Rightarrow> string" where
  "replace_quotes [] = []"
| "replace_quotes (c # cs) = (if c = quote then [quote, CHR 0x5C, quote, quote] else [c]) @ replace_quotes cs"

definition shell_single_quote :: "string \<Rightarrow> string" where
  "shell_single_quote s = quote # replace_quotes s @ [quote]"

definition prepare_cmd :: string where
  "prepare_cmd = ''mkdir -p ~/.ssh && chmod 700 ~/.ssh && touch ~/.ssh/authorized_keys && chmod 600 ~/.ssh/authorized_keys && grep -qFe ''"

definition append_cmd :: string where
  "append_cmd = '' ~/.ssh/authorized_keys || printf '' @ [quote] @ ''%s'' @ [quote] @ '' ''"

definition build_deploy_public_key_cmd :: "boot_world \<Rightarrow> string \<Rightarrow> string" where
  "build_deploy_public_key_cmd w public_key =
     prepare_cmd @ shell_single_quote public_key @ append_cmd @ shell_single_quote (bw_base64 w (str_bytes public_key)) @
     '' | base64 -d >> ~/.ssh/authorized_keys''"

fun deploy_status :: "chan_msg list \<Rightarrow> u32 option \<Rightarrow> u32 option" where
  "deploy_status [] st = st"
| "deploy_status (MExitStatus n # ms) st = deploy_status ms (Some n)"
| "deploy_status (MEof # ms) st = st"
| "deploy_status (MClose # ms) st = st"
| "deploy_status (_ # ms) st = deploy_status ms st"

definition deploy_public_key :: "boot_world \<Rightarrow> conn \<Rightarrow> string \<Rightarrow> unit ssh" where
  "deploy_public_key w c public_key =
     rbind (request (bw_ssh w) (OpenChannel c) (\<lambda>e. ChannelError (''open channel: '' @ e))) (\<lambda>_.
     rbind (request (bw_ssh w) (RequestExec (build_deploy_public_key_cmd w public_key)) (\<lambda>e. ChannelError (''exec: '' @ e))) (\<lambda>_.
     act ChannelEof (\<lambda>l. case deploy_status (sw_messages (bw_ssh w) l) None of
        None \<Rightarrow> Inr ()
      | Some n \<Rightarrow> if n = 0 then Inr () else Inl (ChannelError (''deploy public key failed: exit code '' @ dec (unat n))))))"

section \<open>The flow\<close>

definition verify_key :: "boot_world \<Rightarrow> string \<Rightarrow> host \<Rightarrow> string \<Rightarrow> string \<Rightarrow> bootstrap_result boot" where
  "verify_key w alias host user key_path =
     rbind (on_ssh (connect_unauthenticated (bw_ssh w) host)) (\<lambda>c.
     rcase (on_ssh (authenticate_session (bw_ssh w) c user [key_path]))
       (\<lambda>e. if e = AuthFailed then ret (Inr (BootstrapFailed alias ''key auth verification failed after install'')) else ret (Inl e))
       (\<lambda>via. ret (Inr (Bootstrapped alias via))))"

definition install_key :: "boot_world \<Rightarrow> string \<Rightarrow> host \<Rightarrow> string \<Rightarrow> password_credential \<Rightarrow> bootstrap_result boot" where
  "install_key w alias host key_path cred =
     (let user = (case pc_user cred of Some u \<Rightarrow> u | None \<Rightarrow> h_user host)
      in rbind (on_ssh (connect_unauthenticated (bw_ssh w) host)) (\<lambda>c.
         rbind (on_ssh (authenticate_with_password (bw_ssh w) c user (pc_secret cred))) (\<lambda>ok.
           if \<not> ok then ret (Inr (AuthenticationFailed alias))
           else rignore (ask (RememberUser (h_hostname host) user) (\<lambda>_. Inr ()))
             (rbind (read_public_key w key_path) (\<lambda>public_key.
              rbind (on_ssh (deploy_public_key w c public_key)) (\<lambda>_.
                verify_key w alias host user key_path))))))"

definition with_password :: "boot_world \<Rightarrow> string \<Rightarrow> host \<Rightarrow> bootstrap_result boot" where
  "with_password w alias host =
     rbind (ensure_identity_file w host) (\<lambda>key_path.
     rbind (ask (AskPassword (h_hostname host) (h_user host) ''bootstrap: deploy public key to authorized_keys'')
              (\<lambda>l. Inr (bw_password w l))) (\<lambda>answer.
       case answer of
         Inr cred \<Rightarrow> install_key w alias host key_path cred
       | Inl Cancelled \<Rightarrow> ret (Inr (BCancelled alias))
       | Inl (CredTimeout secs) \<Rightarrow> ret (Inr (BTimedOut alias secs))
       | Inl (HelperFailed msg) \<Rightarrow> ret (Inl (InvalidArgument msg))
       | Inl (Unsupported msg) \<Rightarrow> ret (Inl (InvalidArgument msg))))"

definition bootstrap :: "boot_world \<Rightarrow> string \<Rightarrow> bootstrap_result boot" where
  "bootstrap w alias =
     (case resolve_host (sw_env (bw_ssh w)) (sw_ssh_g (bw_ssh w)) (sw_remembered (bw_ssh w)) alias of
        Inl e \<Rightarrow> ret (Inl e)
      | Inr host \<Rightarrow>
          rbind (on_ssh (connect_unauthenticated (bw_ssh w) host)) (\<lambda>c.
          rcase (on_ssh (authenticate_session (bw_ssh w) c (h_user host) (h_identity_files host)))
            (\<lambda>e. if e = AuthFailed then with_password w alias host else ret (Inl e))
            (\<lambda>via. ret (Inr (AlreadyConfigured alias via)))))"

section \<open>Histories\<close>

lemma ssh_part_append [simp]: "ssh_part (a @ b) = ssh_part a @ ssh_part b"
  by (induction a rule: ssh_part.induct) simp_all

lemma ssh_part_map [simp]: "ssh_part (map Ssh xs) = xs"
  by (induction xs) simp_all

lemma on_ssh_run:
  assumes "acts_in P m" "on_ssh m l = (l', r)"
  obtains xs where "l' = l @ map Ssh xs" "m (ssh_part l) = (ssh_part l', r)" "list_all P xs"
proof -
  obtain xs where "m (ssh_part l) = (ssh_part l @ xs, snd (m (ssh_part l)))" "list_all P xs"
    using assms(1) unfolding acts_in_def by (metis prod.collapse)
  with that [of xs] assms(2) show ?thesis by (auto simp: on_ssh_def Let_def split: prod.splits)
qed

text \<open>Assertions on the network's part of the history, with a reason for every action.\<close>

lemma hoare_on_ssh:
  assumes "acts_in A m" "hoare (\<lambda>l. True) m Q (\<lambda>_ _. True)"
    and "\<And>l a zs. backed D l \<Longrightarrow> P l \<Longrightarrow> A a \<Longrightarrow> D (Ssh a) (l @ zs)" "\<And>l ys. P l \<Longrightarrow> P (l @ ys)"
  shows "hoare (\<lambda>l. backed D l \<and> P l) (on_ssh m) (\<lambda>x l. backed D l \<and> P l \<and> Q x (ssh_part l)) (\<lambda>_ l. backed D l \<and> P l)"
proof -
  have run: "backed D l' \<and> P l' \<and> (\<forall>x. r = Inr x \<longrightarrow> Q x (ssh_part l'))"
    if p: "backed D l \<and> P l" and m: "on_ssh m l = (l', r)" for l l' r
  proof -
    obtain xs where xs: "l' = l @ map Ssh xs" "m (ssh_part l) = (ssh_part l', r)" "list_all A xs"
      by (rule on_ssh_run [OF assms(1) m])
    have "backed D l'"
      unfolding xs(1) using p xs(3) by (intro backed_append) (auto simp: list_all_iff intro: assms(3))
    moreover have "\<forall>x. r = Inr x \<longrightarrow> Q x (ssh_part l')"
      using hoare_Inr [OF assms(2)] xs(2) by blast
    ultimately show ?thesis using p assms(4) xs(1) by blast
  qed
  show ?thesis by (rule hoareI) (use run in blast)+
qed

section \<open>Reasons\<close>

text \<open>
  The secret was typed by the user, who was asked for this host; the password attempt was accepted by the server;
  the command installs some public key.
\<close>

definition typed :: "boot_world \<Rightarrow> string \<Rightarrow> bhist \<Rightarrow> bool" where
  "typed w secret l \<longleftrightarrow>
     (\<exists>as bs h u why cred. l = as @ AskPassword h u why # bs \<and>
        bw_password w (as @ [AskPassword h u why]) = Inr cred \<and> pc_secret cred = secret)"

definition let_in :: "boot_world \<Rightarrow> host \<Rightarrow> bhist \<Rightarrow> bool" where
  "let_in w host l \<longleftrightarrow>
     (\<exists>s u p t. ssh_part l = s @ PasswordAuth (Direct host) u p # t \<and>
        sw_auth (bw_ssh w) (s @ [PasswordAuth (Direct host) u p]) = Inr True)"

definition reason :: "boot_world \<Rightarrow> host \<Rightarrow> baction \<Rightarrow> bhist \<Rightarrow> bool" where
  "reason w host a l \<longleftrightarrow>
     (case a of
        Ssh s \<Rightarrow>
          (\<forall>c. credential_of s = Some c \<longrightarrow> c = Direct host \<and> Verdict c True \<in> set (ssh_part l)) \<and>
          (\<forall>c u p. s = PasswordAuth c u p \<longrightarrow> typed w p l) \<and>
          (\<forall>cmd. s = RequestExec cmd \<longrightarrow> let_in w host l \<and> (\<exists>key. cmd = build_deploy_public_key_cmd w key))
      | _ \<Rightarrow> True)"

lemma typed_append: "typed w p l \<Longrightarrow> typed w p (l @ ys)"
  unfolding typed_def by (metis append.assoc append_Cons)

lemma let_in_append: "let_in w h l \<Longrightarrow> let_in w h (l @ ys)"
  unfolding let_in_def by (metis append.assoc append_Cons ssh_part_append)

lemma typedI: "bw_password w (as @ [AskPassword h u why]) = Inr cred \<Longrightarrow> typed w (pc_secret cred) (as @ [AskPassword h u why])"
  unfolding typed_def by (metis append_Nil2 append.assoc append_Cons append_Nil)

lemma let_inI:
  "ssh_part l = s @ [PasswordAuth (Direct h) u p] \<Longrightarrow> sw_auth (bw_ssh w) (ssh_part l) = Inr True \<Longrightarrow> let_in w h l"
  unfolding let_in_def by metis

lemma dial_verdict: "dial w c l = (l', Inr x) \<Longrightarrow> Verdict c True \<in> set l'"
  by (auto simp: dial_def Let_def split: sum.splits prod.splits option.splits)

definition connecting :: "saction \<Rightarrow> bool" where
  "connecting a \<longleftrightarrow> credential_of a = None \<and> (\<forall>cmd. a \<noteq> RequestExec cmd)"

lemma credential_of_password [simp]: "credential_of (PasswordAuth c u p) = Some c"
  by (simp add: credential_of_def)

lemma acts_in_connect: "acts_in connecting (connect_unauthenticated w h)"
  unfolding connect_unauthenticated_def with_timeout_def
  by (intro acts_intros) (simp_all add: connecting_def credential_of_def)

lemma connect_spec:
  "hoare (\<lambda>l. True) (connect_unauthenticated w h) (\<lambda>c l. c = Direct h \<and> Verdict c True \<in> set l) (\<lambda>_ _. True)"
  by (rule hoareI)
    (auto simp: connect_unauthenticated_def rbind_Inr ret_def with_timeout_def within_def
      dest: dial_verdict split: if_splits option.splits)

lemma connect_boot:
  assumes "\<And>l ys. P l \<Longrightarrow> P (l @ ys)"
  shows "hoare (\<lambda>l. backed (reason w h) l \<and> P l) (on_ssh (connect_unauthenticated (bw_ssh w) h))
    (\<lambda>c l. backed (reason w h) l \<and> P l \<and> c = Direct h \<and> Verdict c True \<in> set (ssh_part l))
    (\<lambda>_ l. backed (reason w h) l \<and> P l)"
  by (rule hoare_on_ssh [OF acts_in_connect connect_spec]) (auto simp: connecting_def reason_def assms)

definition key_attempt :: "conn \<Rightarrow> saction \<Rightarrow> bool" where
  "key_attempt c a \<longleftrightarrow> a = RequestIdentities \<or> (\<exists>u i. a = AgentAuth c u i) \<or> (\<exists>u k. a = KeyAuth c u k)"

lemma key_boot:
  assumes "\<And>l ys. P l \<Longrightarrow> P (l @ ys)"
  shows "hoare (\<lambda>l. backed (reason w h) l \<and> P l \<and> c = Direct h \<and> Verdict c True \<in> set (ssh_part l))
    (on_ssh (authenticate_session (bw_ssh w) c u ks)) (\<lambda>_ l. backed (reason w h) l \<and> P l) (\<lambda>_ l. backed (reason w h) l \<and> P l)"
proof -
  have acts: "acts_in (key_attempt c) (authenticate_session (bw_ssh w) c u ks)"
    by (rule acts_in_authenticate_session) (simp_all add: key_attempt_def)
  have "hoare (\<lambda>l. backed (reason w h) l \<and> (P l \<and> c = Direct h \<and> Verdict c True \<in> set (ssh_part l)))
    (on_ssh (authenticate_session (bw_ssh w) c u ks))
    (\<lambda>x l. backed (reason w h) l \<and> (P l \<and> c = Direct h \<and> Verdict c True \<in> set (ssh_part l)) \<and> True)
    (\<lambda>_ l. backed (reason w h) l \<and> (P l \<and> c = Direct h \<and> Verdict c True \<in> set (ssh_part l)))"
    by (rule hoare_on_ssh [OF acts]) (auto simp: hoare_def key_attempt_def reason_def credential_of_def assms split: sum.split)
  then show ?thesis by (rule hoare_conseq) auto
qed

definition password_attempt :: "conn \<Rightarrow> string \<Rightarrow> string \<Rightarrow> saction \<Rightarrow> bool" where
  "password_attempt c u p a \<longleftrightarrow> a = PasswordAuth c u p"

text \<open>An accepted password leaves its attempt as the last action of the network's history.\<close>

lemma password_spec:
  "hoare (\<lambda>l. True) (authenticate_with_password w c u p)
     (\<lambda>ok l. ok \<longrightarrow> (\<exists>s. l = s @ [PasswordAuth c u p] \<and> sw_auth w l = Inr True)) (\<lambda>_ _. True)"
  unfolding authenticate_with_password_def by (rule hoare_ask) (auto split: sum.splits)

lemma password_boot:
  "hoare (\<lambda>l. backed (reason w h) l \<and> typed w p l \<and> c = Direct h \<and> Verdict c True \<in> set (ssh_part l))
     (on_ssh (authenticate_with_password (bw_ssh w) c u p))
     (\<lambda>ok l. backed (reason w h) l \<and> (ok \<longrightarrow> let_in w h l)) (\<lambda>_ l. backed (reason w h) l)"
proof -
  have acts: "acts_in (password_attempt c u p) (authenticate_with_password (bw_ssh w) c u p)"
    unfolding authenticate_with_password_def by (intro acts_intros) (simp add: password_attempt_def)
  have "hoare (\<lambda>l. backed (reason w h) l \<and> (typed w p l \<and> c = Direct h \<and> Verdict c True \<in> set (ssh_part l)))
     (on_ssh (authenticate_with_password (bw_ssh w) c u p))
     (\<lambda>ok l. backed (reason w h) l \<and> (typed w p l \<and> c = Direct h \<and> Verdict c True \<in> set (ssh_part l)) \<and>
        (ok \<longrightarrow> (\<exists>s. ssh_part l = s @ [PasswordAuth c u p] \<and> sw_auth (bw_ssh w) (ssh_part l) = Inr True)))
     (\<lambda>_ l. backed (reason w h) l \<and> (typed w p l \<and> c = Direct h \<and> Verdict c True \<in> set (ssh_part l)))"
    by (rule hoare_on_ssh [OF acts password_spec])
      (auto simp: password_attempt_def reason_def credential_of_def typed_append)
  then show ?thesis
  proof (rule hoare_conseq)
    fix ok l
    assume "backed (reason w h) l \<and> (typed w p l \<and> c = Direct h \<and> Verdict c True \<in> set (ssh_part l)) \<and>
      (ok \<longrightarrow> (\<exists>s. ssh_part l = s @ [PasswordAuth c u p] \<and> sw_auth (bw_ssh w) (ssh_part l) = Inr True))"
    then show "backed (reason w h) l \<and> (ok \<longrightarrow> let_in w h l)"
      using let_inI by blast
  qed auto
qed

definition deploying :: "boot_world \<Rightarrow> string \<Rightarrow> saction \<Rightarrow> bool" where
  "deploying w key a \<longleftrightarrow>
     (\<exists>c. a = OpenChannel c) \<or> a = RequestExec (build_deploy_public_key_cmd w key) \<or> a = ChannelEof"

text \<open>A deployment that succeeds has run the command.\<close>

lemma deploy_spec:
  "hoare (\<lambda>l. True) (deploy_public_key w c key)
     (\<lambda>_ l. RequestExec (build_deploy_public_key_cmd w key) \<in> set l) (\<lambda>_ _. True)"
  by (rule hoareI) (auto simp: deploy_public_key_def rbind_Inr act_def request_def ask_def)

lemma deploy_boot:
  "hoare (\<lambda>l. backed (reason w h) l \<and> let_in w h l) (on_ssh (deploy_public_key w c key))
     (\<lambda>_ l. backed (reason w h) l \<and> let_in w h l \<and> RequestExec (build_deploy_public_key_cmd w key) \<in> set (ssh_part l))
     (\<lambda>_ l. backed (reason w h) l \<and> let_in w h l)"
proof -
  have acts: "acts_in (deploying w key) (deploy_public_key w c key)"
    unfolding deploy_public_key_def by (intro acts_intros) (simp_all add: deploying_def)
  show ?thesis
    by (rule hoare_on_ssh [OF acts deploy_spec]) (auto simp: deploying_def reason_def credential_of_def let_in_append)
qed

text \<open>What holds at the end: the reasons, and for a result that speaks of an installed key the command was run.\<close>

definition finished :: "boot_world \<Rightarrow> host \<Rightarrow> bootstrap_result \<Rightarrow> bhist \<Rightarrow> bool" where
  "finished w h r l \<longleftrightarrow> backed (reason w h) l \<and>
     (case r of
        Bootstrapped _ _ \<Rightarrow> \<exists>key. RequestExec (build_deploy_public_key_cmd w key) \<in> set (ssh_part l)
      | BootstrapFailed _ _ \<Rightarrow> \<exists>key. RequestExec (build_deploy_public_key_cmd w key) \<in> set (ssh_part l)
      | _ \<Rightarrow> True)"

lemma verify_boot:
  assumes P_def: "P = (\<lambda>l. RequestExec (build_deploy_public_key_cmd w key) \<in> set (ssh_part l))"
  shows "hoare (\<lambda>l. backed (reason w h) l \<and> P l) (verify_key w alias h u key_path) (finished w h) (\<lambda>_. backed (reason w h))"
proof -
  have keep: "P l \<Longrightarrow> P (l @ ys)" for l ys by (simp add: P_def)
  have done_: "finished w h (Bootstrapped alias via) l" "finished w h (BootstrapFailed alias why) l"
    if "backed (reason w h) l \<and> P l" for l via why
    using that by (auto simp: finished_def P_def)
  have "hoare (\<lambda>l. backed (reason w h) l \<and> P l) (on_ssh (connect_unauthenticated (bw_ssh w) h))
      (\<lambda>c l. backed (reason w h) l \<and> P l \<and> c = Direct h \<and> Verdict c True \<in> set (ssh_part l)) (\<lambda>_. backed (reason w h))"
    by (rule hoare_conseq [OF connect_boot [where P = P, OF keep]]) auto
  moreover have "hoare (\<lambda>l. backed (reason w h) l \<and> P l \<and> c = Direct h \<and> Verdict c True \<in> set (ssh_part l))
      (rcase (on_ssh (authenticate_session (bw_ssh w) c u [key_path]))
        (\<lambda>e. if e = AuthFailed then ret (Inr (BootstrapFailed alias ''key auth verification failed after install'')) else ret (Inl e))
        (\<lambda>via. ret (Inr (Bootstrapped alias via)))) (finished w h) (\<lambda>_. backed (reason w h))" for c
    by (rule hoare_rcase [OF key_boot [where P = P, OF keep]]) (auto intro!: hoare_intros simp: done_)
  ultimately show ?thesis unfolding verify_key_def by (rule hoare_rbind)
qed

lemma hoare_backed_ask:
  assumes "\<And>l ys. P l \<Longrightarrow> P (l @ ys)" "\<And>s. a \<noteq> Ssh s"
  shows "hoare (\<lambda>l. backed (reason w h) l \<and> P l) (ask a f) (\<lambda>x l. backed (reason w h) l \<and> P l \<and> f l = Inr x)
    (\<lambda>_ l. backed (reason w h) l \<and> P l)"
  using assms by (intro hoare_ask) (auto simp: reason_def split: baction.split)

lemma install_boot:
  "hoare (\<lambda>l. backed (reason w h) l \<and> typed w (pc_secret cred) l) (install_key w alias h key_path cred)
     (finished w h) (\<lambda>_. backed (reason w h))"
proof -
  define u where "u = (case pc_user cred of Some u \<Rightarrow> u | None \<Rightarrow> h_user h)"
  let ?B = "backed (reason w h)" and ?typed = "typed w (pc_secret cred)"
  have connect: "hoare (\<lambda>l. ?B l \<and> ?typed l) (on_ssh (connect_unauthenticated (bw_ssh w) h))
      (\<lambda>c l. ?B l \<and> ?typed l \<and> c = Direct h \<and> Verdict c True \<in> set (ssh_part l)) (\<lambda>_. ?B)"
    by (rule hoare_conseq [OF connect_boot [where P = "typed w (pc_secret cred)", OF typed_append]]) auto
  have remember: "hoare (\<lambda>l. ?B l \<and> let_in w h l) (ask (RememberUser (h_hostname h) u) (\<lambda>_. Inr ()))
      (\<lambda>_ l. ?B l \<and> let_in w h l) (\<lambda>_ l. ?B l \<and> let_in w h l)"
    by (rule hoare_conseq [OF hoare_backed_ask [where P = "let_in w h", OF let_in_append]]) auto
  have read: "hoare (\<lambda>l. ?B l \<and> let_in w h l) (read_public_key w key_path) (\<lambda>_ l. ?B l \<and> let_in w h l) (\<lambda>_. ?B)"
    unfolding read_public_key_def by (rule hoare_conseq [OF hoare_backed_ask [where P = "let_in w h", OF let_in_append]]) auto
  have deploy: "hoare (\<lambda>l. ?B l \<and> let_in w h l) (on_ssh (deploy_public_key w c key))
      (\<lambda>_ l. ?B l \<and> RequestExec (build_deploy_public_key_cmd w key) \<in> set (ssh_part l)) (\<lambda>_. ?B)" for c key
    by (rule hoare_conseq [OF deploy_boot]) auto
  have finish: "hoare (\<lambda>l. ?B l \<and> let_in w h l)
      (rbind (on_ssh (deploy_public_key w c key)) (\<lambda>_. verify_key w alias h u key_path)) (finished w h) (\<lambda>_. ?B)" for c key
    by (rule hoare_rbind [OF deploy verify_boot [OF refl]])
  have attempt: "hoare (\<lambda>l. ?B l \<and> ?typed l \<and> c = Direct h \<and> Verdict c True \<in> set (ssh_part l))
      (rbind (on_ssh (authenticate_with_password (bw_ssh w) c u (pc_secret cred))) (\<lambda>ok.
         if \<not> ok then ret (Inr (AuthenticationFailed alias))
         else rignore (ask (RememberUser (h_hostname h) u) (\<lambda>_. Inr ()))
           (rbind (read_public_key w key_path) (\<lambda>public_key.
            rbind (on_ssh (deploy_public_key w c public_key)) (\<lambda>_. verify_key w alias h u key_path)))))
      (finished w h) (\<lambda>_. ?B)" for c
  proof (rule hoare_rbind [OF password_boot], rule hoare_if)
    fix ok :: bool assume "\<not> ok"
    show "hoare (\<lambda>l. ?B l \<and> (ok \<longrightarrow> let_in w h l)) (ret (Inr (AuthenticationFailed alias))) (finished w h) (\<lambda>_. ?B)"
      by (intro hoare_intros) (simp add: finished_def)
  next
    fix ok :: bool assume "\<not> \<not> ok"
    then show "hoare (\<lambda>l. ?B l \<and> (ok \<longrightarrow> let_in w h l))
        (rignore (ask (RememberUser (h_hostname h) u) (\<lambda>_. Inr ()))
           (rbind (read_public_key w key_path) (\<lambda>public_key.
            rbind (on_ssh (deploy_public_key w c public_key)) (\<lambda>_. verify_key w alias h u key_path))))
        (finished w h) (\<lambda>_. ?B)"
      by (simp add: hoare_rignore [OF remember hoare_rbind [OF read finish]])
  qed
  show ?thesis
    unfolding install_key_def Let_def u_def [symmetric] by (rule hoare_rbind [OF connect attempt])
qed

lemma ensure_boot:
  "hoare (backed (reason w h)) (ensure_identity_file w h) (\<lambda>_. backed (reason w h)) (\<lambda>_. backed (reason w h))"
  using backed_snoc [of "reason w h" "_ @ [_]"]
  by (auto simp: hoare_def ensure_identity_file_def reason_def Let_def split: list.split option.split sum.split prod.split)

lemma with_password_boot: "hoare (backed (reason w h)) (with_password w alias h) (finished w h) (\<lambda>_. backed (reason w h))"
proof -
  let ?B = "backed (reason w h)"
  let ?q = "AskPassword (h_hostname h) (h_user h) ''bootstrap: deploy public key to authorized_keys''"
  have question: "hoare ?B (ask ?q (\<lambda>l. Inr (bw_password w l)))
      (\<lambda>answer l. ?B l \<and> (\<forall>cred. answer = Inr cred \<longrightarrow> typed w (pc_secret cred) l)) (\<lambda>_. ?B)"
    by (rule hoare_ask) (auto simp: reason_def intro: typedI)
  have answer: "hoare (\<lambda>l. ?B l \<and> (\<forall>cred. answer = Inr cred \<longrightarrow> typed w (pc_secret cred) l))
      (case answer of
         Inr cred \<Rightarrow> install_key w alias h key_path cred
       | Inl Cancelled \<Rightarrow> ret (Inr (BCancelled alias))
       | Inl (CredTimeout secs) \<Rightarrow> ret (Inr (BTimedOut alias secs))
       | Inl (HelperFailed msg) \<Rightarrow> ret (Inl (InvalidArgument msg))
       | Inl (Unsupported msg) \<Rightarrow> ret (Inl (InvalidArgument msg))) (finished w h) (\<lambda>_. ?B)" for answer key_path
  proof (cases answer)
    case (Inl e)
    then show ?thesis by (cases e) (auto intro!: hoare_intros simp: finished_def)
  next
    case (Inr cred)
    then show ?thesis by simp (rule hoare_conseq [OF install_boot], auto)
  qed
  show ?thesis
    unfolding with_password_def by (rule hoare_rbind [OF ensure_boot hoare_rbind [OF question answer]])
qed

lemma bootstrap_boot:
  assumes "resolve_host (sw_env (bw_ssh w)) (sw_ssh_g (bw_ssh w)) (sw_remembered (bw_ssh w)) alias = Inr h"
  shows "hoare (backed (reason w h)) (bootstrap w alias) (finished w h) (\<lambda>_. backed (reason w h))"
proof -
  let ?B = "backed (reason w h)"
  have connect: "hoare ?B (on_ssh (connect_unauthenticated (bw_ssh w) h))
      (\<lambda>c l. ?B l \<and> True \<and> c = Direct h \<and> Verdict c True \<in> set (ssh_part l)) (\<lambda>_. ?B)"
    by (rule hoare_conseq [OF connect_boot [where P = "\<lambda>_. True"]]) auto
  have key: "hoare (\<lambda>l. ?B l \<and> True \<and> c = Direct h \<and> Verdict c True \<in> set (ssh_part l))
      (rcase (on_ssh (authenticate_session (bw_ssh w) c (h_user h) (h_identity_files h)))
        (\<lambda>e. if e = AuthFailed then with_password w alias h else ret (Inl e)) (\<lambda>via. ret (Inr (AlreadyConfigured alias via))))
      (finished w h) (\<lambda>_. ?B)" for c
    by (rule hoare_rcase [OF key_boot [where P = "\<lambda>_. True"]])
      (auto intro!: hoare_intros hoare_conseq [OF with_password_boot] simp: finished_def)
  show ?thesis
    unfolding bootstrap_def assms sum.case by (rule hoare_rbind [OF connect key])
qed

section \<open>Results that leave the host as it was\<close>

definition clean :: "bhist \<Rightarrow> bool" where
  "clean l \<longleftrightarrow> (\<forall>cmd. Ssh (RequestExec cmd) \<notin> set l)"

definition no_exec :: "baction \<Rightarrow> bool" where
  "no_exec a \<longleftrightarrow> (\<forall>cmd. a \<noteq> Ssh (RequestExec cmd))"

definition untouched :: "bootstrap_result \<Rightarrow> bool" where
  "untouched r \<longleftrightarrow> (case r of Bootstrapped _ _ \<Rightarrow> False | BootstrapFailed _ _ \<Rightarrow> False | _ \<Rightarrow> True)"

lemma acts_in_on_ssh:
  assumes "acts_in A m" "\<And>a. A a \<Longrightarrow> B (Ssh a)"
  shows "acts_in B (on_ssh m)"
  unfolding acts_in_def
proof
  fix l
  obtain xs where "fst (on_ssh m l) = l @ map Ssh xs" "list_all A xs"
    using on_ssh_run [OF assms(1)] by (metis prod.collapse)
  then show "\<exists>xs. fst (on_ssh m l) = l @ xs \<and> list_all B xs"
    using assms(2) by (intro exI [of _ "map Ssh xs"]) (auto simp: list_all_iff)
qed

lemma clean_acts:
  assumes "acts_in no_exec m" "clean l" "m l = (l', r)"
  shows "clean l'"
proof -
  obtain ys where "l' = l @ ys" "list_all no_exec ys" by (rule acts_in_appends [OF assms(1,3)])
  then show ?thesis using assms(2) unfolding clean_def no_exec_def list_all_iff by fastforce
qed

lemma hoare_clean: "acts_in no_exec m \<Longrightarrow> hoare clean m (\<lambda>_. clean) (\<lambda>_. clean)"
  by (rule hoareI) (auto intro: clean_acts)

lemma clean': "acts_in no_exec m \<Longrightarrow> hoare clean m (\<lambda>_. clean) (\<lambda>_ _. True)"
  by (rule hoare_conseq [OF hoare_clean]) auto

lemma clean_parts:
  "acts_in no_exec (on_ssh (connect_unauthenticated (bw_ssh w) h))"
  "acts_in no_exec (on_ssh (authenticate_session (bw_ssh w) c u ks))"
  "acts_in no_exec (on_ssh (authenticate_with_password (bw_ssh w) c u p))"
  "acts_in no_exec (ensure_identity_file w h)"
proof -
  show "acts_in no_exec (on_ssh (connect_unauthenticated (bw_ssh w) h))"
    by (rule acts_in_on_ssh [OF acts_in_connect]) (auto simp: connecting_def no_exec_def)
  show "acts_in no_exec (on_ssh (authenticate_session (bw_ssh w) c u ks))"
    by (rule acts_in_on_ssh [where A = "key_attempt c"], rule acts_in_authenticate_session)
      (auto simp: key_attempt_def no_exec_def)
  show "acts_in no_exec (on_ssh (authenticate_with_password (bw_ssh w) c u p))"
    unfolding authenticate_with_password_def
    by (rule acts_in_on_ssh [where A = "password_attempt c u p"], intro acts_intros)
      (auto simp: password_attempt_def no_exec_def)
  show "acts_in no_exec (ensure_identity_file w h)"
    by (auto simp: acts_in_def ensure_identity_file_def no_exec_def Let_def split: list.split option.split sum.split prod.split)
qed

lemma verify_touched: "hoare (\<lambda>_. True) (verify_key w alias h u k) (\<lambda>r _. \<not> untouched r) (\<lambda>_ _. True)"
proof -
  have "hoare (\<lambda>_. True) m (\<lambda>_ _. True) (\<lambda>_ _. True)" for m :: "'x boot"
    by (rule hoareI) simp_all
  note any = this
  show ?thesis
    unfolding verify_key_def
    by (rule hoare_rbind [OF any hoare_rcase [OF any]]) (auto intro!: hoare_intros simp: untouched_def)
qed

lemma install_clean:
  "hoare clean (install_key w alias h k cred) (\<lambda>r l. untouched r \<longrightarrow> clean l) (\<lambda>_ _. True)"
proof -
  have verified: "\<not> untouched r" if "verify_key w alias h u k l = (l', Inr r)" for u l l' r
    using hoare_Inr [OF verify_touched _ that] by blast
  show ?thesis
    unfolding install_key_def Let_def
  proof (rule hoare_rbind [OF clean' [OF clean_parts(1)] hoare_rbind [OF clean' [OF clean_parts(3)]]], rule hoare_if)
    fix ok :: bool
    show "hoare clean (ret (Inr (AuthenticationFailed alias))) (\<lambda>r l. untouched r \<longrightarrow> clean l) (\<lambda>_ _. True)"
      by (intro hoare_intros) simp
    show "hoare clean (rignore (ask (RememberUser (h_hostname h) u) (\<lambda>_. Inr ()))
        (rbind (read_public_key w k) (\<lambda>public_key.
         rbind (on_ssh (deploy_public_key w c public_key)) (\<lambda>_. verify_key w alias h u k))))
        (\<lambda>r l. untouched r \<longrightarrow> clean l) (\<lambda>_ _. True)" for c u
      by (rule hoareI) (auto simp: rignore_def rbind_Inr dest: verified)
  qed
qed

lemma with_password_clean:
  "hoare clean (with_password w alias h) (\<lambda>r l. untouched r \<longrightarrow> clean l) (\<lambda>_ _. True)"
  unfolding with_password_def
proof (rule hoare_rbind [OF clean' [OF clean_parts(4)] hoare_rbind [OF clean']])
  fix answer key_path
  show "hoare clean (case answer of
         Inr cred \<Rightarrow> install_key w alias h key_path cred
       | Inl Cancelled \<Rightarrow> ret (Inr (BCancelled alias))
       | Inl (CredTimeout secs) \<Rightarrow> ret (Inr (BTimedOut alias secs))
       | Inl (HelperFailed msg) \<Rightarrow> ret (Inl (InvalidArgument msg))
       | Inl (Unsupported msg) \<Rightarrow> ret (Inl (InvalidArgument msg))) (\<lambda>r l. untouched r \<longrightarrow> clean l) (\<lambda>_ _. True)"
    by (cases answer) (auto intro!: hoare_intros install_clean split: credential_error.split)
qed (intro acts_intros, simp add: no_exec_def)

lemma bootstrap_clean:
  "hoare clean (bootstrap w alias) (\<lambda>r l. untouched r \<longrightarrow> clean l) (\<lambda>_ _. True)"
proof (cases "resolve_host (sw_env (bw_ssh w)) (sw_ssh_g (bw_ssh w)) (sw_remembered (bw_ssh w)) alias")
  case (Inl e)
  then show ?thesis by (auto simp: bootstrap_def intro!: hoare_intros)
next
  case (Inr h)
  have "hoare clean (rcase (on_ssh (authenticate_session (bw_ssh w) c u ks))
      (\<lambda>e. if e = AuthFailed then with_password w alias h else ret (Inl e)) (\<lambda>via. ret (Inr (AlreadyConfigured alias via))))
      (\<lambda>r l. untouched r \<longrightarrow> clean l) (\<lambda>_ _. True)" for c u ks
    by (rule hoare_rcase [OF hoare_clean [OF clean_parts(2)]]) (auto intro!: hoare_intros with_password_clean)
  then show ?thesis
    unfolding bootstrap_def Inr sum.case by (rule hoare_rbind [OF clean' [OF clean_parts(1)]])
qed

text \<open>
  (C17) Reasons.  Whatever the network, the server, the user and the files do while a host is set up: a credential goes
  only to the host itself, over a connection whose host key was accepted; a password is one the user typed when
  asked; and a command is run on the host only after it accepted the password, and it is the installation of a
  public key.
\<close>

theorem bootstrap_reasons:
  assumes "resolve_host (sw_env (bw_ssh w)) (sw_ssh_g (bw_ssh w)) (sw_remembered (bw_ssh w)) alias = Inr h"
    and "bootstrap w alias [] = (xs @ a # ys, r)"
  shows "reason w h a xs"
proof -
  have "backed (reason w h) (xs @ a # ys)"
    using hoare_Inl [OF bootstrap_boot [OF assms(1)], of "[]"] hoare_Inr [OF bootstrap_boot [OF assms(1)], of "[]"] assms(2)
    by (cases r) (auto simp: finished_def)
  then show ?thesis by (rule backedD)
qed

text \<open>
  Results.  A run that reports the host as already configured, a cancelled or timed-out prompt, or a refused
  password has run no command on it; one that reports an installed key, verified or not, has run the installation.
\<close>

lemma bootstrap_results:
  assumes "bootstrap w alias [] = (l, Inr r)"
  shows "case r of
      Bootstrapped _ _ \<Rightarrow> \<exists>key. Ssh (RequestExec (build_deploy_public_key_cmd w key)) \<in> set l
    | BootstrapFailed _ _ \<Rightarrow> \<exists>key. Ssh (RequestExec (build_deploy_public_key_cmd w key)) \<in> set l
    | _ \<Rightarrow> \<forall>cmd. Ssh (RequestExec cmd) \<notin> set l"
proof -
  have part: "Ssh s \<in> set l" if "s \<in> set (ssh_part l)" for s
    using that by (induction l rule: ssh_part.induct) auto
  obtain h where h: "resolve_host (sw_env (bw_ssh w)) (sw_ssh_g (bw_ssh w)) (sw_remembered (bw_ssh w)) alias = Inr h"
    using assms by (auto simp: bootstrap_def ret_def split: sum.splits)
  have "finished w h r l" using hoare_Inr [OF bootstrap_boot [OF h] _ assms] by simp
  moreover have "untouched r \<longrightarrow> clean l" using hoare_Inr [OF bootstrap_clean _ assms] by (simp add: clean_def)
  ultimately show ?thesis
    using part by (auto simp: finished_def untouched_def clean_def split: bootstrap_result.splits)
qed

section \<open>Words of the shell\<close>

text \<open>
  A word as POSIX sh reads it outside of substitutions: between single quotes everything is literal, outside of them
  a backslash takes the next character; the word ends at a blank.
\<close>

fun sh_word :: "bool \<Rightarrow> string \<Rightarrow> (string \<times> string) option" where
  "sh_word quoted [] = (if quoted then None else Some ([], []))"
| "sh_word quoted (c # cs) =
     (if c = quote then sh_word (\<not> quoted) cs
      else if quoted then map_option (\<lambda>(s, rest). (c # s, rest)) (sh_word True cs)
      else if c = CHR '' '' then Some ([], c # cs)
      else if c = CHR 0x5C then (case cs of [] \<Rightarrow> None | d # ds \<Rightarrow> map_option (\<lambda>(s, rest). (d # s, rest)) (sh_word False ds))
      else map_option (\<lambda>(s, rest). (c # s, rest)) (sh_word False cs))"

lemma sh_word_replaced: "sh_word True (replace_quotes s @ quote # CHR '' '' # rest) = Some (s, CHR '' '' # rest)"
  by (induction s) (simp_all add: quote_def)

text \<open>
  Injection safety.  In the installation command the public key is one word of the shell, literally, whatever
  characters it contains, and so is its base64 form: no part of the key is read as shell syntax.
\<close>

lemma deploy_cmd_words:
  "\<exists>rest. build_deploy_public_key_cmd w key = prepare_cmd @ rest \<and>
     (\<exists>rest'. sh_word False rest = Some (key, append_cmd @ rest') \<and>
        sh_word False rest' = Some (bw_base64 w (str_bytes key), '' | base64 -d >> ~/.ssh/authorized_keys''))"
proof -
  let ?tail = "'' | base64 -d >> ~/.ssh/authorized_keys''"
  let ?rest' = "shell_single_quote (bw_base64 w (str_bytes key)) @ ?tail"
  have word: "sh_word False (shell_single_quote s @ CHR '' '' # t) = Some (s, CHR '' '' # t)" for s t
    by (simp add: shell_single_quote_def sh_word_replaced)
  obtain a where append: "append_cmd = CHR '' '' # a" by (simp add: append_cmd_def)
  have "sh_word False (shell_single_quote key @ append_cmd @ ?rest') = Some (key, append_cmd @ ?rest')"
    using word [of key "a @ ?rest'"] by (simp add: append)
  moreover have "sh_word False ?rest' = Some (bw_base64 w (str_bytes key), ?tail)"
    using word by simp
  ultimately show ?thesis
    unfolding build_deploy_public_key_cmd_def by (intro exI conjI) (rule refl)
qed

text \<open>
  What the command does to the file of authorized keys on a host where its list of commands works as POSIX says: the
  key is appended unless the preparation succeeded and a line of the file contains it.
\<close>

definition deploy_effect :: "bool \<Rightarrow> string \<Rightarrow> string \<Rightarrow> string" where
  "deploy_effect prepared key file_text =
     (if prepared \<and> list_ex (\<lambda>line. sublist key line) (split_on newline file_text) then file_text else file_text @ key)"

text \<open>
  No newline is written: a second key continues the line of the first, and it counts as installed from then on.
\<close>

lemma second_key_is_glued:
  assumes "newline \<notin> set k1" "newline \<notin> set k2" "k1 \<noteq> []" "\<not> sublist k2 k1"
  shows "deploy_effect True k2 (deploy_effect True k1 []) = k1 @ k2 \<and> split_on newline (k1 @ k2) = [k1 @ k2] \<and>
    deploy_effect True k2 (k1 @ k2) = k1 @ k2"
  using assms by (simp add: deploy_effect_def split_on_single)

text \<open>A failing \<open>chmod\<close> runs the part after the bars, though the key is there.\<close>

lemma appended_again_unprepared: "deploy_effect False k (f @ k) = f @ k @ k"
  by (simp add: deploy_effect_def)

text \<open>The public key of \<open>work.key\<close> is looked for in \<open>work.pub\<close>, not in \<open>work.key.pub\<close>.\<close>

lemma dotted_key_name: "with_extension ''/h/.ssh/id_ed25519'' ''pub'' = ''/h/.ssh/id_ed25519.pub''"
  "with_extension ''/h/.ssh/work.key'' ''pub'' = ''/h/.ssh/work.pub''"
  by code_simp+

section \<open>The memory of user names\<close>

text \<open>
  The memory file and the temporary file beside it: the text of each, if it is there and readable.  JSON is an
  argument, as are the outcomes of the file operations: whether the directory could be made, what reached the
  temporary file and whether that was reported as success, and whether the file could be renamed.
\<close>

type_synonym user_memory = "string \<rightharpoonup> string"

record memory_files =
  mf_file :: "string option"
  mf_tmp :: "string option"

record memory_world =
  mw_write :: "user_memory \<Rightarrow> string"
  mw_parse :: "string \<Rightarrow> user_memory option"
  mw_dir :: bool
  mw_written :: "string \<Rightarrow> string option \<times> bool"
  mw_rename :: bool

definition load_from :: "memory_world \<Rightarrow> string option \<Rightarrow> user_memory" where
  "load_from w content =
     (case content of None \<Rightarrow> Map.empty | Some raw \<Rightarrow> (case mw_parse w raw of Some m \<Rightarrow> m | None \<Rightarrow> Map.empty))"

definition lookup_user :: "memory_world \<Rightarrow> memory_files \<Rightarrow> string \<Rightarrow> string option" where
  "lookup_user w fs hostname = load_from w (mf_file fs) hostname"

definition save_to :: "memory_world \<Rightarrow> user_memory \<Rightarrow> memory_files \<Rightarrow> memory_files \<times> bool" where
  "save_to w memory fs =
     (if \<not> mw_dir w then (fs, False)
      else (let (content, ok) = mw_written w (mw_write w memory); fs = fs\<lparr>mf_tmp := content\<rparr>
            in if \<not> ok then (fs, False)
               else if \<not> mw_rename w then (fs, False)
               else (\<lparr>mf_file = content, mf_tmp = None\<rparr>, True)))"

definition remember :: "memory_world \<Rightarrow> string \<Rightarrow> string \<Rightarrow> memory_files \<Rightarrow> memory_files" where
  "remember w hostname user fs = fst (save_to w ((load_from w (mf_file fs))(hostname \<mapsto> user)) fs)"

text \<open>
  Remembering a user either changes the answer for exactly that host, if every file operation succeeded, or no
  answer at all: an interrupted write never damages what was remembered.
\<close>

lemma remember_lookup:
  assumes m_def: "m = (load_from w (mf_file fs))(h \<mapsto> u)"
    and "mw_parse w (mw_write w m) = Some m"
    and "\<And>c. mw_written w (mw_write w m) = (c, True) \<Longrightarrow> c = Some (mw_write w m)"
  shows "lookup_user w (remember w h u fs) =
    (if snd (save_to w m fs) then (lookup_user w fs)(h \<mapsto> u) else lookup_user w fs)"
proof -
  obtain c ok where c: "mw_written w (mw_write w m) = (c, ok)" by fastforce
  have ok: "ok \<Longrightarrow> c = Some (mw_write w m)" using assms(3) c by simp
  have l: "lookup_user w fs' = load_from w (mf_file fs')" for fs' by (rule ext) (simp add: lookup_user_def)
  have r: "remember w h u fs = fst (save_to w m fs)" by (simp add: remember_def m_def)
  show ?thesis
  proof (cases "mw_dir w \<and> ok \<and> mw_rename w")
    case True
    then have "save_to w m fs = (\<lparr>mf_file = Some (mw_write w m), mf_tmp = None\<rparr>, True)"
      using c ok by (simp add: save_to_def Let_def)
    then show ?thesis unfolding l r by (simp add: load_from_def assms(2)) (simp add: m_def load_from_def)
  next
    case False
    then have "mf_file (fst (save_to w m fs)) = mf_file fs \<and> \<not> snd (save_to w m fs)"
      using c by (auto simp: save_to_def Let_def)
    then show ?thesis unfolding l r by simp
  qed
qed

text \<open>
  The next connection.  After a user name was remembered for a host, resolving any alias of that host gives this
  user, whatever the SSH configuration says.
\<close>

lemma remembered_user_wins:
  assumes "mw_dir w" "mw_rename w" "\<And>s. mw_written w s = (Some s, True)"
    and "let m = (load_from w (mf_file fs))(h \<mapsto> u) in mw_parse w (mw_write w m) = Some m"
    and "resolve_host env run (lookup_user w (remember w h u fs)) alias = Inr host" "h_hostname host = h"
  shows "h_user host = u"
proof -
  have "snd (save_to w ((load_from w (mf_file fs))(h \<mapsto> u)) fs)"
    using assms(1-3) by (simp add: save_to_def Let_def)
  then have remembered: "lookup_user w (remember w h u fs) h = Some u"
    using remember_lookup [OF refl, of w fs h u] assms(3,4) by (simp add: Let_def)
  obtain h0 where "host = (case lookup_user w (remember w h u fs) (h_hostname h0) of Some u \<Rightarrow> h0\<lparr>h_user := u\<rparr> | None \<Rightarrow> h0)"
    using assms(5) unfolding resolve_host_def by (auto split: sum.splits ssh_g_outcome.splits if_splits)
  then show ?thesis using remembered assms(6) by (cases "lookup_user w (remember w h u fs) (h_hostname h0)") auto
qed

section \<open>Witnesses\<close>

definition boot_out :: bytes where
  "boot_out = map (\<lambda>c. of_nat (of_char c)) (''hostname w'' @ [newline] @ ''user ops'' @ [newline] @ ''stricthostkeychecking no'')"

definition boot_env :: ssh_env where
  "boot_env = \<lparr>se_windows = False, se_home = Some ''/h'', se_join = (\<lambda>a b. a @ CHR ''/'' # b), se_is_file = (\<lambda>_. True)\<rparr>"

definition boot_host :: host where
  "boot_host = \<lparr>h_name = ''web'', h_hostname = ''w'', h_user = ''ops'', h_port = 22, h_identity_files = [],
     h_proxy_jump = None, h_user_known_hosts_files = [], h_strict_host_key_checking = ''no''\<rparr>"

lemma boot_resolve:
  assumes "remembered ''w'' = Some u \<or> remembered ''w'' = None \<and> u = ''ops''"
  shows "resolve_host boot_env (\<lambda>_. SshExited True boot_out []) remembered ''web'' = Inr (boot_host\<lparr>h_user := u\<rparr>)"
proof -
  have "lines (from_utf8_lossy boot_out) = [''hostname w'', ''user ops'', ''stricthostkeychecking no'']" by code_simp
  moreover have "ssh_line f ''hostname w'' = ssh_put f (''hostname'', ''w'')"
    "ssh_line f ''user ops'' = ssh_put f (''user'', ''ops'')"
    "ssh_line f ''stricthostkeychecking no'' = ssh_put f (''stricthostkeychecking'', ''no'')" for f
  proof -
    have "trim ''hostname w'' = ''hostname w''" "splitn2_ws ''hostname w'' = (''hostname'', Some ''w'')"
      "key_lower ''hostname'' = ''hostname''" "trim ''w'' = ''w''"
      "trim ''user ops'' = ''user ops''" "splitn2_ws ''user ops'' = (''user'', Some ''ops'')"
      "key_lower ''user'' = ''user''" "trim ''ops'' = ''ops''"
      "trim ''stricthostkeychecking no'' = ''stricthostkeychecking no''"
      "splitn2_ws ''stricthostkeychecking no'' = (''stricthostkeychecking'', Some ''no'')"
      "key_lower ''stricthostkeychecking'' = ''stricthostkeychecking''" "trim ''no'' = ''no''" by code_simp+
    then show "ssh_line f ''hostname w'' = ssh_put f (''hostname'', ''w'')"
      "ssh_line f ''user ops'' = ssh_put f (''user'', ''ops'')"
      "ssh_line f ''stricthostkeychecking no'' = ssh_put f (''stricthostkeychecking'', ''no'')"
      by (simp_all add: ssh_line_def Let_def)
  qed
  moreover have "to_ascii_lowercase ''no'' = ''no''" by code_simp
  moreover have "validate_alias ''web'' = Inr ''web''" by code_simp
  ultimately show ?thesis
    using assms by (auto simp: resolve_host_def parse_ssh_g_def boot_host_def)
qed

definition demo_memory :: memory_world where
  "demo_memory = \<lparr>mw_write = (\<lambda>m. case m ''w'' of Some u \<Rightarrow> u | None \<Rightarrow> []), mw_parse = (\<lambda>s. Some [''w'' \<mapsto> s]),
     mw_dir = True, mw_written = (\<lambda>s. (Some s, True)), mw_rename = True\<rparr>"

text \<open>A host without keys: one is made, the user types a password, the key is installed and verified.\<close>

definition boot_ssh :: ssh_world where
  "boot_ssh = \<lparr>sw_env = boot_env, sw_ssh_g = (\<lambda>_. SshExited True boot_out []), sw_remembered = (\<lambda>_. None), sw_limit = (\<lambda>_. None),
     sw_dial = (\<lambda>_ _. Inr ''key''), sw_established = (\<lambda>_. None), sw_known = (\<lambda>_ _ _ _. KhAbsent), sw_learn = (\<lambda>_. None),
     sw_agent = (\<lambda>_. False), sw_identities = (\<lambda>_. Inr []), sw_auth = (\<lambda>_. Inr True), sw_readable = (\<lambda>_ _. True),
     sw_reply = (\<lambda>_. None), sw_messages = (\<lambda>_. [MExitStatus 0])\<rparr>"

definition boot_demo :: boot_world where
  "boot_demo = \<lparr>bw_ssh = boot_ssh, bw_password = (\<lambda>_. Inr \<lparr>pc_user = None, pc_secret = ''pw''\<rparr>),
     bw_env = (\<lambda>_. Some ''/h''), bw_exists = (\<lambda>_ _. False), bw_keygen = (\<lambda>_. Inr (True, [])),
     bw_read = (\<lambda>_. Inr ''ssh-ed25519 AAAA''), bw_base64 = (\<lambda>_. ''c3No'')\<rparr>"

lemma boot_selectors [simp]:
  "sw_limit boot_ssh l = None" "sw_dial boot_ssh l c = Inr ''key''" "sw_established boot_ssh l = None"
  "\<not> sw_agent boot_ssh l" "sw_auth boot_ssh l = Inr True" "sw_readable boot_ssh l p" "sw_reply boot_ssh l = None"
  "sw_messages boot_ssh l = [MExitStatus 0]" "sw_env boot_ssh = boot_env" "sw_ssh_g boot_ssh = (\<lambda>_. SshExited True boot_out [])"
  "sw_remembered boot_ssh = (\<lambda>_. None)"
  "bw_ssh boot_demo = boot_ssh" "bw_password boot_demo b = Inr \<lparr>pc_user = None, pc_secret = ''pw''\<rparr>"
  "bw_env boot_demo v = Some ''/h''" "\<not> bw_exists boot_demo b p" "bw_keygen boot_demo b = Inr (True, [])"
  "bw_read boot_demo b = Inr ''ssh-ed25519 AAAA''" "h_user boot_host = ''ops''" "h_identity_files boot_host = []"
  "h_proxy_jump boot_host = None" "h_hostname boot_host = ''w''" "h_strict_host_key_checking boot_host = ''no''"
  "se_join boot_env x y = x @ CHR ''/'' # y"
  by (simp_all add: boot_ssh_def boot_demo_def boot_host_def boot_env_def)

lemma no_lower [simp]: "to_ascii_lowercase ''no'' = ''no''"
  by code_simp

lemma boot_connect:
  "on_ssh (connect_unauthenticated boot_ssh boot_host) l =
     (l @ [Ssh (Dial (Direct boot_host)), Ssh (Verdict (Direct boot_host) True)], Inr (Direct boot_host))"
  by (simp add: on_ssh_def connect_unauthenticated_def with_timeout_def within_def rbind_def dial_def check_server_key_def ret_def)

lemma boot_no_key: "on_ssh (authenticate_session boot_ssh c u []) l = (l, Inl AuthFailed)"
  by (simp add: on_ssh_def authenticate_session_def authenticate_with_agent_def rbind_def ret_def)

lemma boot_key: "on_ssh (authenticate_session boot_ssh c u [k]) l = (l @ [Ssh (KeyAuth c u k)], Inr ''identity_file'')"
  by (simp add: on_ssh_def authenticate_session_def authenticate_with_agent_def authenticate_with_key_def
      rbind_def rcase_def ask_def act_def ret_def)

lemma boot_login: "on_ssh (authenticate_with_password boot_ssh c u p) l = (l @ [Ssh (PasswordAuth c u p)], Inr True)"
  by (simp add: on_ssh_def authenticate_with_password_def ask_def act_def)

definition boot_cmd :: string where
  "boot_cmd = build_deploy_public_key_cmd boot_demo ''ssh-ed25519 AAAA''"

lemma boot_deploy:
  "on_ssh (deploy_public_key boot_demo c ''ssh-ed25519 AAAA'') l =
     (l @ [Ssh (OpenChannel c), Ssh (RequestExec boot_cmd), Ssh ChannelEof], Inr ())"
  by (simp add: on_ssh_def deploy_public_key_def request_def rbind_def ask_def act_def boot_cmd_def)

definition boot_key_path :: string where "boot_key_path = ''/h/.ssh/id_ed25519''"

definition boot_before :: bhist where
  "boot_before = [Ssh (Dial (Direct boot_host)), Ssh (Verdict (Direct boot_host) True), CreateDir ''/h/.ssh'', KeyGen boot_key_path,
     AskPassword ''w'' ''ops'' ''bootstrap: deploy public key to authorized_keys'', Ssh (Dial (Direct boot_host)),
     Ssh (Verdict (Direct boot_host) True), Ssh (PasswordAuth (Direct boot_host) ''ops'' ''pw''), RememberUser ''w'' ''ops'',
     ReadKey ''/h/.ssh/id_ed25519.pub'', Ssh (OpenChannel (Direct boot_host))]"

definition boot_after :: bhist where
  "boot_after = [Ssh ChannelEof, Ssh (Dial (Direct boot_host)), Ssh (Verdict (Direct boot_host) True),
     Ssh (KeyAuth (Direct boot_host) ''ops'' boot_key_path)]"

lemma boot_run:
  "bootstrap boot_demo ''web'' [] = (boot_before @ Ssh (RequestExec boot_cmd) # boot_after, Inr (Bootstrapped ''web'' ''identity_file''))"
proof -
  have res: "resolve_host boot_env (\<lambda>_. SshExited True boot_out []) (\<lambda>_. None) ''web'' = Inr boot_host"
    using boot_resolve [of "\<lambda>_. None" "''ops''"] by (simp add: boot_host_def)
  have utf8: "utf8_valid (str_bytes ''/h/.ssh/id_ed25519'')" by code_simp
  have ensure: "ensure_identity_file boot_demo boot_host l = (l @ [CreateDir ''/h/.ssh'', KeyGen boot_key_path], Inr boot_key_path)" for l
    using utf8 by (simp add: ensure_identity_file_def home_dir_def boot_key_path_def Let_def)
  have "trim ''ssh-ed25519 AAAA'' = ''ssh-ed25519 AAAA''" by code_simp
  then have read: "read_public_key boot_demo boot_key_path l = (l @ [ReadKey ''/h/.ssh/id_ed25519.pub''], Inr ''ssh-ed25519 AAAA'')" for l
    by (simp add: read_public_key_def ask_def act_def boot_key_path_def dotted_key_name)
  have verify: "verify_key boot_demo a boot_host u k l =
      (l @ [Ssh (Dial (Direct boot_host)), Ssh (Verdict (Direct boot_host) True), Ssh (KeyAuth (Direct boot_host) u k)],
       Inr (Bootstrapped a ''identity_file''))" for a u k l
    by (simp add: verify_key_def rbind_def rcase_def boot_connect boot_key ret_def)
  show ?thesis
    by (simp add: bootstrap_def res rbind_def rcase_def boot_connect boot_no_key with_password_def ensure ask_def act_def
        install_key_def Let_def boot_login rignore_def read boot_deploy verify)
      (simp add: boot_before_def boot_after_def)
qed

theorem bootstrap_reasons_witness: "reason boot_demo boot_host (Ssh (RequestExec boot_cmd)) boot_before"
  by (rule bootstrap_reasons [OF _ boot_run])
    (use boot_resolve [of "\<lambda>_. None" "''ops''"] in \<open>simp add: boot_host_def\<close>)

text \<open>
  The verification accepts any identity of the agent: the installed key need not have been tried.
\<close>

lemma agent_verifies:
  assumes "on_ssh (connect_unauthenticated (bw_ssh w) h) l = (l1, Inr c)"
    and "authenticate_with_agent (bw_ssh w) c user (ssh_part l1) = (s, Inr True)"
  shows "\<exists>l2. verify_key w alias h user key_path l = (l2, Inr (Bootstrapped alias ''ssh-agent''))"
proof -
  have "authenticate_session (bw_ssh w) c user [key_path] (ssh_part l1) = (s, Inr ''ssh-agent'')"
    using assms(2) by (simp add: authenticate_session_def rbind_def ret_def)
  then have "\<exists>l2. on_ssh (authenticate_session (bw_ssh w) c user [key_path]) l1 = (l2, Inr ''ssh-agent'')"
    by (simp add: on_ssh_def)
  then show ?thesis using assms(1) by (auto simp: verify_key_def rbind_def rcase_def ret_def)
qed

end
