(* ===== verification/Hosts.thy ===== *)
theory Hosts
  imports Ssh_Config
begin

text \<open>
  The list of hosts (src/application/hosts.rs): a light scan of the SSH configuration for \<open>Host\<close> lines and the
  \<open>HostName\<close> lines after them.
\<close>

record host_entry =
  he_alias :: string
  he_hostname :: "string option"

definition is_pattern :: "string \<Rightarrow> bool" where
  "is_pattern a \<longleftrightarrow> CHR ''*'' \<in> set a \<or> CHR ''?'' \<in> set a"

text \<open>The first entry of the alias gets the address.\<close>

fun set_hostname :: "string \<Rightarrow> string \<Rightarrow> host_entry list \<Rightarrow> host_entry list" where
  "set_hostname value alias [] = []"
| "set_hostname value alias (e # es) =
     (if he_alias e = alias then e\<lparr>he_hostname := Some value\<rparr> # es else e # set_hostname value alias es)"

text \<open>Key and value of a line, none for an empty line and a comment.\<close>

definition config_line :: "string \<Rightarrow> (string \<times> string) option" where
  "config_line raw =
     (let line = trim raw; (k, v) = splitn2_ws line
      in if line = [] \<or> prefix ''#'' line then None
         else Some (key_lower k, trim (case v of Some x \<Rightarrow> x | None \<Rightarrow> [])))"

definition host_aliases :: "string \<Rightarrow> string list" where
  "host_aliases value = filter (\<lambda>a. \<not> is_pattern a) (split_whitespace value)"

definition host_line :: "host_entry list \<times> string list \<Rightarrow> string \<Rightarrow> host_entry list \<times> string list" where
  "host_line st raw =
     (case config_line raw of
        None \<Rightarrow> st
      | Some (key, value) \<Rightarrow>
          if key = ''host'' then
            (fst st @ map (\<lambda>a. \<lparr>he_alias = a, he_hostname = None\<rparr>) (host_aliases value), host_aliases value)
          else if key = ''hostname'' \<and> snd st \<noteq> [] \<and> value \<noteq> [] then
            (foldl (\<lambda>es a. set_hostname value a es) (fst st) (snd st), snd st)
          else st)"

definition parse_host_entries :: "string \<Rightarrow> host_entry list" where
  "parse_host_entries content = fst (foldl host_line ([], []) (lines content))"

text \<open>An unreadable configuration lists nothing.\<close>

definition list_hosts :: "string option \<Rightarrow> host_entry list" where
  "list_hosts content = (case content of None \<Rightarrow> [] | Some c \<Rightarrow> parse_host_entries c)"

definition default_ssh_config_path :: "(string \<Rightarrow> string option) \<Rightarrow> (string \<Rightarrow> string \<Rightarrow> string) \<Rightarrow> string" where
  "default_ssh_config_path env join =
     (let home = (case env ''HOME'' of Some h \<Rightarrow> h | None \<Rightarrow> (case env ''USERPROFILE'' of Some h \<Rightarrow> h | None \<Rightarrow> []))
      in join (join home ''.ssh'') ''config'')"

section \<open>What is listed\<close>

lemma set_hostname_aliases [simp]: "map he_alias (set_hostname v a es) = map he_alias es"
  by (induction es) auto

lemma fold_hostname_aliases [simp]: "map he_alias (foldl (\<lambda>es a. set_hostname v a es) es as) = map he_alias es"
  by (induction as arbitrary: es) auto

definition line_aliases :: "string \<Rightarrow> string list" where
  "line_aliases raw = (case config_line raw of Some (key, value) \<Rightarrow> if key = ''host'' then host_aliases value else [] | None \<Rightarrow> [])"

lemma host_line_aliases: "map he_alias (fst (host_line st raw)) = map he_alias (fst st) @ line_aliases raw"
  by (auto simp: host_line_def line_aliases_def comp_def split: option.split)

lemma host_lines_aliases: "map he_alias (fst (foldl host_line st ls)) = map he_alias (fst st) @ concat (map line_aliases ls)"
  by (induction ls arbitrary: st) (simp_all add: host_line_aliases)

text \<open>
  Every host once per mention.  The list names, in the order of the configuration, exactly the words of its
  \<open>Host\<close> lines that contain no wildcard, and addresses are given to listed hosts only.
\<close>

lemma hosts_listed:
  "map he_alias (parse_host_entries content) = concat (map line_aliases (lines content)) \<and>
   list_all (\<lambda>e. \<not> is_pattern (he_alias e)) (parse_host_entries content)"
proof -
  have eq: "map he_alias (parse_host_entries content) = concat (map line_aliases (lines content))"
    by (simp add: parse_host_entries_def host_lines_aliases)
  have "\<not> is_pattern a" if "a \<in> set (line_aliases raw)" for a raw
    using that by (auto simp: line_aliases_def host_aliases_def split: option.splits if_splits)
  then have "list_all (\<lambda>a. \<not> is_pattern a) (map he_alias (parse_host_entries content))"
    unfolding eq by (auto simp: list_all_iff)
  then have "list_all (\<lambda>e. \<not> is_pattern (he_alias e)) (parse_host_entries content)"
    by (simp only: list.pred_map comp_def)
  with eq show ?thesis by simp
qed

text \<open>
  The address of a \<open>Match\<close> block goes to the host before it, a repeated alias moves the address of the first
  block, and a negated pattern is listed as a host.
\<close>

lemma match_block_hostname:
  "parse_host_entries (concat (map (\<lambda>l. l @ [newline]) [''Host a'', ''HostName x'', ''Match user root'', ''HostName y''])) =
     [\<lparr>he_alias = ''a'', he_hostname = Some ''y''\<rparr>]"
  by code_simp

lemma repeated_host:
  "parse_host_entries (concat (map (\<lambda>l. l @ [newline]) [''Host a'', ''HostName x'', ''Host a'', ''HostName y''])) =
     [\<lparr>he_alias = ''a'', he_hostname = Some ''y''\<rparr>, \<lparr>he_alias = ''a'', he_hostname = None\<rparr>]"
  by code_simp

lemma negated_pattern_listed:
  "map he_alias (parse_host_entries ''Host *.lan !gw.lan'') = [''!gw.lan'']"
  by code_simp

end
