(* ===== verification/Update_Check.thy ===== *)
theory Update_Check
  imports Decimal
begin

text \<open>
  The check for updates at start (src/infrastructure/update_check.rs): comparison of versions, the notice, and the
  limit of one request to the network per day.  The clock, the environment and the network are arguments.
\<close>

record update_cache =
  uc_version :: string
  uc_checked_at_unix :: nat

definition THROTTLE_SECS :: nat where "THROTTLE_SECS = 24 * 60 * 60"

definition parse_u64 :: "string \<Rightarrow> nat option" where
  "parse_u64 s = parse_unsigned (2 ^ 64 - 1) s"

definition parse_version :: "string \<Rightarrow> (nat \<times> nat \<times> nat) option" where
  "parse_version s0 =
     (let s = (case strip_prefix ''v'' s0 of Some r \<Rightarrow> r | None \<Rightarrow> s0)
      in case split_on CHR ''.'' s of
           a # b # c # _ \<Rightarrow>
             (case (parse_u64 a, parse_u64 b, parse_u64 c) of
                (Some x, Some y, Some z) \<Rightarrow> Some (x, y, z)
              | _ \<Rightarrow> None)
         | _ \<Rightarrow> None)"

fun newer :: "nat \<times> nat \<times> nat \<Rightarrow> nat \<times> nat \<times> nat \<Rightarrow> bool" where
  "newer (a, b, c) (x, y, z) \<longleftrightarrow> x < a \<or> x = a \<and> (y < b \<or> y = b \<and> z < c)"

definition is_newer :: "string \<Rightarrow> string \<Rightarrow> bool" where
  "is_newer a b = (case (parse_version a, parse_version b) of (Some x, Some y) \<Rightarrow> newer x y | _ \<Rightarrow> False)"

text \<open>The notice, the cache that is written, and whether a request to the network is started.\<close>

record check_result =
  cr_notice :: "string option"
  cr_cache :: "update_cache option"
  cr_fetch :: bool

definition stale :: "nat \<Rightarrow> update_cache option \<Rightarrow> bool" where
  "stale now cache = (case cache of None \<Rightarrow> True | Some c \<Rightarrow> THROTTLE_SECS \<le> now - uc_checked_at_unix c)"

text \<open>
  \<open>check_for_updates\<close>: the variable that switches it off, whether there is a cache directory, the cache that could be
  read; \<open>written now v c\<close> is the cache after a write of version \<open>v\<close> over \<open>c\<close>, which may fail.
\<close>

definition check_for_updates ::
  "string \<Rightarrow> string option \<Rightarrow> bool \<Rightarrow> (nat \<Rightarrow> string \<Rightarrow> update_cache option \<Rightarrow> update_cache option) \<Rightarrow> nat \<Rightarrow> update_cache option \<Rightarrow> check_result" where
  "check_for_updates current env has_dir written now cache =
     (if (case env of Some v \<Rightarrow> v \<noteq> [] | None \<Rightarrow> False) \<or> \<not> has_dir
      then \<lparr>cr_notice = None, cr_cache = cache, cr_fetch = False\<rparr>
      else
        (let notice = (case cache of Some c \<Rightarrow> if is_newer (uc_version c) current then Some (uc_version c) else None | None \<Rightarrow> None)
         in if \<not> stale now cache then \<lparr>cr_notice = notice, cr_cache = cache, cr_fetch = False\<rparr>
            else \<lparr>cr_notice = notice,
                  cr_cache = written now (case cache of Some c \<Rightarrow> uc_version c | None \<Rightarrow> current) cache, cr_fetch = True\<rparr>))"

text \<open>A write that succeeds.\<close>

definition write_cache :: "nat \<Rightarrow> string \<Rightarrow> update_cache option \<Rightarrow> update_cache option" where
  "write_cache now version cache = Some \<lparr>uc_version = version, uc_checked_at_unix = now\<rparr>"

text \<open>The answer of the release service: leading letters \<open>v\<close> are dropped.\<close>

definition fetched_version :: "string + string option \<Rightarrow> string option" where
  "fetched_version answer = (case answer of Inl _ \<Rightarrow> None | Inr None \<Rightarrow> None | Inr (Some tag) \<Rightarrow> Some (dropWhile (\<lambda>c. c = CHR ''v'') tag))"

text \<open>The background thread.\<close>

definition refresh :: "nat \<Rightarrow> string + string option \<Rightarrow> update_cache option \<Rightarrow> update_cache option" where
  "refresh now answer cache = (case fetched_version answer of Some v \<Rightarrow> write_cache now v cache | None \<Rightarrow> cache)"

section \<open>Versions\<close>

lemma newer_irrefl: "\<not> newer v v"
  by (cases v) simp

lemma newer_trans: "newer u v \<Longrightarrow> newer v w \<Longrightarrow> newer u w"
  by (cases u; cases v; cases w) auto

lemma newer_total: "newer u v \<or> u = v \<or> newer v u"
  by (cases u; cases v) auto

definition show_version :: "nat \<times> nat \<times> nat \<Rightarrow> string" where
  "show_version v = (case v of (a, b, c) \<Rightarrow> dec a @ ''.'' @ dec b @ ''.'' @ dec c)"

lemma dec_no_dot: "CHR ''.'' \<notin> set (dec n)"
  using dec_digits(1)[of n] by (auto simp: list_all_iff is_digit_def)

lemma dec_no_v: "strip_prefix ''v'' (dec n @ s) = None"
proof -
  have "hd (dec n) \<in> set (dec n)" "dec n \<noteq> []" by simp_all
  then have "is_digit (hd (dec n))" using dec_digits(1)[of n] by (simp add: list_all_iff)
  then have "hd (dec n) \<noteq> CHR ''v''" by (auto simp: is_digit_def)
  then show ?thesis by (cases "dec n") (auto simp: strip_prefix_def)
qed

text \<open>
  Versions are read and compared as numbers.  A version of three numbers below \<open>2^64\<close>, with or without the
  leading letter, reads back, and one version is newer than another exactly in the order of the triples: never than
  itself, and of two different ones exactly one is newer.
\<close>

lemma version_order:
  assumes "a < 2 ^ 64" "b < 2 ^ 64" "c < 2 ^ 64" "x < 2 ^ 64" "y < 2 ^ 64" "z < 2 ^ 64"
  shows "parse_version (show_version (a, b, c)) = Some (a, b, c) \<and> parse_version (CHR ''v'' # show_version (a, b, c)) = Some (a, b, c) \<and>
    (is_newer (show_version (a, b, c)) (show_version (x, y, z)) \<longleftrightarrow> newer (a, b, c) (x, y, z)) \<and>
    (newer (a, b, c) (x, y, z) \<longleftrightarrow> \<not> newer (x, y, z) (a, b, c) \<and> (a, b, c) \<noteq> (x, y, z))"
proof -
  have split: "split_on CHR ''.'' (show_version (a, b, c)) = [dec a, dec b, dec c]" for a b c
    by (simp add: show_version_def split_on_append split_on_single dec_no_dot)
  have num: "n < 2 ^ 64 \<Longrightarrow> parse_u64 (dec n) = Some n" for n
    by (simp add: parse_u64_def parse_unsigned_dec)
  have read: "parse_version (show_version (a, b, c)) = Some (a, b, c)"
    "parse_version (CHR ''v'' # show_version (a, b, c)) = Some (a, b, c)"
    if "a < 2 ^ 64" "b < 2 ^ 64" "c < 2 ^ 64" for a b c
  proof -
    have "strip_prefix ''v'' (show_version (a, b, c)) = None" by (simp add: show_version_def dec_no_v)
    then show "parse_version (show_version (a, b, c)) = Some (a, b, c)"
      using that by (simp add: parse_version_def split num)
    have "strip_prefix ''v'' (CHR ''v'' # show_version (a, b, c)) = Some (show_version (a, b, c))" by (simp add: strip_prefix_def)
    then show "parse_version (CHR ''v'' # show_version (a, b, c)) = Some (a, b, c)"
      using that by (simp add: parse_version_def split num)
  qed
  have order: "newer u v \<longleftrightarrow> \<not> newer v u \<and> u \<noteq> v" for u v
    using newer_irrefl newer_trans newer_total by blast
  show ?thesis
    using assms order[of "(a, b, c)" "(x, y, z)"] by (simp add: read is_newer_def)
qed

text \<open>
  One request a day.  Whatever the network answered in between, a start within a day after one that asked the
  network asks it no second time, if the caches of that start could be written and the clock did not go back.
\<close>

lemma one_request_a_day:
  assumes "cr_fetch (check_for_updates current env has_dir write_cache t cache)" "t \<le> u" "u \<le> t'" "t' < t + THROTTLE_SECS"
  shows "\<not> cr_fetch (check_for_updates current' env' has_dir' write_cache t'
    (refresh u answer (cr_cache (check_for_updates current env has_dir write_cache t cache))))"
proof -
  have "\<exists>v. cr_cache (check_for_updates current env has_dir write_cache t cache) = Some \<lparr>uc_version = v, uc_checked_at_unix = t\<rparr>"
    using assms(1) by (simp add: check_for_updates_def write_cache_def Let_def split: if_splits)
  then obtain v where v: "cr_cache (check_for_updates current env has_dir write_cache t cache) = Some \<lparr>uc_version = v, uc_checked_at_unix = t\<rparr>" ..
  have "\<not> stale t' (refresh u answer (Some \<lparr>uc_version = v, uc_checked_at_unix = t\<rparr>))"
    using assms(2-4) by (auto simp: stale_def refresh_def write_cache_def split: option.splits)
  then show ?thesis unfolding v by (simp add: check_for_updates_def Let_def)
qed

end
