(* ===== verification/Redact.thy ===== *)
theory Redact
  imports Text
begin

text \<open>
  Redaction of the log (src/infrastructure/redact.rs): five replacements in order, and a writer that collects whole
  lines before it redacts them.  The regular expressions are an argument.
\<close>

record patterns =
  pat_pem :: "string \<Rightarrow> string"
  pat_credential :: "string \<Rightarrow> string"
  pat_authorization :: "string \<Rightarrow> string"
  pat_url :: "string \<Rightarrow> string"
  pat_cli :: "string \<Rightarrow> string"

definition redact :: "patterns \<Rightarrow> string \<Rightarrow> string" where
  "redact p s = pat_cli p (pat_url p (pat_authorization p (pat_credential p (pat_pem p s))))"

text \<open>The line buffer, and what was given to the sink; \<open>None\<close> stands for a write of the sink that failed.\<close>

record writer =
  rw_buf :: bytes
  rw_sink :: "string list"
  rw_seen :: "bytes list"

definition writer_new :: writer where
  "writer_new = \<lparr>rw_buf = [], rw_sink = [], rw_seen = []\<rparr>"

text \<open>The bytes up to the last newline, and the rest.\<close>

definition split_last_line :: "bytes \<Rightarrow> (bytes \<times> bytes) option" where
  "split_last_line b =
     (if 0x0A \<in> set b
      then Some (rev (dropWhile (\<lambda>c. c \<noteq> 0x0A) (rev b)), rev (takeWhile (\<lambda>c. c \<noteq> 0x0A) (rev b))) else None)"

definition emit :: "patterns \<Rightarrow> bytes \<Rightarrow> writer \<Rightarrow> writer" where
  "emit p b w = w\<lparr>rw_sink := rw_sink w @ [redact p (from_utf8_lossy b)], rw_seen := rw_seen w @ [b]\<rparr>"

text \<open>\<open>ok\<close> says whether the sink takes the text; the buffer is emptied in any case.\<close>

definition rw_write :: "patterns \<Rightarrow> bool \<Rightarrow> bytes \<Rightarrow> writer \<Rightarrow> writer \<times> (unit + nat)" where
  "rw_write p ok bs w =
     (let buf = rw_buf w @ bs
      in case split_last_line buf of
           None \<Rightarrow> (w\<lparr>rw_buf := buf\<rparr>, Inr (length bs))
         | Some (whole, rest) \<Rightarrow>
             (let w = w\<lparr>rw_buf := rest\<rparr> in if ok then (emit p whole w, Inr (length bs)) else (w, Inl ())))"

definition rw_flush :: "patterns \<Rightarrow> bool \<Rightarrow> writer \<Rightarrow> writer \<times> (unit + unit)" where
  "rw_flush p ok w =
     (if rw_buf w = [] then (w, Inr ())
      else if ok then ((emit p (rw_buf w) w)\<lparr>rw_buf := []\<rparr>, Inr ()) else (w, Inl ()))"

section \<open>No line is cut\<close>

lemma split_last_line:
  assumes "split_last_line b = Some (whole, rest)"
  shows "b = whole @ rest \<and> whole \<noteq> [] \<and> last whole = 0x0A \<and> 0x0A \<notin> set rest"
proof -
  have nl: "0x0A \<in> set (rev b)" and w: "whole = rev (dropWhile (\<lambda>c. c \<noteq> 0x0A) (rev b))"
    and r: "rest = rev (takeWhile (\<lambda>c. c \<noteq> 0x0A) (rev b))"
    using assms by (auto simp: split_last_line_def split: if_splits)
  have d: "dropWhile (\<lambda>c. c \<noteq> 0x0A) (rev b) \<noteq> []" using nl by (simp add: dropWhile_eq_Nil_conv)
  have "rev b = takeWhile (\<lambda>c. c \<noteq> 0x0A) (rev b) @ dropWhile (\<lambda>c. c \<noteq> 0x0A) (rev b)" by simp
  then have "b = whole @ rest" unfolding w r by (metis rev_append rev_rev_ident)
  moreover have "last whole = 0x0A" using hd_dropWhile[OF d] d by (simp add: w last_rev)
  ultimately show ?thesis using d by (auto simp: w r dest: set_takeWhileD)
qed

text \<open>What went to the redaction are whole lines, and with the buffer they are the log so far.\<close>

definition whole_lines :: "bytes \<Rightarrow> writer \<Rightarrow> bool" where
  "whole_lines log w \<longleftrightarrow> concat (rw_seen w) @ rw_buf w = log \<and> 0x0A \<notin> set (rw_buf w) \<and>
     list_all (\<lambda>b. b \<noteq> [] \<and> last b = 0x0A) (rw_seen w)"

lemma write_whole_lines:
  assumes "whole_lines log w"
  shows "whole_lines (log @ bs) (fst (rw_write p True bs w))"
proof (cases "split_last_line (rw_buf w @ bs)")
  case None
  then show ?thesis using assms by (auto simp: rw_write_def whole_lines_def split_last_line_def split: if_splits)
next
  case (Some q)
  obtain whole rest where q: "q = (whole, rest)" by fastforce
  note s = split_last_line[OF Some[unfolded q]]
  have "concat (rw_seen w) @ rw_buf w @ bs = log @ bs" using assms by (auto simp: whole_lines_def)
  with s have "concat (rw_seen w) @ whole @ rest = log @ bs" by simp
  moreover have "fst (rw_write p True bs w) = emit p whole (w\<lparr>rw_buf := rest\<rparr>)"
    unfolding rw_write_def Let_def Some q by simp
  ultimately show ?thesis using s assms by (simp add: whole_lines_def emit_def)
qed

definition writes :: "patterns \<Rightarrow> bytes list \<Rightarrow> writer \<Rightarrow> writer" where
  "writes p bss w = foldl (\<lambda>w bs. fst (rw_write p True bs w)) w bss"

lemma writes_whole_lines: "whole_lines log w \<Longrightarrow> whole_lines (log @ concat bss) (writes p bss w)"
proof (induction bss arbitrary: log w)
  case (Cons b bss)
  from Cons.IH[OF write_whole_lines[OF Cons.prems]] show ?case by (simp add: writes_def)
qed (simp add: writes_def)

text \<open>
  The log in whole lines.  However a log is cut into writes, what reaches the redaction until the last flush,
  joined, is the log, nothing twice and nothing lost; every piece but the last ends with a line, so that no line is
  redacted in parts; and the sink gets the redaction of each piece, in order.
\<close>

lemma log_redacted_by_lines:
  "let w = fst (rw_flush p True (writes p bss writer_new))
   in concat (rw_seen w) = concat bss \<and> list_all (\<lambda>b. b \<noteq> [] \<and> last b = 0x0A) (butlast (rw_seen w)) \<and>
      rw_sink w = map (redact p \<circ> from_utf8_lossy) (rw_seen w)"
proof -
  have sink: "rw_sink (writes p bss w) = map (redact p \<circ> from_utf8_lossy) (rw_seen (writes p bss w))"
    if "rw_sink w = map (redact p \<circ> from_utf8_lossy) (rw_seen w)" for w
    using that
  proof (induction bss arbitrary: w)
    case (Cons b bss)
    have "rw_sink (fst (rw_write p True b w)) = map (redact p \<circ> from_utf8_lossy) (rw_seen (fst (rw_write p True b w)))"
      using Cons.prems by (auto simp: rw_write_def emit_def Let_def split: option.split)
    from Cons.IH[OF this] show ?case by (simp add: writes_def)
  qed (simp add: writes_def)
  have start: "whole_lines [] writer_new" by (simp add: whole_lines_def writer_new_def)
  define v where "v = writes p bss writer_new"
  have v: "whole_lines (concat bss) v" "rw_sink v = map (redact p \<circ> from_utf8_lossy) (rw_seen v)"
    using writes_whole_lines[OF start, of bss p] sink[of writer_new] by (simp_all add: v_def writer_new_def)
  show ?thesis
  proof (cases "rw_buf v = []")
    case True
    have "list_all P (butlast xs)" if "list_all P xs" for P and xs :: "bytes list"
      using that by (auto simp: list_all_iff dest: in_set_butlastD)
    with True v show ?thesis unfolding v_def[symmetric] Let_def by (simp add: rw_flush_def whole_lines_def)
  next
    case False
    with v show ?thesis unfolding v_def[symmetric] Let_def by (simp add: rw_flush_def whole_lines_def emit_def)
  qed
qed

text \<open>A piece the sink refuses is lost: the buffer is emptied before the write.\<close>

lemma refused_piece_is_lost:
  "rw_write p False [0x61, 0x0A] writer_new = (writer_new, Inl ())"
  by (simp add: rw_write_def writer_new_def split_last_line_def)

end
