(* ===== verification/Mcp_Server.thy ===== *)
theory Mcp_Server
  imports Control_Server Sftp_Run Env_Probe Bootstrap Hosts Remote_Runtime
begin

text \<open>
  The MCP tools (src/transport/mcp/server.rs) and the operations of the session manager that only
  forward to the provider.  A tool call takes the manager's state to the state after it, with the SFTP
  calls it made and its structured result; \<open>None\<close> is a panic or a call that never returns.  The
  rmcp crate, which parses the parameters and sends the result, is left out.
\<close>

section \<open>Errors\<close>

definition quoted :: "string \<Rightarrow> string" where
  "quoted s = quote # s @ [quote]"

text \<open>\<open>format!("{:?}", id)\<close> for an optional string; of the characters that are escaped, the
  printable ones and the usual control characters.\<close>

definition debug_char :: "char \<Rightarrow> string" where
  "debug_char c =
     (let b = CHR 0x5C
      in if c = CHR 0x22 \<or> c = b then [b, c]
         else if c = newline then [b, CHR ''n'']
         else if c = cr then [b, CHR ''r'']
         else if c = CHR 0x09 then [b, CHR ''t'']
         else if c = CHR 0x00 then [b, CHR ''0''] else [c])"

definition debug_option :: "string option \<Rightarrow> string" where
  "debug_option so =
     (case so of None \<Rightarrow> ''None''
      | Some s \<Rightarrow> ''Some('' @ [CHR 0x22] @ concat (map debug_char s) @ [CHR 0x22] @ '')'')"

fun display_error :: "term_error \<Rightarrow> string" where
  "display_error AuthFailed = ''SSH authentication failed''"
| "display_error (ConnectFailed m) = ''SSH connection failed: '' @ m"
| "display_error (SessionNotFound m) = ''session not found: '' @ m"
| "display_error (SessionClosed m) = ''session already closed: '' @ m"
| "display_error (OperationTimeout op sid) =
     ''operation timeout: '' @ op @ '' (session: '' @ debug_option sid @ '')''"
| "display_error (HostKeyRejected m) = ''host key rejected: '' @ m"
| "display_error (ChannelError m) = ''SSH channel error: '' @ m"
| "display_error (InvalidArgument m) = ''invalid argument: '' @ m"
| "display_error (SftpError m) = ''SFTP error: '' @ m"
| "display_error (SftpNoSuchFile m) = ''SFTP no such file: '' @ m"
| "display_error (SftpPermissionDenied m) = ''SFTP permission denied: '' @ m"
| "display_error (LocalPathNotAllowed m) = ''local path not allowed: '' @ m"
| "display_error (RemotePathNotAllowed m) = ''remote path not allowed: '' @ m"
| "display_error (PolicyDenied m) = ''policy denied: '' @ m"
| "display_error (PolicyNeedsConfirm m) = ''policy needs confirm: '' @ m"
| "display_error (SessionDetached m) = ''session detached: '' @ m"
| "display_error (DaemonProtocolMismatch client daemon) =
     ''daemon protocol mismatch: client='' @ dec (unat client) @ '', daemon='' @ dec (unat daemon)"
| "display_error (RuntimeMissing m) = ''remote runtime missing: '' @ m"
| "display_error (RuntimeDeployFailed m) = ''remote runtime deploy failed: '' @ m"
| "display_error (Io m) = m"

record tool_error =
  te_code :: string
  te_message :: string
  te_retriable :: bool

definition from_term :: "term_error \<Rightarrow> tool_error" where
  "from_term e = \<lparr>te_code = err_code e, te_message = display_error e, te_retriable = retriable e\<rparr>"

definition invalid_argument :: "string \<Rightarrow> tool_error" where
  "invalid_argument m = \<lparr>te_code = ''INVALID_ARGUMENT'', te_message = m, te_retriable = False\<rparr>"

section \<open>Octal modes\<close>

definition is_octal :: "char \<Rightarrow> bool" where
  "is_octal c \<longleftrightarrow> 48 \<le> code c \<and> code c \<le> 55"

definition unoct :: "string \<Rightarrow> nat" where
  "unoct s = foldl (\<lambda>n c. 8 * n + (of_char c - 48)) 0 s"

text \<open>\<open>u32::from_str_radix(s, 8).ok()\<close>: an optional plus sign and at least one digit.\<close>

definition from_str_radix_8 :: "string \<Rightarrow> u32 option" where
  "from_str_radix_8 s =
     (let ds = (case s of c # r \<Rightarrow> if c = CHR ''+'' \<and> r \<noteq> [] then r else s | [] \<Rightarrow> s)
      in if ds \<noteq> [] \<and> list_all is_octal ds \<and> unoct ds < 2 ^ 32 then Some (of_nat (unoct ds)) else None)"

definition octal_digits :: "string \<Rightarrow> string" where
  "octal_digits raw =
     (case strip_prefix ''0o'' raw of
        Some r \<Rightarrow> r
      | None \<Rightarrow> (case strip_prefix ''0O'' raw of Some r \<Rightarrow> r | None \<Rightarrow> raw))"

definition parse_octal_mode :: "string option \<Rightarrow> string + u32" where
  "parse_octal_mode mode =
     (case mode of
        None \<Rightarrow> Inr 0
      | Some s \<Rightarrow>
          if s = [] then Inr 0
          else
            (let raw = trim s
             in case from_str_radix_8 (octal_digits raw) of
                  Some m \<Rightarrow> Inr m
                | None \<Rightarrow> Inl (''invalid octal mode '' @ quoted raw @ ''; expected e.g. '' @
                             quoted ''755'' @ '' or '' @ quoted ''0o755'')))"

definition zero_mode_message :: string where
  "zero_mode_message = ''sftp_chmod requires an explicit non-zero octal mode (e.g. \"644\"); mode \"0\" is rejected to avoid an accidental chmod 0000 (which would lock the file). Note: unlike sftp_mkdir, \"0\" here does NOT mean server default.''"

definition validate_chmod_mode :: "u32 \<Rightarrow> string + unit" where
  "validate_chmod_mode mode = (if mode = 0 then Inl zero_mode_message else Inr ())"

section \<open>Parameters\<close>

record open_session_params =
  os_host :: string
  os_rows :: "u16 option"
  os_cols :: "u16 option"
  os_persistent :: "bool option"
  os_name :: "string option"

record send_input_params =
  sp_session_id :: string
  sp_data :: string

record read_output_schema =
  ro_session_id :: string
  ro_params :: read_output_params

record send_control_params =
  sk_session_id :: string
  sk_control_key :: string

record resize_tool_params =
  rz_session_id :: string
  rz_cols :: u16
  rz_rows :: u16

record transfer_params =
  tp_session_id :: string
  tp_direction :: string
  tp_local_path :: string
  tp_remote_path :: string

record mkdir_params =
  mp_session_id :: string
  mp_remote_path :: string
  mp_mode :: "string option"

record list_params =
  lp_session_id :: string
  lp_remote_path :: string

record remove_params =
  rp_session_id :: string
  rp_remote_path :: string
  rp_recursive :: "bool option"

record chmod_params =
  cp_session_id :: string
  cp_remote_path :: string
  cp_mode :: string

record attach_params =
  ap_host :: string
  ap_remote_session_id :: string
  ap_name :: "string option"

record timeline_params =
  gp_session_id :: string
  gp_limit :: "nat option"

text \<open>The parameters of the other tools are the host or the session alone.\<close>

datatype tool_call =
    ListHosts
  | OpenSession open_session_params
  | SendInputTool send_input_params
  | ReadOutput read_output_schema
  | SendControl send_control_params
  | ResizeTool resize_tool_params
  | CloseSession string
  | TransferTool transfer_params
  | MkdirTool mkdir_params
  | ListTool list_params
  | RemoveTool remove_params
  | ChmodTool chmod_params
  | ListRemoteSessions string
  | AttachRemoteSession attach_params
  | DetachSession string
  | GetSessionTimeline timeline_params
  | TransferDirTool transfer_params
  | DetectRemoteEnv string
  | BootstrapHost string
  | ReconnectSession string
  | RestartRemoteDaemon string

section \<open>Results\<close>

record read_output_dto =
  rd_output :: string
  rd_cursor :: nat
  rd_has_more :: bool
  rd_is_truncated :: bool
  rd_matched :: bool
  rd_timed_out :: bool
  rd_mode :: string
  rd_session_state :: string

record transfer_result =
  ts_direction :: string
  ts_local_path :: string
  ts_remote_path :: string

record remote_entry_dto =
  ed_name :: string
  ed_is_dir :: bool
  ed_is_file :: bool
  ed_size :: u64
  ed_permissions :: "u32 option"

record transfer_dir_result =
  td_direction :: string
  td_local_path :: string
  td_remote_path :: string
  td_files_transferred :: nat
  td_skipped :: "(string \<times> string) list"

datatype tool_result =
    RHosts "(string \<times> string option) list"
  | RSessionId string
  | ROk
  | RRead read_output_dto
  | RResized u16 u16
  | RTransferred transfer_result
  | RSftpOk string
  | RListed string "remote_entry_dto list"
  | RRemoteSessions "string list"
  | RTimeline "timeline_event list"
  | RDirTransferred transfer_dir_result
  | REnv remote_env_info
  | RBootstrap bootstrap_result
  | RReconnect reconnect_result
  | RRestart restart_report
  | RError tool_error

definition err_result :: "term_error \<Rightarrow> tool_result" where
  "err_result e = RError (from_term e)"

definition result_of :: "('a \<Rightarrow> tool_result) \<Rightarrow> 'a result \<Rightarrow> tool_result" where
  "result_of ok r = (case r of Inr x \<Rightarrow> ok x | Inl e \<Rightarrow> err_result e)"

text \<open>
  What the world answers during a call: the SSH configuration, the clock (seconds and milliseconds),
  the terminal's write, the provider's opens and whether it is the persistent one, the remote daemon, the
  regular expressions and output of a read, the SFTP server with what it returns besides success, the
  output of a command, and the world of a bootstrap.
\<close>

record tool_world =
  tw_ssh_config :: "string option"
  tw_open :: open_world
  tw_io :: "unit result"
  tw_persistent :: bool
  tw_server :: "host \<Rightarrow> rserver"
  tw_local_agentd :: "string option"
  tw_regex :: regex_crate
  tw_ticks :: "Output_Engine.tick list"
  tw_sftp :: sftp_world
  tw_entries :: "string \<Rightarrow> remote_entry list"
  tw_report :: "sftp_call \<Rightarrow> dir_report"
  tw_exec :: "string \<Rightarrow> string result"
  tw_boot :: boot_world

section \<open>Operations of the session manager that forward to the provider\<close>

definition with_persistent :: "tool_world \<Rightarrow> string \<Rightarrow> string \<Rightarrow> (host \<Rightarrow> 'a result) \<Rightarrow> 'a result" where
  "with_persistent w operation host_alias k =
     (case ow_resolve (tw_open w) host_alias of
        Inl e \<Rightarrow> Inl e
      | Inr h \<Rightarrow> if \<not> tw_persistent w then Inl (InvalidArgument (operation @ '' requires persistent provider''))
               else k h)"

definition smgr_list_remote_sessions :: "tool_world \<Rightarrow> string \<Rightarrow> string list result" where
  "smgr_list_remote_sessions w host_alias =
     with_persistent w ''list_remote_sessions'' host_alias
       (\<lambda>h. snd (list_remote_sessions (tw_server w h) []))"

definition smgr_restart_remote_daemon :: "tool_world \<Rightarrow> string \<Rightarrow> restart_report result" where
  "smgr_restart_remote_daemon w host_alias =
     with_persistent w ''restart_remote_daemon'' host_alias
       (\<lambda>h. snd (restart_remote_daemon (tw_server w h) (tw_local_agentd w) []))"

text \<open>What the persistent provider's attach gives \<open>attach_remote_session\<close> of the manager.\<close>

definition attached_handle :: "tool_world \<Rightarrow> string \<Rightarrow> string \<Rightarrow> handle_kind result" where
  "attached_handle w host_alias remote_session_id =
     (case ow_resolve (tw_open w) host_alias of
        Inl e \<Rightarrow> Inl e
      | Inr h \<Rightarrow>
          (case snd (Remote_Runtime.attach_remote_session (tw_server w h) remote_session_id []) of
             Inl e \<Rightarrow> Inl e | Inr _ \<Rightarrow> Inr PersistentHandle))"

definition PROBE :: string where
  "PROBE = ''echo \"__ENV_START__\"; uname -a; echo \"SHELL=$SHELL\"; echo \"PATH=$PATH\"; for cmd in python python3 node npm rustc cargo go docker git; do p=$(which $cmd 2>/dev/null); if [ -n \"$p\" ]; then echo \"TOOL:$cmd:$p\"; else echo \"TOOL:$cmd:\"; fi; done; echo \"__ENV_END__\"''"

definition detect_remote_env :: "tool_world \<Rightarrow> smgr \<Rightarrow> string \<Rightarrow> remote_env_info result option" where
  "detect_remote_env w sm sid =
     (case get_session sm sid of
        Inl e \<Rightarrow> Some (Inl e)
      | Inr a \<Rightarrow>
          if so_handle (sm_objs sm ! a) \<noteq> SshHandle
          then Some (Inl (InvalidArgument (''session '' @ quoted sid @ '' does not support exec (non-SSH handle)'')))
          else (case tw_exec w PROBE of Inl e \<Rightarrow> Some (Inl e) | Inr out \<Rightarrow> parse_remote_env out))"

section \<open>The tools\<close>

definition tool_list_hosts :: "tool_world \<Rightarrow> tool_result" where
  "tool_list_hosts w = RHosts (map (\<lambda>e. (he_alias e, he_hostname e)) (list_hosts (tw_ssh_config w)))"

definition tool_open_session :: "tool_world \<Rightarrow> smgr \<Rightarrow> open_session_params \<Rightarrow> smgr \<times> tool_result" where
  "tool_open_session w sm p =
     (let pty_size = (case (os_rows p, os_cols p) of
                        (Some r, Some c) \<Rightarrow> Some \<lparr>rows = r, cols = c\<rparr> | _ \<Rightarrow> None);
          (sm', r, tr) = open_session (tw_open w) sm (os_host p) pty_size (os_persistent p) (os_name p)
      in (sm', result_of RSessionId r))"

definition now_secs :: "tool_world \<Rightarrow> nat" where "now_secs w = ow_now_secs (tw_open w)"
definition now_millis :: "tool_world \<Rightarrow> nat" where "now_millis w = ow_now_millis (tw_open w)"

definition tool_send_input :: "tool_world \<Rightarrow> smgr \<Rightarrow> send_input_params \<Rightarrow> smgr \<times> tool_result" where
  "tool_send_input w sm p =
     (let (sm', r) = smgr_send_input (now_secs w) (now_millis w) (tw_io w) sm (sp_session_id p) (str_bytes (sp_data p))
      in (sm', result_of (\<lambda>_. ROk) r))"

fun mode_name :: "read_mode \<Rightarrow> string" where
  "mode_name SinceCursor = ''since_cursor''"
| "mode_name TailMode = ''tail''"
| "mode_name WaitFor = ''wait_for''"
| "mode_name Settle = ''settle''"

definition read_dto :: "string \<Rightarrow> read_output_result \<Rightarrow> read_output_dto" where
  "read_dto state r =
     \<lparr>rd_output = from_utf8_lossy (rr_output r), rd_cursor = rr_cursor r, rd_has_more = rr_has_more r,
      rd_is_truncated = rr_is_truncated r, rd_matched = rr_matched r, rd_timed_out = rr_timed_out r,
      rd_mode = mode_name (rr_mode r), rd_session_state = state\<rparr>"

definition tool_read_output :: "tool_world \<Rightarrow> smgr \<Rightarrow> read_output_schema \<Rightarrow> (smgr \<times> tool_result) option" where
  "tool_read_output w sm p =
     map_option (\<lambda>(sm', r).
         (let state = (case session_state_of sm' (ro_session_id p) of Inr st \<Rightarrow> st | Inl _ \<Rightarrow> ''unknown'')
          in (sm', result_of (\<lambda>x. RRead (read_dto state x)) r)))
       (smgr_read_output (tw_regex w) (now_secs w) (now_millis w) (tw_ticks w) sm (ro_session_id p) (ro_params p))"

definition tool_send_control :: "tool_world \<Rightarrow> smgr \<Rightarrow> send_control_params \<Rightarrow> smgr \<times> tool_result" where
  "tool_send_control w sm p =
     (case key_from_name (sk_control_key p) of
        None \<Rightarrow> (sm, RError (invalid_argument (''unknown control_key '' @ quoted (sk_control_key p) @
                  ''; supported: ctrl+c, ctrl+d, ctrl+z, tab, enter, escape'')))
      | Some key \<Rightarrow>
          (let (sm', r) = smgr_send_control (now_secs w) (now_millis w) (tw_io w) sm (sk_session_id p) key
           in (sm', result_of (\<lambda>_. ROk) r)))"

definition tool_resize :: "tool_world \<Rightarrow> smgr \<Rightarrow> resize_tool_params \<Rightarrow> smgr \<times> tool_result" where
  "tool_resize w sm p =
     (let (sm', r) = smgr_resize (tw_io w) sm (rz_session_id p) (rz_cols p) (rz_rows p)
      in (sm', result_of (\<lambda>_. RResized (rz_cols p) (rz_rows p)) r))"

definition tool_close_session :: "tool_world \<Rightarrow> smgr \<Rightarrow> string \<Rightarrow> smgr \<times> tool_result" where
  "tool_close_session w sm sid =
     (let (sm', r) = close_session (now_millis w) (tw_io w) sm sid in (sm', result_of (\<lambda>_. ROk) r))"

definition unknown_direction :: "string \<Rightarrow> tool_result" where
  "unknown_direction d =
     RError (invalid_argument (''unknown direction '' @ quoted d @ ''; supported: upload, download''))"

definition tool_sftp_transfer :: "tool_world \<Rightarrow> smgr \<Rightarrow> transfer_params \<Rightarrow> sftp_call list \<times> tool_result" where
  "tool_sftp_transfer w sm p =
     (case direction_from_name (tp_direction p) of
        None \<Rightarrow> ([], unknown_direction (tp_direction p))
      | Some d \<Rightarrow>
          (let (cs, r) = sftp_transfer (tw_sftp w) sm (tp_session_id p) d (tp_local_path p) (tp_remote_path p)
           in (cs, result_of (\<lambda>_. RTransferred \<lparr>ts_direction = tp_direction p, ts_local_path = tp_local_path p,
                                            ts_remote_path = tp_remote_path p\<rparr>) r)))"

definition tool_sftp_mkdir :: "tool_world \<Rightarrow> smgr \<Rightarrow> mkdir_params \<Rightarrow> sftp_call list \<times> tool_result" where
  "tool_sftp_mkdir w sm p =
     (case parse_octal_mode (mp_mode p) of
        Inl msg \<Rightarrow> ([], RError (invalid_argument msg))
      | Inr mode \<Rightarrow>
          (let (cs, r) = sftp_mkdir (tw_sftp w) sm (mp_session_id p) (mp_remote_path p) (unat mode)
           in (cs, result_of (\<lambda>_. RSftpOk (mp_remote_path p)) r)))"

definition entry_dto :: "remote_entry \<Rightarrow> remote_entry_dto" where
  "entry_dto e = \<lparr>ed_name = re_name e, ed_is_dir = re_is_dir e, ed_is_file = re_is_file e, ed_size = re_size e,
                  ed_permissions = re_permissions e\<rparr>"

definition tool_sftp_list :: "tool_world \<Rightarrow> smgr \<Rightarrow> list_params \<Rightarrow> sftp_call list \<times> tool_result" where
  "tool_sftp_list w sm p =
     (let (cs, r) = sftp_list (tw_sftp w) sm (lp_session_id p) (lp_remote_path p)
      in (cs, result_of (\<lambda>_. RListed (lp_remote_path p) (map entry_dto (tw_entries w (lp_remote_path p)))) r))"

definition tool_sftp_remove :: "tool_world \<Rightarrow> smgr \<Rightarrow> remove_params \<Rightarrow> sftp_call list \<times> tool_result" where
  "tool_sftp_remove w sm p =
     (let recursive = (case rp_recursive p of Some b \<Rightarrow> b | None \<Rightarrow> False);
          (cs, r) = sftp_remove (tw_sftp w) sm (rp_session_id p) (rp_remote_path p) recursive
      in (cs, result_of (\<lambda>_. RSftpOk (rp_remote_path p)) r))"

definition tool_sftp_chmod :: "tool_world \<Rightarrow> smgr \<Rightarrow> chmod_params \<Rightarrow> sftp_call list \<times> tool_result" where
  "tool_sftp_chmod w sm p =
     (case parse_octal_mode (Some (cp_mode p)) of
        Inl msg \<Rightarrow> ([], RError (invalid_argument msg))
      | Inr mode \<Rightarrow>
          (case validate_chmod_mode mode of
             Inl msg \<Rightarrow> ([], RError (invalid_argument msg))
           | Inr _ \<Rightarrow>
               (let (cs, r) = sftp_chmod (tw_sftp w) sm (cp_session_id p) (cp_remote_path p) (unat mode)
                in (cs, result_of (\<lambda>_. RSftpOk (cp_remote_path p)) r))))"

definition tool_attach_remote_session :: "tool_world \<Rightarrow> smgr \<Rightarrow> attach_params \<Rightarrow> smgr \<times> tool_result" where
  "tool_attach_remote_session w sm p =
     (let (sm', r) = Session_Manager.attach_remote_session (tw_open w) (tw_persistent w)
                       (attached_handle w (ap_host p) (ap_remote_session_id p)) sm (ap_host p)
      in (sm', result_of RSessionId r))"

definition tool_detach_session :: "tool_world \<Rightarrow> smgr \<Rightarrow> string \<Rightarrow> smgr \<times> tool_result" where
  "tool_detach_session w sm sid =
     (let (sm', r) = detach_session (tw_io w) sm sid in (sm', result_of (\<lambda>_. ROk) r))"

definition tool_sftp_transfer_dir :: "tool_world \<Rightarrow> smgr \<Rightarrow> transfer_params \<Rightarrow> sftp_call list \<times> tool_result" where
  "tool_sftp_transfer_dir w sm p =
     (case direction_from_name (tp_direction p) of
        None \<Rightarrow> ([], unknown_direction (tp_direction p))
      | Some d \<Rightarrow>
          (let (cs, r) = sftp_transfer_dir (tw_sftp w) sm (tp_session_id p) d (tp_local_path p) (tp_remote_path p)
           in (cs, result_of (\<lambda>_. let report = tw_report w (last cs)
                in RDirTransferred \<lparr>td_direction = tp_direction p, td_local_path = tp_local_path p,
                     td_remote_path = tp_remote_path p, td_files_transferred = dr_files report,
                     td_skipped = map (\<lambda>s. (se_name s, se_reason s)) (dr_skipped report)\<rparr>) r)))"

definition tool_reconnect_session :: "tool_world \<Rightarrow> smgr \<Rightarrow> string \<Rightarrow> smgr \<times> tool_result" where
  "tool_reconnect_session w sm sid =
     (let (sm', r) = reconnect_session (tw_open w) (tw_io w) sm sid in (sm', result_of RReconnect r))"

definition tool_list_remote_sessions :: "tool_world \<Rightarrow> string \<Rightarrow> tool_result" where
  "tool_list_remote_sessions w host_alias = result_of RRemoteSessions (smgr_list_remote_sessions w host_alias)"

definition tool_get_session_timeline :: "smgr \<Rightarrow> timeline_params \<Rightarrow> tool_result" where
  "tool_get_session_timeline sm p = result_of RTimeline (get_session_timeline sm (gp_session_id p) (gp_limit p))"

definition tool_detect_remote_env :: "tool_world \<Rightarrow> smgr \<Rightarrow> string \<Rightarrow> tool_result option" where
  "tool_detect_remote_env w sm sid = map_option (result_of REnv) (detect_remote_env w sm sid)"

definition tool_bootstrap_host :: "tool_world \<Rightarrow> string \<Rightarrow> tool_result" where
  "tool_bootstrap_host w host_alias = result_of RBootstrap (snd (bootstrap (tw_boot w) host_alias []))"

definition tool_restart_remote_daemon :: "tool_world \<Rightarrow> string \<Rightarrow> tool_result" where
  "tool_restart_remote_daemon w host_alias = result_of RRestart (smgr_restart_remote_daemon w host_alias)"

text \<open>The dispatch of the tool router.\<close>

fun tool :: "tool_world \<Rightarrow> smgr \<Rightarrow> tool_call \<Rightarrow> (smgr \<times> sftp_call list \<times> tool_result) option" where
  "tool w sm ListHosts = Some (sm, [], tool_list_hosts w)"
| "tool w sm (OpenSession p) = (let (sm', r) = tool_open_session w sm p in Some (sm', [], r))"
| "tool w sm (SendInputTool p) = (let (sm', r) = tool_send_input w sm p in Some (sm', [], r))"
| "tool w sm (ReadOutput p) = map_option (\<lambda>(sm', r). (sm', [], r)) (tool_read_output w sm p)"
| "tool w sm (SendControl p) = (let (sm', r) = tool_send_control w sm p in Some (sm', [], r))"
| "tool w sm (ResizeTool p) = (let (sm', r) = tool_resize w sm p in Some (sm', [], r))"
| "tool w sm (CloseSession sid) = (let (sm', r) = tool_close_session w sm sid in Some (sm', [], r))"
| "tool w sm (TransferTool p) = Some (sm, tool_sftp_transfer w sm p)"
| "tool w sm (MkdirTool p) = Some (sm, tool_sftp_mkdir w sm p)"
| "tool w sm (ListTool p) = Some (sm, tool_sftp_list w sm p)"
| "tool w sm (RemoveTool p) = Some (sm, tool_sftp_remove w sm p)"
| "tool w sm (ChmodTool p) = Some (sm, tool_sftp_chmod w sm p)"
| "tool w sm (ListRemoteSessions host) =
     Some (sm, [], tool_list_remote_sessions w host)"
| "tool w sm (AttachRemoteSession p) = (let (sm', r) = tool_attach_remote_session w sm p in Some (sm', [], r))"
| "tool w sm (DetachSession sid) = (let (sm', r) = tool_detach_session w sm sid in Some (sm', [], r))"
| "tool w sm (GetSessionTimeline p) =
     Some (sm, [], tool_get_session_timeline sm p)"
| "tool w sm (TransferDirTool p) = Some (sm, tool_sftp_transfer_dir w sm p)"
| "tool w sm (DetectRemoteEnv sid) =
     map_option (\<lambda>r. (sm, [], r)) (tool_detect_remote_env w sm sid)"
| "tool w sm (BootstrapHost host) = Some (sm, [], tool_bootstrap_host w host)"
| "tool w sm (ReconnectSession sid) = (let (sm', r) = tool_reconnect_session w sm sid in Some (sm', [], r))"
| "tool w sm (RestartRemoteDaemon host) =
     Some (sm, [], tool_restart_remote_daemon w host)"

text \<open>A sequence of calls, each in its own world.\<close>

fun tools :: "smgr \<Rightarrow> (tool_world \<times> tool_call) list \<Rightarrow> (smgr \<times> (sftp_call list \<times> tool_result) list) option" where
  "tools sm [] = Some (sm, [])"
| "tools sm ((w, t) # ts) =
     (case tool w sm t of
        None \<Rightarrow> None
      | Some (sm', o1) \<Rightarrow> map_option (\<lambda>(sm'', os). (sm'', o1 # os)) (tools sm' ts))"

section \<open>What a tool call leaves alone\<close>

text \<open>The map stays consistent, no approval changes, and the policies are never replaced.\<close>

definition orderly :: "smgr \<Rightarrow> smgr \<Rightarrow> bool" where
  "orderly sm sm' \<longleftrightarrow> (smgr_inv sm \<longrightarrow> smgr_inv sm') \<and> approvals_kept sm sm' \<and>
     sm_policy sm' = sm_policy sm \<and> sm_path_policy sm' = sm_path_policy sm \<and> sm_host_policy sm' = sm_host_policy sm"

lemma orderly_refl [simp]: "orderly sm sm"
  by (simp add: orderly_def)

lemma orderly_trans: "orderly sm sm1 \<Longrightarrow> orderly sm1 sm2 \<Longrightarrow> orderly sm sm2"
  by (auto simp: orderly_def intro: kept_trans)

lemma policies_simps [simp]:
  "sm_policy (put_sess a s sm) = sm_policy sm" "sm_path_policy (put_sess a s sm) = sm_path_policy sm"
  "sm_host_policy (put_sess a s sm) = sm_host_policy sm"
  "sm_policy (map_remove k sm) = sm_policy sm" "sm_path_policy (map_remove k sm) = sm_path_policy sm"
  "sm_host_policy (map_remove k sm) = sm_host_policy sm"
  "sm_policy (map_insert k a sm) = sm_policy sm" "sm_path_policy (map_insert k a sm) = sm_path_policy sm"
  "sm_host_policy (map_insert k a sm) = sm_host_policy sm"
  by (simp_all add: put_sess_def map_remove_def map_insert_def)

lemma orderly_put:
  "s_id s = s_id (sess sm a) \<Longrightarrow> s_approval_mode s = s_approval_mode (sess sm a) \<Longrightarrow> orderly sm (put_sess a s sm)"
  by (simp add: orderly_def inv_put kept_put)

lemma orderly_remove: "orderly sm (map_remove k sm)"
  by (simp add: orderly_def inv_remove)

lemma orderly_after_call: "orderly sm (fst r) \<Longrightarrow> orderly sm (fst (after_call sid a r))"
  by (auto simp: after_call_def cleanup_detached_session_def
      intro: orderly_trans [OF _ orderly_remove] split: sum.split term_error.split)

lemma orderly_call:
  "s_id s = s_id (sess sm a) \<Longrightarrow> s_approval_mode s = s_approval_mode (sess sm a) \<Longrightarrow>
   orderly sm (fst (after_call sid a (put_sess a s sm, r)))"
  by (rule orderly_after_call) (simp add: orderly_put)

lemma orderly_send_input: "orderly sm (fst (smgr_send_input secs now io sm sid d))"
proof -
  have "orderly sm (fst (after_call sid a (put_sess a s sm, r)))"
    if "session_send_input secs now io d (sess sm a) = (s, r)" for a s r
    using that session_send_input_effect(2) [OF that] approval_kept(1) [OF that] by (simp add: orderly_call)
  then show ?thesis by (auto simp: smgr_send_input_def split: sum.split prod.split)
qed

lemma orderly_send_control: "orderly sm (fst (smgr_send_control secs now io sm sid k))"
proof -
  have "orderly sm (fst (after_call sid a (put_sess a s sm, r)))"
    if "session_send_control secs now io k (sess sm a) = (s, r)" for a s r
    using that session_send_control_effect(2) [OF that] approval_kept(2) [OF that] by (simp add: orderly_call)
  then show ?thesis by (auto simp: smgr_send_control_def split: sum.split prod.split)
qed

lemma orderly_resize: "orderly sm (fst (smgr_resize io sm sid c r))"
proof -
  have "orderly sm (fst (after_call sid a (put_sess a s sm, ru)))"
    if "session_resize io sz (sess sm a) = (s, ru)" for a s ru sz
    using that session_resize_effect [OF that] approval_kept(3) [OF that] by (simp add: orderly_call)
  then show ?thesis by (auto simp: smgr_resize_def split: sum.split prod.split)
qed

lemma orderly_read: "smgr_read_output rx secs now ticks sm sid p = Some (sm', r) \<Longrightarrow> orderly sm sm'"
proof -
  have "orderly sm (fst (after_call sid a (put_sess a s sm, ro)))"
    if "session_read_output rx secs p now ticks (sess sm a) = Some (s, ro)" for a s ro
    using read_call_id [OF that] approval_kept(4) [OF that] by (simp add: orderly_call)
  then show "smgr_read_output rx secs now ticks sm sid p = Some (sm', r) \<Longrightarrow> orderly sm sm'"
    by (fastforce simp: smgr_read_output_def split: sum.splits)
qed

lemma policies_new [simp]:
  "next_session_id sm = (sm1, i) \<Longrightarrow> sm_policy sm1 = sm_policy sm \<and> sm_path_policy sm1 = sm_path_policy sm \<and> sm_host_policy sm1 = sm_host_policy sm"
  "new_obj ob sm = (sm2, a) \<Longrightarrow> sm_policy sm2 = sm_policy sm \<and> sm_path_policy sm2 = sm_path_policy sm \<and> sm_host_policy sm2 = sm_host_policy sm"
  by (auto simp: next_session_id_def new_obj_def Let_def)

lemma orderly_open: "open_session w sm h pty per nm = (sm', r, tr) \<Longrightarrow> orderly sm sm'"
proof -
  assume run: "open_session w sm h pty per nm = (sm', r, tr)"
  have pol: "sm_policy (fst (open_with w sm h auth pty per nm sec)) = sm_policy sm \<and>
      sm_path_policy (fst (open_with w sm h auth pty per nm sec)) = sm_path_policy sm \<and>
      sm_host_policy (fst (open_with w sm h auth pty per nm sec)) = sm_host_policy sm" for h auth pty per nm sec
    by (auto simp: open_with_def Let_def split: sum.split prod.split dest!: policies_new)
  have "orderly sm (fst (open_session w sm h pty per nm))"
    using pol inv_open_session kept_open
    by (auto simp: orderly_def open_session_def Let_def split: sum.split)
  then show "orderly sm sm'" by (simp add: run)
qed

lemma orderly_attach: "Session_Manager.attach_remote_session w p att sm h = (sm', r) \<Longrightarrow> orderly sm sm'"
proof -
  assume run: "Session_Manager.attach_remote_session w p att sm h = (sm', r)"
  have "sm_policy sm' = sm_policy sm \<and> sm_path_policy sm' = sm_path_policy sm \<and> sm_host_policy sm' = sm_host_policy sm"
    using run
    by (auto simp: Session_Manager.attach_remote_session_def Let_def split: sum.splits prod.splits if_splits dest!: policies_new)
  then show "orderly sm sm'"
    using kept_attach [OF run] inv_attach [of sm w p att h] run by (simp add: orderly_def)
qed

lemma orderly_detach: "detach_session io sm sid = (sm', r) \<Longrightarrow> orderly sm sm'"
  by (auto simp: detach_session_def orderly_remove split: sum.splits if_splits)

lemma orderly_close: "close_session now io sm sid = (sm', r) \<Longrightarrow> orderly sm sm'"
proof -
  have "orderly sm (put_sess a s (map_remove sid sm))"
    if "session_close now io (sess sm a) = (s, ru)" for a s ru
    by (rule orderly_trans [OF orderly_remove orderly_put])
      (use session_close_same_id [OF that] approval_kept(7) [of s now io "sess sm a"] that in simp_all)
  then show "close_session now io sm sid = (sm', r) \<Longrightarrow> orderly sm sm'"
    by (auto simp: close_session_def Let_def split: option.splits prod.splits)
qed

lemma orderly_reconnect: "reconnect_session w io sm sid = (sm', r) \<Longrightarrow> orderly sm sm'"
proof -
  have close: "orderly sm (reconnect_close now io a sm)" for now a
    by (auto simp: reconnect_close_def intro!: orderly_put approval_kept(7) refl)
  have "orderly sm sm2"
    if a: "lookup sm sid = Some a" and run: "reconnect_open w a sid (reconnect_close now io a sm) = (sm2, rr)" for a sm2 rr now
  proof -
    let ?sm1 = "reconnect_close now io a sm"
    have pol: "sm_policy sm2 = sm_policy ?sm1 \<and> sm_path_policy sm2 = sm_path_policy ?sm1 \<and> sm_host_policy sm2 = sm_host_policy ?sm1"
      using run by (auto simp: reconnect_open_def Let_def split: sum.splits prod.splits dest!: policies_new(2))
    have inv: "smgr_inv sm2" if "smgr_inv sm"
    proof -
      have bound: "a < length (sm_objs sm)" "s_id (sess sm a) = sid" using lookup_inv [OF that a] .
      then have "s_id (sess ?sm1 a) = sid" by (simp add: reconnect_close_def)
      then show ?thesis
        using inv_reconnect_open [of ?sm1 a w] bound(1) run that close [of now a]
        by (auto simp: reconnect_close_def orderly_def)
    qed
    then show ?thesis using pol kept_reconnect [OF run] close [of now a] by (auto simp: orderly_def intro: kept_trans)
  qed
  then show "reconnect_session w io sm sid = (sm', r) \<Longrightarrow> orderly sm sm'"
    by (auto simp: reconnect_session_def reconnect_begin_def get_session_def split: sum.splits option.splits if_splits prod.splits)
qed

lemma fst_case: "(case p of (a, b) \<Rightarrow> (a, f b)) = (fst p, f (snd p))"
  by (cases p) simp

lemma orderly_tool: "tool w sm t = Some (sm', cs, r) \<Longrightarrow> orderly sm sm'"
proof (cases t)
  case (ReadOutput p)
  assume "tool w sm t = Some (sm', cs, r)"
  then show ?thesis using ReadOutput by (auto simp: tool_read_output_def dest: orderly_read)
next
  case (SendInputTool p)
  assume "tool w sm t = Some (sm', cs, r)"
  then show ?thesis using SendInputTool orderly_send_input by (auto simp: tool_send_input_def fst_case)
next
  case (SendControl p)
  assume "tool w sm t = Some (sm', cs, r)"
  then show ?thesis using SendControl orderly_send_control
    by (auto simp: tool_send_control_def fst_case split: option.splits)
next
  case (ResizeTool p)
  assume "tool w sm t = Some (sm', cs, r)"
  then show ?thesis using ResizeTool orderly_resize by (auto simp: tool_resize_def fst_case)
qed (auto simp: tool_open_session_def tool_close_session_def tool_attach_remote_session_def tool_detach_session_def
    tool_reconnect_session_def Let_def split: prod.splits
    dest: orderly_open orderly_close orderly_attach orderly_detach orderly_reconnect)

lemma orderly_tools: "tools sm ts = Some (sm', os) \<Longrightarrow> orderly sm sm'"
proof (induction sm ts arbitrary: os rule: tools.induct)
  case (2 sm w t ts)
  then obtain sm1 cs r os' where run: "tool w sm t = Some (sm1, cs, r)" "tools sm1 ts = Some (sm', os')"
    by (auto split: option.splits)
  show ?case by (rule orderly_trans [OF orderly_tool [OF run(1)] 2(1) [OF run(1) refl run(2)]])
qed simp

section \<open>Properties\<close>

text \<open>
  (C3) What an agent can do to the manager.  Whatever tools are called, in whatever order and whatever the world answers,
  the session map stays well-formed, the policies stay those the server was started with, no session's approval
  changes, and every session that is added begins unapproved.
\<close>

theorem tools_keep_manager:
  assumes "smgr_inv sm" "tools sm ts = Some (sm', os)"
  shows "smgr_inv sm' \<and> sm_policy sm' = sm_policy sm \<and> sm_path_policy sm' = sm_path_policy sm \<and>
    sm_host_policy sm' = sm_host_policy sm \<and>
    list_all (\<lambda>a. s_approval_mode (sess sm' a) = (if a < length (sm_objs sm) then s_approval_mode (sess sm a) else Standard))
      [0..<length (sm_objs sm')]"
  using orderly_tools [OF assms(2)] assms(1)
  by (auto simp: orderly_def approvals_kept_def list_all_iff)

lemma and_then_made:
  "and_then r k = (cs, x) \<Longrightarrow> cs \<noteq> [] \<Longrightarrow> r = Inr () \<and> k = (cs, x)"
  by (auto simp: and_then_def split: sum.splits)

lemma policy_allows: "check_policy sm (SftpTransfer d l p) = Inr () \<longleftrightarrow> authorize (sm_policy sm) (SftpTransfer d l p) = Allow"
  "check_policy sm (SftpRemove p b) = Inr () \<longleftrightarrow> authorize (sm_policy sm) (SftpRemove p b) = Allow"
  "check_policy sm (SftpChmod p m) = Inr () \<longleftrightarrow> authorize (sm_policy sm) (SftpChmod p m) = Allow"
  by (simp_all add: check_policy_ok approval_sftp authorize_standard)

lemma transfer_checked:
  assumes "cs \<noteq> []" "sftp_transfer w sm sid d l p = (cs, x)"
  shows "cs = [case d of Upload \<Rightarrow> DoUpload l p | Download \<Rightarrow> DoDownload p l] \<and>
    authorize (sm_policy sm) (SftpTransfer d l p) = Allow \<and> check_local (sw_fs w) (sm_path_policy sm) l = Inr () \<and>
    remote_check w sm sid p (case d of Upload \<Rightarrow> Create | Download \<Rightarrow> Read) = Inr ()"
  using assms unfolding sftp_transfer_def policy_allows [symmetric]
  by (cases d) (auto simp: call_def dest!: and_then_made)

lemma transfer_dir_checked:
  assumes "cs \<noteq> []" "sftp_transfer_dir w sm sid d l p = (cs, x)"
  shows "cs = [case d of Upload \<Rightarrow> DoUploadDir l p | Download \<Rightarrow> DoDownloadDir p l] \<and>
    authorize (sm_policy sm) (SftpTransfer d l p) = Allow \<and> check_local (sw_fs w) (sm_path_policy sm) l = Inr () \<and>
    remote_check w sm sid p (case d of Upload \<Rightarrow> Create | Download \<Rightarrow> Read) = Inr ()"
  using assms unfolding sftp_transfer_dir_def policy_allows [symmetric]
  by (cases d) (auto simp: call_def dest!: and_then_made)

text \<open>The paths a recursive removal reaches: the one given, and those of the entries that the server lists for one it reaches.\<close>

inductive listed_below :: "sftp_world \<Rightarrow> string \<Rightarrow> string \<Rightarrow> bool" for w d where
  listed_self: "listed_below w d d"
| listed_child: "listed_below w d p \<Longrightarrow> sw_list w p = Inr es \<Longrightarrow> (name, is_dir) \<in> set es \<Longrightarrow> listed_below w d (child_path p name)"

definition removes_below :: "sftp_world \<Rightarrow> string \<Rightarrow> sftp_call list \<Rightarrow> bool" where
  "removes_below w d cs \<longleftrightarrow> list_all (\<lambda>c. \<exists>q. listed_below w d q \<and> (c = DoList q \<or> c = DoRemove q \<or> c = DoRmdir q)) cs"

lemma remove_entries_below:
  assumes "\<And>n b. (n, b) \<in> set es \<Longrightarrow> removes_below w d (fst (rm n b))"
  shows "removes_below w d (fst (remove_entries rm es))"
  using assms
proof (induction es)
  case (Cons e es)
  obtain n b cs x where e: "e = (n, b)" "rm n b = (cs, x)" by (cases e, cases "rm (fst e) (snd e)") auto
  then have "removes_below w d cs" using Cons.prems [of n b] by simp
  moreover have "removes_below w d (fst (remove_entries rm es))" using Cons by simp
  ultimately show ?case using e by (cases x) (simp_all add: removes_below_def case_prod_beta)
qed (simp add: removes_below_def)

lemma remove_recursive_below:
  "listed_below w d p \<Longrightarrow> removes_below w d (fst (remove_recursive w left p))"
proof (induction left arbitrary: p)
  case (Suc left)
  show ?case
  proof (cases "sw_list w p")
    case (Inl e)
    then show ?thesis using Suc.prems by (auto simp: removes_below_def)
  next
    case (Inr es)
    let ?rm = "\<lambda>name is_dir. if is_dir then remove_recursive w left (child_path p name) else call w (DoRemove (child_path p name))"
    have "removes_below w d (fst (?rm n b))" if "(n, b) \<in> set es" for n b
      using listed_child [OF Suc.prems Inr that] Suc.IH by (auto simp: removes_below_def call_def)
    then have "removes_below w d (fst (remove_entries ?rm es))" by (rule remove_entries_below)
    then show ?thesis using Inr Suc.prems by (auto simp: removes_below_def split: prod.splits sum.splits)
  qed
qed (simp add: removes_below_def)

lemma remove_checked:
  assumes "sftp_remove w sm sid p b = (cs, x)" "cs \<noteq> []"
  shows "authorize (sm_policy sm) (SftpRemove p b) = Allow \<and> remote_check w sm sid p Delete = Inr () \<and>
    (if b then removes_below w p cs else cs = [DoRemove p])"
proof -
  have "authorize (sm_policy sm) (SftpRemove p b) = Allow \<and> remote_check w sm sid p Delete = Inr () \<and>
      (if b then sftp_remove_recursive w p else call w (DoRemove p)) = (cs, x)"
    using assms unfolding sftp_remove_def policy_allows [symmetric] by (auto dest!: and_then_made)
  then show ?thesis
    using remove_recursive_below [OF listed_self, of w p "MAX_DEPTH + 1"]
    by (auto simp: sftp_remove_recursive_def call_def simp del: remove_recursive.simps split: if_splits)
qed

lemma chmod_checked:
  assumes "sftp_chmod w sm sid p m = (cs, x)" "cs \<noteq> []"
  shows "cs = [DoChmod p m] \<and> authorize (sm_policy sm) (SftpChmod p (oct m)) = Allow \<and> remote_check w sm sid p Chmod = Inr ()"
  using assms unfolding sftp_chmod_def policy_allows [symmetric] by (auto simp: call_def dest!: and_then_made)

lemma plain_checked:
  "sftp_mkdir w sm sid p m = (cs, x) \<Longrightarrow> cs \<noteq> [] \<Longrightarrow> cs = [DoMkdir p m] \<and> remote_check w sm sid p Create = Inr ()"
  "sftp_list w sm sid p = (cs, x) \<Longrightarrow> cs \<noteq> [] \<Longrightarrow> cs = [DoList p] \<and> remote_check w sm sid p Read = Inr ()"
  unfolding sftp_mkdir_def sftp_list_def by (auto simp: call_def dest!: and_then_made)

text \<open>
  (C11) What a tool sends to the SFTP server is what was checked.  A tool call that makes an SFTP call is one of the six file tools; it makes exactly
  the call of its name, on the paths of its parameters, and that path string was admitted by the path policy for its kind of access.  A transfer was
  allowed by the command policy in its direction and its local path checked too; a removal was allowed with the flag it was called with, and is one
  call, or with the flag a walk that lists and removes only the path and what the server lists below it; a mode was seen by the policy in
  its plain octal form however it was spelled, is sent as that number, and is never 0.  The path is sent as spelled: a leading tilde, which the check
  expands, is left to the server.
\<close>

theorem tool_calls_checked:
  assumes "tool w sm t = Some (sm', cs, r)" "cs \<noteq> []"
  shows "case t of
      TransferTool p \<Rightarrow> \<exists>d. direction_from_name (tp_direction p) = Some d \<and>
        cs = [case d of Upload \<Rightarrow> DoUpload (tp_local_path p) (tp_remote_path p) | Download \<Rightarrow> DoDownload (tp_remote_path p) (tp_local_path p)] \<and>
        authorize (sm_policy sm) (SftpTransfer d (tp_local_path p) (tp_remote_path p)) = Allow \<and>
        check_local (sw_fs (tw_sftp w)) (sm_path_policy sm) (tp_local_path p) = Inr () \<and>
        remote_check (tw_sftp w) sm (tp_session_id p) (tp_remote_path p) (case d of Upload \<Rightarrow> Create | Download \<Rightarrow> Read) = Inr ()
    | TransferDirTool p \<Rightarrow> \<exists>d. direction_from_name (tp_direction p) = Some d \<and>
        cs = [case d of Upload \<Rightarrow> DoUploadDir (tp_local_path p) (tp_remote_path p) | Download \<Rightarrow> DoDownloadDir (tp_remote_path p) (tp_local_path p)] \<and>
        authorize (sm_policy sm) (SftpTransfer d (tp_local_path p) (tp_remote_path p)) = Allow \<and>
        check_local (sw_fs (tw_sftp w)) (sm_path_policy sm) (tp_local_path p) = Inr () \<and>
        remote_check (tw_sftp w) sm (tp_session_id p) (tp_remote_path p) (case d of Upload \<Rightarrow> Create | Download \<Rightarrow> Read) = Inr ()
    | MkdirTool p \<Rightarrow> \<exists>m. parse_octal_mode (mp_mode p) = Inr m \<and> cs = [DoMkdir (mp_remote_path p) (unat m)] \<and>
        remote_check (tw_sftp w) sm (mp_session_id p) (mp_remote_path p) Create = Inr ()
    | ListTool p \<Rightarrow> cs = [DoList (lp_remote_path p)] \<and>
        remote_check (tw_sftp w) sm (lp_session_id p) (lp_remote_path p) Read = Inr ()
    | RemoveTool p \<Rightarrow> let recursive = (rp_recursive p = Some True) in
        authorize (sm_policy sm) (SftpRemove (rp_remote_path p) recursive) = Allow \<and>
        remote_check (tw_sftp w) sm (rp_session_id p) (rp_remote_path p) Delete = Inr () \<and>
        (if recursive then removes_below (tw_sftp w) (rp_remote_path p) cs else cs = [DoRemove (rp_remote_path p)])
    | ChmodTool p \<Rightarrow> \<exists>m. parse_octal_mode (Some (cp_mode p)) = Inr m \<and> m \<noteq> 0 \<and>
        cs = [DoChmod (cp_remote_path p) (unat m)] \<and>
        authorize (sm_policy sm) (SftpChmod (cp_remote_path p) (oct (unat m))) = Allow \<and>
        remote_check (tw_sftp w) sm (cp_session_id p) (cp_remote_path p) Chmod = Inr ()
    | _ \<Rightarrow> False"
proof (cases t)
  case (TransferTool p)
  then show ?thesis using assms by (auto simp: tool_sftp_transfer_def split: option.splits prod.splits dest: transfer_checked)
next
  case (TransferDirTool p)
  then show ?thesis using assms by (auto simp: tool_sftp_transfer_dir_def split: option.splits prod.splits dest: transfer_dir_checked)
next
  case (MkdirTool p)
  then show ?thesis using assms by (auto simp: tool_sftp_mkdir_def split: sum.splits prod.splits dest: plain_checked)
next
  case (ListTool p)
  then show ?thesis using assms by (auto simp: tool_sftp_list_def split: prod.splits dest: plain_checked)
next
  case (RemoveTool p)
  have flag: "(case rp_recursive p of Some b \<Rightarrow> b | None \<Rightarrow> False) \<longleftrightarrow> rp_recursive p = Some True" by (auto split: option.split)
  obtain x where run: "sftp_remove (tw_sftp w) sm (rp_session_id p) (rp_remote_path p) (rp_recursive p = Some True) = (cs, x)"
    using assms(1) RemoveTool by (auto simp: tool_sftp_remove_def flag Let_def split: prod.splits)
  show ?thesis using remove_checked [OF run assms(2)] RemoveTool by simp
next
  case (ChmodTool p)
  then show ?thesis using assms
    by (auto simp: tool_sftp_chmod_def validate_chmod_mode_def split: sum.splits if_splits prod.splits dest: chmod_checked)
qed (use assms in \<open>auto split: prod.splits\<close>)

text \<open>
  Errors an agent can rely on.  Every error of a tool carries one of the documented codes, and the code alone says whether
  the call may be retried: exactly the connection, time-out, SFTP and missing-runtime errors can.
\<close>

lemma error_codes_decide_retry:
  assumes "tool w sm t = Some (sm', cs, RError te)"
  shows "te_code te \<in> {''AUTH_FAILED'', ''SESSION_NOT_FOUND'', ''SESSION_CLOSED'', ''CONNECT_FAILED'', ''OPERATION_TIMEOUT'',
      ''HOST_KEY_REJECTED'', ''INVALID_ARGUMENT'', ''SFTP_ERROR'', ''SFTP_NO_SUCH_FILE'', ''SFTP_PERMISSION_DENIED'',
      ''LOCAL_PATH_NOT_ALLOWED'', ''REMOTE_PATH_NOT_ALLOWED'', ''POLICY_DENIED'', ''POLICY_NEEDS_CONFIRM'',
      ''SESSION_DETACHED'', ''PROTOCOL_MISMATCH'', ''RUNTIME_MISSING'', ''RUNTIME_DEPLOY_FAILED''} \<and>
    (te_retriable te \<longleftrightarrow> te_code te \<in> {''CONNECT_FAILED'', ''OPERATION_TIMEOUT'', ''SFTP_ERROR'', ''RUNTIME_MISSING''})"
proof -
  have "(\<exists>e. te = from_term e) \<or> (\<exists>m. te = invalid_argument m)"
    using assms
    by (cases t; auto simp: tool_list_hosts_def tool_open_session_def tool_send_input_def tool_read_output_def
        tool_send_control_def tool_resize_def tool_close_session_def tool_sftp_transfer_def tool_sftp_mkdir_def
        tool_sftp_list_def tool_sftp_remove_def tool_sftp_chmod_def tool_attach_remote_session_def
        tool_detach_session_def tool_sftp_transfer_dir_def tool_reconnect_session_def unknown_direction_def
        tool_list_remote_sessions_def tool_get_session_timeline_def tool_detect_remote_env_def tool_bootstrap_host_def tool_restart_remote_daemon_def
        result_of_def err_result_def Let_def split: prod.splits option.splits sum.splits; metis sum.exhaust)
  then show ?thesis
  proof (elim disjE exE)
    fix e assume "te = from_term e"
    then show ?thesis by (cases e) (simp_all add: from_term_def)
  qed (simp add: invalid_argument_def)
qed

section \<open>Octal modes, read back\<close>

lemma unoct_oct: "unoct (oct n) = n"
proof (induction n rule: oct.induct)
  case (1 n)
  have digit: "of_char (char_of (48 + k) :: char) - 48 = k" if "k < 8" for k :: nat
    using that by (simp add: of_char_of)
  show ?case
  proof (cases "n < 8")
    case True
    then show ?thesis using digit [OF True] by (subst oct.simps) (simp add: unoct_def)
  next
    case False
    have "unoct (oct n) = 8 * unoct (oct (n div 8)) + n mod 8"
      using False digit [of "n mod 8"] by (subst oct.simps) (simp add: unoct_def)
    then show ?thesis using 1 False by simp
  qed
qed

lemma octal_char: "k < 8 \<Longrightarrow> is_octal (char_of (48 + k :: nat))"
  by (simp add: is_octal_def of_char_of)

lemma oct_digits: "list_all is_octal (oct n) \<and> oct n \<noteq> []"
proof (induction n rule: oct.induct)
  case (1 n)
  show ?case using 1 octal_char [of n] octal_char [of "n mod 8"] by (subst (1 2) oct.simps) auto
qed

lemma octal_is_digit: "is_octal c \<Longrightarrow> is_digit c"
  by (simp add: is_octal_def is_digit_def)

lemma from_str_radix_8_oct: "n < 2 ^ 32 \<Longrightarrow> from_str_radix_8 (oct n) = Some (of_nat n)"
proof -
  assume n: "n < 2 ^ 32"
  obtain c s where o: "oct n = c # s" using oct_digits [of n] by (cases "oct n") auto
  then have "is_octal c" using oct_digits [of n] by simp
  then have "c \<noteq> CHR ''+''" by (auto simp: is_octal_def)
  then show ?thesis using n oct_digits [of n] unoct_oct [of n] by (simp add: from_str_radix_8_def o)
qed

definition graphic :: "char \<Rightarrow> bool" where
  "graphic c \<longleftrightarrow> 32 < code c \<and> code c < 127"

lemma graphic_not_ws: "graphic c \<Longrightarrow> ws_len (c # s) = 0"
  by (auto simp: graphic_def)

lemma graphic_ends:
  assumes "list_all graphic s"
  shows "ws_len s = 0" "ws_len_end s = 0"
proof -
  show "ws_len s = 0" using assms by (cases s) (auto simp: graphic_not_ws simp del: ws_len.simps(2))
  have "ws_len (last_n n s) = 0" for n
  proof -
    have "list_all graphic (last_n n s)" using assms by (auto simp: last_n_def list_all_iff dest: in_set_dropD)
    then show ?thesis by (cases "last_n n s") (auto simp: graphic_not_ws simp del: ws_len.simps(2))
  qed
  then show "ws_len_end s = 0" by (simp add: ws_len_end_def)
qed

lemma trim_between_blanks:
  assumes "list_all graphic s" "s \<noteq> []"
  shows "trim s = s" "trim ('' '' @ s @ '' '') = s"
proof -
  show "trim s = s" using graphic_ends [OF assms(1)] by (rule trim_fixed)
  have head: "ws_len (s @ '' '') = 0"
    using assms by (cases s) (auto simp: graphic_not_ws simp del: ws_len.simps(2))
  have "trim_start ('' '' @ s @ '' '') = trim_start (s @ '' '')" by (subst trim_start.simps) simp
  also have "\<dots> = s @ '' ''" by (rule trim_start_no_ws [OF head])
  finally have start: "trim_start ('' '' @ s @ '' '') = s @ '' ''" .
  have "ws_len_end (s @ '' '') = 1" by (simp add: ws_len_end_def last_n_def)
  then have "trim_end (s @ '' '') = trim_end s" by (subst trim_end.simps) simp
  also have "\<dots> = s" by (rule trim_end_no_ws [OF graphic_ends(2) [OF assms(1)]])
  finally show "trim ('' '' @ s @ '' '') = s" by (simp only: trim_def start)
qed

lemma octal_graphic: "list_all is_octal s \<Longrightarrow> list_all graphic s"
  by (auto simp: list_all_iff is_octal_def graphic_def)

lemma octal_digits_oct:
  assumes "pre \<in> {'''', ''0o'', ''0O''}"
  shows "octal_digits (pre @ oct n) = oct n"
proof -
  have no: "\<not> prefix ''0o'' (oct n)" "\<not> prefix ''0O'' (oct n)"
    using oct_digits [of n] by (auto simp: prefix_def is_octal_def)
  then show ?thesis using assms by (auto simp: octal_digits_def strip_prefix_def)
qed

text \<open>
  Modes written back.  A mode in octal, bare or with either prefix, blanks around it or not, is read as the number it is;
  what the policy is asked about is that number's plain octal form again.
\<close>

lemma octal_mode_roundtrip:
  assumes "n < 2 ^ 32" "pre \<in> {'''', ''0o'', ''0O''}"
  shows "parse_octal_mode (Some (pre @ oct n)) = Inr (of_nat n) \<and>
    parse_octal_mode (Some ('' '' @ (pre @ oct n) @ '' '')) = Inr (of_nat n) \<and> oct (unat (of_nat n :: u32)) = oct n"
proof -
  have g: "list_all graphic (pre @ oct n)" using assms(2) octal_graphic [of "oct n"] oct_digits [of n] by (auto simp: graphic_def)
  have ne: "pre @ oct n \<noteq> []" using oct_digits [of n] by simp
  have "unat (of_nat n :: u32) = n" using assms(1) by (simp add: unsigned_of_nat take_bit_nat_eq_self)
  then show ?thesis
    using trim_between_blanks [OF g ne] octal_digits_oct [OF assms(2), of n] from_str_radix_8_oct [OF assms(1)] oct_digits [of n]
    by (simp add: parse_octal_mode_def Let_def)
qed

text \<open>
  The guard against mode 0 looks at the number, not at the permission bits: a mode that is a multiple of 010000 passes it,
  and its permission bits are 0.
\<close>

lemma chmod_guard_high_bits:
  "parse_octal_mode (Some ''10000'') = Inr 4096 \<and> validate_chmod_mode 4096 = Inr () \<and> and (4096 :: u32) 4095 = 0"
  by (simp add: parse_octal_mode_def trim_between_blanks(1) graphic_def octal_digits_def strip_prefix_def from_str_radix_8_def
      is_octal_def unoct_def validate_chmod_mode_def)

text \<open>Giving one of the two dimensions alone has no effect.\<close>

lemma one_dimension_ignored:
  "tool_open_session w sm (p\<lparr>os_rows := Some r, os_cols := None\<rparr>) = tool_open_session w sm (p\<lparr>os_rows := None, os_cols := None\<rparr>)"
  by (simp add: tool_open_session_def)

text \<open>The label of an attached session is not kept.\<close>

lemma attach_label_ignored:
  "tool_attach_remote_session w sm (p\<lparr>ap_name := n\<rparr>) = tool_attach_remote_session w sm (p\<lparr>ap_name := None\<rparr>)"
  by (simp add: tool_attach_remote_session_def)

section \<open>Witnesses\<close>

definition mcp_world :: tool_world where
  "mcp_world = \<lparr>tw_ssh_config = None, tw_open = demo_open_world, tw_io = Inr (), tw_persistent = False,
     tw_server = (\<lambda>_. demo_server), tw_local_agentd = None, tw_regex = (\<lambda>_. None), tw_ticks = [], tw_sftp = demo_sftp,
     tw_entries = (\<lambda>_. []), tw_report = (\<lambda>_. \<lparr>dr_files = 0, dr_skipped = []\<rparr>), tw_exec = (\<lambda>_. Inr []), tw_boot = boot_demo\<rparr>"

lemma mcp_world_sel: "tw_io mcp_world = Inr ()" "tw_sftp mcp_world = demo_sftp" "tw_open mcp_world = demo_open_world"
  by (simp_all add: mcp_world_def)

definition closed_demo :: smgr where
  "closed_demo = fst (close_session (now_millis mcp_world) (Inr ()) demo_sm ''sess_0'')"

lemma demo_tools_run: "\<exists>os. tools demo_sm [(mcp_world, CloseSession ''sess_0'')] = Some (closed_demo, os)"
  by (simp add: tool_close_session_def mcp_world_sel closed_demo_def split: prod.split)

theorem tools_keep_manager_witness: "smgr_inv closed_demo \<and> sm_policy closed_demo = sm_policy demo_sm"
proof -
  obtain os where "tools demo_sm [(mcp_world, CloseSession ''sess_0'')] = Some (closed_demo, os)" using demo_tools_run by blast
  from tools_keep_manager [OF demo_inv this] show ?thesis by blast
qed

definition demo_chmod :: chmod_params where
  "demo_chmod = \<lparr>cp_session_id = ''sess_0'', cp_remote_path = ''/home/ops'', cp_mode = ''10000''\<rparr>"

lemma demo_chmod_run:
  "\<exists>r. tool mcp_world demo_tools (ChmodTool demo_chmod) = Some (demo_tools, [DoChmod ''/home/ops'' 4096], r)"
proof -
  have "oct 4096 = ''10000''" by (simp add: oct.simps char_of_def bit_0)
  moreover have "\<not> sublist ''777'' ''10000''" by (simp add: sublist_Cons_right)
  ultimately have pol: "check_policy demo_tools (SftpChmod ''/home/ops'' (oct 4096)) = Inr ()"
    by (simp add: policy_allows demo_tools_sel with_default_def authorize_def check_sftp_chmod_def)
  have rem: "remote_check demo_sftp demo_tools ''sess_0'' ''/home/ops'' Chmod = Inr ()"
    by (simp add: remote_check_def demo_tools_sel demo_sftp_def check_remote_access_def needs_home_def expand_tilde_def
      check_scope_and_safety_def effective_roots_def is_under_remote_def trim_end_char_def hard_safety_deny_def
      authorized_keys_def authorized_keys2_def suffix_to_prefix strip_prefix_def)
  show ?thesis
    using chmod_guard_high_bits
    by (simp add: tool_sftp_chmod_def demo_chmod_def mcp_world_sel sftp_chmod_def and_then_def pol demo_open_tools rem call_def
        split: prod.split)
qed

theorem tool_calls_checked_witness:
  "remote_check demo_sftp demo_tools ''sess_0'' ''/home/ops'' Chmod = Inr () \<and>
   (\<exists>m. parse_octal_mode (Some ''10000'') = Inr m \<and> m \<noteq> 0)"
proof -
  obtain r where run: "tool mcp_world demo_tools (ChmodTool demo_chmod) = Some (demo_tools, [DoChmod ''/home/ops'' 4096], r)"
    using demo_chmod_run by blast
  show ?thesis using tool_calls_checked [OF run] by (auto simp: demo_chmod_def mcp_world_sel)
qed

definition lost_id :: tool_error where
  "lost_id = from_term (SessionNotFound ''sess_9'')"

end
