(* ===== verification/Agentd_Main.thy ===== *)
theory Agentd_Main
  imports Agentd Remote_Runtime
begin

text \<open>
  The modes of the daemon's binary (agentd/src/main.rs, daemonize.rs) and the start of its server
  (\<open>RpcServer::serve\<close> of agentd/src/rpc.rs): bootstraps and daemons that share one socket path and one pid
  file on the remote host, and the proxy.  A bootstrap or a daemon is a process that takes one step per
  system call others can see; processes interleave.
\<close>

section \<open>Paths\<close>

text \<open>\<open>PathBuf::from(a).join(b)\<close> on Unix.\<close>

definition path_join :: "string \<Rightarrow> string \<Rightarrow> string" where
  "path_join a b =
     (if prefix ''/'' b then b else if a = [] \<or> suffix ''/'' a then a @ b else a @ ''/'' @ b)"

definition default_socket_path :: "(string \<Rightarrow> string option) \<Rightarrow> string" where
  "default_socket_path env =
     (case env ''XDG_RUNTIME_DIR'' of
        Some xdg \<Rightarrow> path_join xdg ''termbridge.sock''
      | None \<Rightarrow> path_join (case env ''HOME'' of Some h \<Rightarrow> h | None \<Rightarrow> ''.'') ''.local/share/termbridge/termbridge.sock'')"

definition default_pid_path :: "(string \<Rightarrow> string option) \<Rightarrow> string" where
  "default_pid_path env =
     path_join (case env ''HOME'' of Some h \<Rightarrow> h | None \<Rightarrow> ''.'') ''.local/share/termbridge/agentd.pid''"

section \<open>Processes on the remote host\<close>

record handshake =
  hs_daemon_id :: string
  hs_protocol_version :: u32
  hs_build :: string

definition handshake_of :: "string \<Rightarrow> handshake" where
  "handshake_of daemon_id =
     \<lparr>hs_daemon_id = daemon_id, hs_protocol_version = PROTOCOL_VERSION, hs_build = BUILD_VERSION\<rparr>"

text \<open>
  A bootstrap: it looks for a daemon, spawns one, writes its pid, waits for the socket until a
  deadline, and answers; or it ends with an error.
\<close>

datatype boot_phase =
    Checking
  | Spawning
  | WritingPid nat
  | WaitingUntil nat
  | Replied handshake
  | BootError

record boot =
  bo_phase :: boot_phase
  bo_id :: string

text \<open>A daemon: it removes the file at the socket's path, binds, restricts the file, and listens.\<close>

datatype serve_phase = Clearing | Binding | Restricting | Listening | Dead

text \<open>
  The host: the daemon whose listener the socket file belongs to (it may be dead, the file then is stale), the
  daemons by pid, the pid file, the bootstraps, and the clock in milliseconds.
\<close>

record rhost =
  rh_socket :: "nat option"
  rh_daemons :: "serve_phase list"
  rh_pid_file :: "nat option"
  rh_boots :: "boot list"
  rh_now :: nat

definition accepts :: "serve_phase \<Rightarrow> bool" where
  "accepts p \<longleftrightarrow> p = Restricting \<or> p = Listening"

text \<open>Whether the path leads to a listener: a bound socket is one before its file is restricted.\<close>

definition connects :: "rhost \<Rightarrow> bool" where
  "connects h = (case rh_socket h of None \<Rightarrow> False | Some d \<Rightarrow> accepts (rh_daemons h ! d))"

definition set_boot :: "nat \<Rightarrow> boot_phase \<Rightarrow> rhost \<Rightarrow> rhost" where
  "set_boot i p h = h\<lparr>rh_boots := (rh_boots h)[i := (rh_boots h ! i)\<lparr>bo_phase := p\<rparr>]\<rparr>"

definition set_daemon :: "nat \<Rightarrow> serve_phase \<Rightarrow> rhost \<Rightarrow> rhost" where
  "set_daemon d p h = h\<lparr>rh_daemons := (rh_daemons h)[d := p]\<rparr>"

definition READY_WAIT_MS :: nat where "READY_WAIT_MS = 3000"

text \<open>
  One step of a bootstrap.  \<open>ok\<close> says whether the step's own system call succeeds: the connection, where there is a listener, the spawn,
  the write of the pid file.  Any error of the connection counts as no daemon, also that of a listener whose queue is full.
\<close>

definition bootstrap_step :: "bool \<Rightarrow> nat \<Rightarrow> rhost \<Rightarrow> rhost" where
  "bootstrap_step ok i h =
     (case bo_phase (rh_boots h ! i) of
        Checking \<Rightarrow> set_boot i (if ok \<and> connects h then Replied (handshake_of ''existing'') else Spawning) h
      | Spawning \<Rightarrow>
          if ok then set_boot i (WritingPid (length (rh_daemons h))) (h\<lparr>rh_daemons := rh_daemons h @ [Clearing]\<rparr>)
          else set_boot i BootError h
      | WritingPid d \<Rightarrow>
          if ok then set_boot i (WaitingUntil (rh_now h + READY_WAIT_MS)) (h\<lparr>rh_pid_file := Some d\<rparr>)
          else set_boot i BootError h
      | WaitingUntil deadline \<Rightarrow>
          if deadline \<le> rh_now h \<or> ok \<and> connects h then set_boot i (Replied (handshake_of (bo_id (rh_boots h ! i)))) h
          else h
      | Replied _ \<Rightarrow> h
      | BootError \<Rightarrow> h)"

text \<open>
  One step of a daemon.  A bind fails where a file exists, and restricting fails where none does; both end the process.
\<close>

definition serve_step :: "nat \<Rightarrow> rhost \<Rightarrow> rhost" where
  "serve_step d h =
     (case rh_daemons h ! d of
        Clearing \<Rightarrow> set_daemon d Binding (h\<lparr>rh_socket := None\<rparr>)
      | Binding \<Rightarrow>
          if rh_socket h = None then set_daemon d Restricting (h\<lparr>rh_socket := Some d\<rparr>) else set_daemon d Dead h
      | Restricting \<Rightarrow> set_daemon d (if rh_socket h = None then Dead else Listening) h
      | Listening \<Rightarrow> h
      | Dead \<Rightarrow> h)"

definition new_boot :: "string \<Rightarrow> rhost \<Rightarrow> rhost" where
  "new_boot daemon_id h = h\<lparr>rh_boots := rh_boots h @ [\<lparr>bo_phase = Checking, bo_id = daemon_id\<rparr>]\<rparr>"

definition rhost_new :: rhost where
  "rhost_new = \<lparr>rh_socket = None, rh_daemons = [], rh_pid_file = None, rh_boots = [], rh_now = 0\<rparr>"

text \<open>
  The steps of a host: time passes, a bootstrap is started (\<open>may\<close> says when), a bootstrap or a daemon moves on, or a
  daemon is killed.  \<open>refuse\<close> says whether the first connection of a bootstrap may fail although somebody listens.
\<close>

inductive host_step :: "(rhost \<Rightarrow> bool) \<Rightarrow> bool \<Rightarrow> rhost \<Rightarrow> rhost \<Rightarrow> bool" for may refuse where
  time_step: "host_step may refuse h (h\<lparr>rh_now := rh_now h + ms\<rparr>)"
| start_step: "may h \<Longrightarrow> host_step may refuse h (new_boot daemon_id h)"
| boot_step: "i < length (rh_boots h) \<Longrightarrow> ok \<or> refuse \<or> bo_phase (rh_boots h ! i) \<noteq> Checking \<Longrightarrow> host_step may refuse h (bootstrap_step ok i h)"
| daemon_step: "d < length (rh_daemons h) \<Longrightarrow> host_step may refuse h (serve_step d h)"
| kill_step: "d < length (rh_daemons h) \<Longrightarrow> host_step may refuse h (set_daemon d Dead h)"

definition finished :: "boot_phase \<Rightarrow> bool" where
  "finished p = (case p of Replied _ \<Rightarrow> True | BootError \<Rightarrow> True | _ \<Rightarrow> False)"

text \<open>Nothing is on its way: every bootstrap has ended and every daemon listens or is dead.\<close>

definition settled :: "rhost \<Rightarrow> bool" where
  "settled h \<longleftrightarrow> list_all (\<lambda>b. finished (bo_phase b)) (rh_boots h) \<and>
     list_all (\<lambda>p. p = Listening \<or> p = Dead) (rh_daemons h)"

section \<open>One daemon\<close>

text \<open>
  What holds if bootstraps start only in settled states: one bootstrap is under way at most, it spawns only where no
  daemon lives, and one daemon lives at most; a daemon that has bound owns the socket file, and it is the one in the pid
  file unless its bootstrap has not written it yet or failed to.
\<close>

definition busy :: "rhost \<Rightarrow> nat \<Rightarrow> bool" where
  "busy h i \<longleftrightarrow> i < length (rh_boots h) \<and> \<not> finished (bo_phase (rh_boots h ! i))"

definition alive :: "rhost \<Rightarrow> nat \<Rightarrow> bool" where
  "alive h d \<longleftrightarrow> d < length (rh_daemons h) \<and> rh_daemons h ! d \<noteq> Dead"

definition host_inv :: "rhost \<Rightarrow> bool" where
  "host_inv h \<longleftrightarrow>
     (\<forall>i j. busy h i \<longrightarrow> busy h j \<longrightarrow> i = j) \<and>
     (\<forall>d e. alive h d \<longrightarrow> alive h e \<longrightarrow> d = e) \<and>
     (\<forall>i d. busy h i \<longrightarrow> bo_phase (rh_boots h ! i) = Spawning \<longrightarrow> \<not> alive h d) \<and>
     (\<forall>i d. busy h i \<longrightarrow> bo_phase (rh_boots h ! i) = Checking \<longrightarrow> alive h d \<longrightarrow> rh_daemons h ! d = Listening) \<and>
     (\<forall>i d. busy h i \<longrightarrow> bo_phase (rh_boots h ! i) = WritingPid d \<longrightarrow>
        d < length (rh_daemons h) \<and> (\<forall>e. alive h e \<longrightarrow> e = d)) \<and>
     (\<forall>d. d < length (rh_daemons h) \<longrightarrow> accepts (rh_daemons h ! d) \<longrightarrow> rh_socket h = Some d) \<and>
     (\<forall>d. alive h d \<longrightarrow> rh_pid_file h = Some d \<or>
        (\<exists>i < length (rh_boots h). bo_phase (rh_boots h ! i) = BootError \<or> bo_phase (rh_boots h ! i) = WritingPid d))"

lemma inv_rhost_new: "host_inv rhost_new"
  by (simp add: host_inv_def rhost_new_def busy_def alive_def)

lemma host_sel [simp]:
  "rh_daemons (set_boot i p h) = rh_daemons h" "rh_socket (set_boot i p h) = rh_socket h"
  "rh_pid_file (set_boot i p h) = rh_pid_file h" "length (rh_boots (set_boot i p h)) = length (rh_boots h)"
  "rh_boots (set_daemon d q h) = rh_boots h" "rh_socket (set_daemon d q h) = rh_socket h"
  "rh_pid_file (set_daemon d q h) = rh_pid_file h" "length (rh_daemons (set_daemon d q h)) = length (rh_daemons h)"
  by (simp_all add: set_boot_def set_daemon_def)

lemma phase_set_boot [simp]:
  "i < length (rh_boots h) \<Longrightarrow> bo_phase (rh_boots (set_boot i p h) ! j) = (if j = i then p else bo_phase (rh_boots h ! j))"
  by (simp add: set_boot_def nth_list_update)

lemma daemon_set_daemon [simp]:
  "d < length (rh_daemons h) \<Longrightarrow> rh_daemons (set_daemon d q h) ! e = (if e = d then q else rh_daemons h ! e)"
  by (simp add: set_daemon_def nth_list_update)

lemma busy_set_boot:
  "i < length (rh_boots h) \<Longrightarrow> busy (set_boot i p h) j \<longleftrightarrow> (if j = i then \<not> finished p else busy h j)"
  by (auto simp: busy_def)

lemma busy_simps [simp]: "busy (set_daemon d q h) = busy h" "busy (h\<lparr>rh_now := t\<rparr>) = busy h"
  "busy (h\<lparr>rh_socket := s\<rparr>) = busy h" "busy (h\<lparr>rh_pid_file := f\<rparr>) = busy h" "busy (h\<lparr>rh_daemons := ds\<rparr>) = busy h"
  by (simp_all add: busy_def fun_eq_iff)

lemma alive_simps [simp]: "alive (set_boot i p h) = alive h" "alive (h\<lparr>rh_now := t\<rparr>) = alive h"
  "alive (h\<lparr>rh_socket := s\<rparr>) = alive h" "alive (h\<lparr>rh_pid_file := f\<rparr>) = alive h" "alive (new_boot n h) = alive h"
  by (simp_all add: alive_def new_boot_def fun_eq_iff)

lemma alive_set_daemon:
  "d < length (rh_daemons h) \<Longrightarrow> alive (set_daemon d q h) e \<longleftrightarrow> (if e = d then q \<noteq> Dead else alive h e)"
  by (auto simp: alive_def)

lemma alive_accepts: "d < length (rh_daemons h) \<Longrightarrow> accepts (rh_daemons h ! d) \<Longrightarrow> alive h d"
  by (auto simp: alive_def accepts_def)

text \<open>The parts of the invariant, as rules.\<close>

lemma host_invD:
  assumes "host_inv h"
  shows "busy h i \<Longrightarrow> busy h j \<Longrightarrow> i = j" "alive h d \<Longrightarrow> alive h e \<Longrightarrow> d = e"
    "busy h i \<Longrightarrow> bo_phase (rh_boots h ! i) = Spawning \<Longrightarrow> \<not> alive h d"
    "busy h i \<Longrightarrow> bo_phase (rh_boots h ! i) = Checking \<Longrightarrow> alive h d \<Longrightarrow> rh_daemons h ! d = Listening"
    "busy h i \<Longrightarrow> bo_phase (rh_boots h ! i) = WritingPid d \<Longrightarrow> d < length (rh_daemons h)"
    "busy h i \<Longrightarrow> bo_phase (rh_boots h ! i) = WritingPid d \<Longrightarrow> alive h e \<Longrightarrow> e = d"
    "d < length (rh_daemons h) \<Longrightarrow> accepts (rh_daemons h ! d) \<Longrightarrow> rh_socket h = Some d"
    "alive h d \<Longrightarrow> rh_pid_file h = Some d \<or>
        (\<exists>i < length (rh_boots h). bo_phase (rh_boots h ! i) = BootError \<or> bo_phase (rh_boots h ! i) = WritingPid d)"
  using assms unfolding host_inv_def by blast+

lemma host_invI:
  assumes "\<And>i j. busy h i \<Longrightarrow> busy h j \<Longrightarrow> i = j" "\<And>d e. alive h d \<Longrightarrow> alive h e \<Longrightarrow> d = e"
    "\<And>i d. busy h i \<Longrightarrow> bo_phase (rh_boots h ! i) = Spawning \<Longrightarrow> \<not> alive h d"
    "\<And>i d. busy h i \<Longrightarrow> bo_phase (rh_boots h ! i) = Checking \<Longrightarrow> alive h d \<Longrightarrow> rh_daemons h ! d = Listening"
    "\<And>i d. busy h i \<Longrightarrow> bo_phase (rh_boots h ! i) = WritingPid d \<Longrightarrow> d < length (rh_daemons h)"
    "\<And>i d e. busy h i \<Longrightarrow> bo_phase (rh_boots h ! i) = WritingPid d \<Longrightarrow> alive h e \<Longrightarrow> e = d"
    "\<And>d. d < length (rh_daemons h) \<Longrightarrow> accepts (rh_daemons h ! d) \<Longrightarrow> rh_socket h = Some d"
    "\<And>d. alive h d \<Longrightarrow> rh_pid_file h = Some d \<or>
        (\<exists>i < length (rh_boots h). bo_phase (rh_boots h ! i) = BootError \<or> bo_phase (rh_boots h ! i) = WritingPid d)"
  shows "host_inv h"
  unfolding host_inv_def using assms by (intro conjI allI impI) blast+

text \<open>A step of a living daemon: it stays alive or dies, and nobody else owned the socket.\<close>

lemma inv_daemon:
  assumes inv: "host_inv h" and d: "alive h d"
    and same: "rh_boots h' = rh_boots h" "rh_pid_file h' = rh_pid_file h" "rh_daemons h' = (rh_daemons h)[d := q]"
    and chk: "\<And>i. busy h i \<Longrightarrow> bo_phase (rh_boots h ! i) = Checking \<Longrightarrow> q = Listening \<or> q = Dead"
    and socket: "accepts q \<Longrightarrow> rh_socket h' = Some d"
  shows "host_inv h'"
proof (rule host_invI)
  have len: "d < length (rh_daemons h)" using d by (simp add: alive_def)
  have nth: "rh_daemons h' ! e = (if e = d then q else rh_daemons h ! e)" for e using len same(3) by (simp add: nth_list_update)
  have al: "alive h' e \<Longrightarrow> alive h e \<and> e = d" for e
    using host_invD(2) [OF inv _ d, of e] d nth [of e] same(3) by (cases "e = d") (auto simp: alive_def)
  have bu: "busy h' = busy h" using same(1) by (simp add: busy_def fun_eq_iff)
  fix i j e e'
  show "busy h' i \<Longrightarrow> busy h' j \<Longrightarrow> i = j" using host_invD(1) [OF inv] bu by simp
  show "alive h' e \<Longrightarrow> alive h' e' \<Longrightarrow> e = e'" using al by blast
  show "busy h' i \<Longrightarrow> bo_phase (rh_boots h' ! i) = Spawning \<Longrightarrow> \<not> alive h' e"
    using al [of e] host_invD(3) [OF inv, of i e] unfolding bu same(1) by blast
  show "busy h' i \<Longrightarrow> bo_phase (rh_boots h' ! i) = Checking \<Longrightarrow> alive h' e \<Longrightarrow> rh_daemons h' ! e = Listening"
    using al [of e] chk [of i] nth [of e] unfolding bu same(1) alive_def by metis
  show "busy h' i \<Longrightarrow> bo_phase (rh_boots h' ! i) = WritingPid e \<Longrightarrow> e < length (rh_daemons h')"
    using host_invD(5) [OF inv, of i e] bu same by simp
  show "busy h' i \<Longrightarrow> bo_phase (rh_boots h' ! i) = WritingPid e \<Longrightarrow> alive h' e' \<Longrightarrow> e' = e"
    using al [of e'] host_invD(6) [OF inv, of i e e'] unfolding bu same(1) by blast
  show "e < length (rh_daemons h') \<Longrightarrow> accepts (rh_daemons h' ! e) \<Longrightarrow> rh_socket h' = Some e"
    using al [of e] alive_accepts [of e h'] socket nth [of e] by metis
  show "alive h' e \<Longrightarrow> rh_pid_file h' = Some e \<or>
      (\<exists>i < length (rh_boots h'). bo_phase (rh_boots h' ! i) = BootError \<or> bo_phase (rh_boots h' ! i) = WritingPid e)"
    using al [of e] host_invD(8) [OF inv, of e] unfolding same(1,2) by blast
qed

lemma set_daemon_id: "d < length (rh_daemons h) \<Longrightarrow> rh_daemons h ! d = q \<Longrightarrow> set_daemon d q h = h"
  by (simp add: set_daemon_def list_update_same_conv)

lemma inv_kill:
  assumes inv: "host_inv h" and len: "d < length (rh_daemons h)"
  shows "host_inv (set_daemon d Dead h)"
proof (cases "rh_daemons h ! d = Dead")
  case True
  then show ?thesis using inv len by (simp add: set_daemon_id)
next
  case False
  then have "alive h d" using len by (simp add: alive_def)
  from inv_daemon [OF inv this, where q = Dead] show ?thesis by (simp add: set_daemon_def accepts_def)
qed

lemma inv_serve:
  assumes inv: "host_inv h" and len: "d < length (rh_daemons h)"
  shows "host_inv (serve_step d h)"
proof -
  have not_checking: "bo_phase (rh_boots h ! i) \<noteq> Checking" if "busy h i" "rh_daemons h ! d \<notin> {Listening, Dead}" for i
    using host_invD(4) [OF inv that(1), of d] that(2) len by (auto simp: alive_def)
  have al: "alive h d" if "rh_daemons h ! d \<noteq> Dead" using that len by (simp add: alive_def)
  show ?thesis
  proof (cases "rh_daemons h ! d")
    case Clearing
    then show ?thesis using inv_daemon [OF inv al, where q = Binding] not_checking
      by (simp add: serve_step_def set_daemon_def accepts_def)
  next
    case Binding
    then show ?thesis
      using inv_daemon [OF inv al, where q = Restricting and h' = "set_daemon d Restricting (h\<lparr>rh_socket := Some d\<rparr>)"]
        inv_kill [OF inv len] not_checking
      by (simp add: serve_step_def set_daemon_def)
  next
    case Restricting
    then have "rh_socket h = Some d" using host_invD(7) [OF inv len] by (simp add: accepts_def)
    then show ?thesis using Restricting inv_daemon [OF inv al, where q = Listening] not_checking
      by (simp add: serve_step_def set_daemon_def)
  qed (simp_all add: serve_step_def inv)
qed

text \<open>A step of the bootstrap under way that spawns nothing.\<close>

lemma inv_phase:
  assumes inv: "host_inv h" and i: "busy h i"
    and same: "rh_daemons h' = rh_daemons h" "rh_socket h' = rh_socket h" "rh_boots h' = rh_boots (set_boot i p h)"
    and p: "p \<noteq> Checking" "\<And>d. p \<noteq> WritingPid d" "\<And>d. p = Spawning \<Longrightarrow> \<not> alive h d"
    and pid: "\<And>d. alive h d \<Longrightarrow> rh_pid_file h' = Some d \<or> p = BootError \<or>
      rh_pid_file h' = rh_pid_file h \<and> bo_phase (rh_boots h ! i) \<noteq> WritingPid d"
  shows "host_inv h'"
proof (rule host_invI)
  have len: "i < length (rh_boots h)" using i by (simp add: busy_def)
  have ph: "bo_phase (rh_boots h' ! j) = (if j = i then p else bo_phase (rh_boots h ! j))" for j using len same(3) by simp
  have lenb: "length (rh_boots h') = length (rh_boots h)" using same(3) by simp
  have al: "alive h' = alive h" using same(1) by (simp add: alive_def fun_eq_iff)
  have bu: "busy h' j \<Longrightarrow> j = i" for j
    using host_invD(1) [OF inv i, of j] ph [of j] lenb by (auto simp: busy_def split: if_splits)
  fix j k d e
  show "busy h' j \<Longrightarrow> busy h' k \<Longrightarrow> j = k" using bu by metis
  show "alive h' d \<Longrightarrow> alive h' e \<Longrightarrow> d = e" using host_invD(2) [OF inv] unfolding al by blast
  show "busy h' j \<Longrightarrow> bo_phase (rh_boots h' ! j) = Spawning \<Longrightarrow> \<not> alive h' d"
    using bu [of j] ph [of j] p(3) unfolding al by simp
  show "busy h' j \<Longrightarrow> bo_phase (rh_boots h' ! j) = Checking \<Longrightarrow> alive h' d \<Longrightarrow> rh_daemons h' ! d = Listening"
    using bu [of j] ph [of j] p(1) by simp
  show "busy h' j \<Longrightarrow> bo_phase (rh_boots h' ! j) = WritingPid d \<Longrightarrow> d < length (rh_daemons h')"
    using bu [of j] ph [of j] p(2) by simp
  show "busy h' j \<Longrightarrow> bo_phase (rh_boots h' ! j) = WritingPid d \<Longrightarrow> alive h' e \<Longrightarrow> e = d"
    using bu [of j] ph [of j] p(2) by simp
  show "d < length (rh_daemons h') \<Longrightarrow> accepts (rh_daemons h' ! d) \<Longrightarrow> rh_socket h' = Some d"
    using host_invD(7) [OF inv] unfolding same by blast
  assume a: "alive h' d"
  have error: "\<exists>j < length (rh_boots h'). bo_phase (rh_boots h' ! j) = BootError" if "p = BootError"
    using that ph [of i] len lenb by (intro exI [of _ i]) simp
  have keep: "\<exists>j < length (rh_boots h'). bo_phase (rh_boots h' ! j) = BootError \<or> bo_phase (rh_boots h' ! j) = WritingPid d"
    if "j < length (rh_boots h)" "bo_phase (rh_boots h ! j) = BootError \<or> bo_phase (rh_boots h ! j) = WritingPid d"
      "bo_phase (rh_boots h ! i) \<noteq> WritingPid d" for j
  proof -
    have "j \<noteq> i" using that i by (auto simp: busy_def finished_def)
    then show ?thesis using that ph [of j] lenb by auto
  qed
  show "rh_pid_file h' = Some d \<or>
      (\<exists>j < length (rh_boots h'). bo_phase (rh_boots h' ! j) = BootError \<or> bo_phase (rh_boots h' ! j) = WritingPid d)"
    using pid [of d] host_invD(8) [OF inv, of d] a error keep unfolding al by metis
qed

lemma inv_spawn:
  assumes inv: "host_inv h" and i: "busy h i" and ph: "bo_phase (rh_boots h ! i) = Spawning"
  shows "host_inv (set_boot i (WritingPid (length (rh_daemons h))) (h\<lparr>rh_daemons := rh_daemons h @ [Clearing]\<rparr>))"
    (is "host_inv ?h")
proof (rule host_invI)
  let ?n = "length (rh_daemons h)"
  have len: "i < length (rh_boots h)" using i by (simp add: busy_def)
  have none: "\<not> alive h d" for d using host_invD(3) [OF inv i ph] .
  have al: "alive ?h d \<Longrightarrow> d = ?n" for d
    using none [of d] by (auto simp: alive_def nth_append less_Suc_eq split: if_splits)
  have bu: "busy ?h j \<Longrightarrow> j = i" for j
    using host_invD(1) [OF inv i, of j] len by (auto simp: busy_set_boot split: if_splits)
  fix j k d e
  show "busy ?h j \<Longrightarrow> busy ?h k \<Longrightarrow> j = k" using bu by metis
  show "alive ?h d \<Longrightarrow> alive ?h e \<Longrightarrow> d = e" using al by metis
  show "busy ?h j \<Longrightarrow> bo_phase (rh_boots ?h ! j) = Spawning \<Longrightarrow> \<not> alive ?h d" using bu [of j] len by auto
  show "busy ?h j \<Longrightarrow> bo_phase (rh_boots ?h ! j) = Checking \<Longrightarrow> alive ?h d \<Longrightarrow> rh_daemons ?h ! d = Listening"
    using bu [of j] len by auto
  show "busy ?h j \<Longrightarrow> bo_phase (rh_boots ?h ! j) = WritingPid d \<Longrightarrow> d < length (rh_daemons ?h)" using bu [of j] len by auto
  show "busy ?h j \<Longrightarrow> bo_phase (rh_boots ?h ! j) = WritingPid d \<Longrightarrow> alive ?h e \<Longrightarrow> e = d" using bu [of j] al [of e] len by auto
  show "d < length (rh_daemons ?h) \<Longrightarrow> accepts (rh_daemons ?h ! d) \<Longrightarrow> rh_socket ?h = Some d"
    using host_invD(7) [OF inv, of d] by (auto simp: nth_append accepts_def less_Suc_eq split: if_splits)
  show "alive ?h d \<Longrightarrow> rh_pid_file ?h = Some d \<or>
      (\<exists>j < length (rh_boots ?h). bo_phase (rh_boots ?h ! j) = BootError \<or> bo_phase (rh_boots ?h ! j) = WritingPid d)"
    using al [of d] len by (intro disjI2 exI [of _ i]) simp
qed

lemma inv_bootstrap:
  assumes inv: "host_inv h" and len: "i < length (rh_boots h)" and sure: "ok \<or> bo_phase (rh_boots h ! i) \<noteq> Checking"
  shows "host_inv (bootstrap_step ok i h)"
proof (cases "busy h i")
  case False
  then show ?thesis using inv len
    by (auto simp: busy_def bootstrap_step_def finished_def split: boot_phase.splits)
next
  case True
  have no_daemon: "\<not> alive h d" if "bo_phase (rh_boots h ! i) = Checking" "\<not> connects h" for d
  proof
    assume d: "alive h d"
    then have "rh_daemons h ! d = Listening" using host_invD(4) [OF inv True that(1)] by blast
    then show False using host_invD(7) [OF inv, of d] d that(2) by (simp add: connects_def alive_def accepts_def)
  qed
  show ?thesis
  proof (cases "bo_phase (rh_boots h ! i)")
    case Checking
    then show ?thesis
      using no_daemon inv_phase [OF inv True, of "bootstrap_step ok i h" "Replied (handshake_of ''existing'')"]
        inv_phase [OF inv True, of "bootstrap_step ok i h" Spawning]
        sure by (cases "connects h") (simp_all add: bootstrap_step_def)
  next
    case Spawning
    then show ?thesis using inv_spawn [OF inv True] inv_phase [OF inv True, of "bootstrap_step ok i h" BootError]
      by (auto simp: bootstrap_step_def)
  next
    case (WritingPid d)
    have "e = d" if "alive h e" for e using host_invD(6) [OF inv True WritingPid that] .
    then show ?thesis
      using WritingPid inv_phase [OF inv True, of "bootstrap_step ok i h" BootError]
        inv_phase [OF inv True, of "bootstrap_step ok i h" "WaitingUntil (rh_now h + READY_WAIT_MS)"]
      by (auto simp: bootstrap_step_def set_boot_def)
  next
    case (WaitingUntil t)
    then show ?thesis
      using inv inv_phase [OF inv True, of "bootstrap_step ok i h" "Replied (handshake_of (bo_id (rh_boots h ! i)))"]
      by (auto simp: bootstrap_step_def)
  qed (use True in \<open>simp_all add: busy_def finished_def\<close>)
qed

lemma inv_new_boot:
  assumes inv: "host_inv h" and settled: "settled h"
  shows "host_inv (new_boot daemon_id h)"
proof (rule host_invI)
  let ?h = "new_boot daemon_id h" and ?n = "length (rh_boots h)"
  have ended: "finished (bo_phase (rh_boots h ! j))" if "j < ?n" for j using settled that by (simp add: settled_def list_all_length)
  have nth: "rh_boots ?h ! j = (if j < ?n then rh_boots h ! j else \<lparr>bo_phase = Checking, bo_id = daemon_id\<rparr>)" if "j < length (rh_boots ?h)" for j
    using that by (auto simp: new_boot_def nth_append less_Suc_eq)
  have bu: "busy ?h j \<Longrightarrow> j = ?n" for j
    using ended [of j] nth [of j] by (cases "j < ?n") (auto simp: busy_def new_boot_def)
  have same: "rh_daemons ?h = rh_daemons h" "rh_socket ?h = rh_socket h" "rh_pid_file ?h = rh_pid_file h" "length (rh_boots ?h) = Suc ?n"
    by (simp_all add: new_boot_def)
  have new: "bo_phase (rh_boots ?h ! ?n) = Checking" by (simp add: new_boot_def)
  fix j k d e
  show "busy ?h j \<Longrightarrow> busy ?h k \<Longrightarrow> j = k" using bu by metis
  show "alive ?h d \<Longrightarrow> alive ?h e \<Longrightarrow> d = e" using host_invD(2) [OF inv] by simp
  show "busy ?h j \<Longrightarrow> bo_phase (rh_boots ?h ! j) = Spawning \<Longrightarrow> \<not> alive ?h d" using bu [of j] new by auto
  show "busy ?h j \<Longrightarrow> bo_phase (rh_boots ?h ! j) = Checking \<Longrightarrow> alive ?h d \<Longrightarrow> rh_daemons ?h ! d = Listening"
    using settled unfolding same by (auto simp: settled_def list_all_length alive_def)
  show "busy ?h j \<Longrightarrow> bo_phase (rh_boots ?h ! j) = WritingPid d \<Longrightarrow> d < length (rh_daemons ?h)" using bu [of j] new by auto
  show "busy ?h j \<Longrightarrow> bo_phase (rh_boots ?h ! j) = WritingPid d \<Longrightarrow> alive ?h e \<Longrightarrow> e = d" using bu [of j] new by auto
  show "d < length (rh_daemons ?h) \<Longrightarrow> accepts (rh_daemons ?h ! d) \<Longrightarrow> rh_socket ?h = Some d"
    using host_invD(7) [OF inv] unfolding same by blast
  have keep: "\<exists>j < length (rh_boots ?h). bo_phase (rh_boots ?h ! j) = BootError \<or> bo_phase (rh_boots ?h ! j) = WritingPid d"
    if "j < ?n" "bo_phase (rh_boots h ! j) = BootError \<or> bo_phase (rh_boots h ! j) = WritingPid d" for j
    using that nth [of j] same(4) by (intro exI [of _ j]) simp
  show "alive ?h d \<Longrightarrow> rh_pid_file ?h = Some d \<or>
      (\<exists>j < length (rh_boots ?h). bo_phase (rh_boots ?h ! j) = BootError \<or> bo_phase (rh_boots ?h ! j) = WritingPid d)"
    using host_invD(8) [OF inv, of d] keep unfolding same(3) by auto
qed

lemma inv_host_run: "(host_step settled False)\<^sup>*\<^sup>* h h' \<Longrightarrow> host_inv h \<Longrightarrow> host_inv h'"
proof (induction rule: rtranclp_induct)
  case (step h1 h2)
  then have inv: "host_inv h1" by simp
  from step.hyps(2) show ?case
  proof cases
    case (time_step ms)
    then show ?thesis using inv by (simp add: host_inv_def busy_def alive_def)
  qed (use inv inv_new_boot inv_bootstrap inv_serve inv_kill in auto)
qed

section \<open>Properties\<close>

text \<open>
  (C20) One daemon.  If a bootstrap starts only when nothing else is on its way, and if the first connection of a bootstrap does not fail
  where a daemon listens, then however the processes interleave and whatever else fails
  or is killed, at most one daemon lives; a daemon that accepts connections is the one the socket leads to; a bootstrap about to spawn
  finds none alive; and once every bootstrap has answered, the pid file names the daemon that lives.  Both conditions are needed: the code
  takes any error of that connection for a missing daemon.
\<close>

theorem one_daemon:
  assumes "(host_step settled False)\<^sup>*\<^sup>* rhost_new h"
  shows "length (filter (\<lambda>p. p \<noteq> Dead) (rh_daemons h)) \<le> 1 \<and>
    list_all (\<lambda>d. accepts (rh_daemons h ! d) \<longrightarrow> rh_socket h = Some d) [0..<length (rh_daemons h)] \<and>
    (list_ex (\<lambda>b. bo_phase b = Spawning) (rh_boots h) \<longrightarrow> list_all (\<lambda>p. p = Dead) (rh_daemons h)) \<and>
    (list_all (\<lambda>b. finished (bo_phase b) \<and> bo_phase b \<noteq> BootError) (rh_boots h) \<longrightarrow>
       list_all (\<lambda>d. rh_daemons h ! d = Dead \<or> rh_pid_file h = Some d) [0..<length (rh_daemons h)])"
proof -
  have inv: "host_inv h" using inv_host_run [OF assms inv_rhost_new] .
  have "length (filter (\<lambda>p. p \<noteq> Dead) (rh_daemons h)) \<le> 1"
  proof -
    have "length (filter (\<lambda>p. p \<noteq> Dead) (rh_daemons h)) = card {d. alive h d}"
      by (simp add: length_filter_conv_card alive_def)
    also have "\<dots> \<le> 1" using host_invD(2) [OF inv] by (simp add: card_le_Suc0_iff_eq alive_def)
    finally show ?thesis .
  qed
  moreover have "list_all (\<lambda>d. accepts (rh_daemons h ! d) \<longrightarrow> rh_socket h = Some d) [0..<length (rh_daemons h)]"
    using host_invD(7) [OF inv] by (auto simp: list_all_iff)
  moreover have "list_all (\<lambda>p. p = Dead) (rh_daemons h)" if spawn: "list_ex (\<lambda>b. bo_phase b = Spawning) (rh_boots h)"
  proof -
    obtain i where "i < length (rh_boots h)" "bo_phase (rh_boots h ! i) = Spawning" using spawn by (auto simp: list_ex_length)
    then have "\<not> alive h d" for d using host_invD(3) [OF inv, of i d] by (simp add: busy_def finished_def)
    then show ?thesis by (auto simp: list_all_length alive_def)
  qed
  moreover have "list_all (\<lambda>d. rh_daemons h ! d = Dead \<or> rh_pid_file h = Some d) [0..<length (rh_daemons h)]"
    if "list_all (\<lambda>b. finished (bo_phase b) \<and> bo_phase b \<noteq> BootError) (rh_boots h)"
    using that host_invD(8) [OF inv] by (fastforce simp: list_all_length alive_def finished_def)
  ultimately show ?thesis by blast
qed

section \<open>Runs\<close>

lemma host_runI:
  "(host_step may refuse)\<^sup>*\<^sup>* h0 h \<Longrightarrow> (host_step may refuse)\<^sup>*\<^sup>* h0 (h\<lparr>rh_now := rh_now h + ms\<rparr>)"
  "(host_step may refuse)\<^sup>*\<^sup>* h0 h \<Longrightarrow> may h \<Longrightarrow> (host_step may refuse)\<^sup>*\<^sup>* h0 (new_boot n h)"
  "(host_step may refuse)\<^sup>*\<^sup>* h0 h \<Longrightarrow> i < length (rh_boots h) \<Longrightarrow> ok \<or> refuse \<or> bo_phase (rh_boots h ! i) \<noteq> Checking \<Longrightarrow> (host_step may refuse)\<^sup>*\<^sup>* h0 (bootstrap_step ok i h)"
  "(host_step may refuse)\<^sup>*\<^sup>* h0 h \<Longrightarrow> d < length (rh_daemons h) \<Longrightarrow> (host_step may refuse)\<^sup>*\<^sup>* h0 (serve_step d h)"
  by (blast intro: rtranclp.rtrancl_into_rtrancl host_step.intros)+

text \<open>The steps of one bootstrap alone, up to the given one of its daemon.\<close>

definition booted :: "nat \<Rightarrow> rhost" where
  "booted k = (serve_step 0 ^^ k) (bootstrap_step True 0 (bootstrap_step True 0 (bootstrap_step True 0 (new_boot ''daed_1'' rhost_new))))"

lemmas host_eval = bootstrap_step_def serve_step_def new_boot_def rhost_new_def set_boot_def set_daemon_def connects_def
  accepts_def READY_WAIT_MS_def settled_def finished_def

lemma booted_eq:
  "booted 0 = \<lparr>rh_socket = None, rh_daemons = [Clearing], rh_pid_file = Some 0,
     rh_boots = [\<lparr>bo_phase = WaitingUntil 3000, bo_id = ''daed_1''\<rparr>], rh_now = 0\<rparr>"
  "booted 3 = \<lparr>rh_socket = Some 0, rh_daemons = [Listening], rh_pid_file = Some 0,
     rh_boots = [\<lparr>bo_phase = WaitingUntil 3000, bo_id = ''daed_1''\<rparr>], rh_now = 0\<rparr>"
  by (simp_all add: booted_def host_eval eval_nat_numeral)

lemma booted_run: "(host_step settled False)\<^sup>*\<^sup>* rhost_new (booted k)"
proof (induction k)
  case 0
  show ?case unfolding booted_def by (simp, intro host_runI(2-4) rtranclp.rtrancl_refl) (simp_all add: host_eval)
next
  case (Suc k)
  have "rh_daemons (booted k) \<noteq> []"
  proof (induction k)
    case (Suc k)
    then show ?case by (simp add: booted_def serve_step_def set_daemon_def split: serve_phase.split)
  qed (simp add: booted_eq)
  then have "(host_step settled False)\<^sup>*\<^sup>* rhost_new (serve_step 0 (booted k))" using Suc by (intro host_runI(4)) simp_all
  then show ?case by (simp add: booted_def)
qed

theorem one_daemon_witness: "length (filter (\<lambda>p. p \<noteq> Dead) (rh_daemons (booted 3))) \<le> 1"
  using one_daemon [OF booted_run] by blast

text \<open>
  A bootstrap that has waited three seconds announces its daemon although nobody listens, and if the daemon could not
  be started at all nothing tells the client.
\<close>

lemma announced_without_daemon:
  "\<exists>h. (host_step settled False)\<^sup>*\<^sup>* rhost_new h \<and> \<not> connects h \<and>
     map bo_phase (rh_boots h) = [Replied (handshake_of ''daed_1'')]"
proof -
  let ?h = "bootstrap_step True 0 ((booted 0)\<lparr>rh_now := rh_now (booted 0) + 3000\<rparr>)"
  have run: "(host_step settled False)\<^sup>*\<^sup>* rhost_new ?h" by (rule host_runI(3), rule host_runI(1), rule booted_run) (simp_all add: booted_eq)
  have fin: "\<not> connects ?h \<and> map bo_phase (rh_boots ?h) = [Replied (handshake_of ''daed_1'')]"
    by (simp add: booted_eq host_eval)
  show ?thesis by (rule exI [of _ ?h]) (use run fin in blast)
qed

text \<open>
  Two bootstraps at once.  Both find no daemon and both spawn one; the second daemon removes the socket file of the first, which listens
  already.  Both bootstraps announce their daemon, both daemons live, and the first can never be reached or stopped again.
\<close>

definition race_spawned :: rhost where
  "race_spawned = bootstrap_step True 1 (bootstrap_step True 0 (bootstrap_step True 1 (bootstrap_step True 0
     (new_boot ''daed_2'' (new_boot ''daed_1'' rhost_new)))))"

definition race_first :: rhost where
  "race_first = bootstrap_step True 0 (serve_step 0 (serve_step 0 (serve_step 0
     (bootstrap_step True 1 (bootstrap_step True 0 race_spawned)))))"

definition race :: rhost where
  "race = bootstrap_step True 1 (serve_step 1 (serve_step 1 (serve_step 1 race_first)))"

definition race_state :: "nat option \<Rightarrow> serve_phase list \<Rightarrow> nat option \<Rightarrow> boot_phase \<Rightarrow> boot_phase \<Rightarrow> rhost" where
  "race_state so ds pid p q = \<lparr>rh_socket = so, rh_daemons = ds, rh_pid_file = pid,
     rh_boots = [\<lparr>bo_phase = p, bo_id = ''daed_1''\<rparr>, \<lparr>bo_phase = q, bo_id = ''daed_2''\<rparr>], rh_now = 0\<rparr>"

lemma race_eqs:
  "race_spawned = race_state None [Clearing, Clearing] None (WritingPid 0) (WritingPid 1)"
  "race_first = race_state (Some 0) [Listening, Clearing] (Some 1) (Replied (handshake_of ''daed_1'')) (WaitingUntil 3000)"
  "race = race_state (Some 1) [Listening, Listening] (Some 1) (Replied (handshake_of ''daed_1'')) (Replied (handshake_of ''daed_2''))"
proof -
  show spawned: "race_spawned = race_state None [Clearing, Clearing] None (WritingPid 0) (WritingPid 1)"
    by (simp add: race_spawned_def race_state_def host_eval)
  show first: "race_first = race_state (Some 0) [Listening, Clearing] (Some 1) (Replied (handshake_of ''daed_1'')) (WaitingUntil 3000)"
    unfolding race_first_def spawned by (simp add: race_state_def host_eval)
  show "race = race_state (Some 1) [Listening, Listening] (Some 1) (Replied (handshake_of ''daed_1'')) (Replied (handshake_of ''daed_2''))"
    unfolding race_def first by (simp add: race_state_def host_eval)
qed

lemma concurrent_bootstraps:
  "(host_step (\<lambda>_. True) False)\<^sup>*\<^sup>* rhost_new race \<and> rh_daemons race = [Listening, Listening] \<and> rh_socket race = Some 1 \<and>
   rh_pid_file race = Some 1 \<and> map bo_phase (rh_boots race) = [Replied (handshake_of ''daed_1''), Replied (handshake_of ''daed_2'')]"
proof -
  have "(host_step (\<lambda>_. True) False)\<^sup>*\<^sup>* rhost_new race_spawned"
    unfolding race_spawned_def by (intro host_runI(2-4) rtranclp.rtrancl_refl) (simp_all add: host_eval)
  then have "(host_step (\<lambda>_. True) False)\<^sup>*\<^sup>* rhost_new race_first"
    unfolding race_first_def by (intro host_runI(3,4)) (simp_all add: race_eqs(1) race_state_def host_eval)
  then have "(host_step (\<lambda>_. True) False)\<^sup>*\<^sup>* rhost_new race"
    unfolding race_def by (intro host_runI(3,4)) (simp_all add: race_eqs(2) race_state_def host_eval)
  then show ?thesis by (simp add: race_eqs(3) race_state_def)
qed

text \<open>
  One refused connection.  A second bootstrap, started when the first daemon listens, is refused by a listener that is there, as when its
  queue is full; it spawns another daemon, which removes the socket file of the first.  Two daemons live and one can be reached.
\<close>

definition answered_once :: rhost where
  "answered_once = bootstrap_step True 0 (booted 3)"

definition refused :: rhost where
  "refused = serve_step 1 (serve_step 1 (serve_step 1 (bootstrap_step True 1 (bootstrap_step False 1 (new_boot ''daed_2'' answered_once)))))"

lemma refused_eqs:
  "answered_once = \<lparr>rh_socket = Some 0, rh_daemons = [Listening], rh_pid_file = Some 0,
     rh_boots = [\<lparr>bo_phase = Replied (handshake_of ''daed_1''), bo_id = ''daed_1''\<rparr>], rh_now = 0\<rparr>"
  "refused = race_state (Some 1) [Listening, Listening] (Some 0) (Replied (handshake_of ''daed_1'')) (WritingPid 1)"
proof -
  show first: "answered_once = \<lparr>rh_socket = Some 0, rh_daemons = [Listening], rh_pid_file = Some 0,
     rh_boots = [\<lparr>bo_phase = Replied (handshake_of ''daed_1''), bo_id = ''daed_1''\<rparr>], rh_now = 0\<rparr>"
    by (simp add: answered_once_def booted_eq host_eval)
  show "refused = race_state (Some 1) [Listening, Listening] (Some 0) (Replied (handshake_of ''daed_1'')) (WritingPid 1)"
    unfolding refused_def first by (simp add: race_state_def host_eval)
qed

lemma host_step_weaken: "(host_step may False)\<^sup>*\<^sup>* h h' \<Longrightarrow> (host_step may True)\<^sup>*\<^sup>* h h'"
proof (induction rule: rtranclp_induct)
  case (step h1 h2)
  from step.hyps(2) have "host_step may True h1 h2" by cases (auto intro: host_step.intros)
  then show ?case using step.IH by (meson rtranclp.rtrancl_into_rtrancl)
qed simp

lemma refused_connection_two_daemons:
  "(host_step settled True)\<^sup>*\<^sup>* rhost_new refused \<and> rh_daemons refused = [Listening, Listening] \<and> rh_socket refused = Some 1"
proof -
  have "(host_step settled True)\<^sup>*\<^sup>* rhost_new answered_once"
    unfolding answered_once_def by (rule host_runI(3) [OF host_step_weaken [OF booted_run]]) (simp_all add: booted_eq)
  moreover have "settled answered_once" by (simp add: refused_eqs(1) settled_def finished_def)
  ultimately have "(host_step settled True)\<^sup>*\<^sup>* rhost_new refused"
    unfolding refused_def by (intro host_runI(2-4)) (simp_all add: refused_eqs(1) host_eval)
  then show ?thesis by (simp add: refused_eqs(2) race_state_def)
qed

text \<open>An error while the pid file is written leaves a daemon that the file does not name.\<close>

lemma unnamed_daemon:
  "\<exists>h. (host_step settled False)\<^sup>*\<^sup>* rhost_new h \<and> rh_daemons h = [Clearing] \<and> rh_pid_file h = None \<and> map bo_phase (rh_boots h) = [BootError]"
proof -
  let ?h = "bootstrap_step False 0 (bootstrap_step True 0 (bootstrap_step True 0 (new_boot ''daed_1'' rhost_new)))"
  have run: "(host_step settled False)\<^sup>*\<^sup>* rhost_new ?h"
    by (intro host_runI(2-4) rtranclp.rtrancl_refl) (simp_all add: host_eval)
  have fin: "rh_daemons ?h = [Clearing] \<and> rh_pid_file ?h = None \<and> map bo_phase (rh_boots ?h) = [BootError]"
    by (simp add: host_eval)
  show ?thesis by (rule exI [of _ ?h]) (use run fin in blast)
qed

section \<open>Default paths\<close>

text \<open>What the client's command prints for the socket path (\<open>remote_socket_path\<close> of the persistent provider).\<close>

definition shell_socket_path :: "(string \<Rightarrow> string option) \<Rightarrow> string" where
  "shell_socket_path env =
     (case env ''XDG_RUNTIME_DIR'' of
        Some x \<Rightarrow> if x = [] then (case env ''HOME'' of Some h \<Rightarrow> h | None \<Rightarrow> []) @ ''/.local/share/termbridge'' else x
      | None \<Rightarrow> (case env ''HOME'' of Some h \<Rightarrow> h | None \<Rightarrow> []) @ ''/.local/share/termbridge'') @ ''/termbridge.sock''"

lemma socket_paths_agree:
  assumes "env ''XDG_RUNTIME_DIR'' = Some x \<and> x \<noteq> [] \<and> \<not> suffix ''/'' x \<or>
    env ''XDG_RUNTIME_DIR'' = None \<and> env ''HOME'' = Some h \<and> h \<noteq> [] \<and> \<not> suffix ''/'' h"
  shows "default_socket_path env = shell_socket_path env"
  using assms by (auto simp: default_socket_path_def shell_socket_path_def path_join_def)

text \<open>With an empty variable the daemon's default is a path relative to its working directory.\<close>

lemma empty_runtime_dir:
  "env ''XDG_RUNTIME_DIR'' = Some [] \<Longrightarrow> default_socket_path env = ''termbridge.sock''"
  by (simp add: default_socket_path_def path_join_def)

section \<open>The proxy\<close>

text \<open>Bytes the client wrote and the daemon wrote, whether each has ended, and how many were passed on.\<close>

record proxy =
  px_stdin :: bytes
  px_stdin_eof :: bool
  px_forwarded :: nat
  px_socket :: bytes
  px_socket_eof :: bool
  px_returned :: nat
  px_ended :: bool

definition proxy_new :: proxy where
  "proxy_new = \<lparr>px_stdin = [], px_stdin_eof = False, px_forwarded = 0, px_socket = [], px_socket_eof = False,
     px_returned = 0, px_ended = False\<rparr>"

text \<open>Either copy may move or end; the first one that ends, ends the proxy.\<close>

inductive proxy_step :: "proxy \<Rightarrow> proxy \<Rightarrow> bool" where
  client_write: "\<not> px_stdin_eof x \<Longrightarrow> proxy_step x (x\<lparr>px_stdin := px_stdin x @ bs\<rparr>)"
| client_end: "proxy_step x (x\<lparr>px_stdin_eof := True\<rparr>)"
| daemon_write: "\<not> px_socket_eof x \<Longrightarrow> proxy_step x (x\<lparr>px_socket := px_socket x @ bs\<rparr>)"
| daemon_end: "proxy_step x (x\<lparr>px_socket_eof := True\<rparr>)"
| forward: "\<not> px_ended x \<Longrightarrow> px_forwarded x + n \<le> length (px_stdin x) \<Longrightarrow>
    proxy_step x (x\<lparr>px_forwarded := px_forwarded x + n\<rparr>)"
| give_back: "\<not> px_ended x \<Longrightarrow> px_returned x + n \<le> length (px_socket x) \<Longrightarrow>
    proxy_step x (x\<lparr>px_returned := px_returned x + n\<rparr>)"
| forward_end: "\<not> px_ended x \<Longrightarrow> px_stdin_eof x \<Longrightarrow> px_forwarded x = length (px_stdin x) \<Longrightarrow>
    proxy_step x (x\<lparr>px_ended := True\<rparr>)"
| give_back_end: "\<not> px_ended x \<Longrightarrow> px_socket_eof x \<Longrightarrow> px_returned x = length (px_socket x) \<Longrightarrow>
    proxy_step x (x\<lparr>px_ended := True\<rparr>)"

text \<open>The bytes passed on are a beginning of those written; a copy that ended passed on everything.\<close>

lemma proxy_forwards:
  assumes "proxy_step\<^sup>*\<^sup>* proxy_new x"
  shows "px_forwarded x \<le> length (px_stdin x) \<and> px_returned x \<le> length (px_socket x)"
  using assms by (induction rule: rtranclp_induct) (auto simp: proxy_new_def elim!: proxy_step.cases)

text \<open>A client that ends its input after its request loses the answer: the proxy ends with it.\<close>

lemma proxy_drops_answer:
  "\<exists>x. proxy_step\<^sup>*\<^sup>* proxy_new x \<and> px_ended x \<and> px_stdin x = [0x71] \<and> px_forwarded x = 1 \<and> px_socket x = [0x61] \<and> px_returned x = 0"
proof -
  let ?x1 = "proxy_new\<lparr>px_stdin := px_stdin proxy_new @ [0x71]\<rparr>"
  let ?x2 = "?x1\<lparr>px_forwarded := px_forwarded ?x1 + 1\<rparr>"
  let ?x3 = "?x2\<lparr>px_socket := px_socket ?x2 @ [0x61]\<rparr>"
  let ?x4 = "?x3\<lparr>px_stdin_eof := True\<rparr>"
  have "proxy_step proxy_new ?x1" by (rule client_write) (simp add: proxy_new_def)
  moreover have "proxy_step ?x1 ?x2" by (rule forward) (simp_all add: proxy_new_def)
  moreover have "proxy_step ?x2 ?x3" by (rule daemon_write) (simp add: proxy_new_def)
  moreover have "proxy_step ?x3 ?x4" by (rule client_end)
  moreover have "proxy_step ?x4 (?x4\<lparr>px_ended := True\<rparr>)" by (rule forward_end) (simp_all add: proxy_new_def)
  ultimately have "proxy_step\<^sup>*\<^sup>* proxy_new (?x4\<lparr>px_ended := True\<rparr>)" by (meson converse_rtranclp_into_rtranclp rtranclp.rtrancl_refl)
  then show ?thesis by (intro exI conjI) (assumption, simp_all add: proxy_new_def)
qed

end
