(* ===== verification/Admin_Cli.thy ===== *)
theory Admin_Cli
  imports Control_Server Control_Instance
begin

text \<open>
  The administrator's command line (src/bin/termbridge.rs): keys, the interactive terminal behind
  \<open>connect\<close> and \<open>attach\<close>, and the client of the control socket, which is run against
  the control server (theory \<open>Control_Server\<close>) and the session manager behind it.  The terminal
  (crossterm), JSON and the sockets are parameters; tables printed are left out.
\<close>

section \<open>Keys\<close>

text \<open>A character is given by its UTF-8 bytes.\<close>

datatype key_code =
    KChar string
  | KEnter | KTab | KBackTab | KBackspace | KEsc
  | KUp | KDown | KRight | KLeft | KHome | KEnd | KPageUp | KPageDown | KDelete | KInsert
  | KOther

record key_event =
  ke_code :: key_code
  ke_control :: bool
  ke_alt :: bool

definition esc_seq :: "string \<Rightarrow> bytes option" where
  "esc_seq s = Some (0x1B # str_bytes s)"

fun key_code_to_bytes :: "key_code \<Rightarrow> bytes option" where
  "key_code_to_bytes (KChar c) = Some (str_bytes c)"
| "key_code_to_bytes KEnter = Some [0x0D]"
| "key_code_to_bytes KTab = Some [0x09]"
| "key_code_to_bytes KBackTab = esc_seq ''[Z''"
| "key_code_to_bytes KBackspace = Some [0x7F]"
| "key_code_to_bytes KEsc = Some [0x1B]"
| "key_code_to_bytes KUp = esc_seq ''[A''"
| "key_code_to_bytes KDown = esc_seq ''[B''"
| "key_code_to_bytes KRight = esc_seq ''[C''"
| "key_code_to_bytes KLeft = esc_seq ''[D''"
| "key_code_to_bytes KHome = esc_seq ''[H''"
| "key_code_to_bytes KEnd = esc_seq ''[F''"
| "key_code_to_bytes KPageUp = esc_seq ''[5~''"
| "key_code_to_bytes KPageDown = esc_seq ''[6~''"
| "key_code_to_bytes KDelete = esc_seq ''[3~''"
| "key_code_to_bytes KInsert = esc_seq ''[2~''"
| "key_code_to_bytes KOther = None"

text \<open>The control character of a letter, if the key is a letter.\<close>

definition control_byte :: "key_code \<Rightarrow> byte option" where
  "control_byte k =
     (case k of
        KChar [c] \<Rightarrow>
          (let lower = code (ascii_lower c)
           in if 97 \<le> lower \<and> lower \<le> 122 then Some (of_nat (lower - 97 + 1)) else None)
      | _ \<Rightarrow> None)"

definition key_event_to_bytes :: "key_event \<Rightarrow> bytes option" where
  "key_event_to_bytes key =
     (case (if ke_control key then control_byte (ke_code key) else None) of
        Some b \<Rightarrow> Some [b]
      | None \<Rightarrow>
          (case (if ke_alt key then key_code_to_bytes (ke_code key) else None) of
             Some bs \<Rightarrow> Some (0x1B # bs)
           | None \<Rightarrow> key_code_to_bytes (ke_code key)))"

section \<open>The interactive terminal\<close>

text \<open>
  What the main loop waits for: output of the remote terminal (and whether it could be written to the screen), its end or an
  error, or the end of the task that writes the input.
\<close>

datatype loop_event = Output bytes bool | TerminalEof | ReadFailed | InputEnded

datatype cli_action =
    OpenIt
  | AttachRemote
  | PrepareRaw
  | EnableRaw
  | SyncSize
  | Show bytes
  | SendCtrlD
  | StopEvents
  | DisableRaw
  | CloseIt
  | DetachIt

text \<open>After the input ended, output is shown until the terminal ends, whether it can be shown or not.\<close>

fun drain_output :: "loop_event list \<Rightarrow> cli_action list \<times> bool option" where
  "drain_output [] = ([], None)"
| "drain_output (Output d _ # es) = (let (as, r) = drain_output es in (Show d # as, r))"
| "drain_output (TerminalEof # es) = ([], Some True)"
| "drain_output (ReadFailed # es) = ([], Some True)"
| "drain_output (InputEnded # es) = drain_output es"

text \<open>The loop: its actions and whether it ends well; \<open>None\<close> while it goes on.\<close>

fun main_loop :: "loop_event list \<Rightarrow> cli_action list \<times> bool option" where
  "main_loop [] = ([], None)"
| "main_loop (Output d shown # es) =
     (if shown then (let (as, r) = main_loop es in (Show d # as, r)) else ([Show d], Some False))"
| "main_loop (TerminalEof # es) = ([], Some True)"
| "main_loop (ReadFailed # es) = ([], Some False)"
| "main_loop (InputEnded # es) = (let (as, r) = drain_output es in (SendCtrlD # as, r))"

text \<open>\<open>prepared\<close> and \<open>raw\<close> are the answers of the first two calls.\<close>

definition interactive_terminal :: "bool \<Rightarrow> bool \<Rightarrow> loop_event list \<Rightarrow> cli_action list \<times> bool option" where
  "interactive_terminal prepared raw es =
     (if \<not> prepared then ([PrepareRaw], Some False)
      else if \<not> raw then ([PrepareRaw, EnableRaw], Some False)
      else (case main_loop es of
              (as, None) \<Rightarrow> ([PrepareRaw, EnableRaw, SyncSize] @ as, None)
            | (as, Some ok) \<Rightarrow> ([PrepareRaw, EnableRaw, SyncSize] @ as @ [StopEvents, DisableRaw], Some ok)))"

text \<open>The session is opened (or attached) first; the terminal's result is the command's, whatever becomes of the closing.\<close>

definition cmd_connect :: "bool \<Rightarrow> bool \<Rightarrow> bool \<Rightarrow> loop_event list \<Rightarrow> cli_action list \<times> bool option" where
  "cmd_connect opened prepared raw es =
     (if \<not> opened then ([OpenIt], Some False)
      else (case interactive_terminal prepared raw es of
              (as, None) \<Rightarrow> (OpenIt # as, None)
            | (as, Some ok) \<Rightarrow> (OpenIt # as @ [CloseIt], Some ok)))"

definition cmd_attach :: "bool \<Rightarrow> bool \<Rightarrow> bool \<Rightarrow> loop_event list \<Rightarrow> cli_action list \<times> bool option" where
  "cmd_attach attached prepared raw es =
     (if \<not> attached then ([AttachRemote], Some False)
      else (case interactive_terminal prepared raw es of
              (as, None) \<Rightarrow> (AttachRemote # as, None)
            | (as, Some ok) \<Rightarrow> (AttachRemote # as @ [DetachIt], Some ok)))"

text \<open>\<open>&id[..id.len().min(8)]\<close> of an ASCII id.\<close>

definition id_short :: "string \<Rightarrow> string" where
  "id_short i = take (min (length i) 8) i"

section \<open>The control client\<close>

definition contains :: "string \<Rightarrow> string \<Rightarrow> bool" where
  "contains s pat \<longleftrightarrow> sublist pat s"

definition select_instance :: "string option \<Rightarrow> instance_info list \<Rightarrow> string + instance_info" where
  "select_instance instance_id instances =
     (case instances of
        [] \<Rightarrow> Inl (''no running TermBridge MCP server found.'' @ [CHR 0x0A] @
               ''Start one first (e.g. via your MCP client), then retry.'')
      | first # _ \<Rightarrow>
          (case instance_id of
             Some i \<Rightarrow>
               (case find (\<lambda>x. contains (ii_endpoint x) i) instances of
                  Some x \<Rightarrow> Inr x
                | None \<Rightarrow> Inl (''instance '' @ [CHR 0x27] @ i @ [CHR 0x27] @ '' not found among '' @ dec (length instances) @
                             '' running instances''))
           | None \<Rightarrow> Inr first))"

text \<open>
  The lines of the client: its greeting with a token, a request with a method and parameters, an object of strings; what it makes of the lines of the server: whether a greeting's answer
  says \<open>ok\<close>, that answer printed again, and a response's result or its error's code and message.  \<open>None\<close> where serde_json fails.
\<close>

datatype ipc_reply = IpcOk payload | IpcErr string string

record client_json =
  cj_hello :: "string \<Rightarrow> string"
  cj_request :: "string \<Rightarrow> (string \<times> string) list \<Rightarrow> string"
  cj_hello_ok :: "string \<Rightarrow> bool option"
  cj_show :: "string \<Rightarrow> string"
  cj_reply :: "string \<Rightarrow> ipc_reply option"

text \<open>
  The other end: whether an instance's endpoint can be connected to, and the line it answers to the lines sent so far, or the error of
  sending or reading; a closed connection answers with an empty line.
\<close>

record ipc_peer =
  pe_connect :: "instance_info \<Rightarrow> string + unit"
  pe_answer :: "instance_info \<Rightarrow> string list \<Rightarrow> string + string"

text \<open>The call: the lines sent, each with the endpoint it was sent to, and the outcome.\<close>

definition control_ipc_call ::
  "client_json \<Rightarrow> ipc_peer \<Rightarrow> instance_info list \<Rightarrow> string option \<Rightarrow> string \<Rightarrow> (string \<times> string) list \<Rightarrow>
   (string \<times> string) list \<times> (string + payload)" where
  "control_ipc_call cj peer instances instance_id method params =
     (case select_instance instance_id instances of
        Inl e \<Rightarrow> ([], Inl e)
      | Inr info \<Rightarrow>
          (case pe_connect peer info of
             Inl e \<Rightarrow> ([], Inl e)
           | Inr _ \<Rightarrow>
               (let l1 = [(ii_endpoint info, cj_hello cj (ii_token info))]
                in case pe_answer peer info (map snd l1) of
                     Inl e \<Rightarrow> (l1, Inl e)
                   | Inr line \<Rightarrow>
                       (case cj_hello_ok cj (trim line) of
                          None \<Rightarrow> (l1, Inl ''json'')
                        | Some False \<Rightarrow> (l1, Inl (''HELLO authentication failed: '' @ cj_show cj (trim line)))
                        | Some True \<Rightarrow>
                            (let l2 = l1 @ [(ii_endpoint info, cj_request cj method params)]
                             in case pe_answer peer info (map snd l2) of
                                  Inl e \<Rightarrow> (l2, Inl e)
                                | Inr line \<Rightarrow>
                                    (case cj_reply cj (trim line) of
                                       None \<Rightarrow> (l2, Inl ''json'')
                                     | Some (IpcOk p) \<Rightarrow> (l2, Inr p)
                                     | Some (IpcErr c m) \<Rightarrow> (l2, Inl (''control IPC error: '' @ c @ '' - '' @ m))))))))"

text \<open>\<open>session approve\<close>: the request, and the first line printed.\<close>

definition approved_line :: "string \<Rightarrow> payload \<Rightarrow> string" where
  "approved_line sid p =
     [CHR 0xE2, CHR 0x9C, CHR 0x93] @ '' session '' @ sid @ '' approved: '' @ (case p of ModeSet _ mode \<Rightarrow> mode | _ \<Rightarrow> ''?'')"

definition cmd_session_approve ::
  "client_json \<Rightarrow> ipc_peer \<Rightarrow> instance_info list \<Rightarrow> string \<Rightarrow> string option \<Rightarrow> (string \<times> string) list \<times> (string + string)" where
  "cmd_session_approve cj peer instances sid instance_id =
     (case control_ipc_call cj peer instances instance_id ''session.set_approval_mode''
             [(''session_id'', sid), (''mode'', ''unrestricted'')] of
        (ls, Inl e) \<Rightarrow> (ls, Inl e)
      | (ls, Inr p) \<Rightarrow> (ls, Inr (approved_line sid p)))"

section \<open>Client and server\<close>

text \<open>
  What the server has answered to the lines sent so far: the last line it wrote, as the client reads it.
\<close>

definition line_of :: "(cout \<Rightarrow> string) \<Rightarrow> cout list \<Rightarrow> string" where
  "line_of ser out = (case filter (\<lambda>x. x \<noteq> Pause) out of [] \<Rightarrow> [] | xs \<Rightarrow> ser (last xs))"

definition server_answer ::
  "'j json \<Rightarrow> (cout \<Rightarrow> string) \<Rightarrow> string \<Rightarrow> smgr \<Rightarrow> string list \<Rightarrow> string" where
  "server_answer js ser token sm ls =
     line_of ser (fst (snd (handle_connection js smgr_handler (\<lambda>_. False) token (map Inr ls) sm)))"

text \<open>The servers that listen, by endpoint: each has its token and its manager.\<close>

type_synonym servers = "string \<Rightarrow> (string \<times> smgr) option"

definition server_peer :: "'j json \<Rightarrow> (cout \<Rightarrow> string) \<Rightarrow> servers \<Rightarrow> ipc_peer" where
  "server_peer js ser servers =
     \<lparr>pe_connect = (\<lambda>info. case servers (ii_endpoint info) of None \<Rightarrow> Inl ''connect'' | Some _ \<Rightarrow> Inr ()),
      pe_answer = (\<lambda>info ls. case servers (ii_endpoint info) of
         None \<Rightarrow> Inl ''closed''
       | Some (token, sm) \<Rightarrow> Inr (server_answer js ser token sm ls))\<rparr>"

text \<open>The servers after a connection on which these lines were sent to these endpoints.\<close>

definition server_after :: "'j json \<Rightarrow> string \<Rightarrow> smgr \<Rightarrow> string list \<Rightarrow> smgr" where
  "server_after js token sm ls = fst (handle_connection js smgr_handler (\<lambda>_. False) token (map Inr ls) sm)"

definition servers_after :: "'j json \<Rightarrow> servers \<Rightarrow> (string \<times> string) list \<Rightarrow> servers" where
  "servers_after js servers sent =
     (\<lambda>ep. case servers ep of
        None \<Rightarrow> None
      | Some (token, sm) \<Rightarrow> Some (token, server_after js token sm (map snd (filter (\<lambda>p. fst p = ep) sent))))"

text \<open>
  Both sides read what the other wrote: greetings, a request with any method and parameters, the answers.
\<close>

definition codecs_agree :: "'j json \<Rightarrow> client_json \<Rightarrow> (cout \<Rightarrow> string) \<Rightarrow> bool" where
  "codecs_agree js cj ser \<longleftrightarrow>
     (\<forall>token. js_hello js (trim (cj_hello cj token)) = Some token) \<and>
     (\<forall>meth ps. distinct (map fst ps) \<longrightarrow>
        (case js_request js (trim (cj_request cj meth ps)) of
           Inl _ \<Rightarrow> False
         | Inr req \<Rightarrow> cr_id req = 1 \<and> cr_method req = meth \<and> js_session_id js (cr_params req) = map_of ps ''session_id'' \<and>
             (case (map_of ps ''session_id'', map_of ps ''mode'') of
                (Some sid, Some mode) \<Rightarrow> js_approval js (cr_params req) = Inr \<lparr>ap_session_id = sid, ap_mode = mode\<rparr>
              | _ \<Rightarrow> isl (js_approval js (cr_params req))))) \<and>
     (\<forall>ok e. cj_hello_ok cj (trim (ser (HelloReply ok e))) = Some ok) \<and>
     (\<forall>i sid mode. cj_reply cj (trim (ser (Response (COk i (ModeSet sid mode))))) = Some (IpcOk (ModeSet sid mode))) \<and>
     (\<forall>i e. cj_reply cj (trim (ser (Response (CErr i e)))) = Some (IpcErr (ce_code e) (ce_message e)))"

section \<open>Raw terminals and the reaper\<close>

text \<open>What a raw terminal does to the manager between its start and its end: reads and writes go past the session.\<close>

datatype raw_op = RawRead "bytes option result" | RawWrite bytes "unit result" | RawResize u16 u16 "unit result"

definition read_raw :: "bytes option result \<Rightarrow> smgr \<Rightarrow> string \<Rightarrow> bytes option result" where
  "read_raw io sm sid = (case get_session sm sid of Inl e \<Rightarrow> Inl e | Inr a \<Rightarrow> io)"

fun raw_step :: "string \<Rightarrow> smgr \<Rightarrow> raw_op \<Rightarrow> smgr" where
  "raw_step sid sm (RawRead io) = (let r = read_raw io sm sid in sm)"
| "raw_step sid sm (RawWrite d io) = (let r = write_raw io sm sid in sm)"
| "raw_step sid sm (RawResize c r io) = fst (smgr_resize io sm sid c r)"

definition raw_run :: "string \<Rightarrow> smgr \<Rightarrow> raw_op list \<Rightarrow> smgr" where
  "raw_run sid sm ops = foldl (raw_step sid) (fst (prepare_for_raw_mode sm sid)) ops"

section \<open>Keys typed and keys named\<close>

lemma control_byte_range:
  assumes "control_byte k = Some b"
  shows "1 \<le> b \<and> b \<le> 26"
proof -
  obtain n :: nat where "b = of_nat n" "1 \<le> n" "n \<le> 26"
    using assms that [of "code (ascii_lower c) - 96" for c]
    by (auto simp: control_byte_def Let_def of_nat_diff split: key_code.splits list.splits if_splits)
  then show ?thesis by (simp add: word_le_nat_alt unat_of_nat)
qed

text \<open>
  A key typed in the interactive terminal and the same key named in a tool call are the same bytes:
  for each of the six control keys the key events that produce it give exactly its bytes.  A letter with Ctrl is one byte from 1 to 26, and a
  key with Alt alone is the key's bytes after an escape.
\<close>

lemma typed_keys_match_control_keys:
  "(\<forall>alt. key_event_to_bytes \<lparr>ke_code = KChar ''c'', ke_control = True, ke_alt = alt\<rparr> = Some (as_bytes CtrlC) \<and>
      key_event_to_bytes \<lparr>ke_code = KChar ''d'', ke_control = True, ke_alt = alt\<rparr> = Some (as_bytes CtrlD) \<and>
      key_event_to_bytes \<lparr>ke_code = KChar ''z'', ke_control = True, ke_alt = alt\<rparr> = Some (as_bytes CtrlZ)) \<and>
   (\<forall>ctrl. key_event_to_bytes \<lparr>ke_code = KTab, ke_control = ctrl, ke_alt = False\<rparr> = Some (as_bytes Tab) \<and>
      key_event_to_bytes \<lparr>ke_code = KEnter, ke_control = ctrl, ke_alt = False\<rparr> = Some (as_bytes Enter) \<and>
      key_event_to_bytes \<lparr>ke_code = KEsc, ke_control = ctrl, ke_alt = False\<rparr> = Some (as_bytes Escape)) \<and>
   (\<forall>k b. control_byte k = Some b \<longrightarrow> 1 \<le> b \<and> b \<le> 26 \<and>
      key_event_to_bytes \<lparr>ke_code = k, ke_control = True, ke_alt = False\<rparr> = Some [b]) \<and>
   (\<forall>k. key_event_to_bytes \<lparr>ke_code = k, ke_control = False, ke_alt = True\<rparr> = map_option ((#) 0x1B) (key_code_to_bytes k))"
proof (intro conjI allI impI)
  fix k b assume b: "control_byte k = Some b"
  show "1 \<le> b" "b \<le> 26" using control_byte_range [OF b] by simp_all
  show "key_event_to_bytes \<lparr>ke_code = k, ke_control = True, ke_alt = False\<rparr> = Some [b]"
    using b by (simp add: key_event_to_bytes_def)
qed (auto simp: key_event_to_bytes_def control_byte_def ascii_lower_def split: option.split)

text \<open>With a letter, Alt is lost when Ctrl is held.\<close>

lemma ctrl_alt_drops_alt:
  assumes "control_byte k = Some b"
  shows "key_event_to_bytes \<lparr>ke_code = k, ke_control = True, ke_alt = True\<rparr> = key_event_to_bytes \<lparr>ke_code = k, ke_control = True, ke_alt = False\<rparr>"
  using assms by (simp add: key_event_to_bytes_def)

section \<open>The terminal is given back\<close>

text \<open>The loop shows output, sends at most one Ctrl+D and leaves the local terminal's mode alone.\<close>

lemma drain_actions: "SendCtrlD \<notin> set (fst (drain_output es)) \<and> DisableRaw \<notin> set (fst (drain_output es))"
  by (induction es rule: drain_output.induct) (auto split: prod.splits)

lemma loop_actions: "count_list (fst (main_loop es)) SendCtrlD \<le> 1 \<and> DisableRaw \<notin> set (fst (main_loop es))"
proof (induction es rule: main_loop.induct)
  case (5 es)
  then show ?case using drain_actions [of es] by (auto split: prod.splits simp: count_list_0_iff)
qed (auto split: prod.splits)

text \<open>
  The terminal is given back.  A command that ends after it switched the local terminal to raw mode has
  stopped reading it and switched it back, exactly once, and then closed (connect) or detached (attach) its session; one that
  could not switch never switches back, and ends its session all the same.  A raw terminal is always prepared first.
\<close>

lemma terminal_restored:
  assumes "cmd_connect True prepared raw es = (as, Some ok)" "cmd_attach True prepared raw es = (bs, Some ok')"
  shows "ok = ok' \<and> hd as = OpenIt \<and> hd bs = AttachRemote \<and> butlast (tl as) = butlast (tl bs) \<and> last as = CloseIt \<and> last bs = DetachIt \<and>
    count_list as DisableRaw = (if prepared \<and> raw then 1 else 0) \<and>
    (if prepared \<and> raw then \<exists>mid. as = [OpenIt, PrepareRaw, EnableRaw, SyncSize] @ mid @ [StopEvents, DisableRaw, CloseIt] \<and>
         DisableRaw \<notin> set mid \<and> count_list mid SendCtrlD \<le> 1
     else \<not> ok)"
proof (cases "prepared \<and> raw")
  case True
  obtain mid where "main_loop es = (mid, Some ok)"
    using assms(1) True by (auto simp: cmd_connect_def interactive_terminal_def split: prod.splits option.splits)
  moreover have "DisableRaw \<notin> set mid \<and> count_list mid SendCtrlD \<le> 1"
    using loop_actions [of es] calculation by simp
  ultimately show ?thesis
    using assms True by (auto simp: cmd_connect_def cmd_attach_def interactive_terminal_def butlast_append count_list_0_iff)
next
  case False
  then show ?thesis
    using assms by (auto simp: cmd_connect_def cmd_attach_def interactive_terminal_def split: if_splits)
qed

section \<open>Approval, from the command line to the session\<close>

text \<open>What the server does with a greeting, and with a greeting and one request.\<close>

lemma server_greeted:
  assumes "js_hello js (trim l) = Some t"
  shows "handle_connection js h (\<lambda>_. False) token (map Inr [l]) s =
    (s, (if t = token then [HelloReply True None] else [Pause, HelloReply False (Some ''invalid token'')]), Inr ())"
  using assms by (simp add: handle_connection_def MAX_HELLO_ATTEMPTS_def eval_nat_numeral)

lemma server_asked:
  assumes "js_hello js (trim l) = Some token" "js_request js (trim q) = Inr req" "control_dispatch js h s req = (s', resp)"
  shows "handle_connection js h (\<lambda>_. False) token (map Inr [l, q]) s = (s', [HelloReply True None, Response resp], Inr ())"
  using assms by (simp add: handle_connection_def MAX_HELLO_ATTEMPTS_def eval_nat_numeral)

lemma approve_dispatch:
  assumes "cr_method req = ''session.set_approval_mode''"
    "js_approval js (cr_params req) = Inr \<lparr>ap_session_id = sid, ap_mode = ''unrestricted''\<rparr>"
  shows "control_dispatch js smgr_handler sm req =
    (case lookup sm sid of
       None \<Rightarrow> (sm, CErr (cr_id req) (control_err ''SESSION_ERROR'' (''session not found: '' @ sid)))
     | Some a \<Rightarrow> (put_sess a (set_approval_mode Unrestricted (sess sm a)) sm, COk (cr_id req) (ModeSet sid ''unrestricted'')))"
  using assms
  by (simp add: control_dispatch_def parse_mode_def smgr_handler_def control_set_approval_mode_def
      smgr_set_approval_mode_def get_session_def split: option.split)

lemma servers_unasked: "servers_after js servers [] = servers"
  by (auto simp: servers_after_def server_after_def handle_connection_def MAX_HELLO_ATTEMPTS_def eval_nat_numeral fun_eq_iff split: option.split)

lemma servers_after_one:
  assumes "\<forall>p \<in> set sent. fst p = ep" "servers ep = Some (token, sm)"
  shows "servers_after js servers sent = servers(ep \<mapsto> (token, server_after js token sm (map snd sent)))"
proof
  fix e
  show "servers_after js servers sent e = (servers(ep \<mapsto> (token, server_after js token sm (map snd sent)))) e"
  proof (cases "e = ep")
    case True
    then have "filter (\<lambda>p. fst p = e) sent = sent" using assms(1) by (simp add: filter_id_conv)
    then show ?thesis using True assms(2) by (simp add: servers_after_def)
  next
    case False
    then have "filter (\<lambda>p. fst p = e) sent = []" using assms(1) by (auto simp: filter_empty_conv)
    then have "servers_after js servers sent e = servers_after js servers [] e"
      by (cases "servers e") (auto simp: servers_after_def)
    then show ?thesis using False by (simp add: servers_unasked)
  qed
qed

text \<open>
  (C16) Approval, from the command line to the session.  Whatever servers listen, the command speaks only to the instance it selected.  If no server
  listens at its endpoint, nothing is sent.  If the token it found is that server's, the one session of that server that it names becomes
  unrestricted and the command prints that, and if there is no such session it reports that; with another token it reports the refused
  greeting.  In these cases no server's manager is changed, and in none another server's.  Greeting, request and answers are read as they were
  written.
\<close>

theorem approve_end_to_end:
  assumes "codecs_agree js cj ser" "select_instance i instances = Inr x"
    and "cmd_session_approve cj (server_peer js ser servers) instances sid i = (sent, r)"
  shows "(servers_after js servers sent, r) =
    (case servers (ii_endpoint x) of
       None \<Rightarrow> (servers, Inl ''connect'')
     | Some (token, sm) \<Rightarrow>
         if ii_token x \<noteq> token
         then (servers, Inl (''HELLO authentication failed: '' @ cj_show cj (trim (ser (HelloReply False (Some ''invalid token''))))))
         else case lookup sm sid of
           None \<Rightarrow> (servers, Inl (''control IPC error: SESSION_ERROR - session not found: '' @ sid))
         | Some a \<Rightarrow>
             (servers(ii_endpoint x \<mapsto> (token, put_sess a (set_approval_mode Unrestricted (sess sm a)) sm)),
              Inr ([CHR 0xE2, CHR 0x9C, CHR 0x93] @ '' session '' @ sid @ '' approved: unrestricted'')))"
proof (cases "servers (ii_endpoint x)")
  case None
  then show ?thesis
    using assms(2,3) by (auto simp: cmd_session_approve_def control_ipc_call_def server_peer_def servers_unasked)
next
  case (Some srv)
  obtain token sm where srv: "servers (ii_endpoint x) = Some (token, sm)" using Some by (cases srv) simp
  let ?ps = "[(''session_id'', sid), (''mode'', ''unrestricted'')]"
  have "distinct (map fst ?ps)" by simp
  then obtain req where req: "js_request js (trim (cj_request cj ''session.set_approval_mode'' ?ps)) = Inr req"
    "cr_id req = 1" "cr_method req = ''session.set_approval_mode''"
    "js_approval js (cr_params req) = Inr \<lparr>ap_session_id = sid, ap_mode = ''unrestricted''\<rparr>"
    using assms(1) unfolding codecs_agree_def
    by (elim conjE allE [of _ "''session.set_approval_mode''"] allE [of _ ?ps]) (auto split: sum.splits)
  have hello: "js_hello js (trim (cj_hello cj t)) = Some t" for t using assms(1) by (simp add: codecs_agree_def)
  note replies = assms(1) [unfolded codecs_agree_def, THEN conjunct2, THEN conjunct2]
  note greeted = server_greeted [where h = smgr_handler and token = token and s = sm, OF hello [of "ii_token x"]]
  note after = servers_after_one [where ep = "ii_endpoint x" and servers = servers, OF _ srv]
  note defs = cmd_session_approve_def control_ipc_call_def server_peer_def server_answer_def line_of_def server_after_def Let_def
    approved_line_def
  show ?thesis
  proof (cases "ii_token x = token")
    case True
    obtain sm' resp where d: "control_dispatch js smgr_handler sm req = (sm', resp)" by fastforce
    note asked = server_asked [OF hello [of token] req(1) d]
    show ?thesis
      using assms(2,3) True replies greeted asked d approve_dispatch [OF req(3,4), of sm] req(2) srv
      by (auto simp: defs after control_err_def fun_upd_idem split: option.splits)
  next
    case False
    then show ?thesis
      using assms(2,3) replies greeted srv by (auto simp: defs after fun_upd_idem)
  qed
qed

section \<open>A raw terminal in use is idle\<close>

text \<open>What is kept while a raw terminal is used: the entry, if it is still there, and the time of the last activity.\<close>

definition raw_kept :: "string \<Rightarrow> nat \<Rightarrow> smgr \<Rightarrow> smgr \<Rightarrow> bool" where
  "raw_kept sid a sm sm' \<longleftrightarrow> a < length (sm_objs sm') \<and> s_last_activity (sess sm' a) = s_last_activity (sess sm a) \<and>
     (lookup sm' sid = Some a \<or> lookup sm' sid = None)"

lemma raw_put:
  "raw_kept sid a sm sm' \<Longrightarrow> s_last_activity s = s_last_activity (sess sm' a) \<Longrightarrow> raw_kept sid a sm (put_sess a s sm')"
  by (simp add: raw_kept_def)

lemma raw_after_call: "raw_kept sid a sm (fst r) \<Longrightarrow> raw_kept sid a sm (fst (after_call sid b r))"
  by (auto simp: raw_kept_def after_call_def cleanup_detached_session_def split: sum.splits term_error.splits)

lemma raw_step_kept: "raw_kept sid a sm sm' \<Longrightarrow> raw_kept sid a sm (raw_step sid sm' op)"
proof (cases op)
  case (RawResize c r io)
  assume k: "raw_kept sid a sm sm'"
  show ?thesis
  proof (cases "lookup sm' sid")
    case None
    then show ?thesis using k RawResize by (simp add: smgr_resize_def get_session_def)
  next
    case (Some b)
    then have "b = a" using k by (simp add: raw_kept_def)
    then show ?thesis using k RawResize Some
      by (auto simp: smgr_resize_def get_session_def session_resize_def Let_def case_prod_beta intro!: raw_after_call raw_put)
  qed
qed simp_all

lemma raw_run_kept:
  assumes "smgr_inv sm" "lookup sm sid = Some a"
  shows "raw_kept sid a sm (raw_run sid sm ops)"
proof -
  have "raw_kept sid a sm (fst (prepare_for_raw_mode sm sid))"
    using assms lookup_inv(1) [OF assms]
    by (simp add: prepare_for_raw_mode_def get_session_def raw_kept_def abort_read_task_def)
  then have "raw_kept sid a sm (foldl (raw_step sid) (fst (prepare_for_raw_mode sm sid)) ops)"
    by (induction ops rule: rev_induct) (simp_all add: raw_step_kept)
  then show ?thesis by (simp add: raw_run_def)
qed

text \<open>
  A terminal in use is reaped as idle.  Whatever is read, typed and resized in a raw terminal, its session's last activity
  stays where it was before the terminal started; once the idle timeout has passed since then, the reaper takes
  the session out of the map and closes it, however recent the last key was.
\<close>

lemma raw_terminal_reaped:
  assumes "smgr_inv sm" "lookup sm sid = Some a" "s_last_activity (sess sm a) + IDLE_TIMEOUT_SECS \<le> now_secs"
  shows "let sm' = raw_run sid sm ops; sm'' = reap_one now_secs now IDLE_TIMEOUT_SECS io sid sm'
    in s_last_activity (sess sm' a) = s_last_activity (sess sm a) \<and> lookup sm'' sid = None \<and>
       (lookup sm' sid = Some a \<longrightarrow> s_state (sess sm'' a) = Closed)"
proof -
  have k: "raw_kept sid a sm (raw_run sid sm ops)" using raw_run_kept assms by blast
  then have "is_idle now_secs IDLE_TIMEOUT_SECS (sess (raw_run sid sm ops) a)"
    using assms(3) by (simp add: raw_kept_def is_idle_def)
  moreover have "s_state (fst (session_close now io s)) = Closed" for s
    by (cases "s_state s") (simp_all add: session_close_def close_done_def is_closed_def Let_def)
  ultimately show ?thesis using k by (auto simp: raw_kept_def reap_one_def Let_def)
qed

section \<open>Ids that are cut\<close>

text \<open>
  \<open>sessions\<close> prints what \<open>id_short\<close> leaves of a session's id; the id of a daemon's session has 13 characters, and
  \<open>attach\<close> needs it whole: what is printed is the id of no session.
\<close>

lemma short_id_not_found:
  assumes "\<forall>j \<in> dom m. length j = 13"
  shows "m (id_short i) = None"
proof (rule ccontr)
  assume "m (id_short i) \<noteq> None"
  then have "length (id_short i) = 13" using assms by blast
  then show False by (simp add: id_short_def)
qed

section \<open>Witnesses\<close>

text \<open>
  A line of strings, each written after its length in strokes, within signs that trimming leaves alone.
\<close>

fun pack :: "string list \<Rightarrow> string" where
  "pack [] = []"
| "pack (w # ws) = replicate (length w) CHR ''x'' @ CHR ''.'' # w @ pack ws"

fun unpack :: "nat \<Rightarrow> string \<Rightarrow> string list" where
  "unpack 0 t = []"
| "unpack (Suc k) t =
     (if t = [] then []
      else let n = length (takeWhile (\<lambda>c. c = CHR ''x'') t); r = drop (Suc n) t in take n r # unpack k (drop n r))"

lemma unpack_pack: "length ws \<le> k \<Longrightarrow> unpack k (pack ws) = ws"
proof (induction ws arbitrary: k)
  case Nil
  then show ?case by (cases k) simp_all
next
  case (Cons w ws)
  then obtain k' where k: "k = Suc k'" by (cases k) auto
  have "takeWhile (\<lambda>c. c = CHR ''x'') (replicate n CHR ''x'' @ CHR ''.'' # r) = replicate n CHR ''x''" for n r
    by (induction n) simp_all
  then show ?case using Cons k by simp
qed

lemma length_pack: "length ws \<le> length (pack ws)"
  by (induction ws) auto

definition demo_line :: "string list \<Rightarrow> string" where
  "demo_line ws = CHR ''H'' # pack ws @ ''HHH''"

definition demo_words :: "string \<Rightarrow> string list" where
  "demo_words l = unpack (length l) (take (length l - 4) (tl l))"

lemma demo_words_line [simp]: "demo_words (trim (demo_line ws)) = ws"
proof -
  have "trim (demo_line ws) = demo_line ws"
    by (simp add: demo_line_def trim_def trim_start_no_ws trim_end_no_ws ws_len_end_def last_n_def)
  then show ?thesis using unpack_pack [of ws "length (demo_line ws)"] length_pack [of ws] by (simp add: demo_words_def demo_line_def)
qed

fun demo_flat :: "(string \<times> string) list \<Rightarrow> string list" where
  "demo_flat [] = []"
| "demo_flat ((k, v) # ps) = k # v # demo_flat ps"

fun demo_pairs :: "string list \<Rightarrow> (string \<times> string) list" where
  "demo_pairs (k # v # ws) = (k, v) # demo_pairs ws"
| "demo_pairs _ = []"

lemma demo_pairs_flat [simp]: "demo_pairs (demo_flat ps) = ps"
  by (induction ps rule: demo_flat.induct) simp_all

definition demo_server_json :: "(string \<times> string) list json" where
  "demo_server_json = \<lparr>
     js_hello = (\<lambda>l. case demo_words l of [w, t] \<Rightarrow> if w = ''hello'' then Some t else None | _ \<Rightarrow> None),
     js_request = (\<lambda>l. case demo_words l of
         w # m # ws \<Rightarrow> if w = ''request'' then Inr \<lparr>cr_id = 1, cr_method = m, cr_params = demo_pairs ws\<rparr> else Inl l
       | _ \<Rightarrow> Inl l),
     js_session_id = (\<lambda>ps. map_of ps ''session_id''),
     js_approval = (\<lambda>ps. case (map_of ps ''session_id'', map_of ps ''mode'') of
         (Some sid, Some mode) \<Rightarrow> Inr \<lparr>ap_session_id = sid, ap_mode = mode\<rparr> | _ \<Rightarrow> Inl ''missing field'')\<rparr>"

definition demo_client_json :: client_json where
  "demo_client_json = \<lparr>
     cj_hello = (\<lambda>t. demo_line [''hello'', t]), cj_request = (\<lambda>m ps. demo_line (''request'' # m # demo_flat ps)),
     cj_hello_ok = (\<lambda>l. case demo_words l of [w] \<Rightarrow> Some (w = ''ok'') | _ \<Rightarrow> None),
     cj_show = (\<lambda>l. l),
     cj_reply = (\<lambda>l. case demo_words l of
         [w, a, b] \<Rightarrow> if w = ''set'' then Some (IpcOk (ModeSet a b)) else Some (IpcErr a b) | _ \<Rightarrow> None)\<rparr>"

definition demo_ser :: "cout \<Rightarrow> string" where
  "demo_ser x =
     (case x of
        HelloReply b _ \<Rightarrow> demo_line [if b then ''ok'' else ''refused'']
      | Response (COk _ (ModeSet sid mode)) \<Rightarrow> demo_line [''set'', sid, mode]
      | Response (CErr _ e) \<Rightarrow> demo_line [''error'', ce_code e, ce_message e]
      | _ \<Rightarrow> [])"

definition demo_instance :: "string \<Rightarrow> instance_info" where
  "demo_instance ep = \<lparr>ii_pid = 7, ii_transport = ''unix'', ii_endpoint = ep, ii_token = ''secret'',
     ii_started_at = 0, ii_protocol_version = 1\<rparr>"

lemma demo_agree: "codecs_agree demo_server_json demo_client_json demo_ser"
  by (simp add: codecs_agree_def demo_server_json_def demo_client_json_def demo_ser_def split: option.split)

text \<open>Two servers; the command names one of them.\<close>

definition demo_servers :: servers where
  "demo_servers = [''/run/tb-7.sock'' \<mapsto> (''other'', demo_sm), ''/run/tb-8.sock'' \<mapsto> (''secret'', demo_sm)]"

theorem approve_end_to_end_witness:
  "snd (cmd_session_approve demo_client_json (server_peer demo_server_json demo_ser demo_servers)
      [demo_instance ''/run/tb-7.sock'', demo_instance ''/run/tb-8.sock''] ''sess_0'' (Some ''tb-8'')) =
     Inr ([CHR 0xE2, CHR 0x9C, CHR 0x93] @ '' session sess_0 approved: unrestricted'') \<and>
   s_approval_mode (sess demo_sm 0) = Standard"
proof -
  let ?is = "[demo_instance ''/run/tb-7.sock'', demo_instance ''/run/tb-8.sock'']"
  have sel: "select_instance (Some ''tb-8'') ?is = Inr (demo_instance ''/run/tb-8.sock'')"
    by (simp add: select_instance_def demo_instance_def contains_def sublist_Cons_right)
  have "lookup demo_sm ''sess_0'' = Some 0" by (simp add: demo_sm_eq lookup_def)
  then show ?thesis
    using approve_end_to_end [OF demo_agree sel prod.collapse [symmetric], of demo_servers "''sess_0''"]
    by (simp add: demo_instance_def demo_servers_def demo_sm_eq sess_def session_new_def)
qed

end
