(* ===== verification/Cli_Client.thy ===== *)
theory Cli_Client
  imports Client_Daemon Decimal
begin

text \<open>
  The daemon's own command line (cli/src/client.rs, cli/src/main.rs): a client that asks one request at a time, the commands
  built on it and the interactive attach, run against the daemon's side of a connection
  (\<open>handle_connection\<close> of agentd/src/rpc.rs over the dispatch of theory \<open>Agentd\<close>).  The derived readers of the message
  types are parameters; tables and log lines are left out.
\<close>

section \<open>The client\<close>

datatype daemon_error =
    IoFailed io_error
  | JsonFailed
  | ProtocolBroken string
  | VersionsDiffer u32 u32
  | RpcFailed string string
  | Base64Failed string

record cli_wire =
  cw_cursor_start :: u64
  cw_cursor_end :: u64
  cw_is_truncated :: bool
  cw_data :: "string option"

record cli_read =
  cl_cursor_start :: u64
  cl_cursor_end :: u64
  cl_is_truncated :: bool
  cl_data :: bytes

record cli_info =
  cs_id :: string
  cs_name :: "string option"
  cs_state :: string
  cs_created_at :: string
  cs_last_activity_at :: string
  cs_pty_size :: pty_size
  cs_written :: u64

text \<open>serde's derived readers of \<open>Response\<close>, \<open>HelloInfo\<close>, \<open>CreateResult\<close>, \<open>ReadSinceResultWire\<close> and a list of \<open>SessionInfo\<close>.\<close>

record cli_serde =
  rd_response :: "json \<Rightarrow> response option"
  rd_hello :: "json \<Rightarrow> (u32 \<times> string \<times> string) option"
  rd_create :: "json \<Rightarrow> (string \<times> u64) option"
  rd_read :: "json \<Rightarrow> cli_wire option"
  rd_infos :: "json \<Rightarrow> cli_info list option"

record dclient =
  dl_next_id :: u64
  dl_daemon_id :: string

text \<open>
  \<open>'s\<close> is the other end: it takes a request and gives the next message read, or the error of writing or reading.
\<close>

type_synonym 's exchange = "'s \<Rightarrow> request \<Rightarrow> 's \<times> (io_error + json)"

definition call_result :: "cli_serde \<Rightarrow> u64 \<Rightarrow> io_error + json \<Rightarrow> daemon_error + json" where
  "call_result cs i msg =
     (case msg of
        Inl e \<Rightarrow> Inl (IoFailed e)
      | Inr value \<Rightarrow>
          (case rd_response cs value of
             None \<Rightarrow> Inl JsonFailed
           | Some resp \<Rightarrow>
               if rp_id resp \<noteq> i then Inl (ProtocolBroken ''id'')
               else if \<not> rp_ok resp then
                 (case rp_error resp of
                    None \<Rightarrow> Inl (ProtocolBroken ''error'')
                  | Some (c, m) \<Rightarrow> Inl (RpcFailed c m))
               else (case rp_result resp of None \<Rightarrow> Inl (ProtocolBroken ''result'') | Some v \<Rightarrow> Inr v)))"

definition cli_call ::
  "cli_serde \<Rightarrow> 's exchange \<Rightarrow> string \<Rightarrow> json \<Rightarrow> 's \<times> dclient \<Rightarrow> ('s \<times> dclient) \<times> (daemon_error + json)" where
  "cli_call cs ex meth params c =
     (let i = dl_next_id (snd c);
          cl = (snd c)\<lparr>dl_next_id := i + 1\<rparr>;
          (s, msg) = ex (fst c) \<lparr>rq_id = i, rq_method = meth, rq_params = params\<rparr>
      in ((s, cl), call_result cs i msg))"

text \<open>What most methods do with the result: read it with a function, or drop it.\<close>

definition read_with :: "('a \<Rightarrow> daemon_error + 'b) \<Rightarrow> 'c \<times> (daemon_error + 'a) \<Rightarrow> 'c \<times> (daemon_error + 'b)" where
  "read_with f r = (fst r, case snd r of Inl e \<Rightarrow> Inl e | Inr v \<Rightarrow> f v)"

definition or_json :: "'b option \<Rightarrow> daemon_error + 'b" where
  "or_json z = (case z of None \<Rightarrow> Inl JsonFailed | Some x \<Rightarrow> Inr x)"

definition cli_hello :: "cli_serde \<Rightarrow> 's exchange \<Rightarrow> 's \<times> dclient \<Rightarrow> ('s \<times> dclient) \<times> (daemon_error + string)" where
  "cli_hello cs ex c =
     (case cli_call cs ex ''hello'' hello_params c of
        (c, Inl e) \<Rightarrow> (c, Inl e)
      | ((s, cl), Inr v) \<Rightarrow>
          (case rd_hello cs v of
             None \<Rightarrow> ((s, cl), Inl JsonFailed)
           | Some (version, build, daemon_id) \<Rightarrow>
               if version \<noteq> PROTOCOL_VERSION then ((s, cl), Inl (VersionsDiffer PROTOCOL_VERSION version))
               else ((s, cl\<lparr>dl_daemon_id := daemon_id\<rparr>), Inr build)))"

definition cli_connect :: "cli_serde \<Rightarrow> 's exchange \<Rightarrow> 's \<Rightarrow> ('s \<times> dclient) \<times> (daemon_error + unit)" where
  "cli_connect cs ex s =
     read_with (\<lambda>_. Inr ()) (cli_hello cs ex (s, \<lparr>dl_next_id = 1, dl_daemon_id = []\<rparr>))"

definition parse_read_since :: "cli_serde \<Rightarrow> codec \<Rightarrow> json \<Rightarrow> daemon_error + cli_read" where
  "parse_read_since cs cod v =
     (case rd_read cs v of
        None \<Rightarrow> Inl JsonFailed
      | Some wire \<Rightarrow>
          (case (case cw_data wire of Some s \<Rightarrow> if s \<noteq> [] then b64_decode cod s else Inr [] | None \<Rightarrow> Inr []) of
             Inl e \<Rightarrow> Inl (Base64Failed e)
           | Inr d \<Rightarrow> Inr \<lparr>cl_cursor_start = cw_cursor_start wire, cl_cursor_end = cw_cursor_end wire,
                            cl_is_truncated = cw_is_truncated wire, cl_data = d\<rparr>))"

definition cli_create ::
  "cli_serde \<Rightarrow> 's exchange \<Rightarrow> string \<Rightarrow> string option \<Rightarrow> pty_size \<Rightarrow> string option \<Rightarrow> 's \<times> dclient \<Rightarrow>
   ('s \<times> dclient) \<times> (daemon_error + string \<times> u64)" where
  "cli_create cs ex shell cwd sz name c =
     read_with (\<lambda>v. or_json (rd_create cs v)) (cli_call cs ex ''session.create'' (create_params shell cwd sz name) c)"

definition cli_attach ::
  "cli_serde \<Rightarrow> codec \<Rightarrow> 's exchange \<Rightarrow> string \<Rightarrow> nat \<Rightarrow> 's \<times> dclient \<Rightarrow> ('s \<times> dclient) \<times> (daemon_error + cli_read)" where
  "cli_attach cs cod ex sid since c =
     read_with (parse_read_since cs cod) (cli_call cs ex ''session.attach'' (since_params sid since) c)"

definition cli_detach :: "cli_serde \<Rightarrow> 's exchange \<Rightarrow> string \<Rightarrow> 's \<times> dclient \<Rightarrow> ('s \<times> dclient) \<times> (daemon_error + unit)" where
  "cli_detach cs ex sid c = read_with (\<lambda>_. Inr ()) (cli_call cs ex ''session.detach'' (id_params sid) c)"

definition cli_list :: "cli_serde \<Rightarrow> 's exchange \<Rightarrow> 's \<times> dclient \<Rightarrow> ('s \<times> dclient) \<times> (daemon_error + cli_info list)" where
  "cli_list cs ex c =
     read_with (\<lambda>v. or_json (rd_infos cs (case jget v ''sessions'' of Some x \<Rightarrow> x | None \<Rightarrow> JArr [])))
       (cli_call cs ex ''session.list'' (JObj []) c)"

definition cli_send_input ::
  "cli_serde \<Rightarrow> codec \<Rightarrow> 's exchange \<Rightarrow> string \<Rightarrow> bytes \<Rightarrow> 's \<times> dclient \<Rightarrow> ('s \<times> dclient) \<times> (daemon_error + unit)" where
  "cli_send_input cs cod ex sid data c =
     read_with (\<lambda>_. Inr ()) (cli_call cs ex ''session.send_input'' (input_params cod sid data) c)"

definition cli_send_control ::
  "cli_serde \<Rightarrow> 's exchange \<Rightarrow> string \<Rightarrow> string \<Rightarrow> 's \<times> dclient \<Rightarrow> ('s \<times> dclient) \<times> (daemon_error + unit)" where
  "cli_send_control cs ex sid control c =
     read_with (\<lambda>_. Inr ()) (cli_call cs ex ''session.send_control'' (JObj [(''session_id'', JStr sid), (''control'', JStr control)]) c)"

definition cli_resize ::
  "cli_serde \<Rightarrow> 's exchange \<Rightarrow> string \<Rightarrow> u16 \<Rightarrow> u16 \<Rightarrow> 's \<times> dclient \<Rightarrow> ('s \<times> dclient) \<times> (daemon_error + unit)" where
  "cli_resize cs ex sid r col c =
     read_with (\<lambda>_. Inr ()) (cli_call cs ex ''session.resize''
       (JObj [(''session_id'', JStr sid), (''pty_size'', JObj [(''rows'', JU64 (ucast r)), (''cols'', JU64 (ucast col))])]) c)"

definition cli_read_output ::
  "cli_serde \<Rightarrow> codec \<Rightarrow> 's exchange \<Rightarrow> string \<Rightarrow> nat \<Rightarrow> 's \<times> dclient \<Rightarrow> ('s \<times> dclient) \<times> (daemon_error + cli_read)" where
  "cli_read_output cs cod ex sid since c =
     read_with (parse_read_since cs cod) (cli_call cs ex ''session.read_output'' (since_params sid since) c)"

definition cli_close :: "cli_serde \<Rightarrow> 's exchange \<Rightarrow> string \<Rightarrow> 's \<times> dclient \<Rightarrow> ('s \<times> dclient) \<times> (daemon_error + unit)" where
  "cli_close cs ex sid c = read_with (\<lambda>_. Inr ()) (cli_call cs ex ''session.close'' (id_params sid) c)"

definition cli_shutdown :: "cli_serde \<Rightarrow> 's exchange \<Rightarrow> 's \<times> dclient \<Rightarrow> ('s \<times> dclient) \<times> (daemon_error + unit)" where
  "cli_shutdown cs ex c = read_with (\<lambda>_. Inr ()) (cli_call cs ex ''daemon.shutdown'' (JObj []) c)"

section \<open>The commands\<close>

text \<open>Every command connects, asks once and prints.\<close>

datatype cli_out = Line string | Written bytes | TruncatedWritten u64 bytes | Rows "cli_info list"

definition with_client ::
  "cli_serde \<Rightarrow> 's exchange \<Rightarrow> 's \<Rightarrow> ('s \<times> dclient \<Rightarrow> ('s \<times> dclient) \<times> (daemon_error + 'a)) \<Rightarrow> 's \<times> (daemon_error + 'a)" where
  "with_client cs ex s f =
     (case cli_connect cs ex s of
        ((s, cl), Inl e) \<Rightarrow> (s, Inl e)
      | (c, Inr _) \<Rightarrow> (case f c of ((s, cl), r) \<Rightarrow> (s, r)))"

definition cmd_list :: "cli_serde \<Rightarrow> 's exchange \<Rightarrow> 's \<Rightarrow> 's \<times> (daemon_error + cli_out)" where
  "cmd_list cs ex s = read_with (\<lambda>l. Inr (Rows l)) (with_client cs ex s (cli_list cs ex))"

definition cmd_create ::
  "cli_serde \<Rightarrow> 's exchange \<Rightarrow> 's \<Rightarrow> string \<Rightarrow> string option \<Rightarrow> u16 \<Rightarrow> u16 \<Rightarrow> string option \<Rightarrow> 's \<times> (daemon_error + cli_out)" where
  "cmd_create cs ex s shell cwd r col name =
     read_with (\<lambda>p. Inr (Line (fst p))) (with_client cs ex s (cli_create cs ex shell cwd \<lparr>rows = r, cols = col\<rparr> name))"

definition cmd_detach :: "cli_serde \<Rightarrow> 's exchange \<Rightarrow> 's \<Rightarrow> string \<Rightarrow> 's \<times> (daemon_error + cli_out)" where
  "cmd_detach cs ex s sid = read_with (\<lambda>_. Inr (Line (''detached: '' @ sid))) (with_client cs ex s (cli_detach cs ex sid))"

definition cmd_send :: "cli_serde \<Rightarrow> codec \<Rightarrow> 's exchange \<Rightarrow> 's \<Rightarrow> string \<Rightarrow> string \<Rightarrow> 's \<times> (daemon_error + cli_out)" where
  "cmd_send cs cod ex s sid data =
     read_with (\<lambda>_. Inr (Line (''sent '' @ dec (length data) @ '' bytes''))) (with_client cs ex s (cli_send_input cs cod ex sid (str_bytes data)))"

definition cmd_read :: "cli_serde \<Rightarrow> codec \<Rightarrow> 's exchange \<Rightarrow> 's \<Rightarrow> string \<Rightarrow> nat \<Rightarrow> 's \<times> (daemon_error + cli_out)" where
  "cmd_read cs cod ex s sid since =
     read_with (\<lambda>r. Inr (if cl_is_truncated r then TruncatedWritten (cl_cursor_start r) (cl_data r) else Written (cl_data r)))
       (with_client cs ex s (cli_read_output cs cod ex sid since))"

definition cmd_control :: "cli_serde \<Rightarrow> 's exchange \<Rightarrow> 's \<Rightarrow> string \<Rightarrow> string \<Rightarrow> 's \<times> (daemon_error + cli_out)" where
  "cmd_control cs ex s sid control =
     read_with (\<lambda>_. Inr (Line (''control sent: '' @ control))) (with_client cs ex s (cli_send_control cs ex sid control))"

definition cmd_close :: "cli_serde \<Rightarrow> 's exchange \<Rightarrow> 's \<Rightarrow> string \<Rightarrow> 's \<times> (daemon_error + cli_out)" where
  "cmd_close cs ex s sid = read_with (\<lambda>_. Inr (Line (''closed: '' @ sid))) (with_client cs ex s (cli_close cs ex sid))"

definition cmd_shutdown :: "cli_serde \<Rightarrow> 's exchange \<Rightarrow> 's \<Rightarrow> 's \<times> (daemon_error + cli_out)" where
  "cmd_shutdown cs ex s = read_with (\<lambda>_. Inr (Line ''daemon shutdown'')) (with_client cs ex s (cli_shutdown cs ex))"

section \<open>The daemon's side of a connection\<close>

text \<open>
  \<open>handle_connection\<close>: the first request must be a greeting, then requests are dispatched until the client hangs up; a
  shutdown ends the process.  \<open>tv\<close> is serde's serialisation of a response.
\<close>

record dconn =
  cn_mgr :: manager
  cn_greeted :: bool
  cn_open :: bool
  cn_attached :: "string list"

definition dconn_new :: "manager \<Rightarrow> dconn" where
  "dconn_new m = \<lparr>cn_mgr = m, cn_greeted = False, cn_open = True, cn_attached = []\<rparr>"

definition serve_conn :: "codec \<Rightarrow> world \<Rightarrow> string \<Rightarrow> (response \<Rightarrow> json) \<Rightarrow> dconn exchange" where
  "serve_conn cod w daemon_id tv cn rq =
     (if \<not> cn_open cn then (cn, Inl UnexpectedEof)
      else if \<not> cn_greeted cn then
        (let (resp, go) = hello daemon_id rq in (cn\<lparr>cn_greeted := go, cn_open := go\<rparr>, Inr (tv resp)))
      else
        (let (m, attached, resp, pa) = dispatch cod w (cn_mgr cn) (cn_attached cn) rq
         in (cn\<lparr>cn_mgr := m, cn_attached := attached, cn_open := rq_method rq \<noteq> ''daemon.shutdown''\<rparr>, Inr (tv resp))))"

text \<open>What is left when the client hangs up.\<close>

definition hang_up :: "dconn \<Rightarrow> manager" where
  "hang_up cn = cleanup (cn_mgr cn) (cn_attached cn)"

section \<open>The interactive attach\<close>

text \<open>
  What \<open>cmd_attach\<close> waits for after the response: input and whether it could be sent, its end, an error of reading it, Ctrl+C; and
  in the reader task a message of the daemon, or the error that ends its stream.
\<close>

datatype attach_event = Typed bytes bool | InputEof | InputError | Interrupt | FromDaemon "json option"

record attach_state =
  at_warned :: "u64 option"
  at_next_id :: u64
  at_reader :: bool
  at_running :: bool
  at_out :: bytes
  at_requests :: "request list"
  at_detached :: bool

definition attach_start :: "u64 \<Rightarrow> cli_read \<Rightarrow> attach_state" where
  "attach_start i initial =
     \<lparr>at_warned = (if cl_is_truncated initial then Some (cl_cursor_start initial) else None),
      at_next_id = i, at_reader = True, at_running = True, at_out = cl_data initial, at_requests = [], at_detached = False\<rparr>"

text \<open>How the command starts: it connects, attaches, warns of lost output and writes what the response brought.\<close>

definition cmd_attach_start ::
  "cli_serde \<Rightarrow> codec \<Rightarrow> 's exchange \<Rightarrow> 's \<Rightarrow> string \<Rightarrow> nat \<Rightarrow> 's \<times> (daemon_error + attach_state)" where
  "cmd_attach_start cs cod ex s sid since =
     (case cli_connect cs ex s of
        ((s, cl), Inl e) \<Rightarrow> (s, Inl e)
      | (c, Inr _) \<Rightarrow>
          (case cli_attach cs cod ex sid since c of
             ((s, cl), Inl e) \<Rightarrow> (s, Inl e)
           | ((s, cl), Inr initial) \<Rightarrow> (s, Inr (attach_start (dl_next_id cl) initial))))"

text \<open>The reader task on one message.\<close>

definition reader_message :: "codec \<Rightarrow> json option \<Rightarrow> attach_state \<Rightarrow> attach_state" where
  "reader_message cod msg st =
     (case msg of
        None \<Rightarrow> st\<lparr>at_reader := False\<rparr>
      | Some value \<Rightarrow>
          (case get_str value ''event'' of
             None \<Rightarrow> st
           | Some event \<Rightarrow>
               if event = ''pty_data'' then
                 (case get_str value ''data'' of
                    None \<Rightarrow> st
                  | Some data \<Rightarrow> (case b64_decode cod data of Inl e \<Rightarrow> st | Inr bytes \<Rightarrow> st\<lparr>at_out := at_out st @ bytes\<rparr>))
               else if event = ''pty_exit'' \<or> event = ''session_lost'' then st\<lparr>at_reader := False\<rparr>
               else st))"

text \<open>A request of the main loop; leaving the loop aborts the reader.\<close>

definition ask :: "string \<Rightarrow> json \<Rightarrow> attach_state \<Rightarrow> attach_state" where
  "ask meth params st =
     st\<lparr>at_next_id := at_next_id st + 1,
        at_requests := at_requests st @ [\<lparr>rq_id = at_next_id st, rq_method = meth, rq_params = params\<rparr>]\<rparr>"

definition leave :: "attach_state \<Rightarrow> attach_state" where
  "leave st = st\<lparr>at_running := False, at_reader := False\<rparr>"

fun attach_step :: "codec \<Rightarrow> string \<Rightarrow> attach_state \<Rightarrow> attach_event \<Rightarrow> attach_state" where
  "attach_step cod sid st ev =
     (if \<not> at_running st then st
      else case ev of
        Typed d sent \<Rightarrow>
          if sent then ask ''session.send_input'' (input_params cod sid d) st
          else leave (st\<lparr>at_next_id := at_next_id st + 1\<rparr>)
      | InputEof \<Rightarrow> leave st
      | InputError \<Rightarrow> leave st
      | Interrupt \<Rightarrow> leave ((ask ''session.detach'' (id_params sid) st)\<lparr>at_detached := True\<rparr>)
      | FromDaemon msg \<Rightarrow> if at_reader st then reader_message cod msg st else st)"

declare attach_step.simps [simp del]

definition attach_run :: "codec \<Rightarrow> string \<Rightarrow> attach_state \<Rightarrow> attach_event list \<Rightarrow> attach_state" where
  "attach_run cod sid st evs = foldl (attach_step cod sid) st evs"

section \<open>A command is the daemon's operation\<close>

text \<open>serde reads back what the daemon writes.\<close>

definition serde_agrees :: "codec \<Rightarrow> cli_serde \<Rightarrow> (response \<Rightarrow> json) \<Rightarrow> bool" where
  "serde_agrees cod cs tv \<longleftrightarrow>
     (\<forall>i v. v \<noteq> JNull \<longrightarrow> rd_response cs (tv (ok_response i v)) = Some (ok_response i v)) \<and>
     (\<forall>i c m. rd_response cs (tv (err_response i c m)) = Some (err_response i c m)) \<and>
     (\<forall>v b d. rd_hello cs (JObj [(''daemon_protocol_version'', JU64 (ucast v)), (''daemon_build'', JStr b), (''daemon_id'', JStr d)]) = Some (v, b, d)) \<and>
     (\<forall>sid n. rd_create cs (JObj [(''session_id'', JStr sid), (''written'', JU64 n)]) = Some (sid, n)) \<and>
     (\<forall>r. rd_read cs (read_json cod r) =
        Some \<lparr>cw_cursor_start = of_nat (ar_cursor_start r), cw_cursor_end = of_nat (ar_cursor_end r),
              cw_is_truncated = ar_is_truncated r, cw_data = Some (b64_encode cod (ar_data r))\<rparr>)"

definition b64_faithful :: "codec \<Rightarrow> bool" where
  "b64_faithful cod \<longleftrightarrow> (\<forall>x. b64_decode cod (b64_encode cod x) = Inr x \<and> (b64_encode cod x = [] \<longleftrightarrow> x = []))"

text \<open>What the client makes of an error of the daemon.\<close>

fun remote_error :: "session_error \<Rightarrow> daemon_error" where
  "remote_error (NotFound s) = RpcFailed ''NOT_FOUND'' (''session not found: '' @ s)"
| "remote_error (InvalidState ex ac) = RpcFailed ''INVALID_STATE'' (''session state invalid: expected '' @ ex @ '', got '' @ ac)"
| "remote_error (SessionIsLost s) = RpcFailed ''SESSION_LOST'' (''session lost: '' @ s)"
| "remote_error (PtyError e) = RpcFailed ''INTERNAL'' (''pty error: '' @ e)"
| "remote_error (InvalidArg e) = RpcFailed ''INVALID_ARGUMENT'' (''invalid argument: '' @ e)"

definition answered :: "('a \<Rightarrow> 'b) \<Rightarrow> session_error + 'a \<Rightarrow> daemon_error + 'b" where
  "answered f u = (case u of Inl e \<Rightarrow> Inl (remote_error e) | Inr x \<Rightarrow> Inr (f x))"

lemma call_result_daemon:
  assumes "serde_agrees cod cs tv"
  shows "v \<noteq> JNull \<Longrightarrow> call_result cs i (Inr (tv (ok_response i v))) = Inr v"
    "call_result cs i (Inr (tv (err_response i c m))) = Inl (RpcFailed c m)"
    "call_result cs i (Inr (tv (session_err_to_response i e))) = Inl (remote_error e)"
    "call_result cs i (Inr (tv (unit_response i u))) = answered (\<lambda>_. JObj []) u"
proof -
  show e: "call_result cs i (Inr (tv (err_response i c m))) = Inl (RpcFailed c m)" for c m
    using assms by (simp add: call_result_def serde_agrees_def) (simp add: err_response_def)
  show o: "call_result cs i (Inr (tv (ok_response i v))) = Inr v" if "v \<noteq> JNull" for v
    using assms that by (simp add: call_result_def serde_agrees_def) (simp add: ok_response_def)
  show s: "call_result cs i (Inr (tv (session_err_to_response i e))) = Inl (remote_error e)" for e
    by (cases e) (simp_all add: e)
  show "call_result cs i (Inr (tv (unit_response i u))) = answered (\<lambda>_. JObj []) u"
    by (simp add: unit_response_def answered_def o s split: sum.split)
qed

definition greeted :: "manager \<Rightarrow> dconn" where
  "greeted m = \<lparr>cn_mgr = m, cn_greeted = True, cn_open = True, cn_attached = []\<rparr>"

lemma cli_connect_daemon:
  assumes "serde_agrees cod cs tv"
  shows "cli_connect cs (serve_conn cod w did tv) (dconn_new m) = ((greeted m, \<lparr>dl_next_id = 2, dl_daemon_id = did\<rparr>), Inr ())"
proof -
  have h: "rd_hello cs (JObj [(''daemon_protocol_version'', JU64 (ucast PROTOCOL_VERSION)), (''daemon_build'', JStr b), (''daemon_id'', JStr d)]) =
      Some (PROTOCOL_VERSION, b, d)" for b d
    using assms by (simp add: serde_agrees_def)
  have v: "(ucast (ucast PROTOCOL_VERSION :: u64) :: u32) = PROTOCOL_VERSION" by (simp add: PROTOCOL_VERSION_def)
  show ?thesis
    using h v
    by (simp add: cli_connect_def cli_hello_def cli_call_def serve_conn_def dconn_new_def greeted_def hello_def hello_params_def
        get_u64_def Let_def read_with_def call_result_daemon(1) [OF assms])
qed

lemma with_client_daemon:
  assumes "serde_agrees cod cs tv"
  shows "with_client cs (serve_conn cod w did tv) (dconn_new m) f =
    (fst (fst (f (greeted m, \<lparr>dl_next_id = 2, dl_daemon_id = did\<rparr>))), snd (f (greeted m, \<lparr>dl_next_id = 2, dl_daemon_id = did\<rparr>)))"
  using cli_connect_daemon [OF assms] by (simp add: with_client_def case_prod_beta)

lemma call_daemon:
  "cli_call cs (serve_conn cod w did tv) meth params (greeted m, cl) =
    (let (m', attached, resp, pa) = dispatch cod w m [] \<lparr>rq_id = dl_next_id cl, rq_method = meth, rq_params = params\<rparr>
     in (((greeted m')\<lparr>cn_attached := attached, cn_open := meth \<noteq> ''daemon.shutdown''\<rparr>, cl\<lparr>dl_next_id := dl_next_id cl + 1\<rparr>),
         call_result cs (dl_next_id cl) (Inr (tv resp))))"
  by (simp add: cli_call_def serve_conn_def greeted_def Let_def split: prod.split)

lemma read_with_simps [simp]:
  "fst (read_with f r) = fst r" "snd (read_with f r) = (case snd r of Inl e \<Rightarrow> Inl e | Inr v \<Rightarrow> f v)"
  by (simp_all add: read_with_def)

lemma hang_up_greeted [simp]:
  "hang_up ((greeted m)\<lparr>cn_attached := [], cn_open := b\<rparr>) = m" "hang_up (greeted m) = m"
  by (simp_all add: hang_up_def greeted_def cleanup_def)

lemmas command_eval = params_eval cmd_send_def cli_send_input_def do_send_input_def input_params_def
  cmd_close_def cli_close_def do_close_def id_params_def cmd_detach_def cli_detach_def do_detach_def
  cmd_control_def cli_send_control_def do_send_control_def cmd_read_def cli_read_output_def do_read_output_def since_params_def
  cmd_create_def cli_create_def do_create_def create_params_def

lemma parse_read_daemon:
  assumes "serde_agrees cod cs tv" "b64_faithful cod"
  shows "parse_read_since cs cod (read_json cod r) =
    Inr \<lparr>cl_cursor_start = of_nat (ar_cursor_start r), cl_cursor_end = of_nat (ar_cursor_end r),
         cl_is_truncated = ar_is_truncated r, cl_data = ar_data r\<rparr>"
  using assms by (simp add: parse_read_since_def serde_agrees_def b64_faithful_def)

text \<open>
  (C29) A command of the daemon's own client is the daemon's operation.  Run against the daemon's side of a fresh connection, \<open>create\<close>
  with its shell, directory, size and name, \<open>send\<close> with the bytes given, \<open>control\<close> with a name the daemon knows,
  \<open>detach\<close>, \<open>close\<close> and \<open>read\<close> leave the manager their operation leaves and print what it says, or end with its error;
  what the operation hands to the terminal is part of the manager (\<open>ds_spawned\<close>, \<open>ds_input\<close>).
\<close>

theorem cli_command_is_operation:
  assumes "serde_agrees cod cs tv" "b64_faithful cod" "since < 2 ^ 64"
  shows "(case cmd_create cs (serve_conn cod w did tv) (dconn_new m) shell cwd r col name of (cn, res) \<Rightarrow>
      (hang_up cn, res) = (case create w m shell cwd \<lparr>rows = r, cols = col\<rparr> name of
         (m', Inr sid) \<Rightarrow> (m', Inr (Line sid))
       | (m', Inl e) \<Rightarrow> (m', Inl (RpcFailed ''INTERNAL'' (session_error_text e))))) \<and>
    (case cmd_send cs cod (serve_conn cod w did tv) (dconn_new m) sid data of (cn, r) \<Rightarrow>
      (hang_up cn, r) = (fst (send_input w m sid (str_bytes data)),
        answered (\<lambda>_. Line (''sent '' @ dec (length data) @ '' bytes'')) (snd (send_input w m sid (str_bytes data))))) \<and>
    (case cmd_control cs (serve_conn cod w did tv) (dconn_new m) sid ctl of (cn, r) \<Rightarrow>
      (hang_up cn, r) = (case control_of ctl of
         Some k \<Rightarrow> (fst (send_control w m sid k), answered (\<lambda>_. Line (''control sent: '' @ ctl)) (snd (send_control w m sid k)))
       | None \<Rightarrow> (m, Inl (RpcFailed ''INVALID_ARGUMENT'' ctl)))) \<and>
    (case cmd_detach cs (serve_conn cod w did tv) (dconn_new m) sid of (cn, r) \<Rightarrow>
      (hang_up cn, r) = (fst (detach m sid), answered (\<lambda>_. Line (''detached: '' @ sid)) (snd (detach m sid)))) \<and>
    (case cmd_close cs (serve_conn cod w did tv) (dconn_new m) sid of (cn, r) \<Rightarrow>
      (hang_up cn, r) = (fst (close m sid), answered (\<lambda>_. Line (''closed: '' @ sid)) (snd (close m sid)))) \<and>
    (case cmd_read cs cod (serve_conn cod w did tv) (dconn_new m) sid since of (cn, r) \<Rightarrow>
      (hang_up cn, r) = (m, answered (\<lambda>q. if ar_is_truncated q then TruncatedWritten (of_nat (ar_cursor_start q)) (ar_data q)
                                          else Written (ar_data q)) (read_output m sid since)))"
proof -
  note daemon = with_client_daemon [OF assms(1), of w did m] call_daemon call_result_daemon [OF assms(1)]
  have b: "b64_decode cod (b64_encode cod x) = Inr x" for x using assms(2) by (simp add: b64_faithful_def)
  have n: "unat (of_nat since :: u64) = since" using assms(3) by (simp add: unat_of_nat)
  show ?thesis
  proof (intro conjI)
    have wrote: "rd_create cs (JObj [(''session_id'', JStr sid), (''written'', JU64 n)]) = Some (sid, n)" for sid n
      using assms(1) by (simp add: serde_agrees_def)
    show "case cmd_create cs (serve_conn cod w did tv) (dconn_new m) shell cwd r col name of (cn, res) \<Rightarrow>
      (hang_up cn, res) = (case create w m shell cwd \<lparr>rows = r, cols = col\<rparr> name of
         (m', Inr sid) \<Rightarrow> (m', Inr (Line sid))
       | (m', Inl e) \<Rightarrow> (m', Inl (RpcFailed ''INTERNAL'' (session_error_text e))))"
      by (cases cwd; cases name)
        (simp_all add: case_prod_beta daemon command_eval wrote or_json_def split: sum.split prod.split)
  next
    show "case cmd_send cs cod (serve_conn cod w did tv) (dconn_new m) sid data of (cn, r) \<Rightarrow>
      (hang_up cn, r) = (fst (send_input w m sid (str_bytes data)),
        answered (\<lambda>_. Line (''sent '' @ dec (length data) @ '' bytes'')) (snd (send_input w m sid (str_bytes data))))"
      by (simp add: case_prod_beta daemon command_eval b answered_def split: sum.split)
  next
    show "case cmd_control cs (serve_conn cod w did tv) (dconn_new m) sid ctl of (cn, r) \<Rightarrow>
      (hang_up cn, r) = (case control_of ctl of
         Some k \<Rightarrow> (fst (send_control w m sid k), answered (\<lambda>_. Line (''control sent: '' @ ctl)) (snd (send_control w m sid k)))
       | None \<Rightarrow> (m, Inl (RpcFailed ''INVALID_ARGUMENT'' ctl)))"
      by (simp add: case_prod_beta daemon command_eval answered_def split: sum.split option.split)
  next
    show "case cmd_detach cs (serve_conn cod w did tv) (dconn_new m) sid of (cn, r) \<Rightarrow>
      (hang_up cn, r) = (fst (detach m sid), answered (\<lambda>_. Line (''detached: '' @ sid)) (snd (detach m sid)))"
      by (simp add: case_prod_beta daemon command_eval answered_def split: sum.split)
  next
    show "case cmd_close cs (serve_conn cod w did tv) (dconn_new m) sid of (cn, r) \<Rightarrow>
      (hang_up cn, r) = (fst (close m sid), answered (\<lambda>_. Line (''closed: '' @ sid)) (snd (close m sid)))"
      by (simp add: case_prod_beta daemon command_eval answered_def split: sum.split)
  next
    have "read_json cod q \<noteq> JNull" for q by (simp add: read_json_def)
    then show "case cmd_read cs cod (serve_conn cod w did tv) (dconn_new m) sid since of (cn, r) \<Rightarrow>
      (hang_up cn, r) = (m, answered (\<lambda>q. if ar_is_truncated q then TruncatedWritten (of_nat (ar_cursor_start q)) (ar_data q)
                                          else Written (ar_data q)) (read_output m sid since))"
      by (simp add: case_prod_beta daemon command_eval n answered_def parse_read_daemon [OF assms(1,2)] split: sum.split)
  qed
qed

text \<open>
  The client sends the size of \<open>session.resize\<close> in an object of its own, the daemon looks for rows and columns beside the id:
  every resize is refused and the daemon unchanged.
\<close>

lemma cli_resize_refused:
  assumes "serde_agrees cod cs tv"
  shows "case with_client cs (serve_conn cod w did tv) (dconn_new m) (cli_resize cs (serve_conn cod w did tv) sid r col) of (cn, res) \<Rightarrow>
    (hang_up cn, res) = (m, Inl (RpcFailed ''INVALID_ARGUMENT'' ''session_id/rows/cols''))"
  by (simp add: case_prod_beta with_client_daemon [OF assms] call_daemon call_result_daemon [OF assms] cli_resize_def do_resize_def
      params_eval)

text \<open>The name the help gives as the example of a control key is one the daemon does not know.\<close>

lemma documented_control_refused:
  assumes "serde_agrees cod cs tv"
  shows "case cmd_control cs (serve_conn cod w did tv) (dconn_new m) sid ''C-c'' of (cn, res) \<Rightarrow>
    (hang_up cn, res) = (m, Inl (RpcFailed ''INVALID_ARGUMENT'' ''C-c''))"
  by (simp add: case_prod_beta with_client_daemon [OF assms] call_daemon call_result_daemon [OF assms] command_eval control_of_def)

section \<open>What attach shows\<close>

definition is_event :: "json \<Rightarrow> bool" where
  "is_event v \<longleftrightarrow> get_str v ''event'' \<noteq> None"

text \<open>The messages of the daemon among what the client waits for, and the events that do not end the main loop.\<close>

fun daemon_messages :: "attach_event list \<Rightarrow> json list" where
  "daemon_messages [] = []"
| "daemon_messages (FromDaemon (Some v) # evs) = v # daemon_messages evs"
| "daemon_messages (_ # evs) = daemon_messages evs"

fun goes_on :: "attach_event \<Rightarrow> bool" where
  "goes_on (Typed d sent) = sent"
| "goes_on (FromDaemon msg) = (msg \<noteq> None)"
| "goes_on _ = False"

text \<open>The events a pump sends: output, or the end of the session without output.\<close>

definition pump_event :: "event \<Rightarrow> bool" where
  "pump_event e \<longleftrightarrow> e_event e = ''pty_data'' \<or> is_terminal_event e \<and> e_data e = None"

definition event_json :: "(event \<Rightarrow> json) \<Rightarrow> bool" where
  "event_json ej \<longleftrightarrow> (\<forall>e. get_str (ej e) ''event'' = Some (e_event e) \<and> get_str (ej e) ''data'' = e_data e)"

lemma pump_step_events:
  "(\<forall>e \<in> set (pm_sent p). pump_event e) \<Longrightarrow> \<forall>e \<in> set (pm_sent (pump_step cod op m p)). pump_event e"
  by (auto simp: pump_step_def pump_finish_def pump_event_def pty_data_def terminal_event_def pty_exit_def pty_exit_unknown_def
      session_lost_def is_terminal_event_def Let_def split: pump_pc.split if_splits dstate.splits option.splits terminal_info.splits)

lemma pumps_send_pump_events:
  assumes "dexecs cod ls daemon_start = Some d" "p \<in> set (dm_pumps d)" "e \<in> set (pm_sent p)"
  shows "pump_event e"
proof -
  have "\<forall>p \<in> set (dm_pumps d). \<forall>e \<in> set (pm_sent p). pump_event e"
    using assms(1)
  proof (induction rule: dexecs_induct)
    case start
    show ?case by (simp add: daemon_start_def)
  next
    case (step l d d')
    show ?case
    proof (cases l)
      case (PumpStep i)
      then show ?thesis using step pump_step_events
        by (auto simp: Let_def in_set_conv_nth nth_list_update split: if_splits) (metis nth_mem)+
    qed (use step in \<open>auto simp: serve_request_def pump_new_def Let_def split: if_splits option.splits prod.splits\<close>)
  qed
  then show ?thesis using assms by blast
qed

lemma attach_silent:
  "list_all goes_on evs \<Longrightarrow> \<not> at_reader st \<Longrightarrow> at_running st \<Longrightarrow>
   at_out (attach_run cod sid st evs) = at_out st \<and> at_running (attach_run cod sid st evs)"
proof (induction evs arbitrary: st)
  case (Cons ev evs)
  then show ?case by (cases ev) (simp_all add: attach_run_def attach_step.simps ask_def)
qed (simp add: attach_run_def)

lemma attach_reads:
  assumes "event_json ej" "list_all goes_on evs" "at_running st" "at_reader st"
    and "filter is_event (daemon_messages evs) = map ej es" "filter is_terminal_event (butlast es) = []" "\<forall>e \<in> set es. pump_event e"
  shows "at_out (attach_run cod sid st evs) = at_out st @ concat (map (event_bytes cod) es) \<and> at_running (attach_run cod sid st evs)"
  using assms(2-)
proof (induction evs arbitrary: st es)
  case (Cons ev evs)
  show ?case
  proof (cases ev)
    case (FromDaemon msg)
    then obtain v where v: "msg = Some v" using Cons.prems by auto
    show ?thesis
    proof (cases "is_event v")
      case False
      then show ?thesis using Cons.prems Cons.IH [of st es] FromDaemon v
        by (simp add: attach_run_def attach_step.simps reader_message_def is_event_def)
    next
      case True
      then obtain e es' where es: "es = e # es'" "v = ej e" "filter is_event (daemon_messages evs) = map ej es'"
        using Cons.prems FromDaemon v by (cases es) auto
      have ev: "get_str v ''event'' = Some (e_event e)" "get_str v ''data'' = e_data e"
        using assms(1) es by (simp_all add: event_json_def)
      show ?thesis
      proof (cases "is_terminal_event e")
        case True
        then have "es' = []" "event_bytes cod e = []" using es Cons.prems(5,6)
          by (auto simp: pump_event_def is_terminal_event_def event_bytes_def split: if_splits)
        then show ?thesis
          using attach_silent [of evs "st\<lparr>at_reader := False\<rparr>" cod sid] Cons.prems FromDaemon v ev True es
          by (auto simp: attach_run_def attach_step.simps reader_message_def is_terminal_event_def)
      next
        case False
        then have "e_event e = ''pty_data''" using Cons.prems(6) es by (auto simp: pump_event_def)
        then have "reader_message cod msg st = st\<lparr>at_out := at_out st @ event_bytes cod e\<rparr>"
          using ev v by (simp add: reader_message_def event_bytes_def split: option.split sum.split)
        moreover have "filter is_terminal_event (butlast es') = []" "\<forall>e \<in> set es'. pump_event e"
          using Cons.prems(5,6) es by (auto split: if_splits)
        ultimately show ?thesis
          using Cons.IH [of "st\<lparr>at_out := at_out st @ event_bytes cod e\<rparr>" es'] Cons.prems FromDaemon v es
          by (simp add: attach_run_def attach_step.simps)
      qed
    qed
  next
    case (Typed d sent)
    then show ?thesis using Cons.prems Cons.IH [of "ask ''session.send_input'' (input_params cod sid d) st" es]
      by (simp add: attach_run_def attach_step.simps ask_def)
  qed (use Cons.prems in auto)
qed (simp add: attach_run_def)

text \<open>What a run never takes back: a pump's session and start, and what a terminal has written.\<close>

definition grows :: "daemon \<Rightarrow> daemon \<Rightarrow> bool" where
  "grows d d' \<longleftrightarrow> length (dm_pumps d) \<le> length (dm_pumps d') \<and> length (dm_streams d) \<le> length (dm_streams d') \<and>
     (\<forall>i < length (dm_pumps d). pm_addr (dm_pumps d' ! i) = pm_addr (dm_pumps d ! i) \<and> pm_start (dm_pumps d' ! i) = pm_start (dm_pumps d ! i)) \<and>
     (\<forall>a < length (dm_streams d). \<exists>x. dm_streams d' ! a = dm_streams d ! a @ x)"

lemma grows_refl [simp]: "grows d d"
  by (auto simp: grows_def)

lemma grows_trans: "grows d e \<Longrightarrow> grows e f \<Longrightarrow> grows d f"
  unfolding grows_def
proof (elim conjE, intro conjI allI impI)
  fix a
  assume "\<forall>a < length (dm_streams d). \<exists>x. dm_streams e ! a = dm_streams d ! a @ x"
    "\<forall>a < length (dm_streams e). \<exists>x. dm_streams f ! a = dm_streams e ! a @ x"
    "length (dm_streams d) \<le> length (dm_streams e)" "a < length (dm_streams d)"
  then obtain x y where "dm_streams e ! a = dm_streams d ! a @ x" "dm_streams f ! a = dm_streams e ! a @ y"
    by (meson less_le_trans)
  then show "\<exists>x. dm_streams f ! a = dm_streams d ! a @ x" by simp
qed auto

lemma list_update_grows: "\<exists>x. xs[i := xs ! i @ y] ! a = xs ! a @ x"
  by (cases "i < length xs \<and> i = a") (auto simp: nth_list_update, metis append_Nil2 list_update_beyond not_less nth_list_update_neq)

lemma dexec_grows: "dexec cod l d = Some d' \<Longrightarrow> grows d d'"
  by (cases l) (auto simp: list_update_grows grows_def serve_request_def Let_def nth_append nth_list_update split: if_splits option.splits prod.splits)

lemma dexecs_grows: "dexecs cod ls d = Some d' \<Longrightarrow> grows d d'"
proof (induction ls arbitrary: d)
  case (Cons l ls)
  then show ?case using dexec_grows grows_trans by (auto split: option.splits) blast
qed simp

definition attach_request :: "string \<Rightarrow> nat \<Rightarrow> request" where
  "attach_request sid since = \<lparr>rq_id = 2, rq_method = ''session.attach'', rq_params = since_params sid since\<rparr>"

lemma cmd_attach_start_daemon:
  assumes "serde_agrees cod cs tv" "b64_faithful cod" "since < 2 ^ 64"
    and "attach m sid since = (m', Inr r)" "Agentd.get_session m' sid = Some a"
  shows "snd (cmd_attach_start cs cod (serve_conn cod w did tv) (dconn_new m) sid since) =
    Inr (attach_start 3 \<lparr>cl_cursor_start = of_nat (ar_cursor_start r), cl_cursor_end = of_nat (ar_cursor_end r),
       cl_is_truncated = ar_is_truncated r, cl_data = ar_data r\<rparr>)"
proof -
  have n: "unat (of_nat since :: u64) = since" using assms(3) by (simp add: unat_of_nat)
  have nn: "read_json cod q \<noteq> JNull" for q by (simp add: read_json_def)
  show ?thesis
    using assms(4,5)
    by (simp add: cmd_attach_start_def cli_connect_daemon [OF assms(1)] call_daemon call_result_daemon [OF assms(1)] cli_attach_def
        read_with_def params_eval since_params_def n do_attach_def nn parse_read_daemon [OF assms(1,2)])
qed

text \<open>What the client starts with, and the pump the daemon starts for it.\<close>

lemma attach_starts_pump:
  assumes "serde_agrees cod cs tv" "b64_faithful cod" "since < 2 ^ 64" "dinv cod d" "dm_conns d c = Some []"
    and "cmd_attach_start cs cod (serve_conn cod w did tv) (dconn_new (dm_mgr d)) sid since = (cn, Inr st)"
    and "dexec cod (Request c w (attach_request sid since)) d = Some d'"
  obtains a r where "a < length (dm_streams d)" "r = agentd_read_since (ds_buffer (obj (dm_mgr d) a)) since"
    "length (dm_pumps d') = Suc (length (dm_pumps d))"
    "pm_addr (dm_pumps d' ! length (dm_pumps d)) = a" "pm_start (dm_pumps d' ! length (dm_pumps d)) = length (dm_streams d ! a)"
    "st = attach_start 3 \<lparr>cl_cursor_start = of_nat (ar_cursor_start r), cl_cursor_end = of_nat (ar_cursor_end r),
       cl_is_truncated = ar_is_truncated r, cl_data = ar_data r\<rparr>"
proof -
  note daemon = cli_connect_daemon [OF assms(1), of w did "dm_mgr d"] call_daemon call_result_daemon [OF assms(1)]
  have n: "unat (of_nat since :: u64) = since" using assms(3) by (simp add: unat_of_nat)
  have nn: "read_json cod q \<noteq> JNull" for q by (simp add: read_json_def)
  let ?m = "dm_mgr d"
  obtain a where a: "Agentd.get_session ?m sid = Some a" "ds_state (obj ?m a) = Created \<or> ds_state (obj ?m a) = Detached"
    using assms(6)
    by (auto simp: cmd_attach_start_def daemon cli_attach_def read_with_def params_eval since_params_def n do_attach_def attach_def Let_def
        split: option.splits dstate.splits)
  have b: "a < length (mg_objs ?m)" using assms(4) a(1) by (auto simp: dinv_def intro: get_session_bound)
  let ?r = "agentd_read_since (ds_buffer (obj ?m a)) since"
  let ?m' = "set_obj a ((obj ?m a)\<lparr>ds_state := Attached, ds_pump_epoch := ds_pump_epoch (obj ?m a) + 1\<rparr>) ?m"
  have at: "attach ?m sid since = (?m', Inr ?r)" using a by (auto simp: attach_def Let_def)
  have len: "length (dm_streams d) = length (mg_objs ?m)" and rep: "represents (ds_buffer (obj ?m a)) (dm_streams d ! a)"
    using assms(4) b by (simp_all add: dinv_def)
  have st: "st = attach_start 3 \<lparr>cl_cursor_start = of_nat (ar_cursor_start ?r), cl_cursor_end = of_nat (ar_cursor_end ?r),
       cl_is_truncated = ar_is_truncated ?r, cl_data = ar_data ?r\<rparr>"
    using cmd_attach_start_daemon [OF assms(1-3) at, of a w did] assms(6) a(1) by simp
  have "do_attach cod ?m [] (attach_request sid since) = (?m', [sid], ok_response 2 (read_json cod ?r),
      Some \<lparr>pa_addr = a, pa_session_id = sid, pa_cursor_end = ar_cursor_end ?r, pa_epoch = ds_pump_epoch (obj ?m' a)\<rparr>)"
    using a(1) by (simp add: do_attach_def attach_request_def params_eval since_params_def n at)
  then have "dispatch cod w ?m [] (attach_request sid since) = (?m', [sid], ok_response 2 (read_json cod ?r),
      Some \<lparr>pa_addr = a, pa_session_id = sid, pa_cursor_end = ar_cursor_end ?r, pa_epoch = ds_pump_epoch (obj ?m' a)\<rparr>)"
    by (simp add: dispatch_def attach_request_def)
  then have "d' = d\<lparr>dm_mgr := ?m', dm_conns := (dm_conns d)(c \<mapsto> [sid]), dm_pumps := dm_pumps d @
      [pump_new c \<lparr>pa_addr = a, pa_session_id = sid, pa_cursor_end = ar_cursor_end ?r, pa_epoch = ds_pump_epoch (obj ?m' a)\<rparr>]\<rparr>"
    using assms(5,7) len by (simp add: serve_request_def)
  then show thesis using that [of a ?r] b len st agentd_read_since_refines(2) [OF rep, of since]
    by (simp add: pump_new_def)
qed

lemma dexecs_append: "dexecs cod (ls @ ls') d = (case dexecs cod ls d of None \<Rightarrow> None | Some d' \<Rightarrow> dexecs cod ls' d')"
  by (induction ls arbitrary: d) (auto split: option.split)

text \<open>The response's bytes and what the pump sends after them are one piece of the stream.\<close>

lemma attach_screen:
  assumes rep: "represents g s" and "str = s @ x" "ps = length s" "ps \<le> l" "l \<le> length str" "length str < 2 ^ 64"
    and r: "r = agentd_read_since g since"
  shows "if ar_is_truncated r
    then since < unat (of_nat (ar_cursor_start r) :: u64) \<and> unat (of_nat (ar_cursor_start r) :: u64) \<le> ps \<and>
      ar_data r @ take (l - ps) (drop ps str) = drop (unat (of_nat (ar_cursor_start r) :: u64)) (take l str)
    else ar_data r @ take (l - ps) (drop ps str) = drop (min since ps) (take l str)"
proof -
  note read = agentd_read_since_refines [OF rep, of since, folded r]
  have join: "drop a s @ take (l - ps) (drop ps str) = drop a (take l str)" if "a \<le> ps" for a
    using assms(2-5) that by (simp add: drop_take)
  show ?thesis
  proof (cases "ar_is_truncated r")
    case True
    then have t: "since < length s - rb_size g" using read by simp
    then have c: "ar_cursor_start r = length s - rb_size g" "ar_data r = drop (length s - rb_size g) s"
      using read(1) represents_written [OF rep] by (auto simp: r agentd_read_since_def earliest_def max_def Let_def)
    moreover have "unat (of_nat (length s - rb_size g) :: u64) = length s - rb_size g"
      using assms(2,6) by (simp add: unat_of_nat)
    ultimately show ?thesis using True t join [of "length s - rb_size g"] assms(3) by simp
  next
    case False
    then have "ar_data r = drop (min since ps) s" using read assms(3) by (auto simp: max_def min_def)
    then show ?thesis using False join [of "min since ps"] by simp
  qed
qed

text \<open>
  (C22) The interactive attach shows the terminal's output, whole and in order, from where it was asked to start.  The command connects
  to a daemon that has run in any way, attaches from \<open>since\<close> and writes what the response brought; the daemon goes on in any way,
  its pump for this connection being the one the request started.  Whatever is typed in between and however responses and events
  alternate, once the messages of the pump have arrived, if it had to skip nothing, what was written to the screen is exactly the stream up
  to where the pump is, from a first byte on: from \<open>since\<close> (or the end of what there was, if that is less) when no warning was
  printed, and from the cursor the warning names, which is beyond \<open>since\<close>, when output was lost before the attach.
\<close>

theorem attach_shows_stream:
  assumes "serde_agrees cod cs tv" "b64_faithful cod" "event_json ej" "since < 2 ^ 64"
    and "dexecs cod ls daemon_start = Some d0" "dm_conns d0 c = Some []"
    and "cmd_attach_start cs cod (serve_conn cod w did tv) (dconn_new (dm_mgr d0)) sid since = (cn, Inr st)"
    and "dexecs cod (Request c w (attach_request sid since) # ls') d0 = Some d"
    and "p = dm_pumps d ! length (dm_pumps d0)" "str = dm_streams d ! pm_addr p" "length str < 2 ^ 64" "sent_untruncated p"
    and "list_all goes_on evs" "filter is_event (daemon_messages evs) = map ej (pm_sent p)"
  shows "(case at_warned st of
      None \<Rightarrow> at_out (attach_run cod sid st evs) = drop (min since (pm_start p)) (take (pm_last_sent p) str)
    | Some c \<Rightarrow> since < unat c \<and> unat c \<le> pm_start p \<and> at_out (attach_run cod sid st evs) = drop (unat c) (take (pm_last_sent p) str))"
proof -
  have law: "\<And>x. b64_decode cod (b64_encode cod x) = Inr x" using assms(2) by (simp add: b64_faithful_def)
  have inv0: "dinv cod d0" by (rule dinv_run [OF law assms(5)])
  obtain d1 where d1: "dexec cod (Request c w (attach_request sid since)) d0 = Some d1" "dexecs cod ls' d1 = Some d"
    using assms(8) by (auto split: option.splits)
  obtain a r where ar: "a < length (dm_streams d0)" "r = agentd_read_since (ds_buffer (obj (dm_mgr d0) a)) since"
    "length (dm_pumps d1) = Suc (length (dm_pumps d0))" "pm_addr (dm_pumps d1 ! length (dm_pumps d0)) = a"
    "pm_start (dm_pumps d1 ! length (dm_pumps d0)) = length (dm_streams d0 ! a)"
    "st = attach_start 3 \<lparr>cl_cursor_start = of_nat (ar_cursor_start r), cl_cursor_end = of_nat (ar_cursor_end r),
       cl_is_truncated = ar_is_truncated r, cl_data = ar_data r\<rparr>"
    using attach_starts_pump [OF assms(1,2,4) inv0 assms(6,7) d1(1)] by metis
  have g: "grows d0 d" "grows d1 d" using dexecs_grows [OF assms(8)] dexecs_grows [OF d1(2)] .
  have p: "pm_addr p = a" "pm_start p = length (dm_streams d0 ! a)" "p \<in> set (dm_pumps d)"
    using g(2) ar(3-5) assms(9) by (simp_all add: grows_def)
  obtain x where x: "str = dm_streams d0 ! a @ x" using g(1) ar(1) p(1) assms(10) by (auto simp: grows_def)
  have run: "dexecs cod (ls @ Request c w (attach_request sid since) # ls') daemon_start = Some d"
    using assms(5,8) by (simp add: dexecs_append)
  have ok: "pump_ok cod (obj (dm_mgr d) (pm_addr p)) str p"
    using dinv_run [OF law run] p(3) assms(10) unfolding dinv_def by blast
  have shape: "\<forall>e \<in> set (pm_sent p). pump_event e" using pumps_send_pump_events [OF run p(3)] by blast
  have rep: "represents (ds_buffer (obj (dm_mgr d0) a)) (dm_streams d0 ! a)" using inv0 ar(1) by (simp add: dinv_def)
  have out: "at_out (attach_run cod sid st evs) = ar_data r @ take (pm_last_sent p - pm_start p) (drop (pm_start p) str)"
    using attach_reads [OF assms(3,13) _ _ assms(14) _ shape, of st] ok assms(12) ar(6) by (simp add: attach_start_def pump_ok_def)
  have le: "pm_start p \<le> pm_last_sent p" "pm_last_sent p \<le> length str" using ok by (simp_all add: pump_ok_def)
  have warned: "at_warned st = (if ar_is_truncated r then Some (of_nat (ar_cursor_start r)) else None)"
    using ar(6) by (simp add: attach_start_def)
  show ?thesis
    unfolding warned out using attach_screen [OF rep x p(2) le assms(11) ar(2)] by (cases "ar_is_truncated r") simp_all
qed

text \<open>The reader's end does not end the loop: after the session's last event \<open>attach\<close> still waits for input and sends it.\<close>

lemma attach_outlives_session:
  "at_running st \<Longrightarrow> at_running (attach_run cod sid st (map FromDaemon msgs)) \<and>
   at_requests (attach_step cod sid (attach_run cod sid st (map FromDaemon msgs)) (Typed d True)) \<noteq> []"
proof (induction msgs arbitrary: st)
  case (Cons msg msgs)
  have "at_running (attach_step cod sid st (FromDaemon msg))" using Cons.prems
    by (auto simp: attach_step.simps reader_message_def split: option.split sum.split)
  then show ?case using Cons.IH by (simp add: attach_run_def)
qed (simp add: attach_run_def attach_step.simps ask_def)

section \<open>Witnesses\<close>

definition demo_event_json :: "event \<Rightarrow> json" where
  "demo_event_json e =
     JObj ((''event'', JStr (e_event e)) # (case e_data e of None \<Rightarrow> [] | Some t \<Rightarrow> [(''data'', JStr t)]))"

lemma demo_event_json_law: "event_json demo_event_json"
  by (simp add: event_json_def demo_event_json_def get_str_def split: option.split)

text \<open>A JSON reading of the messages as serde does it.\<close>

definition demo_tv :: "response \<Rightarrow> json" where
  "demo_tv r = JObj [(''id'', JU64 (rp_id r)), (''ok'', JBool (rp_ok r)),
     (''result'', case rp_result r of None \<Rightarrow> JNull | Some v \<Rightarrow> v),
     (''error'', case rp_error r of None \<Rightarrow> JNull | Some (c, m) \<Rightarrow> JObj [(''code'', JStr c), (''message'', JStr m)])]"

definition demo_rd_response :: "json \<Rightarrow> response option" where
  "demo_rd_response v =
     (case (get_u64 v ''id'', jget v ''ok'', jget v ''result'', jget v ''error'') of
        (Some i, Some (JBool b), Some r, Some e) \<Rightarrow>
          Some \<lparr>rp_id = i, rp_ok = b, rp_result = (if r = JNull then None else Some r),
            rp_error = (case (get_str e ''code'', get_str e ''message'') of (Some c, Some m) \<Rightarrow> Some (c, m) | _ \<Rightarrow> None)\<rparr>
      | _ \<Rightarrow> None)"

definition demo_cli_serde :: cli_serde where
  "demo_cli_serde = \<lparr>
     rd_response = demo_rd_response,
     rd_hello = (\<lambda>v. case (get_u64 v ''daemon_protocol_version'', get_str v ''daemon_build'', get_str v ''daemon_id'') of
        (Some n, Some b, Some d) \<Rightarrow> Some (ucast n, b, d) | _ \<Rightarrow> None),
     rd_create = (\<lambda>v. case (get_str v ''session_id'', get_u64 v ''written'') of (Some s, Some n) \<Rightarrow> Some (s, n) | _ \<Rightarrow> None),
     rd_read = (\<lambda>v. case (get_u64 v ''cursor_start'', get_u64 v ''cursor_end'', jget v ''is_truncated'') of
        (Some a, Some b, Some (JBool t)) \<Rightarrow>
          Some \<lparr>cw_cursor_start = a, cw_cursor_end = b, cw_is_truncated = t, cw_data = get_str v ''data''\<rparr>
      | _ \<Rightarrow> None),
     rd_infos = (\<lambda>_. None)\<rparr>"

lemma ucast_u32_u64 [simp]: "(ucast (ucast (x :: u32) :: u64) :: u32) = x"
  by (rule bit_word_eqI) (auto simp: bit_simps)

lemma demo_serde_agrees: "serde_agrees demo_codec demo_cli_serde demo_tv"
  by (simp add: serde_agrees_def demo_cli_serde_def demo_rd_response_def demo_tv_def ok_response_def err_response_def
      get_u64_def get_str_def read_json_def)

lemma demo_b64_faithful: "b64_faithful demo_codec"
  using demo_codec_law by (simp add: b64_faithful_def) (simp add: demo_codec_def bytes_str_def)

text \<open>One byte of output before the attach and one after it, seen by a client that has typed one.\<close>

definition attach_before :: "label list" where
  "attach_before = [OpenConn 1, Request 1 demo_world (demo_request ''session.create''), PtyOutput 0 0 [0x78]]"

definition attach_after :: "label list" where
  "attach_after = [Request 1 demo_world (attach_request ''sess_0000002a'' 0), PtyOutput 0 0 [0x79], PumpStep 0]"

lemma attach_reads_eval:
  "rb_written (rb_write (agentd_new 0) [0x78]) = 1"
  "agentd_read_since (rb_write (agentd_new 0) [0x78]) 0 =
     \<lparr>ar_cursor_start = 0, ar_cursor_end = 1, ar_is_truncated = False, ar_data = [0x78]\<rparr>"
  "agentd_read_since (rb_write (rb_write (agentd_new 0) [0x78]) [0x79]) 1 =
     \<lparr>ar_cursor_start = 1, ar_cursor_end = 2, ar_is_truncated = False, ar_data = [0x79]\<rparr>"
proof -
  have rep: "represents (rb_write (agentd_new 0) [0x78]) [0x78]"
    using represents_write [OF represents_agentd_new, of 0 "[0x78]"] by simp
  then show w: "rb_written (rb_write (agentd_new 0) [0x78]) = 1" by (simp add: represents_written)
  have rep2: "represents (rb_write (rb_write (agentd_new 0) [0x78]) [0x79]) [0x78, 0x79]"
    using represents_write [OF rep, of "[0x79]"] by simp
  then have w2: "rb_written (rb_write (rb_write (agentd_new 0) [0x78]) [0x79]) = 2" by (simp add: represents_written)
  have big: "Suc 0 < rb_size (agentd_new 0)" by (simp add: agentd_new_def new_raw_def AGENTD_DEFAULT_BUFFER_SIZE_def MIN_BUFFER_SIZE_def)
  have z: "rb_size (rb_write g x) = rb_size g" for g x by (rule rb_size_write)
  have e: "earliest (rb_write (agentd_new 0) [0x78]) = 0" "earliest (rb_write (rb_write (agentd_new 0) [0x78]) [0x79]) = 0"
    using big w w2 by (simp_all add: earliest_def z)
  show "agentd_read_since (rb_write (agentd_new 0) [0x78]) 0 =
     \<lparr>ar_cursor_start = 0, ar_cursor_end = 1, ar_is_truncated = False, ar_data = [0x78]\<rparr>"
    using agentd_read_since_refines [OF rep, of 0] big
    by (simp add: agentd_read_since_def w e z Let_def)
  show "agentd_read_since (rb_write (rb_write (agentd_new 0) [0x78]) [0x79]) 1 =
     \<lparr>ar_cursor_start = 1, ar_cursor_end = 2, ar_is_truncated = False, ar_data = [0x79]\<rparr>"
    using agentd_read_since_refines [OF rep2, of 1] big
    by (simp add: agentd_read_since_def w2 e z Let_def)
qed

lemma attach_demo_result:
  "\<exists>d0 d p m r. dexecs demo_codec attach_before daemon_start = Some d0 \<and> dm_conns d0 1 = Some [] \<and>
     dexecs demo_codec attach_after d0 = Some d \<and> p = dm_pumps d ! length (dm_pumps d0) \<and>
     dm_streams d ! pm_addr p = [0x78, 0x79] \<and> sent_untruncated p \<and> pm_last_sent p = 2 \<and>
     attach (dm_mgr d0) ''sess_0000002a'' 0 = (m, Inr r) \<and> \<not> ar_is_truncated r \<and> Agentd.get_session m ''sess_0000002a'' = Some 0"
  by (simp add: attach_before_def attach_after_def run_eval attach_request_def since_params_def params_eval attach_reads_eval
      attach_reads_eval(3) [simplified] sent_untruncated_def)

theorem attach_shows_stream_witness:
  "\<exists>d0 d p cn st. dexecs demo_codec attach_before daemon_start = Some d0 \<and> dexecs demo_codec attach_after d0 = Some d \<and>
     p = dm_pumps d ! length (dm_pumps d0) \<and>
     cmd_attach_start demo_cli_serde demo_codec (serve_conn demo_codec demo_world ''d'' demo_tv) (dconn_new (dm_mgr d0))
       ''sess_0000002a'' 0 = (cn, Inr st) \<and>
     at_out (attach_run demo_codec ''sess_0000002a'' st
       (Typed [0x6C] True # map (\<lambda>e. FromDaemon (Some (demo_event_json e))) (pm_sent p))) = [0x78, 0x79]"
proof -
  obtain d0 d p m q where r: "dexecs demo_codec attach_before daemon_start = Some d0" "dm_conns d0 1 = Some []"
    "dexecs demo_codec attach_after d0 = Some d" "p = dm_pumps d ! length (dm_pumps d0)"
    "dm_streams d ! pm_addr p = [0x78, 0x79]" "sent_untruncated p" "pm_last_sent p = 2"
    and q: "attach (dm_mgr d0) ''sess_0000002a'' 0 = (m, Inr q)" "\<not> ar_is_truncated q" "Agentd.get_session m ''sess_0000002a'' = Some 0"
    using attach_demo_result by metis
  obtain cn st where st: "cmd_attach_start demo_cli_serde demo_codec (serve_conn demo_codec demo_world ''d'' demo_tv) (dconn_new (dm_mgr d0))
       ''sess_0000002a'' 0 = (cn, Inr st)" "at_warned st = None"
    using cmd_attach_start_daemon [OF demo_serde_agrees demo_b64_faithful _ q(1,3), of demo_world "''d''"] q(2)
    by (cases "cmd_attach_start demo_cli_serde demo_codec (serve_conn demo_codec demo_world ''d'' demo_tv) (dconn_new (dm_mgr d0))
       ''sess_0000002a'' 0") (simp add: attach_start_def)
  let ?evs = "Typed [0x6C] True # map (\<lambda>e. FromDaemon (Some (demo_event_json e))) (pm_sent p)"
  have g: "list_all goes_on ?evs" by (simp add: list_all_iff)
  have m: "daemon_messages (map (\<lambda>e. FromDaemon (Some (demo_event_json e))) es) = map demo_event_json es" for es
    by (induction es) simp_all
  have f: "filter is_event (daemon_messages ?evs) = map demo_event_json (pm_sent p)"
    using demo_event_json_law by (simp add: m event_json_def is_event_def filter_map o_def)
  have "at_out (attach_run demo_codec ''sess_0000002a'' st ?evs) = [0x78, 0x79]"
    using attach_shows_stream [OF demo_serde_agrees demo_b64_faithful demo_event_json_law _ r(1,2) st(1) r(3) [unfolded attach_after_def]
        r(4) refl _ r(6) g f] r(5,7) st(2) by simp
  then show ?thesis using r st by blast
qed

text \<open>Two bytes typed into the session of the demonstration daemon.\<close>

theorem cli_command_is_operation_witness:
  "\<exists>cn. cmd_send demo_cli_serde demo_codec (serve_conn demo_codec demo_world ''d'' demo_tv) (dconn_new demo_manager) ''sess_0000002a'' ''ls'' =
     (cn, Inr (Line ''sent 2 bytes'')) \<and> ds_input (obj (hang_up cn) 0) = [0x6C, 0x73]"
proof -
  have b: "str_bytes ''ls'' = [0x6C, 0x73]" by (simp add: str_bytes_def)
  have ok: "send_input demo_world demo_manager ''sess_0000002a'' [0x6C, 0x73] =
      (set_obj 0 ((obj demo_manager 0)\<lparr>ds_input := [0x6C, 0x73], ds_last_activity_at := 0\<rparr>) demo_manager, Inr ())"
    by (simp add: send_input_def demo_manager_session ensure_alive_def demo_world_def)
  have d: "dec (Suc (Suc 0)) = ''2''" by code_simp
  then show ?thesis
    using cli_command_is_operation [OF demo_serde_agrees demo_b64_faithful, where since = 0 and w = demo_world and did = "''d''"
        and m = demo_manager and sid = "''sess_0000002a''" and data = "''ls''"]
    by (auto simp: case_prod_beta b ok d answered_def obj_set_obj demo_manager_session prod_eq_iff intro!: exI)
qed

end
