(* ===== verification/Wire.thy ===== *)
theory Wire
  imports Cli_Client
begin

text \<open>
  The messages of the daemon's protocol as JSON values: what serde derives from the structures of agentd/src/protocol.rs, which the daemon
  writes, and of its copies src/infrastructure/daemon_proto.rs and cli/src/protocol.rs, which read them; and the copies' framing.  A
  derived reader takes an object, whose other entries it ignores, or an array with the fields in order.
\<close>

section \<open>Derived readers\<close>

text \<open>
  The fields of a structure with field names \<open>ks\<close>, of which the last \<open>d\<close> have a default: a missing one is \<open>None\<close>.
\<close>

definition serde_fields :: "string list \<Rightarrow> nat \<Rightarrow> json \<Rightarrow> (string \<Rightarrow> json option) option" where
  "serde_fields ks d v =
     (case v of
        JObj kvs \<Rightarrow> Some (map_of kvs)
      | JArr xs \<Rightarrow> if length ks - d \<le> length xs \<and> length xs \<le> length ks then Some (map_of (zip ks xs)) else None
      | _ \<Rightarrow> None)"

text \<open>A required field, and a field of an \<open>Option\<close> type.\<close>

definition req :: "(json \<Rightarrow> 'a option) \<Rightarrow> json option \<Rightarrow> 'a option" where
  "req f v = (case v of None \<Rightarrow> None | Some x \<Rightarrow> f x)"

definition optional :: "(json \<Rightarrow> 'a option) \<Rightarrow> json option \<Rightarrow> 'a option option" where
  "optional f v = (case v of None \<Rightarrow> Some None | Some JNull \<Rightarrow> Some None | Some x \<Rightarrow> map_option Some (f x))"

fun as_bool :: "json \<Rightarrow> bool option" where
  "as_bool (JBool b) = Some b"
| "as_bool _ = None"

fun as_u32 :: "json \<Rightarrow> u32 option" where
  "as_u32 (JU64 n) = (if unat n < 2 ^ 32 then Some (ucast n) else None)"
| "as_u32 _ = None"

fun as_u16 :: "json \<Rightarrow> u16 option" where
  "as_u16 (JU64 n) = (if unat n < 2 ^ 16 then Some (ucast n) else None)"
| "as_u16 _ = None"

text \<open>\<open>i32\<close>: \<open>other\<close> is the value of a number that is not unsigned, if that is an \<open>i32\<close>.\<close>

fun as_i32 :: "int option \<Rightarrow> json \<Rightarrow> int option" where
  "as_i32 other (JU64 n) = (if unat n < 2 ^ 31 then Some (uint n) else None)"
| "as_i32 other JOtherNum = other"
| "as_i32 other _ = None"

definition int_json :: "int \<Rightarrow> json" where
  "int_json n = (if 0 \<le> n then JU64 (of_int n) else JOtherNum)"

lemmas serde_eval = serde_fields_def req_def optional_def

section \<open>Requests\<close>

definition request_json :: "request \<Rightarrow> json" where
  "request_json r = JObj [(''id'', JU64 (rq_id r)), (''method'', JStr (rq_method r)), (''params'', rq_params r)]"

definition request_of :: "json \<Rightarrow> request option" where
  "request_of v =
     (case serde_fields [''id'', ''method'', ''params''] 0 v of
        None \<Rightarrow> None
      | Some f \<Rightarrow>
          (case (req as_u64 (f ''id''), req as_str (f ''method''), f ''params'') of
             (Some i, Some m, Some p) \<Rightarrow> Some \<lparr>rq_id = i, rq_method = m, rq_params = p\<rparr>
           | _ \<Rightarrow> None))"

lemma request_roundtrip [simp]: "request_of (request_json r) = Some r"
  by (simp add: request_of_def request_json_def serde_eval)

text \<open>A request written as an array is accepted as well.\<close>

lemma array_request: "request_of (JArr [JU64 i, JStr m, p]) = Some \<lparr>rq_id = i, rq_method = m, rq_params = p\<rparr>"
  by (simp add: request_of_def serde_eval)

section \<open>Responses\<close>

definition error_json :: "string \<times> string \<Rightarrow> json" where
  "error_json e = JObj [(''code'', JStr (fst e)), (''message'', JStr (snd e))]"

definition error_of :: "json \<Rightarrow> (string \<times> string) option" where
  "error_of v =
     (case serde_fields [''code'', ''message''] 0 v of
        None \<Rightarrow> None
      | Some f \<Rightarrow>
          (case (req as_str (f ''code''), req as_str (f ''message'')) of (Some c, Some m) \<Rightarrow> Some (c, m) | _ \<Rightarrow> None))"

text \<open>\<open>skip_serializing_if\<close>: an absent field is not written.\<close>

definition skip_none :: "string \<Rightarrow> json option \<Rightarrow> (string \<times> json) list" where
  "skip_none k v = (case v of None \<Rightarrow> [] | Some x \<Rightarrow> [(k, x)])"

definition response_json :: "response \<Rightarrow> json" where
  "response_json r =
     JObj ([(''id'', JU64 (rp_id r)), (''ok'', JBool (rp_ok r))] @ skip_none ''result'' (rp_result r) @
           skip_none ''error'' (map_option error_json (rp_error r)))"

definition response_of :: "json \<Rightarrow> response option" where
  "response_of v =
     (case serde_fields [''id'', ''ok'', ''result'', ''error''] 0 v of
        None \<Rightarrow> None
      | Some f \<Rightarrow>
          (case (req as_u64 (f ''id''), req as_bool (f ''ok''), optional Some (f ''result''), optional error_of (f ''error'')) of
             (Some i, Some b, Some r, Some e) \<Rightarrow> Some \<lparr>rp_id = i, rp_ok = b, rp_result = r, rp_error = e\<rparr>
           | _ \<Rightarrow> None))"

lemma error_roundtrip [simp]: "error_of (error_json e) = Some e"
  by (simp add: error_of_def error_json_def serde_eval)

lemma optional_simps [simp]:
  "optional f None = Some None" "optional f (Some JNull) = Some None" "optional f (Some (JStr s)) = map_option Some (f (JStr s))"
  "optional f (Some (JU64 n)) = map_option Some (f (JU64 n))" "optional f (Some (JBool b)) = map_option Some (f (JBool b))"
  "optional f (Some JOtherNum) = map_option Some (f JOtherNum)"
  "optional Some (Some v) = Some (if v = JNull then None else Some v)"
  "optional error_of (Some (error_json e)) = Some (Some e)"
  by (simp_all add: optional_def split: json.split) (cases e, simp add: error_json_def error_of_def serde_eval)

lemma req_some [simp]: "req f (Some v) = f v"
  by (simp add: req_def)

text \<open>A result of \<open>null\<close> is read as no result; every other response is read as it was written.\<close>

lemma response_roundtrip:
  "response_of (response_json r) = Some (r\<lparr>rp_result := (if rp_result r = Some JNull then None else rp_result r)\<rparr>)"
  by (cases "rp_result r"; cases "rp_error r")
    (simp_all add: response_of_def response_json_def serde_fields_def skip_none_def)

section \<open>Events\<close>

definition event_value :: "event \<Rightarrow> json" where
  "event_value e =
     JObj ([(''event'', JStr (e_event e)), (''session_id'', JStr (e_session_id e))] @
           skip_none ''cursor_start'' (map_option (\<lambda>n. JU64 (of_nat n)) (e_cursor_start e)) @
           skip_none ''cursor_end'' (map_option (\<lambda>n. JU64 (of_nat n)) (e_cursor_end e)) @
           skip_none ''is_truncated'' (map_option JBool (e_is_truncated e)) @
           skip_none ''data'' (map_option JStr (e_data e)) @
           skip_none ''exit_code'' (map_option int_json (e_exit_code e)) @
           skip_none ''reason'' (map_option JStr (e_reason e)))"

definition as_cursor :: "json \<Rightarrow> nat option" where
  "as_cursor v = map_option unat (as_u64 v)"

definition event_of :: "int option \<Rightarrow> json \<Rightarrow> event option" where
  "event_of other v =
     (case serde_fields [''event'', ''session_id'', ''cursor_start'', ''cursor_end'', ''is_truncated'', ''data'', ''exit_code'', ''reason''] 0 v of
        None \<Rightarrow> None
      | Some f \<Rightarrow>
          (case (req as_str (f ''event''), req as_str (f ''session_id''), optional as_cursor (f ''cursor_start''),
                 optional as_cursor (f ''cursor_end''), optional as_bool (f ''is_truncated''), optional as_str (f ''data''),
                 optional (as_i32 other) (f ''exit_code''), optional as_str (f ''reason'')) of
             (Some n, Some i, Some a, Some b, Some t, Some d, Some c, Some r) \<Rightarrow>
               Some \<lparr>e_event = n, e_session_id = i, e_cursor_start = a, e_cursor_end = b, e_is_truncated = t,
                     e_data = d, e_exit_code = c, e_reason = r\<rparr>
           | _ \<Rightarrow> None))"

text \<open>What the types of the fields allow: cursors of 64 bits, an exit code of 32.\<close>

definition event_typed :: "int option \<Rightarrow> event \<Rightarrow> bool" where
  "event_typed other e \<longleftrightarrow>
     pred_option (\<lambda>n. n < 2 ^ 64) (e_cursor_start e) \<and> pred_option (\<lambda>n. n < 2 ^ 64) (e_cursor_end e) \<and>
     pred_option (\<lambda>c. c < 2 ^ 31 \<and> (0 \<le> c \<or> other = Some c)) (e_exit_code e)"

lemma as_cursor_of_nat: "n < 2 ^ 64 \<Longrightarrow> as_cursor (JU64 (of_nat n)) = Some n"
  by (simp add: as_cursor_def unat_of_nat)

lemma as_i32_int_json: "c < 2 ^ 31 \<Longrightarrow> 0 \<le> c \<or> other = Some c \<Longrightarrow> as_i32 other (int_json c) = Some c"
  by (auto simp: int_json_def unsigned_of_int take_bit_int_eq_self)

lemma optional_written:
  "pred_option (\<lambda>n. n < 2 ^ 64) x \<Longrightarrow> optional as_cursor (map_option (\<lambda>n. JU64 (of_nat n)) x) = Some x"
  "pred_option (\<lambda>c. c < 2 ^ 31 \<and> (0 \<le> c \<or> other = Some c)) y \<Longrightarrow> optional (as_i32 other) (map_option int_json y) = Some y"
  "optional as_bool (map_option JBool b) = Some b" "optional as_str (map_option JStr s) = Some s"
proof -
  show "optional as_cursor (map_option (\<lambda>n. JU64 (of_nat n)) x) = Some x" if "pred_option (\<lambda>n. n < 2 ^ 64) x"
    using that by (cases x) (simp_all add: as_cursor_of_nat)
  show "optional (as_i32 other) (map_option int_json y) = Some y" if y: "pred_option (\<lambda>c. c < 2 ^ 31 \<and> (0 \<le> c \<or> other = Some c)) y"
  proof (cases y)
    case (Some c)
    then have "as_i32 other (int_json c) = Some c" using y as_i32_int_json by simp
    then show ?thesis using Some by (auto simp: int_json_def)
  qed simp
  show "optional as_bool (map_option JBool b) = Some b" "optional as_str (map_option JStr s) = Some s"
    by (cases b; simp) (cases s; simp)
qed

lemma map_of_skip1 [simp]: "map_of (skip_none k v) j = (if j = k then v else None)"
  by (cases v) (simp_all add: skip_none_def)

lemma event_fields:
  "serde_fields ks d (event_value e) = Some f \<Longrightarrow>
     f ''event'' = Some (JStr (e_event e)) \<and> f ''session_id'' = Some (JStr (e_session_id e)) \<and>
     f ''cursor_start'' = map_option (\<lambda>n. JU64 (of_nat n)) (e_cursor_start e) \<and>
     f ''cursor_end'' = map_option (\<lambda>n. JU64 (of_nat n)) (e_cursor_end e) \<and>
     f ''is_truncated'' = map_option JBool (e_is_truncated e) \<and> f ''data'' = map_option JStr (e_data e) \<and>
     f ''exit_code'' = map_option int_json (e_exit_code e) \<and> f ''reason'' = map_option JStr (e_reason e)"
  by (auto simp: serde_fields_def event_value_def map_add_def split: option.split)

lemma event_roundtrip:
  assumes "event_typed other e"
  shows "event_of other (event_value e) = Some e"
proof -
  obtain f where f: "serde_fields ks 0 (event_value e) = Some f" for ks by (simp add: serde_fields_def event_value_def)
  show ?thesis using assms by (simp add: event_of_def f event_fields [OF f] optional_written event_typed_def)
qed

text \<open>Responses and events are told apart by their fields.\<close>

lemma message_kinds:
  "jget (response_json r) ''id'' = Some (JU64 (rp_id r))" "jget (event_value e) ''id'' = None"
  "jget (event_value e) ''event'' = Some (JStr (e_event e))"
  by (simp_all add: response_json_def event_value_def)

lemma event_value_law: "event_json event_value"
  by (auto simp: event_json_def event_value_def get_str_def split: option.split)


section \<open>Other structures\<close>

definition read_wire_of :: "json \<Rightarrow> read_wire option" where
  "read_wire_of v =
     (case serde_fields [''cursor_start'', ''cursor_end'', ''is_truncated'', ''data''] 0 v of
        None \<Rightarrow> None
      | Some f \<Rightarrow>
          (case (req as_cursor (f ''cursor_start''), req as_cursor (f ''cursor_end''), req as_bool (f ''is_truncated''), req as_str (f ''data'')) of
             (Some a, Some b, Some t, Some d) \<Rightarrow>
               Some \<lparr>rd_cursor_start = a, rd_cursor_end = b, rd_is_truncated = t, rd_data = d\<rparr>
           | _ \<Rightarrow> None))"

definition cli_wire_of :: "json \<Rightarrow> cli_wire option" where
  "cli_wire_of v =
     (case serde_fields [''cursor_start'', ''cursor_end'', ''is_truncated'', ''data''] 1 v of
        None \<Rightarrow> None
      | Some f \<Rightarrow>
          (case (req as_u64 (f ''cursor_start''), req as_u64 (f ''cursor_end''), req as_bool (f ''is_truncated''), optional as_str (f ''data'')) of
             (Some a, Some b, Some t, Some d) \<Rightarrow>
               Some \<lparr>cw_cursor_start = a, cw_cursor_end = b, cw_is_truncated = t, cw_data = d\<rparr>
           | _ \<Rightarrow> None))"

definition hello_info_of :: "json \<Rightarrow> (u32 \<times> string \<times> string) option" where
  "hello_info_of v =
     (case serde_fields [''daemon_protocol_version'', ''daemon_build'', ''daemon_id''] 0 v of
        None \<Rightarrow> None
      | Some f \<Rightarrow>
          (case (req as_u32 (f ''daemon_protocol_version''), req as_str (f ''daemon_build''), req as_str (f ''daemon_id'')) of
             (Some n, Some b, Some i) \<Rightarrow> Some (n, b, i)
           | _ \<Rightarrow> None))"

definition create_result_of :: "json \<Rightarrow> (string \<times> u64) option" where
  "create_result_of v =
     (case serde_fields [''session_id'', ''written''] 0 v of
        None \<Rightarrow> None
      | Some f \<Rightarrow> (case (req as_str (f ''session_id''), req as_u64 (f ''written'')) of (Some i, Some n) \<Rightarrow> Some (i, n) | _ \<Rightarrow> None))"

definition pty_size_of :: "json \<Rightarrow> pty_size option" where
  "pty_size_of v =
     (case serde_fields [''rows'', ''cols''] 0 v of
        None \<Rightarrow> None
      | Some f \<Rightarrow>
          (case (req as_u16 (f ''rows''), req as_u16 (f ''cols'')) of (Some r, Some c) \<Rightarrow> Some \<lparr>rows = r, cols = c\<rparr> | _ \<Rightarrow> None))"

definition cli_info_of :: "json \<Rightarrow> cli_info option" where
  "cli_info_of v =
     (case serde_fields [''id'', ''name'', ''state'', ''created_at'', ''last_activity_at'', ''pty_size'', ''written''] 0 v of
        None \<Rightarrow> None
      | Some f \<Rightarrow>
          (case (req as_str (f ''id''), optional as_str (f ''name''), req as_str (f ''state''), req as_str (f ''created_at''),
                 req as_str (f ''last_activity_at''), req pty_size_of (f ''pty_size''), req as_u64 (f ''written'')) of
             (Some i, Some n, Some s, Some c, Some l, Some p, Some k) \<Rightarrow>
               Some \<lparr>cs_id = i, cs_name = n, cs_state = s, cs_created_at = c, cs_last_activity_at = l, cs_pty_size = p, cs_written = k\<rparr>
           | _ \<Rightarrow> None))"

text \<open>A list is read if each of its elements is.\<close>

fun all_some :: "'a option list \<Rightarrow> 'a list option" where
  "all_some [] = Some []"
| "all_some (x # xs) = (case (x, all_some xs) of (Some a, Some as) \<Rightarrow> Some (a # as) | _ \<Rightarrow> None)"

definition cli_infos_of :: "json \<Rightarrow> cli_info list option" where
  "cli_infos_of v = (case v of JArr xs \<Rightarrow> all_some (map cli_info_of xs) | _ \<Rightarrow> None)"

definition derived_serde :: "int option \<Rightarrow> (bytes \<Rightarrow> json option) \<Rightarrow> serde" where
  "derived_serde other from_slice =
     \<lparr>sd_from_slice = from_slice, sd_response = response_of, sd_event = event_of other, sd_read_result = read_wire_of\<rparr>"

definition derived_cli_serde :: cli_serde where
  "derived_cli_serde =
     \<lparr>rd_response = response_of, rd_hello = hello_info_of, rd_create = create_result_of, rd_read = cli_wire_of, rd_infos = cli_infos_of\<rparr>"

lemma as_u32_ucast [simp]: "as_u32 (JU64 (ucast (v :: u32))) = Some v"
proof -
  have lt: "unat v < 2 ^ 32" using unsigned_less [of v, where 'a = nat] by simp
  then have "take_bit 64 (unat v) = unat v" by (intro take_bit_nat_eq_self) simp
  then have "unat (ucast v :: u64) = unat v" by (simp add: unsigned_ucast_eq)
  then show ?thesis using lt by simp
qed

lemma as_u16_ucast [simp]: "as_u16 (JU64 (ucast (v :: u16))) = Some v"
proof -
  have lt: "unat v < 2 ^ 16" using unsigned_less [of v, where 'a = nat] by simp
  then have "take_bit 64 (unat v) = unat v" by (intro take_bit_nat_eq_self) simp
  then have "unat (ucast v :: u64) = unat v" by (simp add: unsigned_ucast_eq)
  then show ?thesis using lt by simp
qed

text \<open>What the derived readers make of what the daemon writes: the laws the composition of client and daemon rests on.\<close>

lemma derived_serde_agrees: "serde_agrees cod derived_cli_serde response_json"
  by (simp add: serde_agrees_def derived_cli_serde_def response_roundtrip ok_response_def err_response_def hello_info_of_def
      create_result_of_def cli_wire_of_def read_json_def serde_fields_def del: as_u32.simps)

lemma listed_session:
  "cli_info_of (info_json cod s) =
    Some \<lparr>cs_id = ds_id s, cs_name = ds_name s, cs_state = dstate_as_str (ds_state s), cs_created_at = rfc3339 cod (ds_created_at s),
      cs_last_activity_at = rfc3339 cod (ds_last_activity_at s), cs_pty_size = ds_pty_size s,
      cs_written = of_nat (rb_written (ds_buffer s))\<rparr>"
  by (cases "ds_name s")
    (simp_all add: cli_info_of_def info_json_def serde_fields_def pty_size_of_def del: as_u16.simps)

lemma all_some_map: "all_some (map (\<lambda>x. Some (f x)) xs) = Some (map f xs)"
  by (induction xs) simp_all

section \<open>The framing of the copies\<close>

definition PROTO_MAX_MSG_LEN :: u32 where "PROTO_MAX_MSG_LEN = 128 * 1024 * 1024"
definition CLI_MAX_MSG_LEN :: u32 where "CLI_MAX_MSG_LEN = 128 * 1024 * 1024"
definition PROTO_VERSION :: u32 where "PROTO_VERSION = 1"
definition CLI_PROTOCOL_VERSION :: u32 where "CLI_PROTOCOL_VERSION = 1"

definition proto_encode :: "('m \<Rightarrow> bytes) \<Rightarrow> 'm \<Rightarrow> bytes" where
  "proto_encode to_vec msg =
     (let js = to_vec msg; len = (of_nat (length js) :: u32); out = to_be_bytes len in out @ js)"

definition proto_read_msg :: "(bytes \<Rightarrow> json option) \<Rightarrow> bytes \<Rightarrow> io_error + json \<times> bytes" where
  "proto_read_msg from_slice s =
     (case read_exact 4 s of
        Inl e \<Rightarrow> Inl e
      | Inr (len_buf, s) \<Rightarrow>
          let len = from_be_bytes len_buf
          in if len = 0 then Inl InvalidData
             else if len > PROTO_MAX_MSG_LEN then Inl InvalidData
             else (case read_exact (unat len) s of
                     Inl e \<Rightarrow> Inl e
                   | Inr (buf, s) \<Rightarrow> (case from_slice buf of None \<Rightarrow> Inl InvalidData | Some v \<Rightarrow> Inr (v, s))))"

definition cli_encode :: "('m \<Rightarrow> bytes) \<Rightarrow> 'm \<Rightarrow> bytes" where
  "cli_encode to_vec msg =
     (let js = to_vec msg; len = (of_nat (length js) :: u32); out = to_be_bytes len in out @ js)"

definition cli_read_msg :: "(bytes \<Rightarrow> json option) \<Rightarrow> bytes \<Rightarrow> io_error + json \<times> bytes" where
  "cli_read_msg from_slice s =
     (case read_exact 4 s of
        Inl e \<Rightarrow> Inl e
      | Inr (len_buf, s) \<Rightarrow>
          let len = from_be_bytes len_buf
          in if len = 0 then Inl InvalidData
             else if len > CLI_MAX_MSG_LEN then Inl InvalidData
             else (case read_exact (unat len) s of
                     Inl e \<Rightarrow> Inl e
                   | Inr (buf, s) \<Rightarrow> (case from_slice buf of None \<Rightarrow> Inl InvalidData | Some v \<Rightarrow> Inr (v, s))))"

lemma copies_max: "PROTO_MAX_MSG_LEN = MAX_MSG_LEN" "CLI_MAX_MSG_LEN = MAX_MSG_LEN"
  by (simp_all add: PROTO_MAX_MSG_LEN_def CLI_MAX_MSG_LEN_def MAX_MSG_LEN_def)

text \<open>The three copies frame alike and speak one version.\<close>

lemma copies_agree:
  "proto_encode = encode" "cli_encode = encode" "proto_read_msg = read_msg" "cli_read_msg = read_msg"
  "PROTO_VERSION = PROTOCOL_VERSION" "CLI_PROTOCOL_VERSION = PROTOCOL_VERSION"
  unfolding fun_eq_iff proto_encode_def cli_encode_def encode_def proto_read_msg_def cli_read_msg_def read_msg_def Let_def copies_max
  by (simp_all add: PROTO_VERSION_def CLI_PROTOCOL_VERSION_def PROTOCOL_VERSION_def)

section \<open>Messages between client and daemon\<close>

datatype message = MResponse response | MEvent event

fun message_json :: "message \<Rightarrow> json" where
  "message_json (MResponse r) = response_json r"
| "message_json (MEvent e) = event_value e"

fun message_typed :: "int option \<Rightarrow> message \<Rightarrow> bool" where
  "message_typed other (MResponse r) \<longleftrightarrow> rp_result r \<noteq> Some JNull"
| "message_typed other (MEvent e) \<longleftrightarrow> event_typed other e"

text \<open>What a message means to the client.\<close>

definition receive :: "codec \<Rightarrow> client \<Rightarrow> message \<Rightarrow> client" where
  "receive cod c m =
     (let c = c\<lparr>dc_received := dc_received c @ [message_json m]\<rparr>
      in case m of MResponse r \<Rightarrow> deliver r c | MEvent e \<Rightarrow> handle_event cod e c)"

lemma dispatch_receive:
  assumes "message_typed other m"
  shows "dispatch_msg (derived_serde other from_slice) cod (message_json m) c = receive cod c m"
  using assms
  by (cases m) (simp_all add: dispatch_msg_def receive_def derived_serde_def message_kinds response_roundtrip event_roundtrip Let_def)

definition carried :: "(json \<Rightarrow> bytes) \<Rightarrow> (bytes \<Rightarrow> json option) \<Rightarrow> json \<Rightarrow> bool" where
  "carried to_vec from_slice v \<longleftrightarrow> frameable to_vec v \<and> from_slice (to_vec v) = Some v"

text \<open>
  (C33) What one side means is what the other side does.  If serde_json reads back the JSON values that are sent, then of a stream of requests that
  either client writes, cut off inside the next one, the daemon reads exactly the requests; and a stream of responses and events that the daemon
  writes, handed to the server's client in pieces of any size, has on the client the effect of these responses and events, one by one, and leaves the
  bytes of the incomplete message in its buffer.
\<close>

theorem messages_cross:
  assumes "list_all (carried to_vec from_slice) (map request_json (rs @ [r']) @ map message_json (ms @ [m']))"
    and "list_all (message_typed other) ms"
    and "k < length (proto_encode to_vec (request_json r'))" "l < length (encode to_vec (message_json m'))"
    and "dc_reader c = Some []" "ds \<noteq> []"
    and "concat ds = concat (map (encode to_vec \<circ> message_json) ms) @ take l (encode to_vec (message_json m'))"
  shows "list_all (\<lambda>enc. case read_msgs from_slice (length rs + Suc n)
        (concat (map (enc to_vec \<circ> request_json) rs) @ take k (enc to_vec (request_json r'))) of
        (vs, e) \<Rightarrow> map request_of vs = map Some rs \<and> e = Some UnexpectedEof) [proto_encode, cli_encode] \<and>
    foldl (\<lambda>c d. reader_step (derived_serde other from_slice) cod (ChData d) c) c ds =
      (foldl (receive cod) c ms)\<lparr>dc_reader := Some (take l (encode to_vec (message_json m')))\<rparr>"
proof -
  let ?sd = "derived_serde other from_slice" and ?rs = "map request_json rs" and ?ms = "map message_json ms"
  have rs: "\<forall>v \<in> set ?rs. frameable to_vec v \<and> from_slice (to_vec v) = Some (id v)" and r': "frameable to_vec (request_json r')"
    and ms: "\<forall>v \<in> set (?ms @ [message_json m']). frameable to_vec v \<and> sd_from_slice ?sd (to_vec v) = Some (id v)"
    using assms(1) by (auto simp: list_all_iff carried_def derived_serde_def)
  have "read_msg from_slice (take k (encode to_vec (request_json r'))) = Inl UnexpectedEof"
    using read_msg_encode_cut r' assms(3) by (simp add: copies_agree)
  then have "read_msgs from_slice (Suc n) (take k (encode to_vec (request_json r'))) = ([], Some UnexpectedEof)" by simp
  then have reads: "read_msgs from_slice (length rs + Suc n) (concat (map (encode to_vec) ?rs) @ take k (encode to_vec (request_json r'))) =
      (?rs, Some UnexpectedEof)"
    using read_msgs_encode [OF rs, of "Suc n"] by (simp only: length_map) (simp add: map_idI)
  have "foldl (\<lambda>c d. reader_step ?sd cod (ChData d) c) c ds =
      (foldl (\<lambda>c v. dispatch_msg ?sd cod (id v) c) c ?ms)\<lparr>dc_reader := Some (take l (encode to_vec (message_json m')))\<rparr>"
    by (rule channel_delivers_messages [OF ms assms(4,5,6)]) (use assms(7) in simp)
  moreover have "foldl (\<lambda>c v. dispatch_msg ?sd cod (id v) c) c ?ms = foldl (receive cod) c ms" for c
    using assms(2) by (induction ms arbitrary: c) (simp_all add: dispatch_receive)
  ultimately show ?thesis using reads by (simp add: copies_agree o_def)
qed

section \<open>A witness\<close>

definition wire_request :: request where
  "wire_request = \<lparr>rq_id = 1, rq_method = ''session.list'', rq_params = JObj []\<rparr>"

definition wire_response :: response where
  "wire_response = ok_response 1 (JObj [(''sessions'', JArr [])])"

definition demo_to_vec :: "json \<Rightarrow> bytes" where
  "demo_to_vec v = (if v = request_json wire_request then [0x71] else [0x72])"

definition demo_from_slice :: "bytes \<Rightarrow> json option" where
  "demo_from_slice b = (if b = [0x71] then Some (request_json wire_request) else if b = [0x72] then Some (response_json wire_response) else None)"

theorem messages_cross_witness:
  "foldl (\<lambda>c d. reader_step (derived_serde None demo_from_slice) demo_codec (ChData d) c) client_new [[0, 0, 0], [1, 0x72, 0, 0]] =
     (receive demo_codec client_new (MResponse wire_response))\<lparr>dc_reader := Some [0, 0]\<rparr>"
proof -
  have differ: "response_json wire_response \<noteq> request_json wire_request"
    by (simp add: response_json_def request_json_def wire_response_def ok_response_def)
  have enc: "encode demo_to_vec (response_json wire_response) = [0, 0, 0, 1, 0x72]"
    "proto_encode demo_to_vec (request_json wire_request) = [0, 0, 0, 1, 0x71]"
    using differ by (simp_all add: copies_agree encode_def to_be_bytes_def demo_to_vec_def)
  have carried: "list_all (carried demo_to_vec demo_from_slice)
      (map request_json ([wire_request] @ [wire_request]) @ map message_json ([MResponse wire_response] @ [MResponse wire_response]))"
    using differ by (simp add: carried_def frameable_def demo_to_vec_def demo_from_slice_def MAX_MSG_LEN_def)
  have "list_all (message_typed None) [MResponse wire_response]" by (simp add: wire_response_def ok_response_def)
  from messages_cross [OF carried this, of 3 2 client_new "[[0, 0, 0], [1, 0x72, 0, 0]]" 0 demo_codec] show ?thesis
    by (simp add: enc client_new_def)
qed

end
