(* ===== verification/Gui.thy ===== *)
theory Gui
  imports Mcp_Server Agentd
begin

text \<open>
  The backend of the desktop program (gui/src-tauri/src/main.rs): the table of the tasks that read the terminals, in steps between
  which other threads run, and the commands the frontend calls.  The frontend, Tauri and tokio's scheduler are the environment.
\<close>

section \<open>The tasks that read\<close>

text \<open>
  A task waits for its next read, holds data it is about to emit, is about to take itself out of the table, or is gone.  It runs while tokio
  polls it; an abort takes effect once it no longer does.
\<close>

datatype task_pc = AtRead | Emitting bytes | AtEnd | Gone

record gtask =
  gt_sid :: string
  gt_gen :: nat
  gt_pc :: task_pc
  gt_running :: bool
  gt_aborted :: bool

text \<open>What a read of the session gives, and what the frontend gets.\<close>

datatype gread = ReadData bytes | ReadEnd

datatype gevent = PtyData string bytes | PtyEof string

text \<open>
  The main thread runs \<open>start_read_loop\<close>: it took the old entry out, the old task is aborted, the new task is spawned.
\<close>

datatype main_pc = MIdle | MTook string "nat option" | MReady string | MSpawned string nat nat

text \<open>
  \<open>gs_aborting\<close>: the tasks other threads took out of the table and have not aborted yet.  \<open>gs_queue\<close> is what reads of a session will
  give; \<open>gs_read\<close> records what they gave, no step reads it.
\<close>

record gui_state =
  gs_table :: "string \<rightharpoonup> nat \<times> nat"
  gs_next_gen :: nat
  gs_tasks :: "gtask list"
  gs_main :: main_pc
  gs_aborting :: "nat list"
  gs_queue :: "string \<Rightarrow> gread list"
  gs_read :: "string \<Rightarrow> bytes"
  gs_events :: "gevent list"
  gs_app_open :: bool

definition gui_new :: gui_state where
  "gui_new = \<lparr>gs_table = (\<lambda>_. None), gs_next_gen = 0, gs_tasks = [], gs_main = MIdle, gs_aborting = [],
     gs_queue = (\<lambda>_. []), gs_read = (\<lambda>_. []), gs_events = [], gs_app_open = True\<rparr>"

definition upd_task :: "nat \<Rightarrow> (gtask \<Rightarrow> gtask) \<Rightarrow> gui_state \<Rightarrow> gui_state" where
  "upd_task t f g = g\<lparr>gs_tasks := (gs_tasks g)[t := f (gs_tasks g ! t)]\<rparr>"

definition abort_task :: "nat \<Rightarrow> gui_state \<Rightarrow> gui_state" where
  "abort_task t g = upd_task t (\<lambda>k. k\<lparr>gt_aborted := True\<rparr>) g"

datatype glabel =
    Arrive string gread
  | CloseApp
  | StartTake string
  | StartAbort
  | StartSpawn
  | StartInsert
  | AbortTake string
  | AbortTaken
  | Poll nat
  | Pend nat
  | Read nat
  | Emit nat
  | RemoveIf nat

text \<open>The steps of \<open>spawn_read_loop\<close> on the main thread.\<close>

definition start_take :: "string \<Rightarrow> gui_state \<Rightarrow> gui_state" where
  "start_take sid g = g\<lparr>gs_table := (gs_table g)(sid := None), gs_main := MTook sid (map_option fst (gs_table g sid))\<rparr>"

definition start_abort :: "gui_state \<Rightarrow> gui_state" where
  "start_abort g =
     (case gs_main g of
        MTook sid (Some t) \<Rightarrow> (abort_task t g)\<lparr>gs_main := MReady sid\<rparr>
      | MTook sid None \<Rightarrow> g\<lparr>gs_main := MReady sid\<rparr>
      | _ \<Rightarrow> g)"

definition start_spawn :: "gui_state \<Rightarrow> gui_state" where
  "start_spawn g =
     (case gs_main g of
        MReady sid \<Rightarrow>
          (let gen = gs_next_gen g
           in g\<lparr>gs_next_gen := gen + 1,
                gs_tasks := gs_tasks g @ [\<lparr>gt_sid = sid, gt_gen = gen, gt_pc = AtRead, gt_running = False, gt_aborted = False\<rparr>],
                gs_main := MSpawned sid (length (gs_tasks g)) gen\<rparr>)
      | _ \<Rightarrow> g)"

definition start_insert :: "gui_state \<Rightarrow> gui_state" where
  "start_insert g =
     (case gs_main g of
        MSpawned sid t gen \<Rightarrow> g\<lparr>gs_table := (gs_table g)(sid \<mapsto> (t, gen)), gs_main := MIdle\<rparr>
      | _ \<Rightarrow> g)"

text \<open>\<open>abort_read_task\<close>, called by \<open>detach_session\<close> and \<open>close_session\<close> on other threads, in its two steps.\<close>

definition abort_take :: "string \<Rightarrow> gui_state \<Rightarrow> gui_state" where
  "abort_take sid g =
     (case gs_table g sid of
        None \<Rightarrow> g
      | Some (t, _) \<Rightarrow> g\<lparr>gs_table := (gs_table g)(sid := None), gs_aborting := gs_aborting g @ [t]\<rparr>)"

definition abort_taken :: "gui_state \<Rightarrow> gui_state" where
  "abort_taken g = (case gs_aborting g of [] \<Rightarrow> g | t # ts \<Rightarrow> (abort_task t g)\<lparr>gs_aborting := ts\<rparr>)"

text \<open>The steps of a task.\<close>

definition task_read :: "nat \<Rightarrow> gui_state \<Rightarrow> gui_state" where
  "task_read t g =
     (let sid = gt_sid (gs_tasks g ! t)
      in case gs_queue g sid of
           [] \<Rightarrow> g
         | ReadData d # q \<Rightarrow>
             upd_task t (\<lambda>k. k\<lparr>gt_pc := Emitting d\<rparr>)
               (g\<lparr>gs_queue := (gs_queue g)(sid := q), gs_read := (gs_read g)(sid := gs_read g sid @ d)\<rparr>)
         | ReadEnd # q \<Rightarrow>
             upd_task t (\<lambda>k. k\<lparr>gt_pc := AtEnd\<rparr>)
               (g\<lparr>gs_queue := (gs_queue g)(sid := q),
                  gs_events := gs_events g @ (if gs_app_open g then [PtyEof sid] else [])\<rparr>))"

definition task_emit :: "nat \<Rightarrow> gui_state \<Rightarrow> gui_state" where
  "task_emit t g =
     (case gt_pc (gs_tasks g ! t) of
        Emitting d \<Rightarrow>
          if gs_app_open g
          then upd_task t (\<lambda>k. k\<lparr>gt_pc := AtRead\<rparr>) (g\<lparr>gs_events := gs_events g @ [PtyData (gt_sid (gs_tasks g ! t)) d]\<rparr>)
          else upd_task t (\<lambda>k. k\<lparr>gt_pc := AtEnd\<rparr>) g
      | _ \<Rightarrow> g)"

definition task_remove_if :: "nat \<Rightarrow> gui_state \<Rightarrow> gui_state" where
  "task_remove_if t g =
     (let k = gs_tasks g ! t;
          g = (case gs_table g (gt_sid k) of
                 Some (_, gen) \<Rightarrow> if gen = gt_gen k then g\<lparr>gs_table := (gs_table g)(gt_sid k := None)\<rparr> else g
               | None \<Rightarrow> g)
      in upd_task t (\<lambda>k. k\<lparr>gt_pc := Gone\<rparr>) g)"

definition runs :: "nat \<Rightarrow> gui_state \<Rightarrow> bool" where
  "runs t g \<longleftrightarrow> t < length (gs_tasks g) \<and> gt_running (gs_tasks g ! t)"

fun gui_exec :: "glabel \<Rightarrow> gui_state \<Rightarrow> gui_state option" where
  "gui_exec (Arrive sid x) g = Some (g\<lparr>gs_queue := (gs_queue g)(sid := gs_queue g sid @ [x])\<rparr>)"
| "gui_exec CloseApp g = Some (g\<lparr>gs_app_open := False\<rparr>)"
| "gui_exec (StartTake sid) g = (if gs_main g = MIdle then Some (start_take sid g) else None)"
| "gui_exec StartAbort g = (case gs_main g of MTook _ _ \<Rightarrow> Some (start_abort g) | _ \<Rightarrow> None)"
| "gui_exec StartSpawn g = (case gs_main g of MReady _ \<Rightarrow> Some (start_spawn g) | _ \<Rightarrow> None)"
| "gui_exec StartInsert g = (case gs_main g of MSpawned _ _ _ \<Rightarrow> Some (start_insert g) | _ \<Rightarrow> None)"
| "gui_exec (AbortTake sid) g = Some (abort_take sid g)"
| "gui_exec AbortTaken g = (if gs_aborting g \<noteq> [] then Some (abort_taken g) else None)"
| "gui_exec (Poll t) g =
     (if t < length (gs_tasks g) \<and> gt_pc (gs_tasks g ! t) = AtRead \<and> \<not> gt_aborted (gs_tasks g ! t)
      then Some (upd_task t (\<lambda>k. k\<lparr>gt_running := True\<rparr>) g) else None)"
| "gui_exec (Pend t) g =
     (if t < length (gs_tasks g) \<and> gt_pc (gs_tasks g ! t) = AtRead
      then Some (upd_task t (\<lambda>k. k\<lparr>gt_running := False, gt_pc := (if gt_aborted k then Gone else AtRead)\<rparr>) g) else None)"
| "gui_exec (Read t) g =
     (if runs t g \<and> gt_pc (gs_tasks g ! t) = AtRead \<and> gs_queue g (gt_sid (gs_tasks g ! t)) \<noteq> []
      then Some (task_read t g) else None)"
| "gui_exec (Emit t) g =
     (if runs t g \<and> (case gt_pc (gs_tasks g ! t) of Emitting _ \<Rightarrow> True | _ \<Rightarrow> False) then Some (task_emit t g) else None)"
| "gui_exec (RemoveIf t) g =
     (if runs t g \<and> gt_pc (gs_tasks g ! t) = AtEnd then Some (task_remove_if t g) else None)"

fun gui_execs :: "glabel list \<Rightarrow> gui_state \<Rightarrow> gui_state option" where
  "gui_execs [] g = Some g"
| "gui_execs (l # ls) g = (case gui_exec l g of None \<Rightarrow> None | Some g' \<Rightarrow> gui_execs ls g')"

section \<open>The commands\<close>

text \<open>An error is its text.\<close>

definition gui_result :: "'a result \<Rightarrow> string + 'a" where
  "gui_result r = (case r of Inl e \<Rightarrow> Inl (display_error e) | Inr x \<Rightarrow> Inr x)"

definition abort_read_task_of :: "string \<Rightarrow> gui_state \<Rightarrow> gui_state" where
  "abort_read_task_of sid g = (case gs_table g sid of None \<Rightarrow> g | Some (t, _) \<Rightarrow> abort_task t (g\<lparr>gs_table := (gs_table g)(sid := None)\<rparr>))"

definition gui_list_hosts :: "tool_world \<Rightarrow> (string \<times> string) list" where
  "gui_list_hosts w = map (\<lambda>e. (he_alias e, case he_hostname e of Some h \<Rightarrow> h | None \<Rightarrow> [])) (list_hosts (tw_ssh_config w))"

definition gui_list_remote_sessions :: "tool_world \<Rightarrow> string \<Rightarrow> string + string list" where
  "gui_list_remote_sessions w host_alias = gui_result (smgr_list_remote_sessions w host_alias)"

text \<open>A session that was opened is made raw at once.\<close>

definition gui_made_raw :: "smgr \<times> string result \<Rightarrow> smgr \<times> (string + string)" where
  "gui_made_raw r =
     (case snd r of
        Inl e \<Rightarrow> (fst r, gui_result (Inl e))
      | Inr sid \<Rightarrow> (case prepare_for_raw_mode (fst r) sid of (sm, u) \<Rightarrow> (sm, gui_result (map_sum id (\<lambda>_. sid) u))))"

definition gui_open_session :: "tool_world \<Rightarrow> smgr \<Rightarrow> string \<Rightarrow> u16 \<Rightarrow> u16 \<Rightarrow> smgr \<times> (string + string)" where
  "gui_open_session w sm host_alias c r =
     gui_made_raw (case open_session (tw_open w) sm host_alias (Some \<lparr>rows = r, cols = c\<rparr>) (Some True) (Some ''gui'') of
                     (sm', res, _) \<Rightarrow> (sm', res))"

definition gui_attach_session :: "tool_world \<Rightarrow> smgr \<Rightarrow> string \<Rightarrow> string \<Rightarrow> smgr \<times> (string + string)" where
  "gui_attach_session w sm host_alias remote_session_id =
     gui_made_raw (Session_Manager.attach_remote_session (tw_open w) (tw_persistent w) (attached_handle w host_alias remote_session_id) sm host_alias)"

definition gui_start_read_loop :: "string \<Rightarrow> gui_state \<Rightarrow> gui_state" where
  "gui_start_read_loop sid g = start_insert (start_spawn (start_abort (start_take sid g)))"

definition gui_detach_session :: "tool_world \<Rightarrow> gui_state \<times> smgr \<Rightarrow> string \<Rightarrow> (gui_state \<times> smgr) \<times> (string + unit)" where
  "gui_detach_session w s sid =
     (let g = abort_read_task_of sid (fst s); (sm, r) = detach_session (tw_io w) (snd s) sid in ((g, sm), gui_result r))"

definition gui_close_session :: "tool_world \<Rightarrow> gui_state \<times> smgr \<Rightarrow> string \<Rightarrow> (gui_state \<times> smgr) \<times> (string + unit)" where
  "gui_close_session w s sid =
     (let g = abort_read_task_of sid (fst s); (sm, r) = close_session (now_millis w) (tw_io w) (snd s) sid in ((g, sm), gui_result r))"

definition gui_write_raw :: "codec \<Rightarrow> tool_world \<Rightarrow> smgr \<Rightarrow> string \<Rightarrow> string \<Rightarrow> string + unit" where
  "gui_write_raw cod w sm sid data =
     (case b64_decode cod data of Inl e \<Rightarrow> Inl e | Inr bytes \<Rightarrow> gui_result (write_raw (tw_io w) sm sid))"

definition gui_resize :: "tool_world \<Rightarrow> smgr \<Rightarrow> string \<Rightarrow> u16 \<Rightarrow> u16 \<Rightarrow> smgr \<times> (string + unit)" where
  "gui_resize w sm sid c r = (let (sm', u) = smgr_resize (tw_io w) sm sid c r in (sm', gui_result u))"

definition gui_send_control :: "tool_world \<Rightarrow> smgr \<Rightarrow> string \<Rightarrow> string \<Rightarrow> smgr \<times> (string + unit)" where
  "gui_send_control w sm sid key =
     (let send = (\<lambda>k. let (sm', u) = smgr_send_control (now_secs w) (now_millis w) (tw_io w) sm sid k in (sm', gui_result u))
      in if key = ''ctrl_c'' then send CtrlC
         else if key = ''ctrl_d'' then send CtrlD
         else if key = ''ctrl_z'' then send CtrlZ
         else (sm, Inl (''unknown control key: '' @ key)))"

section \<open>One reader for each session\<close>

text \<open>A task that reads; one that is aborted, or that a thread is about to abort.\<close>

definition reading :: "gtask \<Rightarrow> bool" where
  "reading k \<longleftrightarrow> (case gt_pc k of AtRead \<Rightarrow> True | Emitting _ \<Rightarrow> True | _ \<Rightarrow> False)"

definition doomed :: "gui_state \<Rightarrow> nat \<Rightarrow> bool" where
  "doomed g t \<longleftrightarrow> gt_aborted (gs_tasks g ! t) \<or> t \<in> set (gs_aborting g) \<or> (\<exists>sid. gs_main g = MTook sid (Some t))"

definition held_by_main :: "gui_state \<Rightarrow> string \<Rightarrow> bool" where
  "held_by_main g sid \<longleftrightarrow> (case gs_main g of MIdle \<Rightarrow> False | MTook k _ \<Rightarrow> k = sid | MReady k \<Rightarrow> k = sid | MSpawned k _ _ \<Rightarrow> k = sid)"

definition gui_inv :: "gui_state \<Rightarrow> bool" where
  "gui_inv g \<longleftrightarrow>
     gs_next_gen g = length (gs_tasks g) \<and>
     (\<forall>t < length (gs_tasks g). gt_gen (gs_tasks g ! t) = t) \<and>
     (\<forall>t < length (gs_tasks g). reading (gs_tasks g ! t) \<longrightarrow> \<not> doomed g t \<longrightarrow>
        gs_table g (gt_sid (gs_tasks g ! t)) = Some (t, t) \<or> gs_main g = MSpawned (gt_sid (gs_tasks g ! t)) t t) \<and>
     (\<forall>sid. held_by_main g sid \<longrightarrow> gs_table g sid = None) \<and>
     (\<forall>sid t n. gs_table g sid = Some (t, n) \<longrightarrow> t < length (gs_tasks g) \<and> n = t \<and> gt_sid (gs_tasks g ! t) = sid) \<and>
     (\<forall>sid t n. gs_main g = MSpawned sid t n \<longrightarrow> t < length (gs_tasks g) \<and> n = t \<and> gt_sid (gs_tasks g ! t) = sid) \<and>
     (\<forall>sid t. gs_main g = MTook sid (Some t) \<longrightarrow> t < length (gs_tasks g)) \<and>
     (\<forall>t \<in> set (gs_aborting g). t < length (gs_tasks g))"

lemma gui_inv_new: "gui_inv gui_new"
  by (simp add: gui_inv_def gui_new_def held_by_main_def)

lemma upd_task_simps [simp]:
  "length (gs_tasks (upd_task t f g)) = length (gs_tasks g)" "gs_table (upd_task t f g) = gs_table g"
  "gs_main (upd_task t f g) = gs_main g" "gs_aborting (upd_task t f g) = gs_aborting g" "gs_next_gen (upd_task t f g) = gs_next_gen g"
  "gs_queue (upd_task t f g) = gs_queue g" "gs_read (upd_task t f g) = gs_read g" "gs_events (upd_task t f g) = gs_events g"
  "gs_app_open (upd_task t f g) = gs_app_open g"
  "t < length (gs_tasks g) \<Longrightarrow> gs_tasks (upd_task t f g) ! k = (if k = t then f (gs_tasks g ! t) else gs_tasks g ! k)"
  by (auto simp: upd_task_def nth_list_update)

text \<open>A step of a task keeps its session, its generation and whether it is aborted.\<close>

lemma gui_inv_upd:
  assumes "gui_inv g" "t < length (gs_tasks g)"
    and "gt_sid (f (gs_tasks g ! t)) = gt_sid (gs_tasks g ! t)" "gt_gen (f (gs_tasks g ! t)) = gt_gen (gs_tasks g ! t)"
    and "gt_aborted (gs_tasks g ! t) \<longrightarrow> gt_aborted (f (gs_tasks g ! t))"
    and "reading (f (gs_tasks g ! t)) \<longrightarrow> reading (gs_tasks g ! t)"
  shows "gui_inv (upd_task t f g)"
  using assms unfolding gui_inv_def by (auto simp: doomed_def held_by_main_def split: if_splits)

lemma gui_inv_env [simp]:
  "gui_inv (g\<lparr>gs_queue := q\<rparr>) = gui_inv g" "gui_inv (g\<lparr>gs_read := h\<rparr>) = gui_inv g"
  "gui_inv (g\<lparr>gs_events := es\<rparr>) = gui_inv g" "gui_inv (g\<lparr>gs_app_open := b\<rparr>) = gui_inv g"
  by (simp_all add: gui_inv_def doomed_def held_by_main_def)

lemma gui_invI:
  assumes "gs_next_gen g = length (gs_tasks g)" "\<And>t. t < length (gs_tasks g) \<Longrightarrow> gt_gen (gs_tasks g ! t) = t"
    and "\<And>t. t < length (gs_tasks g) \<Longrightarrow> reading (gs_tasks g ! t) \<Longrightarrow> \<not> doomed g t \<Longrightarrow>
      gs_table g (gt_sid (gs_tasks g ! t)) = Some (t, t) \<or> gs_main g = MSpawned (gt_sid (gs_tasks g ! t)) t t"
    and "\<And>sid. held_by_main g sid \<Longrightarrow> gs_table g sid = None"
    and "\<And>sid t n. gs_table g sid = Some (t, n) \<Longrightarrow> t < length (gs_tasks g) \<and> n = t \<and> gt_sid (gs_tasks g ! t) = sid"
    and "\<And>sid t n. gs_main g = MSpawned sid t n \<Longrightarrow> t < length (gs_tasks g) \<and> n = t \<and> gt_sid (gs_tasks g ! t) = sid"
    and "\<And>sid t. gs_main g = MTook sid (Some t) \<Longrightarrow> t < length (gs_tasks g)"
    and "\<And>t. t \<in> set (gs_aborting g) \<Longrightarrow> t < length (gs_tasks g)"
  shows "gui_inv g"
  using assms unfolding gui_inv_def by blast

lemma gui_invD:
  assumes "gui_inv g"
  shows "gs_next_gen g = length (gs_tasks g)" "t < length (gs_tasks g) \<Longrightarrow> gt_gen (gs_tasks g ! t) = t"
    and "t < length (gs_tasks g) \<Longrightarrow> reading (gs_tasks g ! t) \<Longrightarrow> \<not> doomed g t \<Longrightarrow>
      gs_table g (gt_sid (gs_tasks g ! t)) = Some (t, t) \<or> gs_main g = MSpawned (gt_sid (gs_tasks g ! t)) t t"
    and "held_by_main g sid \<Longrightarrow> gs_table g sid = None"
    and "gs_table g sid = Some (t, n) \<Longrightarrow> t < length (gs_tasks g) \<and> n = t \<and> gt_sid (gs_tasks g ! t) = sid"
    and "gs_main g = MSpawned sid t n \<Longrightarrow> t < length (gs_tasks g) \<and> n = t \<and> gt_sid (gs_tasks g ! t) = sid"
    and "gs_main g = MTook sid (Some t) \<Longrightarrow> t < length (gs_tasks g)"
    and "t \<in> set (gs_aborting g) \<Longrightarrow> t < length (gs_tasks g)"
  using assms unfolding gui_inv_def by blast+

lemma held_simps [simp]:
  "gs_main g = MIdle \<Longrightarrow> \<not> held_by_main g sid" "gs_main g = MTook k z \<Longrightarrow> held_by_main g sid \<longleftrightarrow> k = sid"
  "gs_main g = MReady k \<Longrightarrow> held_by_main g sid \<longleftrightarrow> k = sid" "gs_main g = MSpawned k t n \<Longrightarrow> held_by_main g sid \<longleftrightarrow> k = sid"
  by (simp_all add: held_by_main_def)

lemma inv_start_take:
  assumes "gui_inv g" "gs_main g = MIdle"
  shows "gui_inv (start_take sid g)"
proof (rule gui_invI)
  fix t assume t: "t < length (gs_tasks (start_take sid g))" "reading (gs_tasks (start_take sid g) ! t)" "\<not> doomed (start_take sid g) t"
  then have "gs_table g (gt_sid (gs_tasks g ! t)) = Some (t, t)"
    using gui_invD(3) [OF assms(1), of t] assms(2) by (simp add: start_take_def doomed_def)
  then show "gs_table (start_take sid g) (gt_sid (gs_tasks (start_take sid g) ! t)) = Some (t, t) \<or>
      gs_main (start_take sid g) = MSpawned (gt_sid (gs_tasks (start_take sid g) ! t)) t t"
    using t by (auto simp: start_take_def doomed_def)
qed (use gui_invD [OF assms(1)] assms(2) in \<open>auto simp: start_take_def held_by_main_def split: if_splits\<close>)

lemma inv_start_abort:
  assumes "gui_inv g" "gs_main g = MTook sid z"
  shows "gui_inv (start_abort g)"
proof (rule gui_invI)
  fix t assume t: "t < length (gs_tasks (start_abort g))" "reading (gs_tasks (start_abort g) ! t)" "\<not> doomed (start_abort g) t"
  then have "t < length (gs_tasks g)" "reading (gs_tasks g ! t)" "\<not> doomed g t" and sid: "gt_sid (gs_tasks (start_abort g) ! t) = gt_sid (gs_tasks g ! t)"
    using assms gui_invD(7) [OF assms(1), of sid]
    by (auto simp: start_abort_def abort_task_def doomed_def reading_def split: option.splits if_splits)
  then show "gs_table (start_abort g) (gt_sid (gs_tasks (start_abort g) ! t)) = Some (t, t) \<or>
      gs_main (start_abort g) = MSpawned (gt_sid (gs_tasks (start_abort g) ! t)) t t"
    using gui_invD(3) [OF assms(1), of t] assms(2) by (auto simp: start_abort_def abort_task_def split: option.split)
qed (use gui_invD [OF assms(1)] assms(2) in \<open>auto simp: start_abort_def abort_task_def held_by_main_def split: option.splits if_splits\<close>)

lemma inv_start_spawn:
  assumes "gui_inv g" "gs_main g = MReady sid"
  shows "gui_inv (start_spawn g)"
proof (rule gui_invI)
  fix t assume t: "t < length (gs_tasks (start_spawn g))" "reading (gs_tasks (start_spawn g) ! t)" "\<not> doomed (start_spawn g) t"
  show "gs_table (start_spawn g) (gt_sid (gs_tasks (start_spawn g) ! t)) = Some (t, t) \<or>
      gs_main (start_spawn g) = MSpawned (gt_sid (gs_tasks (start_spawn g) ! t)) t t"
  proof (cases "t = length (gs_tasks g)")
    case True
    then show ?thesis using assms(2) gui_invD(1) [OF assms(1)] by (simp add: start_spawn_def Let_def)
  next
    case False
    then have "t < length (gs_tasks g)" "reading (gs_tasks g ! t)" "\<not> doomed g t" "gs_tasks (start_spawn g) ! t = gs_tasks g ! t"
      using t assms(2) by (auto simp: start_spawn_def doomed_def nth_append Let_def split: if_splits)
    then show ?thesis using gui_invD(3) [OF assms(1), of t] assms(2) by (auto simp: start_spawn_def Let_def)
  qed
qed (use gui_invD [OF assms(1)] assms(2) in
    \<open>auto simp: start_spawn_def held_by_main_def nth_append less_Suc_eq Let_def split: if_splits\<close>)

lemma inv_start_insert:
  assumes "gui_inv g" "gs_main g = MSpawned sid u n"
  shows "gui_inv (start_insert g)"
proof (rule gui_invI)
  fix t assume t: "t < length (gs_tasks (start_insert g))" "reading (gs_tasks (start_insert g) ! t)" "\<not> doomed (start_insert g) t"
  then have "t < length (gs_tasks g)" "reading (gs_tasks g ! t)" "\<not> doomed g t"
    using assms by (auto simp: start_insert_def doomed_def)
  then show "gs_table (start_insert g) (gt_sid (gs_tasks (start_insert g) ! t)) = Some (t, t) \<or>
      gs_main (start_insert g) = MSpawned (gt_sid (gs_tasks (start_insert g) ! t)) t t"
    using gui_invD(3) [OF assms(1), of t] gui_invD(4) [OF assms(1), of sid] assms(2)
    by (auto simp: start_insert_def)
qed (use gui_invD [OF assms(1)] assms(2) in \<open>auto simp: start_insert_def held_by_main_def split: if_splits\<close>)

lemma inv_abort_take:
  assumes "gui_inv g"
  shows "gui_inv (abort_take sid g)"
proof (cases "gs_table g sid")
  case (Some p)
  then obtain u n where u: "gs_table g sid = Some (u, n)" by (cases p) simp
  show ?thesis
  proof (rule gui_invI)
    fix t assume t: "t < length (gs_tasks (abort_take sid g))" "reading (gs_tasks (abort_take sid g) ! t)" "\<not> doomed (abort_take sid g) t"
    then have "t < length (gs_tasks g)" "reading (gs_tasks g ! t)" "\<not> doomed g t" "t \<noteq> u"
      using u by (auto simp: abort_take_def doomed_def)
    then show "gs_table (abort_take sid g) (gt_sid (gs_tasks (abort_take sid g) ! t)) = Some (t, t) \<or>
        gs_main (abort_take sid g) = MSpawned (gt_sid (gs_tasks (abort_take sid g) ! t)) t t"
      using gui_invD(3) [OF assms, of t] u by (auto simp: abort_take_def)
  qed (use gui_invD [OF assms] u in \<open>auto simp: abort_take_def held_by_main_def split: if_splits\<close>)
qed (use assms in \<open>simp add: abort_take_def\<close>)

lemma inv_abort_taken:
  assumes "gui_inv g"
  shows "gui_inv (abort_taken g)"
proof (cases "gs_aborting g")
  case (Cons u us)
  then have u: "u < length (gs_tasks g)" using gui_invD(8) [OF assms] by simp
  show ?thesis
  proof (rule gui_invI)
    fix t assume t: "t < length (gs_tasks (abort_taken g))" "reading (gs_tasks (abort_taken g) ! t)" "\<not> doomed (abort_taken g) t"
    then have "t < length (gs_tasks g)" "reading (gs_tasks g ! t)" "\<not> doomed g t" "t \<noteq> u"
      using u Cons by (auto simp: abort_taken_def abort_task_def doomed_def reading_def split: if_splits)
    then show "gs_table (abort_taken g) (gt_sid (gs_tasks (abort_taken g) ! t)) = Some (t, t) \<or>
        gs_main (abort_taken g) = MSpawned (gt_sid (gs_tasks (abort_taken g) ! t)) t t"
      using gui_invD(3) [OF assms, of t] u Cons by (auto simp: abort_taken_def abort_task_def)
  qed (use gui_invD [OF assms] u Cons in \<open>auto simp: abort_taken_def abort_task_def held_by_main_def split: if_splits\<close>)
qed (use assms in \<open>simp add: abort_taken_def\<close>)

lemma inv_remove_if:
  assumes "gui_inv g" "u < length (gs_tasks g)" "gt_pc (gs_tasks g ! u) = AtEnd"
  shows "gui_inv (task_remove_if u g)"
proof -
  let ?sid = "gt_sid (gs_tasks g ! u)"
  have g: "gt_gen (gs_tasks g ! u) = u" using gui_invD(2) [OF assms(1,2)] .
  define g1 where "g1 = (if gs_table g ?sid = Some (u, u) then g\<lparr>gs_table := (gs_table g)(?sid := None)\<rparr> else g)"
  have "task_remove_if u g = upd_task u (\<lambda>k. k\<lparr>gt_pc := Gone\<rparr>) g1"
  proof (cases "gs_table g ?sid")
    case (Some p)
    then obtain t n where "gs_table g ?sid = Some (t, n)" by (cases p) simp
    then show ?thesis using gui_invD(5) [OF assms(1), of ?sid t n] g by (auto simp: task_remove_if_def g1_def Let_def)
  qed (simp add: task_remove_if_def g1_def Let_def)
  moreover have "gui_inv g1"
  proof (cases "gs_table g ?sid = Some (u, u)")
    case True
    show ?thesis unfolding g1_def if_P [OF True]
    proof (rule gui_invI, goal_cases)
      case (3 t)
      then have "t \<noteq> u" using assms(3) by (auto simp: reading_def)
      then show ?case using gui_invD(3) [OF assms(1), of t] 3 True by (auto simp: doomed_def)
    qed (use gui_invD [OF assms(1)] in \<open>auto simp: held_by_main_def split: if_splits\<close>)
  qed (use assms in \<open>simp add: g1_def\<close>)
  moreover have "gs_tasks g1 = gs_tasks g" by (simp add: g1_def)
  ultimately show ?thesis using gui_inv_upd [of g1 u "\<lambda>k. k\<lparr>gt_pc := Gone\<rparr>"] assms(2) by (simp add: reading_def)
qed

lemma inv_task_read:
  assumes "gui_inv g" "t < length (gs_tasks g)" "gt_pc (gs_tasks g ! t) = AtRead"
  shows "gui_inv (task_read t g)"
  using assms by (auto simp: task_read_def Let_def reading_def intro!: gui_inv_upd split: list.split gread.split)

lemma inv_task_emit:
  assumes "gui_inv g" "t < length (gs_tasks g)"
  shows "gui_inv (task_emit t g)"
  using assms by (auto simp: task_emit_def reading_def intro!: gui_inv_upd split: task_pc.split)

lemma inv_exec: "gui_exec l g = Some g' \<Longrightarrow> gui_inv g \<Longrightarrow> gui_inv g'"
  by (cases l)
    (auto simp: runs_def reading_def intro: inv_start_take inv_start_abort inv_start_spawn inv_start_insert inv_abort_take inv_abort_taken
      inv_remove_if inv_task_read inv_task_emit intro!: gui_inv_upd split: if_splits main_pc.splits)

lemma gui_execs_induct [consumes 1, case_names start step]:
  assumes "gui_execs ls g = Some g'" "P g"
    and "\<And>l g g'. P g \<Longrightarrow> gui_exec l g = Some g' \<Longrightarrow> P g'"
  shows "P g'"
  using assms(1,2)
proof (induction ls arbitrary: g)
  case (Cons l ls)
  then show ?case using assms(3) by (auto split: option.splits)
qed simp

lemma inv_execs: "gui_execs ls gui_new = Some g \<Longrightarrow> gui_inv g"
  by (induction rule: gui_execs_induct) (auto intro: gui_inv_new inv_exec)

lemma one_reader_inv:
  assumes "gui_inv g" "t < length (gs_tasks g)" "u < length (gs_tasks g)"
    and "reading (gs_tasks g ! t)" "reading (gs_tasks g ! u)" "\<not> doomed g t" "\<not> doomed g u"
    and "gt_sid (gs_tasks g ! t) = gt_sid (gs_tasks g ! u)"
  shows "t = u"
proof -
  let ?sid = "gt_sid (gs_tasks g ! t)"
  have at: "gs_table g ?sid = Some (v, v) \<or> gs_main g = MSpawned ?sid v v" if "v \<in> {t, u}" for v
    using gui_invD(3) [OF assms(1), of v] assms(2-) that by auto
  have free: "gs_table g ?sid = None" if "gs_main g = MSpawned ?sid v v" for v
    using gui_invD(4) [OF assms(1), of ?sid] that by simp
  show ?thesis using at [of t] at [of u] free by auto
qed

text \<open>
  (C25) One reader for each session.  In every run of the desktop program, whatever the threads that start, detach and close do in
  between, two tasks that read the same session and that nobody has aborted or is about to abort are one task; every entry of the table
  names a task of its session, under that task's generation; and a task that ends takes its own entry out of the table if it is still
  there, and nothing else: the entry of a task that has taken its place stays.
\<close>

theorem gui_one_reader:
  assumes "gui_execs ls gui_new = Some g"
  shows "(\<forall>t u. t < length (gs_tasks g) \<longrightarrow> u < length (gs_tasks g) \<longrightarrow> reading (gs_tasks g ! t) \<longrightarrow> reading (gs_tasks g ! u) \<longrightarrow>
      \<not> doomed g t \<longrightarrow> \<not> doomed g u \<longrightarrow> gt_sid (gs_tasks g ! t) = gt_sid (gs_tasks g ! u) \<longrightarrow> t = u) \<and>
    (\<forall>sid t n. gs_table g sid = Some (t, n) \<longrightarrow>
      t < length (gs_tasks g) \<and> gt_sid (gs_tasks g ! t) = sid \<and> gt_gen (gs_tasks g ! t) = n) \<and>
    (\<forall>v < length (gs_tasks g). gs_table (task_remove_if v g) =
      (\<lambda>sid. case gs_table g sid of
         None \<Rightarrow> None
       | Some (t, n) \<Rightarrow> if t = v then None else Some (t, n)))"
proof (intro conjI allI impI)
  have inv: "gui_inv g" using inv_execs assms by blast
  show "t = u" if "t < length (gs_tasks g)" "u < length (gs_tasks g)" "reading (gs_tasks g ! t)" "reading (gs_tasks g ! u)"
    "\<not> doomed g t" "\<not> doomed g u" "gt_sid (gs_tasks g ! t) = gt_sid (gs_tasks g ! u)" for t u
    using one_reader_inv [OF inv] that by blast
  show "t < length (gs_tasks g)" "gt_sid (gs_tasks g ! t) = sid" "gt_gen (gs_tasks g ! t) = n" if "gs_table g sid = Some (t, n)" for sid t n
    using gui_invD(5) [OF inv that] gui_invD(2) [OF inv, of t] by auto
  show "gs_table (task_remove_if v g) = (\<lambda>sid. case gs_table g sid of None \<Rightarrow> None | Some (t, n) \<Rightarrow> if t = v then None else Some (t, n))"
    if v: "v < length (gs_tasks g)" for v
  proof
    fix sid
    have gen: "gt_gen (gs_tasks g ! v) = v" using gui_invD(2) [OF inv v] .
    have own: "gt_sid (gs_tasks g ! v) = k" if "gs_table g k = Some (v, n)" for k n using gui_invD(5) [OF inv that] by simp
    have same: "n = t" if "gs_table g k = Some (t, n)" for k t n using gui_invD(5) [OF inv that] by simp
    show "gs_table (task_remove_if v g) sid = (case gs_table g sid of None \<Rightarrow> None | Some (t, n) \<Rightarrow> if t = v then None else Some (t, n))"
      using gen own [of sid] same [of sid] by (auto simp: task_remove_if_def Let_def split: option.split)
  qed
qed

section \<open>Output in order\<close>

text \<open>What the frontend got of a session, and what a task of it holds and will emit.\<close>

fun bytes_of :: "string \<Rightarrow> gevent list \<Rightarrow> bytes" where
  "bytes_of sid [] = []"
| "bytes_of sid (PtyData k d # es) = (if k = sid then d else []) @ bytes_of sid es"
| "bytes_of sid (PtyEof k # es) = bytes_of sid es"

definition held_of :: "string \<Rightarrow> gtask \<Rightarrow> bytes" where
  "held_of sid k = (case gt_pc k of Emitting d \<Rightarrow> if gt_sid k = sid then d else [] | _ \<Rightarrow> [])"

definition holding :: "string \<Rightarrow> gui_state \<Rightarrow> bytes" where
  "holding sid g = concat (map (held_of sid) (gs_tasks g))"

text \<open>No task of the session was ever aborted or is about to be.\<close>

definition undisturbed :: "string \<Rightarrow> gui_state \<Rightarrow> bool" where
  "undisturbed sid g \<longleftrightarrow> (\<forall>t < length (gs_tasks g). gt_sid (gs_tasks g ! t) = sid \<longrightarrow> \<not> doomed g t)"

lemma bytes_of_append [simp]: "bytes_of sid (xs @ ys) = bytes_of sid xs @ bytes_of sid ys"
  by (induction xs rule: bytes_of.induct) auto

lemma concat_single:
  "t < length xs \<Longrightarrow> (\<And>k. k < length xs \<Longrightarrow> k \<noteq> t \<Longrightarrow> f (xs ! k) = []) \<Longrightarrow> concat (map f xs) = f (xs ! t)"
proof (induction xs arbitrary: t)
  case (Cons x xs)
  show ?case
  proof (cases t)
    case 0
    have "f y = []" if "y \<in> set xs" for y
      using that Cons.prems(2) [of "Suc k" for k] 0 by (auto simp: in_set_conv_nth)
    then show ?thesis using 0 by simp
  next
    case (Suc u)
    then show ?thesis using Cons.IH [of u] Cons.prems(1) Cons.prems(2) [of 0] Cons.prems(2) [of "Suc k" for k] by auto
  qed
qed simp

text \<open>If a task reads, no other holds anything.\<close>

lemma only_reader_holds:
  assumes "gui_inv g" "undisturbed sid g" "t < length (gs_tasks g)" "reading (gs_tasks g ! t)" "gt_sid (gs_tasks g ! t) = sid"
    and k: "k < length (gs_tasks g)" "k \<noteq> t"
  shows "held_of sid (gs_tasks g ! k) = []"
proof (rule ccontr)
  assume "held_of sid (gs_tasks g ! k) \<noteq> []"
  then have "reading (gs_tasks g ! k)" "gt_sid (gs_tasks g ! k) = sid"
    by (auto simp: held_of_def reading_def split: task_pc.splits if_splits)
  then show False using one_reader_inv [OF assms(1), of k t] assms(2-) by (auto simp: undisturbed_def)
qed

lemma holding_reader:
  assumes "gui_inv g" "undisturbed sid g" "t < length (gs_tasks g)" "reading (gs_tasks g ! t)" "gt_sid (gs_tasks g ! t) = sid"
  shows "holding sid g = held_of sid (gs_tasks g ! t)" "holding sid (upd_task t f g) = held_of sid (f (gs_tasks g ! t))"
proof -
  show "holding sid g = held_of sid (gs_tasks g ! t)"
    unfolding holding_def by (rule concat_single [OF assms(3)]) (rule only_reader_holds [OF assms])
  have "concat (map (held_of sid) (gs_tasks (upd_task t f g))) = held_of sid (gs_tasks (upd_task t f g) ! t)"
    by (rule concat_single) (use assms(3) only_reader_holds [OF assms] in auto)
  then show "holding sid (upd_task t f g) = held_of sid (f (gs_tasks g ! t))" using assms(3) by (simp add: holding_def)
qed

lemma holding_upd:
  "t < length (gs_tasks g) \<Longrightarrow> held_of sid (f (gs_tasks g ! t)) = held_of sid (gs_tasks g ! t) \<Longrightarrow> holding sid (upd_task t f g) = holding sid g"
  unfolding holding_def
  by (rule arg_cong [of _ _ concat], rule nth_equalityI) auto

lemma upd_task_nth:
  "gs_tasks (upd_task t f g) ! k = (if k = t \<and> t < length (gs_tasks g) then f (gs_tasks g ! t) else gs_tasks g ! k)"
  by (auto simp: upd_task_def nth_list_update list_update_beyond)

lemmas exec_defs = start_take_def start_abort_def abort_task_def start_spawn_def start_insert_def abort_take_def abort_taken_def
  task_read_def task_emit_def task_remove_if_def Let_def

lemma doomed_back: "gui_exec l g = Some g' \<Longrightarrow> t < length (gs_tasks g) \<Longrightarrow> doomed g t \<Longrightarrow> gui_inv g \<Longrightarrow> doomed g' t"
  by (cases l) (auto simp: doomed_def exec_defs runs_def nth_append upd_task_nth
      split: if_splits main_pc.splits option.splits list.splits gread.splits task_pc.splits)

lemma exec_tasks:
  "gui_exec l g = Some g' \<Longrightarrow> t < length (gs_tasks g) \<Longrightarrow> t < length (gs_tasks g') \<and> gt_sid (gs_tasks g' ! t) = gt_sid (gs_tasks g ! t)"
  by (cases l) (auto simp: exec_defs runs_def nth_append upd_task_nth
      split: if_splits main_pc.splits option.splits list.splits gread.splits task_pc.splits)

text \<open>The steps that touch neither what was read nor what was emitted nor what is held.\<close>

lemma holding_abort [simp]: "holding sid (abort_task t g) = holding sid g"
proof (cases "t < length (gs_tasks g)")
  case True
  then show ?thesis unfolding abort_task_def by (rule holding_upd) (simp add: held_of_def split: task_pc.split)
qed (simp add: abort_task_def upd_task_def list_update_beyond)

lemma holding_env [simp]:
  "holding sid (g\<lparr>gs_queue := q\<rparr>) = holding sid g" "holding sid (g\<lparr>gs_read := h\<rparr>) = holding sid g"
  "holding sid (g\<lparr>gs_events := es\<rparr>) = holding sid g" "holding sid (g\<lparr>gs_app_open := b\<rparr>) = holding sid g"
  "holding sid (g\<lparr>gs_table := tb\<rparr>) = holding sid g" "holding sid (g\<lparr>gs_main := m\<rparr>) = holding sid g"
  "holding sid (g\<lparr>gs_aborting := ab\<rparr>) = holding sid g"
  by (simp_all add: holding_def)

lemma order_read:
  assumes "gui_inv g" "undisturbed sid g" "gs_app_open g" "t < length (gs_tasks g)" "gt_pc (gs_tasks g ! t) = AtRead"
    and "bytes_of sid (gs_events g) @ holding sid g = gs_read g sid"
  shows "bytes_of sid (gs_events (task_read t g)) @ holding sid (task_read t g) = gs_read (task_read t g) sid"
proof (cases "gt_sid (gs_tasks g ! t) = sid")
  case True
  have "reading (gs_tasks g ! t)" using assms(5) by (simp add: reading_def)
  note hold = holding_reader [OF assms(1,2,4) this True]
  have env: "upd_task t f (g\<lparr>gs_queue := q, gs_read := h\<rparr>) = (upd_task t f g)\<lparr>gs_queue := q, gs_read := h\<rparr>"
    "upd_task t f (g\<lparr>gs_queue := q, gs_events := es\<rparr>) = (upd_task t f g)\<lparr>gs_queue := q, gs_events := es\<rparr>" for f q h es
    by (simp_all add: upd_task_def)
  show ?thesis using assms(3,5,6) True hold
    by (auto simp: task_read_def Let_def env held_of_def split: list.split gread.split)
next
  case False
  have up: "holding sid (upd_task t f g') = holding sid g"
    if "gs_tasks g' = gs_tasks g" "\<And>k. gt_sid (f k) = gt_sid k" for f g'
  proof -
    have "holding sid (upd_task t f g') = holding sid g'"
      using that assms(4) False by (intro holding_upd) (auto simp: held_of_def split: task_pc.split)
    then show ?thesis using that(1) by (simp add: holding_def)
  qed
  show ?thesis using assms(6) False by (auto simp: task_read_def Let_def up split: list.split gread.split)
qed

lemma order_emit:
  assumes "gui_inv g" "undisturbed sid g" "gs_app_open g" "t < length (gs_tasks g)"
    and "bytes_of sid (gs_events g) @ holding sid g = gs_read g sid"
  shows "bytes_of sid (gs_events (task_emit t g)) @ holding sid (task_emit t g) = gs_read (task_emit t g) sid"
proof (cases "gt_pc (gs_tasks g ! t)")
  case (Emitting d)
  let ?f = "\<lambda>k. k\<lparr>gt_pc := AtRead\<rparr>"
  have e: "task_emit t g = (upd_task t ?f g)\<lparr>gs_events := gs_events g @ [PtyData (gt_sid (gs_tasks g ! t)) d]\<rparr>"
    using Emitting assms(3) by (simp add: task_emit_def upd_task_def)
  show ?thesis
  proof (cases "gt_sid (gs_tasks g ! t) = sid")
    case True
    have "reading (gs_tasks g ! t)" using Emitting by (simp add: reading_def)
    note hold = holding_reader [OF assms(1,2,4) this True]
    show ?thesis using assms(5) hold(1) hold(2) [of ?f] True Emitting by (simp add: e held_of_def)
  next
    case False
    then have "holding sid (upd_task t ?f g) = holding sid g"
      using assms(4) Emitting by (intro holding_upd) (simp_all add: held_of_def)
    then show ?thesis using assms(5) False by (simp add: e)
  qed
qed (use assms(5) in \<open>simp_all add: task_emit_def\<close>)

lemma order_exec:
  assumes "gui_exec l g = Some g'" "gui_inv g" "undisturbed sid g" "gs_app_open g"
    and "bytes_of sid (gs_events g) @ holding sid g = gs_read g sid"
  shows "bytes_of sid (gs_events g') @ holding sid g' = gs_read g' sid"
proof (cases l)
  case (Read t)
  then show ?thesis using assms order_read [OF assms(2-4), of t] by (auto simp: runs_def split: if_splits)
next
  case (Emit t)
  then show ?thesis using assms order_emit [OF assms(2-4), of t] by (auto simp: runs_def split: if_splits)
next
  case (RemoveIf t)
  then have t: "t < length (gs_tasks g)" "gt_pc (gs_tasks g ! t) = AtEnd" "g' = task_remove_if t g"
    using assms(1) by (auto simp: runs_def split: if_splits)
  have "holding sid (upd_task t (\<lambda>k. k\<lparr>gt_pc := Gone\<rparr>) h) = holding sid h" if "gs_tasks h = gs_tasks g" for h
    using t that by (intro holding_upd) (simp_all add: held_of_def)
  then show ?thesis using t(3) assms(5) by (auto simp: task_remove_if_def Let_def split: option.split)
next
  case StartSpawn
  then show ?thesis using assms by (auto simp: start_spawn_def holding_def held_of_def Let_def split: main_pc.splits)
next
  case (Poll t)
  then show ?thesis using assms holding_upd [of t g sid "\<lambda>k. k\<lparr>gt_running := True\<rparr>"]
    by (auto simp: held_of_def split: if_splits task_pc.splits)
next
  case (Pend t)
  then show ?thesis using assms
      holding_upd [of t g sid "\<lambda>k. k\<lparr>gt_running := False, gt_pc := (if gt_aborted k then Gone else AtRead)\<rparr>"]
    by (auto simp: held_of_def split: if_splits)
qed (use assms in \<open>auto simp: start_take_def start_abort_def start_insert_def abort_take_def abort_taken_def abort_task_def
    holding_abort [unfolded abort_task_def] split: if_splits main_pc.splits option.splits list.splits\<close>)

text \<open>
  (C24) The frontend gets a terminal's output in order.  In every run in which no reader of a session was aborted and the program is
  open, what was emitted of it, followed by what its one reader holds, is what was read of it: nothing lost,
  nothing doubled, whatever other sessions do.
\<close>

theorem gui_output_in_order:
  assumes "gui_execs ls gui_new = Some g" "undisturbed sid g" "gs_app_open g"
  shows "bytes_of sid (gs_events g) @ holding sid g = gs_read g sid"
proof -
  have "gui_inv g \<and> (undisturbed sid g \<longrightarrow> gs_app_open g \<longrightarrow> bytes_of sid (gs_events g) @ holding sid g = gs_read g sid)"
    using assms(1)
  proof (induction rule: gui_execs_induct)
    case start
    show ?case using gui_inv_new by (simp add: gui_new_def holding_def)
  next
    case (step l g g')
    have "undisturbed sid g" if "undisturbed sid g'"
      using that step exec_tasks [OF step(2)] doomed_back [OF step(2)] by (auto simp: undisturbed_def)
    moreover have "gs_app_open g" if "gs_app_open g'"
      using that step(2) by (cases l) (auto simp: exec_defs
          split: if_splits main_pc.splits option.splits list.splits gread.splits task_pc.splits)
    ultimately show ?case using step inv_exec [OF step(2)] order_exec [OF step(2)] by blast
  qed
  then show ?thesis using assms(2,3) by blast
qed

section \<open>Two races\<close>

text \<open>
  The new task runs before the main thread has put it into the table: a terminal that ends at once takes out nothing, and
  its entry is put in afterwards and stays.
\<close>

lemma stale_entry:
  "\<exists>g. gui_execs [StartTake ''s'', StartAbort, StartSpawn, Arrive ''s'' ReadEnd, Poll 0, Read 0, RemoveIf 0, StartInsert] gui_new = Some g \<and>
     gs_table g ''s'' = Some (0, 0) \<and> gt_pc (gs_tasks g ! 0) = Gone"
  by (simp add: gui_new_def runs_def exec_defs upd_task_def)

text \<open>
  A reader that is aborted while it holds data still emits it; started again meanwhile, the session's new reader has read and
  emitted the data after it.
\<close>

lemma restart_reorders:
  "\<exists>g. gui_execs [StartTake ''s'', StartAbort, StartSpawn, StartInsert, Arrive ''s'' (ReadData [1]), Arrive ''s'' (ReadData [2]), Poll 0, Read 0,
       StartTake ''s'', StartAbort, StartSpawn, StartInsert, Poll 1, Read 1, Emit 1, Emit 0] gui_new = Some g \<and>
     gs_read g ''s'' = [1, 2] \<and> bytes_of ''s'' (gs_events g) = [2, 1]"
  by (simp add: gui_new_def runs_def exec_defs upd_task_def)

section \<open>A session the program opened\<close>

text \<open>
  A session the program opened is in the manager's map, ready, and has no read task of its own: the task the frontend starts is its only reader.
\<close>

lemma gui_opened_is_raw:
  assumes "gui_open_session w sm host_alias c r = (sm', Inr sid)"
  shows "\<exists>a. lookup sm' sid = Some a \<and> s_state (sess sm' a) = Ready \<and> \<not> s_read_task (sess sm' a) \<and> \<not> s_reading (sess sm' a)"
proof -
  obtain sm1 tr where o: "open_session (tw_open w) sm host_alias (Some \<lparr>rows = r, cols = c\<rparr>) (Some True) (Some ''gui'') = (sm1, Inr sid, tr)"
    and raw: "prepare_for_raw_mode sm1 sid = (sm', Inr ())"
    using assms by (auto simp: gui_open_session_def gui_made_raw_def gui_result_def map_sum_def split: prod.splits sum.splits)
  obtain a where a: "lookup sm1 sid = Some a" "a < length (sm_objs sm1)" "s_state (sess sm1 a) = Ready" "s_read_task (sess sm1 a)"
    using o by (auto simp: open_session_def open_with_def new_obj_def sess_def session_new_def map_insert_def lookup_def Let_def
        split: sum.splits if_splits prod.splits)
  show ?thesis using raw a by (auto simp: prepare_for_raw_mode_def Session_Manager.get_session_def abort_read_task_def)
qed

section \<open>Witnesses\<close>

definition demo_gui_run :: "glabel list" where
  "demo_gui_run = [StartTake ''s'', StartAbort, StartSpawn, StartInsert, Arrive ''s'' (ReadData [1]), Poll 0, Read 0]"

lemma demo_gui_run_result:
  "\<exists>g. gui_execs demo_gui_run gui_new = Some g \<and> length (gs_tasks g) = 1 \<and> reading (gs_tasks g ! 0) \<and> \<not> doomed g 0 \<and>
     gt_sid (gs_tasks g ! 0) = ''s'' \<and> gs_app_open g \<and> gs_read g ''s'' = [1] \<and> bytes_of ''s'' (gs_events g) = []"
  by (simp add: demo_gui_run_def gui_new_def runs_def exec_defs upd_task_def reading_def doomed_def)

text \<open>A task that has read the end of its session and whose place has been taken: when it leaves, the entry of the second one stays.\<close>

definition replaced_run :: "glabel list" where
  "replaced_run = [StartTake ''s'', StartAbort, StartSpawn, StartInsert, Arrive ''s'' ReadEnd, Poll 0, Read 0,
     StartTake ''s'', StartAbort, StartSpawn, StartInsert]"

lemma replaced_run_result:
  "\<exists>g. gui_execs replaced_run gui_new = Some g \<and> length (gs_tasks g) = 2 \<and> gt_pc (gs_tasks g ! 0) = AtEnd \<and> gs_table g ''s'' = Some (1, 1)"
  by (simp add: replaced_run_def gui_new_def runs_def exec_defs upd_task_def)

theorem gui_one_reader_witness:
  "\<exists>g. gui_execs replaced_run gui_new = Some g \<and> gt_pc (gs_tasks g ! 0) = AtEnd \<and> gs_table (task_remove_if 0 g) ''s'' = Some (1, 1) \<and>
     gt_sid (gs_tasks g ! 1) = ''s''"
proof -
  obtain g where g: "gui_execs replaced_run gui_new = Some g" "length (gs_tasks g) = 2" "gt_pc (gs_tasks g ! 0) = AtEnd"
    "gs_table g ''s'' = Some (1, 1)" using replaced_run_result by blast
  note one = gui_one_reader [OF g(1)]
  have "gs_table (task_remove_if 0 g) ''s'' = Some (1, 1)" using one g(2,4) by simp
  moreover have "gt_sid (gs_tasks g ! 1) = ''s''" using one g(4) by blast
  ultimately show ?thesis using g by blast
qed

theorem gui_output_in_order_witness:
  "\<exists>g. gui_execs demo_gui_run gui_new = Some g \<and> holding ''s'' g = [1]"
proof -
  obtain g where g: "gui_execs demo_gui_run gui_new = Some g" "length (gs_tasks g) = 1" "\<not> doomed g 0" "gs_app_open g"
    "gs_read g ''s'' = [1]" "bytes_of ''s'' (gs_events g) = []" using demo_gui_run_result by blast
  have "undisturbed ''s'' g" using g by (simp add: undisturbed_def)
  from gui_output_in_order [OF g(1) this g(4)] g show ?thesis by auto
qed

end
