(* ===== verification/Startup.thy ===== *)
theory Startup
  imports Mcp_Server Agentd_Main Control_Instance
begin

text \<open>
  How the programs come up: where files are looked for, the ids a daemon gives out, the manager the constructors build, and the
  start of the MCP server (src/main.rs) with what it falls back to.  The environment, the directories of the platform and the
  outcomes of the parts that are started are arguments.
\<close>

section \<open>Files\<close>

text \<open>\<open>dirs\<close> and \<open>home\<close> are what the dirs crate gives for the configuration and the home directory.\<close>

definition default_config_dir :: "platform \<Rightarrow> (string \<Rightarrow> string option) \<Rightarrow> string option \<Rightarrow> string option \<Rightarrow> string" where
  "default_config_dir os env dirs home =
     (let base =
        (if os = MacOs then
           (case env ''XDG_CONFIG_HOME'' of
              Some d \<Rightarrow> d
            | None \<Rightarrow> path_join (case home of Some h \<Rightarrow> h | None \<Rightarrow> ''.'') ''.config'')
         else (case dirs of Some d \<Rightarrow> d | None \<Rightarrow> (case home of Some h \<Rightarrow> h | None \<Rightarrow> ''.'')));
        app_dir = (if os = Windows then ''TermBridge'' else ''termbridge'')
      in path_join base app_dir)"

definition default_config_path :: "platform \<Rightarrow> (string \<Rightarrow> string option) \<Rightarrow> string option \<Rightarrow> string option \<Rightarrow> string" where
  "default_config_path os env dirs home = path_join (default_config_dir os env dirs home) ''hosts.toml''"

definition local_agentd_path :: "(string \<Rightarrow> string option) \<Rightarrow> string option \<Rightarrow> string" where
  "local_agentd_path env data_local =
     (let base = (case data_local of
                    Some d \<Rightarrow> d | None \<Rightarrow> (case env ''LOCALAPPDATA'' of Some d \<Rightarrow> d | None \<Rightarrow> []))
      in path_join (path_join (path_join base ''TermBridge'') ''agentd'') ''termbridge-agentd'')"

text \<open>\<open>exe_dir\<close> is the directory of the running program, if it is known.\<close>

definition bundled_agentd_path :: "string option \<Rightarrow> string option" where
  "bundled_agentd_path exe_dir =
     map_option (\<lambda>d. path_join (path_join (path_join (path_join d ''resources'') ''agentd'') ''linux-x86_64'') ''termbridge-agentd'') exe_dir"

text \<open>An empty or relative \<open>XDG_CONFIG_HOME\<close> on macOS puts the policy file below the working directory.\<close>

lemma relative_config_dir:
  "default_config_path MacOs (\<lambda>k. if k = ''XDG_CONFIG_HOME'' then Some [] else None) dirs home = ''termbridge/hosts.toml''"
  by (simp add: default_config_path_def default_config_dir_def path_join_def Let_def suffix_to_prefix)

section \<open>Ids of the daemon\<close>

text \<open>The counter's value and the nanoseconds since the epoch; \<open>as u32\<close> keeps the low 32 bits.\<close>

definition mixed_id :: "u64 \<Rightarrow> u64 \<Rightarrow> string" where
  "mixed_id n ts = hex_pad 8 (unat (ucast (xor n ts) :: u32))"

definition gen_session_id :: "u64 \<Rightarrow> u64 \<Rightarrow> string" where
  "gen_session_id n ts = ''sess_'' @ mixed_id n ts"

definition gen_daemon_id :: "u64 \<Rightarrow> u64 \<Rightarrow> string" where
  "gen_daemon_id n ts = ''daed_'' @ mixed_id n ts"

section \<open>The manager\<close>

text \<open>
  \<open>SessionManager::new\<close> and \<open>with_host_policy\<close>: the path policy from the working directory and the environment (\<open>pp\<close>), the default
  policy chain, the resolver.
\<close>

definition with_host_policy :: "path_policy \<Rightarrow> (string \<Rightarrow> string \<Rightarrow> bool) \<Rightarrow> resolver \<Rightarrow> smgr" where
  "with_host_policy pp is_match host_policy = smgr_new pp (with_default is_match) host_policy"

definition manager_for_cli :: "path_policy \<Rightarrow> (string \<Rightarrow> string \<Rightarrow> bool) \<Rightarrow> smgr" where
  "manager_for_cli pp is_match = smgr_new pp (with_default is_match) resolver_empty"

definition load_default :: "(string \<Rightarrow> read_error + string) \<Rightarrow> (string \<Rightarrow> host_policy_config option) \<Rightarrow> string \<Rightarrow> resolver" where
  "load_default read_file toml path = Host_Policy.load_from (read_file path) toml"

section \<open>The MCP server's start\<close>

datatype credential_source = Helper | Noop

datatype start_action =
    Print string
  | InitLogging
  | CheckForUpdates
  | ControlListening instance_info
  | ControlUnavailable
  | ServeStdio

record main_world =
  mw_args :: "string list"
  mw_version :: string
  mw_read_file :: "string \<Rightarrow> read_error + string"
  mw_toml :: "string \<Rightarrow> host_policy_config option"
  mw_config_path :: string
  mw_path_policy :: path_policy
  mw_is_match :: "string \<Rightarrow> string \<Rightarrow> bool"
  mw_helper :: "string + unit"
  mw_control :: "string + instance_info"
  mw_stdio :: "string + unit"

text \<open>What is done, the manager that is served with its credential source, and the outcome.\<close>

definition mcp_main :: "main_world \<Rightarrow> start_action list \<times> (smgr \<times> credential_source) option \<times> (string + unit)" where
  "mcp_main w =
     (if list_ex (\<lambda>a. a = ''--version'' \<or> a = ''-V'') (mw_args w)
      then ([Print (''termbridge-mcp '' @ mw_version w)], None, Inr ())
      else
        (let cred = (case mw_helper w of Inr _ \<Rightarrow> Helper | Inl _ \<Rightarrow> Noop);
             sm = with_host_policy (mw_path_policy w) (mw_is_match w) (load_default (mw_read_file w) (mw_toml w) (mw_config_path w));
             control = (case mw_control w of Inr i \<Rightarrow> ControlListening i | Inl _ \<Rightarrow> ControlUnavailable)
         in ([InitLogging, CheckForUpdates, control, ServeStdio], Some (sm, cred), mw_stdio w)))"

section \<open>A damaged policy file closes the SFTP tools\<close>

text \<open>
  (C38) A server that starts on a damaged policy file fails closed, and stays so.  If hosts.toml exists but cannot be read or parsed, the
  server starts all the same; after any sequence of tool calls, whatever they opened, closed and reconnected, the path check of every
  session in the map refuses every remote path, on any server that does not resolve one to the sentinel directory.
\<close>

theorem damaged_policy_closes_sftp:
  assumes "mcp_main w = (as, Some (sm, cred), r)"
    and "mw_read_file w (mw_config_path w) = Inl OtherIoError \<or>
      (\<exists>content. mw_read_file w (mw_config_path w) = Inr content \<and> mw_toml w content = None)"
    and "tools sm ts = Some (sm', os)" "lookup sm' sid = Some a"
    and "\<And>q c. sw_realpath sw q = Inr c \<Longrightarrow> \<not> prefix CORRUPT_DENY_ALL_SCOPE c"
  shows "remote_check sw sm' sid remote op \<noteq> Inr ()"
proof
  assume "remote_check sw sm' sid remote op = Inr ()"
  have hp: "sm_host_policy sm = Host_Policy.load_from (mw_read_file w (mw_config_path w)) (mw_toml w)"
    using assms(1) by (auto simp: mcp_main_def with_host_policy_def smgr_new_def load_default_def Let_def split: if_splits)
  have "sm_host_policy sm' = sm_host_policy sm" using orderly_tools [OF assms(3)] by (simp add: orderly_def)
  then have "check_remote_access (sm_path_policy sm') (sw_realpath sw) (sw_home sw) remote op
      (allowed_remote_paths_for (Host_Policy.load_from (mw_read_file w (mw_config_path w)) (mw_toml w)) (s_host (sess sm' a))) = Inr ()"
    using assms(4) hp \<open>remote_check sw sm' sid remote op = Inr ()\<close> by (simp add: remote_check_def remote_roots_for_def)
  from corrupt_config_denies [OF assms(2) this] show False using assms(5) by blast
qed

text \<open>
  The roots are looked up by the session's id when the path is checked: if the session is closed while its SFTP channel is being opened, the
  declared roots of its host, and the closed ones of a damaged file, are replaced by the global ones.
\<close>

lemma closed_during_check_widens:
  assumes "lookup sm sid = Some a"
  shows "remote_check sw (fst (close_session now io sm sid)) sid remote op =
    check_remote_access (sm_path_policy sm) (sw_realpath sw) (sw_home sw) remote op None"
  using assms by (simp add: close_session_def remote_check_def remote_roots_for_def Let_def case_prod_beta)

section \<open>Two sessions of one id\<close>

lemma hex_pad_length [simp]: "length (hex_pad k n) = k"
  by (induction k arbitrary: n) simp_all

lemma hex_pad_inj: "m < 16 ^ k \<Longrightarrow> n < 16 ^ k \<Longrightarrow> hex_pad k m = hex_pad k n \<longleftrightarrow> m = n"
proof (induction k arbitrary: m n)
  case (Suc k)
  have "m div 16 < 16 ^ k" "n div 16 < 16 ^ k" using Suc.prems by (simp_all add: less_mult_imp_div_less mult.commute)
  then have "hex_pad k (m div 16) = hex_pad k (n div 16) \<longleftrightarrow> m div 16 = n div 16" using Suc.IH by blast
  moreover have "hex_digit (m mod 16) = hex_digit (n mod 16) \<longleftrightarrow> m mod 16 = n mod 16" by (rule hex_digit_inj) simp_all
  ultimately show ?case by (auto simp: mult.commute) (metis div_mult_mod_eq)
qed simp

lemma mixed_id_eq: "mixed_id n ts = mixed_id n' ts' \<longleftrightarrow> (ucast (xor n ts) :: u32) = ucast (xor n' ts')"
proof -
  have "unat (x :: u32) < 16 ^ 8" for x using unsigned_less [of x, where 'a = nat] by simp
  then show ?thesis by (simp add: mixed_id_def hex_pad_inj word_unat_eq_iff)
qed

text \<open>An id has 13 characters.\<close>

lemma session_id_length: "length (gen_session_id n ts) = 13"
  by (simp add: gen_session_id_def mixed_id_def)

text \<open>
  The counter does not keep ids apart: mixed into the clock, a later count at a later time gives the same id; the second session
  then takes the first one's place in the map, whose terminal no request can reach any more.
\<close>

lemma session_ids_collide:
  "gen_session_id 0 1000000000 = gen_session_id 1 5294967297"
proof -
  have "(ucast (xor (0 :: u64) 1000000000) :: u32) = ucast (xor (1 :: u64) 5294967297)" by simp
  then show ?thesis by (simp add: gen_session_id_def mixed_id_eq)
qed

lemma collision_replaces_session:
  assumes "create w m shell cwd sz name = (m1, Inr sid)" "create w' m1 shell' cwd' sz' name' = (m2, Inr sid)"
  shows "Agentd.get_session m2 sid \<noteq> Agentd.get_session m1 sid"
  using assms by (auto simp: create_def Agentd.get_session_def Let_def split: sum.splits)

section \<open>A witness\<close>

definition demo_main :: main_world where
  "demo_main = \<lparr>mw_args = [''termbridge-mcp''], mw_version = ''1.0.0'', mw_read_file = (\<lambda>_. Inl OtherIoError), mw_toml = (\<lambda>_. None),
     mw_config_path = ''/home/ops/.config/termbridge/hosts.toml'', mw_path_policy = \<lparr>allowed_local_paths = [], allowed_remote_paths = [''/'']\<rparr>,
     mw_is_match = (\<lambda>_ _. False), mw_helper = Inl ''no helper'', mw_control = Inl ''no socket'', mw_stdio = Inr ()\<rparr>"

definition demo_open_params :: open_session_params where
  "demo_open_params = \<lparr>os_host = ''web'', os_rows = None, os_cols = None, os_persistent = None, os_name = None\<rparr>"

text \<open>The server starts without its helper and its control socket; the session it opens can reach nothing.\<close>

theorem damaged_policy_closes_sftp_witness:
  "\<exists>sm sm' os. fst (mcp_main demo_main) = [InitLogging, CheckForUpdates, ControlUnavailable, ServeStdio] \<and>
     tools sm [(mcp_world, OpenSession demo_open_params)] = Some (sm', os) \<and> lookup sm' ''sess_0'' = Some 0 \<and>
     remote_check (demo_sftp\<lparr>sw_realpath := \<lambda>_. Inr ''/home''\<rparr>) sm' ''sess_0'' ''/home'' Read \<noteq> Inr ()"
proof -
  obtain sm where m: "mcp_main demo_main = ([InitLogging, CheckForUpdates, ControlUnavailable, ServeStdio], Some (sm, Noop), Inr ())"
    and sm: "sm = smgr_new \<lparr>allowed_local_paths = [], allowed_remote_paths = [''/'']\<rparr> (with_default (\<lambda>_ _. False))
        \<lparr>hr_config = (\<lambda>_. None), hr_corrupt = True\<rparr>"
    by (simp add: mcp_main_def demo_main_def with_host_policy_def load_default_def Host_Policy.load_from_def)
  obtain sm' os where t: "tools sm [(mcp_world, OpenSession demo_open_params)] = Some (sm', os)" "lookup sm' ''sess_0'' = Some 0"
    by (simp add: sm tool_open_session_def demo_open_params_def mcp_world_sel demo_open_world_def demo_host_def open_session_def
        open_with_def resolve_session_mode_def resolve_auth_mode_def resolve_def smgr_new_def next_session_id_def new_obj_def
        map_insert_def validate_auth_session_combo_def resolved_default_def or_else_def unwrap_or_def lookup_def)
  have "\<not> prefix CORRUPT_DENY_ALL_SCOPE ''/home''" by (simp add: CORRUPT_DENY_ALL_SCOPE_def)
  then have "remote_check (demo_sftp\<lparr>sw_realpath := \<lambda>_. Inr ''/home''\<rparr>) sm' ''sess_0'' ''/home'' Read \<noteq> Inr ()"
    by (intro damaged_policy_closes_sftp [OF m _ t]) (auto simp: demo_main_def)
  then show ?thesis using m t by auto
qed

end
