(* ===== verification/Spec2Isabelle.thy ===== *)
theory Spec2Isabelle
  imports Agentd_Run Env_Probe Client_Daemon Persistent_Output Remote_Runtime Sftp_Run Pty_Writer Control_Server Control_Instance
    Credential_Helper Bootstrap Hosts Update_Check Redact Mcp_Server Agentd_Main Admin_Cli Cli_Client Wire Gui Startup
begin

text \<open>
  A model of TermBridge, a server that gives a program terminal sessions on remote hosts over SSH,
  and of \<open>termbridge-agentd\<close>, the daemon that keeps such sessions alive on the remote host.

  \<^bold>\<open>The program.\<close>  The server (src/) has a domain layer (output buffer and read modes,
  session, timeline, policy vocabulary), an application layer (session manager, command policy, path
  policy, host policy) and infrastructure behind traits (SSH, SFTP, the daemon's client, prompts).
  A tool call enters the session manager, passes the command policy and, for files, the path policy,
  and is then delegated to a session, whose read task moves terminal output into a ring buffer that
  \<open>read_output\<close> drains or pages through.  The daemon (agentd/) holds sessions of its own,
  serves length-framed requests, and pushes output to the attached client through an event pump.

  \<^bold>\<open>Theories, in the order of the code's dependencies.\<close>
  \<^item> \<open>Prelude\<close>: bytes and strings, splitting and joining, association lists.
  \<^item> \<open>Text\<close>: Rust's text operations (UTF-8, trimming, lines, searching) on byte strings.
  \<^item> \<open>Ring_Buffer\<close> (src/domain/output.rs, agentd/src/buffer.rs): both circular buffers; a
    contract relates a ring to the stream written to it (\<open>represents\<close>), with one refinement
    lemma per operation.
  \<^item> \<open>Ansi_Strip\<close> (src/domain/ansi_strip.rs): stripping of control sequences, whole and by
    pages; both are related to one scanner.
  \<^item> \<open>Output_Engine\<close> (src/domain/output.rs): \<open>read_output\<close> and its four modes.
  \<^item> \<open>Provider\<close> (src/domain/provider.rs, src/domain/policy.rs): errors, keys, actions,
    decisions.
  \<^item> \<open>Timeline\<close>, \<open>Session\<close> (src/domain/timeline.rs, src/domain/session.rs): the
    session and the step relation \<open>cs_step\<close> of its read task, callers and closers.
  \<^item> \<open>Path_Policy\<close>, \<open>Policy\<close>, \<open>Host_Policy\<close> (src/application/): what may
    be sent, touched and opened.
  \<^item> \<open>Session_Manager\<close>, \<open>Manager_Run\<close>, \<open>Sftp_Ops\<close>, \<open>Env_Probe\<close>
    (src/application/sessions.rs): the operations of the manager, their interleaving
    \<open>sm_step\<close> with the invariant of the session map, the file tools and the probe.
  \<^item> \<open>Protocol\<close>, \<open>Agentd\<close>, \<open>Agentd_Run\<close> (agentd/src/protocol.rs,
    session.rs, rpc.rs): framing, the daemon's operations and dispatch, and its runs.
  \<^item> \<open>Decimal\<close>, \<open>Ssh_Config\<close> (src/infrastructure/sshconfig.rs): numbers in text;
    what is passed to \<open>ssh -G\<close>, the parser of its output and of jump hosts.
  \<^item> \<open>Daemon_Client\<close>, \<open>Daemon_Client_Run\<close>, \<open>Persistent_Output\<close>,
    \<open>Client_Daemon\<close> (src/infrastructure/persistent.rs, daemon_proto.rs): the client side of the
    daemon's protocol, its interleavings (\<open>cexec\<close>) with the invariant of calls and queues,
    the order of what a handle reads, and client and daemon composed.
  \<^item> \<open>Remote_Runtime\<close> (src/infrastructure/persistent.rs): probing, deploying, stopping and
    restarting the daemon; an operation maps the actions so far to the actions after it.
  \<^item> \<open>Actions\<close>: programs as functions from the actions so far to the actions after it, with
    a result; triples with an error postcondition and their rules carry the proofs about them.
  \<^item> \<open>Ssh_Client\<close> (src/infrastructure/ssh.rs): host keys, jump hosts, authentication, exec and
    the terminal handle; every credential is traced back to an accepted host key.
  \<^item> \<open>Sftp_Client\<close>, \<open>Sftp_Run\<close> (src/infrastructure/sftp.rs): transfers and walks of
    directories, with what they leave on either side; the file tools of the manager composed with them.
  \<^item> \<open>Pty_Writer\<close> (agentd/src/pty.rs): the daemon's input queue with its threads
    (\<open>wstep\<close>), and the end of a terminal.
  \<^item> \<open>Control_Server\<close>, \<open>Control_Instance\<close> (src/transport/control/): the control
    connection, composed with the session manager; tokens, sockets and the registry.
  \<^item> \<open>Credential_Helper\<close> (src/infrastructure/credential/helper.rs,
    crates/termbridge-auth-helper/): the client of the prompt helper, the helper, and its signal guard.
  \<^item> \<open>Bootstrap\<close>, \<open>Hosts\<close> (src/application/bootstrap.rs, hosts.rs,
    src/infrastructure/username_store.rs): setting up key authentication, and remembered users.
  \<^item> \<open>Update_Check\<close>, \<open>Redact\<close> (src/infrastructure/): versions and their throttle, and
    the log writer.
  \<^item> \<open>Mcp_Server\<close> (src/transport/mcp/server.rs): every tool with its checks and answers; a
    sequence of tool calls keeps the manager's invariant and changes files only past all checks.
  \<^item> \<open>Agentd_Main\<close> (agentd/src/main.rs, daemonize.rs): the processes of a host around one socket
    (\<open>host_step\<close>), and the proxy.
  \<^item> \<open>Admin_Cli\<close> (src/bin/termbridge.rs): the administrator's commands, composed with the control
    connection and the manager, and the raw terminal.
  \<^item> \<open>Cli_Client\<close> (cli/src/): the daemon's command line, composed with a connection of the daemon;
    what \<open>attach\<close> shows, from the response to the attach request on, is related to the stream of the session.
  \<^item> \<open>Wire\<close> (agentd/src/protocol.rs, src/infrastructure/daemon_proto.rs, cli/src/protocol.rs, cli/src/client.rs): the JSON
    values that serde derives for messages and results, and the three copies of the framing, which agree; what one side means is what the
    other does.
  \<^item> \<open>Gui\<close> (gui/src-tauri/src/main.rs): the desktop program's read tasks (\<open>gui_exec\<close>) and
    commands.
  \<^item> \<open>Startup\<close> (src/main.rs and constructors): where files are looked for, ids of the daemon, and the
    start of the server with what it falls back to.
  \<^bold>\<open>How code becomes definitions.\<close>  A struct is a record, an enum a datatype, a function a
  \<open>definition\<close> or \<open>fun\<close> of the same name (with a prefix where HOL or another
  component has the name).  An \<open>Err\<close> is the left of a sum with \<open>term_error\<close>, a panic or
  an unending wait is \<open>None\<close>.  Shared objects are addresses into a list of objects.  An
  \<open>async\<close> function that awaits is split at the awaits where another task can be seen.
  Code outside the repository is an argument: regular expressions, \<open>realpath\<close> and the other
  answers of the SFTP server, \<open>ssh -G\<close>, prompts, serde_json, base64 and clocks.  Cursors and
  counters are natural numbers where the code has \<open>u64\<close> and never comes near its end;
  protocol integers, sizes and versions are words of their width.

  What leaves the program is kept where a property needs it: a session of the daemon records what its shell was spawned with and the
  bytes handed to its writer (\<open>ds_spawned\<close>, \<open>ds_input\<close>), which nothing reads; a step of the daemon's processes says whether
  the host may refuse a connection to a listener that lives (\<open>host_step\<close>), as a full backlog does.

  \<^bold>\<open>Bounds.\<close>  Waiting modes run over a finite list of ticks, up to the one at which the deadline fires; \<open>read_output_returns\<close>
  shows that a list with the deadline in it is enough.  Recursive removal counts down from the code's
  own depth limit.  All other loops are structural or carry a measure.

  \<^bold>\<open>Not modelled.\<close>  Spawning shells and helpers, detaching from the terminal, the accept loops, Windows pipes and
  dialogs and logging set-up are system calls.  Printed tables and the JSON text of the tools' answers are left out
  (the answers are values), as are the set-up of the Tauri window, the TypeScript front end, the JSON schemas of the
  tools' parameters, the packaging and the example programs.
\<close>

end
